(* ===== verification/Jkb_Prelude.thy ===== *)
theory Jkb_Prelude
  imports Main "HOL-Library.Word"
begin

text \<open>
  Shared ground of the development: the collections of simplification rules the component
  theories add to, the result type of fallible operations, the text helpers the Rust
  code gets from \<open>format!\<close>, \<open>join\<close> and \<open>split\<close>, and the generic list lemmas that
  several components use.

  Conventions. A Rust \<open>String\<close> or \<open>&str\<close> is a \<^typ>\<open>string\<close>, read as its UTF-8
  bytes, so \<open>len\<close> is \<^const>\<open>length\<close>. A \<open>Result\<close> is a sum with the error on the left.
  A \<open>HashSet\<close> or \<open>BTreeSet\<close> that is only asked for membership is a list of the
  elements inserted so far.
\<close>

section \<open>Rule collections\<close>

named_theorems fact_simps \<open>three-valued facts: when a connective is proven or refuted\<close>
named_theorems guard_simps \<open>when a guard clause allows\<close>
named_theorems fsm_defs \<open>the operations of the generic machine, unfolded\<close>
named_theorems table_defs \<open>the concrete transition tables, unfolded\<close>
named_theorems store_defs \<open>the statements over the stored rows, unfolded\<close>

section \<open>Results\<close>

type_synonym ('e, 'a) result = "'e + 'a"

definition result_bind :: "('e, 'a) result \<Rightarrow> ('a \<Rightarrow> ('e, 'b) result) \<Rightarrow> ('e, 'b) result" where
  "result_bind r f = (case r of Inl e \<Rightarrow> Inl e | Inr a \<Rightarrow> f a)"

lemma result_bind_simps [simp]:
  "result_bind (Inl e) f = Inl e"
  "result_bind (Inr a) f = f a"
  by (simp_all add: result_bind_def)

lemma result_bind_Inr:
  "result_bind r f = Inr b \<longleftrightarrow> (\<exists>a. r = Inr a \<and> f a = Inr b)"
  by (cases r) auto

lemma result_caseD:
  "(case r of Inl _ \<Rightarrow> False | Inr a \<Rightarrow> P a) \<Longrightarrow> \<exists>a. r = Inr a \<and> P a"
  by (cases r) auto

section \<open>Text\<close>

text \<open>The UTF-8 bytes of the two characters outside ASCII that the messages use.\<close>

definition emdash :: string where
  "emdash = [CHR 0xE2, CHR 0x80, CHR 0x94]"

definition checkmark :: string where
  "checkmark = [CHR 0xE2, CHR 0x9C, CHR 0x93]"

text \<open>A decimal number as \<open>Display\<close> writes it.\<close>

definition digit_char :: "nat \<Rightarrow> char" where
  "digit_char d = char_of (48 + d)"

fun nat_str :: "nat \<Rightarrow> string" where
  "nat_str n = (if n < 10 then [digit_char n] else nat_str (n div 10) @ [digit_char (n mod 10)])"

declare nat_str.simps [simp del]

fun digits_val :: "nat \<Rightarrow> string \<Rightarrow> nat" where
  "digits_val acc [] = acc"
| "digits_val acc (c # cs) = digits_val (10 * acc + (of_char c - 48)) cs"

definition is_digit :: "char \<Rightarrow> bool" where
  "is_digit c \<longleftrightarrow> 48 \<le> (of_char c :: nat) \<and> (of_char c :: nat) \<le> 57"

lemma digits_val_append: "digits_val acc (xs @ ys) = digits_val (digits_val acc xs) ys"
  by (induction xs arbitrary: acc) auto

lemma digit_char_val: "d < 10 \<Longrightarrow> (of_char (digit_char d) :: nat) = 48 + d"
  by (simp add: digit_char_def of_char_of)

lemma digit_char_is_digit: "d < 10 \<Longrightarrow> is_digit (digit_char d)"
  by (simp add: is_digit_def digit_char_val)

lemma digits_val_nat_str [simp]: "digits_val 0 (nat_str n) = n"
proof (induction n rule: nat_str.induct)
  case (1 n)
  then show ?case
    by (subst nat_str.simps) (simp add: digits_val_append digit_char_val)
qed

lemma nat_str_digits: "list_all is_digit (nat_str n)"
proof (induction n rule: nat_str.induct)
  case (1 n)
  then show ?case
    by (subst nat_str.simps) (simp add: digit_char_is_digit)
qed

lemma nat_str_not_Nil [simp]: "nat_str n \<noteq> []"
  by (subst nat_str.simps) simp

text \<open>A character that is no digit does not occur in a printed number.\<close>

lemma nat_str_no: "\<not> is_digit c \<Longrightarrow> c \<notin> set (nat_str n)"
  using nat_str_digits [of n] by (auto simp: list_all_iff)

text \<open>\<open>str::parse::<u32>\<close>: an optional plus sign, then digits whose value fits.\<close>

type_synonym u32 = "32 word"

definition u32_parse :: "string \<Rightarrow> u32 option" where
  "u32_parse s =
     (let ds = (case s of c # r \<Rightarrow> if c = CHR ''+'' then r else s | [] \<Rightarrow> [])
      in if ds = [] \<or> \<not> list_all is_digit ds then None
         else let n = digits_val 0 ds in if n < 2 ^ 32 then Some (of_nat n) else None)"

lemma u32_parse_print [simp]: "u32_parse (nat_str (unat n)) = Some n" for n :: u32
proof -
  obtain c cs where s: "nat_str (unat n) = c # cs"
    by (cases "nat_str (unat n)") auto
  have "\<not> is_digit (CHR ''+'')" by (simp add: is_digit_def)
  then have "c \<noteq> CHR ''+''"
    using nat_str_no [of "CHR ''+''" "unat n"] s by auto
  then have ds: "(case nat_str (unat n) of c # r \<Rightarrow> if c = CHR ''+'' then r else nat_str (unat n) | [] \<Rightarrow> [])
      = nat_str (unat n)"
    using s by simp
  have "unat n < 2 ^ 32"
    using unsigned_less [of n, where ?'a = nat] by simp
  then show ?thesis
    unfolding u32_parse_def ds by (simp add: Let_def nat_str_digits)
qed

text \<open>Rust's \<open>slice.join(sep)\<close>.\<close>

fun join :: "string \<Rightarrow> string list \<Rightarrow> string" where
  "join sep [] = []"
| "join sep [x] = x"
| "join sep (x # y # xs) = x @ sep @ join sep (y # xs)"

text \<open>Rust's \<open>str::split(c)\<close>: the pieces between the occurrences of \<open>c\<close>, never none.\<close>

fun split_on :: "char \<Rightarrow> string \<Rightarrow> string list" where
  "split_on c [] = [[]]"
| "split_on c (x # xs) =
     (if x = c then [] # split_on c xs
      else (case split_on c xs of [] \<Rightarrow> [[x]] | p # ps \<Rightarrow> (x # p) # ps))"

lemma split_on_not_Nil [simp]: "split_on c xs \<noteq> []"
  by (induction xs) (auto split: list.splits)

lemma join_Cons_ne: "xs \<noteq> [] \<Longrightarrow> join sep (x # xs) = x @ sep @ join sep xs"
  by (cases xs) auto

lemma join_split_on: "join [c] (split_on c xs) = xs"
proof (induction xs)
  case Nil
  then show ?case by simp
next
  case (Cons x xs)
  obtain p ps where s: "split_on c xs = p # ps"
    by (cases "split_on c xs") auto
  with Cons show ?case
    by (cases ps) (auto simp: join_Cons_ne)
qed

lemma split_on_no_sep: "c \<notin> set xs \<Longrightarrow> split_on c xs = [xs]"
  by (induction xs) auto

lemma split_on_append_sep:
  "c \<notin> set xs \<Longrightarrow> split_on c (xs @ c # ys) = xs # split_on c ys"
  by (induction xs) auto

lemma split_on_pieces: "p \<in> set (split_on c xs) \<Longrightarrow> c \<notin> set p"
proof (induction xs arbitrary: p)
  case Nil
  then show ?case by simp
next
  case (Cons x xs)
  obtain q qs where s: "split_on c xs = q # qs"
    by (cases "split_on c xs") auto
  with Cons show ?case
    by (auto split: if_splits)
qed

lemma split_on_join:
  "xs \<noteq> [] \<Longrightarrow> \<forall>x \<in> set xs. c \<notin> set x \<Longrightarrow> split_on c (join [c] xs) = xs"
proof (induction xs)
  case Nil
  then show ?case by simp
next
  case (Cons x xs)
  then show ?case
    by (cases xs) (auto simp: split_on_no_sep split_on_append_sep)
qed

text \<open>Rust's \<open>str::split_once(c)\<close>.\<close>

fun split_once :: "char \<Rightarrow> string \<Rightarrow> (string \<times> string) option" where
  "split_once c [] = None"
| "split_once c (x # xs) =
     (if x = c then Some ([], xs) else map_option (\<lambda>(a, b). (x # a, b)) (split_once c xs))"

lemma split_once_append: "c \<notin> set xs \<Longrightarrow> split_once c (xs @ c # ys) = Some (xs, ys)"
  by (induction xs) auto

lemma split_once_no: "c \<notin> set xs \<Longrightarrow> split_once c xs = None"
  by (induction xs) auto

lemma split_once_Some: "split_once c xs = Some (a, b) \<Longrightarrow> xs = a @ c # b \<and> c \<notin> set a"
  by (induction xs arbitrary: a) (auto split: if_splits)

lemma split_once_None: "split_once c xs = None \<Longrightarrow> c \<notin> set xs"
  by (induction xs) (auto split: if_splits)

section \<open>Lists\<close>

lemma find_None_iff2: "List.find P xs = None \<longleftrightarrow> (\<forall>x \<in> set xs. \<not> P x)"
  by (induction xs) auto

lemma find_SomeD: "List.find P xs = Some x \<Longrightarrow> x \<in> set xs \<and> P x"
  by (induction xs) (auto split: if_splits)

text \<open>With distinct keys, the first element with a key is the only one.\<close>

lemma find_key_unique:
  assumes "distinct (map k xs)" and "x \<in> set xs"
  shows "List.find (\<lambda>y. k y = k x) xs = Some x"
  using assms
proof (induction xs)
  case Nil
  then show ?case by simp
next
  case (Cons y ys)
  then show ?case
    by (cases "k y = k x") (auto simp: image_iff)
qed

text \<open>
  Reading a value back by its stored name (\<open>ALL.iter().find(|v| v.name() == s)\<close>) inverts the
  name, when the names are distinct.
\<close>

definition parse_by_name :: "'a list \<Rightarrow> ('a \<Rightarrow> string) \<Rightarrow> string \<Rightarrow> 'a option" where
  "parse_by_name all name s = List.find (\<lambda>v. name v = s) all"

lemma parse_by_name_roundtrip:
  "distinct (map name all) \<Longrightarrow> v \<in> set all \<Longrightarrow> parse_by_name all name (name v) = Some v"
  by (simp add: parse_by_name_def find_key_unique)

lemma parse_by_name_Some: "parse_by_name all name s = Some v \<Longrightarrow> name v = s"
  by (auto simp: parse_by_name_def dest: find_SomeD)

end
