(* ===== verification/Fsm_Fact.thy ===== *)
theory Fsm_Fact
  imports Jkb_Prelude
begin

text \<open>
  The three-valued answer of \<open>crates/jkb-fsm/src/fact.rs\<close>: the enum \<open>Fact\<close>, its readers
  \<open>is_yes\<close>, \<open>is_no\<close> and \<open>is_unknown\<close>, its constructors \<open>maybe\<close>, \<open>observed\<close> and
  \<open>From<bool>\<close>, and the Kleene connectives. The lemmas show the Kleene laws the unit test of
  that file walks over nine pairs, and the property the type exists for: a composite fact
  is established only if every way of settling its unknown parts agrees.
\<close>

section \<open>The enum and its readers\<close>

datatype fact = Yes | No | Unknown

definition is_yes :: "fact \<Rightarrow> bool" where
  "is_yes f = (case f of Yes \<Rightarrow> True | _ \<Rightarrow> False)"

definition is_no :: "fact \<Rightarrow> bool" where
  "is_no f = (case f of No \<Rightarrow> True | _ \<Rightarrow> False)"

definition is_unknown :: "fact \<Rightarrow> bool" where
  "is_unknown f = (case f of Unknown \<Rightarrow> True | _ \<Rightarrow> False)"

fun fact_maybe :: "bool option \<Rightarrow> fact" where
  "fact_maybe (Some True) = Yes"
| "fact_maybe (Some False) = No"
| "fact_maybe None = Unknown"

text \<open>\<open>From<bool>\<close>.\<close>

definition fact_from :: "bool \<Rightarrow> fact" where
  "fact_from value = (if value then Yes else No)"

text \<open>\<open>observed\<close>: a failed observation is unknown; \<open>into\<close> is the \<open>Into<Fact>\<close> of the value.\<close>

fun fact_observed :: "('a \<Rightarrow> fact) \<Rightarrow> ('e, 'a) result \<Rightarrow> fact" where
  "fact_observed into (Inr v) = into v"
| "fact_observed into (Inl e) = Unknown"

fun fact_and :: "fact \<Rightarrow> fact \<Rightarrow> fact" where
  "fact_and No _ = No"
| "fact_and _ No = No"
| "fact_and Yes Yes = Yes"
| "fact_and _ _ = Unknown"

fun fact_or :: "fact \<Rightarrow> fact \<Rightarrow> fact" where
  "fact_or Yes _ = Yes"
| "fact_or _ Yes = Yes"
| "fact_or No No = No"
| "fact_or _ _ = Unknown"

fun fact_not :: "fact \<Rightarrow> fact" where
  "fact_not Yes = No"
| "fact_not No = Yes"
| "fact_not Unknown = Unknown"

fun fact_as_str :: "fact \<Rightarrow> string" where
  "fact_as_str Yes = ''yes''"
| "fact_as_str No = ''no''"
| "fact_as_str Unknown = ''unknown''"

definition fact_ALL :: "fact list" where
  "fact_ALL = [Yes, No, Unknown]"

section \<open>What a connective needs to be established\<close>

lemma is_yes_simps [simp]: "is_yes Yes" "\<not> is_yes No" "\<not> is_yes Unknown"
  by (simp_all add: is_yes_def)

lemma is_no_simps [simp]: "is_no No" "\<not> is_no Yes" "\<not> is_no Unknown"
  by (simp_all add: is_no_def)

lemma is_unknown_simps [simp]: "is_unknown Unknown" "\<not> is_unknown Yes" "\<not> is_unknown No"
  by (simp_all add: is_unknown_def)

lemma is_yes_iff [fact_simps]: "is_yes f \<longleftrightarrow> f = Yes"
  by (cases f) simp_all

lemma is_no_iff [fact_simps]: "is_no f \<longleftrightarrow> f = No"
  by (cases f) simp_all

lemma fact_and_Yes [fact_simps]: "fact_and a b = Yes \<longleftrightarrow> a = Yes \<and> b = Yes"
  by (cases a; cases b) simp_all

lemma fact_and_No [fact_simps]: "fact_and a b = No \<longleftrightarrow> a = No \<or> b = No"
  by (cases a; cases b) simp_all

lemma fact_or_Yes [fact_simps]: "fact_or a b = Yes \<longleftrightarrow> a = Yes \<or> b = Yes"
  by (cases a; cases b) simp_all

lemma fact_or_No [fact_simps]: "fact_or a b = No \<longleftrightarrow> a = No \<and> b = No"
  by (cases a; cases b) simp_all

lemma fact_not_Yes [fact_simps]: "fact_not a = Yes \<longleftrightarrow> a = No"
  by (cases a) simp_all

lemma fact_not_No [fact_simps]: "fact_not a = No \<longleftrightarrow> a = Yes"
  by (cases a) simp_all

lemma fact_from_Yes [fact_simps]: "fact_from b = Yes \<longleftrightarrow> b"
  by (simp add: fact_from_def)

lemma fact_from_No [fact_simps]: "fact_from b = No \<longleftrightarrow> \<not> b"
  by (simp add: fact_from_def)

section \<open>The interface of a three-valued logic\<close>

text \<open>
  What the guards of every machine rely on: the connectives are commutative and dual, and
  negation is an involution. Everything else about them is derived once.
\<close>

locale kleene_logic =
  fixes conj :: "'f \<Rightarrow> 'f \<Rightarrow> 'f" and disj :: "'f \<Rightarrow> 'f \<Rightarrow> 'f" and neg :: "'f \<Rightarrow> 'f"
    and holds :: "'f \<Rightarrow> bool" and fails :: "'f \<Rightarrow> bool"
  assumes conj_holds: "holds (conj a b) \<longleftrightarrow> holds a \<and> holds b"
    and conj_fails: "fails (conj a b) \<longleftrightarrow> fails a \<or> fails b"
    and neg_holds: "holds (neg a) \<longleftrightarrow> fails a"
    and neg_fails: "fails (neg a) \<longleftrightarrow> holds a"
    and de_morgan: "disj a b = neg (conj (neg a) (neg b))"
    and consistent: "\<not> (holds a \<and> fails a)"
    and determined: "holds a = holds b \<Longrightarrow> fails a = fails b \<Longrightarrow> a = b"
begin

lemma disj_holds: "holds (disj a b) \<longleftrightarrow> holds a \<or> holds b"
  by (simp add: de_morgan neg_holds neg_fails conj_fails)

lemma disj_fails: "fails (disj a b) \<longleftrightarrow> fails a \<and> fails b"
  by (simp add: de_morgan neg_holds neg_fails conj_holds)

lemma conj_commute: "conj a b = conj b a"
  by (rule determined) (auto simp: conj_holds conj_fails)

lemma disj_commute: "disj a b = disj b a"
  by (rule determined) (auto simp: disj_holds disj_fails)

lemma neg_neg: "neg (neg a) = a"
  by (rule determined) (auto simp: neg_holds neg_fails)

lemma neg_conj: "neg (conj a b) = disj (neg a) (neg b)"
  by (simp add: de_morgan neg_neg)

lemma neg_disj: "neg (disj a b) = conj (neg a) (neg b)"
  by (simp add: de_morgan neg_neg)

lemma conj_disj_distrib: "conj a (disj b c) = disj (conj a b) (conj a c)"
  by (rule determined) (auto simp: conj_holds conj_fails disj_holds disj_fails)

lemma never_both: "\<not> holds (conj a (neg a))"
  using consistent by (auto simp: conj_holds neg_holds)

end

interpretation kleene: kleene_logic fact_and fact_or fact_not is_yes is_no
proof (unfold_locales, goal_cases)
  case (5 a b)
  show ?case by (cases a; cases b) simp_all
next
  case (7 a b)
  then show ?case by (cases a; cases b) simp_all
qed (auto simp: fact_simps)

section \<open>Learning never overturns an established answer\<close>

text \<open>\<open>learns a b\<close>: \<open>b\<close> is what \<open>a\<close> may become once an unestablished answer is obtained.\<close>

definition learns :: "fact \<Rightarrow> fact \<Rightarrow> bool" where
  "learns a b \<longleftrightarrow> a = Unknown \<or> a = b"

lemma learns_refl [simp]: "learns a a"
  by (simp add: learns_def)

lemma learns_Yes [simp]: "learns Yes b \<longleftrightarrow> b = Yes"
  by (auto simp: learns_def)

lemma learns_No [simp]: "learns No b \<longleftrightarrow> b = No"
  by (auto simp: learns_def)

lemma learns_yes: "learns a b \<Longrightarrow> is_yes a \<Longrightarrow> is_yes b"
  by (auto simp: learns_def)

lemma learns_no: "learns a b \<Longrightarrow> is_no a \<Longrightarrow> is_no b"
  by (auto simp: learns_def)

lemma learns_and: "learns a a' \<Longrightarrow> learns b b' \<Longrightarrow> learns (fact_and a b) (fact_and a' b')"
  by (cases a; cases a'; cases b; cases b') (simp_all add: learns_def)

lemma learns_or: "learns a a' \<Longrightarrow> learns b b' \<Longrightarrow> learns (fact_or a b) (fact_or a' b')"
  by (cases a; cases a'; cases b; cases b') (simp_all add: learns_def)

lemma learns_not: "learns a a' \<Longrightarrow> learns (fact_not a) (fact_not a')"
  by (cases a) (auto simp: learns_def)

lemmas learns_intros = learns_and learns_or learns_not learns_refl

end
