(* ===== verification/Fsm_Machine.thy ===== *)
theory Fsm_Machine
  imports Fsm_Fact
begin

text \<open>
  The generic machine of \<open>crates/jkb-fsm/src/machine.rs\<close>. A machine is a table of guarded
  rows; asking it for an event is \<open>apply\<close> (here \<open>machine_apply\<close>), one reconciliation step
  is \<open>reconcile\<close> (here \<open>machine_reconcile\<close>). The Rust traits \<open>State\<close>, \<open>Event\<close> and
  \<open>Stateful\<close> are dictionaries: a record of the trait's constants and methods, bundled in
  \<open>fsm_domain\<close> and passed to the operations that read them.

  The lemmas characterise each operation on every branch: when a row is found, when an
  event is absorbed, what a move carries, and what a reconciliation may conclude.
\<close>

section \<open>The traits\<close>

datatype event_kind = Applied | Reconciled

record 's state_trait =
  st_all :: "'s list"
  st_name :: "'s \<Rightarrow> string"
  st_noun :: string
  st_settled :: "'s \<Rightarrow> bool"
  st_awaits :: "'s \<Rightarrow> bool"

record 'e event_trait =
  ev_all :: "'e list"
  ev_name :: "'e \<Rightarrow> string"
  ev_kind :: "'e \<Rightarrow> event_kind"

record ('s, 'e, 'c) fsm_domain =
  dom_states :: "'s state_trait"
  dom_events :: "'e event_trait"
  dom_state_of :: "'c \<Rightarrow> 's"

abbreviation states_of :: "('s, 'e, 'c, 'z) fsm_domain_scheme \<Rightarrow> 's list" where
  "states_of D \<equiv> st_all (dom_states D)"

abbreviation events_of :: "('s, 'e, 'c, 'z) fsm_domain_scheme \<Rightarrow> 'e list" where
  "events_of D \<equiv> ev_all (dom_events D)"

abbreviation state_name :: "('s, 'e, 'c, 'z) fsm_domain_scheme \<Rightarrow> 's \<Rightarrow> string" where
  "state_name D \<equiv> st_name (dom_states D)"

abbreviation event_name :: "('s, 'e, 'c, 'z) fsm_domain_scheme \<Rightarrow> 'e \<Rightarrow> string" where
  "event_name D \<equiv> ev_name (dom_events D)"

abbreviation settled_in :: "('s, 'e, 'c, 'z) fsm_domain_scheme \<Rightarrow> 's \<Rightarrow> bool" where
  "settled_in D \<equiv> st_settled (dom_states D)"

section \<open>Verdicts, rows, machines\<close>

record 'e fsm_remedy =
  rm_event :: 'e
  rm_how :: string

record 'e denial =
  dn_reason :: string
  dn_remedy :: "'e fsm_remedy option"

datatype 'e verdict = Allow | Deny "'e denial"

definition denial_new :: "string \<Rightarrow> 'e denial" where
  "denial_new why = \<lparr>dn_reason = why, dn_remedy = None\<rparr>"

definition denial_with_remedy :: "string \<Rightarrow> 'e \<Rightarrow> string \<Rightarrow> 'e denial" where
  "denial_with_remedy why e how =
     \<lparr>dn_reason = why, dn_remedy = Some \<lparr>rm_event = e, rm_how = how\<rparr>\<rparr>"

datatype ('s, 'c) dest = To 's | Stated "'c \<Rightarrow> 's option" "'s list"

record ('s, 'e, 'c, 'x) transition =
  t_from :: 's
  t_event :: 'e
  t_to :: "('s, 'c) dest"
  t_guard :: "('c \<Rightarrow> 'e verdict) option"
  t_plan :: "('c \<Rightarrow> 'x list) option"

text \<open>One row of a table, in the order the struct lists its fields.\<close>

abbreviation row ::
  "'s \<Rightarrow> 'e \<Rightarrow> ('s, 'c) dest \<Rightarrow> ('c \<Rightarrow> 'e verdict) option \<Rightarrow> ('c \<Rightarrow> 'x list) option
     \<Rightarrow> ('s, 'e, 'c, 'x) transition" where
  "row fr ev to g p \<equiv> \<lparr>t_from = fr, t_event = ev, t_to = to, t_guard = g, t_plan = p\<rparr>"

datatype 's acceptance = Acc_Moves 's | Acc_MovesAsStated | Acc_Idempotent | Acc_Undefined

datatype ('s, 'e, 'x) outcome =
  Moved 's 'e 's "'x list"
| Idempotent 's 'e
| Refused 's 'e "'e denial"
| Undefined 's 'e

datatype ('s, 'e, 'x) reconciliation =
  Rec_Settled
| Rec_Fired "('s, 'e, 'x) outcome"
| Rec_Ambiguous "'e list"

record ('s, 'e, 'c, 'x) machine =
  transitions :: "('s, 'e, 'c, 'x) transition list"
  initial :: 's

section \<open>Outcomes\<close>

fun outcome_moved :: "('s, 'e, 'x) outcome \<Rightarrow> bool" where
  "outcome_moved (Moved _ _ _ _) = True"
| "outcome_moved _ = False"

fun outcome_state :: "('s, 'e, 'x) outcome \<Rightarrow> 's" where
  "outcome_state (Moved _ _ to _) = to"
| "outcome_state (Idempotent s _) = s"
| "outcome_state (Refused s _ _) = s"
| "outcome_state (Undefined s _) = s"

fun outcome_effects :: "('s, 'e, 'x) outcome \<Rightarrow> 'x list" where
  "outcome_effects (Moved _ _ _ fx) = fx"
| "outcome_effects _ = []"

fun outcome_refusal ::
  "('s, 'e, 'c, 'z) fsm_domain_scheme \<Rightarrow> ('s, 'e, 'x) outcome \<Rightarrow> string option" where
  "outcome_refusal D (Refused _ _ d) =
     Some (case dn_remedy d of
        Some r \<Rightarrow> dn_reason d @ '' '' @ rm_how r
      | None \<Rightarrow> dn_reason d)"
| "outcome_refusal D (Undefined s e) =
     Some (''`'' @ event_name D e @ ''` is not something that can happen to '' @
       st_noun (dom_states D) @ '' that is `'' @ state_name D s @ ''`.'')"
| "outcome_refusal D _ = None"

section \<open>The machine's operations\<close>

definition machine_row ::
  "('s, 'e, 'c, 'x) machine \<Rightarrow> 's \<Rightarrow> 'e \<Rightarrow> ('s, 'e, 'c, 'x) transition option" where
  "machine_row M from event = List.find (\<lambda>t. t_from t = from \<and> t_event t = event) (transitions M)"

definition landing_here ::
  "('s, 'e, 'c, 'x) machine \<Rightarrow> 's \<Rightarrow> 'e \<Rightarrow> ('s, 'e, 'c, 'x) transition list" where
  "landing_here M state event =
     filter (\<lambda>t. t_event t = event \<and> (case t_to t of To to \<Rightarrow> to = state | Stated _ _ \<Rightarrow> False))
       (transitions M)"

definition machine_accepts ::
  "('s, 'e, 'c, 'x) machine \<Rightarrow> 's \<Rightarrow> 'e \<Rightarrow> 's acceptance" where
  "machine_accepts M state event =
     (case machine_row M state event of
        Some t \<Rightarrow> (case t_to t of To to \<Rightarrow> Acc_Moves to | Stated _ _ \<Rightarrow> Acc_MovesAsStated)
      | None \<Rightarrow>
          (if landing_here M state event \<noteq> [] \<and>
              list_all (\<lambda>t. Option.is_none (t_guard t) \<and> Option.is_none (t_plan t))
                (landing_here M state event)
           then Acc_Idempotent else Acc_Undefined))"

definition is_stated :: "('s, 'e, 'c, 'x) machine \<Rightarrow> 's \<Rightarrow> 'e \<Rightarrow> bool" where
  "is_stated M state event =
     (case machine_row M state event of
        Some t \<Rightarrow> (case t_to t of Stated _ _ \<Rightarrow> True | To _ \<Rightarrow> False)
      | None \<Rightarrow> False)"

datatype 's resolved = Res_To 's | Res_Nothing | Res_Undeclared 's

fun resolve :: "('s, 'c) dest \<Rightarrow> 'c \<Rightarrow> 's resolved" where
  "resolve (To to) ctx = Res_To to"
| "resolve (Stated pick among) ctx =
     (case pick ctx of
        None \<Rightarrow> Res_Nothing
      | Some to \<Rightarrow> if to \<in> set among then Res_To to else Res_Undeclared to)"

definition run_guard :: "('c \<Rightarrow> 'e verdict) option \<Rightarrow> 'c \<Rightarrow> 'e verdict" where
  "run_guard g ctx = (case g of None \<Rightarrow> Allow | Some f \<Rightarrow> f ctx)"

definition run_plan :: "('c \<Rightarrow> 'x list) option \<Rightarrow> 'c \<Rightarrow> 'x list" where
  "run_plan p ctx = (case p of None \<Rightarrow> [] | Some f \<Rightarrow> f ctx)"

definition machine_apply ::
  "('s, 'e, 'c, 'z) fsm_domain_scheme \<Rightarrow> ('s, 'e, 'c, 'x) machine \<Rightarrow> 'c \<Rightarrow> 'e
     \<Rightarrow> ('s, 'e, 'x) outcome" where
  "machine_apply D M ctx event =
     (let state = dom_state_of D ctx in
      case machine_row M state event of
        None \<Rightarrow>
          (case machine_accepts M state event of
             Acc_Idempotent \<Rightarrow> Idempotent state event
           | _ \<Rightarrow> Undefined state event)
      | Some t \<Rightarrow>
          (case run_guard (t_guard t) ctx of
             Deny d \<Rightarrow> Refused state event d
           | Allow \<Rightarrow>
               (case resolve (t_to t) ctx of
                  Res_To to \<Rightarrow> Moved state event to (run_plan (t_plan t) ctx)
                | Res_Nothing \<Rightarrow>
                    Refused state event (denial_new
                      (''`'' @ event_name D event @
                       ''` needs a target state and none was given.''))
                | Res_Undeclared named \<Rightarrow>
                    Refused state event (denial_new
                      (''`'' @ event_name D event @ ''` cannot lead to `'' @
                       state_name D named @ ''`.'')))))"

definition validate_remedy ::
  "('s, 'e, 'c, 'x) machine \<Rightarrow> 's \<Rightarrow> 'e denial \<Rightarrow> 'e option" where
  "validate_remedy M state d =
     (case dn_remedy d of
        None \<Rightarrow> None
      | Some r \<Rightarrow>
          (case machine_accepts M state (rm_event r) of
             Acc_Undefined \<Rightarrow> Some (rm_event r)
           | _ \<Rightarrow> None))"

text \<open>
  \<open>reconcile\<close>. The candidates are the rows the Rust filter keeps; the loop then sorts the
  allowed ones into those that move the object and those that loop.
\<close>

definition rec_candidate ::
  "('s, 'e, 'c, 'z) fsm_domain_scheme \<Rightarrow> 's \<Rightarrow> ('s, 'e, 'c, 'x) transition \<Rightarrow> bool" where
  "rec_candidate D state t \<longleftrightarrow>
     t_from t = state \<and> ev_kind (dom_events D) (t_event t) = Reconciled \<and>
     (case t_to t of To _ \<Rightarrow> True | Stated _ _ \<Rightarrow> False)"

fun rec_sort ::
  "('s, 'e, 'c, 'z) fsm_domain_scheme \<Rightarrow> 'c \<Rightarrow> 's \<Rightarrow> ('s, 'e, 'c, 'x) transition list
     \<Rightarrow> 'e list \<Rightarrow> 'e list \<Rightarrow> 'e list \<times> 'e list" where
  "rec_sort D ctx state [] moves loops = (moves, loops)"
| "rec_sort D ctx state (t # ts) moves loops =
     (if \<not> rec_candidate D state t then rec_sort D ctx state ts moves loops
      else (case run_guard (t_guard t) ctx of
              Deny _ \<Rightarrow> rec_sort D ctx state ts moves loops
            | Allow \<Rightarrow>
                (case resolve (t_to t) ctx of
                   Res_To to \<Rightarrow>
                     (if to = state then rec_sort D ctx state ts moves (loops @ [t_event t])
                      else rec_sort D ctx state ts (moves @ [t_event t]) loops)
                 | _ \<Rightarrow> rec_sort D ctx state ts moves loops)))"

definition machine_reconcile ::
  "('s, 'e, 'c, 'z) fsm_domain_scheme \<Rightarrow> ('s, 'e, 'c, 'x) machine \<Rightarrow> 'c
     \<Rightarrow> ('s, 'e, 'x) reconciliation" where
  "machine_reconcile D M ctx =
     (case rec_sort D ctx (dom_state_of D ctx) (transitions M) [] [] of
        ([], []) \<Rightarrow> Rec_Settled
      | ([], [l]) \<Rightarrow> Rec_Fired (machine_apply D M ctx l)
      | ([m], _) \<Rightarrow> Rec_Fired (machine_apply D M ctx m)
      | ([], ls) \<Rightarrow> Rec_Ambiguous ls
      | (ms, _) \<Rightarrow> Rec_Ambiguous ms)"

definition accepted_from ::
  "('s, 'e, 'c, 'z) fsm_domain_scheme \<Rightarrow> ('s, 'e, 'c, 'x) machine \<Rightarrow> 's \<Rightarrow> 'e list" where
  "accepted_from D M state =
     filter (\<lambda>e. machine_accepts M state e \<noteq> Acc_Undefined) (events_of D)"

section \<open>The table as data\<close>

record table_state =
  ts_name :: string
  ts_initial :: bool
  ts_settled :: bool
  ts_awaits_input :: bool

record table_row =
  tr_from :: string
  tr_event :: string
  tr_to :: "string option"
  tr_reconciled :: bool
  tr_guarded :: bool
  tr_planned :: bool

record fsm_table =
  tb_states :: "table_state list"
  tb_transitions :: "table_row list"

definition machine_table ::
  "('s, 'e, 'c, 'z) fsm_domain_scheme \<Rightarrow> ('s, 'e, 'c, 'x) machine \<Rightarrow> fsm_table" where
  "machine_table D M =
     \<lparr>tb_states =
        map (\<lambda>s. \<lparr>ts_name = state_name D s, ts_initial = (s = initial M),
                  ts_settled = settled_in D s,
                  ts_awaits_input = st_awaits (dom_states D) s\<rparr>) (states_of D),
      tb_transitions =
        map (\<lambda>t. \<lparr>tr_from = state_name D (t_from t), tr_event = event_name D (t_event t),
                  tr_to = (case t_to t of To to \<Rightarrow> Some (state_name D to) | Stated _ _ \<Rightarrow> None),
                  tr_reconciled = (ev_kind (dom_events D) (t_event t) = Reconciled),
                  tr_guarded = (\<not> Option.is_none (t_guard t)),
                  tr_planned = (\<not> Option.is_none (t_plan t))\<rparr>)
          (transitions M)\<rparr>"

text \<open>The Graphviz text of the table: one line per state, one per row, and the escape hatch.\<close>

definition dq :: string where
  "dq = [CHR 0x22]"

definition nl :: string where
  "nl = [CHR 0x0A]"

definition dot_state ::
  "('s, 'e, 'c, 'z) fsm_domain_scheme \<Rightarrow> ('s, 'e, 'c, 'x) machine \<Rightarrow> 's \<Rightarrow> string" where
  "dot_state D M s =
     ''  '' @ dq @ state_name D s @ dq @ '' [shape='' @
     (if settled_in D s then ''doublecircle'' else ''ellipse'') @
     (if s = initial M then '', penwidth=2'' else []) @ ''];'' @ nl"

definition dot_row ::
  "('s, 'e, 'c, 'z) fsm_domain_scheme \<Rightarrow> ('s, 'e, 'c, 'x) transition \<Rightarrow> string" where
  "dot_row D t =
     ''  '' @ dq @ state_name D (t_from t) @ dq @ '' -> '' @ dq @
     (case t_to t of To to \<Rightarrow> state_name D to | Stated _ _ \<Rightarrow> ''*'') @ dq @
     '' [label='' @ dq @ event_name D (t_event t) @ dq @ '', style='' @
     (case ev_kind (dom_events D) (t_event t) of
        Applied \<Rightarrow> ''solid'' | Reconciled \<Rightarrow> ''dashed'') @ ''];'' @ nl"

definition machine_dot ::
  "('s, 'e, 'c, 'z) fsm_domain_scheme \<Rightarrow> ('s, 'e, 'c, 'x) machine \<Rightarrow> string \<Rightarrow> string" where
  "machine_dot D M name =
     ''digraph '' @ name @ '' {'' @ nl @ ''  rankdir=LR;'' @ nl @
     concat (map (dot_state D M) (states_of D)) @
     concat (map (dot_row D) (transitions M)) @
     (if list_ex (\<lambda>t. case t_to t of Stated _ _ \<Rightarrow> True | To _ \<Rightarrow> False) (transitions M)
      then ''  '' @ dq @ ''*'' @ dq @ '' [shape=plaintext, label='' @ dq @ ''(stated)'' @ dq @
           ''];'' @ nl
      else []) @
     ''}'' @ nl"

section \<open>Guard helpers\<close>

definition require_yes :: "fact \<Rightarrow> 'e denial \<Rightarrow> 'e verdict" where
  "require_yes f d = (if is_yes f then Allow else Deny d)"

definition require_no :: "fact \<Rightarrow> 'e denial \<Rightarrow> 'e verdict" where
  "require_no f d = (if is_no f then Allow else Deny d)"

fun all_of :: "'e verdict list \<Rightarrow> 'e verdict" where
  "all_of [] = Allow"
| "all_of (Deny d # _) = Deny d"
| "all_of (Allow # cs) = all_of cs"

section \<open>Lemmas: guards\<close>

lemma require_yes_Allow [guard_simps]: "require_yes f d = Allow \<longleftrightarrow> f = Yes"
  by (cases f) (simp_all add: require_yes_def)

lemma require_no_Allow [guard_simps]: "require_no f d = Allow \<longleftrightarrow> f = No"
  by (cases f) (simp_all add: require_no_def)

lemma all_of_Allow [guard_simps]: "all_of cs = Allow \<longleftrightarrow> (\<forall>c \<in> set cs. c = Allow)"
  by (induction cs rule: all_of.induct) auto

lemma all_of_Deny: "all_of cs = Deny d \<Longrightarrow> Deny d \<in> set cs"
  by (induction cs rule: all_of.induct) auto

text \<open>The denials a list of clauses can produce: what an audit of a guard's advice walks.\<close>

lemma require_yes_Deny: "require_yes f d = Deny d' \<Longrightarrow> d' = d"
  by (simp add: require_yes_def split: if_splits)

lemma require_no_Deny: "require_no f d = Deny d' \<Longrightarrow> d' = d"
  by (simp add: require_no_def split: if_splits)

lemma verdict_not_Deny: "(\<forall>d. v \<noteq> Deny d) \<longleftrightarrow> v = Allow"
  by (cases v) auto

section \<open>Lemmas: rows and acceptance\<close>

lemma machine_row_SomeD:
  "machine_row M s e = Some t \<Longrightarrow> t \<in> set (transitions M) \<and> t_from t = s \<and> t_event t = e"
  by (auto simp: machine_row_def dest: find_SomeD)

lemma machine_row_None:
  "machine_row M s e = None \<longleftrightarrow> (\<forall>t \<in> set (transitions M). \<not> (t_from t = s \<and> t_event t = e))"
  by (simp add: machine_row_def find_None_iff2)

definition row_key :: "('s, 'e, 'c, 'x) transition \<Rightarrow> 's \<times> 'e" where
  "row_key t = (t_from t, t_event t)"

definition deterministic :: "('s, 'e, 'c, 'x) machine \<Rightarrow> bool" where
  "deterministic M \<longleftrightarrow> distinct (map row_key (transitions M))"

lemma machine_row_unique:
  assumes "deterministic M" and "t \<in> set (transitions M)"
  shows "machine_row M (t_from t) (t_event t) = Some t"
proof -
  have "List.find (\<lambda>y. row_key y = row_key t) (transitions M) = Some t"
    using assms by (simp add: deterministic_def find_key_unique)
  then show ?thesis
    by (simp add: machine_row_def row_key_def)
qed

lemma accepts_Moves:
  "machine_accepts M s e = Acc_Moves to \<longleftrightarrow> (\<exists>t. machine_row M s e = Some t \<and> t_to t = To to)"
  by (auto simp: machine_accepts_def split: option.splits dest.splits)

lemma dest_is_To: "(case d of To to \<Rightarrow> to = s | Stated _ _ \<Rightarrow> False) \<longleftrightarrow> d = To s"
  by (cases d) auto

lemma set_landing_here:
  "set (landing_here M s e) = {t \<in> set (transitions M). t_event t = e \<and> t_to t = To s}"
  by (auto simp: landing_here_def dest_is_To)

lemma accepts_Idempotent:
  "machine_accepts M s e = Acc_Idempotent \<longleftrightarrow>
     machine_row M s e = None \<and>
     (\<exists>t \<in> set (transitions M). t_event t = e \<and> t_to t = To s) \<and>
     (\<forall>t \<in> set (transitions M). t_event t = e \<and> t_to t = To s \<longrightarrow>
        t_guard t = None \<and> t_plan t = None)"
proof -
  have "landing_here M s e \<noteq> [] \<longleftrightarrow> (\<exists>t \<in> set (transitions M). t_event t = e \<and> t_to t = To s)"
    using set_landing_here [of M s e] by (auto simp flip: set_empty)
  then show ?thesis
    by (auto simp: machine_accepts_def list_all_iff set_landing_here Option.is_none_def
        split: option.splits dest.splits)
qed

lemma accepts_row: "machine_row M s e = Some t \<Longrightarrow> machine_accepts M s e \<noteq> Acc_Undefined"
  by (auto simp: machine_accepts_def split: dest.splits)

section \<open>Lemmas: asking for an event\<close>

lemma apply_Moved_iff:
  "machine_apply D M ctx e = Moved from e' to fx \<longleftrightarrow>
     from = dom_state_of D ctx \<and> e' = e \<and>
     (\<exists>t. machine_row M from e = Some t \<and> run_guard (t_guard t) ctx = Allow \<and>
          resolve (t_to t) ctx = Res_To to \<and> fx = run_plan (t_plan t) ctx)"
  by (auto simp: machine_apply_def Let_def
      split: option.splits verdict.splits resolved.splits acceptance.splits)

lemma apply_Idempotent_iff:
  "machine_apply D M ctx e = Idempotent s e' \<longleftrightarrow>
     s = dom_state_of D ctx \<and> e' = e \<and> machine_accepts M s e = Acc_Idempotent"
  by (auto simp: machine_apply_def Let_def machine_accepts_def
      split: option.splits verdict.splits resolved.splits acceptance.splits dest.splits if_splits)

lemma apply_Undefined_iff:
  "machine_apply D M ctx e = Undefined s e' \<longleftrightarrow>
     s = dom_state_of D ctx \<and> e' = e \<and> machine_accepts M s e = Acc_Undefined"
  by (auto simp: machine_apply_def Let_def machine_accepts_def
      split: option.splits verdict.splits resolved.splits acceptance.splits dest.splits if_splits)

lemma apply_Refused_row:
  assumes "machine_apply D M ctx e = Refused s e' d"
  obtains t where "machine_row M (dom_state_of D ctx) e = Some t" "s = dom_state_of D ctx" "e' = e"
    and "run_guard (t_guard t) ctx = Deny d \<or>
         (run_guard (t_guard t) ctx = Allow \<and> dn_remedy d = None)"
  using assms that
  by (auto simp: machine_apply_def Let_def denial_new_def
      split: option.splits verdict.splits resolved.splits acceptance.splits)

text \<open>Nothing but a move changes the state or owes an effect.\<close>

lemma apply_unmoved:
  "\<not> outcome_moved (machine_apply D M ctx e) \<Longrightarrow>
     outcome_state (machine_apply D M ctx e) = dom_state_of D ctx \<and>
     outcome_effects (machine_apply D M ctx e) = []"
  by (auto simp: machine_apply_def Let_def
      split: option.splits verdict.splits resolved.splits acceptance.splits)

text \<open>A move never leaves the states its row declares.\<close>

definition dest_states :: "('s, 'c) dest \<Rightarrow> 's set" where
  "dest_states d = (case d of To s \<Rightarrow> {s} | Stated _ among \<Rightarrow> set among)"

lemma resolve_in_dest: "resolve d ctx = Res_To s \<Longrightarrow> s \<in> dest_states d"
  by (cases d) (auto simp: dest_states_def split: option.splits if_splits)

section \<open>Lemmas: reconciliation\<close>

definition rec_allowed ::
  "('s, 'e, 'c, 'z) fsm_domain_scheme \<Rightarrow> 'c \<Rightarrow> ('s, 'e, 'c, 'x) transition \<Rightarrow> bool" where
  "rec_allowed D ctx t \<longleftrightarrow>
     rec_candidate D (dom_state_of D ctx) t \<and> run_guard (t_guard t) ctx = Allow"

definition rec_moves ::
  "('s, 'e, 'c, 'z) fsm_domain_scheme \<Rightarrow> ('s, 'e, 'c, 'x) machine \<Rightarrow> 'c
     \<Rightarrow> ('s, 'e, 'c, 'x) transition list" where
  "rec_moves D M ctx =
     filter (\<lambda>t. rec_allowed D ctx t \<and> t_to t \<noteq> To (dom_state_of D ctx)) (transitions M)"

definition rec_loops ::
  "('s, 'e, 'c, 'z) fsm_domain_scheme \<Rightarrow> ('s, 'e, 'c, 'x) machine \<Rightarrow> 'c
     \<Rightarrow> ('s, 'e, 'c, 'x) transition list" where
  "rec_loops D M ctx =
     filter (\<lambda>t. rec_allowed D ctx t \<and> t_to t = To (dom_state_of D ctx)) (transitions M)"

lemma rec_sort_eq:
  "s = dom_state_of D ctx \<Longrightarrow>
   rec_sort D ctx s ts ms ls =
     (ms @ map t_event (filter (\<lambda>t. rec_allowed D ctx t \<and> t_to t \<noteq> To s) ts),
      ls @ map t_event (filter (\<lambda>t. rec_allowed D ctx t \<and> t_to t = To s) ts))"
proof (induction ts arbitrary: ms ls)
  case Nil
  then show ?case by simp
next
  case (Cons t ts)
  show ?case
  proof (cases "rec_candidate D s t")
    case False
    with Cons show ?thesis by (simp add: rec_allowed_def)
  next
    case True
    then obtain to where "t_to t = To to"
      by (auto simp: rec_candidate_def split: dest.splits)
    with True Cons show ?thesis
      by (auto simp: rec_allowed_def split: verdict.splits)
  qed
qed

lemma reconcile_eq:
  "machine_reconcile D M ctx =
     (case (map t_event (rec_moves D M ctx), map t_event (rec_loops D M ctx)) of
        ([], []) \<Rightarrow> Rec_Settled
      | ([], [l]) \<Rightarrow> Rec_Fired (machine_apply D M ctx l)
      | ([m], _) \<Rightarrow> Rec_Fired (machine_apply D M ctx m)
      | ([], ls) \<Rightarrow> Rec_Ambiguous ls
      | (ms, _) \<Rightarrow> Rec_Ambiguous ms)"
  by (simp add: machine_reconcile_def rec_sort_eq rec_moves_def rec_loops_def)

lemma rec_allowed_applies:
  assumes det: "deterministic M" and t: "t \<in> set (transitions M)" and al: "rec_allowed D ctx t"
  shows "\<exists>to. t_to t = To to \<and>
     machine_apply D M ctx (t_event t) =
       Moved (dom_state_of D ctx) (t_event t) to (run_plan (t_plan t) ctx)"
proof -
  from al obtain to where to: "t_to t = To to" and s: "t_from t = dom_state_of D ctx"
    and g: "run_guard (t_guard t) ctx = Allow"
    by (auto simp: rec_allowed_def rec_candidate_def split: dest.splits)
  from machine_row_unique [OF det t] s
  have "machine_row M (dom_state_of D ctx) (t_event t) = Some t"
    by simp
  with g to show ?thesis
    by (auto simp: apply_Moved_iff)
qed

text \<open>The three answers of \<open>reconcile\<close>, each with what it means.\<close>

lemma reconcile_Settled_iff:
  "machine_reconcile D M ctx = Rec_Settled \<longleftrightarrow>
     (\<forall>t \<in> set (transitions M). \<not> rec_allowed D ctx t)"
proof -
  have "machine_reconcile D M ctx = Rec_Settled \<longleftrightarrow> rec_moves D M ctx = [] \<and> rec_loops D M ctx = []"
    by (auto simp: reconcile_eq split: list.splits)
  also have "\<dots> \<longleftrightarrow> (\<forall>t \<in> set (transitions M). \<not> rec_allowed D ctx t)"
    by (auto simp: rec_moves_def rec_loops_def filter_empty_conv)
  finally show ?thesis .
qed

lemma reconcile_Ambiguous_iff:
  "machine_reconcile D M ctx = Rec_Ambiguous es \<longleftrightarrow>
     (2 \<le> length (rec_moves D M ctx) \<and> es = map t_event (rec_moves D M ctx)) \<or>
     (rec_moves D M ctx = [] \<and> 2 \<le> length (rec_loops D M ctx) \<and>
      es = map t_event (rec_loops D M ctx))"
  by (auto simp: reconcile_eq split: list.splits)

lemma reconcile_FiredD:
  assumes "machine_reconcile D M ctx = Rec_Fired out"
  obtains t where "out = machine_apply D M ctx (t_event t)"
    and "rec_moves D M ctx = [t] \<or> (rec_moves D M ctx = [] \<and> rec_loops D M ctx = [t])"
  using assms that by (auto simp: reconcile_eq split: list.splits)

lemma rec_moves_sub: "t \<in> set (rec_moves D M ctx) \<Longrightarrow> t \<in> set (transitions M) \<and> rec_allowed D ctx t"
  by (auto simp: rec_moves_def)

lemma rec_loops_sub: "t \<in> set (rec_loops D M ctx) \<Longrightarrow> t \<in> set (transitions M) \<and> rec_allowed D ctx t"
  by (auto simp: rec_loops_def)

text \<open>
  A reconciliation that fires has moved: in a deterministic table it is never a refusal, and
  its event is an observation whose guard held.
\<close>

lemma reconcile_Fired_moved:
  assumes det: "deterministic M" and "machine_reconcile D M ctx = Rec_Fired out"
  shows "\<exists>t to. t \<in> set (transitions M) \<and> rec_allowed D ctx t \<and>
           out = Moved (dom_state_of D ctx) (t_event t) to (run_plan (t_plan t) ctx) \<and>
           t_to t = To to"
proof -
  from assms(2) obtain t where out: "out = machine_apply D M ctx (t_event t)"
    and one: "rec_moves D M ctx = [t] \<or> (rec_moves D M ctx = [] \<and> rec_loops D M ctx = [t])"
    by (rule reconcile_FiredD)
  then have "t \<in> set (transitions M) \<and> rec_allowed D ctx t"
    using rec_moves_sub [of t D M ctx] rec_loops_sub [of t D M ctx] by auto
  with rec_allowed_applies [OF det] out show ?thesis by blast
qed

text \<open>Two allowed observations that would move the object are never resolved by position.\<close>

lemma reconcile_two_moves:
  assumes "t \<in> set (rec_moves D M ctx)" and "u \<in> set (rec_moves D M ctx)" and "t \<noteq> u"
  shows "machine_reconcile D M ctx = Rec_Ambiguous (map t_event (rec_moves D M ctx))"
proof -
  from assms have "2 \<le> length (rec_moves D M ctx)"
    by (cases "rec_moves D M ctx" rule: remdups_adj.cases) auto
  then show ?thesis by (simp add: reconcile_Ambiguous_iff)
qed

lemma length_filter_le_1:
  assumes "distinct (map k xs)"
    and "\<And>x y. x \<in> set xs \<Longrightarrow> y \<in> set xs \<Longrightarrow> P x \<Longrightarrow> P y \<Longrightarrow> k x = k y"
  shows "length (filter P xs) \<le> 1"
proof -
  have d: "distinct (map k (filter P xs))"
    using assms(1) by (rule distinct_map_filter)
  have "card (set (map k (filter P xs))) \<le> Suc 0"
    using assms(2) by (subst card_le_Suc0_iff_eq) auto
  with distinct_card [OF d] show ?thesis by simp
qed

text \<open>
  How a domain proves its reconciliations partition: any two of them that are allowed at
  once, from the same state and both moving (or both looping), are the same event.
\<close>

lemma never_ambiguousI:
  assumes det: "deterministic M"
    and one: "\<And>t u. t \<in> set (transitions M) \<Longrightarrow> u \<in> set (transitions M) \<Longrightarrow>
       rec_allowed D ctx t \<Longrightarrow> rec_allowed D ctx u \<Longrightarrow>
       (t_to t = To (dom_state_of D ctx)) = (t_to u = To (dom_state_of D ctx)) \<Longrightarrow>
       t_event t = t_event u"
  shows "machine_reconcile D M ctx \<noteq> Rec_Ambiguous es"
proof -
  have key: "row_key t = row_key u"
    if "t \<in> set (transitions M)" "u \<in> set (transitions M)"
      "rec_allowed D ctx t" "rec_allowed D ctx u"
      "(t_to t = To (dom_state_of D ctx)) = (t_to u = To (dom_state_of D ctx))" for t u
    using one [OF that] that(3,4) by (simp add: row_key_def rec_allowed_def rec_candidate_def)
  have dk: "distinct (map row_key (transitions M))"
    using det by (simp add: deterministic_def)
  have "length (rec_moves D M ctx) \<le> 1"
    unfolding rec_moves_def by (rule length_filter_le_1 [OF dk]) (use key in blast)
  moreover have "length (rec_loops D M ctx) \<le> 1"
    unfolding rec_loops_def by (rule length_filter_le_1 [OF dk]) (use key in blast)
  ultimately show ?thesis
    by (auto simp: reconcile_Ambiguous_iff)
qed

text \<open>A single allowed observation fires, and what it fires is its row's move.\<close>

lemma reconcile_unique:
  assumes det: "deterministic M" and t: "t \<in> set (transitions M)" "rec_allowed D ctx t" "t_to t = To to"
    and only: "\<And>u. u \<in> set (transitions M) \<Longrightarrow> rec_allowed D ctx u \<Longrightarrow> t_event u = t_event t"
  shows "machine_reconcile D M ctx =
    Rec_Fired (Moved (dom_state_of D ctx) (t_event t) to (run_plan (t_plan t) ctx))"
proof -
  have key: "u = t" if "u \<in> set (transitions M)" "rec_allowed D ctx u" for u
  proof -
    have "t_from u = t_from t" using that t by (simp add: rec_allowed_def rec_candidate_def)
    then have "Some u = Some t"
      unfolding machine_row_unique [OF det that(1), symmetric] machine_row_unique [OF det t(1), symmetric]
      by (simp only: only [OF that])
    then show ?thesis by simp
  qed
  have "machine_reconcile D M ctx \<noteq> Rec_Ambiguous es" for es
    by (rule never_ambiguousI [OF det]) (use key in auto)
  moreover have "machine_reconcile D M ctx \<noteq> Rec_Settled"
    using t by (auto simp: reconcile_Settled_iff)
  ultimately obtain out where out: "machine_reconcile D M ctx = Rec_Fired out"
    by (cases "machine_reconcile D M ctx") auto
  from reconcile_Fired_moved [OF det this] key t(3) have
    "out = Moved (dom_state_of D ctx) (t_event t) to (run_plan (t_plan t) ctx)" by fastforce
  with out show ?thesis by simp
qed

end
