(* ===== verification/Fsm_Check.thy ===== *)
theory Fsm_Check
  imports Fsm_Machine
begin

text \<open>
  The checks of \<open>crates/jkb-fsm/src/check.rs\<close>: \<open>Machine::check\<close> walks the table,
  \<open>Machine::audit\<close> walks every event against observed contexts. The definitions keep the
  Rust loops: the \<open>seen\<close> and \<open>asked\<close> sets, the name-keyed adjacency map, the explicit
  stack of \<open>reach\<close>. The lemmas say what an empty report means: \<open>check\<close> is exactly
  determinism, guarded observations, used events, repeatable verbs, reachability of every
  state and a path back to rest from every state.
\<close>

section \<open>Defects\<close>

datatype direction = Forward | Backward

datatype stated_mode = Counted | Excluded

datatype ('s, 'e) defect =
  Nondeterministic 's 'e
| UnreachableState 's
| Wedged 's
| NoSettledState
| UnguardedReconciliation 's 'e
| UnusedEvent 'e
| UnreachableRemedy 's 'e 'e
| DeadEnd 's nat
| UncoveredState 's
| Unrepeatable 's 'e
| AmbiguousReconciliation 's nat "'e list"

fun defect_display :: "('s, 'e, 'c, 'z) fsm_domain_scheme \<Rightarrow> ('s, 'e) defect \<Rightarrow> string" where
  "defect_display D (Nondeterministic from event) =
     ''two transitions declare ('' @ state_name D from @ '', '' @ event_name D event @ '')''"
| "defect_display D (UnreachableState state) =
     ''state `'' @ state_name D state @ ''` is reachable from nothing''"
| "defect_display D (Wedged state) =
     ''state `'' @ state_name D state @ ''` cannot reach a state where nothing is owed '' @ emdash @
     '' whatever enters it never gets back to rest''"
| "defect_display D NoSettledState = ''no state is at rest''"
| "defect_display D (UnguardedReconciliation from event) =
     ''reconciliation `'' @ event_name D event @ ''` in `'' @ state_name D from @
     ''` has no guard '' @ emdash @ '' it would assert a state change from nothing observed''"
| "defect_display D (UnusedEvent event) =
     ''event `'' @ event_name D event @ ''` appears in no transition''"
| "defect_display D (Unrepeatable state event) =
     ''`'' @ event_name D event @ ''` leads to `'' @ state_name D state @
     ''`, which does not accept it '' @ emdash @
     '' so running it twice refuses instead of doing nothing. Declare the self-loop with whatever it owes there (often nothing).''"
| "defect_display D (UnreachableRemedy state event remedy) =
     ''refusing `'' @ event_name D event @ ''` in `'' @ state_name D state @ ''` offers remedy `'' @
     event_name D remedy @ ''`, which this machine does not accept there''"
| "defect_display D (UncoveredState state) =
     ''no audited context put the object in state `'' @ state_name D state @ ''`''"
| "defect_display D (DeadEnd state ctx) =
     ''in context #'' @ nat_str ctx @ '', state `'' @ state_name D state @
     ''` accepts no event that moves it''"
| "defect_display D (AmbiguousReconciliation state ctx events) =
     ''in context #'' @ nat_str ctx @ '', state `'' @ state_name D state @ ''` has '' @
     nat_str (length events) @ '' reconciliations firing at once ('' @
     join '', '' (map (event_name D) events) @ '')''"

section \<open>The adjacency map and the walk\<close>

type_synonym adjacency = "(string \<times> string list) list"

text \<open>\<open>map.entry(a).or_default().push(b)\<close>, and \<open>graph.get(node).into_iter().flatten()\<close>.\<close>

fun adj_push :: "string \<Rightarrow> string \<Rightarrow> adjacency \<Rightarrow> adjacency" where
  "adj_push a b [] = [(a, [b])]"
| "adj_push a b ((k, vs) # m) = (if k = a then (k, vs @ [b]) # m else (k, vs) # adj_push a b m)"

definition adj_get :: "adjacency \<Rightarrow> string \<Rightarrow> string list" where
  "adj_get g node = (case map_of g node of None \<Rightarrow> [] | Some vs \<Rightarrow> vs)"

definition row_tos :: "stated_mode \<Rightarrow> ('s, 'e, 'c, 'x) transition \<Rightarrow> 's list" where
  "row_tos stated t =
     (case t_to t of
        To to \<Rightarrow> [to]
      | Stated _ among \<Rightarrow> (case stated of Counted \<Rightarrow> among | Excluded \<Rightarrow> []))"

definition row_edge ::
  "('s, 'e, 'c, 'z) fsm_domain_scheme \<Rightarrow> direction \<Rightarrow> ('s, 'e, 'c, 'x) transition \<Rightarrow> 's
     \<Rightarrow> string \<times> string" where
  "row_edge D dir t to =
     (case dir of
        Forward \<Rightarrow> (state_name D (t_from t), state_name D to)
      | Backward \<Rightarrow> (state_name D to, state_name D (t_from t)))"

definition adjacency ::
  "('s, 'e, 'c, 'z) fsm_domain_scheme \<Rightarrow> ('s, 'e, 'c, 'x) machine \<Rightarrow> direction \<Rightarrow> stated_mode
     \<Rightarrow> adjacency" where
  "adjacency D M dir stated =
     fold (\<lambda>(a, b) m. adj_push a b m)
       (concat (map (\<lambda>t. map (row_edge D dir t) (row_tos stated t)) (transitions M))) []"

text \<open>The inner loop of \<open>reach\<close>: push every neighbour not seen before.\<close>

fun reach_visit :: "string list \<Rightarrow> string list \<Rightarrow> string list \<Rightarrow> string list \<times> string list" where
  "reach_visit [] seen stack = (seen, stack)"
| "reach_visit (n # ns) seen stack =
     (if n \<in> set seen then reach_visit ns seen stack
      else reach_visit ns (n # seen) (n # stack))"

definition adj_nodes :: "adjacency \<Rightarrow> string set" where
  "adj_nodes g = set (concat (map snd g))"

lemma adj_get_nodes: "set (adj_get g node) \<subseteq> adj_nodes g"
proof (cases "map_of g node")
  case None
  then show ?thesis by (simp add: adj_get_def)
next
  case (Some vs)
  then have "(node, vs) \<in> set g" by (rule map_of_SomeD)
  with Some show ?thesis by (force simp: adj_get_def adj_nodes_def)
qed

lemma finite_adj_nodes: "finite (adj_nodes g)"
  by (simp add: adj_nodes_def)

lemma reach_visit_sets:
  "set (fst (reach_visit ns seen stack)) = set seen \<union> set ns"
  "set (snd (reach_visit ns seen stack)) = set stack \<union> (set ns - set seen)"
  by (induction ns arbitrary: seen stack) auto

lemma reach_visit_nothing_new: "set ns \<subseteq> set seen \<Longrightarrow> reach_visit ns seen stack = (seen, stack)"
  by (induction ns) auto

function reach_loop :: "adjacency \<Rightarrow> string list \<Rightarrow> string list \<Rightarrow> string list" where
  "reach_loop g seen [] = seen"
| "reach_loop g seen (node # stack) =
     (case reach_visit (adj_get g node) seen stack of
        (seen', stack') \<Rightarrow> reach_loop g seen' stack')"
  by pat_completeness auto

lemma reach_measure:
  assumes "reach_visit (adj_get g node) seen stack = (seen', stack')"
  shows "((g, seen', stack'), (g, seen, node # stack)) \<in>
     measures [\<lambda>(g, seen, stack). card (adj_nodes g - set seen), \<lambda>(g, seen, stack). length stack]"
proof (cases "set (adj_get g node) \<subseteq> set seen")
  case True
  with assms show ?thesis by (simp add: reach_visit_nothing_new)
next
  case False
  have "set seen' = set seen \<union> set (adj_get g node)"
    using reach_visit_sets(1) [of "adj_get g node" seen stack] assms by simp
  with False adj_get_nodes [of g node] have "adj_nodes g - set seen' \<subset> adj_nodes g - set seen"
    by blast
  then have "card (adj_nodes g - set seen') < card (adj_nodes g - set seen)"
    by (rule psubset_card_mono [rotated]) (simp add: finite_adj_nodes)
  then show ?thesis by simp
qed

termination reach_loop
  by (relation "measures [\<lambda>(g, seen, stack). card (adj_nodes g - set seen),
                          \<lambda>(g, seen, stack). length stack]")
     (simp, metis reach_measure)

definition reach ::
  "('s, 'e, 'c, 'z) fsm_domain_scheme \<Rightarrow> adjacency \<Rightarrow> 's list \<Rightarrow> string list" where
  "reach D g seeds =
     (case reach_visit (map (state_name D) seeds) [] [] of (seen, stack) \<Rightarrow> reach_loop g seen stack)"

section \<open>\<open>check\<close>\<close>

fun check_rows ::
  "('s, 'e, 'c, 'z) fsm_domain_scheme \<Rightarrow> ('s \<times> 'e) list \<Rightarrow> ('s, 'e, 'c, 'x) transition list
     \<Rightarrow> ('s, 'e) defect list" where
  "check_rows D seen [] = []"
| "check_rows D seen (t # ts) =
     (if (t_from t, t_event t) \<in> set seen then [Nondeterministic (t_from t) (t_event t)] else []) @
     (if ev_kind (dom_events D) (t_event t) = Reconciled \<and> Option.is_none (t_guard t)
      then [UnguardedReconciliation (t_from t) (t_event t)] else []) @
     check_rows D ((t_from t, t_event t) # seen) ts"

fun check_repeatable ::
  "('s, 'e, 'c, 'z) fsm_domain_scheme \<Rightarrow> ('s, 'e, 'c, 'x) machine \<Rightarrow> ('s \<times> 'e) list
     \<Rightarrow> ('s, 'e, 'c, 'x) transition list \<Rightarrow> ('s, 'e) defect list" where
  "check_repeatable D M asked [] = []"
| "check_repeatable D M asked (t # ts) =
     (case t_to t of
        Stated _ _ \<Rightarrow> check_repeatable D M asked ts
      | To dest \<Rightarrow>
          (if ev_kind (dom_events D) (t_event t) \<noteq> Applied \<or> (dest, t_event t) \<in> set asked
           then check_repeatable D M asked ts
           else (if machine_accepts M dest (t_event t) = Acc_Undefined
                 then [Unrepeatable dest (t_event t)] else []) @
                check_repeatable D M ((dest, t_event t) # asked) ts))"

definition machine_check ::
  "('s, 'e, 'c, 'z) fsm_domain_scheme \<Rightarrow> ('s, 'e, 'c, 'x) machine \<Rightarrow> ('s, 'e) defect list" where
  "machine_check D M =
     (let reachable = reach D (adjacency D M Forward Counted) [initial M];
          settled = filter (settled_in D) (states_of D);
          can_finish = reach D (adjacency D M Backward Excluded) settled
      in check_rows D [] (transitions M) @
         map UnusedEvent
           (filter (\<lambda>e. \<not> list_ex (\<lambda>t. t_event t = e) (transitions M)) (events_of D)) @
         check_repeatable D M [] (transitions M) @
         map UnreachableState (filter (\<lambda>s. state_name D s \<notin> set reachable) (states_of D)) @
         (if settled = [] then [NoSettledState]
          else map Wedged
            (filter (\<lambda>s. \<not> settled_in D s \<and> state_name D s \<notin> set can_finish) (states_of D))))"

section \<open>\<open>audit\<close>\<close>

fun audit_events ::
  "('s, 'e, 'c, 'z) fsm_domain_scheme \<Rightarrow> ('s, 'e, 'c, 'x) machine \<Rightarrow> 'c \<Rightarrow> 'e list \<Rightarrow> bool
     \<Rightarrow> ('s, 'e) defect list \<times> bool" where
  "audit_events D M ctx [] can_move = ([], can_move)"
| "audit_events D M ctx (event # es) can_move =
     (let state = dom_state_of D ctx in
      case machine_accepts M state event of
        Acc_Undefined \<Rightarrow> audit_events D M ctx es can_move
      | _ \<Rightarrow>
          (case machine_apply D M ctx event of
             Moved from _ to _ \<Rightarrow>
               audit_events D M ctx es (can_move \<or> from \<noteq> to \<and> \<not> is_stated M state event)
           | Refused _ _ d \<Rightarrow>
               (case audit_events D M ctx es can_move of (ds, cm) \<Rightarrow>
                  ((case validate_remedy M state d of
                      Some remedy \<Rightarrow> [UnreachableRemedy state event remedy] | None \<Rightarrow> []) @ ds, cm))
           | _ \<Rightarrow> audit_events D M ctx es can_move))"

definition audit_context ::
  "('s, 'e, 'c, 'z) fsm_domain_scheme \<Rightarrow> ('s, 'e, 'c, 'x) machine \<Rightarrow> nat \<Rightarrow> 'c
     \<Rightarrow> ('s, 'e) defect list" where
  "audit_context D M i ctx =
     (let state = dom_state_of D ctx in
      case audit_events D M ctx (events_of D) False of (ds, can_move) \<Rightarrow>
        ds @
        (if \<not> settled_in D state \<and> \<not> st_awaits (dom_states D) state \<and> \<not> can_move
         then [DeadEnd state i] else []) @
        (case machine_reconcile D M ctx of
           Rec_Ambiguous events \<Rightarrow> [AmbiguousReconciliation state i events]
         | _ \<Rightarrow> []))"

definition machine_audit ::
  "('s, 'e, 'c, 'z) fsm_domain_scheme \<Rightarrow> ('s, 'e, 'c, 'x) machine \<Rightarrow> 'c list
     \<Rightarrow> ('s, 'e) defect list" where
  "machine_audit D M contexts =
     concat (map (\<lambda>(i, ctx). audit_context D M i ctx) (enumerate 0 contexts)) @
     map UncoveredState
       (filter (\<lambda>s. state_name D s \<notin> set (map (\<lambda>ctx. state_name D (dom_state_of D ctx)) contexts))
         (states_of D))"

section \<open>The walk computes reachability\<close>

definition adj_rel :: "adjacency \<Rightarrow> (string \<times> string) set" where
  "adj_rel g = {(a, b). b \<in> set (adj_get g a)}"

lemma adj_get_Nil [simp]: "adj_get [] x = []"
  by (simp add: adj_get_def)

lemma adj_get_Cons: "adj_get ((k, vs) # m) x = (if k = x then vs else adj_get m x)"
  unfolding adj_get_def map_of_Cons_code by simp

lemma adj_get_push:
  "set (adj_get (adj_push a b g) x) = (if x = a then insert b (set (adj_get g a)) else set (adj_get g x))"
proof (induction a b g rule: adj_push.induct)
  case (1 a b)
  then show ?case by (cases "x = a") (simp_all add: adj_get_Cons)
next
  case (2 a b k vs m)
  then show ?case by (cases "x = a"; cases "k = a"; cases "x = k") (simp_all add: adj_get_Cons)
qed

lemma adj_rel_push: "adj_rel (adj_push a b g) = insert (a, b) (adj_rel g)"
  by (auto simp: adj_rel_def adj_get_push split: if_splits)

lemma adj_rel_fold: "adj_rel (fold (\<lambda>(a, b) m. adj_push a b m) es g) = set es \<union> adj_rel g"
  by (induction es arbitrary: g) (auto simp: adj_rel_push)

lemma adj_rel_Nil [simp]: "adj_rel [] = {}"
  by (simp add: adj_rel_def adj_get_def)

lemma reach_loop_sound:
  assumes "set stack \<subseteq> set seen"
  shows "set (reach_loop g seen stack) \<subseteq> (adj_rel g)\<^sup>* `` set seen"
  using assms
proof (induction g seen stack rule: reach_loop.induct)
  case (1 g seen)
  then show ?case by auto
next
  case (2 g seen node stack)
  obtain seen' stack' where v: "reach_visit (adj_get g node) seen stack = (seen', stack')"
    by fastforce
  have sets: "set seen' = set seen \<union> set (adj_get g node)"
    "set stack' = set stack \<union> (set (adj_get g node) - set seen)"
    using reach_visit_sets [of "adj_get g node" seen stack] v by simp_all
  have "set (reach_loop g seen' stack') \<subseteq> (adj_rel g)\<^sup>* `` set seen'"
    using "2.IH" [OF v [symmetric]] "2.prems" sets by auto
  also have "set seen' \<subseteq> (adj_rel g)\<^sup>* `` set seen"
    using sets "2.prems" by (auto simp: adj_rel_def)
  then have "(adj_rel g)\<^sup>* `` set seen' \<subseteq> (adj_rel g)\<^sup>* `` set seen"
    by (blast intro: rtrancl_trans)
  finally show ?case using v by simp
qed

lemma reach_loop_complete:
  assumes "adj_rel g `` (set seen - set stack) \<subseteq> set seen"
  shows "set seen \<subseteq> set (reach_loop g seen stack) \<and>
         adj_rel g `` set (reach_loop g seen stack) \<subseteq> set (reach_loop g seen stack)"
  using assms
proof (induction g seen stack rule: reach_loop.induct)
  case (1 g seen)
  then show ?case by auto
next
  case (2 g seen node stack)
  obtain seen' stack' where v: "reach_visit (adj_get g node) seen stack = (seen', stack')"
    by fastforce
  have sets: "set seen' = set seen \<union> set (adj_get g node)"
    "set stack' = set stack \<union> (set (adj_get g node) - set seen)"
    using reach_visit_sets [of "adj_get g node" seen stack] v by simp_all
  have "adj_rel g `` (set seen' - set stack') \<subseteq> set seen'"
  proof
    fix y assume "y \<in> adj_rel g `` (set seen' - set stack')"
    then obtain x where x: "x \<in> set seen'" "x \<notin> set stack'" "(x, y) \<in> adj_rel g" by auto
    show "y \<in> set seen'"
    proof (cases "x = node")
      case True
      with x(3) sets show ?thesis by (simp add: adj_rel_def)
    next
      case False
      with x sets have "x \<in> set seen - set (node # stack)" by auto
      with x(3) "2.prems" sets show ?thesis by blast
    qed
  qed
  from "2.IH" [OF v [symmetric] this] v sets show ?case by auto
qed

lemma closed_under_rtrancl:
  assumes "(x, y) \<in> r\<^sup>*" and "x \<in> A" and "r `` A \<subseteq> A"
  shows "y \<in> A"
  using assms by (induction rule: rtrancl_induct) auto

lemma reach_eq: "set (reach D g seeds) = (adj_rel g)\<^sup>* `` (state_name D ` set seeds)"
proof -
  obtain seen stack where v: "reach_visit (map (state_name D) seeds) [] [] = (seen, stack)"
    by fastforce
  have sets: "set seen = state_name D ` set seeds" "set stack = state_name D ` set seeds"
    using reach_visit_sets [of "map (state_name D) seeds" "[]" "[]"] v by simp_all
  have "set (reach_loop g seen stack) \<subseteq> (adj_rel g)\<^sup>* `` set seen"
    using sets by (intro reach_loop_sound) simp
  moreover have "(adj_rel g)\<^sup>* `` set seen \<subseteq> set (reach_loop g seen stack)"
    using reach_loop_complete [of g seen stack] sets by (auto dest: closed_under_rtrancl)
  ultimately show ?thesis
    using v sets by (auto simp: reach_def)
qed

section \<open>The graph of a table\<close>

definition table_edges :: "stated_mode \<Rightarrow> ('s, 'e, 'c, 'x) machine \<Rightarrow> ('s \<times> 's) set" where
  "table_edges stated M = {(t_from t, to) | t to. t \<in> set (transitions M) \<and> to \<in> set (row_tos stated t)}"

lemma adj_rel_forward:
  "adj_rel (adjacency D M Forward stated) = map_prod (state_name D) (state_name D) ` table_edges stated M"
  by (auto simp: adjacency_def adj_rel_fold row_edge_def table_edges_def)

lemma adj_rel_backward:
  "adj_rel (adjacency D M Backward stated) =
     map_prod (state_name D) (state_name D) ` ((table_edges stated M)\<inverse>)"
  by (auto simp: adjacency_def adj_rel_fold row_edge_def table_edges_def)

lemma rtrancl_image_back:
  assumes "inj f" and "(x, y) \<in> (map_prod f f ` r)\<^sup>*" and "x = f a"
  shows "\<exists>c. y = f c \<and> (a, c) \<in> r\<^sup>*"
  using assms(2,3)
proof (induction rule: rtrancl_induct)
  case base
  then show ?case by blast
next
  case (step y z)
  then obtain c where c: "y = f c" "(a, c) \<in> r\<^sup>*" by blast
  from step.hyps(2) obtain u v where uv: "y = f u" "z = f v" "(u, v) \<in> r" by auto
  from c(1) uv(1) assms(1) have "u = c" by (simp add: inj_eq)
  with c uv show ?case by (blast intro: rtrancl_into_rtrancl)
qed

lemma rtrancl_inj_image:
  assumes "inj f"
  shows "(f a, f b) \<in> (map_prod f f ` r)\<^sup>* \<longleftrightarrow> (a, b) \<in> r\<^sup>*"
proof
  assume "(f a, f b) \<in> (map_prod f f ` r)\<^sup>*"
  from rtrancl_image_back [OF assms this refl] assms show "(a, b) \<in> r\<^sup>*"
    by (auto simp: inj_eq)
next
  assume "(a, b) \<in> r\<^sup>*"
  then show "(f a, f b) \<in> (map_prod f f ` r)\<^sup>*"
  proof (induction rule: rtrancl_induct)
    case (step y z)
    then have "(f y, f z) \<in> map_prod f f ` r" by force
    with step.IH show ?case by (rule rtrancl_into_rtrancl)
  qed simp
qed

section \<open>What an empty report means\<close>

definition observations_guarded ::
  "('s, 'e, 'c, 'z) fsm_domain_scheme \<Rightarrow> ('s, 'e, 'c, 'x) machine \<Rightarrow> bool" where
  "observations_guarded D M \<longleftrightarrow>
     (\<forall>t \<in> set (transitions M).
        ev_kind (dom_events D) (t_event t) = Reconciled \<longrightarrow> t_guard t \<noteq> None)"

definition verbs_repeatable ::
  "('s, 'e, 'c, 'z) fsm_domain_scheme \<Rightarrow> ('s, 'e, 'c, 'x) machine \<Rightarrow> bool" where
  "verbs_repeatable D M \<longleftrightarrow>
     (\<forall>t \<in> set (transitions M). \<forall>s.
        t_to t = To s \<and> ev_kind (dom_events D) (t_event t) = Applied \<longrightarrow>
        machine_accepts M s (t_event t) \<noteq> Acc_Undefined)"

lemma check_rows_Nil:
  "check_rows D seen ts = [] \<longleftrightarrow>
     distinct (map row_key ts) \<and> set (map row_key ts) \<inter> set seen = {} \<and>
     (\<forall>t \<in> set ts. ev_kind (dom_events D) (t_event t) = Reconciled \<longrightarrow> t_guard t \<noteq> None)"
  by (induction ts arbitrary: seen) (auto simp: row_key_def Option.is_none_def)

lemma check_repeatable_Nil:
  "check_repeatable D M asked ts = [] \<longleftrightarrow>
     (\<forall>t \<in> set ts. \<forall>s.
        t_to t = To s \<and> ev_kind (dom_events D) (t_event t) = Applied \<and>
        (s, t_event t) \<notin> set asked \<longrightarrow> machine_accepts M s (t_event t) \<noteq> Acc_Undefined)"
  by (induction ts arbitrary: asked) (auto split: dest.splits)

text \<open>
  The contract of the traits \<open>State\<close> and \<open>Event\<close>: \<open>ALL\<close> lists every value, and the names
  tell them apart. The checks walk \<open>ALL\<close> and key their maps by name, so they rely on both.
\<close>

locale fsm_types =
  fixes D :: "('s, 'e, 'c) fsm_domain"
  assumes all_states: "set (states_of D) = UNIV"
    and all_events: "set (events_of D) = UNIV"
    and state_names: "inj (state_name D)"
    and event_names: "inj (event_name D)"
begin

lemma reachable_iff:
  "state_name D s \<in> set (reach D (adjacency D M Forward stated) [s0]) \<longleftrightarrow>
     (s0, s) \<in> (table_edges stated M)\<^sup>*"
  using rtrancl_inj_image [OF state_names, of s0 s "table_edges stated M"]
  by (simp add: reach_eq adj_rel_forward)

lemma can_finish_iff:
  "state_name D s \<in> set (reach D (adjacency D M Backward stated) seeds) \<longleftrightarrow>
     (\<exists>s' \<in> set seeds. (s, s') \<in> (table_edges stated M)\<^sup>*)"
proof -
  have "(state_name D s', state_name D s) \<in>
          (map_prod (state_name D) (state_name D) ` ((table_edges stated M)\<inverse>))\<^sup>* \<longleftrightarrow>
        (s, s') \<in> (table_edges stated M)\<^sup>*" for s'
    using rtrancl_inj_image [OF state_names, of s' s "(table_edges stated M)\<inverse>"]
    by (simp add: rtrancl_converse)
  then show ?thesis
    by (auto simp: reach_eq adj_rel_backward)
qed

lemma check_Nil_iff:
  "machine_check D M = [] \<longleftrightarrow>
     deterministic M \<and> observations_guarded D M \<and>
     (\<forall>e. \<exists>t \<in> set (transitions M). t_event t = e) \<and>
     verbs_repeatable D M \<and>
     (\<forall>s. (initial M, s) \<in> (table_edges Counted M)\<^sup>*) \<and>
     (\<forall>s. \<exists>s'. settled_in D s' \<and> (s, s') \<in> (table_edges Excluded M)\<^sup>*)"
proof -
  have rows: "check_rows D [] (transitions M) = [] \<longleftrightarrow> deterministic M \<and> observations_guarded D M"
    by (auto simp: check_rows_Nil deterministic_def observations_guarded_def)
  have rep: "check_repeatable D M [] (transitions M) = [] \<longleftrightarrow> verbs_repeatable D M"
    by (auto simp: check_repeatable_Nil verbs_repeatable_def)
  let ?settled = "filter (settled_in D) (states_of D)"
  have none: "?settled = [] \<longleftrightarrow> (\<forall>s. \<not> settled_in D s)"
    using all_states by (auto simp: filter_empty_conv)
  have wedged: "(\<forall>s. settled_in D s \<or>
        state_name D s \<in> set (reach D (adjacency D M Backward Excluded) ?settled)) \<longleftrightarrow>
      (\<forall>s. \<exists>s'. settled_in D s' \<and> (s, s') \<in> (table_edges Excluded M)\<^sup>*)"
    using all_states by (auto simp: can_finish_iff)
  have "machine_check D M = [] \<longleftrightarrow>
      check_rows D [] (transitions M) = [] \<and>
      (\<forall>e. \<exists>t \<in> set (transitions M). t_event t = e) \<and>
      check_repeatable D M [] (transitions M) = [] \<and>
      (\<forall>s. state_name D s \<in> set (reach D (adjacency D M Forward Counted) [initial M])) \<and>
      ?settled \<noteq> [] \<and>
      (\<forall>s. settled_in D s \<or>
        state_name D s \<in> set (reach D (adjacency D M Backward Excluded) ?settled))"
    using all_states all_events
    by (auto simp: machine_check_def Let_def filter_empty_conv list_ex_iff)
  then show ?thesis
    unfolding rows rep reachable_iff wedged none by blast
qed

end

text \<open>A machine with one row per state and event.\<close>

locale det_machine = fsm_types D for D :: "('s, 'e, 'c) fsm_domain" +
  fixes M :: "('s, 'e, 'c, 'x) machine"
  assumes is_deterministic: "deterministic M"
begin

lemma row_unique:
  "t \<in> set (transitions M) \<Longrightarrow> machine_row M (t_from t) (t_event t) = Some t"
  by (rule machine_row_unique [OF is_deterministic])

end

text \<open>A machine whose \<open>check\<close> reports nothing, and what its callers may rely on.\<close>

locale checked_machine = fsm_types D for D :: "('s, 'e, 'c) fsm_domain" +
  fixes M :: "('s, 'e, 'c, 'x) machine"
  assumes check_clean: "machine_check D M = []"
begin

lemma check_deterministic: "deterministic M"
  using check_clean by (simp add: check_Nil_iff)

lemma every_state_reachable: "(initial M, s) \<in> (table_edges Counted M)\<^sup>*"
  using check_clean by (simp add: check_Nil_iff)

lemma never_wedged: "\<exists>s'. settled_in D s' \<and> (s, s') \<in> (table_edges Excluded M)\<^sup>*"
  using check_clean by (simp add: check_Nil_iff)

lemma observation_has_guard:
  "t \<in> set (transitions M) \<Longrightarrow> ev_kind (dom_events D) (t_event t) = Reconciled \<Longrightarrow> t_guard t \<noteq> None"
  using check_clean by (auto simp: check_Nil_iff observations_guarded_def)

lemma fired_has_moved:
  "machine_reconcile D M ctx = Rec_Fired out \<Longrightarrow>
     \<exists>t to g. t \<in> set (transitions M) \<and> t_from t = dom_state_of D ctx \<and> t_to t = To to \<and>
       t_guard t = Some g \<and> g ctx = Allow \<and> ev_kind (dom_events D) (t_event t) = Reconciled \<and>
       out = Moved (dom_state_of D ctx) (t_event t) to (run_plan (t_plan t) ctx)"
  using reconcile_Fired_moved [OF check_deterministic, of D ctx out] observation_has_guard
  by (fastforce simp: rec_allowed_def rec_candidate_def run_guard_def)

text \<open>Running a verb again from where it led is answered, never undefined.\<close>

lemma repeat_defined:
  assumes "machine_apply D M ctx e = Moved from e to fx" and "ev_kind (dom_events D) e = Applied"
    and "\<not> is_stated M from e"
  shows "machine_accepts M to e \<noteq> Acc_Undefined"
proof -
  from assms(1) obtain t where row: "machine_row M from e = Some t"
    and res: "resolve (t_to t) ctx = Res_To to"
    by (auto simp: apply_Moved_iff)
  with assms(3) have "t_to t = To to"
    by (cases "t_to t") (auto simp: is_stated_def)
  moreover from row have "t \<in> set (transitions M)" "t_event t = e"
    by (auto dest: machine_row_SomeD)
  ultimately show ?thesis
    using check_clean assms(2) by (auto simp: check_Nil_iff verbs_repeatable_def)
qed

end

sublocale checked_machine < det_machine D M
  by unfold_locales (rule check_deterministic)

section \<open>What the audit reports\<close>

lemma audit_events_defects:
  "d \<in> set (fst (audit_events D M ctx es cm)) \<longleftrightarrow>
     (\<exists>e dn r. e \<in> set es \<and> machine_apply D M ctx e = Refused (dom_state_of D ctx) e dn \<and>
        validate_remedy M (dom_state_of D ctx) dn = Some r \<and>
        d = UnreachableRemedy (dom_state_of D ctx) e r)"
proof (induction es arbitrary: cm)
  case Nil
  then show ?case by simp
next
  case (Cons e es)
  show ?case
  proof (cases "machine_apply D M ctx e")
    case (Moved fr e' to fx)
    with Cons show ?thesis
      by (auto simp: Let_def split: acceptance.splits prod.splits)
  next
    case (Idempotent s e')
    with Cons show ?thesis
      by (auto simp: Let_def split: acceptance.splits prod.splits)
  next
    case (Refused s e' dn)
    then obtain t where t: "machine_row M (dom_state_of D ctx) e = Some t" "s = dom_state_of D ctx" "e' = e"
      by (rule apply_Refused_row)
    then have "machine_accepts M (dom_state_of D ctx) e \<noteq> Acc_Undefined"
      by (simp add: accepts_row)
    with Refused t show ?thesis
      using Cons.IH [of cm]
      by (cases "audit_events D M ctx es cm"; cases "validate_remedy M (dom_state_of D ctx) dn";
          cases "machine_accepts M (dom_state_of D ctx) e")
         (auto simp: Let_def)
  next
    case (Undefined s e')
    with Cons show ?thesis
      by (auto simp: Let_def split: acceptance.splits prod.splits)
  qed
qed

lemma audit_events_can_move:
  "snd (audit_events D M ctx es cm) \<longleftrightarrow>
     cm \<or> (\<exists>e \<in> set es. \<exists>to fx. machine_apply D M ctx e = Moved (dom_state_of D ctx) e to fx \<and>
        to \<noteq> dom_state_of D ctx \<and> \<not> is_stated M (dom_state_of D ctx) e)"
proof (induction es arbitrary: cm)
  case Nil
  then show ?case by simp
next
  case (Cons e es)
  show ?case
  proof (cases "machine_apply D M ctx e")
    case (Moved fr e' to fx)
    then have "machine_accepts M (dom_state_of D ctx) e \<noteq> Acc_Undefined" "fr = dom_state_of D ctx" "e' = e"
      by (auto simp: apply_Moved_iff accepts_row)
    with Cons Moved show ?thesis
      by (auto simp: Let_def split: acceptance.splits)
  next
    case (Refused s e' dn)
    then show ?thesis
      using Cons.IH [of cm]
      by (cases "audit_events D M ctx es cm") (auto simp: Let_def split: acceptance.splits)
  qed (use Cons in \<open>auto simp: Let_def split: acceptance.splits prod.splits\<close>)
qed

text \<open>
  An audit is clean of the guard-dependent defects exactly when, in every context, each refusal's
  remedy is accepted, something can move an object that is neither at rest nor waiting, and
  the observations are not ambiguous.
\<close>

definition context_sound ::
  "('s, 'e, 'c, 'z) fsm_domain_scheme \<Rightarrow> ('s, 'e, 'c, 'x) machine \<Rightarrow> 'c \<Rightarrow> bool" where
  "context_sound D M ctx \<longleftrightarrow>
     (\<forall>e \<in> set (events_of D). \<forall>dn.
        machine_apply D M ctx e = Refused (dom_state_of D ctx) e dn \<longrightarrow>
        validate_remedy M (dom_state_of D ctx) dn = None) \<and>
     (settled_in D (dom_state_of D ctx) \<or> st_awaits (dom_states D) (dom_state_of D ctx) \<or>
      (\<exists>e \<in> set (events_of D). \<exists>to fx.
         machine_apply D M ctx e = Moved (dom_state_of D ctx) e to fx \<and>
         to \<noteq> dom_state_of D ctx \<and> \<not> is_stated M (dom_state_of D ctx) e)) \<and>
     (\<forall>es. machine_reconcile D M ctx \<noteq> Rec_Ambiguous es)"

lemma audit_context_Nil: "audit_context D M i ctx = [] \<longleftrightarrow> context_sound D M ctx"
proof -
  obtain ds cm where a: "audit_events D M ctx (events_of D) False = (ds, cm)"
    by fastforce
  have "ds = [] \<longleftrightarrow> (\<forall>d. d \<notin> set (fst (audit_events D M ctx (events_of D) False)))"
    using a by auto
  then have ds: "ds = [] \<longleftrightarrow>
      (\<forall>e \<in> set (events_of D). \<forall>dn.
        machine_apply D M ctx e = Refused (dom_state_of D ctx) e dn \<longrightarrow>
        validate_remedy M (dom_state_of D ctx) dn = None)"
    unfolding audit_events_defects by (metis not_Some_eq)
  have cm: "cm \<longleftrightarrow> (\<exists>e \<in> set (events_of D). \<exists>to fx.
         machine_apply D M ctx e = Moved (dom_state_of D ctx) e to fx \<and>
         to \<noteq> dom_state_of D ctx \<and> \<not> is_stated M (dom_state_of D ctx) e)"
    using audit_events_can_move [of D M ctx "events_of D" False] a by simp
  show ?thesis
    unfolding audit_context_def context_sound_def a Let_def prod.case ds [symmetric] cm [symmetric]
    by (auto split: reconciliation.splits)
qed

lemma audit_Nil:
  "machine_audit D M contexts = [] \<longleftrightarrow>
     (\<forall>ctx \<in> set contexts. context_sound D M ctx) \<and>
     (\<forall>s \<in> set (states_of D). \<exists>ctx \<in> set contexts. state_name D (dom_state_of D ctx) = state_name D s)"
proof -
  have "concat (map (\<lambda>(i, ctx). audit_context D M i ctx) (enumerate n contexts)) = [] \<longleftrightarrow>
        (\<forall>ctx \<in> set contexts. context_sound D M ctx)" for n
    by (induction contexts arbitrary: n) (simp_all add: audit_context_Nil)
  moreover have "map UncoveredState (filter (\<lambda>s. state_name D s \<notin>
        set (map (\<lambda>ctx. state_name D (dom_state_of D ctx)) contexts)) (states_of D)) = [] \<longleftrightarrow>
      (\<forall>s \<in> set (states_of D). \<exists>ctx \<in> set contexts.
         state_name D (dom_state_of D ctx) = state_name D s)"
    by (simp add: filter_empty_conv image_iff) metis
  ultimately show ?thesis
    by (simp add: machine_audit_def)
qed

section \<open>How a domain uses its checked machine\<close>

context det_machine
begin

text \<open>A move is a row of the table: lookup by search and membership coincide.\<close>

lemma moved_iff:
  "machine_apply D M ctx e = Moved fr e' to fx \<longleftrightarrow>
     fr = dom_state_of D ctx \<and> e' = e \<and>
     (\<exists>t \<in> set (transitions M). t_from t = fr \<and> t_event t = e \<and>
        run_guard (t_guard t) ctx = Allow \<and> resolve (t_to t) ctx = Res_To to \<and>
        fx = run_plan (t_plan t) ctx)"
proof -
  have "machine_row M fr e = Some t \<longleftrightarrow> t \<in> set (transitions M) \<and> t_from t = fr \<and> t_event t = e" for t
    by (auto dest: machine_row_SomeD row_unique)
  then show ?thesis
    unfolding apply_Moved_iff by blast
qed

lemma accepts_rowI:
  assumes "t \<in> set (transitions M)" "t_from t = s" "t_event t = e"
  shows "machine_accepts M s e \<noteq> Acc_Undefined"
  using row_unique [OF assms(1)] assms(2,3) by (intro accepts_row) simp

text \<open>
  What a domain shows of its guards to make every context sound: the remedy a denial names
  has a row where it is named, some unguarded row leaves a state that owes work, and no two
  observations compete.
\<close>

lemma context_soundI:
  assumes remedies: "\<And>t d r. t \<in> set (transitions M) \<Longrightarrow> t_from t = dom_state_of D ctx \<Longrightarrow>
      run_guard (t_guard t) ctx = Deny d \<Longrightarrow> dn_remedy d = Some r \<Longrightarrow>
      machine_accepts M (dom_state_of D ctx) (rm_event r) \<noteq> Acc_Undefined"
    and exits: "settled_in D (dom_state_of D ctx) \<or> st_awaits (dom_states D) (dom_state_of D ctx) \<or>
      (\<exists>t \<in> set (transitions M). \<exists>to. t_from t = dom_state_of D ctx \<and> t_to t = To to \<and>
         to \<noteq> dom_state_of D ctx \<and> run_guard (t_guard t) ctx = Allow)"
    and partition: "\<And>es. machine_reconcile D M ctx \<noteq> Rec_Ambiguous es"
  shows "context_sound D M ctx"
proof -
  have "validate_remedy M (dom_state_of D ctx) dn = None"
    if "machine_apply D M ctx e = Refused (dom_state_of D ctx) e dn" for e dn
  proof -
    from that obtain t where t: "machine_row M (dom_state_of D ctx) e = Some t"
      and d: "run_guard (t_guard t) ctx = Deny dn \<or> run_guard (t_guard t) ctx = Allow \<and> dn_remedy dn = None"
      by (rule apply_Refused_row)
    with machine_row_SomeD [OF t] remedies [of t dn] show ?thesis
      by (auto simp: validate_remedy_def split: option.splits acceptance.splits)
  qed
  moreover have "\<exists>e \<in> set (events_of D). \<exists>to fx.
      machine_apply D M ctx e = Moved (dom_state_of D ctx) e to fx \<and>
      to \<noteq> dom_state_of D ctx \<and> \<not> is_stated M (dom_state_of D ctx) e"
    if "t \<in> set (transitions M)" "t_from t = dom_state_of D ctx" "t_to t = To to"
      "to \<noteq> dom_state_of D ctx" "run_guard (t_guard t) ctx = Allow" for t to
    using that row_unique [OF that(1)] all_events
    by (intro bexI [of _ "t_event t"] exI [of _ to]) (auto simp: apply_Moved_iff is_stated_def)
  ultimately show ?thesis
    using exits partition unfolding context_sound_def by blast
qed

text \<open>
  If every guard that allowed still allows, and plans and named targets are the same, the
  move is the same.
\<close>

lemma moved_stable:
  assumes moved: "machine_apply D M ctx e = Moved fr e to fx"
    and state: "dom_state_of D ctx' = dom_state_of D ctx"
    and stable: "\<And>t. t \<in> set (transitions M) \<Longrightarrow> run_guard (t_guard t) ctx = Allow \<Longrightarrow>
          run_guard (t_guard t) ctx' = Allow \<and> resolve (t_to t) ctx' = resolve (t_to t) ctx \<and>
          run_plan (t_plan t) ctx' = run_plan (t_plan t) ctx"
  shows "machine_apply D M ctx' e = Moved fr e to fx"
proof -
  from moved obtain t where t: "t \<in> set (transitions M)" "t_from t = fr" "t_event t = e"
      "run_guard (t_guard t) ctx = Allow" "resolve (t_to t) ctx = Res_To to"
      "fx = run_plan (t_plan t) ctx" and fr: "fr = dom_state_of D ctx"
    unfolding moved_iff by blast
  from stable [OF t(1,4)] t fr state show ?thesis
    unfolding moved_iff by (intro conjI bexI [of _ t]) simp_all
qed
end

end
