(* ===== verification/Types_Enums.thy ===== *)
theory Types_Enums
  imports Fsm_Machine
begin

text \<open>
  The closed enumerations of \<open>crates/jkb-types/src/enums.rs\<close>. The macro \<open>db_enum!\<close> generates
  \<open>ALL\<close>, \<open>as_str\<close> and \<open>from_db_str\<close> from one list of lines; here each enum is a datatype with
  its \<open>ALL\<close> list and its \<open>as_str\<close>, and \<open>from_db_str\<close> is the search of that list by spelling.
  \<open>TaskStatus\<close> and \<open>Resolution\<close> also implement \<open>jkb_fsm::State\<close>, as the dictionaries
  \<open>task_status_state\<close> and \<open>resolution_state\<close>.

  The SQL fragments \<open>sql_terminal_list!\<close> and \<open>sql_not_terminal!\<close> are the predicates they
  denote over a nullable column.
\<close>

section \<open>Task status\<close>

datatype task_status = Open | InProgress | NeedsReview | Done | Cancelled

definition task_status_ALL :: "task_status list" where
  "task_status_ALL = [Open, InProgress, NeedsReview, Done, Cancelled]"

fun task_status_as_str :: "task_status \<Rightarrow> string" where
  "task_status_as_str Open = ''open''"
| "task_status_as_str InProgress = ''in_progress''"
| "task_status_as_str NeedsReview = ''needs_review''"
| "task_status_as_str Done = ''done''"
| "task_status_as_str Cancelled = ''cancelled''"

definition task_status_from_db_str :: "string \<Rightarrow> task_status option" where
  "task_status_from_db_str s = parse_by_name task_status_ALL task_status_as_str s"

definition from_manual_str :: "string \<Rightarrow> task_status option" where
  "from_manual_str s = task_status_from_db_str s"

definition is_terminal :: "task_status \<Rightarrow> bool" where
  "is_terminal s = (case s of Done \<Rightarrow> True | Cancelled \<Rightarrow> True | _ \<Rightarrow> False)"

definition is_terminal_str :: "string option \<Rightarrow> bool" where
  "is_terminal_str status =
     (case Option.bind status from_manual_str of Some s \<Rightarrow> is_terminal s | None \<Rightarrow> False)"

definition sql_terminal_list :: "string list" where
  "sql_terminal_list = [''done'', ''cancelled'']"

text \<open>\<open>IS NOT\<close> is null-safe, so an absent status passes.\<close>

definition sql_not_terminal :: "string option \<Rightarrow> bool" where
  "sql_not_terminal col \<longleftrightarrow> col \<noteq> Some ''done'' \<and> col \<noteq> Some ''cancelled''"

fun stage :: "task_status \<Rightarrow> nat" where
  "stage Open = 0"
| "stage InProgress = 1"
| "stage NeedsReview = 2"
| "stage Done = 3"
| "stage Cancelled = 3"

definition moved_backwards :: "string option \<Rightarrow> string option \<Rightarrow> bool" where
  "moved_backwards from to =
     (case (Option.bind from from_manual_str, Option.bind to from_manual_str) of
        (Some f, Some t) \<Rightarrow> stage t < stage f
      | _ \<Rightarrow> False)"

definition unblocks_dependents :: "task_status \<Rightarrow> bool" where
  "unblocks_dependents s = is_terminal s"

definition task_status_default :: task_status where
  "task_status_default = Open"

definition task_status_state :: "task_status state_trait" where
  "task_status_state =
     \<lparr>st_all = task_status_ALL, st_name = task_status_as_str, st_noun = ''a task'',
      st_settled = is_terminal, st_awaits = (\<lambda>_. False)\<rparr>"

section \<open>Resolution\<close>

datatype resolution = R_Unresolved | R_Success | R_DeadEnd | R_Superseded | R_Abandoned

definition resolution_ALL :: "resolution list" where
  "resolution_ALL = [R_Unresolved, R_Success, R_DeadEnd, R_Superseded, R_Abandoned]"

fun resolution_as_str :: "resolution \<Rightarrow> string" where
  "resolution_as_str R_Unresolved = ''unresolved''"
| "resolution_as_str R_Success = ''success''"
| "resolution_as_str R_DeadEnd = ''dead_end''"
| "resolution_as_str R_Superseded = ''superseded''"
| "resolution_as_str R_Abandoned = ''abandoned''"

definition resolution_from_db_str :: "string \<Rightarrow> resolution option" where
  "resolution_from_db_str s = parse_by_name resolution_ALL resolution_as_str s"

definition resolution_from_str_opt :: "string \<Rightarrow> resolution option" where
  "resolution_from_str_opt s = (if s = [] then Some R_Unresolved else resolution_from_db_str s)"

definition resolution_is_settled :: "resolution \<Rightarrow> bool" where
  "resolution_is_settled r = (case r of R_Unresolved \<Rightarrow> False | _ \<Rightarrow> True)"

definition is_tombstone :: "resolution \<Rightarrow> bool" where
  "is_tombstone r = (case r of R_DeadEnd \<Rightarrow> True | R_Superseded \<Rightarrow> True | _ \<Rightarrow> False)"

definition resolution_state :: "resolution state_trait" where
  "resolution_state =
     \<lparr>st_all = resolution_ALL, st_name = resolution_as_str, st_noun = ''an investigation unit'',
      st_settled = resolution_is_settled, st_awaits = (\<lambda>r. \<not> resolution_is_settled r)\<rparr>"

section \<open>Edge types, sync policy, placement\<close>

datatype edge_type =
  E_DependsOn | E_DerivedFrom | E_References | E_ParentOf | E_Supports | E_Contradicts
| E_Refutes | E_Supersedes | E_RulesOut | E_Narrows | E_Constrains | E_Confirms | E_Answers
| E_Spawns | E_DiscoveredFrom | E_MemberOf | E_Tests | E_Verifies | E_Fixes | E_ReducesTo
| E_EquivalentInStrengthTo | E_ExplainsFailure | E_Informs | E_Stages

definition edge_type_ALL :: "edge_type list" where
  "edge_type_ALL =
     [E_DependsOn, E_DerivedFrom, E_References, E_ParentOf, E_Supports, E_Contradicts,
      E_Refutes, E_Supersedes, E_RulesOut, E_Narrows, E_Constrains, E_Confirms, E_Answers,
      E_Spawns, E_DiscoveredFrom, E_MemberOf, E_Tests, E_Verifies, E_Fixes, E_ReducesTo,
      E_EquivalentInStrengthTo, E_ExplainsFailure, E_Informs, E_Stages]"

fun edge_type_as_str :: "edge_type \<Rightarrow> string" where
  "edge_type_as_str E_DependsOn = ''depends_on''"
| "edge_type_as_str E_DerivedFrom = ''derived_from''"
| "edge_type_as_str E_References = ''references''"
| "edge_type_as_str E_ParentOf = ''parent_of''"
| "edge_type_as_str E_Supports = ''supports''"
| "edge_type_as_str E_Contradicts = ''contradicts''"
| "edge_type_as_str E_Refutes = ''refutes''"
| "edge_type_as_str E_Supersedes = ''supersedes''"
| "edge_type_as_str E_RulesOut = ''rules_out''"
| "edge_type_as_str E_Narrows = ''narrows''"
| "edge_type_as_str E_Constrains = ''constrains''"
| "edge_type_as_str E_Confirms = ''confirms''"
| "edge_type_as_str E_Answers = ''answers''"
| "edge_type_as_str E_Spawns = ''spawns''"
| "edge_type_as_str E_DiscoveredFrom = ''discovered_from''"
| "edge_type_as_str E_MemberOf = ''member_of''"
| "edge_type_as_str E_Tests = ''tests''"
| "edge_type_as_str E_Verifies = ''verifies''"
| "edge_type_as_str E_Fixes = ''fixes''"
| "edge_type_as_str E_ReducesTo = ''reduces_to''"
| "edge_type_as_str E_EquivalentInStrengthTo = ''equivalent_in_strength_to''"
| "edge_type_as_str E_ExplainsFailure = ''explains_failure''"
| "edge_type_as_str E_Informs = ''informs''"
| "edge_type_as_str E_Stages = ''stages''"

definition edge_type_from_db_str :: "string \<Rightarrow> edge_type option" where
  "edge_type_from_db_str s = parse_by_name edge_type_ALL edge_type_as_str s"

definition edge_type_from_str_opt :: "string \<Rightarrow> edge_type option" where
  "edge_type_from_str_opt s =
     (if s = ''relates_to'' then Some E_References else edge_type_from_db_str s)"

text \<open>The sign is one of the three floats \<open>1.0\<close>, \<open>-1.0\<close>, \<open>0.0\<close>.\<close>

definition evidence_sign :: "edge_type \<Rightarrow> int" where
  "evidence_sign e = (case e of E_Supports \<Rightarrow> 1 | E_Contradicts \<Rightarrow> - 1 | _ \<Rightarrow> 0)"

datatype sync_mode = SM_Import | SM_Export | SM_Bidirectional

definition sync_mode_ALL :: "sync_mode list" where
  "sync_mode_ALL = [SM_Import, SM_Export, SM_Bidirectional]"

fun sync_mode_as_str :: "sync_mode \<Rightarrow> string" where
  "sync_mode_as_str SM_Import = ''import''"
| "sync_mode_as_str SM_Export = ''export''"
| "sync_mode_as_str SM_Bidirectional = ''bidirectional''"

definition sync_mode_from_db_str :: "string \<Rightarrow> sync_mode option" where
  "sync_mode_from_db_str s = parse_by_name sync_mode_ALL sync_mode_as_str s"

datatype conflict_policy = CP_DiskWins | CP_KbWins | CP_Manual

definition conflict_policy_ALL :: "conflict_policy list" where
  "conflict_policy_ALL = [CP_DiskWins, CP_KbWins, CP_Manual]"

fun conflict_policy_as_str :: "conflict_policy \<Rightarrow> string" where
  "conflict_policy_as_str CP_DiskWins = ''disk_wins''"
| "conflict_policy_as_str CP_KbWins = ''kb_wins''"
| "conflict_policy_as_str CP_Manual = ''manual''"

definition conflict_policy_from_db_str :: "string \<Rightarrow> conflict_policy option" where
  "conflict_policy_from_db_str s = parse_by_name conflict_policy_ALL conflict_policy_as_str s"

datatype placement_role = PR_Primary | PR_Chunk | PR_Reference

fun placement_role_as_str :: "placement_role \<Rightarrow> string" where
  "placement_role_as_str PR_Primary = ''primary''"
| "placement_role_as_str PR_Chunk = ''chunk''"
| "placement_role_as_str PR_Reference = ''reference''"

section \<open>A stored enumeration reads back\<close>

text \<open>The contract every \<open>db_enum!\<close> gives its readers: complete, and spelt apart.\<close>

locale stored_enum =
  fixes all :: "'a list" and as_str :: "'a \<Rightarrow> string"
  assumes complete: "set all = UNIV" and spelt_apart: "distinct (map as_str all)"
begin

lemma from_as_str: "parse_by_name all as_str (as_str v) = Some v"
  using spelt_apart complete by (intro parse_by_name_roundtrip) auto

lemma from_db_iff: "parse_by_name all as_str s = Some v \<longleftrightarrow> s = as_str v"
  using from_as_str parse_by_name_Some by metis

lemma as_str_inj: "inj as_str"
  by (rule injI) (metis from_as_str option.inject)

lemma unknown_spelling: "parse_by_name all as_str s = None \<longleftrightarrow> (\<forall>v. s \<noteq> as_str v)"
  using from_db_iff by (metis not_None_eq option.distinct(1))

end

interpretation task_status_enum: stored_enum task_status_ALL task_status_as_str
proof
  show "set task_status_ALL = UNIV"
    by (rule UNIV_eq_I [symmetric]) (rename_tac x, case_tac x, simp_all add: task_status_ALL_def)
qed (simp add: task_status_ALL_def)

interpretation resolution_enum: stored_enum resolution_ALL resolution_as_str
proof
  show "set resolution_ALL = UNIV"
    by (rule UNIV_eq_I [symmetric]) (rename_tac x, case_tac x, simp_all add: resolution_ALL_def)
qed (simp add: resolution_ALL_def)

interpretation edge_type_enum: stored_enum edge_type_ALL edge_type_as_str
proof
  show "set edge_type_ALL = UNIV"
    by (rule UNIV_eq_I [symmetric]) (rename_tac x, case_tac x, simp_all add: edge_type_ALL_def)
qed (simp add: edge_type_ALL_def)

interpretation sync_mode_enum: stored_enum sync_mode_ALL sync_mode_as_str
proof
  show "set sync_mode_ALL = UNIV"
    by (rule UNIV_eq_I [symmetric]) (rename_tac x, case_tac x, simp_all add: sync_mode_ALL_def)
qed (simp add: sync_mode_ALL_def)

interpretation conflict_policy_enum: stored_enum conflict_policy_ALL conflict_policy_as_str
proof
  show "set conflict_policy_ALL = UNIV"
    by (rule UNIV_eq_I [symmetric]) (rename_tac x, case_tac x, simp_all add: conflict_policy_ALL_def)
qed (simp add: conflict_policy_ALL_def)

section \<open>The terminal set\<close>

lemma is_terminal_simps [simp]:
  "\<not> is_terminal Open" "\<not> is_terminal InProgress" "\<not> is_terminal NeedsReview"
  "is_terminal Done" "is_terminal Cancelled"
  by (simp_all add: is_terminal_def)

lemma from_manual_as_str [simp]: "from_manual_str (task_status_as_str s) = Some s"
  by (simp add: from_manual_str_def task_status_from_db_str_def task_status_enum.from_as_str)

lemma task_status_as_str_eq [simp]: "task_status_as_str a = task_status_as_str b \<longleftrightarrow> a = b"
  using task_status_enum.as_str_inj by (auto dest: injD)

lemma from_manual_iff: "from_manual_str s = Some v \<longleftrightarrow> s = task_status_as_str v"
  by (simp add: from_manual_str_def task_status_from_db_str_def task_status_enum.from_db_iff)

lemma is_terminal_str_as_str [simp]: "is_terminal_str (Some (task_status_as_str s)) = is_terminal s"
  by (simp add: is_terminal_str_def)

lemma is_terminal_str_iff: "is_terminal_str col \<longleftrightarrow> (\<exists>s. col = Some (task_status_as_str s) \<and> is_terminal s)"
proof
  assume "is_terminal_str col"
  then show "\<exists>s. col = Some (task_status_as_str s) \<and> is_terminal s"
    by (cases col) (auto simp: is_terminal_str_def from_manual_iff split: option.splits)
qed auto

text \<open>The SQL spellings of the terminal set agree with the Rust predicate on every column value.\<close>

lemma terminal_status_cases: "is_terminal s \<longleftrightarrow> s = Done \<or> s = Cancelled"
  by (cases s) simp_all

lemma sql_terminal_agrees:
  "is_terminal_str col \<longleftrightarrow> (\<exists>w \<in> set sql_terminal_list. col = Some w)"
  "sql_not_terminal col \<longleftrightarrow> \<not> is_terminal_str col"
proof -
  have "is_terminal_str col \<longleftrightarrow> col = Some ''done'' \<or> col = Some ''cancelled''"
    unfolding is_terminal_str_iff terminal_status_cases
    by (metis task_status_as_str.simps(4) task_status_as_str.simps(5))
  then show "is_terminal_str col \<longleftrightarrow> (\<exists>w \<in> set sql_terminal_list. col = Some w)"
    "sql_not_terminal col \<longleftrightarrow> \<not> is_terminal_str col"
    by (simp_all add: sql_terminal_list_def sql_not_terminal_def)
qed

lemma moved_backwards_as_str [simp]:
  "moved_backwards (Some (task_status_as_str f)) (Some (task_status_as_str t)) \<longleftrightarrow> stage t < stage f"
  by (simp add: moved_backwards_def)

lemma moved_backwards_iff:
  "moved_backwards from to \<longleftrightarrow>
     (\<exists>f t. from = Some (task_status_as_str f) \<and> to = Some (task_status_as_str t) \<and> stage t < stage f)"
  by (cases "from"; cases to) (auto simp: moved_backwards_def from_manual_iff split: option.splits)

lemma stage_le: "stage s \<le> 3"
  by (cases s) simp_all

lemma stage_terminal: "stage s = 3 \<longleftrightarrow> is_terminal s"
  by (cases s) simp_all

end
