(* ===== verification/Utf8_Lossy.thy ===== *)
theory Utf8_Lossy
  imports Jkb_Prelude
begin

text \<open>
  Bytes read as UTF-8: which are a Rust \<open>str\<close>, and what \<open>String::from_utf8_lossy\<close> (and so
  \<open>to_string_lossy\<close> of a path) makes of the others. The reader is the standard library's: it takes
  one character at a time, and where the bytes are not one it gives U+FFFD for as many of them as could
  have begun one.
\<close>

section \<open>One character\<close>

definition utf8_width :: "nat \<Rightarrow> nat" where
  "utf8_width b =
     (if b < 0x80 then 1 else if 0xC2 \<le> b \<and> b \<le> 0xDF then 2
      else if 0xE0 \<le> b \<and> b \<le> 0xEF then 3 else if 0xF0 \<le> b \<and> b \<le> 0xF4 then 4 else 0)"

text \<open>The second bytes that may follow a first one, and any later byte.\<close>

definition utf8_second :: "nat \<Rightarrow> nat \<Rightarrow> bool" where
  "utf8_second b c \<longleftrightarrow>
     (if b = 0xE0 then 0xA0 else if b = 0xF0 then 0x90 else 0x80) \<le> c \<and>
     c \<le> (if b = 0xED then 0x9F else if b = 0xF4 then 0x8F else 0xBF)"

definition utf8_later :: "nat \<Rightarrow> bool" where
  "utf8_later c \<longleftrightarrow> 0x80 \<le> c \<and> c < 0xC0"

text \<open>How many of the bytes following a first one continue the character it begins.\<close>

fun utf8_run :: "nat \<Rightarrow> string \<Rightarrow> nat" where
  "utf8_run 0 s = 0"
| "utf8_run (Suc k) [] = 0"
| "utf8_run (Suc k) (c # s) = (if utf8_later (of_char c) then Suc (utf8_run k s) else 0)"

text \<open>Whether a character begins here, and how many bytes were looked at to know.\<close>

fun utf8_next :: "string \<Rightarrow> bool \<times> nat" where
  "utf8_next [] = (False, 0)"
| "utf8_next (b # s) =
     (let w = utf8_width (of_char b);
          n = (case s of
                 [] \<Rightarrow> 0
               | c # r \<Rightarrow> if w < 2 \<or> \<not> utf8_second (of_char b) (of_char c) then 0 else Suc (utf8_run (w - 2) r))
      in (Suc n = w, Suc n))"

lemma utf8_run_le: "utf8_run k s \<le> k \<and> utf8_run k s \<le> length s"
  by (induction k s rule: utf8_run.induct) auto

lemma utf8_run_later: "i < utf8_run k s \<Longrightarrow> utf8_later (of_char (s ! i))"
  by (induction k s arbitrary: i rule: utf8_run.induct) (auto simp: nth_Cons' split: if_splits)

lemma utf8_run_take: "utf8_run k s = k \<Longrightarrow> utf8_run k (take k s @ t) = k"
  by (induction k s rule: utf8_run.induct) (auto split: if_splits)

lemma utf8_second_high: "utf8_second b c \<Longrightarrow> 0x80 \<le> c"
  by (auto simp: utf8_second_def split: if_splits)

lemma utf8_next_pos: "s \<noteq> [] \<Longrightarrow> 0 < snd (utf8_next s) \<and> snd (utf8_next s) \<le> length s"
proof (cases s)
  case (Cons b r)
  then show ?thesis
    using utf8_run_le [of "utf8_width (of_char b) - 2" "tl r"] by (cases r) (auto simp: Let_def)
qed simp

lemma utf8_next_high:
  assumes "0 < i" and "i < snd (utf8_next s)" shows "(0x80 :: nat) \<le> of_char (s ! i)"
proof -
  obtain j where i: "i = Suc j" using assms(1) by (cases i) simp_all
  obtain b r where s: "s = b # r" using assms(2) by (cases s) simp_all
  with assms(2) i obtain c q where r: "r = c # q" by (cases r) (simp_all add: Let_def)
  let ?k = "utf8_width (of_char b) - 2"
  have "j < Suc (utf8_run ?k q)" and c: "utf8_second (of_char b) (of_char c)"
    using assms(2) i s r by (auto simp: Let_def split: if_splits)
  then show ?thesis
    using utf8_run_later [of _ ?k q] utf8_second_high [OF c] i s r by (cases j) (auto simp: utf8_later_def)
qed

lemma utf8_next_take:
  assumes "utf8_next s = (True, n)" shows "utf8_next (take n s @ t) = (True, n)"
proof -
  obtain b r where s: "s = b # r" using assms by (cases s) simp_all
  let ?w = "utf8_width (of_char b)"
  have n: "n = ?w" using assms s by (auto simp: Let_def)
  show ?thesis
  proof (cases "?w < 2")
    case True
    have "0 < n" using utf8_next_pos [of s] assms s by simp
    with True n have "n = 1" "?w = 1" by simp_all
    then show ?thesis using s by (auto simp: Let_def split: list.split)
  next
    case False
    then obtain k where k: "?w = Suc (Suc k)" by (metis add_2_eq_Suc le_Suc_ex not_less)
    with assms s obtain c q where r: "r = c # q" by (cases r) (simp_all add: Let_def)
    have "utf8_second (of_char b) (of_char c)" "utf8_run k q = k"
      using assms s r k by (auto simp: Let_def split: if_splits)
    then show ?thesis using utf8_run_take [of k q t] n s r k by (simp add: Let_def)
  qed
qed

lemma utf8_next_ascii: "of_char c < (0x80 :: nat) \<Longrightarrow> utf8_next (c # s) = (True, 1)"
  by (auto simp: Let_def utf8_width_def split: list.split)

section \<open>Whole strings\<close>

definition replacement :: string where
  "replacement = [CHR 0xEF, CHR 0xBF, CHR 0xBD]"

lemma utf8_next_shorter: "s \<noteq> [] \<Longrightarrow> length (drop (snd (utf8_next s)) s) < length s"
  using utf8_next_pos [of s] by simp

function valid_utf8 :: "string \<Rightarrow> bool" where
  "valid_utf8 s =
     (if s = [] then True else if fst (utf8_next s) then valid_utf8 (drop (snd (utf8_next s)) s) else False)"
  by pat_completeness auto
termination
  by (relation "measure length") (rule wf_measure, simp only: in_measure, erule utf8_next_shorter)

function str_lossy :: "string \<Rightarrow> string" where
  "str_lossy s =
     (if s = [] then []
      else (if fst (utf8_next s) then take (snd (utf8_next s)) s else replacement) @
           str_lossy (drop (snd (utf8_next s)) s))"
  by pat_completeness auto
termination
  by (relation "measure length") (rule wf_measure, simp only: in_measure, erule utf8_next_shorter)

declare valid_utf8.simps [simp del] str_lossy.simps [simp del]

lemma valid_utf8_Nil [simp]: "valid_utf8 []" by (simp add: valid_utf8.simps)

lemma str_lossy_id: "valid_utf8 s \<Longrightarrow> str_lossy s = s"
proof (induction s rule: valid_utf8.induct)
  case (1 s)
  show ?case
  proof (cases "s = []")
    case False
    with "1.prems" have n: "fst (utf8_next s)" "valid_utf8 (drop (snd (utf8_next s)) s)"
      by (simp_all add: valid_utf8.simps [of s] split: if_splits)
    from "1.IH" [OF False n] n False show ?thesis by (subst str_lossy.simps) simp
  qed (subst str_lossy.simps, simp)
qed

text \<open>Text cut behind a character of ASCII is text.\<close>

lemma valid_utf8_behind:
  assumes "valid_utf8 (a @ c # b)" and "of_char c < (0x80 :: nat)" shows "valid_utf8 b"
  using assms(1)
proof (induction a rule: length_induct)
  case (1 a)
  let ?s = "a @ c # b" and ?n = "snd (utf8_next (a @ c # b))"
  have v: "valid_utf8 (drop ?n ?s)"
    using "1.prems" by (simp add: valid_utf8.simps [of ?s] del: utf8_next.simps split: if_splits)
  show ?case
  proof (cases "a = []")
    case True
    with v assms(2) show ?thesis by (simp add: utf8_next_ascii del: utf8_next.simps)
  next
    case False
    have "?n \<le> length a"
    proof (rule ccontr)
      assume "\<not> ?n \<le> length a"
      with False utf8_next_high [of "length a" ?s] assms(2) show False by (simp add: nth_append del: utf8_next.simps)
    qed
    moreover have "0 < ?n" using utf8_next_pos [of ?s] by blast
    ultimately show ?thesis using "1.IH" [rule_format, of "drop ?n a"] v False by (simp del: utf8_next.simps)
  qed
qed

lemma valid_utf8_unit:
  assumes "utf8_next s = (True, n)" and "valid_utf8 t" shows "valid_utf8 (take n s @ t)"
proof -
  have "n \<le> length s" using utf8_next_pos [of s] assms(1) by (cases "s = []") auto
  then show ?thesis
    using utf8_next_take [OF assms(1)] assms(2) by (subst valid_utf8.simps) simp
qed

lemma valid_utf8_replacement: "valid_utf8 t \<Longrightarrow> valid_utf8 (replacement @ t)"
proof -
  have "utf8_next replacement = (True, 3)" by code_simp
  then show "valid_utf8 t \<Longrightarrow> valid_utf8 (replacement @ t)"
    using valid_utf8_unit [of replacement 3 t] by (simp add: replacement_def)
qed

text \<open>What is read is text, whatever the bytes were.\<close>

lemma str_lossy_valid: "valid_utf8 (str_lossy s)"
proof (induction s rule: str_lossy.induct)
  case (1 s)
  show ?case
  proof (cases "s = []")
    case False
    from "1.IH" [OF this] have v: "valid_utf8 (str_lossy (drop (snd (utf8_next s)) s))" .
    show ?thesis
    proof (cases "fst (utf8_next s)")
      case True
      then have "utf8_next s = (True, snd (utf8_next s))" by (metis prod.collapse)
      from valid_utf8_unit [OF this v] False True show ?thesis by (subst str_lossy.simps) simp
    qed (use False v in \<open>subst str_lossy.simps, simp add: valid_utf8_replacement\<close>)
  qed (subst str_lossy.simps, simp)
qed

lemma str_lossy_twice [simp]: "str_lossy (str_lossy s) = str_lossy s"
  by (rule str_lossy_id [OF str_lossy_valid])

text \<open>One byte that begins nothing, and three that could have begun a character of four.\<close>

lemma str_lossy_samples:
  "str_lossy [CHR ''a'', CHR 0xFF, CHR ''b''] = CHR ''a'' # replacement @ ''b''"
  "str_lossy [CHR 0xF0, CHR 0x90, CHR 0x8D, CHR ''x''] = replacement @ ''x''"
  "str_lossy [CHR 0xE2, CHR 0x80, CHR 0x94] = emdash"
  by code_simp+

end
