(* ===== verification/Types_Agent.thy ===== *)
theory Types_Agent
  imports Utf8_Lossy
begin

text \<open>
  \<open>AgentId\<close>, the owner of a claim, from \<open>crates/jkb-types/src/agent.rs\<close>: its four shapes,
  the parser and printer of the stored \<open>claimant_id\<close>, the liveness each shape declares and
  the constructors that keep an id clear of the field separators. A \<open>PathBuf\<close> is its bytes, which
  need not be UTF-8, and is printed as \<open>to_string_lossy\<close> does (\<open>str_lossy\<close>); a \<open>String\<close> is bytes
  that are; a pid is a 32-bit word.

  The lemmas show that the parser is total and stable (printing what was read and reading it
  again changes nothing), and what is read back of an id a constructor built.
\<close>

section \<open>The shapes\<close>

datatype agent_id =
  Process string u32 "string option"
| Session u32 "string option" string
| Agent string
| Unrecognized string

datatype liveness =
  L_Process string u32
| L_Worktree string
| L_External

definition SESSION :: string where "SESSION = ''session''"

definition AGENT :: string where "AGENT = ''agent''"

definition RESERVED_HOSTS :: "string list" where
  "RESERVED_HOSTS = [SESSION, AGENT]"

definition MAX_SESSION_ID_BYTES :: nat where
  "MAX_SESSION_ID_BYTES = 200"

definition is_session_id_byte :: "char \<Rightarrow> bool" where
  "is_session_id_byte b \<longleftrightarrow>
     (let n = (of_char b :: nat) in
       48 \<le> n \<and> n \<le> 57 \<or> 65 \<le> n \<and> n \<le> 90 \<or> 97 \<le> n \<and> n \<le> 122) \<or>
     b = CHR ''_'' \<or> b = CHR ''-''"

definition is_session_id :: "string \<Rightarrow> bool" where
  "is_session_id s \<longleftrightarrow>
     s \<noteq> [] \<and> length s \<le> MAX_SESSION_ID_BYTES \<and> list_all is_session_id_byte s"

section \<open>Constructors\<close>

text \<open>\<open>s.replace(':', "-")\<close>.\<close>

definition replace_colon :: "string \<Rightarrow> string" where
  "replace_colon s = map (\<lambda>c. if c = CHR '':'' then CHR ''-'' else c) s"

definition sanitize_host :: "string \<Rightarrow> string" where
  "sanitize_host h =
     (let host = replace_colon h in
      if host \<in> set RESERVED_HOSTS then host @ ''-host'' else host)"

definition this_process :: "string \<Rightarrow> u32 \<Rightarrow> agent_id" where
  "this_process host pid = Process (sanitize_host host) pid None"

definition session :: "u32 \<Rightarrow> string option \<Rightarrow> string \<Rightarrow> agent_id" where
  "session pid opened_by worktree =
     Session pid (case opened_by of Some s \<Rightarrow> if is_session_id s then Some s else None | None \<Rightarrow> None)
       worktree"

definition agent :: "string \<Rightarrow> agent_id" where
  "agent i = Agent (replace_colon i)"

section \<open>The stored spelling\<close>

text \<open>The session arm of \<open>parse\<close>, on the fields after the marker.\<close>

definition parse_session :: "string \<Rightarrow> string list \<Rightarrow> agent_id" where
  "parse_session raw rest =
     (case rest of
        [] \<Rightarrow> Unrecognized raw
      | opener # more \<Rightarrow>
          (if more = [] then Unrecognized raw
           else
             let (pid, opened_by) =
               (case split_once (CHR ''@'') opener of
                  Some (p, b) \<Rightarrow> (p, Some b)
                | None \<Rightarrow> (opener, None))
             in case u32_parse pid of
                  Some n \<Rightarrow>
                    (if (case opened_by of None \<Rightarrow> True | Some b \<Rightarrow> is_session_id b)
                     then Session n opened_by (join '':'' more)
                     else Unrecognized raw)
                | None \<Rightarrow> Unrecognized raw))"

definition parse_process :: "string \<Rightarrow> string \<Rightarrow> string list \<Rightarrow> agent_id" where
  "parse_process raw head rest =
     (case rest of
        [] \<Rightarrow> Unrecognized raw
      | pid # more \<Rightarrow>
          (case u32_parse pid of
             Some n \<Rightarrow> Process head n (if more \<noteq> [] then Some (join '':'' more) else None)
           | None \<Rightarrow> Unrecognized raw))"

definition agent_parse :: "string \<Rightarrow> agent_id" where
  "agent_parse raw =
     (let parts = split_on (CHR '':'') raw; head = hd parts; rest = tl parts in
      if head = SESSION then parse_session raw rest
      else if head = AGENT \<and> rest \<noteq> [] then Agent (join '':'' rest)
      else parse_process raw head rest)"

fun agent_as_str :: "agent_id \<Rightarrow> string" where
  "agent_as_str (Process host pid run) =
     (case run of
        Some r \<Rightarrow> host @ '':'' @ nat_str (unat pid) @ '':'' @ r
      | None \<Rightarrow> host @ '':'' @ nat_str (unat pid))"
| "agent_as_str (Session pid opened_by worktree) =
     (case opened_by of
        Some b \<Rightarrow> SESSION @ '':'' @ nat_str (unat pid) @ ''@'' @ b @ '':'' @ str_lossy worktree
      | None \<Rightarrow> SESSION @ '':'' @ nat_str (unat pid) @ '':'' @ str_lossy worktree)"
| "agent_as_str (Agent i) = AGENT @ '':'' @ i"
| "agent_as_str (Unrecognized raw) = raw"

fun agent_liveness :: "agent_id \<Rightarrow> liveness" where
  "agent_liveness (Process host pid _) = L_Process host pid"
| "agent_liveness (Session _ _ worktree) = L_Worktree worktree"
| "agent_liveness (Agent _) = L_External"
| "agent_liveness (Unrecognized _) = L_External"

fun agent_worktree :: "agent_id \<Rightarrow> string option" where
  "agent_worktree (Session _ _ worktree) = Some worktree"
| "agent_worktree _ = None"

fun agent_opened_by :: "agent_id \<Rightarrow> string option" where
  "agent_opened_by (Session _ opened_by _) = opened_by"
| "agent_opened_by _ = None"

section \<open>Well-formed ids\<close>

text \<open>The ids whose spelling keeps the field boundaries where the parser looks for them.\<close>

fun agent_wf :: "agent_id \<Rightarrow> bool" where
  "agent_wf (Process host pid run) \<longleftrightarrow> CHR '':'' \<notin> set host \<and> host \<notin> set RESERVED_HOSTS"
| "agent_wf (Session pid opened_by worktree) \<longleftrightarrow>
     (case opened_by of None \<Rightarrow> True | Some b \<Rightarrow> is_session_id b) \<and> str_lossy worktree = worktree"
| "agent_wf (Agent i) \<longleftrightarrow> True"
| "agent_wf (Unrecognized raw) \<longleftrightarrow> agent_parse raw = Unrecognized raw"

lemma not_digit_seps [simp]: "\<not> is_digit (CHR '':'')" "\<not> is_digit (CHR ''@'')"
  by (simp_all add: is_digit_def)

lemma session_id_no_colon: "is_session_id b \<Longrightarrow> CHR '':'' \<notin> set b"
  by (auto simp: is_session_id_def list_all_iff is_session_id_byte_def Let_def)

lemma reserved_simps [simp]:
  "SESSION \<in> set RESERVED_HOSTS" "AGENT \<in> set RESERVED_HOSTS" "AGENT \<noteq> SESSION"
  "CHR '':'' \<notin> set SESSION" "CHR '':'' \<notin> set AGENT"
  by (simp_all add: RESERVED_HOSTS_def SESSION_def AGENT_def)

lemma split_on_field:
  "c \<notin> set a \<Longrightarrow> split_on c (a @ [c] @ b) = a # split_on c b"
  by (simp add: split_on_append_sep)

lemma parse_process_print:
  assumes "CHR '':'' \<notin> set host" "host \<notin> set RESERVED_HOSTS"
  shows "agent_parse (agent_as_str (Process host pid run)) = Process host pid run"
proof -
  have ne: "host \<noteq> SESSION" "host \<noteq> AGENT" using assms(2) by auto
  have pid: "CHR '':'' \<notin> set (nat_str (unat pid))" by (rule nat_str_no) simp
  show ?thesis
    using assms(1) ne pid
    by (cases run)
       (simp_all add: agent_parse_def parse_process_def split_on_append_sep split_on_no_sep join_split_on)
qed

lemma parse_session_print:
  assumes "case opened_by of None \<Rightarrow> True | Some b \<Rightarrow> is_session_id b"
  shows "agent_parse (agent_as_str (Session pid opened_by worktree)) = Session pid opened_by (str_lossy worktree)"
proof -
  have pid: "CHR '':'' \<notin> set (nat_str (unat pid))" "CHR ''@'' \<notin> set (nat_str (unat pid))"
    by (rule nat_str_no; simp)+
  show ?thesis
  proof (cases opened_by)
    case None
    with pid show ?thesis
      by (simp add: agent_parse_def parse_session_def split_on_append_sep join_split_on split_once_no)
  next
    case (Some b)
    with assms have b: "is_session_id b" "CHR '':'' \<notin> set b" by (auto dest: session_id_no_colon)
    have "split_on (CHR '':'') (SESSION @ '':'' @ (nat_str (unat pid) @ ''@'' @ b) @ '':'' @ str_lossy worktree)
        = SESSION # (nat_str (unat pid) @ CHR ''@'' # b) # split_on (CHR '':'') (str_lossy worktree)"
      using pid b by (subst split_on_field, simp, subst split_on_field, simp_all)
    with Some b pid show ?thesis
      by (simp add: agent_parse_def parse_session_def join_split_on split_once_append)
  qed
qed

lemma parse_print: "agent_wf a \<Longrightarrow> agent_parse (agent_as_str a) = a"
proof (cases a)
  case (Agent i)
  then show ?thesis
    by (simp add: agent_parse_def split_on_append_sep join_split_on)
qed (auto simp del: agent_as_str.simps(1,2) simp: parse_process_print parse_session_print)

lemma parse_session_cases:
  "(\<exists>n op w. parse_session raw rest = Session n op w \<and>
      (case op of None \<Rightarrow> True | Some b \<Rightarrow> is_session_id b)) \<or>
   parse_session raw rest = Unrecognized raw"
  by (auto simp: parse_session_def Let_def split: list.splits option.splits prod.splits)

lemma parse_process_cases:
  "(\<exists>n run. parse_process raw head rest = Process head n run) \<or>
   parse_process raw head rest = Unrecognized raw"
  by (auto simp: parse_process_def split: list.splits option.splits)

lemma parse_process_host: "parse_process raw head [] = Unrecognized raw"
  by (simp add: parse_process_def)

lemma agent_parse_cases:
  obtains (session) n op w where "agent_parse raw = Session n op w"
      "case op of None \<Rightarrow> True | Some b \<Rightarrow> is_session_id b"
  | (agent) i where "agent_parse raw = Agent i"
  | (process) host n run where "agent_parse raw = Process host n run"
      "CHR '':'' \<notin> set host" "host \<notin> set RESERVED_HOSTS"
  | (unrecognized) "agent_parse raw = Unrecognized raw"
proof -
  let ?parts = "split_on (CHR '':'') raw"
  have colon: "CHR '':'' \<notin> set (hd ?parts)"
    by (rule split_on_pieces [of _ _ raw]) simp
  consider (s) "hd ?parts = SESSION" | (a) "hd ?parts = AGENT" "tl ?parts \<noteq> []"
    | (n) "hd ?parts = AGENT" "tl ?parts = []"
    | (p) "hd ?parts \<notin> set RESERVED_HOSTS"
    by (auto simp: RESERVED_HOSTS_def)
  then show ?thesis
  proof cases
    case s
    then show ?thesis
      using parse_session_cases [of raw "tl ?parts"] that(1,4) by (auto simp: agent_parse_def)
  next
    case a
    then show ?thesis using that(2) by (auto simp: agent_parse_def)
  next
    case n
    then show ?thesis using that(4) by (auto simp: agent_parse_def parse_process_host)
  next
    case p
    then have "hd ?parts \<noteq> SESSION" "hd ?parts \<noteq> AGENT" by auto
    then show ?thesis
      using p colon parse_process_cases [of raw "hd ?parts" "tl ?parts"] that(3,4)
      by (auto simp: agent_parse_def)
  qed
qed

text \<open>The worktree a stored session names is the end of the string, behind a colon.\<close>

lemma parse_session_worktree:
  assumes "agent_parse raw = Session n by' w" shows "\<exists>front. raw = front @ CHR '':'' # w"
proof -
  let ?parts = "split_on (CHR '':'') raw"
  have p: "parse_session raw (tl ?parts) = Session n by' w"
    using assms parse_process_cases [of raw "hd ?parts" "tl ?parts"]
    by (auto simp: agent_parse_def Let_def split: if_splits)
  then obtain opener more where rest: "tl ?parts = opener # more" "more \<noteq> []"
    by (auto simp: parse_session_def split: list.splits if_splits)
  with p have w: "w = join '':'' more"
    by (auto simp: parse_session_def Let_def split: option.splits prod.splits if_splits)
  have "?parts = hd ?parts # opener # more" using rest by (metis list.collapse split_on_not_Nil)
  then have "raw = join '':'' (hd ?parts # opener # more)" using join_split_on [of "CHR '':''" raw] by metis
  also have "\<dots> = (hd ?parts @ '':'' @ opener) @ CHR '':'' # w" using rest(2) w by (simp add: join_Cons_ne)
  finally show ?thesis by blast
qed

lemma parse_wf:
  assumes "valid_utf8 raw" shows "agent_wf (agent_parse raw)"
proof (cases raw rule: agent_parse_cases)
  case (session n op w)
  from parse_session_worktree [OF session(1)] obtain front where "raw = front @ CHR '':'' # w" by blast
  with assms have "valid_utf8 w" using valid_utf8_behind [of front "CHR '':''" w] by simp
  with session show ?thesis by (simp add: str_lossy_id)
qed auto

lemma replace_colon_clean [simp]: "CHR '':'' \<notin> set (replace_colon s)"
  by (auto simp: replace_colon_def)

lemma sanitize_host_clean: "CHR '':'' \<notin> set (sanitize_host h) \<and> sanitize_host h \<notin> set RESERVED_HOSTS"
  by (auto simp: sanitize_host_def Let_def RESERVED_HOSTS_def SESSION_def AGENT_def)

lemma constructors_wf: "agent_wf (this_process h p)" "agent_wf (agent i)"
  using sanitize_host_clean by (auto simp: this_process_def agent_def)

lemma session_print: "agent_parse (agent_as_str (session p b w)) = session p b (str_lossy w)"
  unfolding session_def by (rule parse_session_print) (simp split: option.split)

section \<open>What the stored owner promises\<close>

text \<open>
  C32. Owner ids survive being stored. Every stored string is read, and reading is stable: what was read,
  printed and read again is the same owner. A process and an agent id read back as they were built;
  a session reads back with its worktree as \<open>to_string_lossy\<close> printed it, which is the
  worktree itself when the path is UTF-8 and otherwise has U+FFFD for the bytes that are not
  (and reads back unchanged from then on). And only a string in one of the three known shapes can
  be judged by a process or a worktree; anything else is external, never dead.
\<close>

theorem agent_id_roundtrip:
  "(valid_utf8 raw \<longrightarrow> agent_parse (agent_as_str (agent_parse raw)) = agent_parse raw) \<and>
   agent_parse (agent_as_str (this_process host pid)) = this_process host pid \<and>
   agent_parse (agent_as_str (agent i)) = agent i \<and>
   agent_parse (agent_as_str (session pid opened_by worktree)) = session pid opened_by (str_lossy worktree) \<and>
   (valid_utf8 worktree \<longrightarrow> str_lossy worktree = worktree) \<and>
   str_lossy (str_lossy worktree) = str_lossy worktree \<and>
   (agent_liveness (agent_parse raw) \<noteq> L_External \<longrightarrow>
      (\<exists>h p run. agent_parse raw = Process h p run \<and> h \<notin> set RESERVED_HOSTS) \<or>
      (\<exists>p b w. agent_parse raw = Session p b w))"
proof -
  have "agent_liveness (agent_parse raw) \<noteq> L_External \<longrightarrow>
      (\<exists>h p run. agent_parse raw = Process h p run \<and> h \<notin> set RESERVED_HOSTS) \<or>
      (\<exists>p b w. agent_parse raw = Session p b w)"
    by (cases raw rule: agent_parse_cases) auto
  then show ?thesis
    by (simp add: parse_print parse_wf constructors_wf session_print str_lossy_id)
qed

theorem agent_id_roundtrip_witness:
  "agent_parse ''box:007:run'' = Process ''box'' 7 (Some ''run'') \<and>
   agent_parse (agent_as_str (agent_parse ''box:007:run'')) = agent_parse ''box:007:run'' \<and>
   (\<exists>h p run. agent_parse ''box:007:run'' = Process h p run \<and> h \<notin> set RESERVED_HOSTS) \<and>
   agent_parse (agent_as_str (session 7 None [CHR ''/'', CHR 0xFF])) = Session 7 None (CHR ''/'' # replacement)"
proof -
  have "agent_parse ''box:007:run'' = Process ''box'' 7 (Some ''run'')"
    by (simp add: agent_parse_def parse_process_def u32_parse_def is_digit_def SESSION_def AGENT_def)
  moreover have "valid_utf8 ''box:007:run''" by code_simp
  moreover have "str_lossy [CHR ''/'', CHR 0xFF] = CHR ''/'' # replacement" by code_simp
  ultimately show ?thesis
    using agent_id_roundtrip [where raw = "''box:007:run''" and pid = 7 and opened_by = None
      and worktree = "[CHR ''/'', CHR 0xFF]"]
    by (simp add: session_def)
qed

end
