(* ===== verification/Task_Lifecycle.thy ===== *)
theory Task_Lifecycle
  imports Fsm_Check Types_Enums Types_Agent
begin

text \<open>
  The task lifecycle of \<open>crates/jkb-core/src/lifecycle.rs\<close>: the events, the effects, the
  observations a guard may read, the guards, the plans and the table, in the file's order. The
  table \<open>ROWS\<close> is the concatenation of the sections its comments name.

  The lemmas establish the contract of the generic machine for this table (its check is
  clean, no observation is ambiguous, every refusal's remedy is accepted) and what the guards
  mean: how a task can come to be \<open>done\<close>, who can take a claim, and that an answer that was
  not obtained never allows a move that obtaining it could forbid.
\<close>

section \<open>Events\<close>

datatype task_event =
  Start | SubmitForReview | RequestChanges | Land | Abandon | Cancel | Reopen | Override
| SetFromFile | ObservedOwnerGone | ObservedLanded

definition task_event_ALL :: "task_event list" where
  "task_event_ALL =
     [Start, SubmitForReview, RequestChanges, Land, Abandon, Cancel, Reopen, Override,
      SetFromFile, ObservedOwnerGone, ObservedLanded]"

fun task_event_name :: "task_event \<Rightarrow> string" where
  "task_event_name Start = ''start''"
| "task_event_name SubmitForReview = ''submit_for_review''"
| "task_event_name RequestChanges = ''request_changes''"
| "task_event_name Land = ''land''"
| "task_event_name Abandon = ''abandon''"
| "task_event_name Cancel = ''cancel''"
| "task_event_name Reopen = ''reopen''"
| "task_event_name Override = ''override''"
| "task_event_name SetFromFile = ''set_from_file''"
| "task_event_name ObservedOwnerGone = ''observed_owner_gone''"
| "task_event_name ObservedLanded = ''observed_landed''"

fun task_event_kind :: "task_event \<Rightarrow> event_kind" where
  "task_event_kind SetFromFile = Reconciled"
| "task_event_kind ObservedOwnerGone = Reconciled"
| "task_event_kind ObservedLanded = Reconciled"
| "task_event_kind _ = Applied"

definition task_event_parse :: "string \<Rightarrow> task_event option" where
  "task_event_parse name = parse_by_name task_event_ALL task_event_name name"

definition task_event_trait :: "task_event event_trait" where
  "task_event_trait =
     \<lparr>ev_all = task_event_ALL, ev_name = task_event_name, ev_kind = task_event_kind\<rparr>"

datatype task_effect =
  SetStatus task_status
| Claim agent_id
| ReleaseClaim
| ReclaimFrom agent_id

section \<open>Observations\<close>

record task_facts =
  status :: task_status
  actor :: "agent_id option"
  claimant :: "agent_id option"
  owner_alive :: fact
  stated_status :: "task_status option"
  file_backed :: fact
  session_exists :: fact
  work_dirty :: fact
  has_commits :: fact
  target_ready :: fact
  reviewed :: fact
  review_clean :: fact
  review_waived :: fact
  open_subtasks :: fact
  landed_elsewhere :: fact

text \<open>\<open>TaskFacts::default()\<close>: nothing observed.\<close>

definition task_facts_default :: task_facts where
  "task_facts_default =
     \<lparr>status = task_status_default, actor = None, claimant = None, owner_alive = Unknown,
      stated_status = None, file_backed = Unknown, session_exists = Unknown,
      work_dirty = Unknown, has_commits = Unknown, target_ready = Unknown, reviewed = Unknown,
      review_clean = Unknown, review_waived = Unknown, open_subtasks = Unknown,
      landed_elsewhere = Unknown\<rparr>"

definition task_domain :: "(task_status, task_event, task_facts) fsm_domain" where
  "task_domain =
     \<lparr>dom_states = task_status_state, dom_events = task_event_trait, dom_state_of = status\<rparr>"

section \<open>Guards\<close>

definition claim_available :: "task_facts \<Rightarrow> task_event verdict" where
  "claim_available f =
     (case claimant f of
        None \<Rightarrow> Allow
      | Some held \<Rightarrow>
          (if actor f = Some held then Allow
           else if is_no (owner_alive f) then Allow
           else Deny (denial_with_remedy
             (''It is held by `'' @ agent_as_str held @ ''`, which is '' @
              (if is_yes (owner_alive f) then ''still running''
               else ''an owner whose liveness cannot be established here'') @ ''.'')
             ObservedOwnerGone
             ''Free it with `jkb task reclaim` once you know that owner is gone.'')))"

definition start_guard :: "task_facts \<Rightarrow> task_event verdict" where
  "start_guard f = claim_available f"

definition review_gate :: "task_facts \<Rightarrow> task_event verdict" where
  "review_gate f =
     (if is_yes (review_waived f) then Allow
      else all_of
        [require_yes (reviewed f) (denial_new
           ''No review is recorded for this head. Run `/jkb-review`, or land anyway with `jkb task land --no-review`.''),
         require_yes (review_clean f) (denial_new
           ''Its review has open must-fix findings. Fix or cancel them, or land anyway with `jkb task land --no-review`.'')])"

definition land_guard :: "task_facts \<Rightarrow> task_event verdict" where
  "land_guard f = all_of
     [require_yes (fact_or (session_exists f) (has_commits f)) (denial_with_remedy
        (''There is no work to land '' @ emdash @ '' no session checkout and no commits.'')
        Start ''Open one with `jkb task work <uid>`.''),
      require_no (work_dirty f) (denial_new
        (''The session has uncommitted changes (or could not be read) '' @ emdash @
         '' commit them first.'')),
      require_yes (has_commits f) (denial_new
        ''It has no commits that the land target does not already have.''),
      require_no (open_subtasks f) (denial_new
        (''It still has open subtasks '' @ emdash @
         '' you work the leaves, and the parent lands after them.'')),
      require_yes (target_ready f) (denial_new
        (''The checkout the graft would happen in has uncommitted changes '' @ emdash @
         '' landing rolls it back on a red gate, which would take them with it.'')),
      review_gate f]"

definition landed_externally :: "task_facts \<Rightarrow> task_event verdict" where
  "landed_externally f = all_of
     [require_yes (landed_elsewhere f) (denial_new
        (''Nothing proves this work landed '' @ emdash @
         '' no merged pull request, and jkb did not perform the graft itself.'')),
      require_no (open_subtasks f) (denial_new
        ''Its work landed, but it still has open subtasks.'')]"

definition abandon_guard :: "task_facts \<Rightarrow> task_event verdict" where
  "abandon_guard f = require_no (work_dirty f) (denial_new
     (''The session has uncommitted changes (or could not be read) '' @ emdash @
      '' commit or discard them before abandoning it.''))"

definition owner_gone :: "task_facts \<Rightarrow> task_event verdict" where
  "owner_gone f = all_of
     [require_yes (fact_from (claimant f \<noteq> None)) (denial_new ''Nothing holds it.''),
      require_no (owner_alive f) (denial_new
        ''Its owner is still running, or its liveness cannot be established from here.'')]"

definition file_is_authority :: "task_facts \<Rightarrow> task_event verdict" where
  "file_is_authority f = all_of
     [require_yes (file_backed f) (denial_new ''This task is not backed by a synced file.''),
      require_yes (fact_from (stated_status f \<noteq> None)) (denial_new
        ''The file states no status for it.'')]"

definition task_stated :: "task_facts \<Rightarrow> task_status option" where
  "task_stated f = stated_status f"

fun task_describe_guard :: "task_event \<Rightarrow> string option" where
  "task_describe_guard Start = Some
     ''the task is unclaimed, held by whoever starts it, or held by an owner proven gone''"
| "task_describe_guard Land = Some
     ''there is work to land: a session or commits; the session has no uncommitted changes; it has commits the target lacks; no subtask is open; the checkout the graft happens in is clean; and a review of the current head has no open must-fix (unless landed with `--no-review`)''"
| "task_describe_guard Abandon = Some ''the session has no uncommitted changes''"
| "task_describe_guard ObservedLanded = Some
     (''a merged pull request, or jkb'' @ [CHR 0x27] @
      ''s own merge queue, proves the work reached its target, and no subtask is open'')"
| "task_describe_guard ObservedOwnerGone = Some
     ''something holds the claim, and its owner is proven gone''"
| "task_describe_guard SetFromFile = Some
     ''the task is backed by a synced file that states a status for it''"
| "task_describe_guard _ = None"

section \<open>Plans\<close>

definition take_claim :: "task_facts \<Rightarrow> task_effect list" where
  "take_claim f = (case actor f of Some a \<Rightarrow> [Claim a] | None \<Rightarrow> [SetStatus InProgress])"

definition task_settle :: "task_status \<Rightarrow> task_effect list" where
  "task_settle s = [SetStatus s] @ (if is_terminal s then [ReleaseClaim] else [])"

definition plan_land :: "task_facts \<Rightarrow> task_effect list" where
  "plan_land f = task_settle Done"

definition plan_cancel :: "task_facts \<Rightarrow> task_effect list" where
  "plan_cancel f = task_settle Cancelled"

definition plan_reopen :: "task_facts \<Rightarrow> task_effect list" where
  "plan_reopen f = [SetStatus Open]"

definition plan_abandon :: "task_facts \<Rightarrow> task_effect list" where
  "plan_abandon f = [SetStatus Open, ReleaseClaim]"

definition plan_review :: "task_facts \<Rightarrow> task_effect list" where
  "plan_review f = [SetStatus NeedsReview]"

definition plan_changes :: "task_facts \<Rightarrow> task_effect list" where
  "plan_changes f = [SetStatus InProgress]"

definition plan_release :: "task_facts \<Rightarrow> task_effect list" where
  "plan_release f = (case claimant f of Some held \<Rightarrow> [ReclaimFrom held] | None \<Rightarrow> [])"

definition plan_stated :: "task_facts \<Rightarrow> task_effect list" where
  "plan_stated f = (case stated_status f of Some s \<Rightarrow> task_settle s | None \<Rightarrow> [])"

section \<open>The table\<close>

type_synonym task_row = "(task_status, task_event, task_facts, task_effect) transition"

definition task_rows_start :: "task_row list" where
  "task_rows_start =
     [row Open Start (To InProgress) (Some start_guard) (Some take_claim),
      row InProgress Start (To InProgress) (Some start_guard) (Some take_claim),
      row NeedsReview Start (To InProgress) (Some start_guard) (Some take_claim)]"

definition task_rows_review :: "task_row list" where
  "task_rows_review =
     [row InProgress SubmitForReview (To NeedsReview) None (Some plan_review),
      row NeedsReview RequestChanges (To InProgress) None (Some plan_changes),
      row NeedsReview SubmitForReview (To NeedsReview) None (Some plan_review),
      row InProgress RequestChanges (To InProgress) None (Some plan_changes)]"

definition task_rows_land :: "task_row list" where
  "task_rows_land =
     [row InProgress Land (To Done) (Some land_guard) (Some plan_land),
      row NeedsReview Land (To Done) (Some land_guard) (Some plan_land),
      row Done Land (To Done) None (Some plan_land)]"

definition task_rows_abandon :: "task_row list" where
  "task_rows_abandon =
     [row InProgress Abandon (To Open) (Some abandon_guard) (Some plan_abandon),
      row NeedsReview Abandon (To Open) (Some abandon_guard) (Some plan_abandon),
      row Open Abandon (To Open) (Some abandon_guard) (Some plan_abandon)]"

definition task_rows_end :: "task_row list" where
  "task_rows_end =
     [row Open Cancel (To Cancelled) None (Some plan_cancel),
      row InProgress Cancel (To Cancelled) None (Some plan_cancel),
      row NeedsReview Cancel (To Cancelled) None (Some plan_cancel),
      row Cancelled Cancel (To Cancelled) None (Some plan_cancel),
      row Done Reopen (To Open) None (Some plan_reopen),
      row Open Reopen (To Open) None (Some plan_reopen),
      row Cancelled Reopen (To Open) None (Some plan_reopen)]"

definition task_rows_observed :: "task_row list" where
  "task_rows_observed =
     [row InProgress ObservedLanded (To Done) (Some landed_externally) (Some plan_land),
      row NeedsReview ObservedLanded (To Done) (Some landed_externally) (Some plan_land),
      row Done ObservedLanded (To Done) (Some landed_externally) (Some plan_land),
      row Open ObservedOwnerGone (To Open) (Some owner_gone) (Some plan_release),
      row InProgress ObservedOwnerGone (To InProgress) (Some owner_gone) (Some plan_release),
      row NeedsReview ObservedOwnerGone (To NeedsReview) (Some owner_gone) (Some plan_release)]"

definition task_rows_stated :: "task_row list" where
  "task_rows_stated =
     [row Open Override (Stated task_stated task_status_ALL) None (Some plan_stated),
      row InProgress Override (Stated task_stated task_status_ALL) None (Some plan_stated),
      row NeedsReview Override (Stated task_stated task_status_ALL) None (Some plan_stated),
      row Done Override (Stated task_stated task_status_ALL) None (Some plan_stated),
      row Cancelled Override (Stated task_stated task_status_ALL) None (Some plan_stated),
      row Open SetFromFile (Stated task_stated task_status_ALL) (Some file_is_authority) (Some plan_stated),
      row InProgress SetFromFile (Stated task_stated task_status_ALL) (Some file_is_authority) (Some plan_stated),
      row NeedsReview SetFromFile (Stated task_stated task_status_ALL) (Some file_is_authority) (Some plan_stated),
      row Done SetFromFile (Stated task_stated task_status_ALL) (Some file_is_authority) (Some plan_stated),
      row Cancelled SetFromFile (Stated task_stated task_status_ALL) (Some file_is_authority) (Some plan_stated)]"

definition task_ROWS :: "task_row list" where
  "task_ROWS =
     task_rows_start @ task_rows_review @ task_rows_land @ task_rows_abandon @ task_rows_end @
     task_rows_observed @ task_rows_stated"

definition task_machine :: "(task_status, task_event, task_facts, task_effect) machine" where
  "task_machine = \<lparr>transitions = task_ROWS, initial = Open\<rparr>"

definition task_apply ::
  "task_facts \<Rightarrow> task_event \<Rightarrow> (task_status, task_event, task_effect) outcome" where
  "task_apply facts event = machine_apply task_domain task_machine facts event"

definition task_reconcile ::
  "task_facts \<Rightarrow> (task_status, task_event, task_effect) reconciliation" where
  "task_reconcile facts = machine_reconcile task_domain task_machine facts"

lemmas task_rows_defs =
  task_ROWS_def task_rows_start_def task_rows_review_def task_rows_land_def
  task_rows_abandon_def task_rows_end_def task_rows_observed_def task_rows_stated_def

section \<open>The table is sound\<close>

lemma task_domain_simps [simp]:
  "dom_states task_domain = task_status_state"
  "dom_events task_domain = task_event_trait"
  "dom_state_of task_domain = status"
  by (simp_all add: task_domain_def)

lemma task_event_trait_simps [simp]:
  "ev_all task_event_trait = task_event_ALL"
  "ev_name task_event_trait = task_event_name"
  "ev_kind task_event_trait = task_event_kind"
  by (simp_all add: task_event_trait_def)

lemma task_status_state_simps [simp]:
  "st_all task_status_state = task_status_ALL"
  "st_name task_status_state = task_status_as_str"
  "st_settled task_status_state = is_terminal"
  "\<not> st_awaits task_status_state s"
  by (simp_all add: task_status_state_def)

lemma task_machine_simps [simp]:
  "transitions task_machine = task_ROWS" "initial task_machine = Open"
  by (simp_all add: task_machine_def)

interpretation task_event_enum: stored_enum task_event_ALL task_event_name
proof
  show "set task_event_ALL = UNIV"
    by (rule UNIV_eq_I [symmetric]) (rename_tac x, case_tac x, simp_all add: task_event_ALL_def)
qed (simp add: task_event_ALL_def)

lemma task_check_clean: "machine_check task_domain task_machine = []"
  by code_simp

interpretation task: checked_machine task_domain task_machine
proof
  show "inj (state_name task_domain)" "inj (event_name task_domain)"
    by (simp_all add: task_status_enum.as_str_inj task_event_enum.as_str_inj)
qed (simp_all add: task_status_enum.complete task_event_enum.complete task_check_clean)

section \<open>When the guards allow\<close>

lemma claim_available_Allow [guard_simps]:
  "claim_available f = Allow \<longleftrightarrow>
     claimant f = None \<or> actor f = claimant f \<or> owner_alive f = No"
  by (auto simp: claim_available_def is_no_iff split: option.splits)

lemma start_guard_Allow [guard_simps]: "start_guard f = Allow \<longleftrightarrow> claim_available f = Allow"
  by (simp add: start_guard_def)

lemma review_gate_Allow [guard_simps]:
  "review_gate f = Allow \<longleftrightarrow> review_waived f = Yes \<or> (reviewed f = Yes \<and> review_clean f = Yes)"
  by (auto simp: review_gate_def guard_simps fact_simps)

lemma land_guard_Allow [guard_simps]:
  "land_guard f = Allow \<longleftrightarrow>
     work_dirty f = No \<and> has_commits f = Yes \<and> open_subtasks f = No \<and> target_ready f = Yes \<and>
     review_gate f = Allow"
  by (auto simp: land_guard_def guard_simps fact_simps)

lemma landed_externally_Allow [guard_simps]:
  "landed_externally f = Allow \<longleftrightarrow> landed_elsewhere f = Yes \<and> open_subtasks f = No"
  by (auto simp: landed_externally_def guard_simps)

lemma abandon_guard_Allow [guard_simps]: "abandon_guard f = Allow \<longleftrightarrow> work_dirty f = No"
  by (simp add: abandon_guard_def guard_simps)

lemma owner_gone_Allow [guard_simps]:
  "owner_gone f = Allow \<longleftrightarrow> claimant f \<noteq> None \<and> owner_alive f = No"
  by (auto simp: owner_gone_def guard_simps fact_simps)

lemma file_is_authority_Allow [guard_simps]:
  "file_is_authority f = Allow \<longleftrightarrow> file_backed f = Yes \<and> stated_status f \<noteq> None"
  by (auto simp: file_is_authority_def guard_simps fact_simps)

section \<open>What a refusal advises\<close>

lemma claim_available_remedy:
  "claim_available f = Deny d \<Longrightarrow> dn_remedy d = Some r \<Longrightarrow> rm_event r = ObservedOwnerGone"
  by (auto simp: claim_available_def denial_with_remedy_def split: option.splits if_splits)

lemma review_gate_remedy: "review_gate f = Deny d \<Longrightarrow> dn_remedy d = None"
  by (auto simp: review_gate_def denial_new_def split: if_splits
      dest!: all_of_Deny require_yes_Deny [OF sym] require_no_Deny [OF sym])

lemma land_guard_remedy:
  "land_guard f = Deny d \<Longrightarrow> dn_remedy d = Some r \<Longrightarrow> rm_event r = Start"
  using review_gate_remedy [of f d]
  by (auto simp: land_guard_def denial_new_def denial_with_remedy_def
      dest!: all_of_Deny require_yes_Deny [OF sym] require_no_Deny [OF sym])

lemma other_remedies:
  "landed_externally f = Deny d \<Longrightarrow> dn_remedy d = None"
  "abandon_guard f = Deny d \<Longrightarrow> dn_remedy d = None"
  "owner_gone f = Deny d \<Longrightarrow> dn_remedy d = None"
  "file_is_authority f = Deny d \<Longrightarrow> dn_remedy d = None"
  by (auto simp: landed_externally_def abandon_guard_def owner_gone_def file_is_authority_def
      denial_new_def
      dest!: all_of_Deny require_yes_Deny [OF sym] require_no_Deny [OF sym]
        require_no_Deny)

section \<open>Every context is sound\<close>

lemma task_moved_iff:
  "task_apply f e = Moved fr e' to fx \<longleftrightarrow>
     fr = status f \<and> e' = e \<and>
     (\<exists>t \<in> set task_ROWS. t_from t = fr \<and> t_event t = e \<and>
        run_guard (t_guard t) f = Allow \<and> resolve (t_to t) f = Res_To to \<and>
        fx = run_plan (t_plan t) f)"
  by (simp add: task_apply_def task.moved_iff)

lemma task_accepts_remedies:
  "\<not> is_terminal s \<Longrightarrow> machine_accepts task_machine s ObservedOwnerGone \<noteq> Acc_Undefined"
  "s \<in> {Open, InProgress, NeedsReview} \<Longrightarrow> machine_accepts task_machine s Start \<noteq> Acc_Undefined"
  by (cases s; simp add: machine_accepts_def machine_row_def task_rows_defs)+

lemma task_remedy_accepted:
  assumes "t \<in> set task_ROWS" and "run_guard (t_guard t) f = Deny d" and "dn_remedy d = Some r"
  shows "machine_accepts task_machine (t_from t) (rm_event r) \<noteq> Acc_Undefined"
proof -
  consider "t \<in> set task_rows_start" | "t \<in> set task_rows_land"
    | "t \<in> set (task_rows_review @ task_rows_end)"
    | "t \<in> set (task_rows_abandon @ task_rows_observed @ task_rows_stated)"
    using assms(1) by (auto simp: task_ROWS_def)
  then show ?thesis
  proof cases
    case 1
    then have "rm_event r = ObservedOwnerGone" "\<not> is_terminal (t_from t)"
      using assms(2,3) claim_available_remedy [of f d r]
      by (auto simp: task_rows_start_def run_guard_def start_guard_def)
    then show ?thesis by (simp add: task_accepts_remedies)
  next
    case 2
    then have "rm_event r = Start" "t_from t \<in> {Open, InProgress, NeedsReview}"
      using assms(2,3) land_guard_remedy [of f d r]
      by (auto simp: task_rows_land_def run_guard_def)
    then show ?thesis using task_accepts_remedies(2) by simp
  next
    case 3
    then show ?thesis
      using assms(2) by (auto simp: task_rows_review_def task_rows_end_def run_guard_def)
  next
    case 4
    then show ?thesis
      using assms(2,3) other_remedies [of f d]
      by (auto simp: task_rows_abandon_def task_rows_observed_def task_rows_stated_def run_guard_def)
  qed
qed

lemma task_rec_rows:
  assumes "t \<in> set task_ROWS" and "rec_allowed task_domain f t"
  shows "t \<in> set task_rows_observed \<and> t_from t = status f"
proof -
  have "\<forall>t \<in> set task_ROWS. rec_candidate task_domain (t_from t) t \<longrightarrow> t \<in> set task_rows_observed"
    by (simp add: task_rows_defs rec_candidate_def)
  with assms show ?thesis
    by (auto simp: rec_allowed_def rec_candidate_def)
qed

lemma task_never_ambiguous: "machine_reconcile task_domain task_machine f \<noteq> Rec_Ambiguous es"
proof (rule never_ambiguousI [OF task.is_deterministic])
  fix t u
  assume "t \<in> set (transitions task_machine)" "u \<in> set (transitions task_machine)"
    "rec_allowed task_domain f t" "rec_allowed task_domain f u"
    and to: "(t_to t = To (dom_state_of task_domain f)) = (t_to u = To (dom_state_of task_domain f))"
  then have "t \<in> set task_rows_observed \<and> t_from t = status f"
    "u \<in> set task_rows_observed \<and> t_from u = status f"
    by (simp_all add: task_rec_rows)
  with to show "t_event t = t_event u"
    by (auto simp: task_rows_observed_def)
qed

lemma task_cancel_row:
  "\<not> is_terminal s \<Longrightarrow> row s Cancel (To Cancelled) None (Some plan_cancel) \<in> set task_ROWS"
  by (cases s) (simp_all add: task_rows_defs)

lemma task_context_sound: "context_sound task_domain task_machine f"
proof (rule task.context_soundI)
  show "settled_in task_domain (dom_state_of task_domain f) \<or>
    st_awaits (dom_states task_domain) (dom_state_of task_domain f) \<or>
    (\<exists>t \<in> set (transitions task_machine). \<exists>to. t_from t = dom_state_of task_domain f \<and>
       t_to t = To to \<and> to \<noteq> dom_state_of task_domain f \<and> run_guard (t_guard t) f = Allow)"
    using task_cancel_row [of "status f"] by (force simp: run_guard_def)
next
  fix t d r
  assume "t \<in> set (transitions task_machine)" "t_from t = dom_state_of task_domain f"
    "run_guard (t_guard t) f = Deny d" "dn_remedy d = Some r"
  then show "machine_accepts task_machine (dom_state_of task_domain f) (rm_event r) \<noteq> Acc_Undefined"
    using task_remedy_accepted [of t f d r] by simp
qed (rule task_never_ambiguous)

section \<open>Learning more\<close>

text \<open>The facts \<open>g\<close> agree with \<open>f\<close> wherever \<open>f\<close> had an answer.\<close>

definition task_facts_learn :: "task_facts \<Rightarrow> task_facts \<Rightarrow> bool" where
  "task_facts_learn f g \<longleftrightarrow>
     status g = status f \<and> actor g = actor f \<and> claimant g = claimant f \<and>
     stated_status g = stated_status f \<and>
     learns (owner_alive f) (owner_alive g) \<and> learns (file_backed f) (file_backed g) \<and>
     learns (session_exists f) (session_exists g) \<and> learns (work_dirty f) (work_dirty g) \<and>
     learns (has_commits f) (has_commits g) \<and> learns (target_ready f) (target_ready g) \<and>
     learns (reviewed f) (reviewed g) \<and> learns (review_clean f) (review_clean g) \<and>
     learns (review_waived f) (review_waived g) \<and> learns (open_subtasks f) (open_subtasks g) \<and>
     learns (landed_elsewhere f) (landed_elsewhere g)"

lemma task_facts_learn_Yes:
  assumes "task_facts_learn f g"
  shows "file_backed f = Yes \<Longrightarrow> file_backed g = Yes" "has_commits f = Yes \<Longrightarrow> has_commits g = Yes"
    "target_ready f = Yes \<Longrightarrow> target_ready g = Yes" "reviewed f = Yes \<Longrightarrow> reviewed g = Yes"
    "review_clean f = Yes \<Longrightarrow> review_clean g = Yes" "review_waived f = Yes \<Longrightarrow> review_waived g = Yes"
    "landed_elsewhere f = Yes \<Longrightarrow> landed_elsewhere g = Yes"
  using assms by (simp_all add: task_facts_learn_def)

lemma task_facts_learn_No:
  assumes "task_facts_learn f g"
  shows "owner_alive f = No \<Longrightarrow> owner_alive g = No" "work_dirty f = No \<Longrightarrow> work_dirty g = No"
    "open_subtasks f = No \<Longrightarrow> open_subtasks g = No"
  using assms by (simp_all add: task_facts_learn_def)

lemma task_facts_learn_same:
  assumes "task_facts_learn f g"
  shows "status g = status f" "actor g = actor f" "claimant g = claimant f"
    "stated_status g = stated_status f"
  using assms by (simp_all add: task_facts_learn_def)

lemma task_guards_stable:
  assumes "task_facts_learn f g"
  shows "start_guard f = Allow \<Longrightarrow> start_guard g = Allow"
    "land_guard f = Allow \<Longrightarrow> land_guard g = Allow"
    "landed_externally f = Allow \<Longrightarrow> landed_externally g = Allow"
    "abandon_guard f = Allow \<Longrightarrow> abandon_guard g = Allow"
    "owner_gone f = Allow \<Longrightarrow> owner_gone g = Allow"
    "file_is_authority f = Allow \<Longrightarrow> file_is_authority g = Allow"
proof -
  note f = task_facts_learn_Yes [OF assms] task_facts_learn_No [OF assms]
    task_facts_learn_same [OF assms]
  show "start_guard f = Allow \<Longrightarrow> start_guard g = Allow"
    unfolding start_guard_Allow claim_available_Allow using f by metis
  show "land_guard f = Allow \<Longrightarrow> land_guard g = Allow"
    unfolding land_guard_Allow review_gate_Allow using f by metis
  show "landed_externally f = Allow \<Longrightarrow> landed_externally g = Allow"
    unfolding landed_externally_Allow using f by simp
  show "abandon_guard f = Allow \<Longrightarrow> abandon_guard g = Allow"
    unfolding abandon_guard_Allow using f by simp
  show "owner_gone f = Allow \<Longrightarrow> owner_gone g = Allow"
    unfolding owner_gone_Allow using f by simp
  show "file_is_authority f = Allow \<Longrightarrow> file_is_authority g = Allow"
    unfolding file_is_authority_Allow using f by simp
qed

lemma task_plans_stable:
  assumes "task_facts_learn f g" and "t \<in> set task_ROWS"
  shows "resolve (t_to t) g = resolve (t_to t) f" "run_plan (t_plan t) g = run_plan (t_plan t) f"
  using assms(2) task_facts_learn_same [OF assms(1)]
  by (auto simp: task_rows_defs task_stated_def run_plan_def take_claim_def
      plan_land_def plan_cancel_def plan_reopen_def plan_abandon_def plan_review_def
      plan_changes_def plan_release_def plan_stated_def)

lemma task_rows_stable:
  assumes "task_facts_learn f g" and "t \<in> set task_ROWS" and "run_guard (t_guard t) f = Allow"
  shows "run_guard (t_guard t) g = Allow"
  using assms(2,3) task_guards_stable [OF assms(1)]
  by (auto simp: task_rows_defs run_guard_def)

section \<open>What the lifecycle promises\<close>

lemma resolve_task_stated:
  "resolve (Stated task_stated task_status_ALL) f = Res_To to \<longleftrightarrow> stated_status f = Some to"
  by (auto simp: task_stated_def task_status_enum.complete split: option.splits)

lemma ball_rows_append: "(\<forall>t \<in> set (xs @ ys). P t) \<longleftrightarrow> (\<forall>t \<in> set xs. P t) \<and> (\<forall>t \<in> set ys. P t)"
  by auto

text \<open>Where each row leads and what it owes, read off the table once.\<close>

lemma task_rows_facts:
  "\<forall>t \<in> set task_ROWS. \<forall>to. resolve (t_to t) f = Res_To to \<longrightarrow>
     run_plan (t_plan t) f =
       (case t_event t of
          Start \<Rightarrow> take_claim f
        | Abandon \<Rightarrow> [SetStatus Open, ReleaseClaim]
        | ObservedOwnerGone \<Rightarrow> plan_release f
        | _ \<Rightarrow> task_settle to) \<and>
     (t_event t = Start \<longrightarrow> to = InProgress) \<and> (t_event t = Abandon \<longrightarrow> to = Open) \<and>
     (t_event t = ObservedOwnerGone \<longrightarrow> to = t_from t)"
  unfolding task_ROWS_def ball_rows_append
  by (simp add: task_rows_start_def task_rows_review_def task_rows_land_def
      task_rows_abandon_def task_rows_end_def task_rows_observed_def task_rows_stated_def
      run_plan_def plan_land_def plan_cancel_def plan_reopen_def plan_abandon_def
      plan_review_def plan_changes_def plan_stated_def task_settle_def resolve_task_stated
      del: resolve.simps(2))

lemma task_rows_guards:
  "\<forall>t \<in> set task_ROWS.
     (t_event t = Start \<longrightarrow> t_guard t = Some start_guard) \<and>
     (t_event t = ObservedOwnerGone \<longrightarrow> t_guard t = Some owner_gone) \<and>
     (t_event t = ObservedLanded \<longrightarrow> t_guard t = Some landed_externally) \<and>
     (t_event t = SetFromFile \<longrightarrow> t_guard t = Some file_is_authority) \<and>
     (t_event t = Abandon \<longrightarrow> t_guard t = Some abandon_guard) \<and>
     (t_event t = Land \<and> t_from t \<noteq> Done \<longrightarrow> t_guard t = Some land_guard) \<and>
     (t_to t = To Done \<longrightarrow> t_event t \<in> {Land, ObservedLanded}) \<and>
     (t_event t \<in> {Override, SetFromFile} \<longleftrightarrow> t_to t = Stated task_stated task_status_ALL)"
  unfolding task_ROWS_def ball_rows_append
  by (simp add: task_rows_start_def task_rows_review_def task_rows_land_def
      task_rows_abandon_def task_rows_end_def task_rows_observed_def task_rows_stated_def)

lemma task_rows_dest:
  "\<forall>t \<in> set task_ROWS. t_to t = Stated task_stated task_status_ALL \<or> (\<exists>s. t_to t = To s)"
  unfolding task_ROWS_def ball_rows_append
  by (simp add: task_rows_start_def task_rows_review_def task_rows_land_def
      task_rows_abandon_def task_rows_end_def task_rows_observed_def task_rows_stated_def)

lemma task_movedE:
  assumes "task_apply f e = Moved fr e' to fx"
  obtains t where "t \<in> set task_ROWS" "t_from t = status f" "t_event t = e" "e' = e" "fr = status f"
    "run_guard (t_guard t) f = Allow" "resolve (t_to t) f = Res_To to" "fx = run_plan (t_plan t) f"
  using assms unfolding task_moved_iff by blast

text \<open>
  C1. The task lifecycle is sound. The table's check reports nothing: one row per state and
  event, every observation guarded, every event used, every verb repeatable, every status
  reachable, and a way back to rest from every status that needs no operator override. And
  for every observation of a task whatsoever: each refusal's remedy is an event the machine
  accepts there, a task that is not finished can always be moved, and at most one
  observation fires.
\<close>

theorem task_lifecycle_sound:
  "machine_check task_domain task_machine = [] \<and> (\<forall>f. context_sound task_domain task_machine f)"
  using task_check_clean task_context_sound by blast

text \<open>
  C2. How a task can become done. A move to \<open>done\<close> from another status is a landing whose
  work is proven committed, clean, without open subtasks and with a ready target, and which
  is reviewed clean or expressly waived; or an observed landing that is proven; or a status
  somebody stated (an operator, or a file proven to back the task).
\<close>

theorem task_done_requires:
  assumes "task_apply f e = Moved fr e Done fx" and "fr \<noteq> Done"
  shows "(e = Land \<and> has_commits f = Yes \<and> work_dirty f = No \<and> open_subtasks f = No \<and>
            target_ready f = Yes \<and>
            (review_waived f = Yes \<or> reviewed f = Yes \<and> review_clean f = Yes)) \<or>
         (e = ObservedLanded \<and> landed_elsewhere f = Yes \<and> open_subtasks f = No) \<or>
         (e = SetFromFile \<and> file_backed f = Yes \<and> stated_status f = Some Done) \<or>
         (e = Override \<and> stated_status f = Some Done)"
proof -
  from assms(1) obtain t where t: "t \<in> set task_ROWS" "t_from t = status f" "t_event t = e"
      "fr = status f" "run_guard (t_guard t) f = Allow" "resolve (t_to t) f = Res_To Done"
    by (rule task_movedE)
  note g = bspec [OF task_rows_guards t(1)]
  from bspec [OF task_rows_dest t(1)] show ?thesis
  proof
    assume st: "t_to t = Stated task_stated task_status_ALL"
    then have "stated_status f = Some Done"
      using t(6) by (simp add: resolve_task_stated del: resolve.simps(2))
    moreover from g st t(3) have "e = Override \<or> e = SetFromFile \<and> t_guard t = Some file_is_authority"
      by blast
    ultimately show ?thesis
      using t(5) by (elim disjE) (simp_all add: run_guard_def guard_simps)
  next
    assume "\<exists>s. t_to t = To s"
    with t(6) have "t_to t = To Done" by auto
    with g t(2-4) assms(2) have "e = Land \<and> t_guard t = Some land_guard \<or>
        e = ObservedLanded \<and> t_guard t = Some landed_externally"
      by auto
    then show ?thesis
      using t(5) by (elim disjE) (simp_all add: run_guard_def guard_simps)
  qed
qed

theorem task_done_requires_witness:
  "let f = task_facts_default\<lparr>status := InProgress, has_commits := Yes, work_dirty := No,
             open_subtasks := No, target_ready := Yes, review_waived := Yes\<rparr> in
   task_apply f Land = Moved InProgress Land Done [SetStatus Done, ReleaseClaim] \<and>
   has_commits f = Yes \<and> (review_waived f = Yes \<or> reviewed f = Yes)"
proof -
  let ?f = "task_facts_default\<lparr>status := InProgress, has_commits := Yes, work_dirty := No,
             open_subtasks := No, target_ready := Yes, review_waived := Yes\<rparr>"
  have a: "task_apply ?f Land = Moved InProgress Land Done [SetStatus Done, ReleaseClaim]"
    by code_simp
  from task_done_requires [OF a] show ?thesis
    unfolding Let_def using a by simp
qed

text \<open>
  C3. A task that reaches a terminal status has its claim released in the same plan: the
  effects are exactly the status write and the release, whatever event led there.
\<close>

theorem task_terminal_releases:
  assumes "task_apply f e = Moved fr e to fx" and "is_terminal to"
  shows "fx = [SetStatus to, ReleaseClaim]"
proof -
  from assms(1) obtain t where t: "t \<in> set task_ROWS" "t_from t = status f" "t_event t = e"
      "run_guard (t_guard t) f = Allow" "resolve (t_to t) f = Res_To to" "fx = run_plan (t_plan t) f"
    by (rule task_movedE)
  have gone: "t_event t = ObservedOwnerGone \<Longrightarrow> \<not> is_terminal (t_from t)"
    using t(1) by (auto simp: task_rows_defs)
  from bspec [OF task_rows_facts t(1), of f] t(5) assms(2) gone show ?thesis
    by (cases "t_event t") (simp_all add: t(6) task_settle_def)
qed

theorem task_terminal_releases_witness:
  "task_apply (task_facts_default\<lparr>claimant := Some (Agent ''a''), stated_status := Some Done\<rparr>) Override =
     Moved Open Override Done [SetStatus Done, ReleaseClaim]"
proof -
  have a: "task_apply (task_facts_default\<lparr>claimant := Some (Agent ''a''), stated_status := Some Done\<rparr>)
      Override = Moved Open Override Done [SetStatus Done, ReleaseClaim]"
    by code_simp
  from task_terminal_releases [OF a] a show ?thesis by simp
qed

text \<open>
  An answer that could not be obtained never allows what obtaining it could forbid: a move
  made on partial observations is made, with the same target and effects, on any
  observations that agree wherever the partial ones had an answer.
\<close>

theorem task_learning_stable:
  assumes "task_apply f e = Moved fr e to fx" and "task_facts_learn f g"
  shows "task_apply g e = Moved fr e to fx"
proof -
  from assms(1) have m: "machine_apply task_domain task_machine f e = Moved fr e to fx"
    by (simp add: task_apply_def)
  show ?thesis
    unfolding task_apply_def
  proof (rule task.moved_stable [OF m])
    show "dom_state_of task_domain g = dom_state_of task_domain f"
      by (simp add: task_facts_learn_same [OF assms(2)])
    fix t
    assume "t \<in> set (transitions task_machine)" "run_guard (t_guard t) f = Allow"
    then show "run_guard (t_guard t) g = Allow \<and> resolve (t_to t) g = resolve (t_to t) f \<and>
        run_plan (t_plan t) g = run_plan (t_plan t) f"
      using task_rows_stable [OF assms(2)] task_plans_stable [OF assms(2)] by simp
  qed
qed

theorem task_learning_stable_witness:
  "task_apply (task_facts_default\<lparr>work_dirty := Yes, owner_alive := No\<rparr>) Start =
     Moved Open Start InProgress [SetStatus InProgress]"
proof -
  have a: "task_apply task_facts_default Start = Moved Open Start InProgress [SetStatus InProgress]"
    by code_simp
  have l: "task_facts_learn task_facts_default (task_facts_default\<lparr>work_dirty := Yes, owner_alive := No\<rparr>)"
    by (simp add: task_facts_learn_def task_facts_default_def learns_def)
  from task_learning_stable [OF a l] show ?thesis .
qed

text \<open>
  A claim changes hands only rightfully. A move that claims does so for the actor, leads
  to \<open>in_progress\<close>, and found the task free, already its own, or held by an owner proven
  gone; a move that reclaims names the recorded holder, proven gone, and leaves the status.
\<close>

theorem task_claim_moves:
  assumes "task_apply f e = Moved fr e to fx"
  shows "(Claim a \<in> set fx \<longrightarrow> actor f = Some a \<and> to = InProgress \<and>
            (claimant f = None \<or> claimant f = Some a \<or> owner_alive f = No)) \<and>
         (ReclaimFrom a \<in> set fx \<longrightarrow> claimant f = Some a \<and> owner_alive f = No \<and> to = fr)"
proof -
  from assms(1) obtain t where t: "t \<in> set task_ROWS" "t_from t = status f" "t_event t = e" "fr = status f"
      "run_guard (t_guard t) f = Allow" "resolve (t_to t) f = Res_To to" "fx = run_plan (t_plan t) f"
    by (rule task_movedE)
  note g = bspec [OF task_rows_guards t(1)]
  from bspec [OF task_rows_facts t(1), of f] g t show ?thesis
    by (cases "t_event t")
       (auto simp: task_settle_def take_claim_def plan_release_def run_guard_def guard_simps
         split: option.splits)
qed

theorem task_claim_moves_witness:
  "let f = task_facts_default\<lparr>actor := Some (Agent ''new''), claimant := Some (Agent ''old''),
             owner_alive := No\<rparr> in
   task_apply f Start = Moved Open Start InProgress [Claim (Agent ''new'')] \<and>
   (claimant f = None \<or> claimant f = Some (Agent ''new'') \<or> owner_alive f = No)"
proof -
  let ?f = "task_facts_default\<lparr>actor := Some (Agent ''new''), claimant := Some (Agent ''old''),
             owner_alive := No\<rparr>"
  have a: "task_apply ?f Start = Moved Open Start InProgress [Claim (Agent ''new'')]"
    by code_simp
  from task_claim_moves [OF a, of "Agent ''new''"] a show ?thesis
    unfolding Let_def by simp
qed

lemma task_rec_lists:
  "rec_moves task_domain task_machine f =
     (if status f \<in> {InProgress, NeedsReview} \<and> landed_externally f = Allow
      then [row (status f) ObservedLanded (To Done) (Some landed_externally) (Some plan_land)] else [])"
  "rec_loops task_domain task_machine f =
     (if \<not> is_terminal (status f) \<and> owner_gone f = Allow
      then [row (status f) ObservedOwnerGone (To (status f)) (Some owner_gone) (Some plan_release)]
      else if status f = Done \<and> landed_externally f = Allow
      then [row Done ObservedLanded (To Done) (Some landed_externally) (Some plan_land)] else [])"
  by (cases "status f"; simp add: rec_moves_def rec_loops_def rec_allowed_def rec_candidate_def
      task_rows_defs run_guard_def)+

lemma task_apply_observed:
  "status f \<in> {InProgress, NeedsReview, Done} \<Longrightarrow> landed_externally f = Allow \<Longrightarrow>
     machine_apply task_domain task_machine f ObservedLanded =
       Moved (status f) ObservedLanded Done [SetStatus Done, ReleaseClaim]"
  "\<not> is_terminal (status f) \<Longrightarrow> owner_gone f = Allow \<Longrightarrow>
     machine_apply task_domain task_machine f ObservedOwnerGone =
       Moved (status f) ObservedOwnerGone (status f) [ReclaimFrom (the (claimant f))]"
  by (cases "status f"; force simp: task.moved_iff task_rows_defs run_guard_def run_plan_def
      plan_land_def plan_release_def task_settle_def guard_simps)+

text \<open>
  One reconciliation step, in full. A proven landing closes work in flight, and takes
  precedence; otherwise an owner proven gone loses its claim while the status stays; a
  landing seen again re-asserts itself; and on anything not proven the step does nothing.
  It is never ambiguous.
\<close>

theorem task_reconcile_spec:
  "task_reconcile f =
     (let landed = (landed_elsewhere f = Yes \<and> open_subtasks f = No);
          gone = (claimant f \<noteq> None \<and> owner_alive f = No)
      in if status f \<in> {InProgress, NeedsReview} \<and> landed
         then Rec_Fired (Moved (status f) ObservedLanded Done [SetStatus Done, ReleaseClaim])
         else if \<not> is_terminal (status f) \<and> gone
         then Rec_Fired (Moved (status f) ObservedOwnerGone (status f) [ReclaimFrom (the (claimant f))])
         else if status f = Done \<and> landed
         then Rec_Fired (Moved Done ObservedLanded Done [SetStatus Done, ReleaseClaim])
         else Rec_Settled)"
  using task_apply_observed [of f]
  by (auto simp: task_reconcile_def reconcile_eq task_rec_lists Let_def landed_externally_Allow
      owner_gone_Allow)

end
