(* ===== verification/Fsm_Properties.thy ===== *)
theory Fsm_Properties
  imports Task_Lifecycle
begin

text \<open>
  What the generic machine of \<open>crates/jkb-fsm\<close> promises any domain that uses it, stated over
  the operations themselves: the meaning of an empty \<open>check\<close> and of a clean \<open>audit\<close>, what
  \<open>apply\<close> and \<open>reconcile\<close> may answer, and the three-valued facts the guards are built from.
  The witnesses use the task lifecycle.
\<close>

lemma deterministic_iff:
  "deterministic M \<longleftrightarrow> distinct (map (\<lambda>t. (t_from t, t_event t)) (transitions M))"
proof -
  have "row_key = (\<lambda>t :: ('a, 'b, 'c, 'd) transition. (t_from t, t_event t))"
    by (rule ext) (simp add: row_key_def)
  then show ?thesis unfolding deterministic_def by simp
qed

text \<open>
  C33. What an empty \<open>check\<close> means, for any machine whose types list all their values under
  distinct names: it is exactly that no state has two rows for an event, every observation
  is guarded, every event is used, a verb run again from where it led is answered, every
  state can be reached from the initial one, and from every state a resting state can be
  reached without an operator naming it.
\<close>

theorem machine_check_meaning:
  fixes D :: "('s, 'e, 'c) fsm_domain"
  assumes "set (states_of D) = UNIV" and "set (events_of D) = UNIV"
    and "inj (state_name D)" and "inj (event_name D)"
  shows "machine_check D M = [] \<longleftrightarrow>
     distinct (map (\<lambda>t. (t_from t, t_event t)) (transitions M)) \<and>
     (\<forall>t \<in> set (transitions M). ev_kind (dom_events D) (t_event t) = Reconciled \<longrightarrow> t_guard t \<noteq> None) \<and>
     (\<forall>e. \<exists>t \<in> set (transitions M). t_event t = e) \<and>
     (\<forall>t \<in> set (transitions M). \<forall>s. t_to t = To s \<and> ev_kind (dom_events D) (t_event t) = Applied \<longrightarrow>
        machine_accepts M s (t_event t) \<noteq> Acc_Undefined) \<and>
     (\<forall>s. (initial M, s) \<in> (table_edges Counted M)\<^sup>*) \<and>
     (\<forall>s. \<exists>s'. settled_in D s' \<and> (s, s') \<in> (table_edges Excluded M)\<^sup>*)"
proof -
  have "fsm_types D" using assms by unfold_locales
  from fsm_types.check_Nil_iff [OF this, of M] show ?thesis
    unfolding deterministic_iff observations_guarded_def verbs_repeatable_def .
qed

theorem machine_check_meaning_witness:
  "machine_check task_domain task_machine = [] \<and>
   (\<forall>s. \<exists>s'. settled_in task_domain s' \<and> (s, s') \<in> (table_edges Excluded task_machine)\<^sup>*)"
proof -
  have "machine_check task_domain task_machine = []" by (rule task_check_clean)
  with machine_check_meaning [OF task.all_states task.all_events task.state_names task.event_names,
      of task_machine]
  show ?thesis by blast
qed

text \<open>
  What a clean \<open>audit\<close> means: it reports nothing exactly when every state was put before
  it, and in every context it was given each refusal's remedy is accepted where it is
  offered, an object that is neither at rest nor waiting for a person can be moved without an
  override, and the observations are not ambiguous.
\<close>

theorem machine_audit_meaning:
  "machine_audit D M contexts = [] \<longleftrightarrow>
     (\<forall>s \<in> set (states_of D). \<exists>ctx \<in> set contexts. state_name D (dom_state_of D ctx) = state_name D s) \<and>
     (\<forall>ctx \<in> set contexts.
        (\<forall>e \<in> set (events_of D). \<forall>dn r.
           machine_apply D M ctx e = Refused (dom_state_of D ctx) e dn \<and> dn_remedy dn = Some r \<longrightarrow>
           machine_accepts M (dom_state_of D ctx) (rm_event r) \<noteq> Acc_Undefined) \<and>
        (settled_in D (dom_state_of D ctx) \<or> st_awaits (dom_states D) (dom_state_of D ctx) \<or>
         (\<exists>e \<in> set (events_of D). \<exists>to fx.
            machine_apply D M ctx e = Moved (dom_state_of D ctx) e to fx \<and>
            to \<noteq> dom_state_of D ctx \<and> \<not> is_stated M (dom_state_of D ctx) e)) \<and>
        (\<forall>es. machine_reconcile D M ctx \<noteq> Rec_Ambiguous es))"
proof -
  have "validate_remedy M s dn = None \<longleftrightarrow>
      (\<forall>r. dn_remedy dn = Some r \<longrightarrow> machine_accepts M s (rm_event r) \<noteq> Acc_Undefined)" for s dn
    by (auto simp: validate_remedy_def split: option.splits acceptance.splits)
  then show ?thesis
    unfolding audit_Nil context_sound_def by blast
qed

definition task_contexts :: "task_facts list" where
  "task_contexts = map (\<lambda>s. task_facts_default\<lparr>status := s\<rparr>) task_status_ALL"

theorem machine_audit_meaning_witness:
  "machine_audit task_domain task_machine task_contexts = [] \<and>
   (\<forall>es. machine_reconcile task_domain task_machine (task_facts_default\<lparr>status := InProgress\<rparr>) \<noteq>
      Rec_Ambiguous es)"
proof -
  have "machine_audit task_domain task_machine task_contexts = []" by code_simp
  moreover have "task_facts_default\<lparr>status := InProgress\<rparr> \<in> set task_contexts"
    by (simp add: task_contexts_def task_status_ALL_def)
  ultimately show ?thesis
    using machine_audit_meaning [of task_domain task_machine task_contexts] by blast
qed

text \<open>
  One reconciliation step over any table with one row per state and event: it does nothing
  exactly when no observation is allowed; if two allowed observations would both move the
  object, it reports them all and picks neither by position; and what it fires is always a
  move by an allowed observation from the object's own state, carrying that row's plan.
\<close>

theorem machine_reconcile_meaning:
  assumes "distinct (map (\<lambda>t. (t_from t, t_event t)) (transitions M))"
  shows "(machine_reconcile D M ctx = Rec_Settled \<longleftrightarrow>
            (\<forall>t \<in> set (transitions M). \<not> rec_allowed D ctx t)) \<and>
         (t \<in> set (rec_moves D M ctx) \<and> u \<in> set (rec_moves D M ctx) \<and> t \<noteq> u \<longrightarrow>
            machine_reconcile D M ctx = Rec_Ambiguous (map t_event (rec_moves D M ctx))) \<and>
         (machine_reconcile D M ctx = Rec_Fired out \<longrightarrow>
            (\<exists>t to. t \<in> set (transitions M) \<and> t_from t = dom_state_of D ctx \<and>
               ev_kind (dom_events D) (t_event t) = Reconciled \<and> run_guard (t_guard t) ctx = Allow \<and>
               t_to t = To to \<and> out = Moved (dom_state_of D ctx) (t_event t) to (run_plan (t_plan t) ctx)))"
proof -
  have det: "deterministic M"
    using assms by (simp add: deterministic_iff)
  show ?thesis
  proof (intro conjI impI)
    show "machine_reconcile D M ctx = Rec_Settled \<longleftrightarrow>
            (\<forall>t \<in> set (transitions M). \<not> rec_allowed D ctx t)"
      by (rule reconcile_Settled_iff)
  next
    assume "t \<in> set (rec_moves D M ctx) \<and> u \<in> set (rec_moves D M ctx) \<and> t \<noteq> u"
    then show "machine_reconcile D M ctx = Rec_Ambiguous (map t_event (rec_moves D M ctx))"
      by (elim conjE) (rule reconcile_two_moves)
  next
    assume "machine_reconcile D M ctx = Rec_Fired out"
    from reconcile_Fired_moved [OF det this] obtain t to where
      "t \<in> set (transitions M)" "rec_allowed D ctx t" "t_to t = To to"
      "out = Moved (dom_state_of D ctx) (t_event t) to (run_plan (t_plan t) ctx)"
      by blast
    then show "\<exists>t to. t \<in> set (transitions M) \<and> t_from t = dom_state_of D ctx \<and>
               ev_kind (dom_events D) (t_event t) = Reconciled \<and> run_guard (t_guard t) ctx = Allow \<and>
               t_to t = To to \<and> out = Moved (dom_state_of D ctx) (t_event t) to (run_plan (t_plan t) ctx)"
      by (intro exI [of _ t] exI [of _ to]) (simp add: rec_allowed_def rec_candidate_def)
  qed
qed

theorem machine_reconcile_meaning_witness:
  "\<exists>t to. t \<in> set (transitions task_machine) \<and> t_from t = InProgress \<and>
     t_to t = To to \<and> Moved InProgress ObservedLanded Done [SetStatus Done, ReleaseClaim] =
       Moved InProgress (t_event t) to (run_plan (t_plan t)
         (task_facts_default\<lparr>status := InProgress, landed_elsewhere := Yes, open_subtasks := No\<rparr>))"
proof -
  let ?f = "task_facts_default\<lparr>status := InProgress, landed_elsewhere := Yes, open_subtasks := No\<rparr>"
  have d: "distinct (map (\<lambda>t. (t_from t, t_event t)) (transitions task_machine))"
    using task.is_deterministic by (simp only: deterministic_iff)
  have "machine_reconcile task_domain task_machine ?f =
      Rec_Fired (Moved InProgress ObservedLanded Done [SetStatus Done, ReleaseClaim])"
    by code_simp
  with machine_reconcile_meaning [OF d, of task_domain ?f undefined undefined] show ?thesis
    by fastforce
qed

text \<open>
  The three-valued facts. A conjunction or disjunction is established only if every way of
  settling its unknown parts gives that same answer, so a composite fact that holds, or
  fails, keeps doing so whatever is learnt; and nothing is both proven and refuted.
\<close>

theorem fact_connectives_settle:
  assumes "learns a a'" and "learns b b'"
  shows "(fact_and a b \<noteq> Unknown \<longrightarrow> fact_and a' b' = fact_and a b) \<and>
         (fact_or a b \<noteq> Unknown \<longrightarrow> fact_or a' b' = fact_or a b) \<and>
         (fact_not a \<noteq> Unknown \<longrightarrow> fact_not a' = fact_not a) \<and>
         (fact_and a b = Unknown \<longrightarrow>
            (\<exists>x y. learns a x \<and> learns b y \<and> x \<noteq> Unknown \<and> y \<noteq> Unknown \<and> fact_and x y = Yes) \<and>
            (\<exists>x y. learns a x \<and> learns b y \<and> x \<noteq> Unknown \<and> y \<noteq> Unknown \<and> fact_and x y = No)) \<and>
         \<not> (is_yes a \<and> is_no a)"
proof -
  have both_ways: "fact_and a b = Unknown \<longrightarrow>
      (\<exists>x y. learns a x \<and> learns b y \<and> x \<noteq> Unknown \<and> y \<noteq> Unknown \<and> fact_and x y = Yes) \<and>
      (\<exists>x y. learns a x \<and> learns b y \<and> x \<noteq> Unknown \<and> y \<noteq> Unknown \<and> fact_and x y = No)"
  proof
    assume u: "fact_and a b = Unknown"
    then have "learns a Yes \<and> learns b Yes" and "learns a No \<or> learns b No"
      by (cases a; cases b; simp add: learns_def)+
    then have "\<exists>x y. learns a x \<and> learns b y \<and> x \<noteq> Unknown \<and> y \<noteq> Unknown \<and> fact_and x y = Yes"
      and "\<exists>x y. learns a x \<and> learns b y \<and> x \<noteq> Unknown \<and> y \<noteq> Unknown \<and> fact_and x y = No"
      by (metis fact.distinct(3) fact_and_Yes, metis fact.distinct(3) fact.distinct(5) fact_and_No)
    then show "(\<exists>x y. learns a x \<and> learns b y \<and> x \<noteq> Unknown \<and> y \<noteq> Unknown \<and> fact_and x y = Yes) \<and>
      (\<exists>x y. learns a x \<and> learns b y \<and> x \<noteq> Unknown \<and> y \<noteq> Unknown \<and> fact_and x y = No)" ..
  qed
  show ?thesis
    using learns_and [OF assms] learns_or [OF assms] learns_not [OF assms(1)] both_ways
      kleene.consistent [of a]
    by (auto simp: learns_def)
qed

theorem fact_connectives_settle_witness:
  "fact_and No Unknown = No \<and> fact_and No Yes = fact_and No Unknown"
proof -
  have "learns No No" "learns Unknown Yes" by (simp_all add: learns_def)
  from fact_connectives_settle [OF this] show ?thesis by simp
qed

end
