(* ===== verification/Sync_Lifecycle.thy ===== *)
theory Sync_Lifecycle
  imports Fsm_Check Types_Enums
begin

text \<open>
  The sync journal's machine, \<open>crates/jkb-sync/src/lifecycle.rs\<close>: the file states and their
  stored spelling, the observations of a pass, the guards, the plans, the table that the
  macro \<open>rows!\<close> expands, \<open>status_for\<close> and \<open>observe\<close>.

  The guards are meant to partition the observations. The lemmas prove it: whatever a pass
  observes about a tracked file, at most one condition applies, learning more never
  changes a conclusion, and when everything is established the conclusion is the one a plain
  decision tree gives.
\<close>

section \<open>States and the journal\<close>

datatype file_state = F_Untracked | F_Settled | F_Conflicted | F_Quarantined | F_Blocked

definition file_state_ALL :: "file_state list" where
  "file_state_ALL = [F_Untracked, F_Settled, F_Conflicted, F_Quarantined, F_Blocked]"

fun file_state_name :: "file_state \<Rightarrow> string" where
  "file_state_name F_Untracked = ''untracked''"
| "file_state_name F_Settled = ''settled''"
| "file_state_name F_Conflicted = ''conflicted''"
| "file_state_name F_Quarantined = ''quarantined''"
| "file_state_name F_Blocked = ''blocked''"

definition file_is_settled :: "file_state \<Rightarrow> bool" where
  "file_is_settled s = (case s of F_Settled \<Rightarrow> True | F_Untracked \<Rightarrow> True | _ \<Rightarrow> False)"

definition file_awaits_input :: "file_state \<Rightarrow> bool" where
  "file_awaits_input s =
     (case s of F_Conflicted \<Rightarrow> True | F_Quarantined \<Rightarrow> True | F_Blocked \<Rightarrow> True | _ \<Rightarrow> False)"

definition file_state_trait :: "file_state state_trait" where
  "file_state_trait =
     \<lparr>st_all = file_state_ALL, st_name = file_state_name, st_noun = ''a synced file'',
      st_settled = file_is_settled, st_awaits = file_awaits_input\<rparr>"

fun stored :: "file_state \<Rightarrow> string option" where
  "stored F_Untracked = None"
| "stored F_Settled = Some ''ok''"
| "stored F_Conflicted = Some ''conflict''"
| "stored F_Quarantined = Some ''needs_attention''"
| "stored F_Blocked = Some ''needs_attention''"

definition from_journal :: "string option \<Rightarrow> bool \<Rightarrow> file_state" where
  "from_journal st stashed =
     (case st of
        None \<Rightarrow> F_Untracked
      | Some s \<Rightarrow>
          (if s = ''ok'' then F_Settled
           else if s = ''conflict'' then F_Conflicted
           else if s = ''needs_attention'' \<and> stashed then F_Quarantined
           else F_Blocked))"

section \<open>Events and effects\<close>

datatype file_event =
  FE_Adopted | FE_Imported | FE_Exported | FE_Merged | FE_ResolvedByPolicy | FE_Unchanged
| FE_Recovered | FE_Conflicted | FE_ParseFailed | FE_WriteBlocked

definition file_event_ALL :: "file_event list" where
  "file_event_ALL =
     [FE_Adopted, FE_Imported, FE_Exported, FE_Merged, FE_ResolvedByPolicy, FE_Unchanged,
      FE_Recovered, FE_Conflicted, FE_ParseFailed, FE_WriteBlocked]"

fun file_event_name :: "file_event \<Rightarrow> string" where
  "file_event_name FE_Adopted = ''adopted''"
| "file_event_name FE_Imported = ''imported''"
| "file_event_name FE_Exported = ''exported''"
| "file_event_name FE_Merged = ''merged''"
| "file_event_name FE_ResolvedByPolicy = ''resolved_by_policy''"
| "file_event_name FE_Unchanged = ''unchanged''"
| "file_event_name FE_Recovered = ''recovered''"
| "file_event_name FE_Conflicted = ''conflicted''"
| "file_event_name FE_ParseFailed = ''parse_failed''"
| "file_event_name FE_WriteBlocked = ''write_blocked''"

definition file_event_trait :: "file_event event_trait" where
  "file_event_trait =
     \<lparr>ev_all = file_event_ALL, ev_name = file_event_name, ev_kind = (\<lambda>_. Reconciled)\<rparr>"

datatype file_effect = Settle | Flag string | Stash

section \<open>What a pass observes\<close>

datatype policy = P_DiskWins | P_KbWins | P_Manual

record file_facts =
  ff_state :: file_state
  on_disk :: fact
  parses :: fact
  disk_changed :: fact
  kb_changed :: fact
  disjoint_edits :: fact
  store_empty_of_declared :: fact
  items_still_bound :: fact
  would_drop_items :: fact
  imports_ok :: fact
  exports_ok :: fact
  ff_policy :: policy

definition file_facts_default :: file_facts where
  "file_facts_default =
     \<lparr>ff_state = F_Untracked, on_disk = Unknown, parses = Unknown, disk_changed = Unknown,
      kb_changed = Unknown, disjoint_edits = Unknown, store_empty_of_declared = Unknown,
      items_still_bound = Unknown, would_drop_items = Unknown, imports_ok = Unknown,
      exports_ok = Unknown, ff_policy = P_Manual\<rparr>"

definition file_domain :: "(file_state, file_event, file_facts) fsm_domain" where
  "file_domain =
     \<lparr>dom_states = file_state_trait, dom_events = file_event_trait, dom_state_of = ff_state\<rparr>"

section \<open>Guards\<close>

definition readable :: "file_facts \<Rightarrow> fact" where
  "readable f = fact_and (on_disk f) (parses f)"

definition ordinary :: "file_facts \<Rightarrow> fact" where
  "ordinary f = fact_and (readable f) (fact_not (store_empty_of_declared f))"

definition recovering :: "file_facts \<Rightarrow> file_event verdict" where
  "recovering f = all_of
     [require_yes (readable f) (denial_new ''the file is not readable.''),
      require_yes (store_empty_of_declared f)
        (denial_new ''the store still contributes items to this file.''),
      require_no (items_still_bound f) (denial_with_remedy
        ''items are still bound to this file, so an empty render is a lost placement rather than lost items.''
        FE_WriteBlocked ''Restore the placement with `jkb task place <uid> <ns> --home`.''),
      require_yes (imports_ok f) (denial_with_remedy
        ''this mount cannot import, so the file cannot be read back.''
        FE_WriteBlocked ''Nothing is written; re-read the file, or make the mount bidirectional.'')]"

definition adopting :: "file_facts \<Rightarrow> file_event verdict" where
  "adopting f = require_yes (ordinary f) (denial_new ''there is nothing readable here to adopt.'')"

definition importing :: "file_facts \<Rightarrow> file_event verdict" where
  "importing f = all_of
     [require_yes (ordinary f) (denial_new ''nothing to import.''),
      require_yes (disk_changed f) (denial_new ''the disk side is unchanged.''),
      require_no (kb_changed f) (denial_new ''the store side changed too.''),
      require_yes (imports_ok f) (denial_new ''this mount cannot import.'')]"

definition exporting :: "file_facts \<Rightarrow> file_event verdict" where
  "exporting f = all_of
     [require_yes (ordinary f) (denial_new ''nothing to export.''),
      require_no (disk_changed f) (denial_new ''the disk side changed too.''),
      require_yes (kb_changed f) (denial_new ''the store side is unchanged.''),
      require_yes (exports_ok f) (denial_new ''this mount cannot export.''),
      require_no (would_drop_items f) (denial_with_remedy
        ''the write would remove item lines this file still declares.''
        FE_WriteBlocked ''Restore the missing placements, or delete those lines from the file.'')]"

definition both_changed :: "file_facts \<Rightarrow> fact" where
  "both_changed f = fact_and (fact_and (ordinary f) (disk_changed f)) (kb_changed f)"

definition would_write_kb_render :: "file_facts \<Rightarrow> fact" where
  "would_write_kb_render f =
     (let pure_export = fact_and (fact_not (disk_changed f)) (kb_changed f);
          kb_wins = fact_and (fact_and (both_changed f) (fact_not (disjoint_edits f)))
            (fact_from (ff_policy f = P_KbWins))
      in fact_and (fact_or pure_export kb_wins) (exports_ok f))"

definition merging :: "file_facts \<Rightarrow> file_event verdict" where
  "merging f = all_of
     [require_yes (both_changed f) (denial_new ''only one side changed.''),
      require_yes (disjoint_edits f) (denial_with_remedy
        ''both sides changed the same unit.''
        FE_Conflicted (''Resolve it in the file, or set the mount'' @ [CHR 0x27] @
          ''s conflict policy.''))]"

definition policy_resolving :: "file_facts \<Rightarrow> file_event verdict" where
  "policy_resolving f = all_of
     [require_yes (both_changed f) (denial_new ''only one side changed.''),
      require_no (disjoint_edits f) (denial_new ''the edits are disjoint and merge.''),
      require_no (fact_from (ff_policy f = P_Manual)) (denial_with_remedy
        ''the conflict policy is `manual`, so neither side is overwritten.''
        FE_Conflicted ''Resolve it in the file, or re-run with `jkb sync --conflict disk_wins`.''),
      require_no (fact_and (would_write_kb_render f) (would_drop_items f)) (denial_with_remedy
        ''resolving in favour of the store would remove item lines this file declares.''
        FE_WriteBlocked ''Restore the missing placements, or resolve in favour of the disk.'')]"

definition conflicting :: "file_facts \<Rightarrow> file_event verdict" where
  "conflicting f = all_of
     [require_yes (both_changed f) (denial_new ''only one side changed.''),
      require_no (disjoint_edits f) (denial_new ''the edits are disjoint and merge.''),
      require_yes (fact_from (ff_policy f = P_Manual)) (denial_new
        ''the policy names a winner, so this is resolved rather than flagged.'')]"

definition unchanged :: "file_facts \<Rightarrow> file_event verdict" where
  "unchanged f = all_of
     [require_yes (ordinary f) (denial_new ''the file is not readable.''),
      require_no (disk_changed f) (denial_new ''the disk side changed.''),
      require_no (kb_changed f) (denial_new ''the store side changed.'')]"

definition parse_failed :: "file_facts \<Rightarrow> file_event verdict" where
  "parse_failed f = all_of
     [require_yes (on_disk f) (denial_new ''there is no file to parse.''),
      require_no (parses f) (denial_new ''the file parsed.'')]"

definition write_blocked :: "file_facts \<Rightarrow> file_event verdict" where
  "write_blocked f =
     (let dropping = fact_and (fact_and (would_write_kb_render f) (would_drop_items f))
            (fact_not (store_empty_of_declared f));
          unrecoverable = fact_and (store_empty_of_declared f)
            (fact_or (items_still_bound f) (fact_not (imports_ok f)))
      in all_of
        [require_yes (readable f) (denial_new ''the file is not readable.''),
         require_yes (fact_or dropping unrecoverable)
           (denial_new ''no write would remove anything this file declares.'')])"

section \<open>Plans\<close>

definition file_settle :: "file_facts \<Rightarrow> file_effect list" where
  "file_settle f = [Settle]"

definition stash :: "file_facts \<Rightarrow> file_effect list" where
  "stash f = [Stash]"

definition flag_conflict :: "file_facts \<Rightarrow> file_effect list" where
  "flag_conflict f = [Flag ''both sides changed the same unit'']"

definition flag_blocked :: "file_facts \<Rightarrow> file_effect list" where
  "flag_blocked f = [Flag ''writing would remove item lines this file declares'']"

section \<open>The table\<close>

type_synonym file_row = "(file_state, file_event, file_facts, file_effect) transition"

text \<open>One line of the macro \<open>rows!\<close>: the same row for each of the states it lists.\<close>

definition file_rows ::
  "file_state list \<Rightarrow> file_event \<Rightarrow> file_state \<Rightarrow> (file_facts \<Rightarrow> file_event verdict)
     \<Rightarrow> (file_facts \<Rightarrow> file_effect list) \<Rightarrow> file_row list" where
  "file_rows froms event to guard plan =
     map (\<lambda>fr. row fr event (To to) (Some guard) (Some plan)) froms"

definition file_ROWS :: "file_row list" where
  "file_ROWS =
     file_rows [F_Untracked] FE_Adopted F_Settled adopting file_settle @
     file_rows [F_Settled, F_Conflicted, F_Quarantined, F_Blocked] FE_Imported F_Settled importing file_settle @
     file_rows [F_Settled, F_Conflicted, F_Quarantined, F_Blocked] FE_Exported F_Settled exporting file_settle @
     file_rows [F_Settled, F_Conflicted, F_Quarantined, F_Blocked] FE_Merged F_Settled merging file_settle @
     file_rows [F_Settled, F_Conflicted, F_Quarantined, F_Blocked] FE_ResolvedByPolicy F_Settled policy_resolving file_settle @
     file_rows [F_Settled, F_Conflicted, F_Quarantined, F_Blocked] FE_Unchanged F_Settled unchanged file_settle @
     file_rows [F_Untracked, F_Settled, F_Conflicted, F_Quarantined, F_Blocked] FE_Recovered F_Settled recovering file_settle @
     file_rows [F_Untracked, F_Settled, F_Conflicted, F_Quarantined, F_Blocked] FE_ParseFailed F_Quarantined parse_failed stash @
     file_rows [F_Settled, F_Conflicted, F_Quarantined, F_Blocked] FE_Conflicted F_Conflicted conflicting flag_conflict @
     file_rows [F_Untracked, F_Settled, F_Conflicted, F_Quarantined, F_Blocked] FE_WriteBlocked F_Blocked write_blocked flag_blocked"

definition file_machine :: "(file_state, file_event, file_facts, file_effect) machine" where
  "file_machine = \<lparr>transitions = file_ROWS, initial = F_Untracked\<rparr>"

definition status_for :: "file_state \<Rightarrow> file_event \<Rightarrow> (string, string) result" where
  "status_for fr event =
     (case machine_accepts file_machine fr event of
        Acc_Moves to \<Rightarrow>
          (case stored to of
             Some s \<Rightarrow> Inr s
           | None \<Rightarrow> Inl (''`'' @ file_event_name event @ ''` in `'' @ file_state_name fr @
               ''` leads to `'' @ file_state_name to @ ''`, which has no stored spelling''))
      | _ \<Rightarrow> Inl (''the sync journal has no `'' @ file_event_name event @
               ''` transition out of `'' @ file_state_name fr @ ''` '' @ emdash @
               '' a reconcile arm reached a conclusion the machine does not declare''))"

definition observe :: "file_facts \<Rightarrow> (file_state, file_event, file_effect) reconciliation" where
  "observe facts = machine_reconcile file_domain file_machine facts"

section \<open>The table is sound\<close>

lemma file_domain_simps [simp]:
  "dom_states file_domain = file_state_trait" "dom_events file_domain = file_event_trait"
  "dom_state_of file_domain = ff_state"
  by (simp_all add: file_domain_def)

lemma file_trait_simps [simp]:
  "st_all file_state_trait = file_state_ALL" "st_name file_state_trait = file_state_name"
  "st_settled file_state_trait = file_is_settled" "st_awaits file_state_trait = file_awaits_input"
  "ev_all file_event_trait = file_event_ALL" "ev_name file_event_trait = file_event_name"
  "ev_kind file_event_trait e = Reconciled"
  by (simp_all add: file_state_trait_def file_event_trait_def)

lemma file_machine_simps [simp]:
  "transitions file_machine = file_ROWS" "initial file_machine = F_Untracked"
  by (simp_all add: file_machine_def)

interpretation file_state_enum: stored_enum file_state_ALL file_state_name
proof
  show "set file_state_ALL = UNIV"
    by (rule UNIV_eq_I [symmetric]) (rename_tac x, case_tac x, simp_all add: file_state_ALL_def)
qed (simp add: file_state_ALL_def)

interpretation file_event_enum: stored_enum file_event_ALL file_event_name
proof
  show "set file_event_ALL = UNIV"
    by (rule UNIV_eq_I [symmetric]) (rename_tac x, case_tac x, simp_all add: file_event_ALL_def)
qed (simp add: file_event_ALL_def)

lemma file_check_clean: "machine_check file_domain file_machine = []"
  by code_simp

interpretation journal: checked_machine file_domain file_machine
proof
  show "inj (state_name file_domain)" "inj (event_name file_domain)"
    by (simp_all add: file_state_enum.as_str_inj file_event_enum.as_str_inj)
qed (simp_all add: file_state_enum.complete file_event_enum.complete file_check_clean)

section \<open>When the guards allow\<close>

lemma readable_Yes [fact_simps]: "readable f = Yes \<longleftrightarrow> on_disk f = Yes \<and> parses f = Yes"
  by (simp add: readable_def fact_simps)

lemma ordinary_Yes [fact_simps]:
  "ordinary f = Yes \<longleftrightarrow> on_disk f = Yes \<and> parses f = Yes \<and> store_empty_of_declared f = No"
  by (auto simp: ordinary_def fact_simps)

lemma both_changed_Yes [fact_simps]:
  "both_changed f = Yes \<longleftrightarrow> ordinary f = Yes \<and> disk_changed f = Yes \<and> kb_changed f = Yes"
  by (auto simp: both_changed_def fact_simps)

lemma would_write_Yes [fact_simps]:
  "would_write_kb_render f = Yes \<longleftrightarrow>
     exports_ok f = Yes \<and>
     (disk_changed f = No \<and> kb_changed f = Yes \<or>
      both_changed f = Yes \<and> disjoint_edits f = No \<and> ff_policy f = P_KbWins)"
  by (auto simp: would_write_kb_render_def fact_simps)

lemma would_write_No_both:
  assumes "both_changed f = Yes"
  shows "would_write_kb_render f = No \<longleftrightarrow>
     exports_ok f = No \<or> disjoint_edits f = Yes \<or> ff_policy f \<noteq> P_KbWins"
proof -
  from assms have "disk_changed f = Yes" "kb_changed f = Yes"
    by (simp_all add: both_changed_Yes)
  with assms show ?thesis
    by (auto simp: would_write_kb_render_def fact_and_No fact_or_No fact_not_No fact_from_No)
qed

lemma file_guards_Allow [guard_simps]:
  "recovering f = Allow \<longleftrightarrow> readable f = Yes \<and> store_empty_of_declared f = Yes \<and>
     items_still_bound f = No \<and> imports_ok f = Yes"
  "adopting f = Allow \<longleftrightarrow> ordinary f = Yes"
  "importing f = Allow \<longleftrightarrow> ordinary f = Yes \<and> disk_changed f = Yes \<and> kb_changed f = No \<and> imports_ok f = Yes"
  "exporting f = Allow \<longleftrightarrow> ordinary f = Yes \<and> disk_changed f = No \<and> kb_changed f = Yes \<and>
     exports_ok f = Yes \<and> would_drop_items f = No"
  "merging f = Allow \<longleftrightarrow> both_changed f = Yes \<and> disjoint_edits f = Yes"
  "policy_resolving f = Allow \<longleftrightarrow> both_changed f = Yes \<and> disjoint_edits f = No \<and>
     ff_policy f \<noteq> P_Manual \<and> (would_write_kb_render f = No \<or> would_drop_items f = No)"
  "conflicting f = Allow \<longleftrightarrow> both_changed f = Yes \<and> disjoint_edits f = No \<and> ff_policy f = P_Manual"
  "unchanged f = Allow \<longleftrightarrow> ordinary f = Yes \<and> disk_changed f = No \<and> kb_changed f = No"
  "parse_failed f = Allow \<longleftrightarrow> on_disk f = Yes \<and> parses f = No"
  "write_blocked f = Allow \<longleftrightarrow> readable f = Yes \<and>
     (would_write_kb_render f = Yes \<and> would_drop_items f = Yes \<and> store_empty_of_declared f = No \<or>
      store_empty_of_declared f = Yes \<and> (items_still_bound f = Yes \<or> imports_ok f = No))"
  by (simp_all add: recovering_def adopting_def importing_def exporting_def merging_def
      policy_resolving_def conflicting_def unchanged_def parse_failed_def write_blocked_def
      Let_def all_of_Allow require_yes_Allow require_no_Allow fact_and_Yes fact_and_No fact_or_Yes
      fact_not_Yes fact_from_Yes fact_from_No conj_ac)

section \<open>The table by event\<close>

fun file_guard :: "file_event \<Rightarrow> file_facts \<Rightarrow> file_event verdict" where
  "file_guard FE_Adopted = adopting"
| "file_guard FE_Imported = importing"
| "file_guard FE_Exported = exporting"
| "file_guard FE_Merged = merging"
| "file_guard FE_ResolvedByPolicy = policy_resolving"
| "file_guard FE_Unchanged = unchanged"
| "file_guard FE_Recovered = recovering"
| "file_guard FE_Conflicted = conflicting"
| "file_guard FE_ParseFailed = parse_failed"
| "file_guard FE_WriteBlocked = write_blocked"

fun file_dest :: "file_event \<Rightarrow> file_state" where
  "file_dest FE_Conflicted = F_Conflicted"
| "file_dest FE_ParseFailed = F_Quarantined"
| "file_dest FE_WriteBlocked = F_Blocked"
| "file_dest _ = F_Settled"

fun file_plan :: "file_event \<Rightarrow> file_facts \<Rightarrow> file_effect list" where
  "file_plan FE_Conflicted = flag_conflict"
| "file_plan FE_ParseFailed = stash"
| "file_plan FE_WriteBlocked = flag_blocked"
| "file_plan _ = file_settle"

definition file_applies :: "file_state \<Rightarrow> file_event \<Rightarrow> bool" where
  "file_applies s e \<longleftrightarrow>
     (if s = F_Untracked then e \<in> {FE_Adopted, FE_Recovered, FE_ParseFailed, FE_WriteBlocked}
      else e \<noteq> FE_Adopted)"

definition file_row_for :: "file_state \<Rightarrow> file_event \<Rightarrow> file_row" where
  "file_row_for s e = row s e (To (file_dest e)) (Some (file_guard e)) (Some (file_plan e))"

lemma file_ROWS_iff: "t \<in> set file_ROWS \<longleftrightarrow> (\<exists>s e. file_applies s e \<and> t = file_row_for s e)"
proof
  assume "t \<in> set file_ROWS"
  then have "file_applies (t_from t) (t_event t) \<and> t = file_row_for (t_from t) (t_event t)"
    unfolding file_ROWS_def file_rows_def file_row_for_def file_applies_def by auto
  then show "\<exists>s e. file_applies s e \<and> t = file_row_for s e" by blast
next
  assume "\<exists>s e. file_applies s e \<and> t = file_row_for s e"
  then obtain s e where se: "file_applies s e" and t: "t = file_row_for s e" by blast
  from se show "t \<in> set file_ROWS"
    unfolding t by (cases s; cases e) (simp_all add: file_ROWS_def file_rows_def file_row_for_def file_applies_def)
qed

lemma file_row_for_simps [simp]:
  "t_from (file_row_for s e) = s" "t_event (file_row_for s e) = e"
  "t_to (file_row_for s e) = To (file_dest e)" "t_guard (file_row_for s e) = Some (file_guard e)"
  "t_plan (file_row_for s e) = Some (file_plan e)"
  by (simp_all add: file_row_for_def)

lemma file_rec_allowed:
  "rec_allowed file_domain f (file_row_for s e) \<longleftrightarrow> s = ff_state f \<and> file_guard e f = Allow"
  by (auto simp: rec_allowed_def rec_candidate_def run_guard_def)

section \<open>The guards partition the observations\<close>

text \<open>With no journal row there is no base, so whether the disk changed is not established.\<close>

definition base_known :: "file_facts \<Rightarrow> bool" where
  "base_known f \<longleftrightarrow> (ff_state f = F_Untracked \<longrightarrow> disk_changed f = Unknown)"

lemma file_guards_exclusive:
  assumes "file_guard e f = Allow" and "file_guard e' f = Allow"
    and "file_applies (ff_state f) e" and "file_applies (ff_state f) e'" and "base_known f"
  shows "e = e'"
  using assms
  by (cases e; cases e'; simp add: guard_simps fact_simps file_applies_def base_known_def would_write_No_both
      split: if_splits; fastforce simp: fact_simps would_write_No_both)

lemma file_never_ambiguous: "base_known f \<Longrightarrow> machine_reconcile file_domain file_machine f \<noteq> Rec_Ambiguous es"
  by (rule never_ambiguousI [OF journal.is_deterministic])
     (auto simp: file_ROWS_iff file_rec_allowed dest: file_guards_exclusive)

lemma file_fires:
  assumes "base_known f" and "file_applies (ff_state f) e" and "file_guard e f = Allow"
  shows "observe f = Rec_Fired (Moved (ff_state f) e (file_dest e) (file_plan e f))"
proof -
  have "machine_reconcile file_domain file_machine f =
    Rec_Fired (Moved (dom_state_of file_domain f) (t_event (file_row_for (ff_state f) e)) (file_dest e)
      (run_plan (t_plan (file_row_for (ff_state f) e)) f))"
  proof (rule reconcile_unique [OF journal.is_deterministic])
    show "file_row_for (ff_state f) e \<in> set (transitions file_machine)"
      using assms(2) by (auto simp: file_ROWS_iff)
    show "rec_allowed file_domain f (file_row_for (ff_state f) e)"
      using assms(3) by (simp add: file_rec_allowed)
    fix u
    assume "u \<in> set (transitions file_machine)" "rec_allowed file_domain f u"
    then show "t_event u = t_event (file_row_for (ff_state f) e)"
      using assms file_guards_exclusive by (auto simp: file_ROWS_iff file_rec_allowed)
  qed simp
  then show ?thesis
    by (simp add: observe_def run_plan_def)
qed

lemma file_settled_iff:
  "observe f = Rec_Settled \<longleftrightarrow> (\<forall>e. file_applies (ff_state f) e \<longrightarrow> file_guard e f \<noteq> Allow)"
proof -
  have "(\<forall>t \<in> set file_ROWS. \<not> rec_allowed file_domain f t) \<longleftrightarrow>
      (\<forall>s e. file_applies s e \<longrightarrow> \<not> rec_allowed file_domain f (file_row_for s e))"
    unfolding Ball_def file_ROWS_iff by blast
  then show ?thesis
    by (auto simp: observe_def reconcile_Settled_iff file_rec_allowed)
qed

lemma file_firedD:
  assumes "observe f = Rec_Fired out"
  obtains e where "file_applies (ff_state f) e" "file_guard e f = Allow"
    "out = Moved (ff_state f) e (file_dest e) (file_plan e f)"
  using journal.fired_has_moved [of f out] assms that
  by (auto simp: observe_def file_ROWS_iff run_plan_def)

section \<open>Learning more\<close>

definition file_facts_learn :: "file_facts \<Rightarrow> file_facts \<Rightarrow> bool" where
  "file_facts_learn f g \<longleftrightarrow>
     ff_state g = ff_state f \<and> ff_policy g = ff_policy f \<and>
     learns (on_disk f) (on_disk g) \<and> learns (parses f) (parses g) \<and>
     learns (disk_changed f) (disk_changed g) \<and> learns (kb_changed f) (kb_changed g) \<and>
     learns (disjoint_edits f) (disjoint_edits g) \<and>
     learns (store_empty_of_declared f) (store_empty_of_declared g) \<and>
     learns (items_still_bound f) (items_still_bound g) \<and>
     learns (would_drop_items f) (would_drop_items g) \<and>
     learns (imports_ok f) (imports_ok g) \<and> learns (exports_ok f) (exports_ok g)"

lemma file_derived_learn:
  assumes "file_facts_learn f g"
  shows "learns (readable f) (readable g)" "learns (ordinary f) (ordinary g)"
    "learns (both_changed f) (both_changed g)"
    "learns (would_write_kb_render f) (would_write_kb_render g)"
proof -
  from assms have l: "learns (on_disk f) (on_disk g)" "learns (parses f) (parses g)"
     "learns (disk_changed f) (disk_changed g)" "learns (kb_changed f) (kb_changed g)"
     "learns (disjoint_edits f) (disjoint_edits g)"
     "learns (store_empty_of_declared f) (store_empty_of_declared g)"
     "learns (exports_ok f) (exports_ok g)" and pol: "ff_policy g = ff_policy f"
    by (simp_all add: file_facts_learn_def)
  show r: "learns (readable f) (readable g)"
    unfolding readable_def by (intro learns_intros l)
  show or: "learns (ordinary f) (ordinary g)"
    unfolding ordinary_def by (intro learns_intros l r)
  show b: "learns (both_changed f) (both_changed g)"
    unfolding both_changed_def by (intro learns_intros l or)
  show "learns (would_write_kb_render f) (would_write_kb_render g)"
    unfolding would_write_kb_render_def Let_def pol by (intro learns_intros l b)
qed

text \<open>A list of clauses over facts that only become better known keeps its verdict.\<close>

lemma learn_clauses:
  "learns a b \<Longrightarrow> require_yes a d = Allow \<Longrightarrow> require_yes b d = Allow"
  "learns a b \<Longrightarrow> require_no a d = Allow \<Longrightarrow> require_no b d = Allow"
  by (auto simp: guard_simps learns_def)

lemma file_guard_stable:
  assumes l: "file_facts_learn f g" and "file_guard e f = Allow"
  shows "file_guard e g = Allow"
proof -
  note d = file_derived_learn [OF l]
  from l have f: "learns (on_disk f) (on_disk g)" "learns (parses f) (parses g)"
     "learns (disk_changed f) (disk_changed g)" "learns (kb_changed f) (kb_changed g)"
     "learns (disjoint_edits f) (disjoint_edits g)"
     "learns (store_empty_of_declared f) (store_empty_of_declared g)"
     "learns (items_still_bound f) (items_still_bound g)"
     "learns (would_drop_items f) (would_drop_items g)"
     "learns (imports_ok f) (imports_ok g)"
     "learns (exports_ok f) (exports_ok g)" and pol: "ff_policy g = ff_policy f"
    by (simp_all add: file_facts_learn_def)
  show ?thesis
    using assms(2)
    by (cases e)
       (auto simp: recovering_def adopting_def importing_def exporting_def merging_def
         policy_resolving_def conflicting_def unchanged_def parse_failed_def write_blocked_def
         Let_def all_of_Allow pol
         intro!: learns_intros d f intro: learn_clauses(1) [rotated] learn_clauses(2) [rotated])
qed

section \<open>What the journal promises\<close>

lemma file_remedies:
  "recovering f = Deny d \<Longrightarrow> dn_remedy d = Some r \<Longrightarrow> rm_event r = FE_WriteBlocked"
  "adopting f = Deny d \<Longrightarrow> dn_remedy d = None"
  "importing f = Deny d \<Longrightarrow> dn_remedy d = None"
  "exporting f = Deny d \<Longrightarrow> dn_remedy d = Some r \<Longrightarrow> rm_event r = FE_WriteBlocked"
  "merging f = Deny d \<Longrightarrow> dn_remedy d = Some r \<Longrightarrow> rm_event r = FE_Conflicted"
  "policy_resolving f = Deny d \<Longrightarrow> dn_remedy d = Some r \<Longrightarrow>
     rm_event r = FE_Conflicted \<or> rm_event r = FE_WriteBlocked"
  "conflicting f = Deny d \<Longrightarrow> dn_remedy d = None"
  "unchanged f = Deny d \<Longrightarrow> dn_remedy d = None"
  "parse_failed f = Deny d \<Longrightarrow> dn_remedy d = None"
  "write_blocked f = Deny d \<Longrightarrow> dn_remedy d = None"
  by (auto simp: recovering_def adopting_def importing_def exporting_def merging_def
      policy_resolving_def conflicting_def unchanged_def parse_failed_def write_blocked_def
      denial_new_def denial_with_remedy_def Let_def
      dest!: all_of_Deny require_yes_Deny [OF sym] require_no_Deny [OF sym] require_yes_Deny)

lemma file_accepts: "file_applies s e \<Longrightarrow> machine_accepts file_machine s e = Acc_Moves (file_dest e)"
proof -
  assume "file_applies s e"
  then have "file_row_for s e \<in> set (transitions file_machine)"
    by (auto simp: file_ROWS_iff)
  from journal.row_unique [OF this] show ?thesis
    by (auto simp: accepts_Moves)
qed

lemma file_not_accepts: "\<not> file_applies s e \<Longrightarrow> machine_accepts file_machine s e = Acc_Undefined"
  by (cases s; cases e) (simp_all add: file_applies_def machine_accepts_def machine_row_def
      landing_here_def file_ROWS_def file_rows_def)

lemma file_remedy_accepted:
  assumes "file_applies s e" and "file_guard e f = Deny d" and "dn_remedy d = Some r"
  shows "file_applies s (rm_event r)"
  using assms file_remedies [of f d]
  by (cases e) (auto simp: file_applies_def split: if_splits)

lemma file_context_sound: "base_known f \<Longrightarrow> context_sound file_domain file_machine f"
proof (rule journal.context_soundI)
  show "settled_in file_domain (dom_state_of file_domain f) \<or>
    st_awaits (dom_states file_domain) (dom_state_of file_domain f) \<or>
    (\<exists>t \<in> set (transitions file_machine). \<exists>to. t_from t = dom_state_of file_domain f \<and>
       t_to t = To to \<and> to \<noteq> dom_state_of file_domain f \<and> run_guard (t_guard t) f = Allow)"
    by (cases "ff_state f") (simp_all add: file_is_settled_def file_awaits_input_def)
next
  fix t d r
  assume "t \<in> set (transitions file_machine)" "t_from t = dom_state_of file_domain f"
    "run_guard (t_guard t) f = Deny d" "dn_remedy d = Some r"
  then show "machine_accepts file_machine (dom_state_of file_domain f) (rm_event r) \<noteq> Acc_Undefined"
    using file_remedy_accepted [of "ff_state f" _ f d r]
    by (auto simp: file_ROWS_iff run_guard_def file_accepts)
qed (rule file_never_ambiguous)

text \<open>
  The sync journal is sound. Its check reports nothing, and whatever a pass observes, as
  long as the disk is not called changed for a file that has no recorded base, no two
  conditions claim the observation and the remedy of every refusal is an event that can
  happen to a file in that state.
\<close>

theorem file_lifecycle_sound:
  "machine_check file_domain file_machine = [] \<and>
   (\<forall>f. base_known f \<longrightarrow> context_sound file_domain file_machine f)"
  using file_check_clean file_context_sound by blast

theorem file_lifecycle_sound_witness:
  "base_known (file_facts_default\<lparr>ff_state := F_Blocked, on_disk := Yes, parses := No, kb_changed := Yes\<rparr>) \<and>
   context_sound file_domain file_machine
     (file_facts_default\<lparr>ff_state := F_Blocked, on_disk := Yes, parses := No, kb_changed := Yes\<rparr>)"
  using file_lifecycle_sound by (simp add: base_known_def)

text \<open>
  A conclusion the journal reaches from partial observations is the conclusion it reaches
  from any fuller ones: what a pass could not establish never made it conclude something
  it would not have concluded knowing more.
\<close>

theorem file_observe_stable:
  assumes "observe f = Rec_Fired out" and "file_facts_learn f g" and "base_known g"
  shows "observe g = Rec_Fired out"
proof -
  from assms(1) obtain e where e: "file_applies (ff_state f) e" "file_guard e f = Allow"
    and out: "out = Moved (ff_state f) e (file_dest e) (file_plan e f)"
    by (rule file_firedD)
  have st: "ff_state g = ff_state f"
    using assms(2) by (simp add: file_facts_learn_def)
  have plan: "file_plan e g = file_plan e f"
    by (cases e) (simp_all add: file_settle_def stash_def flag_conflict_def flag_blocked_def)
  from file_fires [OF assms(3)] e file_guard_stable [OF assms(2) e(2)] show ?thesis
    by (simp add: st out plan)
qed

theorem file_observe_stable_witness:
  "observe (file_facts_default\<lparr>ff_state := F_Settled, on_disk := Yes, parses := No, disk_changed := Yes\<rparr>) =
     Rec_Fired (Moved F_Settled FE_ParseFailed F_Quarantined [Stash])"
proof (rule file_observe_stable)
  show "observe (file_facts_default\<lparr>ff_state := F_Settled, on_disk := Yes, parses := No\<rparr>) =
     Rec_Fired (Moved F_Settled FE_ParseFailed F_Quarantined [Stash])"
    by code_simp
qed (simp_all add: file_facts_learn_def base_known_def file_facts_default_def learns_def)

text \<open>The conclusion a plain decision tree gives when everything a pass asks is answered.\<close>

definition file_decision :: "file_facts \<Rightarrow> file_event option" where
  "file_decision f =
     (if on_disk f \<noteq> Yes then None
      else if parses f = No then Some FE_ParseFailed
      else if store_empty_of_declared f = Yes then
        (if items_still_bound f = No \<and> imports_ok f = Yes then Some FE_Recovered else Some FE_WriteBlocked)
      else if ff_state f = F_Untracked then Some FE_Adopted
      else if disk_changed f = No \<and> kb_changed f = No then Some FE_Unchanged
      else if disk_changed f = Yes \<and> kb_changed f = No then
        (if imports_ok f = Yes then Some FE_Imported else None)
      else if disk_changed f = No \<and> kb_changed f = Yes then
        (if exports_ok f \<noteq> Yes then None
         else if would_drop_items f = Yes then Some FE_WriteBlocked else Some FE_Exported)
      else if disjoint_edits f = Yes then Some FE_Merged
      else if ff_policy f = P_Manual then Some FE_Conflicted
      else if ff_policy f = P_KbWins \<and> exports_ok f = Yes \<and> would_drop_items f = Yes
        then Some FE_WriteBlocked
      else Some FE_ResolvedByPolicy)"

definition established :: "file_facts \<Rightarrow> bool" where
  "established f \<longleftrightarrow>
     on_disk f \<noteq> Unknown \<and> parses f \<noteq> Unknown \<and> store_empty_of_declared f \<noteq> Unknown \<and>
     items_still_bound f \<noteq> Unknown \<and> would_drop_items f \<noteq> Unknown \<and> imports_ok f \<noteq> Unknown \<and>
     exports_ok f \<noteq> Unknown \<and>
     (if ff_state f = F_Untracked
      then disk_changed f = Unknown
      else disk_changed f \<noteq> Unknown \<and> kb_changed f \<noteq> Unknown \<and> disjoint_edits f \<noteq> Unknown)"

lemma established_No: "a \<noteq> Unknown \<Longrightarrow> a = No \<longleftrightarrow> a \<noteq> Yes"
  by (cases a) simp_all

lemma file_decision_fires:
  assumes "established f" and "file_decision f = Some e"
  shows "file_applies (ff_state f) e \<and> file_guard e f = Allow"
proof -
  from assms(1) have n: "on_disk f \<noteq> Unknown" "parses f \<noteq> Unknown" "store_empty_of_declared f \<noteq> Unknown"
     "items_still_bound f \<noteq> Unknown" "would_drop_items f \<noteq> Unknown" "imports_ok f \<noteq> Unknown"
     "exports_ok f \<noteq> Unknown"
    and t: "ff_state f \<noteq> F_Untracked \<Longrightarrow>
      disk_changed f \<noteq> Unknown \<and> kb_changed f \<noteq> Unknown \<and> disjoint_edits f \<noteq> Unknown"
    by (auto simp: established_def split: if_splits)
  show ?thesis
  proof (cases "ff_state f = F_Untracked")
    case True
    with assms(2) n show ?thesis
      by (auto simp: file_decision_def file_applies_def guard_simps fact_simps
          n [THEN established_No] split: if_splits)
  next
    case False
    note m = t [OF False, THEN conjunct1] t [OF False, THEN conjunct2, THEN conjunct1]
      t [OF False, THEN conjunct2, THEN conjunct2]
    show ?thesis
      using assms(2) False
      by (auto simp: file_decision_def file_applies_def guard_simps fact_simps would_write_No_both
          n [THEN established_No] m [THEN established_No] split: if_splits)
  qed
qed

lemma file_decision_none:
  assumes "established f" and "file_decision f = None" and "file_applies (ff_state f) e"
  shows "file_guard e f \<noteq> Allow"
proof
  assume g: "file_guard e f = Allow"
  from assms(1,2) have "on_disk f = No \<or> ff_state f \<noteq> F_Untracked \<and> parses f = Yes \<and>
      store_empty_of_declared f = No \<and>
      (disk_changed f = Yes \<and> kb_changed f = No \<and> imports_ok f = No \<or>
       disk_changed f = No \<and> kb_changed f = Yes \<and> exports_ok f = No)"
    by (auto simp: file_decision_def established_def established_No split: if_splits)
  with g assms(3) show False
    by (cases e) (auto simp: guard_simps fact_simps file_applies_def)
qed

text \<open>
  C31. When everything a pass asks is answered, the ten guards together are the decision tree:
  an absent file is left alone, bytes that do not parse are quarantined, a store that lost a
  file's items is refilled from it or else blocks the write, and otherwise the two sides'
  changes, the mount's direction and its conflict policy decide. The journal's answer is that
  conclusion's move, and nothing exactly when the tree concludes nothing.
\<close>

theorem file_observe_decision:
  assumes "established f"
  shows "observe f =
     (case file_decision f of
        None \<Rightarrow> Rec_Settled
      | Some e \<Rightarrow> Rec_Fired (Moved (ff_state f) e (file_dest e) (file_plan e f)))"
proof (cases "file_decision f")
  case None
  with file_decision_none [OF assms] show ?thesis
    by (simp add: file_settled_iff)
next
  case (Some e)
  have "base_known f"
    using assms by (simp add: established_def base_known_def)
  with file_fires file_decision_fires [OF assms Some] Some show ?thesis
    by simp
qed

theorem file_observe_decision_witness:
  "observe \<lparr>ff_state = F_Conflicted, on_disk = Yes, parses = Yes, disk_changed = Yes, kb_changed = Yes,
      disjoint_edits = No, store_empty_of_declared = No, items_still_bound = Yes,
      would_drop_items = Yes, imports_ok = Yes, exports_ok = Yes, ff_policy = P_KbWins\<rparr> =
   Rec_Fired (Moved F_Conflicted FE_WriteBlocked F_Blocked
      [Flag ''writing would remove item lines this file declares''])"
  using file_observe_decision
    [of "\<lparr>ff_state = F_Conflicted, on_disk = Yes, parses = Yes, disk_changed = Yes, kb_changed = Yes,
      disjoint_edits = No, store_empty_of_declared = No, items_still_bound = Yes,
      would_drop_items = Yes, imports_ok = Yes, exports_ok = Yes, ff_policy = P_KbWins\<rparr>"]
  by (simp add: established_def file_decision_def flag_blocked_def)

text \<open>
  The journal column is written and read back without loss. Every state is recovered from
  its stored spelling and whether bytes were stashed; and the status the engine asks for by
  naming its conclusion is defined exactly on the declared pairs, where it is the spelling of
  the state the machine moves to.
\<close>

theorem journal_roundtrip:
  "from_journal (stored s) (s = F_Quarantined) = s \<and>
   status_for s e =
     (if file_applies s e then Inr (the (stored (file_dest e)))
      else Inl (''the sync journal has no `'' @ file_event_name e @ ''` transition out of `'' @
        file_state_name s @ ''` '' @ emdash @
        '' a reconcile arm reached a conclusion the machine does not declare'')) \<and>
   (observe f = Rec_Fired (Moved s e to fx) \<longrightarrow> status_for s e = Inr (the (stored to)))"
proof -
  have st: "stored (file_dest e) \<noteq> None" by (cases e) simp_all
  then have sf: "status_for s e =
     (if file_applies s e then Inr (the (stored (file_dest e)))
      else Inl (''the sync journal has no `'' @ file_event_name e @ ''` transition out of `'' @
        file_state_name s @ ''` '' @ emdash @
        '' a reconcile arm reached a conclusion the machine does not declare''))"
    by (auto simp: status_for_def file_accepts file_not_accepts)
  moreover have "from_journal (stored s) (s = F_Quarantined) = s"
    by (cases s) (simp_all add: from_journal_def)
  moreover have "status_for s e = Inr (the (stored to))" if "observe f = Rec_Fired (Moved s e to fx)"
    using that sf by (auto elim!: file_firedD)
  ultimately show ?thesis by blast
qed

theorem journal_roundtrip_witness:
  "status_for F_Quarantined FE_ParseFailed = Inr ''needs_attention'' \<and>
   from_journal (Some ''needs_attention'') True = F_Quarantined"
proof -
  have "observe (file_facts_default\<lparr>ff_state := F_Quarantined, on_disk := Yes, parses := No\<rparr>) =
     Rec_Fired (Moved F_Quarantined FE_ParseFailed F_Quarantined [Stash])"
    by code_simp
  with journal_roundtrip [of F_Quarantined FE_ParseFailed _ F_Quarantined] show ?thesis
    by (metis option.sel stored.simps(4))
qed

end
