(* ===== verification/Unit_Lifecycle.thy ===== *)
theory Unit_Lifecycle
  imports Fsm_Check Types_Enums
begin

text \<open>
  An investigation unit's resolution, \<open>crates/jkb-core/src/nstype/lifecycle.rs\<close>: one state
  set, two tables (\<open>BASE\<close> and \<open>DEBUGGING\<close>), the default fact gatherer \<open>base_facts\<close>, the
  \<open>debugging\<close> strategy's own gatherer (\<open>crates/jkb-core/src/nstype/debugging.rs\<close>) and the
  recomputation \<open>roll_up\<close> of \<open>crates/jkb-core/src/investigation.rs\<close> that runs a machine over
  every unit.

  The store is what those functions read: the typed edges in id order, each item's kind and
  resolution column, and the items tagged stale. The query that selects the units of a
  namespace is outside; \<open>roll_up\<close> takes the ids it yields.

  The lemmas show that the guards reproduce the priority refuted, superseded, stale,
  confirmed, whatever the order of the rows, and that a recomputation is idempotent.
\<close>

section \<open>Events, facts, guards\<close>

datatype unit_event = U_Refuted | U_Superseded | U_Confirmed | U_WentStale | U_Stated

definition unit_event_ALL :: "unit_event list" where
  "unit_event_ALL = [U_Refuted, U_Superseded, U_Confirmed, U_WentStale, U_Stated]"

fun unit_event_name :: "unit_event \<Rightarrow> string" where
  "unit_event_name U_Refuted = ''refuted''"
| "unit_event_name U_Superseded = ''superseded''"
| "unit_event_name U_Confirmed = ''confirmed''"
| "unit_event_name U_WentStale = ''went_stale''"
| "unit_event_name U_Stated = ''stated''"

fun unit_event_kind :: "unit_event \<Rightarrow> event_kind" where
  "unit_event_kind U_Stated = Applied"
| "unit_event_kind _ = Reconciled"

definition unit_event_trait :: "unit_event event_trait" where
  "unit_event_trait =
     \<lparr>ev_all = unit_event_ALL, ev_name = unit_event_name, ev_kind = unit_event_kind\<rparr>"

datatype unit_effect = SetResolution resolution

record unit_facts =
  uf_resolution :: resolution
  uf_refuted :: fact
  uf_superseded :: fact
  uf_confirmed :: fact
  uf_stale :: fact
  uf_stated :: "resolution option"

definition unit_domain :: "(resolution, unit_event, unit_facts) fsm_domain" where
  "unit_domain =
     \<lparr>dom_states = resolution_state, dom_events = unit_event_trait, dom_state_of = uf_resolution\<rparr>"

definition unit_refuted :: "unit_facts \<Rightarrow> unit_event verdict" where
  "unit_refuted f = require_yes (uf_refuted f) (denial_new ''nothing refutes it.'')"

definition unit_superseded :: "unit_facts \<Rightarrow> unit_event verdict" where
  "unit_superseded f = all_of
     [require_yes (uf_superseded f) (denial_new ''nothing replaces it.''),
      require_no (uf_refuted f) (denial_new
        (''it is refuted, and a refutation outranks a replacement '' @ emdash @
         '' unlink the refuting edge if the refutation no longer stands.''))]"

definition unit_confirmed :: "unit_facts \<Rightarrow> unit_event verdict" where
  "unit_confirmed f = all_of
     [require_yes (uf_confirmed f) (denial_new ''nothing confirms it.''),
      require_no (uf_refuted f) (denial_new
        (''it is refuted, and a refutation outranks a confirmation '' @ emdash @
         '' unlink the refuting edge if the refutation no longer stands.'')),
      require_no (uf_superseded f) (denial_new
        (''it has been replaced, and the replacement is what to confirm '' @ emdash @
         '' confirm the unit that superseded it instead.'')),
      require_no (uf_stale f) (denial_new
        (''the evidence confirming it no longer describes today'' @ [CHR 0x27] @ ''s system.''))]"

definition went_stale :: "unit_facts \<Rightarrow> unit_event verdict" where
  "went_stale f = all_of
     [require_yes (uf_stale f) (denial_new ''the evidence that settled it still applies.''),
      require_no (uf_refuted f) (denial_new ''it is refuted.''),
      require_no (uf_superseded f) (denial_new ''it has been replaced.'')]"

definition unit_stated :: "unit_facts \<Rightarrow> resolution option" where
  "unit_stated f = uf_stated f"

definition set_derived :: "resolution \<Rightarrow> unit_effect list" where
  "set_derived to = [SetResolution to]"

definition unit_plan_refuted :: "unit_facts \<Rightarrow> unit_effect list" where
  "unit_plan_refuted f = set_derived R_DeadEnd"

definition unit_plan_superseded :: "unit_facts \<Rightarrow> unit_effect list" where
  "unit_plan_superseded f = set_derived R_Superseded"

definition unit_plan_confirmed :: "unit_facts \<Rightarrow> unit_effect list" where
  "unit_plan_confirmed f = set_derived R_Success"

definition unit_plan_stale :: "unit_facts \<Rightarrow> unit_effect list" where
  "unit_plan_stale f = set_derived R_Unresolved"

definition unit_plan_stated :: "unit_facts \<Rightarrow> unit_effect list" where
  "unit_plan_stated f = (case uf_stated f of Some r \<Rightarrow> set_derived r | None \<Rightarrow> [])"

section \<open>The two tables\<close>

type_synonym unit_row = "(resolution, unit_event, unit_facts, unit_effect) transition"

definition unit_rows ::
  "resolution list \<Rightarrow> unit_event \<Rightarrow> (resolution, unit_facts) dest
     \<Rightarrow> (unit_facts \<Rightarrow> unit_event verdict) \<Rightarrow> (unit_facts \<Rightarrow> unit_effect list) \<Rightarrow> unit_row list" where
  "unit_rows froms event to guard plan =
     map (\<lambda>fr. row fr event to (Some guard) (Some plan)) froms"

definition BASE_ROWS :: "unit_row list" where
  "BASE_ROWS =
     unit_rows [R_Unresolved, R_Success, R_Superseded, R_Abandoned] U_Refuted
       (To R_DeadEnd) unit_refuted unit_plan_refuted @
     unit_rows [R_Unresolved, R_Success, R_DeadEnd, R_Abandoned] U_Superseded
       (To R_Superseded) unit_superseded unit_plan_superseded @
     unit_rows [R_Unresolved, R_DeadEnd, R_Superseded, R_Abandoned] U_Confirmed
       (To R_Success) unit_confirmed unit_plan_confirmed @
     unit_rows [R_Unresolved, R_Success, R_DeadEnd, R_Superseded, R_Abandoned] U_Stated
       (Stated unit_stated resolution_ALL) (\<lambda>_. Allow) unit_plan_stated"

definition DEBUGGING_ROWS :: "unit_row list" where
  "DEBUGGING_ROWS =
     unit_rows [R_Unresolved, R_Success, R_Superseded, R_Abandoned] U_Refuted
       (To R_DeadEnd) unit_refuted unit_plan_refuted @
     unit_rows [R_Unresolved, R_Success, R_Abandoned] U_Superseded
       (To R_Superseded) unit_superseded unit_plan_superseded @
     unit_rows [R_Unresolved, R_Abandoned] U_Confirmed
       (To R_Success) unit_confirmed unit_plan_confirmed @
     unit_rows [R_Success] U_WentStale
       (To R_Unresolved) went_stale unit_plan_stale @
     unit_rows [R_Unresolved, R_Success, R_DeadEnd, R_Superseded, R_Abandoned] U_Stated
       (Stated unit_stated resolution_ALL) (\<lambda>_. Allow) unit_plan_stated"

type_synonym unit_machine = "(resolution, unit_event, unit_facts, unit_effect) machine"

definition BASE_MACHINE :: unit_machine where
  "BASE_MACHINE = \<lparr>transitions = BASE_ROWS, initial = R_Unresolved\<rparr>"

definition DEBUGGING_MACHINE :: unit_machine where
  "DEBUGGING_MACHINE = \<lparr>transitions = DEBUGGING_ROWS, initial = R_Unresolved\<rparr>"

fun deriving :: "resolution \<Rightarrow> unit_event" where
  "deriving R_DeadEnd = U_Refuted"
| "deriving R_Superseded = U_Superseded"
| "deriving R_Success = U_Confirmed"
| "deriving R_Unresolved = U_WentStale"
| "deriving R_Abandoned = U_Stated"

section \<open>Gathering the facts\<close>

type_synonym item_id = int

record inv_edge =
  e_src :: item_id
  e_type :: edge_type
  e_dst :: item_id

record inv_item =
  i_kind :: string
  i_resolution :: "string option"

record inv_store =
  inv_items :: "item_id \<Rightarrow> inv_item option"
  inv_edges :: "inv_edge list"
  inv_stale :: "item_id list"
  inv_log :: "(item_id \<times> string option \<times> string) list"

datatype inv_error = UnknownResolution item_id string | DesignItem item_id | ItemNotFound item_id
| AmbiguousEvidence item_id "unit_event list"

definition get_resolution :: "inv_store \<Rightarrow> item_id \<Rightarrow> (inv_error, resolution option) result" where
  "get_resolution st item =
     (case inv_items st item of
        None \<Rightarrow> Inr None
      | Some i \<Rightarrow>
          (let txt = (case i_resolution i of Some s \<Rightarrow> s | None \<Rightarrow> []) in
           case resolution_from_str_opt txt of
             Some r \<Rightarrow> Inr (Some r)
           | None \<Rightarrow> Inl (UnknownResolution item txt)))"

definition incoming :: "inv_store \<Rightarrow> item_id \<Rightarrow> edge_type list \<Rightarrow> fact" where
  "incoming st node types =
     fact_from (list_ex (\<lambda>e. e_dst e = node \<and> e_type e \<in> set types) (inv_edges st))"

definition base_facts :: "inv_store \<Rightarrow> item_id \<Rightarrow> (inv_error, unit_facts) result" where
  "base_facts st node =
     result_bind (get_resolution st node) (\<lambda>r. Inr
       \<lparr>uf_resolution = (case r of Some x \<Rightarrow> x | None \<Rightarrow> R_Unresolved),
        uf_refuted = incoming st node [E_Refutes, E_RulesOut],
        uf_superseded = incoming st node [E_Supersedes],
        uf_confirmed = incoming st node [E_Confirms, E_Verifies],
        uf_stale = No, uf_stated = None\<rparr>)"

text \<open>\<open>edge::walk\<close> one hop inwards: each source once, in edge order, never the start.\<close>

fun walk_in_from :: "item_id list \<Rightarrow> item_id \<Rightarrow> edge_type \<Rightarrow> inv_edge list \<Rightarrow> item_id list" where
  "walk_in_from seen node ty [] = []"
| "walk_in_from seen node ty (e # es) =
     (if e_dst e = node \<and> e_type e = ty \<and> e_src e \<notin> set seen
      then e_src e # walk_in_from (e_src e # seen) node ty es
      else walk_in_from seen node ty es)"

definition walk_in :: "inv_store \<Rightarrow> item_id \<Rightarrow> edge_type \<Rightarrow> item_id list" where
  "walk_in st node ty = walk_in_from [node] node ty (inv_edges st)"

definition is_stale :: "inv_store \<Rightarrow> item_id \<Rightarrow> bool" where
  "is_stale st node \<longleftrightarrow> node \<in> set (inv_stale st)"

definition kind_of :: "inv_store \<Rightarrow> item_id \<Rightarrow> string option" where
  "kind_of st node = map_option i_kind (inv_items st node)"

definition is_verified :: "inv_store \<Rightarrow> item_id \<Rightarrow> bool" where
  "is_verified st fix_item = list_ex (\<lambda>v. \<not> is_stale st v) (walk_in st fix_item E_Verifies)"

definition has_verified_fix :: "inv_store \<Rightarrow> item_id \<Rightarrow> bool" where
  "has_verified_fix st symptom =
     list_ex (\<lambda>candidate. list_ex (is_verified st) (walk_in st candidate E_Fixes))
       (symptom # walk_in st symptom E_Answers)"

definition debugging_facts :: "inv_store \<Rightarrow> item_id \<Rightarrow> (inv_error, unit_facts) result" where
  "debugging_facts st node =
     result_bind (base_facts st node) (\<lambda>facts. Inr
       (if kind_of st node = Some ''symptom''
        then (let fixed = has_verified_fix st node in
              facts\<lparr>uf_confirmed := fact_from fixed, uf_stale := fact_from (\<not> fixed)\<rparr>)
        else facts\<lparr>uf_stale := fact_from (is_stale st node)\<rparr>))"

section \<open>The recomputation\<close>

definition write_resolution ::
  "inv_store \<Rightarrow> item_id \<Rightarrow> resolution \<Rightarrow> (inv_error, inv_store) result" where
  "write_resolution st item r =
     (case inv_items st item of
        None \<Rightarrow> Inl (ItemNotFound item)
      | Some i \<Rightarrow> Inr (st\<lparr>inv_items := (inv_items st)(item \<mapsto> i\<lparr>i_resolution := Some (resolution_as_str r)\<rparr>),
                        inv_log := inv_log st @ [(item, i_resolution i, resolution_as_str r)]\<rparr>))"

definition set_resolution ::
  "inv_store \<Rightarrow> item_id \<Rightarrow> resolution \<Rightarrow> (inv_error, inv_store) result" where
  "set_resolution st item r =
     (if kind_of st item = Some ''design'' then Inl (DesignItem item) else write_resolution st item r)"

fun apply_unit_effects ::
  "inv_store \<Rightarrow> item_id \<Rightarrow> resolution \<Rightarrow> unit_effect list
     \<Rightarrow> (inv_error, inv_store \<times> (item_id \<times> resolution \<times> resolution) list) result" where
  "apply_unit_effects st i current [] = Inr (st, [])"
| "apply_unit_effects st i current (SetResolution to # fx) =
     result_bind (set_resolution st i to) (\<lambda>st1.
     result_bind (apply_unit_effects st1 i current fx) (\<lambda>(st2, ch).
       Inr (st2, (i, current, to) # ch)))"

definition roll_up_unit ::
  "unit_machine \<Rightarrow> (inv_store \<Rightarrow> item_id \<Rightarrow> (inv_error, unit_facts) result) \<Rightarrow> inv_store \<Rightarrow> item_id
     \<Rightarrow> (inv_error, inv_store \<times> (item_id \<times> resolution \<times> resolution) list) result" where
  "roll_up_unit M gather st i =
     result_bind (gather st i) (\<lambda>facts.
       (case machine_reconcile unit_domain M facts of
          Rec_Settled \<Rightarrow> Inr (st, [])
        | Rec_Ambiguous events \<Rightarrow> Inl (AmbiguousEvidence i events)
        | Rec_Fired out \<Rightarrow> apply_unit_effects st i (uf_resolution facts) (outcome_effects out)))"

fun roll_up ::
  "unit_machine \<Rightarrow> (inv_store \<Rightarrow> item_id \<Rightarrow> (inv_error, unit_facts) result) \<Rightarrow> inv_store
     \<Rightarrow> item_id list
     \<Rightarrow> (inv_error, inv_store \<times> (item_id \<times> resolution \<times> resolution) list) result" where
  "roll_up M gather st [] = Inr (st, [])"
| "roll_up M gather st (i # ids) =
     result_bind (roll_up_unit M gather st i) (\<lambda>(st1, ch1).
     result_bind (roll_up M gather st1 ids) (\<lambda>(st2, ch2).
       Inr (st2, ch1 @ ch2)))"

section \<open>The tables are sound\<close>

lemma unit_domain_simps [simp]:
  "dom_states unit_domain = resolution_state" "dom_events unit_domain = unit_event_trait"
  "dom_state_of unit_domain = uf_resolution"
  by (simp_all add: unit_domain_def)

lemma unit_trait_simps [simp]:
  "st_all resolution_state = resolution_ALL" "st_name resolution_state = resolution_as_str"
  "st_settled resolution_state = resolution_is_settled"
  "ev_all unit_event_trait = unit_event_ALL" "ev_name unit_event_trait = unit_event_name"
  "ev_kind unit_event_trait = unit_event_kind"
  by (simp_all add: resolution_state_def unit_event_trait_def)

lemma unit_machine_simps [simp]:
  "transitions BASE_MACHINE = BASE_ROWS" "transitions DEBUGGING_MACHINE = DEBUGGING_ROWS"
  by (simp_all add: BASE_MACHINE_def DEBUGGING_MACHINE_def)

lemmas unit_rows_defs = BASE_ROWS_def DEBUGGING_ROWS_def unit_rows_def

interpretation unit_event_enum: stored_enum unit_event_ALL unit_event_name
proof
  show "set unit_event_ALL = UNIV"
    by (rule UNIV_eq_I [symmetric]) (rename_tac x, case_tac x, simp_all add: unit_event_ALL_def)
qed (simp add: unit_event_ALL_def)

lemma base_check: "machine_check unit_domain BASE_MACHINE = [UnusedEvent U_WentStale]"
  by code_simp

lemma debugging_check: "machine_check unit_domain DEBUGGING_MACHINE = []"
  by code_simp

interpretation debugging: checked_machine unit_domain DEBUGGING_MACHINE
proof
  show "inj (state_name unit_domain)" "inj (event_name unit_domain)"
    by (simp_all add: resolution_enum.as_str_inj unit_event_enum.as_str_inj)
qed (simp_all add: resolution_enum.complete unit_event_enum.complete debugging_check)

interpretation base: det_machine unit_domain BASE_MACHINE
  by unfold_locales (simp add: deterministic_def unit_rows_defs row_key_def)

lemma unit_guards_Allow [guard_simps]:
  "unit_refuted f = Allow \<longleftrightarrow> uf_refuted f = Yes"
  "unit_superseded f = Allow \<longleftrightarrow> uf_refuted f = No \<and> uf_superseded f = Yes"
  "unit_confirmed f = Allow \<longleftrightarrow>
     uf_refuted f = No \<and> uf_superseded f = No \<and> uf_confirmed f = Yes \<and> uf_stale f = No"
  "went_stale f = Allow \<longleftrightarrow> uf_refuted f = No \<and> uf_superseded f = No \<and> uf_stale f = Yes"
  by (auto simp: unit_refuted_def unit_superseded_def unit_confirmed_def went_stale_def
      all_of_Allow require_yes_Allow require_no_Allow)

section \<open>What the guards conclude\<close>

text \<open>
  The priority written as a chain of questions, the form the guards replaced: refuted, then
  superseded, then confirmed on evidence that still applies. A question without an answer
  stops the chain.
\<close>

definition unit_conclusion :: "unit_facts \<Rightarrow> resolution option" where
  "unit_conclusion f =
     (if uf_refuted f = Yes then Some R_DeadEnd
      else if uf_refuted f = Unknown then None
      else if uf_superseded f = Yes then Some R_Superseded
      else if uf_superseded f = Unknown then None
      else if uf_confirmed f = Yes \<and> uf_stale f = No then Some R_Success
      else None)"

text \<open>In debugging, tombstones stand and a success on stale evidence is withdrawn.\<close>

definition debugging_conclusion :: "unit_facts \<Rightarrow> resolution option" where
  "debugging_conclusion f =
     (case uf_resolution f of
        R_DeadEnd \<Rightarrow> None
      | R_Superseded \<Rightarrow> if uf_refuted f = Yes then Some R_DeadEnd else None
      | R_Success \<Rightarrow>
          (if uf_stale f = Yes \<and> uf_refuted f = No \<and> uf_superseded f = No then Some R_Unresolved
           else unit_conclusion f)
      | _ \<Rightarrow> unit_conclusion f)"

definition unit_answer ::
  "unit_facts \<Rightarrow> resolution option \<Rightarrow> (resolution, unit_event, unit_effect) reconciliation" where
  "unit_answer f c =
     (case c of
        Some to \<Rightarrow>
          (if to = uf_resolution f then Rec_Settled
           else Rec_Fired (Moved (uf_resolution f) (deriving to) to [SetResolution to]))
      | None \<Rightarrow> Rec_Settled)"

lemma fact_cases3: "f \<noteq> Yes \<Longrightarrow> f \<noteq> Unknown \<Longrightarrow> f = No"
  by (cases f) simp_all

text \<open>The observations that may fire, by table: none of them is a self-loop.\<close>

definition unit_row_for :: "resolution \<Rightarrow> resolution \<Rightarrow> unit_row" where
  "unit_row_for fr to =
     row fr (deriving to) (To to)
       (Some (case to of R_DeadEnd \<Rightarrow> unit_refuted | R_Superseded \<Rightarrow> unit_superseded
          | R_Success \<Rightarrow> unit_confirmed | _ \<Rightarrow> went_stale))
       (Some (\<lambda>_. [SetResolution to]))"

lemma unit_plans:
  "unit_plan_refuted = (\<lambda>_. [SetResolution R_DeadEnd])"
  "unit_plan_superseded = (\<lambda>_. [SetResolution R_Superseded])"
  "unit_plan_confirmed = (\<lambda>_. [SetResolution R_Success])"
  "unit_plan_stale = (\<lambda>_. [SetResolution R_Unresolved])"
  by (rule ext, simp add: unit_plan_refuted_def unit_plan_superseded_def unit_plan_confirmed_def
      unit_plan_stale_def set_derived_def)+

lemma base_rec_lists:
  "rec_moves unit_domain BASE_MACHINE f =
     (case unit_conclusion f of
        Some to \<Rightarrow> if to = uf_resolution f then [] else [unit_row_for (uf_resolution f) to]
      | None \<Rightarrow> [])"
  "rec_loops unit_domain BASE_MACHINE f = []"
  by (cases "uf_resolution f"; cases "uf_refuted f"; cases "uf_superseded f";
      simp add: rec_moves_def rec_loops_def rec_allowed_def rec_candidate_def unit_rows_defs
        run_guard_def guard_simps unit_conclusion_def unit_row_for_def unit_plans)+

lemma debugging_rec_lists:
  "rec_moves unit_domain DEBUGGING_MACHINE f =
     (case debugging_conclusion f of
        Some to \<Rightarrow> if to = uf_resolution f then [] else [unit_row_for (uf_resolution f) to]
      | None \<Rightarrow> [])"
  "rec_loops unit_domain DEBUGGING_MACHINE f = []"
  by (cases "uf_resolution f"; cases "uf_refuted f"; cases "uf_superseded f";
      simp add: rec_moves_def rec_loops_def rec_allowed_def rec_candidate_def unit_rows_defs
        run_guard_def guard_simps unit_conclusion_def debugging_conclusion_def unit_row_for_def unit_plans)+

text \<open>A table whose only allowed observation is this row answers with its move.\<close>

lemma unit_answer_from_rows:
  assumes det: "deterministic M"
    and moves: "rec_moves unit_domain M f =
      (case c of Some to \<Rightarrow> if to = uf_resolution f then [] else [unit_row_for (uf_resolution f) to]
               | None \<Rightarrow> [])"
    and loops: "rec_loops unit_domain M f = []"
  shows "machine_reconcile unit_domain M f = unit_answer f c"
proof (cases "rec_moves unit_domain M f")
  case Nil
  with moves loops show ?thesis
    by (auto simp: reconcile_eq unit_answer_def split: option.splits if_splits)
next
  case (Cons t ts)
  with moves obtain to where to: "c = Some to" "to \<noteq> uf_resolution f" "t = unit_row_for (uf_resolution f) to" "ts = []"
    by (auto split: option.splits if_splits)
  have "t \<in> set (transitions M)" "rec_allowed unit_domain f t"
    using rec_moves_sub [of t unit_domain M f] Cons by simp_all
  with rec_allowed_applies [OF det] to have
    "machine_apply unit_domain M f (deriving to) =
       Moved (uf_resolution f) (deriving to) to [SetResolution to]"
    by (fastforce simp: unit_row_for_def run_plan_def)
  with Cons to loops show ?thesis
    by (simp add: reconcile_eq unit_answer_def unit_row_for_def)
qed

lemma base_reconcile: "machine_reconcile unit_domain BASE_MACHINE f = unit_answer f (unit_conclusion f)"
  by (rule unit_answer_from_rows [OF base.is_deterministic base_rec_lists])

lemma debugging_reconcile:
  "machine_reconcile unit_domain DEBUGGING_MACHINE f = unit_answer f (debugging_conclusion f)"
  by (rule unit_answer_from_rows [OF debugging.is_deterministic debugging_rec_lists])

section \<open>Recomputing is idempotent\<close>

text \<open>
  What a strategy promises \<open>roll_up\<close>: the facts of a unit depend on no other unit's
  resolution, writing a unit's own resolution changes that one fact and no other, and a
  conclusion once written is not revised by the same evidence.
\<close>

locale unit_strategy =
  fixes M :: unit_machine and gather :: "inv_store \<Rightarrow> item_id \<Rightarrow> (inv_error, unit_facts) result"
  assumes gather_other:
      "write_resolution st i r = Inr st' \<Longrightarrow> j \<noteq> i \<Longrightarrow> gather st' j = gather st j"
    and gather_own:
      "write_resolution st i r = Inr st' \<Longrightarrow> gather st i = Inr f \<Longrightarrow>
         gather st' i = Inr (f\<lparr>uf_resolution := r\<rparr>)"
    and concludes_once:
      "machine_reconcile unit_domain M f = Rec_Fired out \<Longrightarrow>
         \<exists>to. outcome_effects out = [SetResolution to] \<and>
              machine_reconcile unit_domain M (f\<lparr>uf_resolution := to\<rparr>) = Rec_Settled"
begin

definition settled_at :: "inv_store \<Rightarrow> item_id \<Rightarrow> bool" where
  "settled_at st i \<longleftrightarrow> (\<exists>f. gather st i = Inr f \<and> machine_reconcile unit_domain M f = Rec_Settled)"

lemma unit_step:
  assumes "roll_up_unit M gather st i = Inr (st', ch)"
  shows "(settled_at st i \<and> st' = st \<and> ch = []) \<or>
         (\<exists>to. write_resolution st i to = Inr st' \<and> settled_at st' i)"
proof -
  from assms obtain f where f: "gather st i = Inr f"
    by (auto simp: roll_up_unit_def result_bind_Inr)
  show ?thesis
  proof (cases "machine_reconcile unit_domain M f")
    case Rec_Settled
    with assms f show ?thesis by (auto simp: roll_up_unit_def settled_at_def)
  next
    case (Rec_Fired out)
    then obtain to where to: "outcome_effects out = [SetResolution to]"
      and fin: "machine_reconcile unit_domain M (f\<lparr>uf_resolution := to\<rparr>) = Rec_Settled"
      using concludes_once by blast
    from assms f Rec_Fired to have w: "write_resolution st i to = Inr st'"
      by (auto simp: roll_up_unit_def result_bind_Inr set_resolution_def split: if_splits)
    from gather_own [OF w f] fin w show ?thesis by (auto simp: settled_at_def)
  next
    case (Rec_Ambiguous es)
    with assms f show ?thesis by (simp add: roll_up_unit_def)
  qed
qed

lemma step_keeps_settled:
  assumes "roll_up_unit M gather st i = Inr (st', ch)" and "settled_at st j"
  shows "settled_at st' j"
  using unit_step [OF assms(1)] assms(2) gather_other [of st i _ st' j]
  by (cases "j = i") (auto simp: settled_at_def)

lemma roll_up_keeps_settled:
  "roll_up M gather st ids = Inr (st', ch) \<Longrightarrow> settled_at st j \<Longrightarrow> settled_at st' j"
proof (induction ids arbitrary: st ch)
  case Nil
  then show ?case by simp
next
  case (Cons i ids)
  from Cons.prems(1) obtain st1 ch1 ch2 where s: "roll_up_unit M gather st i = Inr (st1, ch1)"
      "roll_up M gather st1 ids = Inr (st', ch2)"
    by (auto simp: result_bind_Inr)
  from Cons.IH [OF s(2)] step_keeps_settled [OF s(1) Cons.prems(2)] show ?case by blast
qed

lemma roll_up_settles:
  "roll_up M gather st ids = Inr (st', ch) \<Longrightarrow> j \<in> set ids \<Longrightarrow> settled_at st' j"
proof (induction ids arbitrary: st ch)
  case Nil
  then show ?case by simp
next
  case (Cons i ids)
  from Cons.prems(1) obtain st1 ch1 ch2 where s: "roll_up_unit M gather st i = Inr (st1, ch1)"
      "roll_up M gather st1 ids = Inr (st', ch2)"
    by (auto simp: result_bind_Inr)
  have "settled_at st1 i" using unit_step [OF s(1)] by auto
  with Cons.IH [OF s(2)] roll_up_keeps_settled [OF s(2)] Cons.prems(2) show ?case by auto
qed

lemma roll_up_settled: "\<forall>j \<in> set ids. settled_at st j \<Longrightarrow> roll_up M gather st ids = Inr (st, [])"
  by (induction ids) (auto simp: settled_at_def roll_up_unit_def)

lemma roll_up_again:
  "roll_up M gather st ids = Inr (st', ch) \<Longrightarrow> set ids' \<subseteq> set ids \<Longrightarrow>
     roll_up M gather st' ids' = Inr (st', [])"
  by (rule roll_up_settled) (auto dest: roll_up_settles)

end

lemma resolution_as_str_ne [simp]: "resolution_as_str r \<noteq> []"
  by (cases r) simp_all

lemma write_resolution_keeps:
  assumes "write_resolution st i r = Inr st'"
  shows "inv_edges st' = inv_edges st" "inv_stale st' = inv_stale st"
    "map_option i_kind (inv_items st' j) = map_option i_kind (inv_items st j)"
    "j \<noteq> i \<Longrightarrow> inv_items st' j = inv_items st j"
    "get_resolution st' i = Inr (Some r)"
  using assms
  by (auto simp: write_resolution_def get_resolution_def resolution_from_str_opt_def
      resolution_from_db_str_def resolution_enum.from_as_str split: option.splits)

lemma write_keeps_reads:
  assumes "write_resolution st i r = Inr st'"
  shows "incoming st' = incoming st" "walk_in st' = walk_in st" "is_stale st' = is_stale st"
    "kind_of st' = kind_of st" "is_verified st' = is_verified st" "has_verified_fix st' = has_verified_fix st"
proof -
  note k = write_resolution_keeps [OF assms]
  show i: "incoming st' = incoming st" by (intro ext) (simp add: incoming_def k(1))
  show w: "walk_in st' = walk_in st" by (intro ext) (simp add: walk_in_def k(1))
  show s: "is_stale st' = is_stale st" by (intro ext) (simp add: is_stale_def k(2))
  show "kind_of st' = kind_of st" by (intro ext) (simp add: kind_of_def k(3))
  show v: "is_verified st' = is_verified st" by (intro ext) (simp add: is_verified_def w s)
  show "has_verified_fix st' = has_verified_fix st" by (intro ext) (simp add: has_verified_fix_def w v)
qed

lemma base_facts_after_write:
  assumes "write_resolution st i r = Inr st'"
  shows "j \<noteq> i \<Longrightarrow> base_facts st' j = base_facts st j"
    "base_facts st i = Inr f \<Longrightarrow> base_facts st' i = Inr (f\<lparr>uf_resolution := r\<rparr>)"
  using write_resolution_keeps(4,5) [OF assms] write_keeps_reads [OF assms]
  by (auto simp: base_facts_def get_resolution_def result_bind_Inr)

lemma unit_conclusion_resolution [simp]: "unit_conclusion (f\<lparr>uf_resolution := r\<rparr>) = unit_conclusion f"
  by (simp add: unit_conclusion_def)

interpretation base_strategy: unit_strategy BASE_MACHINE base_facts
proof
  fix f out
  assume "machine_reconcile unit_domain BASE_MACHINE f = Rec_Fired out"
  then obtain to where "unit_conclusion f = Some to" "outcome_effects out = [SetResolution to]"
    by (auto simp: base_reconcile unit_answer_def split: option.splits if_splits)
  then show "\<exists>to. outcome_effects out = [SetResolution to] \<and>
     machine_reconcile unit_domain BASE_MACHINE (f\<lparr>uf_resolution := to\<rparr>) = Rec_Settled"
    by (simp add: base_reconcile unit_answer_def)
qed (simp_all add: base_facts_after_write)

lemma debugging_concludes_once:
  "debugging_conclusion f = Some to \<Longrightarrow>
     debugging_conclusion (f\<lparr>uf_resolution := to\<rparr>) \<in> {None, Some to}"
  by (cases "uf_resolution f"; cases "uf_refuted f"; cases "uf_superseded f"; cases "uf_stale f")
     (auto simp: debugging_conclusion_def unit_conclusion_def split: if_splits)

interpretation debugging_strategy: unit_strategy DEBUGGING_MACHINE debugging_facts
proof
  fix f out
  assume "machine_reconcile unit_domain DEBUGGING_MACHINE f = Rec_Fired out"
  then obtain to where to: "debugging_conclusion f = Some to" "outcome_effects out = [SetResolution to]"
    by (auto simp: debugging_reconcile unit_answer_def split: option.splits if_splits)
  from debugging_concludes_once [OF to(1)] to(2)
  show "\<exists>to. outcome_effects out = [SetResolution to] \<and>
     machine_reconcile unit_domain DEBUGGING_MACHINE (f\<lparr>uf_resolution := to\<rparr>) = Rec_Settled"
    by (auto simp: debugging_reconcile unit_answer_def)
next
  fix st i r st' f
  assume w: "write_resolution st i r = Inr st'" and g: "debugging_facts st i = Inr f"
  from g obtain f0 where f0: "base_facts st i = Inr f0"
    by (auto simp: debugging_facts_def result_bind_Inr)
  from g f0 base_facts_after_write(2) [OF w f0] write_keeps_reads [OF w]
  show "debugging_facts st' i = Inr (f\<lparr>uf_resolution := r\<rparr>)"
    by (auto simp: debugging_facts_def Let_def)
next
  fix st i r st' j
  assume w: "write_resolution st i r = Inr st'" and ne: "j \<noteq> (i :: item_id)"
  show "debugging_facts st' j = debugging_facts st j"
    by (simp only: debugging_facts_def base_facts_after_write(1) [OF w ne] write_keeps_reads [OF w])
qed

section \<open>What the investigation machines promise\<close>

text \<open>
  What an observation of a unit means. Whatever the order of the rows, the base machine
  gives the first answer of the chain refuted, superseded, confirmed, and the debugging
  machine the same except that a tombstone is not revived and a success on stale evidence
  goes back to unresolved. Neither ever finds two outcomes at once, a question without an
  answer concludes nothing, and the write is exactly the resolution concluded.
\<close>

theorem unit_machines_conclude:
  "machine_reconcile unit_domain BASE_MACHINE f = unit_answer f (unit_conclusion f) \<and>
   machine_reconcile unit_domain DEBUGGING_MACHINE f = unit_answer f (debugging_conclusion f)"
  by (simp add: base_reconcile debugging_reconcile)

text \<open>
  Recomputing an investigation is idempotent, for the base strategy and for debugging: once
  a run over its units has succeeded, running again over any of them changes nothing,
  reports nothing and cannot fail.
\<close>

theorem roll_up_idempotent:
  assumes "(M, gather) \<in> {(BASE_MACHINE, base_facts), (DEBUGGING_MACHINE, debugging_facts)}"
    and "roll_up M gather st ids = Inr (st', changed)" and "set ids' \<subseteq> set ids"
  shows "roll_up M gather st' ids' = Inr (st', [])"
  using assms base_strategy.roll_up_again debugging_strategy.roll_up_again by blast

definition sample_store :: inv_store where
  "sample_store =
     \<lparr>inv_items = [1 \<mapsto> \<lparr>i_kind = ''hypothesis'', i_resolution = None\<rparr>,
                   2 \<mapsto> \<lparr>i_kind = ''observation'', i_resolution = None\<rparr>],
      inv_edges = [\<lparr>e_src = 2, e_type = E_Refutes, e_dst = 1\<rparr>],
      inv_stale = [], inv_log = []\<rparr>"

definition sample_after :: inv_store where
  "sample_after = sample_store
     \<lparr>inv_items := (inv_items sample_store)(1 \<mapsto> \<lparr>i_kind = ''hypothesis'', i_resolution = Some ''dead_end''\<rparr>),
      inv_log := [(1, None, ''dead_end'')]\<rparr>"

theorem roll_up_idempotent_witness:
  "roll_up BASE_MACHINE base_facts sample_store [1, 2] = Inr (sample_after, [(1, R_Unresolved, R_DeadEnd)]) \<and>
   roll_up BASE_MACHINE base_facts sample_after [2, 1] = Inr (sample_after, [])"
proof -
  have "roll_up BASE_MACHINE base_facts sample_store [1, 2] = Inr (sample_after, [(1, R_Unresolved, R_DeadEnd)])"
    by (simp add: sample_store_def sample_after_def roll_up_unit_def base_facts_def get_resolution_def
        resolution_from_str_opt_def base_reconcile unit_answer_def unit_conclusion_def incoming_def
        fact_from_def set_resolution_def write_resolution_def kind_of_def)
  moreover from roll_up_idempotent [OF _ this, of "[2, 1]"]
  have "roll_up BASE_MACHINE base_facts sample_after [2, 1] = Inr (sample_after, [])"
    by simp
  ultimately show ?thesis by blast
qed

end
