(* ===== verification/Rbac_Core.thy ===== *)
theory Rbac_Core
  imports Jkb_Prelude
begin

text \<open>
  Role-based access control, \<open>crates/jkb-rbac/src/lib.rs\<close>. The traits \<open>Role\<close> and
  \<open>Permission\<close> are dictionaries (\<open>role_trait\<close>, \<open>perm_trait\<close>); the trait \<open>Grants\<close> has
  one required method, \<open>rows\<close>, so its provided methods are functions of the rows
  (\<open>permissions_of\<close>, \<open>permits\<close>, \<open>roles_for\<close>, \<open>grants_check\<close>, \<open>grants_matrix\<close>) and
  \<open>RoleTable\<close> and \<open>OwnedTable\<close> each give theirs. Authorizers are functions of a subject and
  an action.

  The lemmas show what an empty check means, that the runtime table obeys the laws of
  granting and revoking, and that the role-based decision allows exactly the subjects it
  should, naming in a refusal exactly the roles that would have been allowed.
\<close>

section \<open>Traits and tables\<close>

record 'r role_trait =
  role_all :: "'r list"
  role_name :: "'r \<Rightarrow> string"

record 'p perm_trait =
  perm_all :: "'p list"
  perm_name :: "'p \<Rightarrow> string"

definition role_parse :: "'r role_trait \<Rightarrow> string \<Rightarrow> 'r option" where
  "role_parse R name = parse_by_name (role_all R) (role_name R) name"

record ('r, 'p) grant_row =
  g_role :: 'r
  g_permits :: "'p list"

record ('r, 'p) role_table =
  rt_grants :: "('r, 'p) grant_row list"

datatype ('r, 'p) table_defect =
  DuplicateRole 'r
| UngrantedRole 'r
| UnheldPermission 'p
| RepeatedPermission 'r 'p

fun table_defect_display ::
  "'r role_trait \<Rightarrow> 'p perm_trait \<Rightarrow> ('r, 'p) table_defect \<Rightarrow> string" where
  "table_defect_display R P (DuplicateRole r) = ''role `'' @ role_name R r @ ''` has two rows''"
| "table_defect_display R P (UngrantedRole r) = ''role `'' @ role_name R r @ ''` has no row''"
| "table_defect_display R P (UnheldPermission p) = ''no role holds `'' @ perm_name P p @ ''`''"
| "table_defect_display R P (RepeatedPermission r p) =
     ''role `'' @ role_name R r @ ''` lists `'' @ perm_name P p @ ''` twice''"

section \<open>The trait \<open>Grants\<close>\<close>

type_synonym ('r, 'p) rows = "('r \<times> 'p list) list"

definition permissions_of :: "('r, 'p) rows \<Rightarrow> 'r \<Rightarrow> 'p list" where
  "permissions_of rows role =
     (case List.find (\<lambda>(r, _). r = role) rows of Some (_, p) \<Rightarrow> p | None \<Rightarrow> [])"

definition permits :: "('r, 'p) rows \<Rightarrow> 'r \<Rightarrow> 'p \<Rightarrow> bool" where
  "permits rows role permission \<longleftrightarrow> permission \<in> set (permissions_of rows role)"

text \<open>The filter of \<open>roles_for\<close>, with the set \<open>seen\<close> its closure updates.\<close>

fun roles_for_from :: "('r, 'p) rows \<Rightarrow> 'p \<Rightarrow> 'r list \<Rightarrow> 'r list \<Rightarrow> 'r list" where
  "roles_for_from rows permission seen [] = []"
| "roles_for_from rows permission seen (r # rs) =
     (if r \<in> set seen then roles_for_from rows permission seen rs
      else (if permits rows r permission then [r] else []) @
           roles_for_from rows permission (r # seen) rs)"

definition roles_for :: "('r, 'p) rows \<Rightarrow> 'p \<Rightarrow> 'r list" where
  "roles_for rows permission = roles_for_from rows permission [] (map fst rows)"

fun check_listed :: "'r \<Rightarrow> 'p list \<Rightarrow> 'p list \<Rightarrow> ('r, 'p) table_defect list" where
  "check_listed role listed [] = []"
| "check_listed role listed (p # ps) =
     (if p \<in> set listed then [RepeatedPermission role p] else []) @
     check_listed role (p # listed) ps"

fun check_grants :: "'r list \<Rightarrow> ('r, 'p) rows \<Rightarrow> ('r, 'p) table_defect list" where
  "check_grants seen [] = []"
| "check_grants seen ((role, ps) # rows) =
     (if role \<in> set seen then [DuplicateRole role] else []) @
     check_listed role [] ps @
     check_grants (role # seen) rows"

definition grants_check ::
  "'r role_trait \<Rightarrow> 'p perm_trait \<Rightarrow> ('r, 'p) rows \<Rightarrow> ('r, 'p) table_defect list" where
  "grants_check R P rows =
     check_grants [] rows @
     map UngrantedRole (filter (\<lambda>r. r \<notin> set (map fst rows)) (role_all R)) @
     map UnheldPermission (filter (\<lambda>p. roles_for rows p = []) (perm_all P))"

definition grants_matrix ::
  "'r role_trait \<Rightarrow> 'p perm_trait \<Rightarrow> ('r, 'p) rows \<Rightarrow> string" where
  "grants_matrix R P rows =
     ''| permission |'' @
     concat (map (\<lambda>r. '' '' @ role_name R r @ '' |'') (role_all R)) @
     [CHR 0x0A] @ ''|---|'' @
     concat (map (\<lambda>_. ''---|'') (role_all R)) @
     concat (map (\<lambda>p. [CHR 0x0A] @ ''| '' @ perm_name P p @ '' |'' @
         concat (map (\<lambda>r. if permits rows r p then '' '' @ checkmark @ '' |'' else ''   |'')
           (role_all R))) (perm_all P)) @
     [CHR 0x0A]"

definition role_table_rows :: "('r, 'p) role_table \<Rightarrow> ('r, 'p) rows" where
  "role_table_rows T = map (\<lambda>g. (g_role g, g_permits g)) (rt_grants T)"

section \<open>The table built at runtime\<close>

record ('r, 'p) owned_table =
  ot_rows :: "('r, 'p) rows"

definition from_table :: "('r, 'p) rows \<Rightarrow> ('r, 'p) owned_table" where
  "from_table base = \<lparr>ot_rows = base\<rparr>"

fun grant_rows :: "('r, 'p) rows \<Rightarrow> 'r \<Rightarrow> 'p \<Rightarrow> ('r, 'p) rows" where
  "grant_rows [] role permission = [(role, [permission])]"
| "grant_rows ((r, ps) # rows) role permission =
     (if r = role
      then (r, if permission \<in> set ps then ps else ps @ [permission]) # rows
      else (r, ps) # grant_rows rows role permission)"

definition grant :: "('r, 'p) owned_table \<Rightarrow> 'r \<Rightarrow> 'p \<Rightarrow> ('r, 'p) owned_table" where
  "grant T role permission = T\<lparr>ot_rows := grant_rows (ot_rows T) role permission\<rparr>"

fun revoke_rows :: "('r, 'p) rows \<Rightarrow> 'r \<Rightarrow> 'p \<Rightarrow> ('r, 'p) rows" where
  "revoke_rows [] role permission = []"
| "revoke_rows ((r, ps) # rows) role permission =
     (if r = role then (r, filter (\<lambda>p. p \<noteq> permission) ps) # rows
      else (r, ps) # revoke_rows rows role permission)"

definition revoke :: "('r, 'p) owned_table \<Rightarrow> 'r \<Rightarrow> 'p \<Rightarrow> ('r, 'p) owned_table" where
  "revoke T role permission = T\<lparr>ot_rows := revoke_rows (ot_rows T) role permission\<rparr>"

section \<open>Decisions and authorizers\<close>

datatype 'p requirement = Anyone | Permission 'p | Nobody string

record refusal =
  rf_reason :: string
  rf_allowed_roles :: "string list"

definition refusal_display :: "refusal \<Rightarrow> string" where
  "refusal_display f =
     rf_reason f @
     (if rf_allowed_roles f \<noteq> [] then '' (allowed: '' @ join '', '' (rf_allowed_roles f) @ '')'' else [])"

datatype decision = D_Allow | D_Deny refusal

definition decision_deny :: "string \<Rightarrow> decision" where
  "decision_deny reason = D_Deny \<lparr>rf_reason = reason, rf_allowed_roles = []\<rparr>"

definition is_allowed :: "decision \<Rightarrow> bool" where
  "is_allowed d = (case d of D_Allow \<Rightarrow> True | D_Deny _ \<Rightarrow> False)"

fun into_result :: "decision \<Rightarrow> (refusal, unit) result" where
  "into_result D_Allow = Inr ()"
| "into_result (D_Deny r) = Inl r"

type_synonym ('s, 'a) authorizer = "'s \<Rightarrow> 'a \<Rightarrow> decision"

definition allow_all :: "('s, 'a) authorizer" where
  "allow_all subject action = D_Allow"

definition both :: "('s, 'a) authorizer \<Rightarrow> ('s, 'a) authorizer \<Rightarrow> ('s, 'a) authorizer" where
  "both x y subject action =
     (case x subject action of D_Allow \<Rightarrow> y subject action | D_Deny r \<Rightarrow> D_Deny r)"

definition fn_authorizer :: "('s \<Rightarrow> 'a \<Rightarrow> decision) \<Rightarrow> ('s, 'a) authorizer" where
  "fn_authorizer f subject action = f subject action"

definition decide ::
  "'r role_trait \<Rightarrow> 'p perm_trait \<Rightarrow> ('r, 'p) rows \<Rightarrow> 'r list \<Rightarrow> 'p requirement \<Rightarrow> decision" where
  "decide R P rows roles requirement =
     (case requirement of
        Anyone \<Rightarrow> D_Allow
      | Nobody why \<Rightarrow> decision_deny why
      | Permission p \<Rightarrow>
          (if list_ex (\<lambda>r. permits rows r p) roles then D_Allow
           else
             let held = map (role_name R) roles in
             D_Deny \<lparr>
               rf_reason = ''`'' @ perm_name P p @
                 ''` needs a role that holds it, and this caller holds '' @
                 (if held = [] then ''no role'' else join '', '' held),
               rf_allowed_roles = map (role_name R) (roles_for rows p)\<rparr>))"

text \<open>\<open>Principal::roles\<close> and \<open>Guarded::requirement\<close> are the two functions it is given.\<close>

definition role_based ::
  "'r role_trait \<Rightarrow> 'p perm_trait \<Rightarrow> ('r, 'p) rows \<Rightarrow> ('s \<Rightarrow> 'r list) \<Rightarrow> ('a \<Rightarrow> 'p requirement)
     \<Rightarrow> ('s, 'a) authorizer" where
  "role_based R P rows roles requirement subject action =
     decide R P rows (roles subject) (requirement action)"

section \<open>Reading a table\<close>

lemma permissions_of_simps [simp]:
  "permissions_of [] role = []"
  "permissions_of ((r, ps) # rows) role = (if r = role then ps else permissions_of rows role)"
  by (simp_all add: permissions_of_def)

lemma permits_simps [simp]:
  "\<not> permits [] role p"
  "permits ((r, ps) # rows) role p = (if r = role then p \<in> set ps else permits rows role p)"
  by (simp_all add: permits_def)

lemma permits_has_row: "permits rows r p \<Longrightarrow> r \<in> fst ` set rows"
  by (induction rows) (auto split: if_splits)

lemma roles_for_from_set:
  "set (roles_for_from rows p seen rs) = {r \<in> set rs. r \<notin> set seen \<and> permits rows r p}"
  by (induction rs arbitrary: seen) auto

lemma roles_for_set: "set (roles_for rows p) = {r. permits rows r p}"
  by (auto simp: roles_for_def roles_for_from_set dest: permits_has_row)

lemma roles_for_from_distinct: "distinct (roles_for_from rows p seen rs)"
  by (induction rs arbitrary: seen) (auto simp: roles_for_from_set)

lemma roles_for_distinct: "distinct (roles_for rows p)"
  by (simp add: roles_for_def roles_for_from_distinct)

lemma check_listed_Nil: "check_listed role listed ps = [] \<longleftrightarrow> distinct ps \<and> set ps \<inter> set listed = {}"
  by (induction ps arbitrary: listed) auto

lemma check_grants_Nil:
  "check_grants seen rows = [] \<longleftrightarrow>
     distinct (map fst rows) \<and> fst ` set rows \<inter> set seen = {} \<and> (\<forall>(r, ps) \<in> set rows. distinct ps)"
  by (induction seen rows rule: check_grants.induct) (auto simp: check_listed_Nil)

lemma grants_check_Nil:
  "grants_check R P rows = [] \<longleftrightarrow>
     distinct (map fst rows) \<and> (\<forall>(r, ps) \<in> set rows. distinct ps) \<and>
     set (role_all R) \<subseteq> fst ` set rows \<and>
     (\<forall>p \<in> set (perm_all P). \<exists>r. permits rows r p)"
proof -
  have "roles_for rows p = [] \<longleftrightarrow> (\<nexists>r. permits rows r p)" for p
    using roles_for_set [of rows p] by (metis (mono_tags) empty_iff mem_Collect_eq set_empty2 subsetI subset_empty)
  then show ?thesis
    by (auto simp: grants_check_def check_grants_Nil filter_empty_conv)
qed

section \<open>Granting and revoking\<close>

text \<open>
  What a strategy that assembles a table relies on: granting adds one pair, revoking removes
  one pair, and nothing else is touched.
\<close>

locale permission_table =
  fixes holds :: "'t \<Rightarrow> 'r \<Rightarrow> 'p \<Rightarrow> bool"
    and add :: "'t \<Rightarrow> 'r \<Rightarrow> 'p \<Rightarrow> 't"
    and del :: "'t \<Rightarrow> 'r \<Rightarrow> 'p \<Rightarrow> 't"
  assumes holds_add: "holds (add t r p) r' p' \<longleftrightarrow> holds t r' p' \<or> (r' = r \<and> p' = p)"
    and holds_del: "holds (del t r p) r' p' \<longleftrightarrow> holds t r' p' \<and> \<not> (r' = r \<and> p' = p)"
begin

lemma add_idem: "holds (add (add t r p) r p) = holds (add t r p)"
  by (intro ext) (auto simp: holds_add)

lemma add_commute: "holds (add (add t r p) r' p') = holds (add (add t r' p') r p)"
  by (intro ext) (auto simp: holds_add)

lemma del_add: "\<not> holds t r p \<Longrightarrow> holds (del (add t r p) r p) = holds t"
  by (intro ext) (auto simp: holds_add holds_del)

lemma add_del: "holds t r p \<Longrightarrow> holds (add (del t r p) r p) = holds t"
  by (intro ext) (auto simp: holds_add holds_del)

text \<open>A table grown by any list of grants holds its base and those grants, nothing more.\<close>

lemma holds_fold_add:
  "holds (fold (\<lambda>(r, p) t. add t r p) gs t) r' p' \<longleftrightarrow> holds t r' p' \<or> (r', p') \<in> set gs"
proof (induction gs arbitrary: t)
  case Nil
  then show ?case by simp
next
  case (Cons g gs)
  then show ?case
    by (cases g) (auto simp: holds_add)
qed

end

definition owned_permits :: "('r, 'p) owned_table \<Rightarrow> 'r \<Rightarrow> 'p \<Rightarrow> bool" where
  "owned_permits T = permits (ot_rows T)"

lemma permits_grant_rows:
  "permits (grant_rows rows r p) r' p' \<longleftrightarrow> permits rows r' p' \<or> (r' = r \<and> p' = p)"
  by (induction rows r p rule: grant_rows.induct) auto

lemma permits_revoke_rows:
  "permits (revoke_rows rows r p) r' p' \<longleftrightarrow> permits rows r' p' \<and> \<not> (r' = r \<and> p' = p)"
  by (induction rows r p rule: revoke_rows.induct) auto

interpretation owned: permission_table owned_permits grant revoke
  by unfold_locales
     (simp_all add: owned_permits_def grant_def revoke_def permits_grant_rows permits_revoke_rows)

text \<open>Granting keeps a table's rows one per role and its lists free of repeats.\<close>

lemma fst_grant_rows: "fst ` set (grant_rows rows r p) = insert r (fst ` set rows)"
  by (induction rows r p rule: grant_rows.induct) auto

lemma check_grants_grant_rows: "check_grants [] rows = [] \<Longrightarrow> check_grants [] (grant_rows rows r p) = []"
proof -
  have "distinct (map fst rows) \<and> (\<forall>(r, ps) \<in> set rows. distinct ps) \<Longrightarrow>
    distinct (map fst (grant_rows rows r p)) \<and> (\<forall>(r, ps) \<in> set (grant_rows rows r p). distinct ps)"
    by (induction rows r p rule: grant_rows.induct) (auto simp: fst_grant_rows)
  then show "check_grants [] rows = [] \<Longrightarrow> ?thesis"
    by (simp add: check_grants_Nil)
qed

lemma grants_check_grant:
  assumes "grants_check R P (ot_rows T) = []"
  shows "grants_check R P (ot_rows (grant T r p)) = []"
proof -
  have "check_grants [] (grant_rows (ot_rows T) r p) = []"
    using assms by (simp add: check_grants_grant_rows grants_check_def)
  then show ?thesis
    using assms
    by (auto simp: grants_check_Nil check_grants_Nil grant_def fst_grant_rows permits_grant_rows)
qed

section \<open>The role-based decision\<close>

lemma is_allowed_simps [simp]: "is_allowed D_Allow" "\<not> is_allowed (D_Deny r)" "\<not> is_allowed (decision_deny w)"
  by (simp_all add: is_allowed_def decision_deny_def)

lemma decide_allows:
  "is_allowed (decide R P rows roles requirement) \<longleftrightarrow>
     (case requirement of
        Anyone \<Rightarrow> True
      | Permission p \<Rightarrow> \<exists>r \<in> set roles. permits rows r p
      | Nobody _ \<Rightarrow> False)"
  by (auto simp: decide_def Let_def list_ex_iff split: requirement.splits)

lemma decide_refusal_roles:
  assumes "decide R P rows roles (Permission p) = D_Deny f"
  shows "set (rf_allowed_roles f) = role_name R ` {r. is_allowed (decide R P rows [r] (Permission p))}"
  using assms by (auto simp: decide_def Let_def roles_for_set split: if_splits)

lemma both_allows: "is_allowed (both x y s a) \<longleftrightarrow> is_allowed (x s a) \<and> is_allowed (y s a)"
  by (auto simp: both_def split: decision.splits)

section \<open>What the crate promises\<close>

text \<open>A till with two roles, as in the crate's own example.\<close>

definition till_roles :: "bool role_trait" where
  "till_roles = \<lparr>role_all = [False, True], role_name = (\<lambda>r. if r then ''manager'' else ''clerk'')\<rparr>"

definition till_perms :: "bool perm_trait" where
  "till_perms = \<lparr>perm_all = [False, True], perm_name = (\<lambda>p. if p then ''refund'' else ''sell'')\<rparr>"

definition till_rows :: "(bool, bool) rows" where
  "till_rows = [(False, [False]), (True, [False, True])]"

text \<open>
  The role-based decision. It allows exactly what it should: anything nobody needs a role
  for, nothing that is done elsewhere, and otherwise a subject one of whose roles holds the
  permission; and when it refuses a permission, the roles it names are exactly, and once each,
  those with which the request would have been allowed.
\<close>

theorem role_decision:
  "(is_allowed (decide R P rows roles req) \<longleftrightarrow>
      (case req of
         Anyone \<Rightarrow> True
       | Permission p \<Rightarrow> \<exists>r \<in> set roles. permits rows r p
       | Nobody _ \<Rightarrow> False)) \<and>
   (decide R P rows roles (Permission p) = D_Deny f \<longrightarrow>
      (\<exists>rs. rf_allowed_roles f = map (role_name R) rs \<and> distinct rs \<and>
         set rs = {r. is_allowed (decide R P rows [r] (Permission p))}))"
proof -
  have "\<exists>rs. rf_allowed_roles f = map (role_name R) rs \<and> distinct rs \<and>
         set rs = {r. is_allowed (decide R P rows [r] (Permission p))}"
    if "decide R P rows roles (Permission p) = D_Deny f"
    using that
    by (intro exI [of _ "roles_for rows p"])
       (auto simp: decide_def Let_def roles_for_set roles_for_distinct split: if_splits)
  then show ?thesis
    using decide_allows [of R P rows roles req] by blast
qed

theorem role_decision_witness:
  "decide till_roles till_perms till_rows [False] (Permission True) = D_Deny
     \<lparr>rf_reason = ''`refund` needs a role that holds it, and this caller holds clerk'',
      rf_allowed_roles = [''manager'']\<rparr> \<and>
   (\<exists>rs. [''manager''] = map (role_name till_roles) rs \<and> distinct rs \<and>
      set rs = {r. is_allowed (decide till_roles till_perms till_rows [r] (Permission True))})"
proof -
  have d: "decide till_roles till_perms till_rows [False] (Permission True) = D_Deny
     \<lparr>rf_reason = ''`refund` needs a role that holds it, and this caller holds clerk'',
      rf_allowed_roles = [''manager'']\<rparr>"
    by code_simp
  with role_decision [of till_roles till_perms till_rows "[False]" Anyone True
      "\<lparr>rf_reason = ''`refund` needs a role that holds it, and this caller holds clerk'',
        rf_allowed_roles = [''manager'']\<rparr>"]
  show ?thesis by simp
qed

text \<open>
  What an empty check of a role table means: exactly that each role has one row and no
  permission twice in it, every declared role has a row, and every declared permission is
  held by somebody. Granting a permission at runtime to a table that checks clean leaves
  it clean.
\<close>

theorem role_table_check:
  "(grants_check R P rows = [] \<longleftrightarrow>
      distinct (map fst rows) \<and> (\<forall>(r, ps) \<in> set rows. distinct ps) \<and>
      set (role_all R) \<subseteq> fst ` set rows \<and>
      (\<forall>p \<in> set (perm_all P). \<exists>r. permits rows r p)) \<and>
   (grants_check R P (ot_rows T) = [] \<longrightarrow> grants_check R P (ot_rows (grant T r p)) = [])"
  using grants_check_Nil [of R P rows] grants_check_grant [of R P T r p] by blast

theorem role_table_check_witness:
  "grants_check till_roles till_perms till_rows = [] \<and>
   grants_check till_roles till_perms (ot_rows (grant (from_table till_rows) False True)) = []"
proof -
  have c: "grants_check till_roles till_perms till_rows = []" by code_simp
  with role_table_check [of till_roles till_perms till_rows "from_table till_rows" False True]
  show ?thesis by (simp add: from_table_def)
qed

text \<open>
  The table built at runtime grants and revokes one pair at a time: after any sequence
  of grants a role holds what it held and what it was granted, nothing else; a revocation
  takes away exactly one pair; and revoking what was just granted restores the table's
  answers.
\<close>

theorem owned_table_laws:
  "(owned_permits (fold (\<lambda>(r, p) t. grant t r p) gs T) r' p' \<longleftrightarrow>
      owned_permits T r' p' \<or> (r', p') \<in> set gs) \<and>
   (owned_permits (revoke T r p) r' p' \<longleftrightarrow> owned_permits T r' p' \<and> \<not> (r' = r \<and> p' = p)) \<and>
   (\<not> owned_permits T r p \<longrightarrow> owned_permits (revoke (grant T r p) r p) = owned_permits T)"
  by (intro conjI impI owned.holds_fold_add owned.holds_del owned.del_add)

theorem owned_table_laws_witness:
  "\<not> owned_permits (from_table till_rows) False True \<and>
   owned_permits (revoke (grant (from_table till_rows) False True) False True) =
     owned_permits (from_table till_rows)"
proof -
  have n: "\<not> owned_permits (from_table till_rows) False True"
    by (simp add: owned_permits_def from_table_def till_rows_def)
  moreover have "owned_permits (revoke (grant (from_table till_rows) False True) False True) =
     owned_permits (from_table till_rows)"
    by (rule owned_table_laws [THEN conjunct2, THEN conjunct2, THEN mp, OF n])
  ultimately show ?thesis by (rule conjI)
qed

end
