(* ===== verification/Workflow_Graph.thy ===== *)
theory Workflow_Graph
  imports Fsm_Check Types_Enums Rbac_Core
begin

text \<open>
  The workflow graphs of \<open>crates/jkb-core/src/workflow/mod.rs\<close>: the phases, the events (each
  also a permission), the facts the guards read, the guards, the rows the macro \<open>graph!\<close>
  shares between the two graphs, and \<open>GraphId\<close> with its legacy alias and the walk
  \<open>reaches_unforced\<close>. A workflow plans no effects, so the effect type is \<^typ>\<open>unit\<close>.

  The lemmas prove both graphs clean for every observation, and the review and end
  observations exclusive.
\<close>

section \<open>Phases\<close>

datatype phase =
  Ph_Design | Ph_DesignReview | Ph_Implement | Ph_Review | Ph_SystemicReview | Ph_Landable
| Ph_Landed | Ph_Cancelled

definition phase_ALL :: "phase list" where
  "phase_ALL =
     [Ph_Design, Ph_DesignReview, Ph_Implement, Ph_Review, Ph_SystemicReview, Ph_Landable,
      Ph_Landed, Ph_Cancelled]"

fun phase_name :: "phase \<Rightarrow> string" where
  "phase_name Ph_Design = ''design''"
| "phase_name Ph_DesignReview = ''design_review''"
| "phase_name Ph_Implement = ''implement''"
| "phase_name Ph_Review = ''review''"
| "phase_name Ph_SystemicReview = ''systemic_review''"
| "phase_name Ph_Landable = ''landable''"
| "phase_name Ph_Landed = ''landed''"
| "phase_name Ph_Cancelled = ''cancelled''"

definition phase_is_settled :: "phase \<Rightarrow> bool" where
  "phase_is_settled p = (case p of Ph_Landed \<Rightarrow> True | Ph_Cancelled \<Rightarrow> True | _ \<Rightarrow> False)"

definition phase_state :: "phase state_trait" where
  "phase_state =
     \<lparr>st_all = phase_ALL, st_name = phase_name, st_noun = ''a workflow'',
      st_settled = phase_is_settled, st_awaits = (\<lambda>_. False)\<rparr>"

definition phase_parse :: "string \<Rightarrow> phase option" where
  "phase_parse name = parse_by_name phase_ALL phase_name name"

section \<open>Events\<close>

datatype workflow_event =
  W_SubmitDesign | W_ApproveDesign | W_RejectDesign | W_SubmitWork | W_SubmitSystemic
| W_SystemicRedesign | W_Rework | W_Cancel | W_Reopen | W_Override | W_ReviewPassed
| W_ReviewFailed | W_ReviewRepeated | W_ObservedLanded | W_ObservedCancelled

definition workflow_event_ALL :: "workflow_event list" where
  "workflow_event_ALL =
     [W_SubmitDesign, W_ApproveDesign, W_RejectDesign, W_SubmitWork, W_SubmitSystemic,
      W_SystemicRedesign, W_Rework, W_Cancel, W_Reopen, W_Override, W_ReviewPassed,
      W_ReviewFailed, W_ReviewRepeated, W_ObservedLanded, W_ObservedCancelled]"

fun workflow_event_name :: "workflow_event \<Rightarrow> string" where
  "workflow_event_name W_SubmitDesign = ''submit_design''"
| "workflow_event_name W_ApproveDesign = ''approve_design''"
| "workflow_event_name W_RejectDesign = ''reject_design''"
| "workflow_event_name W_SubmitWork = ''submit_work''"
| "workflow_event_name W_SubmitSystemic = ''submit_systemic''"
| "workflow_event_name W_SystemicRedesign = ''systemic_redesign''"
| "workflow_event_name W_Rework = ''rework''"
| "workflow_event_name W_Cancel = ''cancel''"
| "workflow_event_name W_Reopen = ''reopen''"
| "workflow_event_name W_Override = ''override''"
| "workflow_event_name W_ReviewPassed = ''review_passed''"
| "workflow_event_name W_ReviewFailed = ''review_failed''"
| "workflow_event_name W_ReviewRepeated = ''review_repeated''"
| "workflow_event_name W_ObservedLanded = ''observed_landed''"
| "workflow_event_name W_ObservedCancelled = ''observed_cancelled''"

fun workflow_event_kind :: "workflow_event \<Rightarrow> event_kind" where
  "workflow_event_kind W_ReviewPassed = Reconciled"
| "workflow_event_kind W_ReviewFailed = Reconciled"
| "workflow_event_kind W_ReviewRepeated = Reconciled"
| "workflow_event_kind W_ObservedLanded = Reconciled"
| "workflow_event_kind W_ObservedCancelled = Reconciled"
| "workflow_event_kind _ = Applied"

definition workflow_event_trait :: "workflow_event event_trait" where
  "workflow_event_trait =
     \<lparr>ev_all = workflow_event_ALL, ev_name = workflow_event_name, ev_kind = workflow_event_kind\<rparr>"

definition workflow_event_perm :: "workflow_event perm_trait" where
  "workflow_event_perm = \<lparr>perm_all = workflow_event_ALL, perm_name = workflow_event_name\<rparr>"

definition workflow_event_parse :: "string \<Rightarrow> workflow_event option" where
  "workflow_event_parse name = parse_by_name workflow_event_ALL workflow_event_name name"

definition needs_reason :: "workflow_event \<Rightarrow> bool" where
  "needs_reason e =
     (case e of W_SubmitSystemic \<Rightarrow> True | W_SystemicRedesign \<Rightarrow> True | W_Override \<Rightarrow> True | _ \<Rightarrow> False)"

definition workflow_command :: "workflow_event \<Rightarrow> string" where
  "workflow_command e =
     (if workflow_event_kind e = Reconciled then ''jkb workflow observe <uid>''
      else if e = W_Override then ''jkb workflow fire <uid> override --to <phase> --reason <why>''
      else if needs_reason e
      then ''jkb workflow fire <uid> '' @ workflow_event_name e @ '' --reason <why>''
      else ''jkb workflow fire <uid> '' @ workflow_event_name e)"

section \<open>Facts and guards\<close>

record workflow_facts =
  wf_phase :: phase
  wf_stated :: "phase option"
  wf_task_status :: task_status
  wf_landed :: fact
  wf_new_round :: fact
  wf_last_round_must_fix :: fact
  wf_repeated_areas :: fact

definition workflow_facts_at :: "phase \<Rightarrow> workflow_facts" where
  "workflow_facts_at p =
     \<lparr>wf_phase = p, wf_stated = None, wf_task_status = Open, wf_landed = No, wf_new_round = No,
      wf_last_round_must_fix = No, wf_repeated_areas = No\<rparr>"

definition workflow_domain :: "(phase, workflow_event, workflow_facts) fsm_domain" where
  "workflow_domain =
     \<lparr>dom_states = phase_state, dom_events = workflow_event_trait, dom_state_of = wf_phase\<rparr>"

definition live :: "workflow_facts \<Rightarrow> workflow_event verdict" where
  "live f = all_of
     [require_no (wf_landed f) (denial_new ''The work has already landed.''),
      require_no (fact_from (wf_task_status f = Cancelled)) (denial_new ''The task is cancelled.'')]"

definition fresh_round :: "workflow_facts \<Rightarrow> workflow_event verdict" where
  "fresh_round f = require_yes (wf_new_round f) (denial_new
     ''No review round has been filed since the work was submitted. Run one (`/jkb-review`), then observe again.'')"

definition review_passed :: "workflow_facts \<Rightarrow> workflow_event verdict" where
  "review_passed f = all_of
     [live f, fresh_round f,
      require_no (wf_last_round_must_fix f) (denial_new ''The newest round found must-fix findings.'')]"

definition review_failed :: "workflow_facts \<Rightarrow> workflow_event verdict" where
  "review_failed f = all_of
     [live f, fresh_round f,
      require_yes (wf_last_round_must_fix f) (denial_new ''The newest round found no must-fix.''),
      require_no (wf_repeated_areas f)
        (denial_new ''The must-fixes repeat an area the rounds before found.'')]"

definition review_repeated :: "workflow_facts \<Rightarrow> workflow_event verdict" where
  "review_repeated f = all_of
     [live f, fresh_round f,
      require_yes (wf_last_round_must_fix f) (denial_new ''The newest round found no must-fix.''),
      require_yes (wf_repeated_areas f) (denial_new ''The must-fixes do not repeat an area.'')]"

definition observed_landed :: "workflow_facts \<Rightarrow> workflow_event verdict" where
  "observed_landed f = require_yes (wf_landed f) (denial_new
     ''No landing is recorded for this work (a `done` checkbox is not a landing).'')"

definition observed_cancelled :: "workflow_facts \<Rightarrow> workflow_event verdict" where
  "observed_cancelled f = all_of
     [require_yes (fact_from (wf_task_status f = Cancelled)) (denial_new ''The task is not cancelled.''),
      require_no (wf_landed f) (denial_new ''The work landed.'')]"

definition reopened :: "workflow_facts \<Rightarrow> workflow_event verdict" where
  "reopened f = all_of
     [require_no (wf_landed f) (denial_new
        (''A landing still speaks for this work. Reopen the task itself first (`jkb task set <uid> --status open`): the workflow follows the task'' @
         [CHR 0x27] @ ''s lifecycle, or the next observe would put it straight back.'')),
      require_no (fact_from (is_terminal (wf_task_status f))) (denial_new
        ''The task is still finished or cancelled. Reopen the task itself first (`jkb task set <uid> --status open`).'')]"

definition workflow_stated :: "workflow_facts \<Rightarrow> phase option" where
  "workflow_stated f = wf_stated f"

section \<open>Areas and descriptions\<close>

datatype area_scope = AS_File | AS_Directory

fun area_unit :: "area_scope \<Rightarrow> string" where
  "area_unit AS_File = ''file''"
| "area_unit AS_Directory = ''directory''"

record repeated_area =
  ra_scope :: area_scope
  ra_rounds :: u32

definition repeated_area_default :: repeated_area where
  "repeated_area_default = \<lparr>ra_scope = AS_File, ra_rounds = 2\<rparr>"

definition workflow_describe_guard :: "workflow_event \<Rightarrow> repeated_area \<Rightarrow> string option" where
  "workflow_describe_guard e area =
     (let lv = ''the work has not landed and the task is not cancelled'';
          fresh = ''a review round was filed since the work was submitted'';
          repeated = ''the newest '' @ nat_str (unat (ra_rounds area)) @
            '' rounds all flagged must-fixes in the same '' @ area_unit (ra_scope area)
      in case e of
           W_ReviewPassed \<Rightarrow> Some (fresh @ '' and found no must-fix; '' @ lv)
         | W_ReviewFailed \<Rightarrow> Some (fresh @ '' and found must-fixes, but not '' @ repeated @ ''; '' @ lv)
         | W_ReviewRepeated \<Rightarrow> Some (fresh @ '' and found must-fixes, and '' @ repeated @ ''; '' @ lv)
         | W_ObservedLanded \<Rightarrow> Some
             ''a landing is recorded for the work (a `done` checkbox is not a landing)''
         | W_ObservedCancelled \<Rightarrow> Some ''the task is cancelled and its work has not landed''
         | W_Reopen \<Rightarrow> Some
             ''the task itself is back to work: no landing speaks for it and its status is neither done nor cancelled (`jkb task set <uid> --status open` first)''
         | _ \<Rightarrow> None)"

section \<open>The graphs\<close>

type_synonym workflow_row = "(phase, workflow_event, workflow_facts, unit) transition"

definition wrow :: "phase \<Rightarrow> workflow_event \<Rightarrow> phase \<Rightarrow> workflow_row" where
  "wrow fr event to = row fr event (To to) None None"

definition guarded ::
  "phase \<Rightarrow> workflow_event \<Rightarrow> phase \<Rightarrow> (workflow_facts \<Rightarrow> workflow_event verdict) \<Rightarrow> workflow_row" where
  "guarded fr event to guard = row fr event (To to) (Some guard) None"

definition override_from :: "phase \<Rightarrow> workflow_row" where
  "override_from fr = row fr W_Override (Stated workflow_stated phase_ALL) None None"

text \<open>The rows every graph shares, in the macro's order.\<close>

definition graph_design_rows :: "workflow_row list" where
  "graph_design_rows =
     [wrow Ph_DesignReview W_ApproveDesign Ph_Implement,
      wrow Ph_DesignReview W_RejectDesign Ph_Design,
      wrow Ph_Implement W_SubmitWork Ph_Review,
      guarded Ph_Review W_ReviewPassed Ph_Landable review_passed,
      guarded Ph_Review W_ReviewFailed Ph_Implement review_failed,
      guarded Ph_Review W_ReviewRepeated Ph_SystemicReview review_repeated,
      wrow Ph_SystemicReview W_SubmitSystemic Ph_Implement,
      wrow Ph_SystemicReview W_SystemicRedesign Ph_Design,
      wrow Ph_Landable W_Rework Ph_Implement]"

definition graph_end_rows :: "workflow_row list" where
  "graph_end_rows =
     [guarded Ph_Design W_ObservedLanded Ph_Landed observed_landed,
      guarded Ph_DesignReview W_ObservedLanded Ph_Landed observed_landed,
      guarded Ph_Implement W_ObservedLanded Ph_Landed observed_landed,
      guarded Ph_Review W_ObservedLanded Ph_Landed observed_landed,
      guarded Ph_SystemicReview W_ObservedLanded Ph_Landed observed_landed,
      guarded Ph_Landable W_ObservedLanded Ph_Landed observed_landed,
      guarded Ph_Design W_ObservedCancelled Ph_Cancelled observed_cancelled,
      guarded Ph_DesignReview W_ObservedCancelled Ph_Cancelled observed_cancelled,
      guarded Ph_Implement W_ObservedCancelled Ph_Cancelled observed_cancelled,
      guarded Ph_Review W_ObservedCancelled Ph_Cancelled observed_cancelled,
      guarded Ph_SystemicReview W_ObservedCancelled Ph_Cancelled observed_cancelled,
      guarded Ph_Landable W_ObservedCancelled Ph_Cancelled observed_cancelled]"

definition graph_cancel_rows :: "workflow_row list" where
  "graph_cancel_rows =
     [wrow Ph_Design W_Cancel Ph_Cancelled,
      wrow Ph_DesignReview W_Cancel Ph_Cancelled,
      wrow Ph_Implement W_Cancel Ph_Cancelled,
      wrow Ph_Review W_Cancel Ph_Cancelled,
      wrow Ph_SystemicReview W_Cancel Ph_Cancelled,
      wrow Ph_Landable W_Cancel Ph_Cancelled,
      guarded Ph_Landed W_Reopen Ph_Implement reopened,
      guarded Ph_Cancelled W_Reopen Ph_Implement reopened,
      wrow Ph_Implement W_Reopen Ph_Implement,
      override_from Ph_Design,
      override_from Ph_DesignReview,
      override_from Ph_Implement,
      override_from Ph_Review,
      override_from Ph_SystemicReview,
      override_from Ph_Landable,
      override_from Ph_Landed,
      override_from Ph_Cancelled]"

definition graph_rows :: "workflow_row \<Rightarrow> workflow_row list" where
  "graph_rows submit_design = submit_design # graph_design_rows @ graph_end_rows @ graph_cancel_rows"

definition DESIGN_GATE :: "workflow_row list" where
  "DESIGN_GATE = graph_rows (wrow Ph_Design W_SubmitDesign Ph_DesignReview)"

definition DIRECT :: "workflow_row list" where
  "DIRECT = graph_rows (wrow Ph_Design W_SubmitDesign Ph_Implement)"

datatype graph_id = G_DesignGate | G_Direct

definition graph_id_ALL :: "graph_id list" where
  "graph_id_ALL = [G_DesignGate, G_Direct]"

definition LEGACY_ALIASES :: "(string \<times> graph_id) list" where
  "LEGACY_ALIASES = [(''reviewed-design'', G_DesignGate)]"

fun graph_id_as_str :: "graph_id \<Rightarrow> string" where
  "graph_id_as_str G_DesignGate = ''design-gate''"
| "graph_id_as_str G_Direct = ''direct''"

definition graph_id_parse :: "string \<Rightarrow> graph_id option" where
  "graph_id_parse name =
     (case List.find (\<lambda>g. graph_id_as_str g = name) graph_id_ALL of
        Some g \<Rightarrow> Some g
      | None \<Rightarrow> map_option snd (List.find (\<lambda>(old, _). old = name) LEGACY_ALIASES))"

definition graph_machine :: "graph_id \<Rightarrow> (phase, workflow_event, workflow_facts, unit) machine" where
  "graph_machine g =
     \<lparr>transitions = (case g of G_DesignGate \<Rightarrow> DESIGN_GATE | G_Direct \<Rightarrow> DIRECT), initial = Ph_Design\<rparr>"

section \<open>The walk of \<open>reaches_unforced\<close>\<close>

text \<open>The inner loop: append every declared target of \<open>from\<close> that is new.\<close>

fun reach_from :: "workflow_row list \<Rightarrow> phase \<Rightarrow> phase list \<Rightarrow> phase list" where
  "reach_from [] fr seen = seen"
| "reach_from (t # ts) fr seen =
     reach_from ts fr
       (if t_from t = fr
        then (case t_to t of
                To to \<Rightarrow> if to \<in> set seen then seen else seen @ [to]
              | Stated _ _ \<Rightarrow> seen)
        else seen)"

lemma reach_from_grows: "\<exists>new. reach_from ts fr seen = seen @ new \<and> (new \<noteq> [] \<longrightarrow> hd new \<notin> set seen)"
proof (induction ts arbitrary: seen)
  case Nil
  then show ?case by simp
next
  case (Cons t ts)
  show ?case
  proof (cases "\<exists>to. t_from t = fr \<and> t_to t = To to \<and> to \<notin> set seen")
    case True
    then obtain to where to: "t_from t = fr" "t_to t = To to" "to \<notin> set seen" by blast
    obtain new where "reach_from ts fr (seen @ [to]) = (seen @ [to]) @ new"
      using Cons.IH by blast
    with to have "reach_from (t # ts) fr seen = seen @ (to # new)" by simp
    with to(3) show ?thesis by (intro exI [of _ "to # new"]) simp
  next
    case False
    then have "reach_from (t # ts) fr seen = reach_from ts fr seen"
      by (auto split: dest.splits)
    with Cons.IH [of seen] show ?thesis by simp
  qed
qed

lemma finite_phase: "finite (UNIV :: phase set)"
proof -
  have "set phase_ALL = UNIV"
    by (rule UNIV_eq_I [symmetric]) (rename_tac x, case_tac x, simp_all add: phase_ALL_def)
  then show ?thesis by (metis List.finite_set)
qed

function reach_walk :: "workflow_row list \<Rightarrow> phase list \<Rightarrow> nat \<Rightarrow> phase list" where
  "reach_walk rows seen i =
     (if i < length seen then reach_walk rows (reach_from rows (seen ! i) seen) (Suc i) else seen)"
  by pat_completeness auto

lemma reach_walk_measure:
  assumes "i < length seen"
  shows "((rows, reach_from rows (seen ! i) seen, Suc i), (rows, seen, i)) \<in>
     measures [\<lambda>(rows, seen, i). card (UNIV - set seen), \<lambda>(rows, seen, i). length seen - i]"
proof -
  obtain new where n: "reach_from rows (seen ! i) seen = seen @ new" "new \<noteq> [] \<longrightarrow> hd new \<notin> set seen"
    using reach_from_grows by blast
  show ?thesis
  proof (cases "new = []")
    case True
    with n assms show ?thesis by simp
  next
    case False
    with n(2) have "UNIV - set (seen @ new) \<subset> UNIV - set seen" by force
    then have "card (UNIV - set (seen @ new)) < card (UNIV - set seen)"
      by (rule psubset_card_mono [rotated]) (rule finite_subset [OF _ finite_phase], simp)
    then show ?thesis by (simp add: n(1))
  qed
qed

termination reach_walk
  by (relation "measures [\<lambda>(rows, seen, i). card (UNIV - set seen), \<lambda>(rows, seen, i). length seen - i]")
     (simp, metis reach_walk_measure)

definition reaches_unforced :: "graph_id \<Rightarrow> phase \<Rightarrow> bool" where
  "reaches_unforced g p \<longleftrightarrow>
     p \<in> set (reach_walk (transitions (graph_machine g)) [initial (graph_machine g)] 0)"

lemma reaches_unforced_iff: "reaches_unforced g p \<longleftrightarrow> g = G_DesignGate \<or> p \<noteq> Ph_DesignReview"
proof -
  have "reach_walk DESIGN_GATE [Ph_Design] 0 =
      [Ph_Design, Ph_DesignReview, Ph_Landed, Ph_Cancelled, Ph_Implement, Ph_Review, Ph_Landable, Ph_SystemicReview]"
    by code_simp
  moreover have "reach_walk DIRECT [Ph_Design] 0 =
      [Ph_Design, Ph_Implement, Ph_Landed, Ph_Cancelled, Ph_Review, Ph_Landable, Ph_SystemicReview]"
    by code_simp
  ultimately show ?thesis
    by (cases g; cases p) (simp_all add: reaches_unforced_def graph_machine_def)
qed

section \<open>The graphs are sound\<close>

lemma workflow_domain_simps [simp]:
  "dom_states workflow_domain = phase_state" "dom_events workflow_domain = workflow_event_trait"
  "dom_state_of workflow_domain = wf_phase"
  by (simp_all add: workflow_domain_def)

lemma workflow_trait_simps [simp]:
  "st_all phase_state = phase_ALL" "st_name phase_state = phase_name"
  "st_settled phase_state = phase_is_settled" "\<not> st_awaits phase_state p"
  "ev_all workflow_event_trait = workflow_event_ALL" "ev_name workflow_event_trait = workflow_event_name"
  "ev_kind workflow_event_trait = workflow_event_kind"
  "perm_all workflow_event_perm = workflow_event_ALL" "perm_name workflow_event_perm = workflow_event_name"
  by (simp_all add: phase_state_def workflow_event_trait_def workflow_event_perm_def)

interpretation phase_enum: stored_enum phase_ALL phase_name
proof
  show "set phase_ALL = UNIV"
    by (rule UNIV_eq_I [symmetric]) (rename_tac x, case_tac x, simp_all add: phase_ALL_def)
qed (simp add: phase_ALL_def)

interpretation workflow_event_enum: stored_enum workflow_event_ALL workflow_event_name
proof
  show "set workflow_event_ALL = UNIV"
    by (rule UNIV_eq_I [symmetric]) (rename_tac x, case_tac x, simp_all add: workflow_event_ALL_def)
qed (simp add: workflow_event_ALL_def)

lemma graph_check_clean: "machine_check workflow_domain (graph_machine g) = []"
proof (cases g)
  case G_DesignGate
  have "machine_check workflow_domain (graph_machine G_DesignGate) = []" by code_simp
  with G_DesignGate show ?thesis by simp
next
  case G_Direct
  have "machine_check workflow_domain (graph_machine G_Direct) = []" by code_simp
  with G_Direct show ?thesis by simp
qed

interpretation workflow: checked_machine workflow_domain "graph_machine g" for g
proof
  show "inj (state_name workflow_domain)" "inj (event_name workflow_domain)"
    by (simp_all add: phase_enum.as_str_inj workflow_event_enum.as_str_inj)
qed (simp_all add: phase_enum.complete workflow_event_enum.complete graph_check_clean)

lemma graph_transitions [simp]:
  "transitions (graph_machine G_DesignGate) = DESIGN_GATE" "transitions (graph_machine G_Direct) = DIRECT"
  "initial (graph_machine g) = Ph_Design"
  by (simp_all add: graph_machine_def)

lemmas graph_rows_defs =
  graph_rows_def graph_design_rows_def graph_end_rows_def graph_cancel_rows_def wrow_def guarded_def
  override_from_def

text \<open>Every row of either graph is a shared row, or that graph's own \<open>submit_design\<close>.\<close>

definition submit_to :: "graph_id \<Rightarrow> phase" where
  "submit_to g = (case g of G_DesignGate \<Rightarrow> Ph_DesignReview | G_Direct \<Rightarrow> Ph_Implement)"

lemma graph_transitions_shared:
  "transitions (graph_machine g) =
     wrow Ph_Design W_SubmitDesign (submit_to g) # graph_design_rows @ graph_end_rows @ graph_cancel_rows"
  by (cases g) (simp_all add: DESIGN_GATE_def DIRECT_def graph_rows_def submit_to_def)

section \<open>When the guards allow\<close>

lemma workflow_guards_Allow [guard_simps]:
  "live f = Allow \<longleftrightarrow> wf_landed f = No \<and> wf_task_status f \<noteq> Cancelled"
  "fresh_round f = Allow \<longleftrightarrow> wf_new_round f = Yes"
  "review_passed f = Allow \<longleftrightarrow> live f = Allow \<and> wf_new_round f = Yes \<and> wf_last_round_must_fix f = No"
  "review_failed f = Allow \<longleftrightarrow> live f = Allow \<and> wf_new_round f = Yes \<and>
     wf_last_round_must_fix f = Yes \<and> wf_repeated_areas f = No"
  "review_repeated f = Allow \<longleftrightarrow> live f = Allow \<and> wf_new_round f = Yes \<and>
     wf_last_round_must_fix f = Yes \<and> wf_repeated_areas f = Yes"
  "observed_landed f = Allow \<longleftrightarrow> wf_landed f = Yes"
  "observed_cancelled f = Allow \<longleftrightarrow> wf_landed f = No \<and> wf_task_status f = Cancelled"
  "reopened f = Allow \<longleftrightarrow> wf_landed f = No \<and> \<not> is_terminal (wf_task_status f)"
  by (auto simp: live_def fresh_round_def review_passed_def review_failed_def review_repeated_def
      observed_landed_def observed_cancelled_def reopened_def all_of_Allow require_yes_Allow
      require_no_Allow fact_from_Yes fact_from_No)

lemma live_no_remedy: "live f = Deny d \<Longrightarrow> dn_remedy d = None"
  by (auto simp: live_def denial_new_def
      dest!: all_of_Deny require_no_Deny [OF sym])

lemma fresh_round_no_remedy: "fresh_round f = Deny d \<Longrightarrow> dn_remedy d = None"
  by (auto simp: fresh_round_def denial_new_def dest!: require_yes_Deny)

lemmas clause_no_remedy = live_no_remedy fresh_round_no_remedy live_no_remedy [OF sym] fresh_round_no_remedy [OF sym]

lemma review_no_remedy:
  "review_passed f = Deny d \<Longrightarrow> dn_remedy d = None"
  "review_failed f = Deny d \<Longrightarrow> dn_remedy d = None"
  "review_repeated f = Deny d \<Longrightarrow> dn_remedy d = None"
  by (auto simp: review_passed_def review_failed_def review_repeated_def denial_new_def clause_no_remedy
      dest!: all_of_Deny require_yes_Deny [OF sym] require_no_Deny [OF sym])

lemma end_no_remedy:
  "observed_landed f = Deny d \<Longrightarrow> dn_remedy d = None"
  "observed_cancelled f = Deny d \<Longrightarrow> dn_remedy d = None"
  "reopened f = Deny d \<Longrightarrow> dn_remedy d = None"
  by (auto simp: observed_landed_def observed_cancelled_def reopened_def denial_new_def
      dest!: all_of_Deny require_yes_Deny require_yes_Deny [OF sym] require_no_Deny [OF sym])

lemmas workflow_no_remedy = review_no_remedy end_no_remedy

section \<open>One observation at a time\<close>

text \<open>The guard each observation carries, whichever row it is on.\<close>

fun observation_guard :: "workflow_event \<Rightarrow> workflow_facts \<Rightarrow> workflow_event verdict" where
  "observation_guard W_ReviewPassed = review_passed"
| "observation_guard W_ReviewFailed = review_failed"
| "observation_guard W_ReviewRepeated = review_repeated"
| "observation_guard W_ObservedLanded = observed_landed"
| "observation_guard W_ObservedCancelled = observed_cancelled"
| "observation_guard _ = (\<lambda>_. Allow)"

lemma graph_observation_rows:
  "\<forall>t \<in> set (transitions (graph_machine g)). workflow_event_kind (t_event t) = Reconciled \<longrightarrow>
     t_guard t = Some (observation_guard (t_event t))"
  by (simp add: graph_transitions_shared graph_design_rows_def graph_end_rows_def
      graph_cancel_rows_def wrow_def guarded_def override_from_def)

definition observation :: "workflow_facts \<Rightarrow> workflow_event" where
  "observation f =
     (if wf_landed f = Yes then W_ObservedLanded
      else if wf_task_status f = Cancelled then W_ObservedCancelled
      else if wf_last_round_must_fix f = No then W_ReviewPassed
      else if wf_repeated_areas f = Yes then W_ReviewRepeated else W_ReviewFailed)"

lemma observation_unique:
  assumes "workflow_event_kind e = Reconciled" and "observation_guard e f = Allow"
  shows "e = observation f"
  using assms by (cases e) (simp_all add: guard_simps observation_def)

lemma graph_rec_event:
  assumes "t \<in> set (transitions (graph_machine g))" and "rec_allowed workflow_domain f t"
  shows "t_event t = observation f"
proof (rule observation_unique)
  show k: "workflow_event_kind (t_event t) = Reconciled"
    using assms(2) by (simp add: rec_allowed_def rec_candidate_def)
  show "observation_guard (t_event t) f = Allow"
    using graph_observation_rows [of g] assms k by (simp add: rec_allowed_def run_guard_def)
qed

lemma graph_never_ambiguous: "machine_reconcile workflow_domain (graph_machine g) f \<noteq> Rec_Ambiguous es"
  by (rule never_ambiguousI [OF workflow.is_deterministic]) (simp add: graph_rec_event)

lemma graph_cancel_row:
  "\<not> phase_is_settled p \<Longrightarrow> wrow p W_Cancel Ph_Cancelled \<in> set (transitions (graph_machine g))"
  by (cases p) (simp_all add: graph_transitions_shared graph_cancel_rows_def phase_is_settled_def)

lemma graph_context_sound: "context_sound workflow_domain (graph_machine g) f"
proof (rule workflow.context_soundI)
  show "settled_in workflow_domain (dom_state_of workflow_domain f) \<or>
    st_awaits (dom_states workflow_domain) (dom_state_of workflow_domain f) \<or>
    (\<exists>t \<in> set (transitions (graph_machine g)). \<exists>to. t_from t = dom_state_of workflow_domain f \<and>
       t_to t = To to \<and> to \<noteq> dom_state_of workflow_domain f \<and> run_guard (t_guard t) f = Allow)"
  proof (cases "phase_is_settled (wf_phase f)")
    case False
    then have "wf_phase f \<noteq> Ph_Cancelled" by (auto simp: phase_is_settled_def)
    with graph_cancel_row [OF False, of g] show ?thesis
      by (intro disjI2 bexI [of _ "wrow (wf_phase f) W_Cancel Ph_Cancelled"])
         (simp_all add: wrow_def run_guard_def)
  qed simp
next
  fix t d r
  assume "t \<in> set (transitions (graph_machine g))" and d: "run_guard (t_guard t) f = Deny d" "dn_remedy d = Some r"
  then have "t_guard t \<in> {None, Some review_passed, Some review_failed, Some review_repeated,
      Some observed_landed, Some observed_cancelled, Some reopened}"
    by (auto simp: graph_transitions_shared graph_design_rows_def graph_end_rows_def
        graph_cancel_rows_def wrow_def guarded_def override_from_def)
  with d workflow_no_remedy [of f d]
  show "machine_accepts (graph_machine g) (dom_state_of workflow_domain f) (rm_event r) \<noteq> Acc_Undefined"
    by (auto simp: run_guard_def)
qed (rule graph_never_ambiguous)

section \<open>What the graphs promise\<close>

text \<open>
  Both workflow graphs are sound: their check reports nothing, and for every observation a
  live workflow can be moved, no refusal advises an impossible event and at most one
  observation fires, even when a landing and a fresh clean review round are seen at once.
\<close>

theorem workflow_graphs_sound:
  "machine_check workflow_domain (graph_machine g) = [] \<and>
   (\<forall>f. context_sound workflow_domain (graph_machine g) f) \<and>
   (\<forall>f. wf_landed f = Yes \<and> wf_new_round f = Yes \<and> wf_last_round_must_fix f = No \<and> wf_phase f = Ph_Review \<longrightarrow>
      machine_reconcile workflow_domain (graph_machine g) f =
        Rec_Fired (Moved Ph_Review W_ObservedLanded Ph_Landed []))"
proof -
  have "machine_reconcile workflow_domain (graph_machine g) f =
        Rec_Fired (Moved Ph_Review W_ObservedLanded Ph_Landed [])"
    if "wf_landed f = Yes" "wf_phase f = Ph_Review" for f
  proof -
    let ?t = "guarded Ph_Review W_ObservedLanded Ph_Landed observed_landed"
    have "machine_reconcile workflow_domain (graph_machine g) f =
      Rec_Fired (Moved (dom_state_of workflow_domain f) (t_event ?t) Ph_Landed (run_plan (t_plan ?t) f))"
    proof (rule reconcile_unique [OF workflow.is_deterministic])
      show "?t \<in> set (transitions (graph_machine g))"
        by (simp add: graph_transitions_shared graph_end_rows_def)
      show "rec_allowed workflow_domain f ?t" "t_to ?t = To Ph_Landed"
        using that by (simp_all add: rec_allowed_def rec_candidate_def guarded_def run_guard_def guard_simps)
      show "t_event u = t_event ?t"
        if "u \<in> set (transitions (graph_machine g))" "rec_allowed workflow_domain f u" for u
        using graph_rec_event [OF that] \<open>wf_landed f = Yes\<close> by (simp add: guarded_def observation_def)
    qed
    with that show ?thesis by (simp add: guarded_def run_plan_def)
  qed
  with graph_check_clean graph_context_sound show ?thesis by blast
qed

theorem workflow_graphs_sound_witness:
  "machine_reconcile workflow_domain (graph_machine G_Direct)
     ((workflow_facts_at Ph_Review)\<lparr>wf_landed := Yes, wf_new_round := Yes\<rparr>) =
   Rec_Fired (Moved Ph_Review W_ObservedLanded Ph_Landed [])"
  using workflow_graphs_sound [of G_Direct] by (simp add: workflow_facts_at_def)

text \<open>
  C34. A workflow is landable only through a clean review. Whatever is asked of either graph, a
  move that leads to \<open>landable\<close> is the observation of a round filed since the work was
  submitted that found no must-fix, on work neither landed nor cancelled, or an operator's
  override; and a move that leads to \<open>landed\<close> is an observed landing or an override.
\<close>

theorem workflow_landable_requires:
  assumes "machine_apply workflow_domain (graph_machine g) f e = Moved fr e to fx"
  shows "(to = Ph_Landable \<longrightarrow>
            e = W_Override \<or>
            (e = W_ReviewPassed \<and> fr = Ph_Review \<and> wf_new_round f = Yes \<and>
             wf_last_round_must_fix f = No \<and> wf_landed f = No \<and> wf_task_status f \<noteq> Cancelled)) \<and>
         (to = Ph_Landed \<longrightarrow> e = W_Override \<or> (e = W_ObservedLanded \<and> wf_landed f = Yes))"
proof -
  from assms obtain t where t: "t \<in> set (transitions (graph_machine g))" "t_from t = fr" "t_event t = e"
    "run_guard (t_guard t) f = Allow" "resolve (t_to t) f = Res_To to"
    unfolding workflow.moved_iff by blast
  have sub: "submit_to g \<noteq> Ph_Landable" "submit_to g \<noteq> Ph_Landed"
    by (cases g; simp add: submit_to_def)+
  have rows: "t_event t = W_Override \<or> (\<exists>to'. t_to t = To to' \<and>
      (to' = Ph_Landable \<longrightarrow> t = guarded Ph_Review W_ReviewPassed Ph_Landable review_passed) \<and>
      (to' = Ph_Landed \<longrightarrow> t_event t = W_ObservedLanded \<and> t_guard t = Some observed_landed))"
    using t(1) sub
    by (auto simp: graph_transitions_shared graph_design_rows_def graph_end_rows_def
        graph_cancel_rows_def wrow_def guarded_def override_from_def)
  then show ?thesis
  proof
    assume "t_event t = W_Override"
    with t(3) show ?thesis by simp
  next
    assume "\<exists>to'. t_to t = To to' \<and>
      (to' = Ph_Landable \<longrightarrow> t = guarded Ph_Review W_ReviewPassed Ph_Landable review_passed) \<and>
      (to' = Ph_Landed \<longrightarrow> t_event t = W_ObservedLanded \<and> t_guard t = Some observed_landed)"
    with t(5) have
      "to = Ph_Landable \<Longrightarrow> t = guarded Ph_Review W_ReviewPassed Ph_Landable review_passed"
      "to = Ph_Landed \<Longrightarrow> t_event t = W_ObservedLanded \<and> t_guard t = Some observed_landed"
      by auto
    with t(2-4) show ?thesis
      by (auto simp: guarded_def run_guard_def guard_simps)
  qed
qed

theorem workflow_landable_requires_witness:
  "let f = (workflow_facts_at Ph_Review)\<lparr>wf_new_round := Yes\<rparr> in
   machine_apply workflow_domain (graph_machine G_DesignGate) f W_ReviewPassed =
     Moved Ph_Review W_ReviewPassed Ph_Landable [] \<and> wf_new_round f = Yes \<and> wf_landed f = No"
proof -
  have a: "machine_apply workflow_domain (graph_machine G_DesignGate)
      ((workflow_facts_at Ph_Review)\<lparr>wf_new_round := Yes\<rparr>) W_ReviewPassed =
      Moved Ph_Review W_ReviewPassed Ph_Landable []"
    by code_simp
  from workflow_landable_requires [OF a] a show ?thesis
    unfolding Let_def by simp
qed

text \<open>
  Names are read back: a phase, an event and a graph are recovered from the name they are
  stored under, the former name of the design gate is still read, and nothing else is.
\<close>

theorem workflow_names_roundtrip:
  "phase_parse (phase_name p) = Some p \<and>
   workflow_event_parse (workflow_event_name e) = Some e \<and>
   (graph_id_parse s = Some g \<longleftrightarrow> s = graph_id_as_str g \<or> (s = ''reviewed-design'' \<and> g = G_DesignGate))"
proof -
  have "graph_id_parse s = Some g \<longleftrightarrow> s = graph_id_as_str g \<or> (s = ''reviewed-design'' \<and> g = G_DesignGate)"
    by (cases g) (auto simp: graph_id_parse_def graph_id_ALL_def LEGACY_ALIASES_def)
  then show ?thesis
    by (simp add: phase_parse_def workflow_event_parse_def phase_enum.from_as_str
        workflow_event_enum.from_as_str)
qed

end
