(* ===== verification/Core_Error.thy ===== *)
theory Core_Error
  imports Jkb_Prelude
begin

text \<open>
  The error types of \<open>crates/jkb-types/src/error.rs\<close>, \<open>crates/jkb-core/src/error.rs\<close> and
  \<open>crates/jkb-core/src/mq.rs\<close> with the messages their \<open>Display\<close> writes. The errors of
  third-party crates (SQLite, refinery, I/O) carry their message.
\<close>

datatype types_error =
  Validation string
| NotFound string
| EmbedderUnavailable string
| TypesIo string

fun types_error_display :: "types_error \<Rightarrow> string" where
  "types_error_display (Validation m) = ''validation: '' @ m"
| "types_error_display (NotFound m) = ''not found: '' @ m"
| "types_error_display (EmbedderUnavailable m) = ''embedder unavailable: '' @ m"
| "types_error_display (TypesIo m) = ''i/o: '' @ m"

datatype queue_error =
  NoSuchTopic string
| TopicConflict string
| NoSuchGroup string string
| QueueFull string int int
| TooLarge string nat nat
| Invalid string string
| AckBeyondEnd string int int
| Corrupt string
| CorruptPayload string int string

text \<open>A signed decimal as \<open>Display\<close> writes it.\<close>

definition int_str :: "int \<Rightarrow> string" where
  "int_str i = (if i < 0 then ''-'' @ nat_str (nat (- i)) else nat_str (nat i))"

fun queue_error_display :: "queue_error \<Rightarrow> string" where
  "queue_error_display (NoSuchTopic t) = ''no such topic: '' @ t"
| "queue_error_display (TopicConflict t) = ''topic '' @ t @ '' already exists with a different spec''"
| "queue_error_display (NoSuchGroup t g) = ''no such group '' @ g @ '' on topic '' @ t"
| "queue_error_display (QueueFull t m b) =
     ''topic '' @ t @ '' is full ('' @ int_str m @ '' messages, '' @ int_str b @
     '' bytes held) and reaping what every group has consumed would not make room''"
| "queue_error_display (TooLarge what b mx) =
     what @ '' is '' @ nat_str b @ '' bytes; the limit is '' @ nat_str mx"
| "queue_error_display (Invalid what why) = ''invalid '' @ what @ '': '' @ why"
| "queue_error_display (AckBeyondEnd t s high) =
     ''cannot ack seq '' @ int_str s @ '' on topic '' @ t @
     '': the newest it can be acked through is '' @ int_str high @
     '' (the newest message it holds, or the group'' @ [CHR 0x27] @ ''s position)''"
| "queue_error_display (Corrupt m) = ''corrupt queue row: '' @ m"
| "queue_error_display (CorruptPayload t s why) =
     ''message '' @ int_str s @ '' on topic '' @ t @ '' has an unreadable payload: '' @ why"

datatype core_error =
  Sqlite string
| Migration string
| SchemaNewer int int
| Types types_error
| Io string
| Queue queue_error
| WriterClosed
| SharedFilesystem string string
| UriPath string
| FilesystemUnknown string string
| Stale string
| ForeignKeyViolation nat

text \<open>The messages; a path is printed as its text.\<close>

fun core_error_display :: "core_error \<Rightarrow> string" where
  "core_error_display (Sqlite m) = ''sqlite: '' @ m"
| "core_error_display (Migration m) = ''migration: '' @ m"
| "core_error_display (SchemaNewer found supported) =
     ''the database is at schema '' @ int_str found @ '' and this jkb knows only up to '' @ int_str supported @
     ''; it was migrated by a newer jkb '' @ emdash @ '' run that one''"
| "core_error_display (Types e) = types_error_display e"
| "core_error_display (Io m) = ''i/o: '' @ m"
| "core_error_display (Queue e) = queue_error_display e"
| "core_error_display WriterClosed = ''database writer has stopped''"
| "core_error_display (SharedFilesystem path kind) =
     ''refusing to open a database: '' @ path @ '' is on a '' @ kind @
     '' filesystem shared with another kernel, where SQLite'' @ [CHR 0x27] @
     ''s locks and WAL index do not work: measured, a process on each side corrupted a database within 38 commits (.container/sqlite-share-probe.py). Use a database on a local disk (set JKB_DB or --db), or reach the host'' @
     [CHR 0x27] @ ''s knowledge base through its daemon''"
| "core_error_display (UriPath path) =
     ''refusing to open '' @ path @
     '': jkb opens database PATHS, never `file:` URIs (SQLite would parse it as a URI and open whatever it names, past the shared-filesystem guard)''"
| "core_error_display (FilesystemUnknown path reason) =
     ''cannot tell what filesystem '' @ path @ '' is on ('' @ reason @ ''); refusing to open a database there''"
| "core_error_display (Stale m) = ''stale: '' @ m"
| "core_error_display (ForeignKeyViolation n) =
     ''migration left '' @ nat_str n @ '' foreign-key violation(s); database integrity check failed''"

type_synonym 'a core_result = "(core_error, 'a) result"

text \<open>The private helpers \<open>invalid\<close> and \<open>validation\<close> of the core modules build this error.\<close>

definition validation :: "string \<Rightarrow> core_error" where
  "validation msg = Types (Validation msg)"

end
