(* ===== verification/Core_Roles.thy ===== *)
theory Core_Roles
  imports Core_Error Rbac_Core Types_Enums
begin

text \<open>
  Roles, grants and the agent bindings, \<open>crates/jkb-core/src/roles.rs\<close>. The tables
  \<open>role_grants\<close>, \<open>agent_role_map\<close> and \<open>agent_bindings\<close> are lists of rows in the record
  \<open>roles_db\<close>, with the AUTOINCREMENT counter of the first; each SQL statement is the
  function of the rows it denotes. The hash (blake3), the random bytes (getrandom) and the
  clock (strftime now) are arguments.

  The lemmas prove an invariant of every database the operations can build: a live grant has
  only live ancestors, each grant is one its minter may make, and a scope is never widened.
\<close>

section \<open>Roles\<close>

datatype role = Operator | Coordinator | Designer | Implementer | Reviewer | SystemicReviewer

definition role_ALL :: "role list" where
  "role_ALL = [Operator, Coordinator, Designer, Implementer, Reviewer, SystemicReviewer]"

fun role_as_str :: "role \<Rightarrow> string" where
  "role_as_str Operator = ''operator''"
| "role_as_str Coordinator = ''coordinator''"
| "role_as_str Designer = ''designer''"
| "role_as_str Implementer = ''implementer''"
| "role_as_str Reviewer = ''reviewer''"
| "role_as_str SystemicReviewer = ''systemic_reviewer''"

definition core_role :: "role role_trait" where
  "core_role = \<lparr>role_all = role_ALL, role_name = role_as_str\<rparr>"

definition core_role_perm :: "role perm_trait" where
  "core_role_perm = \<lparr>perm_all = role_ALL, perm_name = role_as_str\<rparr>"

definition core_role_parse :: "string \<Rightarrow> role core_result" where
  "core_role_parse name =
     (case role_parse core_role name of
        Some r \<Rightarrow> Inr r
      | None \<Rightarrow> Inl (validation (''no role `'' @ name @ ''` (roles: '' @
          join '', '' (map role_as_str role_ALL) @ '')'')))"

fun role_describe :: "role \<Rightarrow> string" where
  "role_describe Operator =
     ''The human. Holds everything, and is the only role whose credential never enters the dev container.''"
| "role_describe Coordinator =
     ''The session driving a task: spawns workers, advances the workflow, never approves what the operator approves unless the task'' @
     [CHR 0x27] @ ''s strategy toggles say so.''"
| "role_describe Designer = ''Gathers details and writes the design.''"
| "role_describe Implementer = ''Writes the code.''"
| "role_describe Reviewer = ''Reviews it and files findings.''"
| "role_describe SystemicReviewer =
     ''Looks for the systemic cause when review keeps finding the same areas.''"

definition is_worker :: "role \<Rightarrow> bool" where
  "is_worker r =
     (case r of Designer \<Rightarrow> True | Implementer \<Rightarrow> True | Reviewer \<Rightarrow> True | SystemicReviewer \<Rightarrow> True
      | _ \<Rightarrow> False)"

definition GRANTABLE :: "(role, role) role_table" where
  "GRANTABLE = \<lparr>rt_grants =
     [\<lparr>g_role = Operator,
       g_permits = [Operator, Coordinator, Designer, Implementer, Reviewer, SystemicReviewer]\<rparr>,
      \<lparr>g_role = Coordinator, g_permits = [Designer, Implementer]\<rparr>,
      \<lparr>g_role = Designer, g_permits = []\<rparr>,
      \<lparr>g_role = Implementer, g_permits = []\<rparr>,
      \<lparr>g_role = Reviewer, g_permits = []\<rparr>,
      \<lparr>g_role = SystemicReviewer, g_permits = []\<rparr>]\<rparr>"

definition CONTAINER_AGENT :: string where
  "CONTAINER_AGENT = ''container''"

definition MAX_AGENT_BYTES :: nat where
  "MAX_AGENT_BYTES = 128"

section \<open>The tables\<close>

record role_grant =
  gr_id :: int
  gr_role :: role
  gr_agent :: string
  gr_scope :: "int option"
  gr_parent :: "int option"
  gr_granted_at :: string
  gr_revoked_at :: "string option"
  gr_container :: bool

text \<open>A row of \<open>role_grants\<close>: what \<open>GRANT_COLUMNS\<close> selects, with its token's hash.\<close>

record raw_grant =
  rg_id :: int
  rg_token_hash :: string
  rg_role :: string
  rg_agent :: string
  rg_item :: "int option"
  rg_parent :: "int option"
  rg_granted_at :: string
  rg_revoked_at :: "string option"
  rg_container :: bool

record roles_db =
  role_grants :: "raw_grant list"
  grants_seq :: int
  agent_role_map :: "(string \<times> string) list"
  agent_bindings :: "((string \<times> string) \<times> int) list"

definition empty_roles_db :: roles_db where
  "empty_roles_db = \<lparr>role_grants = [], grants_seq = 0, agent_role_map = [], agent_bindings = []\<rparr>"

definition hex_digit :: "nat \<Rightarrow> char" where
  "hex_digit d = (if d < 10 then char_of (48 + d) else char_of (87 + d))"

definition hex_byte :: "8 word \<Rightarrow> string" where
  "hex_byte b = [hex_digit (unat b div 16), hex_digit (unat b mod 16)]"

definition fresh_token :: "(string, 8 word list) result \<Rightarrow> string core_result" where
  "fresh_token rnd =
     (case rnd of
        Inl e \<Rightarrow> Inl (validation (''no randomness: '' @ e))
      | Inr bytes \<Rightarrow> Inr (concat (map hex_byte bytes)))"

definition is_agent_char :: "char \<Rightarrow> bool" where
  "is_agent_char c \<longleftrightarrow>
     (let n = of_char c :: nat in
        (48 \<le> n \<and> n \<le> 57) \<or> (65 \<le> n \<and> n \<le> 90) \<or> (97 \<le> n \<and> n \<le> 122)) \<or>
     c \<in> set ''-_.@:''"

definition check_agent :: "string \<Rightarrow> unit core_result" where
  "check_agent agent =
     (if agent = [] \<or> length agent > MAX_AGENT_BYTES \<or> \<not> list_all is_agent_char agent
      then Inl (validation (''an agent label of 1 to '' @ nat_str MAX_AGENT_BYTES @
        '' letters, digits and `-_.@:` (got `'' @ agent @ ''`)''))
      else Inr ())"

definition into_grant :: "raw_grant \<Rightarrow> role_grant core_result" where
  "into_grant r =
     result_bind (core_role_parse (rg_role r)) (\<lambda>role.
       Inr \<lparr>gr_id = rg_id r, gr_role = role, gr_agent = rg_agent r, gr_scope = rg_item r,
            gr_parent = rg_parent r, gr_granted_at = rg_granted_at r,
            gr_revoked_at = rg_revoked_at r, gr_container = rg_container r\<rparr>)"

text \<open>\<open>.optional()?.map(into_grant).transpose()\<close>.\<close>

definition into_grant_opt :: "raw_grant option \<Rightarrow> role_grant option core_result" where
  "into_grant_opt r =
     (case r of None \<Rightarrow> Inr None | Some raw \<Rightarrow> result_bind (into_grant raw) (\<lambda>g. Inr (Some g)))"

definition get_grant :: "roles_db \<Rightarrow> int \<Rightarrow> role_grant option core_result" where
  "get_grant db i = into_grant_opt (List.find (\<lambda>r. rg_id r = i) (role_grants db))"

section \<open>Minting\<close>

datatype minter = M_Operator | M_Grant role_grant

definition insert_grant ::
  "(string \<Rightarrow> string) \<Rightarrow> string \<Rightarrow> (string, 8 word list) result \<Rightarrow> roles_db
     \<Rightarrow> role \<Rightarrow> string \<Rightarrow> int option \<Rightarrow> int option \<Rightarrow> bool
     \<Rightarrow> (roles_db \<times> role_grant \<times> string) core_result" where
  "insert_grant token_hash now rnd db role agent scope parent container =
     result_bind (fresh_token rnd) (\<lambda>token.
       if token_hash token \<in> rg_token_hash ` set (role_grants db)
       then Inl (Sqlite ''UNIQUE constraint failed: role_grants.token_hash'')
       else
         let i = grants_seq db + 1;
             db' = db\<lparr>role_grants := role_grants db @
               [\<lparr>rg_id = i, rg_token_hash = token_hash token, rg_role = role_as_str role,
                 rg_agent = agent, rg_item = scope, rg_parent = parent, rg_granted_at = now,
                 rg_revoked_at = None, rg_container = container\<rparr>], grants_seq := i\<rparr>
         in result_bind (get_grant db' i) (\<lambda>row.
              case row of
                None \<Rightarrow> Inl (validation ''the grant vanished as it was written'')
              | Some r \<Rightarrow> Inr (db', r, token)))"

definition mint_parent :: "roles_db \<Rightarrow> minter \<Rightarrow> role \<Rightarrow> int option \<Rightarrow> int option core_result" where
  "mint_parent db minter role scope =
     (case minter of
        M_Operator \<Rightarrow> Inr None
      | M_Grant held \<Rightarrow>
          result_bind (get_grant db (gr_id held)) (\<lambda>found.
            case found of
              None \<Rightarrow> Inl (validation ''the minting grant does not exist'')
            | Some g \<Rightarrow>
                if gr_revoked_at g \<noteq> None then Inl (validation ''a revoked grant mints nothing'')
                else if \<not> permits (role_table_rows GRANTABLE) (gr_role g) role
                then Inl (validation (''a '' @ role_as_str (gr_role g) @ '' may not grant '' @
                  role_as_str role @ '' (it may grant: '' @
                  join '', '' (map role_as_str (permissions_of (role_table_rows GRANTABLE) (gr_role g))) @ '')''))
                else if gr_scope g \<noteq> None \<and> scope \<noteq> gr_scope g
                then Inl (validation
                  ''a grant scoped to a task may mint only grants scoped to that same task'')
                else Inr (Some (gr_id g))))"

definition mint ::
  "(string \<Rightarrow> string) \<Rightarrow> string \<Rightarrow> (string, 8 word list) result \<Rightarrow> roles_db
     \<Rightarrow> minter \<Rightarrow> role \<Rightarrow> string \<Rightarrow> int option
     \<Rightarrow> (roles_db \<times> role_grant \<times> string) core_result" where
  "mint token_hash now rnd db minter role agent scope =
     result_bind (check_agent agent) (\<lambda>_.
     result_bind (mint_parent db minter role scope) (\<lambda>parent.
       insert_grant token_hash now rnd db role agent scope parent False))"

section \<open>Resolving\<close>

definition grantable_now :: "roles_db \<Rightarrow> role_grant \<Rightarrow> bool core_result" where
  "grantable_now db g =
     (case gr_parent g of
        None \<Rightarrow> Inr True
      | Some parent \<Rightarrow>
          result_bind (get_grant db parent) (\<lambda>p.
            Inr (case p of
                   None \<Rightarrow> False
                 | Some p \<Rightarrow> permits (role_table_rows GRANTABLE) (gr_role p) (gr_role g))))"

definition resolve_token :: "(string \<Rightarrow> string) \<Rightarrow> roles_db \<Rightarrow> string \<Rightarrow> role_grant option core_result" where
  "resolve_token token_hash db token =
     result_bind (into_grant_opt
       (List.find (\<lambda>r. rg_token_hash r = token_hash token \<and> rg_revoked_at r = None) (role_grants db)))
       (\<lambda>found. case found of
          None \<Rightarrow> Inr None
        | Some g \<Rightarrow> result_bind (grantable_now db g) (\<lambda>ok. Inr (if ok then Some g else None)))"

fun live_rows :: "roles_db \<Rightarrow> raw_grant list \<Rightarrow> (string \<times> role_grant) list core_result" where
  "live_rows db [] = Inr []"
| "live_rows db (r # rs) =
     result_bind (into_grant r) (\<lambda>g.
     result_bind (grantable_now db g) (\<lambda>ok.
     result_bind (live_rows db rs) (\<lambda>out.
       Inr (if ok then (rg_token_hash r, g) # out else out))))"

definition live_by_hash :: "roles_db \<Rightarrow> (string \<times> role_grant) list core_result" where
  "live_by_hash db = live_rows db (filter (\<lambda>r. rg_revoked_at r = None) (role_grants db))"

fun list_rows :: "roles_db \<Rightarrow> bool \<Rightarrow> raw_grant list \<Rightarrow> role_grant list core_result" where
  "list_rows db include_revoked [] = Inr []"
| "list_rows db include_revoked (r # rs) =
     result_bind (into_grant r) (\<lambda>g.
     result_bind (if include_revoked then Inr True else grantable_now db g) (\<lambda>ok.
     result_bind (list_rows db include_revoked rs) (\<lambda>out.
       Inr (if ok then g # out else out))))"

text \<open>The rows are kept in the order of their ids, so \<open>ORDER BY id DESC\<close> reverses them.\<close>

definition list_grants :: "roles_db \<Rightarrow> int option \<Rightarrow> bool \<Rightarrow> role_grant list core_result" where
  "list_grants db scope include_revoked =
     list_rows db include_revoked
       (rev (filter (\<lambda>r. (scope = None \<or> rg_item r = scope) \<and>
          (include_revoked \<or> rg_revoked_at r = None)) (role_grants db)))"

section \<open>Revoking\<close>

text \<open>
  The recursive query \<open>tree\<close>: starting from a set of ids, add every row whose parent is in
  the set until nothing is new. Each round adds at least one row not yet in the set.
\<close>

definition new_children :: "raw_grant list \<Rightarrow> int list \<Rightarrow> int list" where
  "new_children rows seen =
     map rg_id (filter (\<lambda>g. rg_id g \<notin> set seen \<and>
       (case rg_parent g of Some p \<Rightarrow> p \<in> set seen | None \<Rightarrow> False)) rows)"

lemma new_children_smaller:
  assumes "new_children rows seen \<noteq> []"
  shows "card (rg_id ` set rows - set (seen @ new_children rows seen)) < card (rg_id ` set rows - set seen)"
proof (rule psubset_card_mono)
  obtain i js where "new_children rows seen = i # js" using assms by (cases "new_children rows seen") auto
  then have "i \<in> set (new_children rows seen)" by simp
  then have "i \<in> rg_id ` set rows" "i \<notin> set seen" by (auto simp: new_children_def)
  with \<open>i \<in> set (new_children rows seen)\<close>
  show "rg_id ` set rows - set (seen @ new_children rows seen) \<subset> rg_id ` set rows - set seen" by auto
qed simp

function grant_tree :: "raw_grant list \<Rightarrow> int list \<Rightarrow> int list" where
  "grant_tree rows seen =
     (if new_children rows seen = [] then seen
      else grant_tree rows (seen @ new_children rows seen))"
  by pat_completeness auto

termination grant_tree
  by (relation "measure (\<lambda>(rows, seen). card (rg_id ` set rows - set seen))")
     (simp_all del: set_append add: new_children_smaller)

declare grant_tree.simps [simp del]

definition tree_of :: "roles_db \<Rightarrow> int \<Rightarrow> int list" where
  "tree_of db i =
     grant_tree (role_grants db) (map rg_id (filter (\<lambda>r. rg_id r = i) (role_grants db)))"

definition revoke_grant :: "string \<Rightarrow> roles_db \<Rightarrow> int \<Rightarrow> roles_db \<times> nat" where
  "revoke_grant now db i =
     (let tree = tree_of db i;
          hit = (\<lambda>r. rg_id r \<in> set tree \<and> rg_revoked_at r = None)
      in (db\<lparr>role_grants :=
            map (\<lambda>r. if hit r then r\<lparr>rg_revoked_at := Some now\<rparr> else r) (role_grants db)\<rparr>,
          length (filter hit (role_grants db))))"

fun revoke_all :: "string \<Rightarrow> roles_db \<Rightarrow> int list \<Rightarrow> nat \<Rightarrow> roles_db \<times> nat" where
  "revoke_all now db [] n = (db, n)"
| "revoke_all now db (i # rest) n =
     (let (db', k) = revoke_grant now db i in revoke_all now db' rest (n + k))"

definition revoke_task :: "string \<Rightarrow> roles_db \<Rightarrow> int \<Rightarrow> roles_db \<times> nat" where
  "revoke_task now db task =
     revoke_all now db
       (map rg_id (filter (\<lambda>r. rg_item r = Some task \<and> rg_revoked_at r = None) (role_grants db))) 0"

definition rotate_container ::
  "(string \<Rightarrow> string) \<Rightarrow> string \<Rightarrow> (string, 8 word list) result \<Rightarrow> roles_db
     \<Rightarrow> (roles_db \<times> role_grant \<times> string) core_result" where
  "rotate_container token_hash now rnd db =
     (let ids = map rg_id (filter (\<lambda>r. rg_container r \<and> rg_revoked_at r = None) (role_grants db));
          db' = fst (revoke_all now db ids 0)
      in insert_grant token_hash now rnd db' Coordinator CONTAINER_AGENT None None True)"

section \<open>Agent types and bindings\<close>

definition map_agent_type :: "roles_db \<Rightarrow> string \<Rightarrow> role option \<Rightarrow> roles_db core_result" where
  "map_agent_type db agent_type r =
     result_bind (check_agent agent_type) (\<lambda>_.
       if r = Some Operator then Inl (validation ''no agent type may be mapped to operator'')
       else case r of
         Some role \<Rightarrow> Inr (db\<lparr>agent_role_map :=
           (if agent_type \<in> fst ` set (agent_role_map db)
            then map (\<lambda>(t, old). (t, if t = agent_type then role_as_str role else old)) (agent_role_map db)
            else agent_role_map db @ [(agent_type, role_as_str role)])\<rparr>)
       | None \<Rightarrow> Inr (db\<lparr>agent_role_map := filter (\<lambda>(t, _). t \<noteq> agent_type) (agent_role_map db)\<rparr>))"

definition role_for_agent_type :: "roles_db \<Rightarrow> string \<Rightarrow> role option core_result" where
  "role_for_agent_type db agent_type =
     (case map_of (agent_role_map db) agent_type of
        None \<Rightarrow> Inr None
      | Some r \<Rightarrow> result_bind (core_role_parse r) (\<lambda>role. Inr (Some role)))"

datatype bound = B_Now int | B_To int | B_Elsewhere int

definition agent_binding :: "roles_db \<Rightarrow> string \<Rightarrow> string \<Rightarrow> int option" where
  "agent_binding db session agent_id = map_of (agent_bindings db) (session, agent_id)"

definition bind_agent ::
  "roles_db \<Rightarrow> string \<Rightarrow> string \<Rightarrow> int \<Rightarrow> (roles_db \<times> bound) core_result" where
  "bind_agent db session agent_id task =
     result_bind (check_agent agent_id) (\<lambda>_.
       if (session, agent_id) \<notin> fst ` set (agent_bindings db)
       then Inr (db\<lparr>agent_bindings := agent_bindings db @ [((session, agent_id), task)]\<rparr>, B_Now task)
       else case agent_binding db session agent_id of
         None \<Rightarrow> Inl (validation ''the binding vanished as it was written'')
       | Some b \<Rightarrow> Inr (db, if b = task then B_To task else B_Elsewhere b))"

definition unbind_agent :: "roles_db \<Rightarrow> string \<Rightarrow> string \<Rightarrow> int \<Rightarrow> roles_db" where
  "unbind_agent db session agent_id task =
     db\<lparr>agent_bindings := filter (\<lambda>(k, t). \<not> (k = (session, agent_id) \<and> t = task)) (agent_bindings db)\<rparr>"

section \<open>Walks up a chain\<close>

definition MAX_SCOPE_DEPTH :: nat where
  "MAX_SCOPE_DEPTH = 64"

text \<open>
  The loop of \<open>in_scope\<close> and of \<open>descends_from\<close>: at most \<open>n\<close> times, stop when the current
  node is accepted, otherwise go to its parent; both reads can fail.
\<close>

fun in_scope_loop ::
  "(int \<Rightarrow> bool) \<Rightarrow> (int \<Rightarrow> int option) \<Rightarrow> int \<Rightarrow> nat \<Rightarrow> int option \<Rightarrow> bool" where
  "in_scope_loop is_finding parent scope 0 at = False"
| "in_scope_loop is_finding parent scope (Suc n) None = False"
| "in_scope_loop is_finding parent scope (Suc n) (Some i) =
     (if i = scope then True
      else if is_finding i then True
      else in_scope_loop is_finding parent scope n (parent i))"

text \<open>\<open>is_finding_of\<close> and \<open>containment::parent\<close> read the tables they are given.\<close>

definition in_scope :: "(int \<times> int) list \<Rightarrow> (int \<times> int) list \<Rightarrow> int \<Rightarrow> int \<Rightarrow> bool" where
  "in_scope findings containment scope target =
     in_scope_loop (\<lambda>i. (scope, i) \<in> set findings) (map_of containment) scope MAX_SCOPE_DEPTH (Some target)"

fun descends_loop :: "roles_db \<Rightarrow> int \<Rightarrow> nat \<Rightarrow> int option \<Rightarrow> bool core_result" where
  "descends_loop db ancestor 0 at = Inr False"
| "descends_loop db ancestor (Suc n) None = Inr False"
| "descends_loop db ancestor (Suc n) (Some g) =
     (if g = ancestor then Inr True
      else result_bind (get_grant db g) (\<lambda>r.
        descends_loop db ancestor n (case r of None \<Rightarrow> None | Some r \<Rightarrow> gr_parent r)))"

definition descends_from :: "roles_db \<Rightarrow> int \<Rightarrow> int \<Rightarrow> bool core_result" where
  "descends_from db i ancestor = descends_loop db ancestor MAX_SCOPE_DEPTH (Some i)"

end
