(* ===== verification/Roles_Invariant.thy ===== *)
theory Roles_Invariant
  imports Core_Roles
begin

text \<open>
  What the grants of \<open>Core_Roles\<close> promise. The database is followed through every operation
  that writes it; the invariant \<open>grants_ok\<close> holds of each database so reached, and the
  properties say what a token resolves to before and after minting, revoking and rotating.
\<close>

section \<open>Reading a stored role\<close>

interpretation role_enum: stored_enum role_ALL role_as_str
proof
  show "set role_ALL = UNIV"
    by (rule UNIV_eq_I [symmetric]) (rename_tac x, case_tac x, simp_all add: role_ALL_def)
qed (simp add: role_ALL_def)

lemma core_role_parse_Inr: "core_role_parse s = Inr r \<longleftrightarrow> s = role_as_str r"
  using role_enum.from_db_iff [of s r] role_enum.unknown_spelling [of s]
  by (cases "parse_by_name role_ALL role_as_str s")
     (auto simp: core_role_parse_def role_parse_def core_role_def)

lemma role_as_str_eq [simp]: "role_as_str r = role_as_str r' \<longleftrightarrow> r = r'"
  using role_enum.as_str_inj by (auto dest: injD)

definition grant_of :: "role \<Rightarrow> raw_grant \<Rightarrow> role_grant" where
  "grant_of role r =
     \<lparr>gr_id = rg_id r, gr_role = role, gr_agent = rg_agent r, gr_scope = rg_item r,
      gr_parent = rg_parent r, gr_granted_at = rg_granted_at r,
      gr_revoked_at = rg_revoked_at r, gr_container = rg_container r\<rparr>"

lemma grant_of_simps [simp]:
  "gr_id (grant_of role r) = rg_id r" "gr_role (grant_of role r) = role"
  "gr_agent (grant_of role r) = rg_agent r" "gr_scope (grant_of role r) = rg_item r"
  "gr_parent (grant_of role r) = rg_parent r" "gr_revoked_at (grant_of role r) = rg_revoked_at r"
  "gr_container (grant_of role r) = rg_container r"
  by (simp_all add: grant_of_def)

lemma into_grant_role: "rg_role r = role_as_str role \<Longrightarrow> into_grant r = Inr (grant_of role r)"
proof -
  assume "rg_role r = role_as_str role"
  then have "core_role_parse (rg_role r) = Inr role" by (simp add: core_role_parse_Inr)
  then show ?thesis by (simp add: into_grant_def grant_of_def)
qed

lemma into_grant_Inr: "into_grant r = Inr g \<longleftrightarrow> rg_role r = role_as_str (gr_role g) \<and> g = grant_of (gr_role g) r"
proof
  assume "into_grant r = Inr g"
  then obtain role where "core_role_parse (rg_role r) = Inr role" "g = grant_of role r"
    by (auto simp: into_grant_def result_bind_Inr grant_of_def)
  then show "rg_role r = role_as_str (gr_role g) \<and> g = grant_of (gr_role g) r"
    by (auto simp: core_role_parse_Inr)
qed (metis into_grant_role)

section \<open>The invariant\<close>

definition may_grant :: "role \<Rightarrow> role \<Rightarrow> bool" where
  "may_grant r r' \<longleftrightarrow> permits (role_table_rows GRANTABLE) r r'"

lemma may_grant_iff:
  "may_grant r r' \<longleftrightarrow> r = Operator \<or> (r = Coordinator \<and> r' \<in> {Designer, Implementer})"
  by (cases r; cases r') (simp_all add: may_grant_def GRANTABLE_def role_table_rows_def)

text \<open>What a grant owes the grant that minted it.\<close>

definition child_ok :: "raw_grant \<Rightarrow> raw_grant \<Rightarrow> bool" where
  "child_ok h g \<longleftrightarrow>
     rg_id h < rg_id g \<and>
     (\<exists>rh rg. rg_role h = role_as_str rh \<and> rg_role g = role_as_str rg \<and> may_grant rh rg) \<and>
     (rg_item h \<noteq> None \<longrightarrow> rg_item g = rg_item h) \<and>
     (rg_revoked_at h \<noteq> None \<longrightarrow> rg_revoked_at g \<noteq> None)"

definition rows_ok :: "raw_grant list \<Rightarrow> bool" where
  "rows_ok rows \<longleftrightarrow>
     distinct (map rg_id rows) \<and> distinct (map rg_token_hash rows) \<and>
     (\<forall>g \<in> set rows. rg_role g \<in> range role_as_str) \<and>
     (\<forall>g \<in> set rows. \<forall>p. rg_parent g = Some p \<longrightarrow> (\<exists>h \<in> set rows. rg_id h = p \<and> child_ok h g)) \<and>
     (\<forall>g \<in> set rows. rg_container g \<longrightarrow>
        rg_role g = role_as_str Coordinator \<and> rg_item g = None \<and> rg_parent g = None)"

definition grants_ok :: "roles_db \<Rightarrow> bool" where
  "grants_ok db \<longleftrightarrow> rows_ok (role_grants db) \<and> (\<forall>g \<in> set (role_grants db). rg_id g \<le> grants_seq db)"

lemma rows_okD:
  assumes "rows_ok rows"
  shows "distinct (map rg_id rows)" "distinct (map rg_token_hash rows)"
    "g \<in> set rows \<Longrightarrow> \<exists>role. rg_role g = role_as_str role"
    "g \<in> set rows \<Longrightarrow> rg_parent g = Some p \<Longrightarrow> \<exists>h \<in> set rows. rg_id h = p \<and> child_ok h g"
    "g \<in> set rows \<Longrightarrow> rg_container g \<Longrightarrow>
       rg_role g = role_as_str Coordinator \<and> rg_item g = None \<and> rg_parent g = None"
  using assms by (auto simp: rows_ok_def)

lemma rows_ok_same_id:
  "rows_ok rows \<Longrightarrow> g \<in> set rows \<Longrightarrow> h \<in> set rows \<Longrightarrow> rg_id g = rg_id h \<Longrightarrow> g = h"
  by (metis inj_onD distinct_map rows_okD(1))

lemma rows_ok_same_hash:
  "rows_ok rows \<Longrightarrow> g \<in> set rows \<Longrightarrow> h \<in> set rows \<Longrightarrow> rg_token_hash g = rg_token_hash h \<Longrightarrow> g = h"
  by (metis inj_onD distinct_map rows_okD(2))

lemma get_grant_row:
  assumes "rows_ok (role_grants db)" and "g \<in> set (role_grants db)" and "rg_role g = role_as_str role"
  shows "get_grant db (rg_id g) = Inr (Some (grant_of role g))"
  using find_key_unique [OF rows_okD(1) [OF assms(1)] assms(2)] into_grant_role [OF assms(3)]
  by (simp add: get_grant_def into_grant_opt_def)

lemma get_grant_absent: "i \<notin> rg_id ` set (role_grants db) \<Longrightarrow> get_grant db i = Inr None"
proof -
  assume "i \<notin> rg_id ` set (role_grants db)"
  then have "List.find (\<lambda>r. rg_id r = i) (role_grants db) = None" by (auto simp: find_None_iff2)
  then show ?thesis by (simp add: get_grant_def into_grant_opt_def)
qed

lemma get_grant_cases:
  assumes "rows_ok (role_grants db)"
  obtains "i \<notin> rg_id ` set (role_grants db)" "get_grant db i = Inr None"
  | g role where "g \<in> set (role_grants db)" "rg_id g = i" "rg_role g = role_as_str role"
      "get_grant db i = Inr (Some (grant_of role g))"
proof (cases "i \<in> rg_id ` set (role_grants db)")
  case True
  then obtain g where g: "g \<in> set (role_grants db)" "rg_id g = i" by auto
  with rows_okD(3) [OF assms g(1)] get_grant_row [OF assms g(1)] show ?thesis using that(2) by blast
qed (metis get_grant_absent that(1))

section \<open>What a token resolves to\<close>

lemma grantable_ok:
  assumes "rows_ok (role_grants db)" and "g \<in> set (role_grants db)" and "rg_role g = role_as_str role"
  shows "grantable_now db (grant_of role g) = Inr True"
proof (cases "rg_parent g")
  case (Some p)
  with rows_okD(4) [OF assms(1,2)] obtain h where h: "h \<in> set (role_grants db)" "rg_id h = p" "child_ok h g"
    by blast
  then obtain rh where "rg_role h = role_as_str rh" "may_grant rh role"
    using assms(3) by (auto simp: child_ok_def)
  with Some h get_grant_row [OF assms(1) h(1)] show ?thesis
    by (simp add: grantable_now_def may_grant_def)
qed (simp add: grantable_now_def)

text \<open>In a well-formed table a token resolves to its row exactly while that row is live.\<close>

lemma resolve_token_iff:
  assumes "rows_ok (role_grants db)"
  shows "resolve_token hash db token = Inr (Some g) \<longleftrightarrow>
    (\<exists>r \<in> set (role_grants db). rg_token_hash r = hash token \<and> rg_revoked_at r = None \<and>
       rg_role r = role_as_str (gr_role g) \<and> g = grant_of (gr_role g) r)"
    (is "?res = ?row")
  and "resolve_token hash db token = Inr None \<or> (\<exists>g. resolve_token hash db token = Inr (Some g))"
proof -
  let ?find = "List.find (\<lambda>r. rg_token_hash r = hash token \<and> rg_revoked_at r = None) (role_grants db)"
  have some: "resolve_token hash db token = Inr (Some (grant_of role r))"
    if "?find = Some r" "rg_role r = role_as_str role" for r role
    using that into_grant_role [of r role] grantable_ok [OF assms, of r role] find_SomeD [of _ "role_grants db" r]
    by (simp add: resolve_token_def into_grant_opt_def)
  show "resolve_token hash db token = Inr None \<or> (\<exists>g. resolve_token hash db token = Inr (Some g))"
  proof (cases ?find)
    case None
    then show ?thesis by (simp add: resolve_token_def into_grant_opt_def)
  next
    case (Some r)
    with some rows_okD(3) [OF assms, of r] find_SomeD [OF Some] show ?thesis by blast
  qed
  show "?res = ?row"
  proof
    assume res: ?res
    then obtain r where r: "?find = Some r"
      by (cases ?find) (auto simp: resolve_token_def into_grant_opt_def)
    with rows_okD(3) [OF assms, of r] find_SomeD [OF r] obtain role where "rg_role r = role_as_str role" by blast
    with some [OF r] res find_SomeD [OF r] show ?row by auto
  next
    assume ?row
    then obtain r where r: "r \<in> set (role_grants db)" "rg_token_hash r = hash token"
      "rg_revoked_at r = None" "rg_role r = role_as_str (gr_role g)" "g = grant_of (gr_role g) r" by blast
    then have "?find \<noteq> None" by (auto simp: find_None_iff2)
    then obtain r' where r': "?find = Some r'" by blast
    with find_SomeD [OF r'] r rows_ok_same_hash [OF assms] have "r' = r" by metis
    with some [OF r'] r(4,5) show ?res by simp
  qed
qed

section \<open>The subtree a revocation takes\<close>

definition minted_by :: "raw_grant list \<Rightarrow> (int \<times> int) set" where
  "minted_by rows = {(p, i). \<exists>g \<in> set rows. rg_parent g = Some p \<and> rg_id g = i}"

lemma new_children_set:
  "set (new_children rows seen) = {i. i \<notin> set seen \<and> (\<exists>p \<in> set seen. (p, i) \<in> minted_by rows)}"
  by (force simp: new_children_def minted_by_def split: option.splits)

lemma grant_tree_sound: "set (grant_tree rows seen) \<subseteq> (minted_by rows)\<^sup>* `` set seen"
proof (induction rows seen rule: grant_tree.induct)
  case (1 rows seen)
  show ?case
  proof (cases "new_children rows seen = []")
    case False
    have "set (seen @ new_children rows seen) \<subseteq> (minted_by rows)\<^sup>* `` set seen"
      by (auto simp: new_children_set)
    then have "(minted_by rows)\<^sup>* `` set (seen @ new_children rows seen) \<subseteq> (minted_by rows)\<^sup>* `` set seen"
      by (metis Image_mono order_refl relcomp_Image rtrancl_idemp_self_comp)
    with 1 [OF False] False show ?thesis by (subst grant_tree.simps) auto
  qed (subst grant_tree.simps, auto)
qed

lemma grant_tree_closed:
  "set seen \<subseteq> set (grant_tree rows seen) \<and>
   (\<forall>p i. p \<in> set (grant_tree rows seen) \<and> (p, i) \<in> minted_by rows \<longrightarrow> i \<in> set (grant_tree rows seen))"
proof (induction rows seen rule: grant_tree.induct)
  case (1 rows seen)
  show ?case
  proof (cases "new_children rows seen = []")
    case True
    then have "grant_tree rows seen = seen" by (simp add: grant_tree.simps)
    moreover have "i \<in> set seen" if "p \<in> set seen" "(p, i) \<in> minted_by rows" for p i
      using new_children_set [of rows seen] True that by auto
    ultimately show ?thesis by auto
  next
    case False
    then have "grant_tree rows seen = grant_tree rows (seen @ new_children rows seen)"
      by (simp add: grant_tree.simps [of rows seen])
    with 1 [OF False] show ?thesis by auto
  qed
qed

lemma grant_tree_eq: "set (grant_tree rows seen) = (minted_by rows)\<^sup>* `` set seen"
proof
  have "i \<in> set (grant_tree rows seen)" if "(s, i) \<in> (minted_by rows)\<^sup>*" "s \<in> set seen" for s i
    using that by (induction rule: rtrancl_induct) (use grant_tree_closed in blast)+
  then show "(minted_by rows)\<^sup>* `` set seen \<subseteq> set (grant_tree rows seen)" by blast
qed (rule grant_tree_sound)

lemma tree_of_iff:
  "j \<in> set (tree_of db i) \<longleftrightarrow> i \<in> rg_id ` set (role_grants db) \<and> (i, j) \<in> (minted_by (role_grants db))\<^sup>*"
proof -
  have "set (map rg_id (filter (\<lambda>r. rg_id r = i) (role_grants db))) =
      (if i \<in> rg_id ` set (role_grants db) then {i} else {})"
    by auto
  then show ?thesis by (auto simp: tree_of_def grant_tree_eq)
qed

section \<open>Every operation keeps the invariant\<close>

lemma insert_grant_Inr:
  assumes "insert_grant hash now rnd db role agent scope parent container = Inr (db', g, token)"
  obtains nrow where "hash token \<notin> rg_token_hash ` set (role_grants db)"
    "nrow = \<lparr>rg_id = grants_seq db + 1, rg_token_hash = hash token, rg_role = role_as_str role,
       rg_agent = agent, rg_item = scope, rg_parent = parent, rg_granted_at = now,
       rg_revoked_at = None, rg_container = container\<rparr>"
    "db' = db\<lparr>role_grants := role_grants db @ [nrow], grants_seq := grants_seq db + 1\<rparr>"
    "get_grant db' (grants_seq db + 1) = Inr (Some g)"
  using assms
  by (auto simp: insert_grant_def result_bind_Inr Let_def split: if_splits option.splits)

lemma get_after_insert:
  assumes "\<forall>g \<in> set rows. rg_id g < rg_id nrow" and "rg_role nrow = role_as_str role"
    and "role_grants db = rows @ [nrow]"
  shows "get_grant db (rg_id nrow) = Inr (Some (grant_of role nrow))"
proof -
  have "List.find (\<lambda>r. rg_id r = rg_id nrow) (rows @ [nrow]) = Some nrow"
    using assms(1) by (induction rows) auto
  with assms(2,3) show ?thesis by (simp add: get_grant_def into_grant_opt_def into_grant_role)
qed

definition inserted ::
  "(string \<Rightarrow> string) \<Rightarrow> roles_db \<Rightarrow> role \<Rightarrow> string \<Rightarrow> int option \<Rightarrow> int option \<Rightarrow> bool
     \<Rightarrow> roles_db \<Rightarrow> role_grant \<Rightarrow> string \<Rightarrow> bool" where
  "inserted hash db role agent scope parent container db' g token \<longleftrightarrow>
     resolve_token hash db' token = Inr (Some g) \<and>
     gr_role g = role \<and> gr_agent g = agent \<and> gr_scope g = scope \<and> gr_parent g = parent \<and>
     gr_container g = container \<and> gr_id g = grants_seq db + 1 \<and>
     (\<exists>nrow. role_grants db' = role_grants db @ [nrow] \<and> rg_token_hash nrow = hash token \<and>
        g = grant_of role nrow \<and> rg_revoked_at nrow = None \<and> rg_role nrow = role_as_str role)"

lemma insert_grant_ok:
  assumes ok: "grants_ok db"
    and ins: "insert_grant hash now rnd db role agent scope parent container = Inr (db', g, token)"
    and par: "\<And>p. parent = Some p \<Longrightarrow> \<exists>h rh. h \<in> set (role_grants db) \<and> rg_id h = p \<and>
       rg_role h = role_as_str rh \<and> may_grant rh role \<and> (rg_item h \<noteq> None \<longrightarrow> scope = rg_item h) \<and>
       rg_revoked_at h = None"
    and con: "container \<Longrightarrow> role = Coordinator \<and> scope = None \<and> parent = None"
  shows "grants_ok db' \<and> inserted hash db role agent scope parent container db' g token"
proof -
  from ins obtain nrow where new: "hash token \<notin> rg_token_hash ` set (role_grants db)"
    and nrow: "nrow = \<lparr>rg_id = grants_seq db + 1, rg_token_hash = hash token, rg_role = role_as_str role,
       rg_agent = agent, rg_item = scope, rg_parent = parent, rg_granted_at = now,
       rg_revoked_at = None, rg_container = container\<rparr>"
    and db': "db' = db\<lparr>role_grants := role_grants db @ [nrow], grants_seq := grants_seq db + 1\<rparr>"
    and g: "get_grant db' (grants_seq db + 1) = Inr (Some g)"
    by (rule insert_grant_Inr)
  have less: "\<forall>h \<in> set (role_grants db). rg_id h < rg_id nrow"
    using ok nrow by (force simp: grants_ok_def)
  have "g = grant_of role nrow"
    using get_after_insert [OF less, of role db'] g nrow db' by simp
  have rows: "rows_ok (role_grants db)" using ok by (simp add: grants_ok_def)
  have "rg_id nrow \<notin> rg_id ` set (role_grants db)" using less by auto
  moreover have "\<exists>h \<in> set (role_grants db). rg_id h = p \<and> child_ok h nrow" if "parent = Some p" for p
    using par [OF that] less nrow by (auto simp: child_ok_def)
  ultimately have "rows_ok (role_grants db @ [nrow])"
    using rows new con nrow unfolding rows_ok_def by auto
  moreover have "\<forall>h \<in> set (role_grants db @ [nrow]). rg_id h \<le> grants_seq db + 1"
    using less nrow by auto
  ultimately have ok': "grants_ok db'" using db' by (simp add: grants_ok_def)
  moreover have "resolve_token hash db' token = Inr (Some g)"
    using \<open>g = grant_of role nrow\<close> nrow db' ok'
    by (subst resolve_token_iff) (auto simp: grants_ok_def)
  ultimately show ?thesis
    using \<open>g = grant_of role nrow\<close> nrow db' by (simp add: inserted_def grant_of_def)
qed

lemma mint_parent_ok:
  assumes "grants_ok db" and "mint_parent db minter role scope = Inr parent" and "parent = Some p"
  shows "\<exists>h rh. h \<in> set (role_grants db) \<and> rg_id h = p \<and>
     rg_role h = role_as_str rh \<and> may_grant rh role \<and> (rg_item h \<noteq> None \<longrightarrow> scope = rg_item h) \<and>
     rg_revoked_at h = None"
proof -
  from assms(2,3) obtain held where m: "minter = M_Grant held" by (cases minter) (auto simp: mint_parent_def)
  have rows: "rows_ok (role_grants db)" using assms(1) by (simp add: grants_ok_def)
  show ?thesis
  proof (cases rule: get_grant_cases [OF rows, of "gr_id held"])
    case 1
    with assms(2,3) m show ?thesis by (simp add: mint_parent_def)
  next
    case (2 h rh)
    with assms(2,3) m show ?thesis
      by (auto simp: mint_parent_def may_grant_def split: if_splits)
  qed
qed

lemma mint_ok:
  assumes ok: "grants_ok db" and "mint hash now rnd db minter role agent scope = Inr (db', g, token)"
  shows "grants_ok db'"
    "\<exists>parent. mint_parent db minter role scope = Inr parent \<and>
       inserted hash db role agent scope parent False db' g token"
proof -
  from assms(2) obtain parent where p: "mint_parent db minter role scope = Inr parent"
    and i: "insert_grant hash now rnd db role agent scope parent False = Inr (db', g, token)"
    by (auto simp: mint_def result_bind_Inr)
  from insert_grant_ok [OF ok i mint_parent_ok [OF ok p]] p
  show "grants_ok db'" "\<exists>parent. mint_parent db minter role scope = Inr parent \<and>
       inserted hash db role agent scope parent False db' g token"
    by blast+
qed

section \<open>Revocation\<close>

lemma revoke_grant_rows:
  "role_grants (fst (revoke_grant now db i)) =
     map (\<lambda>r. if rg_id r \<in> set (tree_of db i) \<and> rg_revoked_at r = None then r\<lparr>rg_revoked_at := Some now\<rparr> else r)
       (role_grants db)"
  "grants_seq (fst (revoke_grant now db i)) = grants_seq db"
  by (simp_all add: revoke_grant_def Let_def)

text \<open>Marking a set of rows that is closed under minting keeps a table well formed.\<close>

definition mark_rows :: "string \<Rightarrow> (int \<Rightarrow> bool) \<Rightarrow> raw_grant \<Rightarrow> raw_grant" where
  "mark_rows now hit r = (if hit (rg_id r) \<and> rg_revoked_at r = None then r\<lparr>rg_revoked_at := Some now\<rparr> else r)"

lemma mark_rows_simps [simp]:
  "rg_id (mark_rows now hit r) = rg_id r" "rg_token_hash (mark_rows now hit r) = rg_token_hash r"
  "rg_role (mark_rows now hit r) = rg_role r" "rg_item (mark_rows now hit r) = rg_item r"
  "rg_parent (mark_rows now hit r) = rg_parent r" "rg_container (mark_rows now hit r) = rg_container r"
  "rg_revoked_at (mark_rows now hit r) = None \<longleftrightarrow> rg_revoked_at r = None \<and> \<not> hit (rg_id r)"
  by (auto simp: mark_rows_def)

lemma mark_rows_ok:
  assumes "rows_ok rows" and closed: "\<And>p i. hit p \<Longrightarrow> (p, i) \<in> minted_by rows \<Longrightarrow> hit i"
  shows "rows_ok (map (mark_rows now hit) rows)"
proof -
  have "\<exists>h \<in> set rows. rg_id h = p \<and> child_ok (mark_rows now hit h) (mark_rows now hit g)"
    if g: "g \<in> set rows" "rg_parent g = Some p" for g p
  proof -
    from rows_okD(4) [OF assms(1) g] obtain h where h: "h \<in> set rows" "rg_id h = p" "child_ok h g" by blast
    have "hit (rg_id h) \<Longrightarrow> hit (rg_id g)"
      using closed g h by (auto simp: minted_by_def)
    with h show ?thesis by (auto simp: child_ok_def)
  qed
  with assms(1) show ?thesis
    unfolding rows_ok_def by (auto simp: comp_def)
qed

lemma minted_by_mark [simp]: "minted_by (map (mark_rows now hit) rows) = minted_by rows"
  by (simp add: minted_by_def)

lemma revoke_grant_mark:
  "role_grants (fst (revoke_grant now db i)) =
     map (mark_rows now (\<lambda>j. j \<in> set (tree_of db i))) (role_grants db)"
  by (simp add: revoke_grant_rows mark_rows_def)

lemma tree_of_closed:
  "p \<in> set (tree_of db i) \<Longrightarrow> (p, j) \<in> minted_by (role_grants db) \<Longrightarrow> j \<in> set (tree_of db i)"
  by (auto simp: tree_of_iff intro: rtrancl_into_rtrancl)

lemma revoke_grant_ok: "grants_ok db \<Longrightarrow> grants_ok (fst (revoke_grant now db i))"
  using mark_rows_ok [of "role_grants db" "\<lambda>j. j \<in> set (tree_of db i)" now, OF _ tree_of_closed]
  by (auto simp: grants_ok_def revoke_grant_mark revoke_grant_rows(2))

text \<open>Revoking a list of grants marks the union of their subtrees.\<close>

lemma mark_rows_twice:
  "mark_rows now hit' (mark_rows now hit r) = mark_rows now (\<lambda>j. hit j \<or> hit' j) r"
  by (auto simp: mark_rows_def)

lemma tree_of_mark:
  "role_grants db' = map (mark_rows now hit) (role_grants db) \<Longrightarrow> j \<in> set (tree_of db' i) \<longleftrightarrow> j \<in> set (tree_of db i)"
  by (simp add: tree_of_iff image_image)

lemma revoke_all_rows:
  "role_grants (fst (revoke_all now db ids n)) =
     map (mark_rows now (\<lambda>j. \<exists>i \<in> set ids. j \<in> set (tree_of db i))) (role_grants db) \<and>
   grants_seq (fst (revoke_all now db ids n)) = grants_seq db"
proof (induction ids arbitrary: db n)
  case Nil
  have "mark_rows now (\<lambda>j. False) r = r" for r by (simp add: mark_rows_def)
  then show ?case by (simp add: map_idI)
next
  case (Cons i ids)
  obtain db' k where r: "revoke_grant now db i = (db', k)" by fastforce
  have db': "role_grants db' = map (mark_rows now (\<lambda>j. j \<in> set (tree_of db i))) (role_grants db)"
    "grants_seq db' = grants_seq db"
    using revoke_grant_mark [of now db i] revoke_grant_rows(2) [of now db i] r by simp_all
  have "(\<lambda>j. \<exists>i' \<in> set ids. j \<in> set (tree_of db' i')) = (\<lambda>j. \<exists>i' \<in> set ids. j \<in> set (tree_of db i'))"
    using tree_of_mark [OF db'(1)] by blast
  with Cons.IH [of db' "n + k"] db' r show ?case
    by (simp add: comp_def mark_rows_twice)
qed

lemma revoke_all_ok:
  assumes "grants_ok db"
  shows "grants_ok (fst (revoke_all now db ids n))"
proof -
  let ?hit = "\<lambda>j. \<exists>i \<in> set ids. j \<in> set (tree_of db i)"
  have "rows_ok (map (mark_rows now ?hit) (role_grants db))"
    using assms by (intro mark_rows_ok) (auto simp: grants_ok_def intro: tree_of_closed)
  with assms show ?thesis
    using revoke_all_rows [of now db ids n] by (auto simp: grants_ok_def)
qed

section \<open>Databases the operations build\<close>

inductive roles_step :: "(string \<Rightarrow> string) \<Rightarrow> roles_db \<Rightarrow> roles_db \<Rightarrow> bool" for hash where
  step_mint: "mint hash now rnd db minter role agent scope = Inr (db', g, token) \<Longrightarrow> roles_step hash db db'"
| step_revoke: "roles_step hash db (fst (revoke_grant now db i))"
| step_revoke_task: "roles_step hash db (fst (revoke_task now db task))"
| step_rotate: "rotate_container hash now rnd db = Inr (db', g, token) \<Longrightarrow> roles_step hash db db'"
| step_map: "map_agent_type db t r = Inr db' \<Longrightarrow> roles_step hash db db'"
| step_bind: "bind_agent db session agent task = Inr (db', b) \<Longrightarrow> roles_step hash db db'"
| step_unbind: "roles_step hash db (unbind_agent db session agent task)"

inductive roles_reachable :: "(string \<Rightarrow> string) \<Rightarrow> roles_db \<Rightarrow> bool" for hash where
  reach_empty: "roles_reachable hash empty_roles_db"
| reach_step: "roles_reachable hash db \<Longrightarrow> roles_step hash db db' \<Longrightarrow> roles_reachable hash db'"

lemma grants_ok_same_rows:
  "grants_ok db \<Longrightarrow> role_grants db' = role_grants db \<Longrightarrow> grants_seq db' = grants_seq db \<Longrightarrow> grants_ok db'"
  by (simp add: grants_ok_def)

lemma rotate_container_ok:
  assumes "grants_ok db" and "rotate_container hash now rnd db = Inr (db', g, token)"
  shows "grants_ok db'"
    "inserted hash (fst (revoke_all now db
       (map rg_id (filter (\<lambda>r. rg_container r \<and> rg_revoked_at r = None) (role_grants db))) 0))
       Coordinator CONTAINER_AGENT None None True db' g token"
proof -
  have ins: "insert_grant hash now rnd (fst (revoke_all now db
       (map rg_id (filter (\<lambda>r. rg_container r \<and> rg_revoked_at r = None) (role_grants db))) 0))
       Coordinator CONTAINER_AGENT None None True = Inr (db', g, token)"
    using assms(2) by (simp add: rotate_container_def Let_def)
  note fin = insert_grant_ok [OF revoke_all_ok [OF assms(1)] ins]
  from fin show "grants_ok db'" by blast
  from fin show "inserted hash (fst (revoke_all now db
       (map rg_id (filter (\<lambda>r. rg_container r \<and> rg_revoked_at r = None) (role_grants db))) 0))
       Coordinator CONTAINER_AGENT None None True db' g token" by blast
qed

lemma roles_step_ok: "roles_step hash db db' \<Longrightarrow> grants_ok db \<Longrightarrow> grants_ok db'"
proof (induction rule: roles_step.induct)
  case (step_mint now rnd db minter role agent scope db' g token)
  then show ?case by (metis mint_ok(1))
next
  case (step_rotate now rnd db db' g token)
  then show ?case by (metis rotate_container_ok(1))
next
  case (step_map db t r db')
  then show ?case
    by (elim grants_ok_same_rows)
       (auto simp: map_agent_type_def result_bind_Inr split: if_splits option.splits)
next
  case (step_bind db session agent task db' b)
  then show ?case
    by (elim grants_ok_same_rows) (auto simp: bind_agent_def result_bind_Inr split: if_splits option.splits)
qed (auto intro: revoke_grant_ok revoke_all_ok elim: grants_ok_same_rows
      simp: revoke_task_def unbind_agent_def)

lemma roles_reachable_ok: "roles_reachable hash db \<Longrightarrow> grants_ok db"
proof (induction rule: roles_reachable.induct)
  case reach_empty
  show ?case by (simp add: grants_ok_def rows_ok_def empty_roles_db_def)
qed (rule roles_step_ok)

section \<open>Chains of grants\<close>

lemma minted_edge:
  assumes "rows_ok rows" and "g \<in> set rows" and "(p, rg_id g) \<in> minted_by rows"
  shows "\<exists>h \<in> set rows. rg_id h = p \<and> child_ok h g"
proof -
  from assms(3) obtain g' where g': "g' \<in> set rows" "rg_parent g' = Some p" "rg_id g' = rg_id g"
    by (auto simp: minted_by_def)
  with rows_ok_same_id [OF assms(1) _ assms(2)] have "g' = g" by blast
  with g' rows_okD(4) [OF assms(1,2)] show ?thesis by blast
qed

text \<open>Along a chain of grants revocation goes down and a scope is kept.\<close>

lemma minted_chain:
  assumes "rows_ok rows" and "(rg_id a, j) \<in> (minted_by rows)\<^sup>*" and "a \<in> set rows"
    and "g \<in> set rows" and "rg_id g = j"
  shows "(rg_revoked_at a \<noteq> None \<longrightarrow> rg_revoked_at g \<noteq> None) \<and> (rg_item a \<noteq> None \<longrightarrow> rg_item g = rg_item a) \<and>
    (g = a \<or> rg_role a = role_as_str Operator \<or>
     (rg_role a = role_as_str Coordinator \<and> rg_role g \<in> {role_as_str Designer, role_as_str Implementer}))"
  using assms(2,4,5)
proof (induction arbitrary: g rule: rtrancl_induct)
  case base
  with assms(1,3) rows_ok_same_id have "g = a" by metis
  then show ?case by simp
next
  case (step p j)
  from minted_edge [OF assms(1) step.prems(1), of p] step.hyps(2) step.prems(2)
  obtain h where h: "h \<in> set rows" "rg_id h = p" "child_ok h g" by blast
  with step.IH [of h] show ?case
    by (auto simp: child_ok_def may_grant_iff)
qed

section \<open>Tokens before and after\<close>

lemma resolve_token_cong:
  assumes "rows_ok (role_grants db)" "rows_ok (role_grants db')"
    and "\<And>g. resolve_token hash db token = Inr (Some g) \<longleftrightarrow> resolve_token hash db' token = Inr (Some g)"
  shows "resolve_token hash db token = resolve_token hash db' token"
  using resolve_token_iff(2) [OF assms(1), of hash token] resolve_token_iff(2) [OF assms(2), of hash token] assms(3)
  by metis

lemma grant_of_mark_live:
  "rg_revoked_at (mark_rows now hit r) = None \<Longrightarrow> mark_rows now hit r = r"
  by (auto simp: mark_rows_def split: if_splits)

text \<open>Marking rows takes away exactly the tokens whose grants are marked.\<close>

lemma resolve_after_mark:
  assumes "rows_ok (role_grants db)" and "rows_ok (role_grants db')"
    and "role_grants db' = map (mark_rows now hit) (role_grants db)"
  shows "resolve_token hash db' token = Inr (Some g) \<longleftrightarrow>
    resolve_token hash db token = Inr (Some g) \<and> \<not> hit (gr_id g)"
proof -
  have "(\<exists>r \<in> set (role_grants db). rg_token_hash r = hash token \<and> (rg_revoked_at r = None \<and> \<not> hit (rg_id r)) \<and>
      rg_role r = role_as_str (gr_role g) \<and> g = grant_of (gr_role g) (mark_rows now hit r)) \<longleftrightarrow>
    (\<exists>r \<in> set (role_grants db). rg_token_hash r = hash token \<and> rg_revoked_at r = None \<and>
      rg_role r = role_as_str (gr_role g) \<and> g = grant_of (gr_role g) r \<and> \<not> hit (rg_id r))"
    by (rule bex_cong) (auto simp: mark_rows_def)
  moreover have "g = grant_of (gr_role g) r \<Longrightarrow> rg_id r = gr_id g" for r
    by (metis grant_of_simps(1))
  ultimately show ?thesis
    unfolding resolve_token_iff [OF assms(1)] resolve_token_iff [OF assms(2)] assms(3) by auto
qed

lemma live_in_table:
  "rows_ok (role_grants db) \<Longrightarrow> resolve_token hash db token = Inr (Some g) \<Longrightarrow>
     (i, gr_id g) \<in> (minted_by (role_grants db))\<^sup>* \<longleftrightarrow> gr_id g \<in> set (tree_of db i)"
proof -
  assume ok: "rows_ok (role_grants db)" and res: "resolve_token hash db token = Inr (Some g)"
  have "gr_id g \<in> rg_id ` set (role_grants db)"
    using res unfolding resolve_token_iff [OF ok] by (metis grant_of_simps(1) image_eqI)
  moreover have "p \<in> rg_id ` set (role_grants db)" if "(p, j) \<in> minted_by (role_grants db)" for p j
    using that rows_okD(4) [OF ok] by (fastforce simp: minted_by_def)
  ultimately show ?thesis
    by (auto simp: tree_of_iff elim: converse_rtranclE)
qed

section \<open>What a credential is worth\<close>

text \<open>
  C35. What a presented token proves. In every database the operations can build, a token that
  resolves to a grant names a stored, unrevoked row, every grant above it in the chain of
  minting is unrevoked too, none of them was scoped to another task, and a grant that is
  neither a designer's nor an implementer's was made by operators only.
\<close>

theorem resolve_live_chain:
  assumes "roles_reachable hash db" and "resolve_token hash db token = Inr (Some g)"
  shows "\<exists>r \<in> set (role_grants db). rg_token_hash r = hash token \<and> into_grant r = Inr g \<and>
    (\<forall>a \<in> set (role_grants db). (rg_id a, rg_id r) \<in> (minted_by (role_grants db))\<^sup>* \<longrightarrow>
       rg_revoked_at a = None \<and> (rg_item a \<noteq> None \<longrightarrow> gr_scope g = rg_item a) \<and>
       (a \<noteq> r \<and> gr_role g \<noteq> Designer \<and> gr_role g \<noteq> Implementer \<longrightarrow> rg_role a = role_as_str Operator))"
proof -
  have rows: "rows_ok (role_grants db)"
    using roles_reachable_ok [OF assms(1)] by (simp add: grants_ok_def)
  from assms(2) obtain r where r: "r \<in> set (role_grants db)" "rg_token_hash r = hash token"
    "rg_revoked_at r = None" "rg_role r = role_as_str (gr_role g)" "g = grant_of (gr_role g) r"
    unfolding resolve_token_iff [OF rows] by blast
  have "gr_scope g = rg_item r" using r(5) by (metis grant_of_simps(4))
  have chain: "rg_revoked_at a = None \<and> (rg_item a \<noteq> None \<longrightarrow> gr_scope g = rg_item a) \<and>
      (a \<noteq> r \<and> gr_role g \<noteq> Designer \<and> gr_role g \<noteq> Implementer \<longrightarrow> rg_role a = role_as_str Operator)"
    if "a \<in> set (role_grants db)" "(rg_id a, rg_id r) \<in> (minted_by (role_grants db))\<^sup>*" for a
    using minted_chain [OF rows that(2,1) r(1) refl] r(3,4) \<open>gr_scope g = rg_item r\<close>
    by (auto simp del: role_as_str.simps)
  have "into_grant r = Inr g" using r(4,5) by (simp add: into_grant_Inr)
  with chain r(1,2) show ?thesis by blast
qed

text \<open>A database with a coordinator's credential for task 7 and a designer it minted.\<close>

definition demo_coordinator :: raw_grant where
  "demo_coordinator =
     \<lparr>rg_id = 1, rg_token_hash = ''0a'', rg_role = ''coordinator'', rg_agent = ''c'', rg_item = Some 7,
      rg_parent = None, rg_granted_at = ''t1'', rg_revoked_at = None, rg_container = False\<rparr>"

definition demo_designer :: raw_grant where
  "demo_designer =
     \<lparr>rg_id = 2, rg_token_hash = ''ff'', rg_role = ''designer'', rg_agent = ''d'', rg_item = Some 7,
      rg_parent = Some 1, rg_granted_at = ''t2'', rg_revoked_at = None, rg_container = False\<rparr>"

definition demo_db1 :: roles_db where
  "demo_db1 = empty_roles_db\<lparr>role_grants := [demo_coordinator], grants_seq := 1\<rparr>"

definition demo_db :: roles_db where
  "demo_db = empty_roles_db\<lparr>role_grants := [demo_coordinator, demo_designer], grants_seq := 2\<rparr>"

lemma demo_mint1:
  "mint (\<lambda>t. t) ''t1'' (Inr [10]) empty_roles_db M_Operator Coordinator ''c'' (Some 7) =
     Inr (demo_db1, grant_of Coordinator demo_coordinator, ''0a'')"
  by code_simp

lemma demo_mint2:
  "mint (\<lambda>t. t) ''t2'' (Inr [255]) demo_db1 (M_Grant (grant_of Coordinator demo_coordinator)) Designer ''d'' (Some 7) =
     Inr (demo_db, grant_of Designer demo_designer, ''ff'')"
  by code_simp

lemma demo_reachable: "roles_reachable (\<lambda>t. t) demo_db"
  using reach_step [OF reach_step [OF reach_empty step_mint [OF demo_mint1]] step_mint [OF demo_mint2]] .

lemma demo_resolve: "resolve_token (\<lambda>t. t) demo_db ''ff'' = Inr (Some (grant_of Designer demo_designer))"
  by code_simp

theorem resolve_live_chain_witness:
  "resolve_token (\<lambda>t. t) demo_db ''ff'' = Inr (Some (grant_of Designer demo_designer)) \<and>
   (\<exists>r. r \<in> set (role_grants demo_db) \<and> rg_token_hash r = ''ff'')"
  using resolve_live_chain [OF demo_reachable demo_resolve] demo_resolve by blast

text \<open>
  C36. Revocation is recursive and exact. After a grant is revoked, a token resolves to nothing
  when its grant is that one or was minted, directly or not, by it, and otherwise to what
  it resolved to before; the count returned is the number of live grants in that subtree.
\<close>

theorem revoke_grant_cuts:
  assumes "roles_reachable hash db"
  shows "resolve_token hash (fst (revoke_grant now db i)) token =
      (case resolve_token hash db token of
         Inr (Some g) \<Rightarrow>
           if (i, gr_id g) \<in> (minted_by (role_grants db))\<^sup>* then Inr None else Inr (Some g)
       | other \<Rightarrow> other) \<and>
    snd (revoke_grant now db i) =
      card {r \<in> set (role_grants db). rg_revoked_at r = None \<and> rg_id r \<in> set (tree_of db i)}"
proof
  have ok: "rows_ok (role_grants db)" and ok': "rows_ok (role_grants (fst (revoke_grant now db i)))"
    using roles_reachable_ok [OF assms] revoke_grant_ok [OF roles_reachable_ok [OF assms]]
    by (simp_all add: grants_ok_def)
  note after = resolve_after_mark [OF ok ok' revoke_grant_mark, of hash token]
  show "resolve_token hash (fst (revoke_grant now db i)) token =
      (case resolve_token hash db token of
         Inr (Some g) \<Rightarrow>
           if (i, gr_id g) \<in> (minted_by (role_grants db))\<^sup>* then Inr None else Inr (Some g)
       | other \<Rightarrow> other)"
    using resolve_token_iff(2) [OF ok, of hash token] resolve_token_iff(2) [OF ok', of hash token] after
      live_in_table [OF ok, of hash token _ i]
    by auto
  have "distinct (role_grants db)" using rows_okD(1) [OF ok] by (simp add: distinct_map)
  then show "snd (revoke_grant now db i) =
      card {r \<in> set (role_grants db). rg_revoked_at r = None \<and> rg_id r \<in> set (tree_of db i)}"
    by (auto simp: revoke_grant_def Let_def distinct_card [symmetric] intro: arg_cong [where f = card])
qed

theorem revoke_grant_cuts_witness:
  "resolve_token (\<lambda>t. t) (fst (revoke_grant ''t3'' demo_db 1)) ''ff'' = Inr None \<and>
   snd (revoke_grant ''t3'' demo_db 1) = 2"
proof -
  have "(1, 2) \<in> (minted_by (role_grants demo_db))\<^sup>*"
    by (rule r_into_rtrancl) (simp add: minted_by_def demo_db_def demo_designer_def)
  then have "(1, gr_id (grant_of Designer demo_designer)) \<in> (minted_by (role_grants demo_db))\<^sup>*"
    by (simp add: demo_designer_def)
  moreover have "snd (revoke_grant ''t3'' demo_db 1) = 2" by code_simp
  ultimately show ?thesis
    using revoke_grant_cuts [OF demo_reachable, of "''t3''" 1 "''ff''"] demo_resolve by simp
qed

text \<open>
  What minting gives. A grant minted in any reachable database is what the returned token
  resolves to, with the role, label and scope asked for; no other token resolves differently;
  and when a grant minted it, that grant is its parent, is live now, may grant the role, and
  shares its scope if it has one.
\<close>

theorem mint_resolves:
  assumes "roles_reachable hash db" and "mint hash now rnd db minter role agent scope = Inr (db', g, token)"
  shows "resolve_token hash db' token = Inr (Some g) \<and>
    gr_role g = role \<and> gr_agent g = agent \<and> gr_scope g = scope \<and> \<not> gr_container g \<and>
    gr_id g \<notin> rg_id ` set (role_grants db) \<and>
    (\<forall>other. hash other \<noteq> hash token \<longrightarrow> resolve_token hash db' other = resolve_token hash db other) \<and>
    (case minter of
       M_Operator \<Rightarrow> gr_parent g = None
     | M_Grant held \<Rightarrow> gr_parent g = Some (gr_id held) \<and>
         (\<exists>h \<in> set (role_grants db). \<exists>rh. rg_id h = gr_id held \<and> rg_revoked_at h = None \<and>
            rg_role h = role_as_str rh \<and> permits (role_table_rows GRANTABLE) rh role \<and>
            (rg_item h \<noteq> None \<longrightarrow> scope = rg_item h)))"
proof -
  have ok: "grants_ok db" by (rule roles_reachable_ok [OF assms(1)])
  note minted = mint_ok [OF ok assms(2)]
  from minted(2) obtain parent where p: "mint_parent db minter role scope = Inr parent"
    and i: "inserted hash db role agent scope parent False db' g token" by blast
  from i obtain nrow where row: "role_grants db' = role_grants db @ [nrow]" "rg_token_hash nrow = hash token"
    by (auto simp: inserted_def)
  have "gr_id g \<notin> rg_id ` set (role_grants db)"
    using i ok by (auto simp: inserted_def grants_ok_def)
  moreover have "resolve_token hash db' other = resolve_token hash db other" if "hash other \<noteq> hash token" for other
  proof (rule resolve_token_cong)
    show ok': "rows_ok (role_grants db')" and ok'': "rows_ok (role_grants db)"
      using minted(1) ok by (simp_all add: grants_ok_def)
    show "resolve_token hash db' other = Inr (Some g') \<longleftrightarrow> resolve_token hash db other = Inr (Some g')" for g'
      unfolding resolve_token_iff [OF ok'] resolve_token_iff [OF ok''] using row that by auto
  qed
  moreover have "case minter of
       M_Operator \<Rightarrow> gr_parent g = None
     | M_Grant held \<Rightarrow> gr_parent g = Some (gr_id held) \<and>
         (\<exists>h \<in> set (role_grants db). \<exists>rh. rg_id h = gr_id held \<and> rg_revoked_at h = None \<and>
            rg_role h = role_as_str rh \<and> permits (role_table_rows GRANTABLE) rh role \<and>
            (rg_item h \<noteq> None \<longrightarrow> scope = rg_item h))"
  proof (cases minter)
    case M_Operator
    with p i show ?thesis by (simp add: mint_parent_def inserted_def)
  next
    case (M_Grant held)
    have rows: "rows_ok (role_grants db)" using ok by (simp add: grants_ok_def)
    from M_Grant p have "parent = Some (gr_id held)"
      by (cases rule: get_grant_cases [OF rows, of "gr_id held"])
         (auto simp: mint_parent_def split: if_splits)
    with mint_parent_ok [OF ok p this] i M_Grant show ?thesis
      by (simp add: inserted_def may_grant_def) blast
  qed
  ultimately show ?thesis using i by (simp add: inserted_def)
qed

theorem mint_resolves_witness:
  "resolve_token (\<lambda>t. t) demo_db ''ff'' = Inr (Some (grant_of Designer demo_designer)) \<and>
   resolve_token (\<lambda>t. t) demo_db ''0a'' = resolve_token (\<lambda>t. t) demo_db1 ''0a''"
  using mint_resolves [OF reach_step [OF reach_empty step_mint [OF demo_mint1]] demo_mint2] by simp

lemma only_last_satisfies: "(\<And>r. r \<in> set xs \<Longrightarrow> \<not> P r) \<Longrightarrow> P y \<Longrightarrow> {r \<in> set (xs @ [y]). P r} = {y}"
  by auto

text \<open>
  Rotation replaces the container's credential: afterwards exactly one live row is a
  container credential, the new one, an unscoped coordinator's the returned token resolves
  to, and every token that resolved to an earlier container credential or to anything minted
  under one resolves to nothing.
\<close>

theorem rotate_container_single:
  assumes "roles_reachable hash db" and "rotate_container hash now rnd db = Inr (db', g, token)"
  shows "(\<exists>r. {r \<in> set (role_grants db'). rg_container r \<and> rg_revoked_at r = None} = {r} \<and>
       rg_token_hash r = hash token) \<and>
    resolve_token hash db' token = Inr (Some g) \<and> gr_role g = Coordinator \<and> gr_scope g = None \<and>
    (\<forall>old g'. hash old \<noteq> hash token \<longrightarrow>
       (resolve_token hash db' old = Inr (Some g') \<longleftrightarrow>
          resolve_token hash db old = Inr (Some g') \<and>
          \<not> (\<exists>c \<in> set (role_grants db). rg_container c \<and> rg_revoked_at c = None \<and>
               (rg_id c, gr_id g') \<in> (minted_by (role_grants db))\<^sup>*)))"
proof -
  let ?ids = "map rg_id (filter (\<lambda>r. rg_container r \<and> rg_revoked_at r = None) (role_grants db))"
  let ?hit = "\<lambda>j. \<exists>i \<in> set ?ids. j \<in> set (tree_of db i)"
  let ?mid = "fst (revoke_all now db ?ids 0)"
  have ok: "grants_ok db" by (rule roles_reachable_ok [OF assms(1)])
  then have rows: "rows_ok (role_grants db)" and mid: "rows_ok (role_grants ?mid)"
    using revoke_all_ok [OF ok, of now ?ids 0] by (simp_all add: grants_ok_def)
  have rows': "rows_ok (role_grants db')"
    using rotate_container_ok(1) [OF ok assms(2)] by (simp add: grants_ok_def)
  have ins: "inserted hash ?mid Coordinator CONTAINER_AGENT None None True db' g token"
    by (rule rotate_container_ok(2) [OF ok assms(2)])
  have mark: "role_grants ?mid = map (mark_rows now ?hit) (role_grants db)"
    using revoke_all_rows by blast
  from ins obtain nrow where n: "role_grants db' = role_grants ?mid @ [nrow]" "rg_token_hash nrow = hash token"
    "g = grant_of Coordinator nrow" "rg_revoked_at nrow = None" "gr_container g"
    by (auto simp: inserted_def)
  have "rg_container nrow" using n(3,5) by simp
  have "\<not> (rg_container r \<and> rg_revoked_at r = None)" if "r \<in> set (role_grants ?mid)" for r
  proof
    assume live: "rg_container r \<and> rg_revoked_at r = None"
    from that obtain x where x: "x \<in> set (role_grants db)" "r = mark_rows now ?hit x"
      unfolding mark by auto
    with live have "x \<in> set (filter (\<lambda>r. rg_container r \<and> rg_revoked_at r = None) (role_grants db))" by simp
    then have "?hit (rg_id x)" using x(1) by (force simp: tree_of_iff)
    with live x(2) show False using mark_rows_simps(7) [of now ?hit x] by blast
  qed
  then have "{r \<in> set (role_grants db'). rg_container r \<and> rg_revoked_at r = None} = {nrow}"
    unfolding n(1) using n(4) \<open>rg_container nrow\<close> by (intro only_last_satisfies) simp_all
  moreover have "resolve_token hash db' old = Inr (Some g') \<longleftrightarrow>
      resolve_token hash db old = Inr (Some g') \<and>
      \<not> (\<exists>c \<in> set (role_grants db). rg_container c \<and> rg_revoked_at c = None \<and>
           (rg_id c, gr_id g') \<in> (minted_by (role_grants db))\<^sup>*)" if "hash old \<noteq> hash token" for old g'
  proof -
    have "resolve_token hash db' old = Inr (Some g') \<longleftrightarrow> resolve_token hash ?mid old = Inr (Some g')"
      unfolding resolve_token_iff [OF rows'] resolve_token_iff [OF mid] using n that by auto
    also have "\<dots> \<longleftrightarrow> resolve_token hash db old = Inr (Some g') \<and> \<not> ?hit (gr_id g')"
      by (rule resolve_after_mark [OF rows mid mark])
    finally show ?thesis using live_in_table [OF rows, of hash old g'] by auto
  qed
  ultimately show ?thesis using n(2) ins by (auto simp: inserted_def)
qed

definition demo_container :: raw_grant where
  "demo_container =
     \<lparr>rg_id = 3, rg_token_hash = ''01'', rg_role = ''coordinator'', rg_agent = ''container'', rg_item = None,
      rg_parent = None, rg_granted_at = ''t3'', rg_revoked_at = None, rg_container = True\<rparr>"

theorem rotate_container_single_witness:
  "\<exists>db' r. rotate_container (\<lambda>t. t) ''t3'' (Inr [1]) demo_db =
       Inr (db', grant_of Coordinator demo_container, ''01'') \<and>
     {r \<in> set (role_grants db'). rg_container r \<and> rg_revoked_at r = None} = {r} \<and>
     resolve_token (\<lambda>t. t) db' ''01'' = Inr (Some (grant_of Coordinator demo_container))"
proof -
  have "rotate_container (\<lambda>t. t) ''t3'' (Inr [1]) demo_db =
      Inr (demo_db\<lparr>role_grants := [demo_coordinator, demo_designer, demo_container], grants_seq := 3\<rparr>,
        grant_of Coordinator demo_container, ''01'')" (is "?rot")
    by code_simp
  from rotate_container_single [OF demo_reachable this] this show ?thesis by blast
qed

lemma live_rows_ok:
  assumes "rows_ok (role_grants db)" and "set rs \<subseteq> set (role_grants db)"
  shows "\<exists>xs. live_rows db rs = Inr xs \<and>
    set xs = {(rg_token_hash r, grant_of role r) |r role. r \<in> set rs \<and> rg_role r = role_as_str role}"
  using assms(2)
proof (induction rs)
  case (Cons r rs)
  then obtain xs where xs: "live_rows db rs = Inr xs"
    "set xs = {(rg_token_hash r, grant_of role r) |r role. r \<in> set rs \<and> rg_role r = role_as_str role}"
    by auto
  from Cons.prems have r: "r \<in> set (role_grants db)" by simp
  with rows_okD(3) [OF assms(1)] obtain role where "rg_role r = role_as_str role" by blast
  with xs grantable_ok [OF assms(1) r] into_grant_role show ?case by auto
qed simp

text \<open>
  The daemon's cache of live credentials agrees with the table: building it never fails,
  and a hash is cached with a grant exactly when a token with that hash resolves to that
  grant.
\<close>

theorem live_by_hash_agrees:
  assumes "roles_reachable hash db"
  shows "\<exists>xs. live_by_hash db = Inr xs \<and>
    (\<forall>token g. (hash token, g) \<in> set xs \<longleftrightarrow> resolve_token hash db token = Inr (Some g))"
proof -
  have ok: "rows_ok (role_grants db)" using roles_reachable_ok [OF assms] by (simp add: grants_ok_def)
  from live_rows_ok [OF ok, of "filter (\<lambda>r. rg_revoked_at r = None) (role_grants db)"]
  obtain xs where "live_by_hash db = Inr xs"
    "set xs = {(rg_token_hash r, grant_of role r) |r role. r \<in> set (role_grants db) \<and>
       rg_revoked_at r = None \<and> rg_role r = role_as_str role}"
    by (auto simp: live_by_hash_def)
  then show ?thesis unfolding resolve_token_iff [OF ok] by (auto 4 4)
qed

theorem live_by_hash_agrees_witness:
  "\<exists>xs. live_by_hash demo_db = Inr xs \<and> (''ff'', grant_of Designer demo_designer) \<in> set xs"
  using live_by_hash_agrees [OF demo_reachable] demo_resolve by blast

lemma descends_loop_iff:
  assumes "rows_ok (role_grants db)"
  shows "\<exists>b. descends_loop db anc n (Some i) = Inr b \<and>
    (b \<longleftrightarrow> (\<exists>k < n. (anc, i) \<in> (minted_by (role_grants db)) ^^ k))"
proof (induction n arbitrary: i)
  case (Suc n)
  have split: "(\<exists>k < Suc n. (anc, i) \<in> (minted_by (role_grants db)) ^^ k) \<longleftrightarrow>
      anc = i \<or> (\<exists>p. (p, i) \<in> minted_by (role_grants db) \<and> (\<exists>k < n. (anc, p) \<in> (minted_by (role_grants db)) ^^ k))"
    by (auto simp: less_Suc_eq_0_disj relcomp_unfold) (metis relpow_Suc_I)
  show ?case
  proof (cases "i = anc")
    case False
    show ?thesis
    proof (cases rule: get_grant_cases [OF assms, of i])
      case 1
      then have "(p, i) \<notin> minted_by (role_grants db)" for p by (auto simp: minted_by_def)
      with 1 False show ?thesis unfolding split by (cases n) auto
    next
      case (2 g role)
      have edge: "(p, i) \<in> minted_by (role_grants db) \<longleftrightarrow> rg_parent g = Some p" for p
      proof
        assume "(p, i) \<in> minted_by (role_grants db)"
        then obtain g' where "g' \<in> set (role_grants db)" "rg_parent g' = Some p" "rg_id g' = i"
          by (auto simp: minted_by_def)
        with 2(1,2) rows_ok_same_id [OF assms] show "rg_parent g = Some p" by blast
      qed (use 2(1,2) in \<open>auto simp: minted_by_def\<close>)
      show ?thesis
      proof (cases "rg_parent g")
        case None
        with 2 False edge show ?thesis unfolding split by (cases n) auto
      next
        case (Some p)
        with 2 False edge Suc.IH [of p] show ?thesis unfolding split by auto
      qed
    qed
  qed (unfold split, simp add: exI [of _ True])
qed (simp add: exI [of _ False])

text \<open>
  Who descends from whom. In every reachable database the walk answers without error, and
  says yes exactly when the second grant is found within 64 nodes going up from the first.
\<close>

theorem descends_from_bounded:
  assumes "roles_reachable hash db"
  shows "\<exists>b. descends_from db i anc = Inr b \<and>
    (b \<longleftrightarrow> (\<exists>k < 64. (anc, i) \<in> (minted_by (role_grants db)) ^^ k))"
  using descends_loop_iff [of db anc MAX_SCOPE_DEPTH i] roles_reachable_ok [OF assms]
  by (simp add: descends_from_def MAX_SCOPE_DEPTH_def grants_ok_def)

theorem descends_from_bounded_witness: "descends_from demo_db 2 1 = Inr True"
proof -
  have "(1, 2) \<in> (minted_by (role_grants demo_db)) ^^ 1"
    by (simp add: minted_by_def demo_db_def demo_designer_def)
  then have "\<exists>k < 64. (1, 2) \<in> (minted_by (role_grants demo_db)) ^^ k"
    by (intro exI [of _ 1]) simp
  with descends_from_bounded [OF demo_reachable, of 2 1] show ?thesis by auto
qed

text \<open>
  The first bind wins. Binding an agent to a task either records it, when the agent was
  unbound, or changes nothing and reports the task it is bound to; later binds elsewhere are
  reported as such, and unbinding removes exactly the binding named.
\<close>

theorem bind_first_wins:
  assumes "bind_agent db session agent task = Inr (db', b)"
  shows "(agent_binding db session agent = None \<longrightarrow>
       b = B_Now task \<and> agent_binding db' session agent = Some task \<and>
       bind_agent db' session agent other =
         Inr (db', if other = task then B_To task else B_Elsewhere task) \<and>
       agent_binding (unbind_agent db' session agent task) session agent = None) \<and>
    (\<forall>t. agent_binding db session agent = Some t \<longrightarrow>
       db' = db \<and> b = (if t = task then B_To task else B_Elsewhere t)) \<and>
    ((session', agent') \<noteq> (session, agent) \<longrightarrow>
       agent_binding db' session' agent' = agent_binding db session' agent')"
proof (cases "agent_binding db session agent")
  case None
  then have absent: "(session, agent) \<notin> fst ` set (agent_bindings db)"
    by (simp add: agent_binding_def map_of_eq_None_iff)
  from assms have ca: "check_agent agent = Inr ()" by (auto simp: bind_agent_def result_bind_Inr)
  have bs: "db' = db\<lparr>agent_bindings := agent_bindings db @ [((session, agent), task)]\<rparr>" "b = B_Now task"
    using assms absent ca by (auto simp: bind_agent_def)
  have at: "agent_binding db' session agent = Some task"
    using None bs by (simp add: agent_binding_def map_add_def)
  moreover have "agent_binding (unbind_agent db' session agent task) session agent = None"
    using absent bs by (auto simp: agent_binding_def unbind_agent_def map_of_eq_None_iff)
  ultimately show ?thesis
    using None bs ca by (auto simp: bind_agent_def agent_binding_def map_add_def split: option.splits)
next
  case (Some t)
  then have "(session, agent) \<in> fst ` set (agent_bindings db)"
    by (metis agent_binding_def map_of_eq_None_iff option.distinct(1))
  with assms Some show ?thesis by (auto simp: bind_agent_def result_bind_Inr)
qed

theorem bind_first_wins_witness:
  "\<exists>db'. bind_agent empty_roles_db ''s'' ''a1'' 7 = Inr (db', B_Now 7) \<and>
     bind_agent db' ''s'' ''a1'' 8 = Inr (db', B_Elsewhere 7)"
proof -
  let ?db = "empty_roles_db\<lparr>agent_bindings := [((''s'', ''a1''), 7)]\<rparr>"
  have b: "bind_agent empty_roles_db ''s'' ''a1'' 7 = Inr (?db, B_Now 7)"
    by code_simp
  have "agent_binding empty_roles_db ''s'' ''a1'' = None" by (simp add: agent_binding_def empty_roles_db_def)
  with bind_first_wins [OF b, of 8] b show ?thesis by auto
qed

end
