(* ===== verification/Workflow_Strategy.thy ===== *)
theory Workflow_Strategy
  imports Workflow_Graph Roles_Invariant
begin

text \<open>
  Strategies, \<open>crates/jkb-core/src/workflow/strategy.rs\<close>: the graph, the operator's toggles
  and the attributes a task runs under, the presets, what \<open>validate\<close> refuses, the permission
  table a strategy gives and the decisions taken on it. JSON reading and writing is serde's.
\<close>

section \<open>Toggles and attributes\<close>

record toggles =
  approves_design :: "role list"
  lands :: "role list"

definition toggles_default :: toggles where
  "toggles_default = \<lparr>approves_design = [Operator], lands = [Operator]\<rparr>"

datatype controls = Ctl_Events "workflow_event list" | Ctl_Land

record toggle_def =
  td_name :: string
  td_label :: string
  td_controls :: controls
  td_domain :: "role list"
  td_acts_in :: "phase option"

definition TOGGLES :: "toggle_def list" where
  "TOGGLES =
     [\<lparr>td_name = ''approves_design'', td_label = ''approves designs'',
       td_controls = Ctl_Events [W_ApproveDesign, W_RejectDesign],
       td_domain = [Operator, Coordinator], td_acts_in = Some Ph_DesignReview\<rparr>,
      \<lparr>td_name = ''lands'', td_label = ''lands'', td_controls = Ctl_Land,
       td_domain = [Operator, Coordinator], td_acts_in = None\<rparr>]"

definition toggles_get :: "toggles \<Rightarrow> string \<Rightarrow> role list" where
  "toggles_get t name =
     (if name = ''approves_design'' then approves_design t
      else if name = ''lands'' then lands t
      else [])"

definition toggles_set :: "toggles \<Rightarrow> string \<Rightarrow> role list \<Rightarrow> toggles core_result" where
  "toggles_set t name roles =
     (if name = ''approves_design'' then Inr (t\<lparr>approves_design := roles\<rparr>)
      else if name = ''lands'' then Inr (t\<lparr>lands := roles\<rparr>)
      else Inl (validation (''no toggle `'' @ name @ ''` (toggles: '' @
        join '', '' (map td_name TOGGLES) @ '')'')))"

definition MAX_REPEATED_ROUNDS :: u32 where
  "MAX_REPEATED_ROUNDS = 10"

record attributes =
  at_repeated_area :: repeated_area

definition attributes_default :: attributes where
  "attributes_default = \<lparr>at_repeated_area = repeated_area_default\<rparr>"

record strategy_spec =
  sp_graph :: graph_id
  sp_toggles :: toggles
  sp_attributes :: attributes

section \<open>Presets\<close>

definition DEFAULT_PRESET :: string where
  "DEFAULT_PRESET = ''design-reviewed''"

record preset_row =
  ps_name :: string
  ps_describe :: string
  ps_spec :: strategy_spec

definition PRESETS :: "preset_row list" where
  "PRESETS =
     [\<lparr>ps_name = ''design-reviewed'',
       ps_describe = ''The operator approves each design and lands each task.'',
       ps_spec = \<lparr>sp_graph = G_DesignGate, sp_toggles = toggles_default,
                  sp_attributes = attributes_default\<rparr>\<rparr>,
      \<lparr>ps_name = ''coordinated'',
       ps_describe = ''The coordinator may approve designs; the operator lands each task.'',
       ps_spec = \<lparr>sp_graph = G_DesignGate,
                  sp_toggles = \<lparr>approves_design = [Operator, Coordinator], lands = [Operator]\<rparr>,
                  sp_attributes = attributes_default\<rparr>\<rparr>,
      \<lparr>ps_name = ''autonomous'',
       ps_describe = ''No design review; the coordinator may land.'',
       ps_spec = \<lparr>sp_graph = G_Direct,
                  sp_toggles = \<lparr>approves_design = [Operator], lands = [Operator, Coordinator]\<rparr>,
                  sp_attributes = attributes_default\<rparr>\<rparr>]"

definition preset :: "string \<Rightarrow> strategy_spec option" where
  "preset name = map_option ps_spec (List.find (\<lambda>p. ps_name p = name) PRESETS)"

section \<open>Permissions\<close>

definition strategy_BASE :: "(role, workflow_event) role_table" where
  "strategy_BASE = \<lparr>rt_grants =
     [\<lparr>g_role = Operator, g_permits = workflow_event_ALL\<rparr>,
      \<lparr>g_role = Coordinator, g_permits = [W_SubmitWork, W_Rework, W_Cancel]\<rparr>,
      \<lparr>g_role = Designer, g_permits = [W_SubmitDesign]\<rparr>,
      \<lparr>g_role = Implementer, g_permits = [W_SubmitWork]\<rparr>,
      \<lparr>g_role = Reviewer, g_permits = []\<rparr>,
      \<lparr>g_role = SystemicReviewer, g_permits = [W_SubmitSystemic, W_SystemicRedesign]\<rparr>]\<rparr>"

text \<open>The grants the three nested loops of \<open>permissions\<close> make, in their order.\<close>

definition toggle_grants :: "toggles \<Rightarrow> (role \<times> workflow_event) list" where
  "toggle_grants tg =
     concat (map (\<lambda>t.
       case td_controls t of
         Ctl_Events events \<Rightarrow>
           concat (map (\<lambda>role. map (\<lambda>e. (role, e)) events) (toggles_get tg (td_name t)))
       | Ctl_Land \<Rightarrow> []) TOGGLES)"

definition permissions :: "strategy_spec \<Rightarrow> (role, workflow_event) owned_table" where
  "permissions spec =
     fold (\<lambda>(role, e) table. grant table role e) (toggle_grants (sp_toggles spec))
       (from_table (role_table_rows strategy_BASE))"

definition strategy_requirement :: "workflow_event \<Rightarrow> workflow_event requirement" where
  "strategy_requirement event =
     (case workflow_event_kind event of Reconciled \<Rightarrow> Anyone | Applied \<Rightarrow> Permission event)"

definition strategy_authorize :: "strategy_spec \<Rightarrow> role list \<Rightarrow> workflow_event \<Rightarrow> decision" where
  "strategy_authorize spec roles event =
     decide core_role workflow_event_perm (ot_rows (permissions spec)) roles (strategy_requirement event)"

definition may_land :: "strategy_spec \<Rightarrow> role list \<Rightarrow> decision" where
  "may_land spec roles =
     (if list_ex (\<lambda>r. r = Operator \<or> r \<in> set (lands (sp_toggles spec))) roles then D_Allow
      else D_Deny \<lparr>rf_reason = ''this task'' @ [CHR 0x27] @ ''s strategy does not let this caller land it'',
        rf_allowed_roles = role_as_str Operator #
          map role_as_str (filter (\<lambda>r. r \<noteq> Operator) (lands (sp_toggles spec)))\<rparr>)"

section \<open>Validation\<close>

definition validate_toggle :: "strategy_spec \<Rightarrow> toggle_def \<Rightarrow> unit core_result" where
  "validate_toggle spec t =
     (let roles = toggles_get (sp_toggles spec) (td_name t) in
      case List.find (\<lambda>r. r \<notin> set (td_domain t)) roles of
        Some r \<Rightarrow> Inl (validation (''toggle `'' @ td_name t @ ''` may name only '' @
          join '', '' (map role_as_str (td_domain t)) @ '' (not '' @ role_as_str r @ '')''))
      | None \<Rightarrow>
          (case td_acts_in t of
             None \<Rightarrow> Inr ()
           | Some phase \<Rightarrow>
               if list_ex (\<lambda>r. r \<noteq> Operator) roles \<and> \<not> reaches_unforced (sp_graph spec) phase
               then Inl (validation (''toggle `'' @ td_name t @ ''` acts in `'' @ phase_name phase @
                 ''`, which the `'' @ graph_id_as_str (sp_graph spec) @
                 ''` graph reaches only by an operator override '' @ emdash @ '' it would say nothing''))
               else Inr ()))"

fun validate_toggles :: "strategy_spec \<Rightarrow> toggle_def list \<Rightarrow> unit core_result" where
  "validate_toggles spec [] = Inr ()"
| "validate_toggles spec (t # ts) =
     result_bind (validate_toggle spec t) (\<lambda>_. validate_toggles spec ts)"

definition strategy_validate :: "strategy_spec \<Rightarrow> unit core_result" where
  "strategy_validate spec =
     result_bind (validate_toggles spec TOGGLES) (\<lambda>_.
       let rounds = ra_rounds (at_repeated_area (sp_attributes spec)) in
       if \<not> (2 \<le> rounds \<and> rounds \<le> MAX_REPEATED_ROUNDS)
       then Inl (validation (''repeated_area.rounds of 2 to '' @ nat_str (unat MAX_REPEATED_ROUNDS) @
         '' (got '' @ nat_str (unat rounds) @ '')''))
       else case grants_check core_role workflow_event_perm (ot_rows (permissions spec)) of
         [] \<Rightarrow> Inr ()
       | d # _ \<Rightarrow> Inl (validation (''the strategy'' @ [CHR 0x27] @ ''s permission table: '' @
           table_defect_display core_role workflow_event_perm d)))"

section \<open>Describing a strategy\<close>

definition holders :: "role list \<Rightarrow> string" where
  "holders roles =
     join '', '' (map role_as_str (filter (\<lambda>r. r = Operator \<or> r \<in> set roles) role_ALL))"

definition changes_from :: "strategy_spec \<Rightarrow> strategy_spec \<Rightarrow> string list" where
  "changes_from spec base =
     (if sp_graph spec \<noteq> sp_graph base
      then [''graph: '' @ graph_id_as_str (sp_graph spec) @ '' (default: '' @
            graph_id_as_str (sp_graph base) @ '')'']
      else []) @
     concat (map (\<lambda>t.
       let mine = holders (toggles_get (sp_toggles spec) (td_name t));
           theirs = holders (toggles_get (sp_toggles base) (td_name t))
       in if mine \<noteq> theirs then [td_label t @ '': '' @ mine @ '' (default: '' @ theirs @ '')''] else [])
       TOGGLES) @
     (let area = at_repeated_area (sp_attributes spec);
          base_area = at_repeated_area (sp_attributes base)
      in if area \<noteq> base_area
         then [''must-fixes repeat after '' @ nat_str (unat (ra_rounds area)) @ '' rounds in one '' @
               area_unit (ra_scope area) @ '' (default: '' @ nat_str (unat (ra_rounds base_area)) @
               '' in one '' @ area_unit (ra_scope base_area) @ '')'']
         else [])"

definition first_non_operator :: "role list \<Rightarrow> role" where
  "first_non_operator roles =
     (case List.find (\<lambda>r. r \<noteq> Operator) roles of Some r \<Rightarrow> r | None \<Rightarrow> Operator)"

definition ellipsis :: string where
  "ellipsis = [CHR 0xE2, CHR 0x80, CHR 0xA6]"

fun next_actor :: "strategy_spec \<Rightarrow> phase \<Rightarrow> role \<times> string" where
  "next_actor spec Ph_Design =
     (Designer, ''write the design into the task, then `jkb workflow fire <uid> submit_design`'')"
| "next_actor spec Ph_DesignReview =
     (first_non_operator (approves_design (sp_toggles spec)),
      ''read the design, then `jkb workflow fire <uid> approve_design` (or `reject_design`)'')"
| "next_actor spec Ph_Implement =
     (Implementer, ''implement and commit, then `jkb workflow fire <uid> submit_work`'')"
| "next_actor spec Ph_Review =
     (Reviewer, ''run a review round (`/jkb-review`), then `jkb workflow observe <uid>`'')"
| "next_actor spec Ph_SystemicReview =
     (SystemicReviewer,
      ''find the systemic cause and record it, then `jkb workflow fire <uid> submit_systemic --reason '' @
      ellipsis @ ''` '' @ emdash @ '' or `systemic_redesign --reason '' @ ellipsis @
      ''` if the fix changes how the operator understands the system'')"
| "next_actor spec Ph_Landable =
     (first_non_operator (lands (sp_toggles spec)), ''land it: `jkb task land <uid>`'')"
| "next_actor spec Ph_Landed = (Operator, ''nothing: the task is settled'')"
| "next_actor spec Ph_Cancelled = (Operator, ''nothing: the task is settled'')"

section \<open>What a strategy permits\<close>

lemma base_permits:
  "permits (role_table_rows strategy_BASE) r e \<longleftrightarrow>
     r = Operator \<or>
     (r = Coordinator \<and> e \<in> {W_SubmitWork, W_Rework, W_Cancel}) \<or>
     (r = Designer \<and> e = W_SubmitDesign) \<or>
     (r = Implementer \<and> e = W_SubmitWork) \<or>
     (r = SystemicReviewer \<and> e \<in> {W_SubmitSystemic, W_SystemicRedesign})"
proof -
  have "e \<in> set workflow_event_ALL" using workflow_event_enum.complete by simp
  then show ?thesis by (cases r) (simp_all add: strategy_BASE_def role_table_rows_def)
qed

lemma toggle_grants_set:
  "set (toggle_grants tg) = {(r, e). r \<in> set (approves_design tg) \<and> e \<in> {W_ApproveDesign, W_RejectDesign}}"
  by (auto simp: toggle_grants_def TOGGLES_def toggles_get_def)

lemma permissions_iff:
  "permits (ot_rows (permissions spec)) r e \<longleftrightarrow>
     permits (role_table_rows strategy_BASE) r e \<or>
     (r \<in> set (approves_design (sp_toggles spec)) \<and> e \<in> {W_ApproveDesign, W_RejectDesign})"
  using owned.holds_fold_add [of "toggle_grants (sp_toggles spec)" "from_table (role_table_rows strategy_BASE)" r e]
  by (auto simp: permissions_def owned_permits_def from_table_def toggle_grants_set)

lemma base_check_clean: "grants_check core_role workflow_event_perm (role_table_rows strategy_BASE) = []"
  by code_simp

lemma permissions_check_clean: "grants_check core_role workflow_event_perm (ot_rows (permissions spec)) = []"
proof -
  have "grants_check core_role workflow_event_perm (ot_rows (fold (\<lambda>(role, e) table. grant table role e) gs T)) = []"
    if "grants_check core_role workflow_event_perm (ot_rows T) = []" for gs T
    using that by (induction gs arbitrary: T) (auto simp: grants_check_grant)
  from this [of "from_table (role_table_rows strategy_BASE)"] base_check_clean show ?thesis
    by (simp add: permissions_def from_table_def)
qed

lemma authorize_iff:
  "is_allowed (strategy_authorize spec roles event) \<longleftrightarrow>
     workflow_event_kind event = Reconciled \<or>
     (\<exists>r \<in> set roles. permits (ot_rows (permissions spec)) r event)"
  by (simp add: strategy_authorize_def decide_allows strategy_requirement_def split: event_kind.splits)

lemma validate_toggle_iff:
  "validate_toggle spec t = Inr () \<longleftrightarrow>
     set (toggles_get (sp_toggles spec) (td_name t)) \<subseteq> set (td_domain t) \<and>
     (case td_acts_in t of
        None \<Rightarrow> True
      | Some phase \<Rightarrow> set (toggles_get (sp_toggles spec) (td_name t)) \<subseteq> {Operator} \<or>
          reaches_unforced (sp_graph spec) phase)"
proof (cases "List.find (\<lambda>r. r \<notin> set (td_domain t)) (toggles_get (sp_toggles spec) (td_name t))")
  case None
  then have "set (toggles_get (sp_toggles spec) (td_name t)) \<subseteq> set (td_domain t)"
    by (auto simp: find_None_iff2)
  with None show ?thesis
    by (auto simp: validate_toggle_def list_ex_iff split: option.split)
next
  case (Some r)
  with find_SomeD [OF Some] show ?thesis by (auto simp: validate_toggle_def)
qed

lemma validate_iff:
  "strategy_validate spec = Inr () \<longleftrightarrow>
     set (approves_design (sp_toggles spec)) \<subseteq> {Operator, Coordinator} \<and>
     set (lands (sp_toggles spec)) \<subseteq> {Operator, Coordinator} \<and>
     (set (approves_design (sp_toggles spec)) \<subseteq> {Operator} \<or> sp_graph spec = G_DesignGate) \<and>
     2 \<le> ra_rounds (at_repeated_area (sp_attributes spec)) \<and>
     ra_rounds (at_repeated_area (sp_attributes spec)) \<le> 10"
proof -
  have "validate_toggles spec TOGGLES = Inr () \<longleftrightarrow>
      set (approves_design (sp_toggles spec)) \<subseteq> {Operator, Coordinator} \<and>
      (set (approves_design (sp_toggles spec)) \<subseteq> {Operator} \<or> sp_graph spec = G_DesignGate) \<and>
      set (lands (sp_toggles spec)) \<subseteq> {Operator, Coordinator}"
    by (auto simp: TOGGLES_def result_bind_Inr validate_toggle_iff toggles_get_def reaches_unforced_iff)
  then show ?thesis
    by (auto simp: strategy_validate_def result_bind_Inr Let_def permissions_check_clean MAX_REPEATED_ROUNDS_def
        split: if_splits)
qed

text \<open>
  Who may act under a strategy. Whatever the operator's toggles, the operator may fire every
  event, and under a strategy that validates, a caller without that role can never override,
  reopen or grant itself more: the coordinator submits work, asks for rework, cancels and,
  if the strategy says so, rules on designs, and the workers fire only the events of their
  trade.
\<close>

theorem strategy_authority:
  assumes "strategy_validate spec = Inr ()"
  shows "is_allowed (strategy_authorize spec [Operator] event) \<and>
    (workflow_event_kind event = Applied \<and> Operator \<notin> set roles \<longrightarrow>
       (is_allowed (strategy_authorize spec roles event) \<longleftrightarrow>
          (Coordinator \<in> set roles \<and> event \<in> {W_SubmitWork, W_Rework, W_Cancel}) \<or>
          (Coordinator \<in> set roles \<and> Coordinator \<in> set (approves_design (sp_toggles spec)) \<and>
             event \<in> {W_ApproveDesign, W_RejectDesign} \<and> sp_graph spec = G_DesignGate) \<or>
          (Designer \<in> set roles \<and> event = W_SubmitDesign) \<or>
          (Implementer \<in> set roles \<and> event = W_SubmitWork) \<or>
          (SystemicReviewer \<in> set roles \<and> event \<in> {W_SubmitSystemic, W_SystemicRedesign})))"
proof -
  have v: "set (approves_design (sp_toggles spec)) \<subseteq> {Operator, Coordinator}"
    "set (approves_design (sp_toggles spec)) \<subseteq> {Operator} \<or> sp_graph spec = G_DesignGate"
    using assms unfolding validate_iff by simp_all
  have "is_allowed (strategy_authorize spec [Operator] event)"
    by (simp add: authorize_iff permissions_iff base_permits)
  moreover have "is_allowed (strategy_authorize spec roles event) \<longleftrightarrow>
          (Coordinator \<in> set roles \<and> event \<in> {W_SubmitWork, W_Rework, W_Cancel}) \<or>
          (Coordinator \<in> set roles \<and> Coordinator \<in> set (approves_design (sp_toggles spec)) \<and>
             event \<in> {W_ApproveDesign, W_RejectDesign} \<and> sp_graph spec = G_DesignGate) \<or>
          (Designer \<in> set roles \<and> event = W_SubmitDesign) \<or>
          (Implementer \<in> set roles \<and> event = W_SubmitWork) \<or>
          (SystemicReviewer \<in> set roles \<and> event \<in> {W_SubmitSystemic, W_SystemicRedesign})"
    if "workflow_event_kind event = Applied" "Operator \<notin> set roles"
    unfolding authorize_iff permissions_iff base_permits using that v by auto
  ultimately show ?thesis by blast
qed

theorem strategy_authority_witness:
  "\<exists>spec. preset ''coordinated'' = Some spec \<and> strategy_validate spec = Inr () \<and>
     is_allowed (strategy_authorize spec [Coordinator] W_ApproveDesign) \<and>
     \<not> is_allowed (strategy_authorize spec [Coordinator, Reviewer] W_Override)"
proof -
  let ?spec = "\<lparr>sp_graph = G_DesignGate,
      sp_toggles = \<lparr>approves_design = [Operator, Coordinator], lands = [Operator]\<rparr>,
      sp_attributes = attributes_default\<rparr>"
  have p: "preset ''coordinated'' = Some ?spec" by code_simp
  have v: "strategy_validate ?spec = Inr ()" by code_simp
  show ?thesis
    using strategy_authority [OF v, of W_ApproveDesign "[Coordinator]"]
      strategy_authority [OF v, of W_Override "[Coordinator, Reviewer]"] p v
    by auto
qed

lemma may_land_iff:
  "may_land spec roles = D_Allow \<longleftrightarrow> Operator \<in> set roles \<or> set roles \<inter> set (lands (sp_toggles spec)) \<noteq> {}"
  by (auto simp: may_land_def list_ex_iff)

lemma may_land_refusal:
  assumes "may_land spec roles = D_Deny f"
  shows "set (rf_allowed_roles f) = role_as_str ` {r. may_land spec [r] = D_Allow}"
proof -
  have "{r. may_land spec [r] = D_Allow} = insert Operator (set (lands (sp_toggles spec)))"
    by (auto simp: may_land_iff)
  also have "\<dots> = insert Operator {r \<in> set (lands (sp_toggles spec)). r \<noteq> Operator}" by auto
  also have "role_as_str ` \<dots> = set (rf_allowed_roles f)"
    using assms by (simp add: may_land_def split: if_splits) auto
  finally show ?thesis by simp
qed

text \<open>
  What \<open>validate\<close> accepts: exactly the specs whose two toggles name only the operator and the
  coordinator, whose design toggle names the coordinator only on a graph that has a design
  review, and whose repeat count is between 2 and 10; the permission table never has a
  defect, every preset validates, and a landing is refused with exactly the roles that may
  land.
\<close>

theorem strategy_validate_spec:
  "(strategy_validate spec = Inr () \<longleftrightarrow>
      set (approves_design (sp_toggles spec)) \<subseteq> {Operator, Coordinator} \<and>
      set (lands (sp_toggles spec)) \<subseteq> {Operator, Coordinator} \<and>
      (set (approves_design (sp_toggles spec)) \<subseteq> {Operator} \<or> sp_graph spec = G_DesignGate) \<and>
      2 \<le> ra_rounds (at_repeated_area (sp_attributes spec)) \<and>
      ra_rounds (at_repeated_area (sp_attributes spec)) \<le> 10) \<and>
   grants_check core_role workflow_event_perm (ot_rows (permissions spec)) = [] \<and>
   list_all (\<lambda>p. strategy_validate (ps_spec p) = Inr ()) PRESETS \<and>
   (may_land spec roles = D_Allow \<longleftrightarrow> Operator \<in> set roles \<or> set roles \<inter> set (lands (sp_toggles spec)) \<noteq> {}) \<and>
   (may_land spec roles = D_Deny f \<longrightarrow>
      set (rf_allowed_roles f) = role_as_str ` {r. may_land spec [r] = D_Allow})"
proof -
  have "list_all (\<lambda>p. strategy_validate (ps_spec p) = Inr ()) PRESETS" by code_simp
  then show ?thesis
    by (intro conjI impI validate_iff permissions_check_clean may_land_iff may_land_refusal)
qed

theorem strategy_validate_spec_witness:
  "\<exists>spec f. preset ''autonomous'' = Some spec \<and> may_land spec [Implementer] = D_Deny f \<and>
     set (rf_allowed_roles f) = role_as_str ` {r. may_land spec [r] = D_Allow}"
proof -
  have "preset ''autonomous'' = Some (ps_spec (PRESETS ! 2))" by code_simp
  moreover have "may_land (ps_spec (PRESETS ! 2)) [Implementer] =
      D_Deny \<lparr>rf_reason = ''this task'' @ [CHR 0x27] @ ''s strategy does not let this caller land it'',
        rf_allowed_roles = [''operator'', ''coordinator'']\<rparr>" by code_simp
  ultimately show ?thesis
    using strategy_validate_spec [of "ps_spec (PRESETS ! 2)" "[Implementer]"] by blast
qed

end
