(* ===== verification/Mq_Model.thy ===== *)
theory Mq_Model
  imports Core_Error
begin

text \<open>
  The message queue, \<open>crates/jkb-core/src/mq.rs\<close>. The tables \<open>mq_topics\<close>, \<open>mq_messages\<close>
  and \<open>mq_groups\<close> are lists of rows in the record \<open>mq_db\<close>, with the AUTOINCREMENT counter
  of the messages; a message row is appended, so the rows are in the order of \<open>seq\<close> and
  an \<open>ORDER BY seq\<close> keeps that order. Each operation returns the database it leaves and its
  answer; a refusal rolls the transaction back, so it returns the error alone.

  Times and sizes are the code's \<open>i64\<close>, as integers with the saturation written out. The
  JSON library is a pair of functions, \<open>to_json\<close> and \<open>from_json\<close>.
\<close>

section \<open>Limits\<close>

definition MAX_PAYLOAD_BYTES :: nat where "MAX_PAYLOAD_BYTES = 64 * 1024"

definition MAX_BATCH :: nat where "MAX_BATCH = 256"

definition MAX_KEY_BYTES :: nat where "MAX_KEY_BYTES = 512"

definition mq_MAX_NAME_BYTES :: nat where "mq_MAX_NAME_BYTES = 200"

definition DEFAULT_MAX_BYTES :: int where "DEFAULT_MAX_BYTES = 10 * 1024 * 1024"

definition DEFAULT_MAX_MESSAGES :: int where "DEFAULT_MAX_MESSAGES = 10000"

definition DAY_MS :: int where "DAY_MS = 24 * 60 * 60 * 1000"

definition DEFAULT_GROUP_IDLE_MS :: int where "DEFAULT_GROUP_IDLE_MS = 7 * DAY_MS"

definition DEFAULT_COMPACT_EVERY_MS :: int where "DEFAULT_COMPACT_EVERY_MS = 3 * DAY_MS"

definition POLL_TOUCH_MS :: int where "POLL_TOUCH_MS = 60 * 60 * 1000"

definition i64_MIN :: int where "i64_MIN = - (2 ^ 63)"

definition i64_MAX :: int where "i64_MAX = 2 ^ 63 - 1"

definition saturating_add :: "int \<Rightarrow> int \<Rightarrow> int" where
  "saturating_add a b = max i64_MIN (min i64_MAX (a + b))"

definition saturating_sub :: "int \<Rightarrow> int \<Rightarrow> int" where
  "saturating_sub a b = max i64_MIN (min i64_MAX (a - b))"

section \<open>Types\<close>

datatype queue_type = QT_Log

fun queue_type_as_str :: "queue_type \<Rightarrow> string" where
  "queue_type_as_str QT_Log = ''log''"

definition queue_type_parse :: "string \<Rightarrow> queue_type option" where
  "queue_type_parse s = (if s = ''log'' then Some QT_Log else None)"

record topic_spec =
  ts_queue_type :: queue_type
  ts_max_bytes :: int
  ts_max_messages :: int
  ts_default_ttl_ms :: "int option"
  ts_group_idle_ms :: int
  ts_compact_every_ms :: int

definition topic_spec_default :: topic_spec where
  "topic_spec_default =
     \<lparr>ts_queue_type = QT_Log, ts_max_bytes = DEFAULT_MAX_BYTES, ts_max_messages = DEFAULT_MAX_MESSAGES,
      ts_default_ttl_ms = None, ts_group_idle_ms = DEFAULT_GROUP_IDLE_MS,
      ts_compact_every_ms = DEFAULT_COMPACT_EVERY_MS\<rparr>"

datatype created = New | Existing

record 'v draft =
  dr_key :: string
  dr_kind :: string
  dr_payload :: 'v
  dr_ttl_ms :: "int option"
  dr_producer :: string

datatype start = FromNow | FromStart

text \<open>A payload is stored text until it is parsed.\<close>

datatype 'v payload = P_Text string | P_Value 'v

record 'v delivered =
  dl_seq :: int
  dl_key :: string
  dl_kind :: string
  dl_payload :: "'v payload"
  dl_producer :: string
  dl_enqueued_at :: int
  dl_expires_at :: "int option"
  dl_expired :: bool
  dl_unreadable :: bool

record compact_report =
  cr_topics_compacted :: nat
  cr_topics_skipped :: nat
  cr_messages_reaped :: nat
  cr_groups_removed :: nat

section \<open>The tables\<close>

record mq_topic =
  mt_id :: int
  mt_name :: string
  mt_type :: string
  mt_max_bytes :: int
  mt_max_messages :: int
  mt_default_ttl_ms :: "int option"
  mt_group_idle_ms :: int
  mt_compact_every_ms :: int
  mt_created_at :: int
  mt_compacted_at :: "int option"

record mq_message =
  mm_seq :: int
  mm_topic :: int
  mm_key :: string
  mm_kind :: string
  mm_payload :: string
  mm_size :: int
  mm_producer :: string
  mm_enqueued_at :: int
  mm_expires_at :: "int option"

record mq_group =
  mg_topic :: int
  mg_name :: string
  mg_position :: int
  mg_created_at :: int
  mg_last_poll_at :: "int option"
  mg_last_ack_at :: "int option"

record mq_db =
  mq_topics :: "mq_topic list"
  mq_messages :: "mq_message list"
  mq_groups :: "mq_group list"
  mq_seq :: int

definition empty_mq :: mq_db where
  "empty_mq = \<lparr>mq_topics = [], mq_messages = [], mq_groups = [], mq_seq = 0\<rparr>"

section \<open>Checking names and sizes\<close>

text \<open>
  \<open>Debug\<close> of a string and of a character: quotes, backslash and ASCII control characters are
  escaped; characters beyond ASCII are printed as they are, as Rust does for the printable
  ones.
\<close>

definition hex_lower :: "nat \<Rightarrow> char" where
  "hex_lower d = (if d < 10 then char_of (48 + d) else char_of (87 + d))"

fun nat_hex :: "nat \<Rightarrow> string" where
  "nat_hex n = (if n < 16 then [hex_lower n] else nat_hex (n div 16) @ [hex_lower (n mod 16)])"

declare nat_hex.simps [simp del]

definition debug_byte :: "char \<Rightarrow> char \<Rightarrow> string" where
  "debug_byte quote c =
     (let n = of_char c :: nat in
      if c = quote then [CHR 0x5C, c]
      else if n = 92 then [CHR 0x5C, CHR 0x5C]
      else if n = 0 then [CHR 0x5C, CHR ''0'']
      else if n = 9 then [CHR 0x5C, CHR ''t'']
      else if n = 10 then [CHR 0x5C, CHR ''n'']
      else if n = 13 then [CHR 0x5C, CHR ''r'']
      else if n < 32 \<or> n = 127 then [CHR 0x5C] @ ''u{'' @ nat_hex n @ ''}''
      else [c])"

definition debug_str :: "string \<Rightarrow> string" where
  "debug_str s = [CHR 0x22] @ concat (map (debug_byte (CHR 0x22)) s) @ [CHR 0x22]"

definition is_continuation :: "char \<Rightarrow> bool" where
  "is_continuation c \<longleftrightarrow> 128 \<le> (of_char c :: nat) \<and> (of_char c :: nat) < 192"

text \<open>The first character of a UTF-8 string: its first byte and the continuation bytes after it.\<close>

definition first_char :: "string \<Rightarrow> string" where
  "first_char s = (case s of [] \<Rightarrow> [] | c # cs \<Rightarrow> c # takeWhile is_continuation cs)"

definition debug_char :: "string \<Rightarrow> string" where
  "debug_char c = [CHR 0x27] @ concat (map (debug_byte (CHR 0x27)) c) @ [CHR 0x27]"

definition check_batch :: "nat \<Rightarrow> unit core_result" where
  "check_batch mx =
     (if mx > MAX_BATCH
      then Inl (Queue (Invalid ''max'' (''at most '' @ nat_str MAX_BATCH @ '' messages'')))
      else Inr ())"

definition is_name_char :: "char \<Rightarrow> bool" where
  "is_name_char c \<longleftrightarrow>
     (let n = of_char c :: nat in
        (48 \<le> n \<and> n \<le> 57) \<or> (65 \<le> n \<and> n \<le> 90) \<or> (97 \<le> n \<and> n \<le> 122)) \<or> c \<in> set ''._-''"

fun check_segments :: "string \<Rightarrow> string \<Rightarrow> string list \<Rightarrow> (queue_error, unit) result" where
  "check_segments what name [] = Inr ()"
| "check_segments what name (segment # rest) =
     (if segment = [] \<or> segment = ''.'' \<or> segment = ''..''
      then Inl (Invalid what (debug_str name @ '' has an empty, `.` or `..` segment''))
      else if list_all is_name_char segment then check_segments what name rest
      else Inl (Invalid what (debug_str name @ '' contains '' @
        debug_char (first_char (dropWhile is_name_char segment)))))"

definition check_name :: "string \<Rightarrow> string \<Rightarrow> (queue_error, unit) result" where
  "check_name what name =
     (if length name > mq_MAX_NAME_BYTES then Inl (TooLarge what (length name) mq_MAX_NAME_BYTES)
      else if name = [] then Inl (Invalid what ''empty'')
      else check_segments what name (split_on (CHR ''/'') name))"

definition check_positive :: "string \<Rightarrow> int \<Rightarrow> (queue_error, unit) result" where
  "check_positive what v =
     (if v > 0 then Inr () else Inl (Invalid what (int_str v @ '' is not positive'')))"

definition lift_queue :: "(queue_error, 'a) result \<Rightarrow> 'a core_result" where
  "lift_queue r = (case r of Inl e \<Rightarrow> Inl (Queue e) | Inr a \<Rightarrow> Inr a)"

definition to_usize :: "int \<Rightarrow> nat" where
  "to_usize v = (if v < 0 then 2 ^ 64 - 1 else nat v)"

definition RESERVED_PREFIXES :: "string list" where
  "RESERVED_PREFIXES = [''exec/'']"

definition starts_with :: "string \<Rightarrow> string \<Rightarrow> bool" where
  "starts_with s p \<longleftrightarrow> take (length p) s = p"

definition check_unreserved :: "string \<Rightarrow> unit core_result" where
  "check_unreserved topic =
     (case List.find (starts_with topic) RESERVED_PREFIXES of
        Some prefix \<Rightarrow> Inl (Queue (Invalid ''topic''
          (debug_str topic @ '' is under `'' @ prefix @ ''`, which only jkb'' @ [CHR 0x27] @
           ''s own record uses (a run request'' @ [CHR 0x27] @
           ''s topic): follow it with `exec.follow`, never through the queue'' @ [CHR 0x27] @
           ''s own operations'')))
      | None \<Rightarrow> Inr ())"

section \<open>Reading the tables\<close>

definition topic_row_any :: "mq_db \<Rightarrow> string \<Rightarrow> (int \<times> topic_spec) core_result" where
  "topic_row_any db name =
     (case List.find (\<lambda>t. mt_name t = name) (mq_topics db) of
        None \<Rightarrow> Inl (Queue (NoSuchTopic name))
      | Some t \<Rightarrow>
          (case queue_type_parse (mt_type t) of
             None \<Rightarrow> Inl (Queue (Corrupt (''topic '' @ name @ '' has type '' @ debug_str (mt_type t))))
           | Some queue_type \<Rightarrow> Inr (mt_id t,
               \<lparr>ts_queue_type = queue_type, ts_max_bytes = mt_max_bytes t,
                ts_max_messages = mt_max_messages t, ts_default_ttl_ms = mt_default_ttl_ms t,
                ts_group_idle_ms = mt_group_idle_ms t, ts_compact_every_ms = mt_compact_every_ms t\<rparr>)))"

definition topic_row :: "mq_db \<Rightarrow> string \<Rightarrow> (int \<times> topic_spec) core_result" where
  "topic_row db name = result_bind (check_unreserved name) (\<lambda>_. topic_row_any db name)"

definition find_group :: "mq_db \<Rightarrow> int \<Rightarrow> string \<Rightarrow> mq_group option" where
  "find_group db topic_id grp = List.find (\<lambda>g. mg_topic g = topic_id \<and> mg_name g = grp) (mq_groups db)"

definition group_position :: "mq_db \<Rightarrow> string \<Rightarrow> int \<Rightarrow> string \<Rightarrow> int core_result" where
  "group_position db topic topic_id grp =
     (case find_group db topic_id grp of
        Some g \<Rightarrow> Inr (mg_position g)
      | None \<Rightarrow> Inl (Queue (NoSuchGroup topic grp)))"

definition topic_messages :: "mq_db \<Rightarrow> int \<Rightarrow> mq_message list" where
  "topic_messages db topic_id = filter (\<lambda>m. mm_topic m = topic_id) (mq_messages db)"

definition topic_groups :: "mq_db \<Rightarrow> int \<Rightarrow> mq_group list" where
  "topic_groups db topic_id = filter (\<lambda>g. mg_topic g = topic_id) (mq_groups db)"

definition holdings :: "mq_db \<Rightarrow> int \<Rightarrow> int \<times> int" where
  "holdings db topic_id =
     (int (length (topic_messages db topic_id)), sum_list (map mm_size (topic_messages db topic_id)))"

text \<open>\<open>MIN(position)\<close> and \<open>MAX(seq)\<close>, NULL for no rows.\<close>

fun min_opt :: "int list \<Rightarrow> int option" where
  "min_opt [] = None"
| "min_opt (x # xs) = Some (case min_opt xs of None \<Rightarrow> x | Some y \<Rightarrow> min x y)"

fun max_opt :: "int list \<Rightarrow> int option" where
  "max_opt [] = None"
| "max_opt (x # xs) = Some (case max_opt xs of None \<Rightarrow> x | Some y \<Rightarrow> max x y)"

definition consumed_through :: "mq_db \<Rightarrow> int \<Rightarrow> int option" where
  "consumed_through db topic_id = min_opt (map mg_position (topic_groups db topic_id))"

definition newest_seq :: "mq_db \<Rightarrow> int \<Rightarrow> int option" where
  "newest_seq db topic_id = max_opt (map mm_seq (topic_messages db topic_id))"

definition unwrap_or :: "'a \<Rightarrow> 'a option \<Rightarrow> 'a" where
  "unwrap_or d x = (case x of None \<Rightarrow> d | Some v \<Rightarrow> v)"

definition group_count_reserved :: "mq_db \<Rightarrow> string \<Rightarrow> int core_result" where
  "group_count_reserved db topic =
     result_bind (topic_row_any db topic) (\<lambda>(topic_id, _). Inr (int (length (topic_groups db topic_id))))"

definition group_count :: "mq_db \<Rightarrow> string \<Rightarrow> int core_result" where
  "group_count db topic = result_bind (check_unreserved topic) (\<lambda>_. group_count_reserved db topic)"

section \<open>Topics\<close>

definition topic_create_reserved ::
  "mq_db \<Rightarrow> string \<Rightarrow> topic_spec \<Rightarrow> int \<Rightarrow> (mq_db \<times> created) core_result" where
  "topic_create_reserved db name spec now =
     result_bind (lift_queue (check_name ''topic name'' name)) (\<lambda>_.
     result_bind (lift_queue (check_positive ''max_bytes'' (ts_max_bytes spec))) (\<lambda>_.
     result_bind (lift_queue (check_positive ''max_messages'' (ts_max_messages spec))) (\<lambda>_.
     result_bind (lift_queue (check_positive ''group_idle_ms'' (ts_group_idle_ms spec))) (\<lambda>_.
     result_bind (lift_queue (check_positive ''compact_every_ms'' (ts_compact_every_ms spec))) (\<lambda>_.
     result_bind (case ts_default_ttl_ms spec of
         None \<Rightarrow> Inr () | Some ttl \<Rightarrow> lift_queue (check_positive ''default_ttl_ms'' ttl)) (\<lambda>_.
       case topic_row_any db name of
         Inr (_, existing) \<Rightarrow>
           if existing = spec then Inr (db, Existing) else Inl (Queue (TopicConflict name))
       | Inl (Queue (NoSuchTopic _)) \<Rightarrow>
           Inr (db\<lparr>mq_topics := mq_topics db @
             [\<lparr>mt_id = unwrap_or 0 (max_opt (map mt_id (mq_topics db))) + 1, mt_name = name,
               mt_type = queue_type_as_str (ts_queue_type spec), mt_max_bytes = ts_max_bytes spec,
               mt_max_messages = ts_max_messages spec, mt_default_ttl_ms = ts_default_ttl_ms spec,
               mt_group_idle_ms = ts_group_idle_ms spec, mt_compact_every_ms = ts_compact_every_ms spec,
               mt_created_at = now, mt_compacted_at = None\<rparr>]\<rparr>, New)
       | Inl e \<Rightarrow> Inl e))))))"

definition topic_create ::
  "mq_db \<Rightarrow> string \<Rightarrow> topic_spec \<Rightarrow> int \<Rightarrow> (mq_db \<times> created) core_result" where
  "topic_create db name spec now =
     result_bind (check_unreserved name) (\<lambda>_. topic_create_reserved db name spec now)"

section \<open>Sending\<close>

definition validate_draft ::
  "('v \<Rightarrow> (string, string) result) \<Rightarrow> (string \<Rightarrow> (string, 'v) result) \<Rightarrow> 'v draft \<Rightarrow> topic_spec
     \<Rightarrow> (queue_error, string \<times> int) result" where
  "validate_draft to_json from_json draft spec =
     (if dr_key draft = [] then Inl (Invalid ''key'' ''empty'')
      else if CHR 0x00 \<in> set (dr_key draft) then Inl (Invalid ''key'' ''contains NUL'')
      else if CHR 0x00 \<in> set (dr_producer draft) then Inl (Invalid ''producer'' ''contains NUL'')
      else if length (dr_key draft) > MAX_KEY_BYTES
      then Inl (TooLarge ''key'' (length (dr_key draft)) MAX_KEY_BYTES)
      else result_bind (check_name ''kind'' (dr_kind draft)) (\<lambda>_.
        if length (dr_producer draft) > mq_MAX_NAME_BYTES
        then Inl (TooLarge ''producer'' (length (dr_producer draft)) mq_MAX_NAME_BYTES)
        else result_bind (case dr_ttl_ms draft of
            None \<Rightarrow> Inr () | Some ttl \<Rightarrow> check_positive ''ttl_ms'' ttl) (\<lambda>_.
          case to_json (dr_payload draft) of
            Inl e \<Rightarrow> Inl (Invalid ''payload'' e)
          | Inr payload \<Rightarrow>
              if length payload > MAX_PAYLOAD_BYTES
              then Inl (TooLarge ''payload'' (length payload) MAX_PAYLOAD_BYTES)
              else case from_json payload of
                Inl e \<Rightarrow> Inl (Invalid ''payload'' (''would not parse back: '' @ e))
              | Inr _ \<Rightarrow>
                  let sz = length (dr_key draft) + length (dr_kind draft) + length payload;
                      size_i = (if int sz \<le> i64_MAX then int sz else i64_MAX)
                  in if size_i > ts_max_bytes spec
                     then Inl (TooLarge ''message'' sz (to_usize (ts_max_bytes spec)))
                     else Inr (payload, size_i))))"

definition room_fits :: "topic_spec \<Rightarrow> int \<Rightarrow> int \<Rightarrow> int \<Rightarrow> bool" where
  "room_fits spec sz messages bytes \<longleftrightarrow>
     messages < ts_max_messages spec \<and> saturating_add bytes sz \<le> ts_max_bytes spec"

text \<open>The loop of \<open>make_room\<close> over the consumed rows, oldest first.\<close>

fun reap_walk ::
  "topic_spec \<Rightarrow> int \<Rightarrow> mq_message list \<Rightarrow> int \<Rightarrow> int \<Rightarrow> int option \<Rightarrow> int \<times> int \<times> int option" where
  "reap_walk spec sz [] messages bytes cutoff = (messages, bytes, cutoff)"
| "reap_walk spec sz (r # rows) messages bytes cutoff =
     (if room_fits spec sz messages bytes then (messages, bytes, cutoff)
      else reap_walk spec sz rows (messages - 1) (bytes - mm_size r) (Some (mm_seq r)))"

definition make_room :: "mq_db \<Rightarrow> string \<Rightarrow> int \<Rightarrow> topic_spec \<Rightarrow> int \<Rightarrow> mq_db core_result" where
  "make_room db topic topic_id spec sz =
     (let (held_messages, held_bytes) = holdings db topic_id in
      if room_fits spec sz held_messages held_bytes then Inr db
      else
        let (messages, bytes, cutoff) =
              (case consumed_through db topic_id of
                 None \<Rightarrow> (held_messages, held_bytes, None)
               | Some through \<Rightarrow>
                   reap_walk spec sz (filter (\<lambda>m. mm_seq m \<le> through) (topic_messages db topic_id))
                     held_messages held_bytes None)
        in if \<not> room_fits spec sz messages bytes
           then Inl (Queue (QueueFull topic held_messages held_bytes))
           else case cutoff of
             None \<Rightarrow> Inr db
           | Some c \<Rightarrow> Inr (db\<lparr>mq_messages :=
               filter (\<lambda>m. \<not> (mm_topic m = topic_id \<and> mm_seq m \<le> c)) (mq_messages db)\<rparr>))"

definition option_or :: "'a option \<Rightarrow> 'a option \<Rightarrow> 'a option" where
  "option_or a b = (case a of Some x \<Rightarrow> Some x | None \<Rightarrow> b)"

definition send_reserved ::
  "('v \<Rightarrow> (string, string) result) \<Rightarrow> (string \<Rightarrow> (string, 'v) result)
     \<Rightarrow> mq_db \<Rightarrow> string \<Rightarrow> 'v draft \<Rightarrow> int \<Rightarrow> (mq_db \<times> int) core_result" where
  "send_reserved to_json from_json db topic draft now =
     result_bind (topic_row_any db topic) (\<lambda>(topic_id, spec).
     result_bind (lift_queue (validate_draft to_json from_json draft spec)) (\<lambda>(payload, sz).
     result_bind (make_room db topic topic_id spec sz) (\<lambda>db'.
       let expires_at = map_option (saturating_add now) (option_or (dr_ttl_ms draft) (ts_default_ttl_ms spec));
           seq = mq_seq db' + 1
       in Inr (db'\<lparr>mq_messages := mq_messages db' @
            [\<lparr>mm_seq = seq, mm_topic = topic_id, mm_key = dr_key draft, mm_kind = dr_kind draft,
              mm_payload = payload, mm_size = sz, mm_producer = dr_producer draft,
              mm_enqueued_at = now, mm_expires_at = expires_at\<rparr>], mq_seq := seq\<rparr>, seq))))"

definition send ::
  "('v \<Rightarrow> (string, string) result) \<Rightarrow> (string \<Rightarrow> (string, 'v) result)
     \<Rightarrow> mq_db \<Rightarrow> string \<Rightarrow> 'v draft \<Rightarrow> int \<Rightarrow> (mq_db \<times> int) core_result" where
  "send to_json from_json db topic draft now =
     result_bind (check_unreserved topic) (\<lambda>_. send_reserved to_json from_json db topic draft now)"

section \<open>Groups\<close>

definition group_create_reserved ::
  "mq_db \<Rightarrow> string \<Rightarrow> string \<Rightarrow> start \<Rightarrow> int \<Rightarrow> (mq_db \<times> created) core_result" where
  "group_create_reserved db topic grp start now =
     result_bind (lift_queue (check_name ''group name'' grp)) (\<lambda>_.
     result_bind (topic_row_any db topic) (\<lambda>(topic_id, _).
       let position = (case start of FromStart \<Rightarrow> 0 | FromNow \<Rightarrow> unwrap_or 0 (newest_seq db topic_id)) in
       if find_group db topic_id grp = None
       then Inr (db\<lparr>mq_groups := mq_groups db @
         [\<lparr>mg_topic = topic_id, mg_name = grp, mg_position = position, mg_created_at = now,
           mg_last_poll_at = None, mg_last_ack_at = None\<rparr>]\<rparr>, New)
       else Inr (db, Existing)))"

definition group_create ::
  "mq_db \<Rightarrow> string \<Rightarrow> string \<Rightarrow> start \<Rightarrow> int \<Rightarrow> (mq_db \<times> created) core_result" where
  "group_create db topic grp start now =
     result_bind (check_unreserved topic) (\<lambda>_. group_create_reserved db topic grp start now)"

definition group_delete_reserved :: "mq_db \<Rightarrow> string \<Rightarrow> string \<Rightarrow> (mq_db \<times> bool) core_result" where
  "group_delete_reserved db topic grp =
     result_bind (lift_queue (check_name ''group name'' grp)) (\<lambda>_.
     result_bind (topic_row_any db topic) (\<lambda>(topic_id, _).
       let gone = (\<lambda>g. mg_topic g = topic_id \<and> mg_name g = grp) in
       Inr (db\<lparr>mq_groups := filter (\<lambda>g. \<not> gone g) (mq_groups db)\<rparr>,
            length (filter gone (mq_groups db)) = 1)))"

definition group_delete :: "mq_db \<Rightarrow> string \<Rightarrow> string \<Rightarrow> (mq_db \<times> bool) core_result" where
  "group_delete db topic grp =
     result_bind (check_unreserved topic) (\<lambda>_. group_delete_reserved db topic grp)"

section \<open>Reading messages\<close>

definition message_row :: "int \<Rightarrow> mq_message \<Rightarrow> 'v delivered" where
  "message_row now m =
     \<lparr>dl_seq = mm_seq m, dl_key = mm_key m, dl_kind = mm_kind m, dl_payload = P_Text (mm_payload m),
      dl_producer = mm_producer m, dl_enqueued_at = mm_enqueued_at m, dl_expires_at = mm_expires_at m,
      dl_expired = (case mm_expires_at m of None \<Rightarrow> False | Some at \<Rightarrow> at \<le> now),
      dl_unreadable = False\<rparr>"

text \<open>The query of \<open>poll\<close> and \<open>read_reserved\<close>.\<close>

definition messages_after :: "mq_db \<Rightarrow> int \<Rightarrow> int \<Rightarrow> nat \<Rightarrow> mq_message list" where
  "messages_after db topic_id after limit =
     take limit (filter (\<lambda>m. mm_seq m > after) (topic_messages db topic_id))"

fun parse_payloads ::
  "(string \<Rightarrow> (string, 'v) result) \<Rightarrow> string \<Rightarrow> 'v delivered list \<Rightarrow> 'v delivered list
     \<Rightarrow> 'v delivered list core_result" where
  "parse_payloads from_json topic out [] = Inr out"
| "parse_payloads from_json topic out (d # rows) =
     (case (case dl_payload d of P_Text text \<Rightarrow> from_json text | P_Value _ \<Rightarrow> Inl ''not stored as text'') of
        Inr value \<Rightarrow> parse_payloads from_json topic (out @ [d\<lparr>dl_payload := P_Value value\<rparr>]) rows
      | Inl why \<Rightarrow>
          if out \<noteq> [] then Inr out else Inl (Queue (CorruptPayload topic (dl_seq d) why)))"

definition read_reserved ::
  "(string \<Rightarrow> (string, 'v) result) \<Rightarrow> mq_db \<Rightarrow> string \<Rightarrow> int \<Rightarrow> nat \<Rightarrow> int \<Rightarrow> 'v delivered list core_result" where
  "read_reserved from_json db topic after mx now =
     result_bind (check_batch mx) (\<lambda>_.
     result_bind (topic_row_any db topic) (\<lambda>(topic_id, _).
       parse_payloads from_json topic [] (map (message_row now) (messages_after db topic_id after mx))))"

definition update_group :: "int \<Rightarrow> string \<Rightarrow> (mq_group \<Rightarrow> mq_group) \<Rightarrow> mq_db \<Rightarrow> mq_db" where
  "update_group topic_id grp f db =
     db\<lparr>mq_groups := map (\<lambda>g. if mg_topic g = topic_id \<and> mg_name g = grp then f g else g) (mq_groups db)\<rparr>"

definition poll_reserved ::
  "(string \<Rightarrow> (string, 'v) result) \<Rightarrow> mq_db \<Rightarrow> string \<Rightarrow> string \<Rightarrow> nat \<Rightarrow> int option \<Rightarrow> int
     \<Rightarrow> (mq_db \<times> 'v delivered list) core_result" where
  "poll_reserved from_json db topic grp mx after now =
     result_bind (check_batch mx) (\<lambda>_.
     result_bind (topic_row_any db topic) (\<lambda>(topic_id, _).
     result_bind (group_position db topic topic_id grp) (\<lambda>pos.
       let position = max pos (unwrap_or 0 after);
           db' = update_group topic_id grp (\<lambda>g. g\<lparr>mg_last_poll_at := Some now\<rparr>) db
       in result_bind
            (parse_payloads from_json topic [] (map (message_row now) (messages_after db' topic_id position mx)))
            (\<lambda>out. Inr (db', out)))))"

definition poll ::
  "(string \<Rightarrow> (string, 'v) result) \<Rightarrow> mq_db \<Rightarrow> string \<Rightarrow> string \<Rightarrow> nat \<Rightarrow> int option \<Rightarrow> int
     \<Rightarrow> (mq_db \<times> 'v delivered list) core_result" where
  "poll from_json db topic grp mx after now =
     result_bind (check_unreserved topic) (\<lambda>_. poll_reserved from_json db topic grp mx after now)"

text \<open>\<open>ORDER BY seq DESC LIMIT n\<close>, put back in ascending order: the last \<open>n\<close> rows.\<close>

definition take_last :: "nat \<Rightarrow> 'a list \<Rightarrow> 'a list" where
  "take_last n xs = drop (length xs - n) xs"

definition mq_tail ::
  "(string \<Rightarrow> (string, 'v) result) \<Rightarrow> mq_db \<Rightarrow> string \<Rightarrow> nat \<Rightarrow> int \<Rightarrow> 'v delivered list core_result" where
  "mq_tail from_json db topic limit now =
     (if limit > MAX_BATCH
      then Inl (Queue (Invalid ''limit'' (''at most '' @ nat_str MAX_BATCH @ '' messages'')))
      else result_bind (topic_row db topic) (\<lambda>(topic_id, _).
        Inr (map (\<lambda>d. case dl_payload d of
               P_Text text \<Rightarrow>
                 (case from_json text of
                    Inr value \<Rightarrow> d\<lparr>dl_payload := P_Value value\<rparr>
                  | Inl _ \<Rightarrow> d\<lparr>dl_unreadable := True\<rparr>)
             | P_Value _ \<Rightarrow> d)
           (map (message_row now) (take_last limit (topic_messages db topic_id))))))"

text \<open>Division of an \<open>i64\<close> by 4 truncates towards zero; the idle time stored is positive.\<close>

definition poll_needed_reserved ::
  "mq_db \<Rightarrow> string \<Rightarrow> string \<Rightarrow> nat \<Rightarrow> int option \<Rightarrow> int \<Rightarrow> bool core_result" where
  "poll_needed_reserved db topic grp mx after now =
     result_bind (check_batch mx) (\<lambda>_.
     result_bind (topic_row_any db topic) (\<lambda>(topic_id, spec).
       case find_group db topic_id grp of
         None \<Rightarrow> Inl (Queue (NoSuchGroup topic grp))
       | Some g \<Rightarrow>
           let touch_every = min POLL_TOUCH_MS (max (ts_group_idle_ms spec div 4) 1) in
           if (case mg_last_poll_at g of None \<Rightarrow> True | Some at \<Rightarrow> saturating_sub now at \<ge> touch_every)
           then Inr True
           else Inr (list_ex (\<lambda>m. mm_seq m > max (mg_position g) (unwrap_or 0 after))
                  (topic_messages db topic_id))))"

definition poll_needed ::
  "mq_db \<Rightarrow> string \<Rightarrow> string \<Rightarrow> nat \<Rightarrow> int option \<Rightarrow> int \<Rightarrow> bool core_result" where
  "poll_needed db topic grp mx after now =
     result_bind (check_unreserved topic) (\<lambda>_. poll_needed_reserved db topic grp mx after now)"

section \<open>Acknowledging\<close>

definition ack_reserved ::
  "mq_db \<Rightarrow> string \<Rightarrow> string \<Rightarrow> int \<Rightarrow> int \<Rightarrow> (mq_db \<times> int) core_result" where
  "ack_reserved db topic grp seq now =
     result_bind (topic_row_any db topic) (\<lambda>(topic_id, _).
     result_bind (group_position db topic topic_id grp) (\<lambda>position.
       let high = max (unwrap_or 0 (newest_seq db topic_id)) position in
       if seq > high then Inl (Queue (AckBeyondEnd topic seq high))
       else
         let position' = max position seq in
         Inr (update_group topic_id grp
                (\<lambda>g. g\<lparr>mg_position := position', mg_last_ack_at := Some now\<rparr>) db, position')))"

definition ack ::
  "mq_db \<Rightarrow> string \<Rightarrow> string \<Rightarrow> int \<Rightarrow> int \<Rightarrow> (mq_db \<times> int) core_result" where
  "ack db topic grp seq now =
     result_bind (check_unreserved topic) (\<lambda>_. ack_reserved db topic grp seq now)"

section \<open>Compaction\<close>

definition group_idle :: "int \<Rightarrow> int \<Rightarrow> mq_group \<Rightarrow> bool" where
  "group_idle now idle_ms g \<longleftrightarrow>
     now - max (mg_created_at g) (max (unwrap_or 0 (mg_last_poll_at g)) (unwrap_or 0 (mg_last_ack_at g))) \<ge> idle_ms"

definition is_reserved :: "string \<Rightarrow> bool" where
  "is_reserved name \<longleftrightarrow> list_ex (starts_with name) RESERVED_PREFIXES"

definition reapable :: "int \<Rightarrow> int \<Rightarrow> int \<Rightarrow> mq_message \<Rightarrow> bool" where
  "reapable topic_id through now m \<longleftrightarrow>
     mm_topic m = topic_id \<and> mm_seq m \<le> through \<and>
     (case mm_expires_at m of None \<Rightarrow> False | Some at \<Rightarrow> at \<le> now)"

definition compact_topic :: "int \<Rightarrow> bool \<Rightarrow> mq_topic \<Rightarrow> mq_db \<times> compact_report \<Rightarrow> mq_db \<times> compact_report" where
  "compact_topic now force t = (\<lambda>(db, report).
     if \<not> force \<and> (case mt_compacted_at t of None \<Rightarrow> False
          | Some at \<Rightarrow> saturating_sub now at < mt_compact_every_ms t)
     then (db, report\<lparr>cr_topics_skipped := cr_topics_skipped report + 1\<rparr>)
     else
       let idle = (\<lambda>g. mg_topic g = mt_id t \<and> group_idle now (mt_group_idle_ms t) g);
           db1 = db\<lparr>mq_groups := filter (\<lambda>g. \<not> idle g) (mq_groups db)\<rparr>;
           through = (if is_reserved (mt_name t) then Some i64_MAX else consumed_through db1 (mt_id t));
           reap = (\<lambda>m. case through of None \<Rightarrow> False | Some th \<Rightarrow> reapable (mt_id t) th now m);
           db2 = db1\<lparr>mq_messages := filter (\<lambda>m. \<not> reap m) (mq_messages db1),
             mq_topics := map (\<lambda>u. if mt_id u = mt_id t then u\<lparr>mt_compacted_at := Some now\<rparr> else u) (mq_topics db1)\<rparr>
       in (db2, report\<lparr>
            cr_groups_removed := cr_groups_removed report + length (filter idle (mq_groups db)),
            cr_messages_reaped := cr_messages_reaped report + length (filter reap (mq_messages db1)),
            cr_topics_compacted := cr_topics_compacted report + 1\<rparr>))"

definition compact_report_default :: compact_report where
  "compact_report_default =
     \<lparr>cr_topics_compacted = 0, cr_topics_skipped = 0, cr_messages_reaped = 0, cr_groups_removed = 0\<rparr>"

definition compact :: "mq_db \<Rightarrow> int \<Rightarrow> bool \<Rightarrow> mq_db \<times> compact_report" where
  "compact db now force = fold (compact_topic now force) (mq_topics db) (db, compact_report_default)"

end
