(* ===== verification/Mq_Properties.thy ===== *)
theory Mq_Properties
  imports Mq_Model
begin

text \<open>
  What the queue of \<open>Mq_Model\<close> promises: an invariant of every database its operations build,
  that only consumed messages are reaped, what making room at the cap does, and what a poll
  hands over.
\<close>

section \<open>Small reads\<close>

lemma min_opt_None [simp]: "min_opt xs = None \<longleftrightarrow> xs = []"
  by (cases xs) simp_all

lemma min_opt_Some: "min_opt xs = Some m \<Longrightarrow> m \<in> set xs \<and> (\<forall>x \<in> set xs. m \<le> x)"
proof (induction xs arbitrary: m)
  case (Cons x xs)
  then show ?case by (cases "min_opt xs") (auto simp: min_def split: if_splits)
qed simp

lemma max_opt_None [simp]: "max_opt xs = None \<longleftrightarrow> xs = []"
  by (cases xs) simp_all

lemma max_opt_Some: "max_opt xs = Some m \<Longrightarrow> m \<in> set xs \<and> (\<forall>x \<in> set xs. x \<le> m)"
proof (induction xs arbitrary: m)
  case (Cons x xs)
  then show ?case by (cases "max_opt xs") (auto simp: max_def split: if_splits)
qed simp

lemma lift_queue_Inr [simp]: "lift_queue r = Inr a \<longleftrightarrow> r = Inr a"
  by (cases r) (simp_all add: lift_queue_def)

lemma topic_messages_set: "m \<in> set (topic_messages db i) \<longleftrightarrow> m \<in> set (mq_messages db) \<and> mm_topic m = i"
  by (auto simp: topic_messages_def)

lemma topic_groups_set: "g \<in> set (topic_groups db i) \<longleftrightarrow> g \<in> set (mq_groups db) \<and> mg_topic g = i"
  by (auto simp: topic_groups_def)

lemma topic_row_any_Inr:
  assumes "topic_row_any db name = Inr (i, spec)"
  shows "\<exists>t \<in> set (mq_topics db). mt_name t = name \<and> mt_id t = i \<and> ts_max_bytes spec = mt_max_bytes t \<and>
    ts_max_messages spec = mt_max_messages t \<and> ts_group_idle_ms spec = mt_group_idle_ms t"
  using assms by (auto simp: topic_row_any_def split: option.splits dest!: find_SomeD)

lemma group_position_Inr:
  assumes "group_position db topic i grp = Inr p"
  shows "\<exists>g \<in> set (mq_groups db). mg_topic g = i \<and> mg_name g = grp \<and> mg_position g = p"
  using assms by (auto simp: group_position_def find_group_def split: option.splits dest!: find_SomeD)

text \<open>A filter by an upper bound of a strictly sorted list is a prefix of it.\<close>

lemma filter_le_prefix:
  fixes f :: "'a \<Rightarrow> int"
  assumes "sorted_wrt (<) (map f xs)"
  shows "filter (\<lambda>x. f x \<le> b) xs = take (length (filter (\<lambda>x. f x \<le> b) xs)) xs"
    and "filter (\<lambda>x. \<not> f x \<le> b) xs = drop (length (filter (\<lambda>x. f x \<le> b) xs)) xs"
proof -
  have "filter (\<lambda>x. f x \<le> b) xs = take (length (filter (\<lambda>x. f x \<le> b) xs)) xs \<and>
      filter (\<lambda>x. \<not> f x \<le> b) xs = drop (length (filter (\<lambda>x. f x \<le> b) xs)) xs"
    using assms
  proof (induction xs)
    case (Cons x xs)
    show ?case
    proof (cases "f x \<le> b")
      case False
      with Cons.prems have "filter (\<lambda>x. f x \<le> b) xs = []" "filter (\<lambda>x. \<not> f x \<le> b) xs = xs"
        by (auto simp: filter_empty_conv filter_id_conv)
      with False show ?thesis by simp
    qed (use Cons in simp)
  qed simp
  then show "filter (\<lambda>x. f x \<le> b) xs = take (length (filter (\<lambda>x. f x \<le> b) xs)) xs"
    "filter (\<lambda>x. \<not> f x \<le> b) xs = drop (length (filter (\<lambda>x. f x \<le> b) xs)) xs" by blast+
qed

text \<open>The rows up to the \<open>k\<close>th are those not above it.\<close>

lemma filter_above_nth:
  fixes f :: "'a \<Rightarrow> int"
  assumes "sorted_wrt (<) (map f xs)" and "0 < k" and "k \<le> length xs"
  shows "filter (\<lambda>x. \<not> f x \<le> f (xs ! (k - 1))) xs = drop k xs"
  using assms
proof (induction xs arbitrary: k)
  case (Cons x xs)
  show ?case
  proof (cases "k = 1")
    case True
    with Cons.prems(1) show ?thesis by (auto simp: filter_id_conv)
  next
    case False
    with Cons.prems obtain j where k: "k = Suc j" "0 < j" "j \<le> length xs" by (cases k) auto
    then have "xs ! (j - 1) \<in> set xs" by (intro nth_mem) auto
    with Cons.prems(1) have "f x \<le> f (xs ! (j - 1))" by auto
    with Cons k show ?thesis by (auto simp: nth_Cons')
  qed
qed simp

section \<open>Making room\<close>

definition fits_after :: "topic_spec \<Rightarrow> int \<Rightarrow> mq_message list \<Rightarrow> nat \<Rightarrow> bool" where
  "fits_after spec sz rows k \<longleftrightarrow>
     room_fits spec sz (int (length (drop k rows))) (sum_list (map mm_size (drop k rows)))"

lemma sum_sizes_drop:
  "sum_list (map mm_size (drop k rows)) = sum_list (map mm_size rows) - sum_list (map mm_size (take k rows))"
proof -
  have "sum_list (map mm_size rows) = sum_list (map mm_size (take k rows @ drop k rows))" by simp
  then show ?thesis unfolding map_append sum_list_append by simp
qed

lemma reap_walk_spec:
  "\<exists>k \<le> length rows. reap_walk spec sz rows M B c =
      (M - int k, B - sum_list (map mm_size (take k rows)),
       if k = 0 then c else Some (mm_seq (rows ! (k - 1)))) \<and>
     (k < length rows \<longrightarrow> room_fits spec sz (M - int k) (B - sum_list (map mm_size (take k rows)))) \<and>
     (\<forall>j < k. \<not> room_fits spec sz (M - int j) (B - sum_list (map mm_size (take j rows))))"
proof (induction rows arbitrary: M B c)
  case (Cons r rows)
  show ?case
  proof (cases "room_fits spec sz M B")
    case True
    then show ?thesis by (intro exI [of _ 0]) simp
  next
    case False
    obtain k where k: "k \<le> length rows"
      "reap_walk spec sz rows (M - 1) (B - mm_size r) (Some (mm_seq r)) =
        (M - 1 - int k, B - mm_size r - sum_list (map mm_size (take k rows)),
         if k = 0 then Some (mm_seq r) else Some (mm_seq (rows ! (k - 1))))"
      "k < length rows \<longrightarrow> room_fits spec sz (M - 1 - int k) (B - mm_size r - sum_list (map mm_size (take k rows)))"
      "\<forall>j < k. \<not> room_fits spec sz (M - 1 - int j) (B - mm_size r - sum_list (map mm_size (take j rows)))"
      using Cons.IH [of "M - 1" "B - mm_size r" "Some (mm_seq r)"] by blast
    have "\<not> room_fits spec sz (M - int j) (B - sum_list (map mm_size (take j (r # rows))))" if "j < Suc k" for j
      using that False k(4) by (cases j) (auto simp: algebra_simps)
    with k False show ?thesis
      by (intro exI [of _ "Suc k"]) (auto simp: algebra_simps nth_Cons')
  qed
qed simp

definition consumed_rows :: "mq_db \<Rightarrow> int \<Rightarrow> mq_message list" where
  "consumed_rows db i =
     (case consumed_through db i of
        None \<Rightarrow> []
      | Some through \<Rightarrow> filter (\<lambda>m. mm_seq m \<le> through) (topic_messages db i))"

lemma sorted_topic_messages:
  "sorted_wrt (<) (map mm_seq (mq_messages db)) \<Longrightarrow> sorted_wrt (<) (map mm_seq (topic_messages db i))"
  by (simp add: topic_messages_def sorted_wrt_map sorted_wrt_filter)

lemma consumed_rows_prefix:
  assumes "sorted_wrt (<) (map mm_seq (mq_messages db))"
  shows "consumed_rows db i = take (length (consumed_rows db i)) (topic_messages db i)"
proof (cases "consumed_through db i")
  case (Some b)
  then show ?thesis
    using filter_le_prefix(1) [OF sorted_topic_messages [OF assms], of b i] by (simp add: consumed_rows_def)
qed (simp add: consumed_rows_def)

lemma topic_messages_cut:
  "topic_messages (db\<lparr>mq_messages := filter (\<lambda>m. \<not> (mm_topic m = i \<and> P m)) (mq_messages db)\<rparr>) i =
     filter (\<lambda>m. \<not> P m) (topic_messages db i)"
  by (auto simp: topic_messages_def intro: filter_cong)

text \<open>
  At the cap, the least number of consumed rows that makes the message fit is taken away; when
  even all of them are not enough, nothing is.
\<close>

lemma make_room_cases:
  assumes sorted: "sorted_wrt (<) (map mm_seq (mq_messages db))"
  obtains (room) k db' where "k \<le> length (consumed_rows db i)" "fits_after spec sz (topic_messages db i) k"
      "\<forall>j < k. \<not> fits_after spec sz (topic_messages db i) j" "make_room db topic i spec sz = Inr db'"
      "db' = db\<lparr>mq_messages := mq_messages db'\<rparr>" "topic_messages db' i = drop k (topic_messages db i)"
      "filter (\<lambda>m. mm_topic m \<noteq> i) (mq_messages db') = filter (\<lambda>m. mm_topic m \<noteq> i) (mq_messages db)"
      "\<exists>P. mq_messages db' = filter P (mq_messages db)"
  | (full) "\<forall>k \<le> length (consumed_rows db i). \<not> fits_after spec sz (topic_messages db i) k"
      "make_room db topic i spec sz =
         Inl (Queue (QueueFull topic (fst (holdings db i)) (snd (holdings db i))))"
proof -
  let ?tm = "topic_messages db i" and ?rows = "consumed_rows db i"
  let ?M = "int (length ?tm)" and ?B = "sum_list (map mm_size ?tm)"
  have pre: "?rows = take (length ?rows) ?tm" by (rule consumed_rows_prefix [OF sorted])
  then have len: "length ?rows \<le> length ?tm" by (metis length_take min.bounded_iff order_refl)
  have take: "take j ?rows = take j ?tm" if "j \<le> length ?rows" for j
    by (subst pre) (simp add: that min_absorb1)
  have fits: "fits_after spec sz ?tm j \<longleftrightarrow> room_fits spec sz (?M - int j) (?B - sum_list (map mm_size (take j ?rows)))"
    if "j \<le> length ?rows" for j
    using that len by (simp add: fits_after_def take sum_sizes_drop of_nat_diff)
  obtain k where k: "k \<le> length ?rows"
    "reap_walk spec sz ?rows ?M ?B None =
      (?M - int k, ?B - sum_list (map mm_size (take k ?rows)),
       if k = 0 then None else Some (mm_seq (?rows ! (k - 1))))"
    "k < length ?rows \<longrightarrow> room_fits spec sz (?M - int k) (?B - sum_list (map mm_size (take k ?rows)))"
    "\<forall>j < k. \<not> room_fits spec sz (?M - int j) (?B - sum_list (map mm_size (take j ?rows)))"
    using reap_walk_spec [of ?rows spec sz ?M ?B None] by blast
  have walk: "(case consumed_through db i of
       None \<Rightarrow> (?M, ?B, None)
     | Some through \<Rightarrow> reap_walk spec sz (filter (\<lambda>m. mm_seq m \<le> through) ?tm) ?M ?B None) =
     (?M - int k, ?B - sum_list (map mm_size (take k ?rows)),
       if k = 0 then None else Some (mm_seq (?rows ! (k - 1))))"
    using k(1,2) by (cases "consumed_through db i") (auto simp: consumed_rows_def)
  have least: "\<forall>j < k. \<not> fits_after spec sz ?tm j" using k(1,4) fits by simp
  show thesis
  proof (cases "fits_after spec sz ?tm k")
    case True
    define db' where "db' = (if k = 0 then db
      else db\<lparr>mq_messages := filter (\<lambda>m. \<not> (mm_topic m = i \<and> mm_seq m \<le> mm_seq (?rows ! (k - 1)))) (mq_messages db)\<rparr>)"
    have room: "make_room db topic i spec sz = Inr db'"
    proof (cases "k = 0")
      case k0: True
      with True have "room_fits spec sz ?M ?B" by (simp add: fits_after_def)
      with k0 show ?thesis by (simp add: make_room_def holdings_def db'_def)
    next
      case False
      with least have "\<not> room_fits spec sz ?M ?B" by (auto simp: fits_after_def)
      with False True fits [OF k(1)] show ?thesis
        unfolding make_room_def holdings_def Let_def prod.case walk by (simp add: db'_def)
    qed
    have nth: "?rows ! (k - 1) = ?tm ! (k - 1)" if "k \<noteq> 0"
      using that k(1) by (metis diff_less less_le_trans nth_take pre zero_less_iff_neq_zero zero_less_one)
    have "topic_messages db' i = drop k ?tm"
    proof (cases "k = 0")
      case False
      then have "topic_messages db' i = filter (\<lambda>m. \<not> mm_seq m \<le> mm_seq (?tm ! (k - 1))) ?tm"
        by (simp only: db'_def nth [OF False] if_False topic_messages_cut)
      then show ?thesis
        using filter_above_nth [OF sorted_topic_messages [OF sorted], of k i] False k(1) len by simp
    qed (simp add: db'_def)
    moreover have "\<exists>P. mq_messages db' = filter P (mq_messages db)"
    proof (cases "k = 0")
      case True
      then show ?thesis by (intro exI [of _ "\<lambda>_. True"]) (simp add: db'_def)
    qed (auto simp: db'_def)
    moreover have "filter (\<lambda>m. mm_topic m \<noteq> i) (mq_messages db') = filter (\<lambda>m. mm_topic m \<noteq> i) (mq_messages db)"
      by (auto simp: db'_def intro: filter_cong)
    moreover have "db' = db\<lparr>mq_messages := mq_messages db'\<rparr>" by (simp add: db'_def)
    ultimately show thesis by (intro that(1) [OF k(1) True least room])
  next
    case False
    then have all: "k = length ?rows" using k(1,3) fits [OF k(1)] by force
    then have none: "\<forall>j \<le> length ?rows. \<not> fits_after spec sz ?tm j"
      using least False by (metis le_neq_implies_less)
    then have "\<not> room_fits spec sz ?M ?B" by (auto simp: fits_after_def)
    with False fits [OF k(1)] none show thesis
      by (intro that(2)) (simp_all add: make_room_def holdings_def Let_def walk)
  qed
qed

lemma make_room_Inr:
  assumes "sorted_wrt (<) (map mm_seq (mq_messages db))" and "make_room db topic i spec sz = Inr db'"
  shows "\<exists>k P. k \<le> length (consumed_rows db i) \<and> fits_after spec sz (topic_messages db i) k \<and>
    db' = db\<lparr>mq_messages := mq_messages db'\<rparr> \<and> topic_messages db' i = drop k (topic_messages db i) \<and>
    filter (\<lambda>m. mm_topic m \<noteq> i) (mq_messages db') = filter (\<lambda>m. mm_topic m \<noteq> i) (mq_messages db) \<and>
    mq_messages db' = filter P (mq_messages db)"
proof (cases rule: make_room_cases [OF assms(1), of i spec sz topic])
  case (1 k db'')
  from 1(4) assms(2) have "db'' = db'" by simp
  with 1 show ?thesis by blast
qed (use assms(2) in simp)

section \<open>The invariant\<close>

definition msgs_ok :: "(string \<Rightarrow> (string, 'v) result) \<Rightarrow> mq_db \<Rightarrow> bool" where
  "msgs_ok from_json db \<longleftrightarrow>
     sorted_wrt (<) (map mm_seq (mq_messages db)) \<and> 0 \<le> mq_seq db \<and>
     (\<forall>m \<in> set (mq_messages db). 0 < mm_seq m \<and> mm_seq m \<le> mq_seq db \<and> 0 < mm_size m \<and>
        (\<exists>v. from_json (mm_payload m) = Inr v))"

definition topics_ok :: "mq_db \<Rightarrow> bool" where
  "topics_ok db \<longleftrightarrow>
     distinct (map mt_id (mq_topics db)) \<and> distinct (map mt_name (mq_topics db)) \<and>
     (\<forall>t \<in> set (mq_topics db). mt_type t = ''log'')"

definition within_caps :: "mq_db \<Rightarrow> mq_topic \<Rightarrow> bool" where
  "within_caps db t \<longleftrightarrow>
     int (length (topic_messages db (mt_id t))) \<le> mt_max_messages t \<and>
     (mt_max_bytes t < i64_MAX \<longrightarrow> sum_list (map mm_size (topic_messages db (mt_id t))) \<le> mt_max_bytes t)"

definition groups_ok :: "mq_db \<Rightarrow> bool" where
  "groups_ok db \<longleftrightarrow>
     distinct (map (\<lambda>g. (mg_topic g, mg_name g)) (mq_groups db)) \<and>
     (\<forall>g \<in> set (mq_groups db). 0 \<le> mg_position g \<and> mg_position g \<le> mq_seq db)"

text \<open>Every stored message belongs to a topic, as the foreign key demands.\<close>

definition owned_ok :: "mq_db \<Rightarrow> bool" where
  "owned_ok db \<longleftrightarrow> mm_topic ` set (mq_messages db) \<subseteq> mt_id ` set (mq_topics db)"

definition mq_ok :: "(string \<Rightarrow> (string, 'v) result) \<Rightarrow> mq_db \<Rightarrow> bool" where
  "mq_ok from_json db \<longleftrightarrow>
     msgs_ok from_json db \<and> topics_ok db \<and> owned_ok db \<and> groups_ok db \<and>
     (\<forall>t \<in> set (mq_topics db). within_caps db t)"

lemma mq_okD:
  assumes "mq_ok from_json db"
  shows "msgs_ok from_json db" "topics_ok db" "owned_ok db" "groups_ok db"
    "t \<in> set (mq_topics db) \<Longrightarrow> within_caps db t" "sorted_wrt (<) (map mm_seq (mq_messages db))"
  using assms by (auto simp: mq_ok_def msgs_ok_def)

lemma empty_mq_ok: "mq_ok from_json empty_mq"
  by (simp add: mq_ok_def msgs_ok_def topics_ok_def owned_ok_def groups_ok_def empty_mq_def)

text \<open>Taking messages away keeps the bounds.\<close>

lemma sum_sizes_filter:
  "(\<forall>m \<in> set ms. 0 < mm_size m) \<Longrightarrow> sum_list (map mm_size (filter P ms)) \<le> sum_list (map mm_size ms)"
  by (induction ms) auto

lemma within_caps_fewer:
  assumes "within_caps db t" and "\<forall>m \<in> set (topic_messages db (mt_id t)). 0 < mm_size m"
    and "topic_messages db' (mt_id t) = filter P (topic_messages db (mt_id t))"
  shows "within_caps db' t"
  using assms sum_sizes_filter [OF assms(2), of P] length_filter_le [of P "topic_messages db (mt_id t)"]
  unfolding within_caps_def by (simp only: assms(3)) linarith

lemma within_caps_same: "topic_messages db' (mt_id t) = topic_messages db (mt_id t) \<Longrightarrow> within_caps db t \<Longrightarrow> within_caps db' t"
  by (simp add: within_caps_def)

lemma saturating_bound: "saturating_add a b \<le> m \<Longrightarrow> m < i64_MAX \<Longrightarrow> a + b \<le> m"
  by (auto simp: saturating_add_def min_def split: if_splits)

lemma other_topic_messages:
  assumes "filter (\<lambda>m. mm_topic m \<noteq> i) ms = filter (\<lambda>m. mm_topic m \<noteq> i) ms'" and "j \<noteq> i"
  shows "filter (\<lambda>m. mm_topic m = j) ms = filter (\<lambda>m. mm_topic m = j) ms'"
proof -
  have "filter (\<lambda>m. mm_topic m = j) xs = filter (\<lambda>m. mm_topic m = j) (filter (\<lambda>m. mm_topic m \<noteq> i) xs)" for xs
    using assms(2) by (auto intro: filter_cong)
  with assms(1) show ?thesis by metis
qed

section \<open>Each operation keeps it\<close>

lemma validate_draft_Inr:
  assumes "validate_draft to_json from_json draft spec = Inr (payload, sz)"
  shows "to_json (dr_payload draft) = Inr payload \<and> (\<exists>v. from_json payload = Inr v) \<and>
    0 < sz \<and> sz \<le> ts_max_bytes spec \<and> length (dr_key draft) \<le> MAX_KEY_BYTES \<and> length payload \<le> MAX_PAYLOAD_BYTES"
proof -
  have "0 < i64_MAX" by (simp add: i64_MAX_def)
  with assms show ?thesis
    by (auto simp: validate_draft_def result_bind_Inr Let_def split: if_splits sum.splits intro!: add_pos_nonneg)
qed

lemma send_reserved_Inr:
  assumes "send_reserved to_json from_json db topic draft now = Inr (db', seq)"
  obtains i spec payload sz mid where "topic_row_any db topic = Inr (i, spec)"
    "validate_draft to_json from_json draft spec = Inr (payload, sz)"
    "make_room db topic i spec sz = Inr mid" "seq = mq_seq mid + 1"
    "db' = mid\<lparr>mq_messages := mq_messages mid @
            [\<lparr>mm_seq = seq, mm_topic = i, mm_key = dr_key draft, mm_kind = dr_kind draft,
              mm_payload = payload, mm_size = sz, mm_producer = dr_producer draft, mm_enqueued_at = now,
              mm_expires_at = map_option (saturating_add now) (option_or (dr_ttl_ms draft) (ts_default_ttl_ms spec))\<rparr>],
            mq_seq := seq\<rparr>"
  using assms by (auto simp: send_reserved_def result_bind_Inr Let_def)

lemma send_ok:
  assumes ok: "mq_ok from_json db"
    and send: "send_reserved to_json from_json db topic draft now = Inr (db', seq)"
  shows "mq_ok from_json db'"
proof -
  from send obtain i spec payload sz mid where row: "topic_row_any db topic = Inr (i, spec)"
    and val: "validate_draft to_json from_json draft spec = Inr (payload, sz)"
    and mk: "make_room db topic i spec sz = Inr mid" and seq: "seq = mq_seq mid + 1"
    and db': "db' = mid\<lparr>mq_messages := mq_messages mid @
            [\<lparr>mm_seq = seq, mm_topic = i, mm_key = dr_key draft, mm_kind = dr_kind draft,
              mm_payload = payload, mm_size = sz, mm_producer = dr_producer draft, mm_enqueued_at = now,
              mm_expires_at = map_option (saturating_add now) (option_or (dr_ttl_ms draft) (ts_default_ttl_ms spec))\<rparr>],
            mq_seq := seq\<rparr>"
    by (rule send_reserved_Inr)
  from make_room_Inr [OF mq_okD(6) [OF ok] mk] obtain k P where
    fits: "fits_after spec sz (topic_messages db i) k" and mid: "mid = db\<lparr>mq_messages := mq_messages mid\<rparr>"
    and tm: "topic_messages mid i = drop k (topic_messages db i)"
    and rest: "filter (\<lambda>m. mm_topic m \<noteq> i) (mq_messages mid) = filter (\<lambda>m. mm_topic m \<noteq> i) (mq_messages db)"
    and P: "mq_messages mid = filter P (mq_messages db)"
    by metis
  have same: "mq_topics mid = mq_topics db" "mq_groups mid = mq_groups db" "mq_seq mid = mq_seq db"
    by (subst mid, simp)+
  from topic_row_any_Inr [OF row] obtain u where u: "u \<in> set (mq_topics db)" "mt_id u = i"
    "ts_max_bytes spec = mt_max_bytes u" "ts_max_messages spec = mt_max_messages u" by blast
  have sz: "0 < sz" "\<exists>v. from_json payload = Inr v" using validate_draft_Inr [OF val] by blast+
  have "msgs_ok from_json db'"
    using mq_okD(1) [OF ok] sz by (auto simp: msgs_ok_def db' P seq same sorted_wrt_append sorted_wrt_map sorted_wrt_filter)
  moreover have "topics_ok db'" using mq_okD(2) [OF ok] by (simp add: topics_ok_def db' same)
  moreover have "owned_ok db'" using mq_okD(3) [OF ok] u by (auto simp: owned_ok_def db' P same)
  moreover have "groups_ok db'" using mq_okD(4) [OF ok] by (auto simp: groups_ok_def db' same seq)
  moreover have "within_caps db' t" if t: "t \<in> set (mq_topics db')" for t
  proof (cases "mt_id t = i")
    case True
    from t u(1,2) True mq_okD(2) [OF ok] have "t = u"
      by (auto simp: db' same topics_ok_def distinct_map dest: inj_onD)
    have "int (length (drop k (topic_messages db i))) < mt_max_messages u"
      "mt_max_bytes u < i64_MAX \<longrightarrow> sum_list (map mm_size (drop k (topic_messages db i))) + sz \<le> mt_max_bytes u"
      using fits u(3,4) saturating_bound [of "sum_list (map mm_size (drop k (topic_messages db i)))" sz]
      by (simp_all add: fits_after_def room_fits_def)
    moreover have "topic_messages db' i = drop k (topic_messages db i) @ [last (mq_messages db')]"
      unfolding tm [symmetric] by (simp add: db' topic_messages_def)
    ultimately show ?thesis
      using \<open>t = u\<close> u(2) by (simp add: within_caps_def db')
  next
    case False
    then have "topic_messages db' (mt_id t) = topic_messages db (mt_id t)"
      using other_topic_messages [OF rest] by (simp add: topic_messages_def db')
    then show ?thesis
      by (rule within_caps_same) (use t mq_okD(5) [OF ok] in \<open>simp add: db' same\<close>)
  qed
  ultimately show ?thesis by (simp add: mq_ok_def)
qed

lemma mq_ok_groups:
  assumes "mq_ok from_json db" and "db' = db\<lparr>mq_groups := mq_groups db'\<rparr>" and "groups_ok db'"
  shows "mq_ok from_json db'"
proof -
  have "mq_messages db' = mq_messages db" "mq_topics db' = mq_topics db" "mq_seq db' = mq_seq db"
    by (subst assms(2), simp)+
  then show ?thesis
    using assms(1,3) by (simp add: mq_ok_def msgs_ok_def topics_ok_def owned_ok_def within_caps_def topic_messages_def)
qed

lemma newest_seq_bound:
  assumes "mq_ok from_json db"
  shows "0 \<le> unwrap_or 0 (newest_seq db i)" "unwrap_or 0 (newest_seq db i) \<le> mq_seq db"
proof -
  have m: "m \<in> set (topic_messages db i) \<Longrightarrow> 0 < mm_seq m \<and> mm_seq m \<le> mq_seq db" for m
    using mq_okD(1) [OF assms] by (auto simp: msgs_ok_def topic_messages_set)
  have "0 \<le> mq_seq db" using mq_okD(1) [OF assms] by (simp add: msgs_ok_def)
  moreover have "0 < x \<and> x \<le> mq_seq db" if "newest_seq db i = Some x" for x
    using max_opt_Some [OF that [unfolded newest_seq_def]] m by auto
  ultimately show "0 \<le> unwrap_or 0 (newest_seq db i)" "unwrap_or 0 (newest_seq db i) \<le> mq_seq db"
    by (auto simp: unwrap_or_def split: option.split dest: less_imp_le)
qed

lemma group_create_ok:
  assumes "mq_ok from_json db" and "group_create_reserved db topic grp start now = Inr (db', c)"
  shows "mq_ok from_json db'"
proof -
  from assms(2) obtain i where
    db': "db' = db \<or> (find_group db i grp = None \<and> db' = db\<lparr>mq_groups := mq_groups db @
         [\<lparr>mg_topic = i, mg_name = grp,
           mg_position = (case start of FromStart \<Rightarrow> 0 | FromNow \<Rightarrow> unwrap_or 0 (newest_seq db i)),
           mg_created_at = now, mg_last_poll_at = None, mg_last_ack_at = None\<rparr>]\<rparr>)"
    by (auto simp: group_create_reserved_def result_bind_Inr Let_def split: if_splits)
  let ?p = "case start of FromStart \<Rightarrow> 0 | FromNow \<Rightarrow> unwrap_or 0 (newest_seq db i)"
  have p: "0 \<le> ?p \<and> ?p \<le> mq_seq db"
    using newest_seq_bound [OF assms(1), of i] mq_okD(1) [OF assms(1)] by (auto simp: msgs_ok_def split: start.split)
  from db' show ?thesis
  proof (elim disjE conjE)
    assume none: "find_group db i grp = None"
      and d: "db' = db\<lparr>mq_groups := mq_groups db @ [\<lparr>mg_topic = i, mg_name = grp, mg_position = ?p,
          mg_created_at = now, mg_last_poll_at = None, mg_last_ack_at = None\<rparr>]\<rparr>"
    show ?thesis
    proof (rule mq_ok_groups [OF assms(1)])
      show "groups_ok db'"
        using none p mq_okD(4) [OF assms(1)] by (auto simp: groups_ok_def d find_group_def find_None_iff2)
    qed (simp add: d)
  qed (use assms(1) in simp)
qed

lemma group_delete_ok:
  assumes "mq_ok from_json db" and "group_delete_reserved db topic grp = Inr (db', b)"
  shows "mq_ok from_json db'"
proof -
  from assms(2) obtain P where d: "db' = db\<lparr>mq_groups := filter P (mq_groups db)\<rparr>"
    by (auto simp: group_delete_reserved_def result_bind_Inr Let_def)
  show ?thesis
    by (rule mq_ok_groups [OF assms(1)]) (use mq_okD(4) [OF assms(1)] in \<open>auto simp: d groups_ok_def distinct_map_filter\<close>)
qed

lemma update_group_ok:
  assumes "mq_ok from_json db" and "\<And>g. mg_topic (f g) = mg_topic g \<and> mg_name (f g) = mg_name g"
    and "\<And>g. g \<in> set (mq_groups db) \<Longrightarrow> mg_topic g = i \<Longrightarrow> mg_name g = grp \<Longrightarrow>
       0 \<le> mg_position (f g) \<and> mg_position (f g) \<le> mq_seq db"
  shows "mq_ok from_json (update_group i grp f db)"
proof (rule mq_ok_groups [OF assms(1)])
  have "map (\<lambda>g. (mg_topic g, mg_name g)) (map (\<lambda>g. if mg_topic g = i \<and> mg_name g = grp then f g else g) gs) =
      map (\<lambda>g. (mg_topic g, mg_name g)) gs" for gs
    using assms(2) by (induction gs) auto
  then show "groups_ok (update_group i grp f db)"
    using mq_okD(4) [OF assms(1)] assms(3) by (auto simp: update_group_def groups_ok_def simp del: map_map)
qed (simp add: update_group_def)

lemma poll_ok:
  assumes "mq_ok from_json db" and "poll_reserved fj db topic grp mx after now = Inr (db', out)"
  shows "mq_ok from_json db'"
proof -
  from assms(2) obtain i where "db' = update_group i grp (\<lambda>g. g\<lparr>mg_last_poll_at := Some now\<rparr>) db"
    by (auto simp: poll_reserved_def result_bind_Inr Let_def)
  then show ?thesis
    using update_group_ok [OF assms(1), of "\<lambda>g. g\<lparr>mg_last_poll_at := Some now\<rparr>" i grp] mq_okD(4) [OF assms(1)]
    by (simp add: groups_ok_def)
qed

lemma ack_ok:
  assumes "mq_ok from_json db" and "ack_reserved db topic grp seq now = Inr (db', p)"
  shows "mq_ok from_json db'"
proof -
  from assms(2) obtain i pos where pos: "group_position db topic i grp = Inr pos"
    and le: "seq \<le> max (unwrap_or 0 (newest_seq db i)) pos"
    and d: "db' = update_group i grp (\<lambda>g. g\<lparr>mg_position := max pos seq, mg_last_ack_at := Some now\<rparr>) db"
    by (auto simp: ack_reserved_def result_bind_Inr Let_def split: if_splits)
  have "0 \<le> pos" "pos \<le> mq_seq db"
    using group_position_Inr [OF pos] mq_okD(4) [OF assms(1)] by (auto simp: groups_ok_def)
  then have "0 \<le> max pos seq" "max pos seq \<le> mq_seq db"
    using le newest_seq_bound(2) [OF assms(1), of i] by auto
  then show ?thesis unfolding d by (intro update_group_ok [OF assms(1)]) simp_all
qed

lemma mq_ok_fewer:
  assumes "mq_ok from_json db" and "mq_messages db' = filter P (mq_messages db)"
    and "mq_groups db' = filter Q (mq_groups db)" and "mq_topics db' = map f (mq_topics db)" and "mq_seq db' = mq_seq db"
    and f: "\<And>t. mt_id (f t) = mt_id t \<and> mt_name (f t) = mt_name t \<and> mt_type (f t) = mt_type t \<and>
       mt_max_messages (f t) = mt_max_messages t \<and> mt_max_bytes (f t) = mt_max_bytes t"
  shows "mq_ok from_json db'"
proof -
  have "msgs_ok from_json db'"
    using mq_okD(1) [OF assms(1)] by (auto simp: msgs_ok_def assms(2,5) sorted_wrt_map sorted_wrt_filter)
  moreover have "topics_ok db'"
    using mq_okD(2) [OF assms(1)] f by (auto simp: topics_ok_def assms(4) comp_def)
  moreover have "owned_ok db'"
    using mq_okD(3) [OF assms(1)] f by (auto simp: owned_ok_def assms(2,4) image_image)
  moreover have "groups_ok db'"
    using mq_okD(4) [OF assms(1)] by (auto simp: groups_ok_def assms(3,5) distinct_map_filter)
  moreover have "within_caps db' (f t)" if t: "t \<in> set (mq_topics db)" for t
  proof -
    have "within_caps db' t"
    proof (rule within_caps_fewer [OF mq_okD(5) [OF assms(1) t]])
      show "topic_messages db' (mt_id t) = filter P (topic_messages db (mt_id t))"
        by (auto simp: topic_messages_def assms(2) intro: filter_cong)
      show "\<forall>m \<in> set (topic_messages db (mt_id t)). 0 < mm_size m"
        using mq_okD(1) [OF assms(1)] by (auto simp: msgs_ok_def topic_messages_set)
    qed
    with f [of t] show ?thesis by (simp add: within_caps_def)
  qed
  ultimately show ?thesis by (auto simp: mq_ok_def assms(4))
qed

text \<open>What one topic's compaction takes away.\<close>

definition topic_expired :: "int \<Rightarrow> mq_message \<Rightarrow> bool" where
  "topic_expired now m \<longleftrightarrow> (\<exists>at. mm_expires_at m = Some at \<and> at \<le> now)"

lemma compact_topic_shape:
  assumes "compact_topic now force t (db, r) = (db', r')"
  obtains P Q f where "mq_messages db' = filter P (mq_messages db)" "mq_groups db' = filter Q (mq_groups db)"
    "mq_topics db' = map f (mq_topics db)" "mq_seq db' = mq_seq db"
    "\<And>u. mt_id (f u) = mt_id u \<and> mt_name (f u) = mt_name u \<and> mt_type (f u) = mt_type u \<and>
       mt_max_messages (f u) = mt_max_messages u \<and> mt_max_bytes (f u) = mt_max_bytes u"
    "\<And>m. \<not> P m \<Longrightarrow> mm_topic m = mt_id t \<and> topic_expired now m \<and>
       (is_reserved (mt_name t) \<or> (\<exists>th. consumed_through db' (mt_id t) = Some th \<and> mm_seq m \<le> th))"
    "\<And>g. \<not> Q g \<Longrightarrow> mg_topic g = mt_id t \<and> group_idle now (mt_group_idle_ms t) g"
proof (cases "\<not> force \<and> (case mt_compacted_at t of None \<Rightarrow> False | Some at \<Rightarrow> saturating_sub now at < mt_compact_every_ms t)")
  case True
  with assms have "db' = db" by (simp add: compact_topic_def)
  show ?thesis
    by (rule that [of "\<lambda>_. True" "\<lambda>_. True" "\<lambda>u. u"]) (simp_all add: \<open>db' = db\<close>)
next
  case False
  let ?db1 = "db\<lparr>mq_groups := filter (\<lambda>g. \<not> (mg_topic g = mt_id t \<and> group_idle now (mt_group_idle_ms t) g)) (mq_groups db)\<rparr>"
  let ?th = "if is_reserved (mt_name t) then Some i64_MAX else consumed_through ?db1 (mt_id t)"
  let ?reap = "\<lambda>m. case ?th of None \<Rightarrow> False | Some th \<Rightarrow> reapable (mt_id t) th now m"
  from assms False have db': "db' = ?db1\<lparr>mq_messages := filter (\<lambda>m. \<not> ?reap m) (mq_messages db),
      mq_topics := map (\<lambda>u. if mt_id u = mt_id t then u\<lparr>mt_compacted_at := Some now\<rparr> else u) (mq_topics db)\<rparr>"
    by (simp only: compact_topic_def prod.case if_False Let_def) simp
  have th: "consumed_through db' (mt_id t) = consumed_through ?db1 (mt_id t)"
    by (simp add: db' consumed_through_def topic_groups_def)
  show ?thesis
  proof (rule that [of "\<lambda>m. \<not> ?reap m" "\<lambda>g. \<not> (mg_topic g = mt_id t \<and> group_idle now (mt_group_idle_ms t) g)"
        "\<lambda>u. if mt_id u = mt_id t then u\<lparr>mt_compacted_at := Some now\<rparr> else u"])
    fix m assume "\<not> \<not> ?reap m"
    then show "mm_topic m = mt_id t \<and> topic_expired now m \<and>
       (is_reserved (mt_name t) \<or> (\<exists>th. consumed_through db' (mt_id t) = Some th \<and> mm_seq m \<le> th))"
      unfolding th by (auto simp: reapable_def topic_expired_def split: option.splits if_splits)
  qed (simp_all add: db')
qed

lemma compact_topic_ok:
  assumes "mq_ok from_json db" and "compact_topic now force t (db, r) = (db', r')"
  shows "mq_ok from_json db'"
  by (rule compact_topic_shape [OF assms(2)], rule mq_ok_fewer [OF assms(1)], assumption+)

lemma compact_fold_ok:
  "mq_ok from_json db \<Longrightarrow> mq_ok from_json (fst (fold (compact_topic now force) ts (db, r)))"
proof (induction ts arbitrary: db r)
  case (Cons t ts)
  obtain db' r' where c: "compact_topic now force t (db, r) = (db', r')" by fastforce
  with Cons.IH [OF compact_topic_ok [OF Cons.prems c], of r'] show ?case by simp
qed simp

lemma compact_ok: "mq_ok from_json db \<Longrightarrow> mq_ok from_json (fst (compact db now force))"
  unfolding compact_def by (rule compact_fold_ok)

lemma topic_create_ok:
  assumes "mq_ok from_json db" and "topic_create_reserved db name spec now = Inr (db', c)"
  shows "mq_ok from_json db'"
proof (cases "db' = db")
  case False
  let ?i = "unwrap_or 0 (max_opt (map mt_id (mq_topics db))) + 1"
  from False assms(2) have row: "\<exists>e. topic_row_any db name = Inl (Queue (NoSuchTopic e))" and pos: "0 < ts_max_messages spec" "0 < ts_max_bytes spec"
    and db': "db' = db\<lparr>mq_topics := mq_topics db @ [\<lparr>mt_id = ?i, mt_name = name,
        mt_type = queue_type_as_str (ts_queue_type spec), mt_max_bytes = ts_max_bytes spec,
        mt_max_messages = ts_max_messages spec, mt_default_ttl_ms = ts_default_ttl_ms spec,
        mt_group_idle_ms = ts_group_idle_ms spec, mt_compact_every_ms = ts_compact_every_ms spec,
        mt_created_at = now, mt_compacted_at = None\<rparr>]\<rparr>"
    by (auto simp: topic_create_reserved_def result_bind_Inr check_positive_def
        split: sum.splits if_splits core_error.splits queue_error.splits)
  have new: "name \<notin> mt_name ` set (mq_topics db)"
    using row by (auto simp: topic_row_any_def find_None_iff2 split: option.splits)
  have "x \<le> unwrap_or 0 (max_opt (map mt_id (mq_topics db)))" if "x \<in> mt_id ` set (mq_topics db)" for x
    using that max_opt_Some [of "map mt_id (mq_topics db)"]
    by (cases "max_opt (map mt_id (mq_topics db))") (auto simp: unwrap_or_def)
  then have fresh: "?i \<notin> mt_id ` set (mq_topics db)" by fastforce
  have "mm_topic m \<noteq> ?i" if "m \<in> set (mq_messages db)" for m
    using that fresh mq_okD(3) [OF assms(1)] unfolding owned_ok_def by (metis image_subset_iff)
  then have none: "topic_messages db ?i = []" by (simp add: topic_messages_def filter_empty_conv)
  have tm: "topic_messages db' = topic_messages db" by (intro ext) (simp add: topic_messages_def db')
  have log: "queue_type_as_str (ts_queue_type spec) = ''log''" by (cases "ts_queue_type spec") simp
  have "msgs_ok from_json db'" using mq_okD(1) [OF assms(1)] by (simp add: msgs_ok_def db')
  moreover have "topics_ok db'" using mq_okD(2) [OF assms(1)] new fresh log by (simp add: topics_ok_def db')
  moreover have "owned_ok db'" using mq_okD(3) [OF assms(1)] by (auto simp: owned_ok_def db')
  moreover have "groups_ok db'" using mq_okD(4) [OF assms(1)] by (simp add: groups_ok_def db')
  moreover have "\<forall>t \<in> set (mq_topics db'). within_caps db' t"
    using mq_okD(5) [OF assms(1)] none pos by (auto simp: within_caps_def tm) (auto simp: db')
  ultimately show ?thesis by (simp add: mq_ok_def)
qed (use assms(1) in simp)

section \<open>Databases the operations build\<close>

inductive mq_step ::
  "('v \<Rightarrow> (string, string) result) \<Rightarrow> (string \<Rightarrow> (string, 'v) result) \<Rightarrow> mq_db \<Rightarrow> mq_db \<Rightarrow> bool"
  for to_json from_json where
  do_topic: "topic_create_reserved db name spec now = Inr (db', c) \<Longrightarrow> mq_step to_json from_json db db'"
| do_send: "send_reserved to_json from_json db topic draft now = Inr (db', seq) \<Longrightarrow> mq_step to_json from_json db db'"
| do_group: "group_create_reserved db topic grp start now = Inr (db', c) \<Longrightarrow> mq_step to_json from_json db db'"
| do_leave: "group_delete_reserved db topic grp = Inr (db', b) \<Longrightarrow> mq_step to_json from_json db db'"
| do_poll: "poll_reserved from_json db topic grp mx after now = Inr (db', out) \<Longrightarrow> mq_step to_json from_json db db'"
| do_ack: "ack_reserved db topic grp seq now = Inr (db', p) \<Longrightarrow> mq_step to_json from_json db db'"
| do_compact: "mq_step to_json from_json db (fst (compact db now force))"

inductive mq_reachable ::
  "('v \<Rightarrow> (string, string) result) \<Rightarrow> (string \<Rightarrow> (string, 'v) result) \<Rightarrow> mq_db \<Rightarrow> bool"
  for to_json from_json where
  mq_empty: "mq_reachable to_json from_json empty_mq"
| mq_more: "mq_reachable to_json from_json db \<Longrightarrow> mq_step to_json from_json db db' \<Longrightarrow> mq_reachable to_json from_json db'"

lemma mq_step_ok: "mq_step to_json from_json db db' \<Longrightarrow> mq_ok from_json db \<Longrightarrow> mq_ok from_json db'"
  by (induction rule: mq_step.induct)
     (metis topic_create_ok, metis send_ok, metis group_create_ok, metis group_delete_ok, metis poll_ok,
      metis ack_ok, metis compact_ok)

lemma mq_reachable_ok: "mq_reachable to_json from_json db \<Longrightarrow> mq_ok from_json db"
  by (induction rule: mq_reachable.induct) (auto intro: empty_mq_ok mq_step_ok)

section \<open>What is reaped\<close>

text \<open>Consumed by every group of its topic, of which there is at least one.\<close>

definition consumed_by_all :: "mq_db \<Rightarrow> mq_message \<Rightarrow> bool" where
  "consumed_by_all db m \<longleftrightarrow>
     topic_groups db (mm_topic m) \<noteq> [] \<and> (\<forall>g \<in> set (topic_groups db (mm_topic m)). mm_seq m \<le> mg_position g)"

lemma consumed_through_all:
  assumes "consumed_through db (mm_topic m) = Some th" and "mm_seq m \<le> th"
  shows "consumed_by_all db m"
proof -
  have "th \<in> set (map mg_position (topic_groups db (mm_topic m)))"
    "\<forall>p \<in> set (map mg_position (topic_groups db (mm_topic m))). th \<le> p"
    using min_opt_Some [OF assms(1) [unfolded consumed_through_def]] by blast+
  with assms(2) show ?thesis by (auto simp: consumed_by_all_def)
qed

lemma send_reaps_consumed:
  assumes ok: "mq_ok from_json db" and "send_reserved to_json from_json db topic draft now = Inr (db', seq)"
    and m: "m \<in> set (mq_messages db)" "m \<notin> set (mq_messages db')"
  shows "consumed_by_all db' m"
proof -
  from assms(2) obtain i spec payload sz mid where
    mk: "make_room db topic i spec sz = Inr mid" and db': "set (mq_messages mid) \<subseteq> set (mq_messages db')" "mq_groups db' = mq_groups mid"
    by (elim send_reserved_Inr) auto
  have sorted: "sorted_wrt (<) (map mm_seq (mq_messages db))" by (rule mq_okD(6) [OF ok])
  from make_room_Inr [OF sorted mk] obtain k where k: "k \<le> length (consumed_rows db i)"
    and tm: "topic_messages mid i = drop k (topic_messages db i)"
    and rest: "filter (\<lambda>m. mm_topic m \<noteq> i) (mq_messages mid) = filter (\<lambda>m. mm_topic m \<noteq> i) (mq_messages db)"
    and g: "mid = db\<lparr>mq_messages := mq_messages mid\<rparr>"
    by blast
  have "m \<notin> set (mq_messages mid)" using m(2) db'(1) by blast
  have i: "mm_topic m = i"
  proof (rule ccontr)
    assume "mm_topic m \<noteq> i"
    with m(1) have "m \<in> set (filter (\<lambda>m. mm_topic m \<noteq> i) (mq_messages mid))" unfolding rest by simp
    with \<open>m \<notin> set (mq_messages mid)\<close> show False by simp
  qed
  with m(1) have "m \<in> set (take k (topic_messages db i) @ drop k (topic_messages db i))"
    by (simp add: topic_messages_set)
  moreover have "m \<notin> set (drop k (topic_messages db i))"
    using \<open>m \<notin> set (mq_messages mid)\<close> unfolding tm [symmetric] by (simp add: topic_messages_set)
  ultimately have "m \<in> set (take k (topic_messages db i))" by (simp only: set_append Un_iff simp_thms)
  then have "m \<in> set (consumed_rows db i)"
    using k set_take_subset_set_take [of k "length (consumed_rows db i)" "topic_messages db i"]
    by (subst consumed_rows_prefix [OF sorted]) blast
  then obtain th where "consumed_through db i = Some th" "mm_seq m \<le> th"
    by (cases "consumed_through db i") (auto simp: consumed_rows_def)
  then have "consumed_by_all db m" using consumed_through_all i by simp
  moreover have "mq_groups db' = mq_groups db" unfolding db'(2) by (subst g) simp
  ultimately show ?thesis by (simp add: consumed_by_all_def topic_groups_def)
qed

lemma compact_keeps_groups:
  assumes "i \<notin> mt_id ` set ts"
  shows "topic_groups (fst (fold (compact_topic now force) ts (db, r))) i = topic_groups db i"
  using assms
proof (induction ts arbitrary: db r)
  case (Cons t ts)
  obtain db' r' where c: "compact_topic now force t (db, r) = (db', r')" by fastforce
  from c obtain Q where Q: "mq_groups db' = filter Q (mq_groups db)" "\<And>g. \<not> Q g \<Longrightarrow> mg_topic g = mt_id t"
    by (rule compact_topic_shape) blast
  have "topic_groups db' i = topic_groups db i"
    unfolding topic_groups_def Q(1) using Q(2) Cons.prems by (auto intro: filter_cong)
  with Cons.IH [of db' r'] Cons.prems c show ?case by simp
qed simp

lemma compact_reaps:
  assumes "distinct (map mt_id ts)" and "m \<in> set (mq_messages db)"
    and "m \<notin> set (mq_messages (fst (fold (compact_topic now force) ts (db, r))))"
  shows "topic_expired now m \<and> (\<exists>t \<in> set ts. mt_id t = mm_topic m \<and>
     (is_reserved (mt_name t) \<or> consumed_by_all (fst (fold (compact_topic now force) ts (db, r))) m))"
  using assms
proof (induction ts arbitrary: db r)
  case (Cons t ts)
  obtain db' r' where c: "compact_topic now force t (db, r) = (db', r')" by fastforce
  from c obtain P where P: "mq_messages db' = filter P (mq_messages db)"
    "\<And>m. \<not> P m \<Longrightarrow> mm_topic m = mt_id t \<and> topic_expired now m \<and>
       (is_reserved (mt_name t) \<or> (\<exists>th. consumed_through db' (mt_id t) = Some th \<and> mm_seq m \<le> th))"
    by (rule compact_topic_shape) blast
  have next_db: "fold (compact_topic now force) (t # ts) (db, r) = fold (compact_topic now force) ts (db', r')"
    using c by simp
  show ?case
  proof (cases "m \<in> set (mq_messages db')")
    case True
    with Cons.IH [of db' r'] Cons.prems show ?thesis unfolding next_db by auto
  next
    case False
    with Cons.prems(2) P(1) have "\<not> P m" by auto
    from P(2) [OF this] have m: "mm_topic m = mt_id t" "topic_expired now m"
      "is_reserved (mt_name t) \<or> consumed_by_all db' m"
      using consumed_through_all [of db' m] by auto
    have "topic_groups (fst (fold (compact_topic now force) ts (db', r'))) (mt_id t) = topic_groups db' (mt_id t)"
      using Cons.prems(1) by (intro compact_keeps_groups) simp
    with m show ?thesis unfolding next_db by (auto simp: consumed_by_all_def)
  qed
qed simp

section \<open>A queue to try the properties on\<close>

text \<open>Text stands for JSON here; a topic of at most two messages, one consumer, two messages sent.\<close>

definition demo_spec :: topic_spec where
  "demo_spec = topic_spec_default\<lparr>ts_max_messages := 2\<rparr>"

definition demo_draft :: "string draft" where
  "demo_draft = \<lparr>dr_key = ''k'', dr_kind = ''note'', dr_payload = ''hi'', dr_ttl_ms = None, dr_producer = ''p''\<rparr>"

definition demo_msg :: "int \<Rightarrow> int \<Rightarrow> mq_message" where
  "demo_msg seq at = \<lparr>mm_seq = seq, mm_topic = 1, mm_key = ''k'', mm_kind = ''note'', mm_payload = ''hi'', mm_size = 7,
     mm_producer = ''p'', mm_enqueued_at = at, mm_expires_at = None\<rparr>"

definition demo_mq_topic :: mq_topic where
  "demo_mq_topic = \<lparr>mt_id = 1, mt_name = ''t'', mt_type = ''log'', mt_max_bytes = 10485760, mt_max_messages = 2,
     mt_default_ttl_ms = None, mt_group_idle_ms = 604800000, mt_compact_every_ms = 259200000,
     mt_created_at = 1, mt_compacted_at = None\<rparr>"

definition demo_mq_group :: "int \<Rightarrow> mq_group" where
  "demo_mq_group pos = \<lparr>mg_topic = 1, mg_name = ''g'', mg_position = pos, mg_created_at = 1,
     mg_last_poll_at = None, mg_last_ack_at = (if pos = 0 then None else Some 1)\<rparr>"

definition demo_mq :: "int \<Rightarrow> mq_db" where
  "demo_mq pos = \<lparr>mq_topics = [demo_mq_topic], mq_messages = [demo_msg 1 1, demo_msg 2 1],
     mq_groups = [demo_mq_group pos], mq_seq = 2\<rparr>"

lemmas demo_mq_defs = demo_spec_def demo_draft_def demo_msg_def demo_mq_topic_def demo_mq_group_def demo_mq_def

lemma demo_names: "check_name what ''t'' = Inr ()" "check_name what ''g'' = Inr ()" "check_name what ''note'' = Inr ()"
  by (simp_all add: check_name_def mq_MAX_NAME_BYTES_def is_name_char_def)

lemma demo_spec_simps:
  "demo_spec = \<lparr>ts_queue_type = QT_Log, ts_max_bytes = 10485760, ts_max_messages = 2, ts_default_ttl_ms = None,
     ts_group_idle_ms = 604800000, ts_compact_every_ms = 259200000\<rparr>"
  by (simp add: demo_spec_def topic_spec_default_def DEFAULT_MAX_BYTES_def DEFAULT_GROUP_IDLE_MS_def
      DEFAULT_COMPACT_EVERY_MS_def DAY_MS_def)

lemma demo_row: "mq_topics db = [demo_mq_topic] \<Longrightarrow> topic_row_any db ''t'' = Inr (1, demo_spec)"
  by (simp add: topic_row_any_def demo_mq_topic_def demo_spec_simps queue_type_parse_def)

lemma demo_valid: "validate_draft Inr Inr demo_draft demo_spec = Inr (''hi'', 7)"
  by (simp add: validate_draft_def demo_draft_def demo_spec_simps demo_names MAX_KEY_BYTES_def
      MAX_PAYLOAD_BYTES_def mq_MAX_NAME_BYTES_def i64_MAX_def)

lemmas demo_eval = result_bind_Inr lift_queue_def demo_names demo_row demo_valid demo_spec_simps demo_msg_def
  demo_mq_topic_def demo_mq_group_def demo_mq_def demo_draft_def topic_create_reserved_def check_positive_def
  topic_row_any_def queue_type_parse_def empty_mq_def unwrap_or_def group_create_reserved_def find_group_def
  send_reserved_def make_room_def holdings_def topic_messages_def room_fits_def saturating_add_def i64_MAX_def
  i64_MIN_def consumed_through_def topic_groups_def option_or_def ack_reserved_def group_position_def
  newest_seq_def update_group_def Let_def

lemma demo_steps:
  "topic_create_reserved empty_mq ''t'' demo_spec 1 = Inr (empty_mq\<lparr>mq_topics := [demo_mq_topic]\<rparr>, New)"
  "group_create_reserved (empty_mq\<lparr>mq_topics := [demo_mq_topic]\<rparr>) ''t'' ''g'' FromStart 1 =
     Inr (empty_mq\<lparr>mq_topics := [demo_mq_topic], mq_groups := [demo_mq_group 0]\<rparr>, New)"
  "send_reserved Inr Inr (empty_mq\<lparr>mq_topics := [demo_mq_topic], mq_groups := [demo_mq_group 0]\<rparr>) ''t'' demo_draft 1 =
     Inr ((demo_mq 0)\<lparr>mq_messages := [demo_msg 1 1], mq_seq := 1\<rparr>, 1)"
  "send_reserved Inr Inr ((demo_mq 0)\<lparr>mq_messages := [demo_msg 1 1], mq_seq := 1\<rparr>) ''t'' demo_draft 1 =
     Inr (demo_mq 0, 2)"
  "ack_reserved (demo_mq 0) ''t'' ''g'' 1 1 = Inr (demo_mq 1, 1)"
proof -
  show "topic_create_reserved empty_mq ''t'' demo_spec 1 = Inr (empty_mq\<lparr>mq_topics := [demo_mq_topic]\<rparr>, New)"
    by (simp add: demo_eval)
  show "group_create_reserved (empty_mq\<lparr>mq_topics := [demo_mq_topic]\<rparr>) ''t'' ''g'' FromStart 1 =
     Inr (empty_mq\<lparr>mq_topics := [demo_mq_topic], mq_groups := [demo_mq_group 0]\<rparr>, New)"
    by (simp add: demo_eval)
  have valid: "validate_draft Inr Inr demo_draft demo_spec = Inr (''hi'', 7)" by (rule demo_valid)
  show "send_reserved Inr Inr (empty_mq\<lparr>mq_topics := [demo_mq_topic], mq_groups := [demo_mq_group 0]\<rparr>) ''t'' demo_draft 1 =
     Inr ((demo_mq 0)\<lparr>mq_messages := [demo_msg 1 1], mq_seq := 1\<rparr>, 1)"
    using demo_row [of "empty_mq\<lparr>mq_topics := [demo_mq_topic], mq_groups := [demo_mq_group 0]\<rparr>"] valid
    by (simp add: send_reserved_def lift_queue_def) (simp add: demo_eval)
  show "send_reserved Inr Inr ((demo_mq 0)\<lparr>mq_messages := [demo_msg 1 1], mq_seq := 1\<rparr>) ''t'' demo_draft 1 =
     Inr (demo_mq 0, 2)"
    using demo_row [of "(demo_mq 0)\<lparr>mq_messages := [demo_msg 1 1], mq_seq := 1\<rparr>"] valid
    by (simp add: send_reserved_def lift_queue_def demo_mq_def) (simp add: demo_eval)
  show "ack_reserved (demo_mq 0) ''t'' ''g'' 1 1 = Inr (demo_mq 1, 1)"
    by (simp add: demo_eval)
qed

lemma demo_mq0_reachable: "mq_reachable (Inr :: string \<Rightarrow> (string, string) result) Inr (demo_mq 0)"
  using mq_more [OF mq_more [OF mq_more [OF mq_more [OF mq_empty do_topic [OF demo_steps(1)]]
    do_group [OF demo_steps(2)]] do_send [OF demo_steps(3)]] do_send [OF demo_steps(4)]] .

lemma demo_mq_reachable: "mq_reachable (Inr :: string \<Rightarrow> (string, string) result) Inr (demo_mq 1)"
  by (rule mq_more [OF demo_mq0_reachable do_ack [OF demo_steps(5)]])

section \<open>What the queue promises\<close>

text \<open>
  C37. The queue's tables stay well formed. In every database its operations build, the messages
  are in strictly increasing sequence order below the counter, every group's position is
  between zero and the counter, no topic holds more messages than its cap or, for a byte cap
  below the largest representable, more bytes, and a message sent next is numbered above
  every message there has been.
\<close>

theorem mq_tables_bounded:
  assumes "mq_reachable to_json from_json db"
  shows "sorted_wrt (<) (map mm_seq (mq_messages db)) \<and>
    (\<forall>m \<in> set (mq_messages db). mm_seq m \<le> mq_seq db) \<and>
    (\<forall>g \<in> set (mq_groups db). 0 \<le> mg_position g \<and> mg_position g \<le> mq_seq db) \<and>
    (\<forall>t \<in> set (mq_topics db).
       fst (holdings db (mt_id t)) \<le> mt_max_messages t \<and>
       (mt_max_bytes t < i64_MAX \<longrightarrow> snd (holdings db (mt_id t)) \<le> mt_max_bytes t)) \<and>
    (\<forall>topic draft now db' seq. send_reserved to_json from_json db topic draft now = Inr (db', seq) \<longrightarrow>
       seq = mq_seq db + 1)"
proof -
  have ok: "mq_ok from_json db" by (rule mq_reachable_ok [OF assms])
  have "seq = mq_seq db + 1" if "send_reserved to_json from_json db topic draft now = Inr (db', seq)"
    for topic draft now db' seq
  proof -
    from that obtain i spec sz mid where "make_room db topic i spec sz = Inr mid" "seq = mq_seq mid + 1"
      by (elim send_reserved_Inr) auto
    then obtain ms where "mid = db\<lparr>mq_messages := ms\<rparr>" using make_room_Inr [OF mq_okD(6) [OF ok]] by blast
    with \<open>seq = mq_seq mid + 1\<close> show ?thesis by simp
  qed
  with mq_okD(1,4,5,6) [OF ok] show ?thesis
    by (auto simp: msgs_ok_def groups_ok_def within_caps_def holdings_def)
qed

theorem mq_tables_bounded_witness:
  "fst (holdings (demo_mq 1) 1) \<le> 2 \<and> mq_seq (demo_mq 1) = 2"
  using mq_tables_bounded [OF demo_mq_reachable] by (simp add: demo_mq_defs)

text \<open>
  C38. Nothing unread is lost. Whatever operation is done on a reachable queue, a message that is
  gone afterwards has been consumed by every group its topic has left, and there is one; or
  it was an expired message of a reserved topic and the operation was a compaction.
\<close>

theorem mq_only_consumed_reaped:
  assumes "mq_reachable to_json from_json db" and "mq_step to_json from_json db db'"
    and "m \<in> set (mq_messages db)" and "m \<notin> set (mq_messages db')"
  shows "consumed_by_all db' m \<or>
    (\<exists>t \<in> set (mq_topics db). \<exists>now force. mt_id t = mm_topic m \<and> is_reserved (mt_name t) \<and>
       topic_expired now m \<and> db' = fst (compact db now force))"
proof -
  have ok: "mq_ok from_json db" by (rule mq_reachable_ok [OF assms(1)])
  from assms(2) show ?thesis
  proof cases
    case (do_send topic draft now seq)
    with send_reaps_consumed [OF ok _ assms(3,4)] show ?thesis by blast
  next
    case (do_compact now force)
    have "distinct (map mt_id (mq_topics db))" using mq_okD(2) [OF ok] by (simp add: topics_ok_def)
    from compact_reaps [OF this assms(3), of now force compact_report_default] assms(4) do_compact
    show ?thesis unfolding compact_def by blast
  qed (use assms(3,4) in \<open>auto simp: topic_create_reserved_def group_create_reserved_def group_delete_reserved_def
      poll_reserved_def ack_reserved_def update_group_def result_bind_Inr Let_def
      split: if_splits sum.splits core_error.splits queue_error.splits\<close>)
qed

text \<open>The third message does not fit beside the two held, so the consumed one goes.\<close>

lemma demo_send3:
  "send_reserved Inr Inr (demo_mq 1) ''t'' demo_draft 1 =
     Inr ((demo_mq 1)\<lparr>mq_messages := [demo_msg 2 1, demo_msg 3 1], mq_seq := 3\<rparr>, 3)"
  using demo_row [of "demo_mq 1"] demo_valid
  by (simp add: send_reserved_def lift_queue_def demo_mq_def) (simp add: demo_eval)

theorem mq_only_consumed_reaped_witness:
  "demo_msg 1 1 \<in> set (mq_messages (demo_mq 1)) \<and>
   consumed_by_all ((demo_mq 1)\<lparr>mq_messages := [demo_msg 2 1, demo_msg 3 1], mq_seq := 3\<rparr>) (demo_msg 1 1)"
proof -
  have m: "demo_msg 1 1 \<in> set (mq_messages (demo_mq 1))" by (simp add: demo_mq_def)
  have gone: "demo_msg 1 1 \<notin> set (mq_messages ((demo_mq 1)\<lparr>mq_messages := [demo_msg 2 1, demo_msg 3 1], mq_seq := 3\<rparr>))"
    by (simp add: demo_msg_def)
  have "\<not> is_reserved (mt_name demo_mq_topic)" by code_simp
  with mq_only_consumed_reaped [OF demo_mq_reachable do_send [OF demo_send3] m gone] m show ?thesis
    by (simp add: demo_mq_def)
qed

text \<open>
  Making room at the cap. Sending a valid draft to a topic takes away the smallest number of
  the oldest consumed messages that lets it fit and appends it; it is refused as full
  exactly when taking all the consumed ones would not be enough. No other topic changes.
\<close>

theorem send_makes_room:
  assumes "mq_reachable to_json from_json db" and "topic_row_any db topic = Inr (i, spec)"
    and "validate_draft to_json from_json draft spec = Inr (payload, sz)"
  shows "(\<exists>k db' msg. k \<le> length (consumed_rows db i) \<and>
      fits_after spec sz (topic_messages db i) k \<and> (\<forall>j < k. \<not> fits_after spec sz (topic_messages db i) j) \<and>
      send_reserved to_json from_json db topic draft now = Inr (db', mq_seq db + 1) \<and>
      topic_messages db' i = drop k (topic_messages db i) @ [msg] \<and>
      mm_seq msg = mq_seq db + 1 \<and> mm_payload msg = payload \<and> mm_size msg = sz \<and>
      (\<forall>j. j \<noteq> i \<longrightarrow> topic_messages db' j = topic_messages db j)) \<or>
    ((\<forall>k \<le> length (consumed_rows db i). \<not> fits_after spec sz (topic_messages db i) k) \<and>
      send_reserved to_json from_json db topic draft now =
        Inl (Queue (QueueFull topic (fst (holdings db i)) (snd (holdings db i)))))"
proof (cases rule: make_room_cases [OF mq_okD(6) [OF mq_reachable_ok [OF assms(1)]], of i spec sz topic])
  case (1 k mid)
  let ?msg = "\<lparr>mm_seq = mq_seq db + 1, mm_topic = i, mm_key = dr_key draft, mm_kind = dr_kind draft,
      mm_payload = payload, mm_size = sz, mm_producer = dr_producer draft, mm_enqueued_at = now,
      mm_expires_at = map_option (saturating_add now) (option_or (dr_ttl_ms draft) (ts_default_ttl_ms spec))\<rparr>"
  let ?db' = "mid\<lparr>mq_messages := mq_messages mid @ [?msg], mq_seq := mq_seq db + 1\<rparr>"
  have "mq_seq mid = mq_seq db" by (subst 1(5)) simp
  then have "send_reserved to_json from_json db topic draft now = Inr (?db', mq_seq db + 1)"
    using assms(2,3) 1(4) by (simp add: send_reserved_def lift_queue_def Let_def)
  moreover have "topic_messages ?db' i = drop k (topic_messages db i) @ [?msg]"
    unfolding 1(6) [symmetric] by (simp add: topic_messages_def)
  moreover have "topic_messages ?db' j = topic_messages db j" if "j \<noteq> i" for j
    using other_topic_messages [OF 1(7) that] that by (simp add: topic_messages_def)
  ultimately show ?thesis
    using 1(1-3) by (intro disjI1 exI [of _ k] exI [of _ ?db'] exI [of _ ?msg]) simp
next
  case 2
  then show ?thesis using assms(2,3) by (simp add: send_reserved_def lift_queue_def)
qed

theorem send_makes_room_witness:
  "\<exists>db'. send_reserved Inr Inr (demo_mq 0) ''t'' demo_draft 1 = Inl (Queue (QueueFull ''t'' 2 14)) \<and>
     send_reserved Inr Inr (demo_mq 1) ''t'' demo_draft 1 = Inr (db', 3)"
proof -
  have row: "topic_row_any (demo_mq pos) ''t'' = Inr (1, demo_spec)" for pos
    by (rule demo_row) (simp add: demo_mq_def)
  note val = demo_valid
  have "consumed_rows (demo_mq 0) 1 = []" "\<not> fits_after demo_spec 7 (topic_messages (demo_mq 0) 1) 0"
    "holdings (demo_mq 0) 1 = (2, 14)"
    by (simp_all add: consumed_rows_def fits_after_def demo_eval)
  with send_makes_room [OF demo_mq0_reachable row val, of 1]
  have "send_reserved Inr Inr (demo_mq 0) ''t'' demo_draft 1 = Inl (Queue (QueueFull ''t'' 2 14))" by auto
  moreover have "\<exists>k \<le> length (consumed_rows (demo_mq 1) 1). fits_after demo_spec 7 (topic_messages (demo_mq 1) 1) k"
  proof (intro exI conjI)
    show "fits_after demo_spec 7 (topic_messages (demo_mq 1) 1) 1" by (simp add: fits_after_def demo_eval)
    show "1 \<le> length (consumed_rows (demo_mq 1) 1)" by (simp add: consumed_rows_def demo_eval)
  qed
  with send_makes_room [OF demo_mq_reachable row val, of 1]
  have "\<exists>db'. send_reserved Inr Inr (demo_mq 1) ''t'' demo_draft 1 = Inr (db', 3)"
    by (auto simp: demo_mq_def)
  ultimately show ?thesis by blast
qed

section \<open>What is handed over\<close>

definition deliver :: "(string \<Rightarrow> (string, 'v) result) \<Rightarrow> int \<Rightarrow> mq_message \<Rightarrow> 'v delivered" where
  "deliver from_json now m = (message_row now m)\<lparr>dl_payload := P_Value (projr (from_json (mm_payload m)))\<rparr>"

lemma deliver_simps [simp]:
  "dl_seq (deliver from_json now m) = mm_seq m" "dl_key (deliver from_json now m) = mm_key m"
  "dl_kind (deliver from_json now m) = mm_kind m"
  by (simp_all add: deliver_def message_row_def)

lemma parse_payloads_all:
  assumes "\<forall>m \<in> set ms. \<exists>v. from_json (mm_payload m) = Inr v"
  shows "parse_payloads from_json topic out (map (message_row now) ms) = Inr (out @ map (deliver from_json now) ms)"
  using assms
proof (induction ms arbitrary: out)
  case (Cons m ms)
  then obtain v where "from_json (mm_payload m) = Inr v" by auto
  with Cons show ?case by (simp add: deliver_def message_row_def)
qed simp

lemma find_map_update:
  "List.find P xs = Some x \<Longrightarrow> (\<And>y. P y \<Longrightarrow> P (f y)) \<Longrightarrow>
     List.find P (map (\<lambda>y. if P y then f y else y) xs) = Some (f x)"
  by (induction xs) (auto split: if_splits)

lemma find_updated_group:
  assumes "find_group db i grp = Some g" and "\<And>g. mg_topic (f g) = mg_topic g \<and> mg_name (f g) = mg_name g"
  shows "find_group (update_group i grp f db) i grp = Some (f g)"
  using find_map_update [OF assms(1) [unfolded find_group_def], of f] assms(2)
  by (simp add: find_group_def update_group_def)

lemma map_take_nth: "j < length (take n xs) \<Longrightarrow> map f (take n xs) ! j = f (xs ! j)"
  by simp

definition unread :: "mq_db \<Rightarrow> int \<Rightarrow> int \<Rightarrow> mq_message list" where
  "unread db i pos = filter (\<lambda>m. mm_seq m > pos) (topic_messages db i)"

lemma sorted_unread:
  assumes "mq_ok from_json db"
  shows "sorted_wrt (<) (map mm_seq (unread db i pos))"
  using sorted_topic_messages [OF mq_okD(6) [OF assms], of i]
  by (simp add: unread_def sorted_wrt_map sorted_wrt_filter)

lemma poll_eq:
  assumes ok: "mq_ok from_json db" and "topic_row_any db topic = Inr (i, spec)" and "find_group db i grp = Some g"
    and "mx \<le> MAX_BATCH"
  shows "poll_reserved from_json db topic grp mx after now =
    Inr (update_group i grp (\<lambda>g. g\<lparr>mg_last_poll_at := Some now\<rparr>) db,
         map (deliver from_json now) (take mx (unread db i (max (mg_position g) (unwrap_or 0 after)))))"
proof -
  let ?ms = "take mx (unread db i (max (mg_position g) (unwrap_or 0 after)))"
  have "set ?ms \<subseteq> set (mq_messages db)"
    by (auto simp: unread_def topic_messages_def dest: in_set_takeD)
  then have parse: "\<forall>m \<in> set ?ms. \<exists>v. from_json (mm_payload m) = Inr v"
    using mq_okD(1) [OF ok] by (auto simp: msgs_ok_def)
  have "messages_after (update_group i grp f db) i p mx = take mx (unread db i p)" for f p
    by (simp add: messages_after_def unread_def topic_messages_def update_group_def)
  with assms(2-4) parse_payloads_all [where from_json = from_json, OF parse, of topic "[]" now]
  show ?thesis
    by (simp add: poll_reserved_def check_batch_def group_position_def Let_def)
qed

text \<open>
  What a poll hands over. On any reachable queue a poll of an existing group, asking for no
  more than a batch, never fails on a stored payload: it hands over exactly the first
  messages after the group's position, or after the fetch position when that is further
  on, in sequence order, expired ones included, and changes nothing but the time of the
  poll.
\<close>

theorem poll_hands_over:
  assumes "mq_reachable to_json from_json db" and "topic_row_any db topic = Inr (i, spec)"
    and "find_group db i grp = Some g" and "mx \<le> MAX_BATCH"
  shows "\<exists>out. poll_reserved from_json db topic grp mx after now =
      Inr (update_group i grp (\<lambda>g. g\<lparr>mg_last_poll_at := Some now\<rparr>) db, out) \<and>
    map dl_seq out = map mm_seq (take mx (filter (\<lambda>m. mm_seq m > max (mg_position g) (unwrap_or 0 after))
      (topic_messages db i))) \<and>
    sorted_wrt (<) (map dl_seq out) \<and>
    (\<forall>d \<in> set out. \<exists>m \<in> set (topic_messages db i). dl_seq d = mm_seq m \<and> dl_key d = mm_key m \<and>
       (\<exists>v. from_json (mm_payload m) = Inr v \<and> dl_payload d = P_Value v))"
proof -
  have ok: "mq_ok from_json db" by (rule mq_reachable_ok [OF assms(1)])
  let ?ms = "take mx (unread db i (max (mg_position g) (unwrap_or 0 after)))"
  have sorted: "sorted_wrt (<) (map mm_seq ?ms)"
    using sorted_unread [OF ok, of i] by (simp add: sorted_wrt_take take_map [symmetric])
  have parsed: "\<exists>v. from_json (mm_payload m) = Inr v \<and> dl_payload (deliver from_json now m) = P_Value v"
    if "m \<in> set (topic_messages db i)" for m
    using that mq_okD(1) [OF ok] by (fastforce simp: msgs_ok_def topic_messages_set deliver_def)
  have sub: "m \<in> set (topic_messages db i)" if "m \<in> set ?ms" for m
    using in_set_takeD [OF that] by (simp add: unread_def)
  have seqs: "map dl_seq (map (deliver from_json now) ?ms) = map mm_seq ?ms" by (simp add: comp_def)
  show ?thesis
  proof (intro exI [of _ "map (deliver from_json now) ?ms"] conjI ballI)
    show "map dl_seq (map (deliver from_json now) ?ms) =
        map mm_seq (take mx (filter (\<lambda>m. mm_seq m > max (mg_position g) (unwrap_or 0 after)) (topic_messages db i)))"
      unfolding seqs by (simp add: unread_def)
    show "sorted_wrt (<) (map dl_seq (map (deliver from_json now) ?ms))" unfolding seqs by (rule sorted)
    fix d assume "d \<in> set (map (deliver from_json now) ?ms)"
    then obtain m where m: "m \<in> set ?ms" "d = deliver from_json now m" by auto
    then show "\<exists>m \<in> set (topic_messages db i). dl_seq d = mm_seq m \<and> dl_key d = mm_key m \<and>
       (\<exists>v. from_json (mm_payload m) = Inr v \<and> dl_payload d = P_Value v)"
      using parsed [OF sub [OF m(1)]] by (intro bexI [OF _ sub [OF m(1)]]) simp
  qed (rule poll_eq [OF ok assms(2-4)])
qed

theorem poll_hands_over_witness:
  "\<exists>db' out. poll_reserved (Inr :: string \<Rightarrow> (string, string) result) (demo_mq 1) ''t'' ''g'' 10 None 5 = Inr (db', out) \<and>
     map dl_seq out = [2]"
proof -
  have "topic_row_any (demo_mq 1) ''t'' = Inr (1, demo_spec)" "find_group (demo_mq 1) 1 ''g'' = Some (demo_mq_group 1)"
    by (rule demo_row) (simp_all add: demo_mq_def find_group_def demo_mq_group_def)
  from poll_hands_over [OF demo_mq_reachable this, of 10 None 5] show ?thesis
    by (auto simp: MAX_BATCH_def demo_eval)
qed

text \<open>
  C39. A consumer that polls and acknowledges gets through its backlog. On any reachable queue a
  poll of at least one message hands over nothing exactly when nothing is unread; otherwise
  acknowledging the last message handed over succeeds, moves the position there, and leaves
  unread exactly the messages that were not handed over.
\<close>

theorem poll_ack_progress:
  assumes "mq_reachable to_json from_json db" and "topic_row_any db topic = Inr (i, spec)"
    and "find_group db i grp = Some g" and "0 < mx" and "mx \<le> MAX_BATCH"
    and "poll_reserved from_json db topic grp mx None now = Inr (db', out)"
  shows "(out = [] \<longleftrightarrow> unread db i (mg_position g) = []) \<and>
    (out \<noteq> [] \<longrightarrow> (\<exists>db''. ack_reserved db' topic grp (dl_seq (last out)) now' = Inr (db'', dl_seq (last out)) \<and>
       mg_position g < dl_seq (last out) \<and>
       unread db'' i (dl_seq (last out)) = drop (length out) (unread db i (mg_position g))))"
proof -
  have ok: "mq_ok from_json db" by (rule mq_reachable_ok [OF assms(1)])
  have g: "g \<in> set (mq_groups db)" "mg_topic g = i" "mg_name g = grp"
    using find_SomeD [OF assms(3) [unfolded find_group_def]] by auto
  have pos: "max (mg_position g) (unwrap_or 0 None) = mg_position g"
    using mq_okD(4) [OF ok] g(1) by (auto simp: groups_ok_def unwrap_or_def)
  let ?u = "unread db i (mg_position g)"
  from poll_eq [OF ok assms(2,3,5), of None now] assms(6)
  have db': "db' = update_group i grp (\<lambda>g. g\<lparr>mg_last_poll_at := Some now\<rparr>) db"
    and out: "out = map (deliver from_json now) (take mx ?u)"
    unfolding pos by simp_all
  have tm: "topic_messages db' = topic_messages db" by (intro ext) (simp add: topic_messages_def db' update_group_def)
  show ?thesis
  proof (intro conjI impI)
    show "out = [] \<longleftrightarrow> ?u = []" using assms(4) out by simp
    assume ne: "out \<noteq> []"
    let ?k = "length out"
    have k: "0 < ?k" "?k \<le> length ?u" using ne out by auto
    have last_seq: "dl_seq (last out) = mm_seq (?u ! (?k - 1))"
    proof -
      have "last out = out ! (?k - 1)" using ne by (rule last_conv_nth)
      also have "\<dots> = deliver from_json now (?u ! (?k - 1))"
      proof -
        have lt: "?k - 1 < length (take mx ?u)" using k(1) by (simp only: out length_map)
        show ?thesis using map_take_nth [OF lt, of "deliver from_json now"] by (simp only: out)
      qed
      finally show ?thesis by simp
    qed
    let ?s = "mm_seq (?u ! (?k - 1))"
    have mem: "?u ! (?k - 1) \<in> set ?u" using k by (intro nth_mem) linarith
    then have gt: "mg_position g < ?s" and in_topic: "?u ! (?k - 1) \<in> set (topic_messages db i)"
      by (auto simp: unread_def)
    have find': "find_group db' i grp = Some (g\<lparr>mg_last_poll_at := Some now\<rparr>)"
      unfolding db' by (rule find_updated_group [OF assms(3)]) simp
    obtain nw where nw: "newest_seq db' i = Some nw" "?s \<le> nw"
    proof (cases "newest_seq db' i")
      case None
      with in_topic show ?thesis by (simp add: newest_seq_def tm)
    next
      case (Some x)
      with max_opt_Some [OF Some [unfolded newest_seq_def]] in_topic that show ?thesis by (auto simp: tm)
    qed
    have row': "topic_row_any db' topic = Inr (i, spec)"
      using assms(2) by (simp add: topic_row_any_def db' update_group_def)
    let ?db'' = "update_group i grp (\<lambda>g. g\<lparr>mg_position := ?s, mg_last_ack_at := Some now'\<rparr>) db'"
    have "ack_reserved db' topic grp ?s now' = Inr (?db'', ?s)"
      using row' find' nw gt by (simp add: ack_reserved_def group_position_def unwrap_or_def Let_def max_def)
    moreover have "unread ?db'' i ?s = drop ?k ?u"
    proof -
      have "topic_messages ?db'' i = topic_messages db i"
        by (simp add: topic_messages_def db' update_group_def)
      then have "unread ?db'' i ?s = filter (\<lambda>m. \<not> mm_seq m \<le> ?s) ?u"
        using gt by (auto simp: unread_def intro: filter_cong)
      with filter_above_nth [OF sorted_unread [OF ok] k] show ?thesis by simp
    qed
    ultimately show "\<exists>db''. ack_reserved db' topic grp (dl_seq (last out)) now' = Inr (db'', dl_seq (last out)) \<and>
       mg_position g < dl_seq (last out) \<and> unread db'' i (dl_seq (last out)) = drop ?k ?u"
      using gt unfolding last_seq by blast
  qed
qed

theorem poll_ack_progress_witness:
  "\<exists>db' out db''. poll_reserved (Inr :: string \<Rightarrow> (string, string) result) (demo_mq 0) ''t'' ''g'' 1 None 5 = Inr (db', out) \<and>
     out \<noteq> [] \<and> ack_reserved db' ''t'' ''g'' (dl_seq (last out)) 6 = Inr (db'', dl_seq (last out)) \<and>
     length (unread db'' 1 (dl_seq (last out))) = 1"
proof -
  have row: "topic_row_any (demo_mq 0) ''t'' = Inr (1, demo_spec)"
    and grp: "find_group (demo_mq 0) 1 ''g'' = Some (demo_mq_group 0)"
    by (rule demo_row) (simp_all add: demo_mq_def find_group_def demo_mq_group_def)
  have u: "unread (demo_mq 0) 1 (mg_position (demo_mq_group 0)) = [demo_msg 1 1, demo_msg 2 1]"
    by (simp add: unread_def demo_eval)
  have b: "(1::nat) \<le> MAX_BATCH" by (simp add: MAX_BATCH_def)
  have p: "poll_reserved (Inr :: string \<Rightarrow> (string, string) result) (demo_mq 0) ''t'' ''g'' 1 None 5 =
     Inr (update_group 1 ''g'' (\<lambda>g. g\<lparr>mg_last_poll_at := Some 5\<rparr>) (demo_mq 0), [deliver Inr 5 (demo_msg 1 1)])"
    using poll_eq [OF mq_reachable_ok [OF demo_mq0_reachable] row grp b, of None 5]
    by (simp add: unwrap_or_def unread_def demo_eval)
  from poll_ack_progress [OF demo_mq0_reachable row grp _ b p, of 6] p u show ?thesis by auto
qed

text \<open>
  What is sent comes back. When the JSON library reads back what it writes, a message sent
  to a topic is the one a consumer of that topic fetches next after everything sent before
  it, with its key, kind and payload as they were given.
\<close>

theorem send_poll_roundtrip:
  assumes "mq_reachable to_json from_json db"
    and json: "\<And>v text. to_json v = Inr text \<Longrightarrow> from_json text = Inr v"
    and "send_reserved to_json from_json db topic draft now = Inr (db', seq)"
    and "topic_row_any db topic = Inr (i, spec)" and "find_group db' i grp = Some g"
    and "0 < mx" and "mx \<le> MAX_BATCH"
  shows "\<exists>db'' d. poll_reserved from_json db' topic grp mx (Some (seq - 1)) later = Inr (db'', [d]) \<and>
    dl_seq d = seq \<and> dl_key d = dr_key draft \<and> dl_kind d = dr_kind draft \<and> dl_payload d = P_Value (dr_payload draft)"
proof -
  have ok: "mq_ok from_json db" and ok': "mq_ok from_json db'"
    using mq_reachable_ok [OF assms(1)] send_ok [OF _ assms(3)] by blast+
  from assms(3) obtain payload sz mid where val: "validate_draft to_json from_json draft spec = Inr (payload, sz)"
    and mk: "make_room db topic i spec sz = Inr mid" and seq: "seq = mq_seq mid + 1"
    and db': "db' = mid\<lparr>mq_messages := mq_messages mid @
            [\<lparr>mm_seq = seq, mm_topic = i, mm_key = dr_key draft, mm_kind = dr_kind draft,
              mm_payload = payload, mm_size = sz, mm_producer = dr_producer draft, mm_enqueued_at = now,
              mm_expires_at = map_option (saturating_add now) (option_or (dr_ttl_ms draft) (ts_default_ttl_ms spec))\<rparr>],
            mq_seq := seq\<rparr>" (is "_ = mid\<lparr>mq_messages := _ @ [?msg], mq_seq := _\<rparr>")
    using assms(4) by (elim send_reserved_Inr) auto
  from make_room_Inr [OF mq_okD(6) [OF ok] mk] obtain P where mid: "mid = db\<lparr>mq_messages := mq_messages mid\<rparr>"
    and P: "mq_messages mid = filter P (mq_messages db)" by blast
  have s: "mq_seq mid = mq_seq db" "mq_topics mid = mq_topics db" "mq_groups mid = mq_groups db" by (subst mid, simp)+
  have old: "mm_seq m \<le> seq - 1" if "m \<in> set (mq_messages mid)" for m
    using that mq_okD(1) [OF ok] P seq s by (auto simp: msgs_ok_def)
  have no_later: "\<not> seq - 1 < mm_seq m" if "m \<in> set (mq_messages mid)" for m using old [OF that] by simp
  have row': "topic_row_any db' topic = Inr (i, spec)"
    using assms(4) by (simp add: topic_row_any_def db' s)
  have g: "mg_position g \<le> seq - 1" "0 \<le> seq - 1"
    using find_SomeD [OF assms(5) [unfolded find_group_def]] mq_okD(1,4) [OF ok] seq s
    by (auto simp: groups_ok_def msgs_ok_def db')
  have "unread db' i (max (mg_position g) (unwrap_or 0 (Some (seq - 1)))) = [?msg]"
    using g no_later by (simp add: unread_def topic_messages_def db' unwrap_or_def max_def filter_empty_conv)
  then have "poll_reserved from_json db' topic grp mx (Some (seq - 1)) later =
      Inr (update_group i grp (\<lambda>g. g\<lparr>mg_last_poll_at := Some later\<rparr>) db', [deliver from_json later ?msg])"
    using poll_eq [OF ok' row' assms(5,7), of "Some (seq - 1)" later] assms(6) by (simp add: take_Cons')
  moreover have "from_json payload = Inr (dr_payload draft)"
    using json validate_draft_Inr [OF val] by blast
  ultimately show ?thesis by (auto simp: deliver_def message_row_def)
qed

theorem send_poll_roundtrip_witness:
  "\<exists>db'' d. poll_reserved (Inr :: string \<Rightarrow> (string, string) result)
     ((demo_mq 1)\<lparr>mq_messages := [demo_msg 2 1, demo_msg 3 1], mq_seq := 3\<rparr>) ''t'' ''g'' 4 (Some 2) 9 = Inr (db'', [d]) \<and>
     dl_payload d = P_Value ''hi''"
proof -
  have row: "topic_row_any (demo_mq 1) ''t'' = Inr (1, demo_spec)" by (rule demo_row) (simp add: demo_mq_def)
  have grp: "find_group ((demo_mq 1)\<lparr>mq_messages := [demo_msg 2 1, demo_msg 3 1], mq_seq := 3\<rparr>) 1 ''g'' =
      Some (demo_mq_group 1)"
    by (simp add: demo_mq_def find_group_def demo_mq_group_def)
  have b: "(4::nat) \<le> MAX_BATCH" by (simp add: MAX_BATCH_def)
  from send_poll_roundtrip [OF demo_mq_reachable _ demo_send3 row grp _ b, of 9] show ?thesis
    by (auto simp: demo_draft_def)
qed

text \<open>
  The reserved topics are closed to everyone else: every public operation of the queue
  refuses a topic under a reserved prefix, whatever the state of the queue, and touches no
  other topic that way.
\<close>

theorem reserved_topics_refused:
  assumes "is_reserved topic"
  shows "\<exists>why. topic_create db topic spec now = Inl (Queue (Invalid ''topic'' why)) \<and>
    send to_json from_json db topic draft now = Inl (Queue (Invalid ''topic'' why)) \<and>
    group_create db topic grp start now = Inl (Queue (Invalid ''topic'' why)) \<and>
    group_delete db topic grp = Inl (Queue (Invalid ''topic'' why)) \<and>
    poll from_json db topic grp mx after now = Inl (Queue (Invalid ''topic'' why)) \<and>
    poll_needed db topic grp mx after now = Inl (Queue (Invalid ''topic'' why)) \<and>
    ack db topic grp seq now = Inl (Queue (Invalid ''topic'' why)) \<and>
    group_count db topic = Inl (Queue (Invalid ''topic'' why)) \<and>
    (limit \<le> MAX_BATCH \<longrightarrow> mq_tail from_json db topic limit now = Inl (Queue (Invalid ''topic'' why)))"
proof -
  have "\<exists>why. check_unreserved topic = Inl (Queue (Invalid ''topic'' why))"
    using assms by (simp add: is_reserved_def check_unreserved_def RESERVED_PREFIXES_def)
  then obtain why where "check_unreserved topic = Inl (Queue (Invalid ''topic'' why))" ..
  then show ?thesis
    by (intro exI [of _ why])
       (simp add: topic_create_def send_def group_create_def group_delete_def poll_def poll_needed_def ack_def
          group_count_def mq_tail_def topic_row_def)
qed

theorem reserved_topics_refused_witness:
  "is_reserved ''exec/requests'' \<and>
   (\<exists>why. poll (Inr :: string \<Rightarrow> (string, string) result) empty_mq ''exec/requests'' ''g'' 1 None 0 =
      Inl (Queue (Invalid ''topic'' why)))"
proof -
  have "is_reserved ''exec/requests''" by (simp add: is_reserved_def RESERVED_PREFIXES_def starts_with_def)
  with reserved_topics_refused [OF this] show ?thesis by blast
qed

end
