(* ===== verification/Core_Text.thy ===== *)
theory Core_Text
  imports Jkb_Prelude "HOL-Library.Char_ord" "HOL-Library.List_Lexorder" "HOL-Library.Sublist"
begin

text \<open>
  Text as the core modules ask about it. A string is its UTF-8 bytes; the questions the code
  asks of characters (control, white space, how many) are asked of the decoded ones, and the
  order of strings is the order of their bytes. The functions are those of Rust's \<open>str\<close>.
\<close>

section \<open>Characters\<close>

definition is_cont_byte :: "char \<Rightarrow> bool" where
  "is_cont_byte c \<longleftrightarrow> 128 \<le> (of_char c :: nat) \<and> (of_char c :: nat) < 192"

text \<open>The characters of a UTF-8 string, each with its bytes.\<close>

fun utf8_units :: "string \<Rightarrow> string list" where
  "utf8_units [] = []"
| "utf8_units (c # cs) =
     (case utf8_units cs of
        [] \<Rightarrow> [[c]]
      | u # us \<Rightarrow> if u \<noteq> [] \<and> is_cont_byte (hd u) then (c # u) # us else [c] # u # us)"

text \<open>The code point of one character.\<close>

definition code_point :: "string \<Rightarrow> nat" where
  "code_point u =
     (case u of
        [] \<Rightarrow> 0
      | c # cs \<Rightarrow>
          fold (\<lambda>b acc. acc * 64 + of_char b mod 64) cs
            (case length cs of
               0 \<Rightarrow> of_char c
             | Suc 0 \<Rightarrow> of_char c mod 32
             | Suc (Suc 0) \<Rightarrow> of_char c mod 16
             | _ \<Rightarrow> of_char c mod 8))"

definition is_control :: "nat \<Rightarrow> bool" where
  "is_control n \<longleftrightarrow> n < 32 \<or> (127 \<le> n \<and> n < 160)"

definition is_whitespace :: "nat \<Rightarrow> bool" where
  "is_whitespace n \<longleftrightarrow>
     (9 \<le> n \<and> n \<le> 13) \<or> n = 32 \<or> n = 0x85 \<or> n = 0xA0 \<or> n = 0x1680 \<or> (0x2000 \<le> n \<and> n \<le> 0x200A) \<or>
     n = 0x2028 \<or> n = 0x2029 \<or> n = 0x202F \<or> n = 0x205F \<or> n = 0x3000"

section \<open>Trimming and splitting\<close>

definition str_trim :: "string \<Rightarrow> string" where
  "str_trim s =
     (let ws = (\<lambda>u. is_whitespace (code_point u))
      in concat (rev (dropWhile ws (rev (dropWhile ws (utf8_units s))))))"

definition char_count :: "string \<Rightarrow> nat" where
  "char_count s = length (utf8_units s)"

text \<open>\<open>rsplit_once\<close>: around the last occurrence of the pattern.\<close>

fun rsplit_once :: "string \<Rightarrow> string \<Rightarrow> (string \<times> string) option" where
  "rsplit_once sep [] = (if sep = [] then Some ([], []) else None)"
| "rsplit_once sep (c # cs) =
     (case rsplit_once sep cs of
        Some (a, b) \<Rightarrow> Some (c # a, b)
      | None \<Rightarrow> if prefix sep (c # cs) then Some ([], drop (length sep) (c # cs)) else None)"

definition strip_prefix_str :: "string \<Rightarrow> string \<Rightarrow> string option" where
  "strip_prefix_str p s = (if prefix p s then Some (drop (length p) s) else None)"

text \<open>\<open>lines\<close>: the pieces between line feeds, each without a carriage return before its line feed, and no empty last one.\<close>

definition strip_cr :: "string \<Rightarrow> string" where
  "strip_cr l = (if l \<noteq> [] \<and> last l = CHR 0x0D then butlast l else l)"

definition str_lines :: "string \<Rightarrow> string list" where
  "str_lines s =
     (let ps = split_on (CHR 0x0A) s
      in map strip_cr (butlast ps) @ (if last ps = [] then [] else [last ps]))"

text \<open>A \<open>BTreeSet\<close> of strings, listed.\<close>

definition btree_strings :: "string list \<Rightarrow> string list" where
  "btree_strings xs = remdups (sort xs)"

lemma set_btree_strings [simp]: "set (btree_strings xs) = set xs"
  by (simp add: btree_strings_def)

lemma rsplit_once_Some: "rsplit_once sep s = Some (a, b) \<Longrightarrow> s = a @ sep @ b"
  by (induction s arbitrary: a) (auto simp: prefix_def split: if_splits option.splits)

end
