(* ===== verification/Held_Until.thy ===== *)
theory Held_Until
  imports Jkb_Prelude
begin

text \<open>
  An interface several stores provide: a name has at most one holder, and a holder, once there,
  stays until a command that ends exactly that hold. Leases, agent bindings, task claims and
  pinned strategies are instances; the lemmas hold for any sequence of commands. \<open>held_while\<close> is
  the contract of a store that relies on an invariant its commands keep, \<open>held_until\<close> that of one
  that relies on none.
\<close>

locale held_while =
  fixes good :: "'db \<Rightarrow> bool"
    and holder :: "'db \<Rightarrow> 'n \<Rightarrow> 'h option"
    and run :: "'db \<Rightarrow> 'c \<Rightarrow> 'db"
    and ends :: "'db \<Rightarrow> 'c \<Rightarrow> 'n \<Rightarrow> 'h \<Rightarrow> bool"
  assumes good_run: "good db \<Longrightarrow> good (run db c)"
    and kept_while: "good db \<Longrightarrow> holder db n = Some h \<Longrightarrow> \<not> ends db c n h \<Longrightarrow> holder (run db c) n = Some h"
begin

text \<open>The commands of a sequence that end a hold, each judged where it is run.\<close>

fun ended :: "'db \<Rightarrow> 'c list \<Rightarrow> 'n \<Rightarrow> 'h \<Rightarrow> bool" where
  "ended db [] n h = False"
| "ended db (c # cs) n h \<longleftrightarrow> ends db c n h \<or> ended (run db c) cs n h"

lemma good_foldl: "good db \<Longrightarrow> good (foldl run db cs)"
  by (induction cs arbitrary: db) (auto intro: good_run)

lemma held_through: "good db \<Longrightarrow> holder db n = Some h \<Longrightarrow> \<not> ended db cs n h \<Longrightarrow> holder (foldl run db cs) n = Some h"
  by (induction cs arbitrary: db) (auto intro: kept_while good_run)

lemma lost_was_ended:
  "good db \<Longrightarrow> holder db n = Some h \<Longrightarrow> holder (foldl run db cs) n \<noteq> Some h \<Longrightarrow> ended db cs n h"
  using held_through by blast

text \<open>When a command ends a hold whatever the state, the sequence holds such a command.\<close>

lemma ended_some: "ended db cs n h \<Longrightarrow> (\<And>db c. ends db c n h \<Longrightarrow> E c) \<Longrightarrow> \<exists>c \<in> set cs. E c"
  by (induction cs arbitrary: db) auto

end

locale held_until =
  fixes holder :: "'db \<Rightarrow> 'n \<Rightarrow> 'h option"
    and run :: "'db \<Rightarrow> 'c \<Rightarrow> 'db"
    and ends :: "'db \<Rightarrow> 'c \<Rightarrow> 'n \<Rightarrow> 'h \<Rightarrow> bool"
  assumes kept: "holder db n = Some h \<Longrightarrow> \<not> ends db c n h \<Longrightarrow> holder (run db c) n = Some h"

sublocale held_until \<subseteq> held_while "\<lambda>_. True" holder run ends
  by unfold_locales (auto intro: kept)

context held_until
begin

lemma lost_some:
  "holder db n = Some h \<Longrightarrow> holder (foldl run db cs) n \<noteq> Some h \<Longrightarrow> (\<And>db c. ends db c n h \<Longrightarrow> E c) \<Longrightarrow>
     \<exists>c \<in> set cs. E c"
  using lost_was_ended ended_some by blast

end

end
