(* ===== verification/Core_Lease.thy ===== *)
theory Core_Lease
  imports Core_Error Core_Text Held_Until
begin

text \<open>
  Named exclusive holds, \<open>crates/jkb-core/src/lease.rs\<close>. The table \<open>leases\<close>, whose key is
  the name, is an association list. A string is its UTF-8 bytes, so the questions the code
  asks of characters (control, white space) are asked of the decoded ones.
\<close>

section \<open>Leases\<close>

definition lease_MAX_NAME_BYTES :: nat where "lease_MAX_NAME_BYTES = 300"

definition MAX_HOLDER_BYTES :: nat where "MAX_HOLDER_BYTES = 600"

record lease =
  ls_holder :: string
  ls_taken_at :: int

text \<open>\<open>split_whitespace().next().unwrap_or_default()\<close>.\<close>

definition owner_of :: "string \<Rightarrow> string" where
  "owner_of holder =
     concat (takeWhile (\<lambda>u. \<not> is_whitespace (code_point u))
       (dropWhile (\<lambda>u. is_whitespace (code_point u)) (utf8_units holder)))"

definition lease_owner :: "lease \<Rightarrow> string" where
  "lease_owner l = owner_of (ls_holder l)"

definition has_control :: "string \<Rightarrow> bool" where
  "has_control s \<longleftrightarrow> list_ex (\<lambda>u. is_control (code_point u)) (utf8_units s)"

definition lease_check :: "string \<Rightarrow> string option \<Rightarrow> unit core_result" where
  "lease_check name holder =
     (if name = [] \<or> length name > lease_MAX_NAME_BYTES \<or> has_control name
      then Inl (Queue (Invalid ''lease'' (''a lease name is 1..='' @ nat_str lease_MAX_NAME_BYTES @
        '' bytes with no control characters'')))
      else case holder of
        None \<Rightarrow> Inr ()
      | Some h \<Rightarrow>
          if owner_of h = [] \<or> length h > MAX_HOLDER_BYTES \<or> has_control h
          then Inl (Queue (Invalid ''holder'' (''a holder is `<owner> <nonce>`, 1..='' @
            nat_str MAX_HOLDER_BYTES @ '' bytes with no control characters'')))
          else Inr ())"

type_synonym leases = "(string \<times> lease) list"

definition lease_get :: "leases \<Rightarrow> string \<Rightarrow> lease option core_result" where
  "lease_get db name = result_bind (lease_check name None) (\<lambda>_. Inr (map_of db name))"

definition lease_take ::
  "leases \<Rightarrow> string \<Rightarrow> string \<Rightarrow> string option \<Rightarrow> int \<Rightarrow> (leases \<times> bool) core_result" where
  "lease_take db name holder displace now =
     result_bind (lease_check name (Some holder)) (\<lambda>_.
       case displace of
         Some d \<Rightarrow>
           result_bind (lease_check name (Some d)) (\<lambda>_.
             let hit = (\<lambda>(n, l). n = name \<and> ls_holder l = d) in
             Inr (map (\<lambda>r. if hit r then (fst r, \<lparr>ls_holder = holder, ls_taken_at = now\<rparr>) else r) db,
                  list_ex hit db))
       | None \<Rightarrow>
           if name \<in> fst ` set db then Inr (db, False)
           else Inr (db @ [(name, \<lparr>ls_holder = holder, ls_taken_at = now\<rparr>)], True))"

definition lease_release :: "leases \<Rightarrow> string \<Rightarrow> string \<Rightarrow> (leases \<times> bool) core_result" where
  "lease_release db name holder =
     result_bind (lease_check name (Some holder)) (\<lambda>_.
       let hit = (\<lambda>(n, l). n = name \<and> ls_holder l = holder) in
       Inr (filter (\<lambda>r. \<not> hit r) db, list_ex hit db))"

definition break_lease :: "leases \<Rightarrow> string \<Rightarrow> (leases \<times> string option) core_result" where
  "break_lease db name =
     result_bind (lease_check name None) (\<lambda>_.
       Inr (filter (\<lambda>(n, _). n \<noteq> name) db, map_option ls_holder (map_of db name)))"

section \<open>Sequences of operations\<close>

datatype lease_cmd =
  L_Take string string "string option" int
| L_Release string string
| L_Break string

text \<open>A refused operation rolls back.\<close>

fun lease_run :: "leases \<Rightarrow> lease_cmd \<Rightarrow> leases" where
  "lease_run db (L_Take name holder displace now) =
     (case lease_take db name holder displace now of Inl _ \<Rightarrow> db | Inr (db', _) \<Rightarrow> db')"
| "lease_run db (L_Release name holder) =
     (case lease_release db name holder of Inl _ \<Rightarrow> db | Inr (db', _) \<Rightarrow> db')"
| "lease_run db (L_Break name) = (case break_lease db name of Inl _ \<Rightarrow> db | Inr (db', _) \<Rightarrow> db')"

definition lease_holder :: "leases \<Rightarrow> string \<Rightarrow> string option" where
  "lease_holder db name = map_option ls_holder (map_of db name)"

fun lease_ends :: "leases \<Rightarrow> lease_cmd \<Rightarrow> string \<Rightarrow> string \<Rightarrow> bool" where
  "lease_ends db (L_Take name h displace now) n holder \<longleftrightarrow> name = n \<and> displace = Some holder \<and> h \<noteq> holder"
| "lease_ends db (L_Release name h) n holder \<longleftrightarrow> name = n \<and> h = holder"
| "lease_ends db (L_Break name) n holder \<longleftrightarrow> name = n"

lemma map_of_map_row:
  assumes "\<And>r. fst (f r) = fst r"
  shows "map_of (map f db) n = map_option (\<lambda>l. snd (f (n, l))) (map_of db n)"
proof (induction db)
  case (Cons r db)
  obtain k v where r: "r = (k, v)" by fastforce
  obtain v' where "f (k, v) = (k, v')" by (metis assms fst_conv surj_pair)
  with Cons r show ?case by auto
qed simp

lemma map_of_filter_keep: "map_of db n = Some l \<Longrightarrow> P (n, l) \<Longrightarrow> map_of (filter P db) n = Some l"
  by (induction db) (auto split: if_splits)

interpretation leases: held_until lease_holder lease_run lease_ends
proof
  fix db n h c
  assume held: "lease_holder db n = Some h" and keeps: "\<not> lease_ends db c n h"
  from held obtain l where l: "map_of db n = Some l" "ls_holder l = h" by (auto simp: lease_holder_def)
  show "lease_holder (lease_run db c) n = Some h"
  proof (cases c)
    case (L_Take name holder displace now)
    show ?thesis
    proof (cases "lease_take db name holder displace now")
      case (Inr r)
      with L_Take keeps l show ?thesis
        by (cases displace)
           (auto simp: lease_take_def lease_holder_def result_bind_Inr map_of_map_row Let_def split: if_splits)
    qed (use L_Take held in simp)
  next
    case (L_Release name holder)
    then show ?thesis
      using keeps l held map_of_filter_keep [OF l(1), of "\<lambda>(k, x). \<not> (k = name \<and> ls_holder x = holder)"]
      by (cases "lease_check name (Some holder)")
         (auto simp: lease_release_def lease_holder_def Let_def case_prod_unfold)
  next
    case (L_Break name)
    then show ?thesis
      using keeps l held map_of_filter_keep [OF l(1), of "\<lambda>(k, _). k \<noteq> name"]
      by (cases "lease_check name None") (auto simp: break_lease_def lease_holder_def)
  qed
qed

text \<open>
  C40. A lease is exclusive. Taking a lease without naming anyone succeeds exactly when nobody
  holds it; naming a holder succeeds exactly when that holder has it now; on success the
  taker holds it, on failure nothing changes. Whatever operations follow, a holder that has
  lost the lease lost it to its own release, to a takeover that named exactly it, or to a
  break of that lease.
\<close>

theorem lease_exclusive:
  assumes "distinct (map fst db)" and "lease_take db name holder displace now = Inr (db', ok)"
  shows "(ok \<longleftrightarrow> (case displace of None \<Rightarrow> lease_holder db name = None | Some d \<Rightarrow> lease_holder db name = Some d)) \<and>
    (ok \<longrightarrow> lease_holder db' name = Some holder \<and>
       (lease_holder (foldl lease_run db' cmds) name \<noteq> Some holder \<longrightarrow>
          (\<exists>c \<in> set cmds. c = L_Release name holder \<or> c = L_Break name \<or>
             (\<exists>h now. c = L_Take name h (Some holder) now \<and> h \<noteq> holder)))) \<and>
    (\<not> ok \<longrightarrow> db' = db)"
proof -
  have one: "(name, l) \<in> set db \<longleftrightarrow> map_of db name = Some l" for l
    using assms(1) by (simp add: map_of_eq_Some_iff)
  have answer: "(ok \<longleftrightarrow> (case displace of None \<Rightarrow> lease_holder db name = None | Some d \<Rightarrow> lease_holder db name = Some d)) \<and>
      (ok \<longrightarrow> lease_holder db' name = Some holder) \<and> (\<not> ok \<longrightarrow> db' = db)"
  proof (cases displace)
    case None
    with assms(2) show ?thesis
      by (auto simp: lease_take_def result_bind_Inr lease_holder_def map_of_eq_None_iff [symmetric] map_add_def
          dom_map_of_conv_image_fst [symmetric] domIff split: if_splits)
  next
    case (Some d)
    have hit: "list_ex (\<lambda>(n, l). n = name \<and> ls_holder l = d) db \<longleftrightarrow> lease_holder db name = Some d"
      using one by (auto simp: list_ex_iff lease_holder_def)
    with Some assms(2) show ?thesis
      by (auto simp: lease_take_def result_bind_Inr Let_def lease_holder_def map_of_map_row list_ex_iff map_idI)
  qed
  moreover have "\<exists>c \<in> set cmds. c = L_Release name holder \<or> c = L_Break name \<or>
      (\<exists>h now. c = L_Take name h (Some holder) now \<and> h \<noteq> holder)"
    if "lease_holder db' name = Some holder" "lease_holder (foldl lease_run db' cmds) name \<noteq> Some holder"
  proof (rule leases.lost_some [OF that])
    fix db c assume "lease_ends db c name holder"
    then show "c = L_Release name holder \<or> c = L_Break name \<or>
      (\<exists>h now. c = L_Take name h (Some holder) now \<and> h \<noteq> holder)"
      by (cases c) auto
  qed
  ultimately show ?thesis by blast
qed

theorem lease_exclusive_witness:
  "lease_take [(''l'', \<lparr>ls_holder = ''host:1 n1'', ls_taken_at = 5\<rparr>)] ''l'' ''host:2 n2'' (Some ''host:1 n1'') 6 =
     Inr ([(''l'', \<lparr>ls_holder = ''host:2 n2'', ls_taken_at = 6\<rparr>)], True) \<and>
   lease_holder (foldl lease_run [(''l'', \<lparr>ls_holder = ''host:2 n2'', ls_taken_at = 6\<rparr>)]
     [L_Release ''l'' ''host:1 n1'', L_Take ''l'' ''host:3 n3'' None 7]) ''l'' = Some ''host:2 n2''"
proof -
  let ?db = "[(''l'', \<lparr>ls_holder = ''host:1 n1'', ls_taken_at = 5\<rparr>)]"
  let ?db' = "[(''l'', \<lparr>ls_holder = ''host:2 n2'', ls_taken_at = 6\<rparr>)]"
  have t: "lease_take ?db ''l'' ''host:2 n2'' (Some ''host:1 n1'') 6 = Inr (?db', True)"
    by (simp add: lease_take_def lease_check_def lease_MAX_NAME_BYTES_def MAX_HOLDER_BYTES_def has_control_def
        owner_of_def is_cont_byte_def code_point_def is_control_def is_whitespace_def)
  from lease_exclusive [OF _ t, of "[L_Release ''l'' ''host:1 n1'', L_Take ''l'' ''host:3 n3'' None 7]"] t
  show ?thesis by auto
qed

end
