(* ===== verification/Core_Changelog.thy ===== *)
theory Core_Changelog
  imports Core_Error Types_Enums
begin

text \<open>
  The audit log, \<open>crates/jkb-core/src/changelog.rs\<close>, and the half of
  \<open>crates/jkb-core/src/undo.rs\<close> that the log asks at every write: which inverse an entry has and
  whether its before-state could drive it. A before- or after-state is a JSON value; the column
  holds its text, the model the value. Objects list their keys in order, as \<open>serde_json\<close>'s
  map does.

  The lemmas show that what the log accepts, \<open>undo\<close> can use: an entry is an insert only when
  there was no row before, and a before-state that is written back names columns of its table.
\<close>

section \<open>Values\<close>

datatype json = JNull | JBool bool | JNum int | JStr string | JArr "json list" | JObj "(string \<times> json) list"

fun json_as_object :: "json \<Rightarrow> (string \<times> json) list option" where
  "json_as_object (JObj kvs) = Some kvs"
| "json_as_object _ = None"

fun json_get :: "string \<Rightarrow> json \<Rightarrow> json option" where
  "json_get k (JObj kvs) = map_of kvs k"
| "json_get k _ = None"

definition json_opt :: "string option \<Rightarrow> json" where
  "json_opt s = (case s of None \<Rightarrow> JNull | Some x \<Rightarrow> JStr x)"

section \<open>Operations and tables\<close>

datatype cl_op = Op_Insert | Op_Update | Op_Delete | Op_Claim | Op_Release | Op_Reclaim | Op_Undo

definition cl_op_ALL :: "cl_op list" where
  "cl_op_ALL = [Op_Insert, Op_Update, Op_Delete, Op_Claim, Op_Release, Op_Reclaim, Op_Undo]"

fun cl_op_as_str :: "cl_op \<Rightarrow> string" where
  "cl_op_as_str Op_Insert = ''insert''"
| "cl_op_as_str Op_Update = ''update''"
| "cl_op_as_str Op_Delete = ''delete''"
| "cl_op_as_str Op_Claim = ''claim''"
| "cl_op_as_str Op_Release = ''release''"
| "cl_op_as_str Op_Reclaim = ''reclaim''"
| "cl_op_as_str Op_Undo = ''undo''"

definition cl_op_parse :: "string \<Rightarrow> cl_op option" where
  "cl_op_parse name = parse_by_name cl_op_ALL cl_op_as_str name"

datatype entity =
  E_Items | E_Namespaces | E_Placements | E_Edges | E_TagDefs | E_TagApplications | E_Bindings
| E_Mounts | E_Blobs | E_Ingestions | E_Containment | E_SyncState | E_DesignUpdates
| E_DesignSnapshots | E_DesignDocTargets | E_DesignSources | E_ExecRequests | E_Changelog

definition entity_ALL :: "entity list" where
  "entity_ALL =
     [E_Items, E_Namespaces, E_Placements, E_Edges, E_TagDefs, E_TagApplications, E_Bindings,
      E_Mounts, E_Blobs, E_Ingestions, E_Containment, E_SyncState, E_DesignUpdates,
      E_DesignSnapshots, E_DesignDocTargets, E_DesignSources, E_ExecRequests, E_Changelog]"

fun entity_as_str :: "entity \<Rightarrow> string" where
  "entity_as_str E_Items = ''items''"
| "entity_as_str E_Namespaces = ''namespaces''"
| "entity_as_str E_Placements = ''placements''"
| "entity_as_str E_Edges = ''edges''"
| "entity_as_str E_TagDefs = ''tag_defs''"
| "entity_as_str E_TagApplications = ''tag_applications''"
| "entity_as_str E_Bindings = ''bindings''"
| "entity_as_str E_Mounts = ''mounts''"
| "entity_as_str E_Blobs = ''blobs''"
| "entity_as_str E_Ingestions = ''ingestions''"
| "entity_as_str E_Containment = ''containment''"
| "entity_as_str E_SyncState = ''sync_state''"
| "entity_as_str E_DesignUpdates = ''design_updates''"
| "entity_as_str E_DesignSnapshots = ''design_snapshots''"
| "entity_as_str E_DesignDocTargets = ''design_doc_targets''"
| "entity_as_str E_DesignSources = ''design_sources''"
| "entity_as_str E_ExecRequests = ''exec_requests''"
| "entity_as_str E_Changelog = ''changelog''"

definition entity_parse :: "string \<Rightarrow> entity option" where
  "entity_parse name = parse_by_name entity_ALL entity_as_str name"

datatype insert_inverse = II_DeleteRow | II_Never | II_ForwardUpdate | II_Irreversible

fun entity_insert_inverse :: "entity \<Rightarrow> insert_inverse" where
  "entity_insert_inverse E_DesignUpdates = II_ForwardUpdate"
| "entity_insert_inverse E_ExecRequests = II_Irreversible"
| "entity_insert_inverse E_SyncState = II_Never"
| "entity_insert_inverse E_Changelog = II_Never"
| "entity_insert_inverse E_Blobs = II_Never"
| "entity_insert_inverse E_DesignSnapshots = II_Never"
| "entity_insert_inverse _ = II_DeleteRow"

section \<open>Inverses\<close>

datatype inverse_kind =
  Inv_ItemSnapshot | Inv_EdgeWeight | Inv_MountConfig | Inv_ContainmentRow | Inv_SyncStateRow
| Inv_Columns | Inv_ReinsertRow | Inv_DeleteRow | Inv_DesignRevert

definition INVERSES :: "(cl_op \<times> entity option \<times> inverse_kind) list" where
  "INVERSES =
     [(Op_Delete, Some E_Items, Inv_ItemSnapshot),
      (Op_Update, Some E_Edges, Inv_EdgeWeight),
      (Op_Update, Some E_Mounts, Inv_MountConfig),
      (Op_Update, Some E_Containment, Inv_ContainmentRow),
      (Op_Update, Some E_SyncState, Inv_SyncStateRow),
      (Op_Update, Some E_Items, Inv_Columns),
      (Op_Claim, Some E_Items, Inv_Columns),
      (Op_Release, Some E_Items, Inv_Columns),
      (Op_Reclaim, Some E_Items, Inv_Columns),
      (Op_Update, Some E_Bindings, Inv_Columns),
      (Op_Update, Some E_Placements, Inv_Columns),
      (Op_Update, Some E_TagApplications, Inv_Columns),
      (Op_Update, Some E_TagDefs, Inv_Columns),
      (Op_Update, Some E_Namespaces, Inv_Columns),
      (Op_Update, Some E_Ingestions, Inv_Columns),
      (Op_Update, Some E_DesignDocTargets, Inv_Columns),
      (Op_Update, Some E_DesignSources, Inv_Columns),
      (Op_Delete, Some E_Placements, Inv_ReinsertRow),
      (Op_Delete, Some E_TagApplications, Inv_ReinsertRow),
      (Op_Delete, Some E_Edges, Inv_ReinsertRow),
      (Op_Delete, Some E_Containment, Inv_ReinsertRow),
      (Op_Delete, Some E_Namespaces, Inv_ReinsertRow),
      (Op_Insert, Some E_DesignUpdates, Inv_DesignRevert),
      (Op_Insert, None, Inv_DeleteRow)]"

text \<open>The closed half of \<open>inverse_for\<close>, once both strings are read.\<close>

definition inverse_of :: "cl_op \<Rightarrow> entity \<Rightarrow> inverse_kind option" where
  "inverse_of cop table =
     (case List.find (\<lambda>(o', t, _). o' = cop \<and> (case t of None \<Rightarrow> True | Some t' \<Rightarrow> t' = table)) INVERSES of
        None \<Rightarrow> None
      | Some (_, _, i) \<Rightarrow>
          if i = Inv_DeleteRow \<and> entity_insert_inverse table \<noteq> II_DeleteRow then None else Some i)"

definition inverse_for :: "string \<Rightarrow> string \<Rightarrow> inverse_kind option" where
  "inverse_for cop table =
     (case (cl_op_parse cop, entity_parse table) of
        (Some o', Some t) \<Rightarrow> inverse_of o' t
      | _ \<Rightarrow> None)"

definition row_shaped :: "string \<Rightarrow> string \<Rightarrow> inverse_kind option" where
  "row_shaped cop table =
     (case inverse_for cop table of
        Some i \<Rightarrow> if i = Inv_Columns \<or> i = Inv_ReinsertRow then Some i else None
      | None \<Rightarrow> None)"

definition BOOKKEEPING :: "(cl_op \<times> entity) list" where
  "BOOKKEEPING = [(Op_Update, E_SyncState), (Op_Update, E_DesignSnapshots), (Op_Undo, E_Changelog)]"

definition PASSED_OVER :: "entity list" where
  "PASSED_OVER = [E_ExecRequests]"

definition is_work :: "string \<Rightarrow> string \<Rightarrow> bool" where
  "is_work cop table =
     (case (cl_op_parse cop, entity_parse table) of
        (Some o', Some t) \<Rightarrow> (o', t) \<notin> set BOOKKEEPING
      | _ \<Rightarrow> True)"

section \<open>Before-states\<close>

definition is_cascade_snapshot :: "string \<Rightarrow> string \<Rightarrow> bool" where
  "is_cascade_snapshot cop table \<longleftrightarrow> cop = ''delete'' \<and> table = entity_as_str E_Items"

definition column_map :: "string \<Rightarrow> string \<Rightarrow> json option \<Rightarrow> json option" where
  "column_map cop table before =
     (if is_cascade_snapshot cop table
      then (case before of None \<Rightarrow> None | Some b \<Rightarrow> json_get ''item'' b)
      else before)"

text \<open>
  The columns the migrations give the tables whose before-states are column maps, in the order
  a \<open>BTreeSet\<close> keeps them. No other table is asked for its columns.
\<close>

fun schema_columns :: "entity \<Rightarrow> string list" where
  "schema_columns E_Items =
     [''chunked_rev'', ''claimant_id'', ''claimed_at'', ''content'', ''content_hash'', ''content_rev'',
      ''created_at'', ''due'', ''id'', ''kind'', ''metadata'', ''mime'', ''priority'', ''resolution'',
      ''status'', ''uid'', ''updated_at'']"
| "schema_columns E_Bindings =
     [''item_id'', ''last_synced_at'', ''last_synced_hash'', ''serializer'', ''sync_mode'', ''uri'']"
| "schema_columns E_Placements =
     [''id'', ''item_id'', ''metadata'', ''namespace_id'', ''position'', ''role'']"
| "schema_columns E_TagApplications = [''facet'', ''id'', ''item_id'', ''props'', ''value'']"
| "schema_columns E_TagDefs = [''facet'', ''id'', ''value_kind'']"
| "schema_columns E_Namespaces =
     [''created_at'', ''id'', ''kind'', ''metadata'', ''parent_id'', ''path'']"
| "schema_columns E_Ingestions =
     [''blob_hash'', ''completed_at'', ''embedder_model'', ''id'', ''pipeline_version'', ''source_hash'',
      ''stage'', ''started_at'', ''status'', ''strategy'']"
| "schema_columns E_DesignDocTargets = [''design_id'', ''path'', ''txn_id'']"
| "schema_columns E_DesignSources = [''blake3'', ''design_id'', ''id'', ''path'', ''txn_id'']"
| "schema_columns E_Edges =
     [''created_at'', ''dst_item_id'', ''id'', ''props'', ''src_item_id'', ''type'', ''weight'']"
| "schema_columns E_Containment = [''child_item_id'', ''parent_item_id'', ''position'']"
| "schema_columns _ = []"

definition table_columns :: "string \<Rightarrow> string list" where
  "table_columns table = (case entity_parse table of Some e \<Rightarrow> schema_columns e | None \<Rightarrow> [])"

definition check_columns ::
  "string \<Rightarrow> string \<Rightarrow> json option \<Rightarrow> bool \<Rightarrow> string list \<Rightarrow> unit core_result" where
  "check_columns cop table before whole_row may_omit =
     (case Option.bind before json_as_object of
        None \<Rightarrow> Inl (validation (''a `'' @ cop @ ''` on `'' @ table @
          ''` is undone by writing its before-state back to the columns it names, so it must be logged with a non-empty before-state; without one `jkb undo` would restore nothing and report success''))
      | Some [] \<Rightarrow> Inl (validation (''a `'' @ cop @ ''` on `'' @ table @
          ''` is undone by writing its before-state back to the columns it names, so it must be logged with a non-empty before-state; without one `jkb undo` would restore nothing and report success''))
      | Some (f # fs) \<Rightarrow>
          let kvs = f # fs; columns = table_columns table in
          case List.find (\<lambda>k. k \<notin> set columns) (map fst kvs) of
            Some key \<Rightarrow> Inl (validation (''`'' @ key @ ''` is not a column of `'' @ table @
              ''`, so undoing this `'' @ cop @ ''` would not restore it '' @ emdash @
              '' log the previous value under the column'' @ [CHR 0x27] @ ''s own name''))
          | None \<Rightarrow>
              let missing = filter (\<lambda>c. c \<notin> set (map fst kvs) \<and> c \<notin> set may_omit) columns in
              if whole_row \<and> missing \<noteq> []
              then Inl (validation (''the before-state for this `'' @ cop @ ''` on `'' @ table @
                ''` does not name '' @ join '', '' missing @ '' '' @ emdash @
                '' undoing a delete re-inserts the row from exactly what is logged, so an unnamed column comes back as its default, or the whole row is silently not restored at all''))
              else Inr ())"

datatype reading = Rd_Write | Rd_Replay

definition LATER_ID_COLUMNS :: "entity list" where
  "LATER_ID_COLUMNS = [E_Placements, E_TagApplications]"

definition LATER_ITEM_COLUMNS :: "string list" where
  "LATER_ITEM_COLUMNS = [''content_rev'', ''chunked_rev'']"

definition tolerated_missing :: "string \<Rightarrow> string \<Rightarrow> reading \<Rightarrow> string list" where
  "tolerated_missing cop table reading =
     (if reading = Rd_Replay \<and> cop = ''delete'' \<and>
         (case entity_parse table of Some e \<Rightarrow> e \<in> set LATER_ID_COLUMNS | None \<Rightarrow> False)
      then [''id''] else [])"

definition check_restorable_as ::
  "string \<Rightarrow> string \<Rightarrow> json option \<Rightarrow> reading \<Rightarrow> unit core_result" where
  "check_restorable_as cop table before reading =
     (if is_cascade_snapshot cop table
      then check_columns cop table (column_map cop table before) True
             (if reading = Rd_Replay then LATER_ITEM_COLUMNS else [])
      else case row_shaped cop table of
        None \<Rightarrow> Inr ()
      | Some i \<Rightarrow>
          check_columns cop table before (i = Inv_ReinsertRow) (tolerated_missing cop table reading))"

definition check_restorable :: "string \<Rightarrow> string \<Rightarrow> json option \<Rightarrow> unit core_result" where
  "check_restorable cop table before = check_restorable_as cop table before Rd_Write"

definition check_replayable :: "string \<Rightarrow> string \<Rightarrow> json option \<Rightarrow> unit core_result" where
  "check_replayable cop table before = check_restorable_as cop table before Rd_Replay"

section \<open>The log\<close>

record write_meta =
  wm_txn_id :: int
  wm_actor :: string

record changelog_row =
  cl_txn_id :: int
  cl_op :: string
  cl_entity_type :: string
  cl_entity_id :: string
  cl_before :: "json option"
  cl_after :: "json option"
  cl_actor :: string

type_synonym changelog = "changelog_row list"

definition undoable :: "cl_op \<Rightarrow> entity \<Rightarrow> unit core_result" where
  "undoable cop entity =
     (if cop = Op_Insert \<and> entity_insert_inverse entity = II_Never
      then Inl (validation (''`'' @ entity_as_str entity @
        ''` records no invertible insert, so logging one would make `jkb undo` skip this transaction and revert an older one '' @
        emdash @ '' log the write as an update with a hand-written inverse, or give the table a rowid inverse in `changelog::Entity::insert_inverse`''))
      else Inr ())"

definition changelog_write ::
  "changelog \<Rightarrow> write_meta \<Rightarrow> cl_op \<Rightarrow> entity \<Rightarrow> string \<Rightarrow> json option \<Rightarrow> json option
     \<Rightarrow> changelog core_result" where
  "changelog_write log meta cop entity entity_id before after =
     result_bind (undoable cop entity) (\<lambda>_.
     result_bind (check_restorable (cl_op_as_str cop) (entity_as_str entity) before) (\<lambda>_.
       Inr (log @ [\<lparr>cl_txn_id = wm_txn_id meta, cl_op = cl_op_as_str cop,
         cl_entity_type = entity_as_str entity, cl_entity_id = entity_id,
         cl_before = before, cl_after = after, cl_actor = wm_actor meta\<rparr>])))"

definition changelog_upsert ::
  "changelog \<Rightarrow> write_meta \<Rightarrow> entity \<Rightarrow> string \<Rightarrow> json option \<Rightarrow> json option \<Rightarrow> changelog core_result" where
  "changelog_upsert log meta entity entity_id before after =
     changelog_write log meta (if before \<noteq> None then Op_Update else Op_Insert) entity entity_id before after"

definition changelog_append ::
  "changelog \<Rightarrow> write_meta \<Rightarrow> cl_op \<Rightarrow> entity \<Rightarrow> string \<Rightarrow> json option \<Rightarrow> json option
     \<Rightarrow> changelog core_result" where
  "changelog_append log meta cop entity entity_id before after =
     (if cop = Op_Insert
      then Inl (validation (''`insert` is derived from a before-state, not chosen: log this write to `'' @
        entity_as_str entity @
        ''` with `changelog::upsert`, which records an `insert` only when there was no row before. Choosing the op is how an upsert came to be logged as an insert, after which `jkb undo` deletes a row the transaction never created''))
      else changelog_write log meta cop entity entity_id before after)"

section \<open>What the log accepts\<close>

interpretation cl_op_enum: stored_enum cl_op_ALL cl_op_as_str
proof
  show "set cl_op_ALL = UNIV"
    by (rule UNIV_eq_I [symmetric]) (rename_tac x, case_tac x, simp_all add: cl_op_ALL_def)
qed (simp add: cl_op_ALL_def)

interpretation entity_enum: stored_enum entity_ALL entity_as_str
proof
  show "set entity_ALL = UNIV"
    by (rule UNIV_eq_I [symmetric]) (rename_tac x, case_tac x, simp_all add: entity_ALL_def)
qed (simp add: entity_ALL_def)

lemma cl_op_parse_as_str [simp]: "cl_op_parse (cl_op_as_str x) = Some x"
  by (simp add: cl_op_parse_def cl_op_enum.from_as_str)

lemma entity_parse_as_str [simp]: "entity_parse (entity_as_str x) = Some x"
  by (simp add: entity_parse_def entity_enum.from_as_str)

lemma inverse_for_as_str [simp]: "inverse_for (cl_op_as_str x) (entity_as_str e) = inverse_of x e"
  by (simp add: inverse_for_def)

lemma table_columns_as_str [simp]: "table_columns (entity_as_str e) = schema_columns e"
  by (simp add: table_columns_def)

text \<open>The one table whose inserts are logged without an inverse.\<close>

lemma inverse_of_insert:
  "entity_insert_inverse e \<noteq> II_Never \<Longrightarrow> inverse_of Op_Insert e = None \<longleftrightarrow> e = E_ExecRequests"
  by (cases e) (simp_all add: inverse_of_def INVERSES_def)

lemma inverse_of_snapshot: "inverse_of x e = Some Inv_ItemSnapshot \<longleftrightarrow> x = Op_Delete \<and> e = E_Items"
  by (cases x; cases e) (simp_all add: inverse_of_def INVERSES_def)

lemma is_cascade_iff: "is_cascade_snapshot (cl_op_as_str x) (entity_as_str e) \<longleftrightarrow> x = Op_Delete \<and> e = E_Items"
proof -
  have "cl_op_as_str x = ''delete'' \<longleftrightarrow> x = Op_Delete" by (cases x) simp_all
  moreover have "entity_as_str e = entity_as_str E_Items \<longleftrightarrow> e = E_Items"
    by (cases e) simp_all
  ultimately show ?thesis by (simp only: is_cascade_snapshot_def)
qed

lemma check_columns_iff:
  "check_columns cop table before whole_row may_omit = Inr () \<longleftrightarrow>
     (\<exists>kvs. before = Some (JObj kvs) \<and> kvs \<noteq> [] \<and> fst ` set kvs \<subseteq> set (table_columns table) \<and>
       (whole_row \<longrightarrow> set (table_columns table) \<subseteq> fst ` set kvs \<union> set may_omit))"
proof (cases "Option.bind before json_as_object")
  case None
  then have "before \<noteq> Some (JObj kvs)" for kvs by auto
  with None show ?thesis by (simp add: check_columns_def)
next
  case (Some kvs)
  then have b: "before = Some (JObj kvs)"
    by (cases before; simp) (rename_tac j, case_tac j, simp_all)
  show ?thesis
  proof (cases kvs)
    case Nil
    with b show ?thesis by (simp add: check_columns_def)
  next
    case (Cons f fs)
    have "List.find (\<lambda>k. k \<notin> set (table_columns table)) (map fst kvs) = None \<longleftrightarrow>
        fst ` set kvs \<subseteq> set (table_columns table)"
      by (auto simp: find_None_iff2)
    then show ?thesis
      using b Cons by (auto simp: check_columns_def Let_def filter_empty_conv split: option.splits)
  qed
qed

lemma check_columns_omit:
  "check_columns cop table before whole_row [] = Inr () \<Longrightarrow>
     check_columns cop table before whole_row may_omit = Inr ()"
  by (auto simp: check_columns_iff)

text \<open>A before-state the writer may log, \<open>undo\<close> may replay.\<close>

lemma restorable_replayable: "check_restorable cop table before = Inr () \<Longrightarrow> check_replayable cop table before = Inr ()"
  by (auto simp: check_restorable_def check_replayable_def check_restorable_as_def tolerated_missing_def
      intro: check_columns_omit split: if_splits option.splits)

definition names_columns :: "json option \<Rightarrow> entity \<Rightarrow> bool" where
  "names_columns before e \<longleftrightarrow>
     (\<exists>kvs. before = Some (JObj kvs) \<and> kvs \<noteq> [] \<and> fst ` set kvs \<subseteq> set (schema_columns e))"

definition names_row :: "json option \<Rightarrow> entity \<Rightarrow> bool" where
  "names_row before e \<longleftrightarrow>
     (\<exists>kvs. before = Some (JObj kvs) \<and> kvs \<noteq> [] \<and> fst ` set kvs = set (schema_columns e))"

lemma check_restorable_iff:
  "check_restorable (cl_op_as_str x) (entity_as_str e) before = Inr () \<longleftrightarrow>
     (case inverse_of x e of
        Some Inv_Columns \<Rightarrow> names_columns before e
      | Some Inv_ReinsertRow \<Rightarrow> names_row before e
      | Some Inv_ItemSnapshot \<Rightarrow> names_row (Option.bind before (json_get ''item'')) e
      | _ \<Rightarrow> True)"
proof (cases "is_cascade_snapshot (cl_op_as_str x) (entity_as_str e)")
  case True
  then have "inverse_of x e = Some Inv_ItemSnapshot" by (simp add: is_cascade_iff inverse_of_snapshot)
  moreover have "(case before of None \<Rightarrow> None | Some b \<Rightarrow> json_get ''item'' b) = Option.bind before (json_get ''item'')"
    by (cases before) simp_all
  ultimately show ?thesis
    using True by (auto simp: check_restorable_def check_restorable_as_def column_map_def check_columns_iff names_row_def)
next
  case False
  then have "inverse_of x e \<noteq> Some Inv_ItemSnapshot" by (simp add: is_cascade_iff inverse_of_snapshot)
  with False show ?thesis
    by (auto simp: check_restorable_def check_restorable_as_def row_shaped_def check_columns_iff names_row_def
        names_columns_def tolerated_missing_def split: option.splits inverse_kind.splits)
qed

lemma changelog_write_Inr:
  "changelog_write log meta x e i before after = Inr log' \<longleftrightarrow>
     log' = log @ [\<lparr>cl_txn_id = wm_txn_id meta, cl_op = cl_op_as_str x, cl_entity_type = entity_as_str e,
       cl_entity_id = i, cl_before = before, cl_after = after, cl_actor = wm_actor meta\<rparr>] \<and>
     (x = Op_Insert \<longrightarrow> entity_insert_inverse e \<noteq> II_Never) \<and>
     check_restorable (cl_op_as_str x) (entity_as_str e) before = Inr ()"
  by (auto simp: changelog_write_def result_bind_Inr undoable_def split: if_splits)

text \<open>An update of columns is accepted when its before-state names them.\<close>

definition log_entry :: "write_meta \<Rightarrow> cl_op \<Rightarrow> entity \<Rightarrow> string \<Rightarrow> json option \<Rightarrow> json option \<Rightarrow> changelog_row" where
  "log_entry meta x e i before after =
     \<lparr>cl_txn_id = wm_txn_id meta, cl_op = cl_op_as_str x, cl_entity_type = entity_as_str e,
      cl_entity_id = i, cl_before = before, cl_after = after, cl_actor = wm_actor meta\<rparr>"

lemma changelog_append_columns:
  assumes "inverse_of x e = Some Inv_Columns" and "names_columns before e"
  shows "changelog_append log meta x e i before after = Inr (log @ [log_entry meta x e i before after])"
proof -
  have "x \<noteq> Op_Insert"
    using assms(1) by (cases e) (auto simp: inverse_of_def INVERSES_def)
  with assms show ?thesis
    by (simp add: changelog_append_def changelog_write_Inr check_restorable_iff log_entry_def)
qed

lemma items_columns [simp]:
  "inverse_of Op_Update E_Items = Some Inv_Columns" "inverse_of Op_Claim E_Items = Some Inv_Columns"
  "inverse_of Op_Release E_Items = Some Inv_Columns" "inverse_of Op_Reclaim E_Items = Some Inv_Columns"
  by (simp_all add: inverse_of_def INVERSES_def)

text \<open>
  C11. What the log accepts, \<open>undo\<close> can use. Through either entry point a write appends
  exactly one row, whose op and table read back; an insert is logged only when there was no row
  before. The row's before-state passes the check \<open>undo\<close> itself makes before a replay: where
  the inverse writes columns back it names columns of the table, where it re-inserts a row
  it names all of them. A logged insert has an inverse, but for run requests, which
  \<open>undo\<close> refuses by name.
\<close>

theorem changelog_accepts_restorable:
  assumes "changelog_append log meta x e i before after = Inr log' \<or>
    (x = (if before = None then Op_Insert else Op_Update) \<and> changelog_upsert log meta e i before after = Inr log')"
  shows "\<exists>r. log' = log @ [r] \<and> cl_op_parse (cl_op r) = Some x \<and> entity_parse (cl_entity_type r) = Some e \<and>
    (x = Op_Insert \<longrightarrow> cl_before r = None) \<and>
    check_replayable (cl_op r) (cl_entity_type r) (cl_before r) = Inr () \<and>
    (case inverse_for (cl_op r) (cl_entity_type r) of
       None \<Rightarrow> x = Op_Insert \<longrightarrow> e = E_ExecRequests
     | Some Inv_Columns \<Rightarrow> names_columns (cl_before r) e
     | Some Inv_ReinsertRow \<Rightarrow> names_row (cl_before r) e
     | Some Inv_ItemSnapshot \<Rightarrow> names_row (Option.bind (cl_before r) (json_get ''item'')) e
     | Some _ \<Rightarrow> True)"
proof -
  from assms have w: "changelog_write log meta x e i before after = Inr log'" and b: "x = Op_Insert \<longrightarrow> before = None"
    by (auto simp: changelog_append_def changelog_upsert_def split: if_splits)
  from w have c: "check_restorable (cl_op_as_str x) (entity_as_str e) before = Inr ()"
    and never: "x = Op_Insert \<longrightarrow> entity_insert_inverse e \<noteq> II_Never" by (simp_all add: changelog_write_Inr)
  have "x = Op_Insert \<longrightarrow> e = E_ExecRequests" if "inverse_of x e = None"
    using that never inverse_of_insert by auto
  with w b c restorable_replayable [OF c] show ?thesis
    by (auto simp: changelog_write_Inr check_restorable_iff split: option.splits inverse_kind.splits)
qed

theorem changelog_accepts_restorable_witness:
  "\<exists>log'. changelog_append [] \<lparr>wm_txn_id = 7, wm_actor = ''cli''\<rparr> Op_Claim E_Items ''3''
     (Some (JObj [(''claimant_id'', JNull)])) None = Inr log' \<and>
     check_replayable ''claim'' ''items'' (cl_before (hd log')) = Inr ()"
proof -
  let ?b = "Some (JObj [(''claimant_id'', JNull)])"
  have ok: "check_restorable (cl_op_as_str Op_Claim) (entity_as_str E_Items) ?b = Inr ()"
    unfolding check_restorable_iff by (simp add: inverse_of_def INVERSES_def names_columns_def)
  then obtain log' where a: "changelog_append [] \<lparr>wm_txn_id = 7, wm_actor = ''cli''\<rparr> Op_Claim E_Items ''3'' ?b None = Inr log'"
    by (simp add: changelog_append_def changelog_write_Inr)
  from changelog_accepts_restorable [OF disjI1 [OF a]] obtain r where
    r: "log' = [r]" "check_replayable (cl_op r) (cl_entity_type r) (cl_before r) = Inr ()"
    by auto
  from a r(1) have "cl_op r = ''claim'' \<and> cl_entity_type r = ''items''"
    by (simp add: changelog_append_def changelog_write_Inr)
  with a r show ?thesis by auto
qed

end
