(* ===== verification/Core_Store.thy ===== *)
theory Core_Store
  imports Core_Changelog Core_Roles
begin

text \<open>
  The rows of \<open>jkb.db\<close> that task work reads and writes, as the migrations under
  \<open>crates/jkb-core/src/migrations\<close> declare them, one record per table. A table is the list of
  its rows in the order of their ids; an \<open>AUTOINCREMENT\<close> table keeps its high-water mark. A
  JSON column holds the value, except where the code reads the text back itself.

  Every operation of the component theories takes the store and returns the store, or the error
  its transaction rolls back on. The clock reading of an operation is an argument.
\<close>

section \<open>Items\<close>

record item_row =
  it_id :: int
  it_uid :: string
  it_kind :: string
  it_content :: "string option"
  it_content_hash :: "string option"
  it_mime :: "string option"
  it_status :: "string option"
  it_priority :: "int option"
  it_due :: "string option"
  it_metadata :: string
  it_created_at :: string
  it_updated_at :: string
  it_claimant_id :: "string option"
  it_claimed_at :: "string option"
  it_resolution :: "string option"
  it_content_rev :: int
  it_chunked_rev :: "int option"

section \<open>The task history\<close>

record labels =
  lb_branch :: "string option"
  lb_onto :: "string option"
  lb_ref_commit :: "string option"
  lb_pr_number :: "int option"

definition labels_default :: labels where
  "labels_default = \<lparr>lb_branch = None, lb_onto = None, lb_ref_commit = None, lb_pr_number = None\<rparr>"

text \<open>A row of \<open>task_transitions\<close>.\<close>

record transition_db_row =
  tt_id :: int
  tt_txn_id :: string
  tt_item_id :: int
  tt_at :: string
  tt_event :: string
  tt_from_status :: "string option"
  tt_to_status :: string
  tt_agent_id :: "string option"
  tt_labels :: labels
  tt_evidence :: "json option"

section \<open>Workflows\<close>

text \<open>A row of \<open>workflow_transitions\<close>.\<close>

record workflow_db_row =
  wt_id :: int
  wt_txn_id :: int
  wt_item_id :: int
  wt_at :: string
  wt_event :: string
  wt_from_phase :: "string option"
  wt_to_phase :: string
  wt_role :: string
  wt_actor :: string
  wt_round_mark :: "int option"
  wt_reason :: "string option"
  wt_spec :: "string option"
  wt_evidence :: "json option"

text \<open>A row of \<open>workflow_strategies\<close>, whose key is the name with the version.\<close>

record strategy_db_row =
  ws_name :: string
  ws_version :: int
  ws_spec :: string
  ws_defined_at :: string
  ws_describe :: "string option"

section \<open>Reviews\<close>

record review_db_row =
  rv_id :: int
  rv_item_id :: int
  rv_kind :: string
  rv_ns :: "string option"
  rv_sha :: string
  rv_actor :: string
  rv_txn_id :: int
  rv_at :: string

record filing_row =
  fl_ns :: string
  fl_item_id :: int
  fl_filed_by :: string

record round_db_row =
  rr_id :: int
  rr_ns :: string
  rr_actor :: string
  rr_recorded_at :: string

record finding_row =
  fd_round_id :: int
  fd_item_id :: int
  fd_must_fix :: bool
  fd_area :: "string option"

section \<open>The store\<close>

record core_db =
  items :: "item_row list"
  bindings :: "(int \<times> string) list"
  containment :: "(int \<times> int) list"
  tag_applications :: "(int \<times> string \<times> string) list"
  clog :: changelog
  task_transitions :: "transition_db_row list"
  transitions_seq :: int
  workflow_transitions :: "workflow_db_row list"
  workflow_seq :: int
  workflow_strategies :: "strategy_db_row list"
  reviews :: "review_db_row list"
  reviews_seq :: int
  review_filings :: "filing_row list"
  review_rounds :: "round_db_row list"
  rounds_seq :: int
  round_findings :: "finding_row list"
  roles_of :: roles_db

definition empty_core_db :: core_db where
  "empty_core_db =
     \<lparr>items = [], bindings = [], containment = [], tag_applications = [], clog = [], task_transitions = [], transitions_seq = 0,
      workflow_transitions = [], workflow_seq = 0, workflow_strategies = [], reviews = [],
      reviews_seq = 0, review_filings = [], review_rounds = [], rounds_seq = 0, round_findings = [],
      roles_of = empty_roles_db\<rparr>"

text \<open>\<open>WHERE id = ?1\<close>, read and updated. \<open>id\<close> is the table's key.\<close>

definition find_item :: "core_db \<Rightarrow> int \<Rightarrow> item_row option" where
  "find_item db i = List.find (\<lambda>r. it_id r = i) (items db)"

definition update_items :: "(item_row \<Rightarrow> bool) \<Rightarrow> (item_row \<Rightarrow> item_row) \<Rightarrow> core_db \<Rightarrow> core_db" where
  "update_items hit f db = db\<lparr>items := map (\<lambda>r. if hit r then f r else r) (items db)\<rparr>"

definition changed_items :: "(item_row \<Rightarrow> bool) \<Rightarrow> core_db \<Rightarrow> nat" where
  "changed_items hit db = length (filter hit (items db))"

definition items_keyed :: "core_db \<Rightarrow> bool" where
  "items_keyed db \<longleftrightarrow> distinct (map it_id (items db))"

lemma find_item_Some: "find_item db i = Some r \<Longrightarrow> r \<in> set (items db) \<and> it_id r = i"
  by (auto simp: find_item_def dest: find_SomeD)

lemma find_item_None: "find_item db i = None \<longleftrightarrow> (\<forall>r \<in> set (items db). it_id r \<noteq> i)"
  by (simp add: find_item_def find_None_iff2)

lemma find_item_unique:
  assumes "items_keyed db" and "find_item db i = Some r" and "x \<in> set (items db)" and "it_id x = i"
  shows "x = r"
  using assms find_key_unique [of it_id "items db" x] by (simp add: items_keyed_def find_item_def)

lemma find_item_iff: "items_keyed db \<Longrightarrow> find_item db i = Some r \<longleftrightarrow> r \<in> set (items db) \<and> it_id r = i"
  using find_item_Some [of db i r] find_key_unique [of it_id "items db" r]
  by (auto simp: items_keyed_def find_item_def)

lemma find_item_update:
  assumes "\<And>r. it_id (f r) = it_id r"
  shows "find_item (update_items hit f db) i = map_option (\<lambda>r. if hit r then f r else r) (find_item db i)"
proof -
  have "List.find (\<lambda>r. it_id r = i) (map (\<lambda>r. if hit r then f r else r) xs) =
      map_option (\<lambda>r. if hit r then f r else r) (List.find (\<lambda>r. it_id r = i) xs)" for xs
    by (induction xs) (simp_all add: assms)
  then show ?thesis by (simp add: find_item_def update_items_def)
qed

lemma items_keyed_update [simp]: "(\<And>r. it_id (f r) = it_id r) \<Longrightarrow> items_keyed (update_items hit f db) = items_keyed db"
  by (simp add: items_keyed_def update_items_def comp_def if_distrib cong: if_cong)

text \<open>A statement that names the key changes at most one row.\<close>

lemma changed_items_key:
  assumes "items_keyed db" and "\<And>r. hit r \<Longrightarrow> it_id r = i"
  shows "changed_items hit db = (case find_item db i of Some r \<Rightarrow> if hit r then 1 else 0 | None \<Rightarrow> 0)"
proof -
  have "length (filter hit xs) = (case List.find (\<lambda>r. it_id r = i) xs of Some r \<Rightarrow> if hit r then 1 else 0 | None \<Rightarrow> 0)"
    if "distinct (map it_id xs)" for xs
    using that
  proof (induction xs)
    case (Cons x xs)
    then show ?case
    proof (cases "it_id x = i")
      case True
      with Cons.prems assms(2) have "filter hit xs = []"
        by (auto simp: filter_empty_conv) (metis image_eqI)
      with True show ?thesis by simp
    next
      case False
      with assms(2) have "\<not> hit x" by blast
      with Cons False show ?thesis by simp
    qed
  qed simp
  with assms(1) show ?thesis by (simp add: changed_items_def items_keyed_def find_item_def)
qed

lemma update_items_others [simp]:
  "clog (update_items hit f db) = clog db"
  "task_transitions (update_items hit f db) = task_transitions db"
  "transitions_seq (update_items hit f db) = transitions_seq db"
  "workflow_transitions (update_items hit f db) = workflow_transitions db"
  "workflow_seq (update_items hit f db) = workflow_seq db"
  "workflow_strategies (update_items hit f db) = workflow_strategies db"
  "reviews (update_items hit f db) = reviews db"
  "review_rounds (update_items hit f db) = review_rounds db"
  "round_findings (update_items hit f db) = round_findings db"
  "roles_of (update_items hit f db) = roles_of db"
  "containment (update_items hit f db) = containment db"
  "bindings (update_items hit f db) = bindings db"
  by (simp_all add: update_items_def)

lemma find_item_other [simp]:
  "find_item (db\<lparr>clog := c\<rparr>) i = find_item db i"
  "find_item (db\<lparr>task_transitions := t\<rparr>) i = find_item db i"
  "find_item (db\<lparr>transitions_seq := s\<rparr>) i = find_item db i"
  "find_item (db\<lparr>workflow_transitions := w\<rparr>) i = find_item db i"
  "find_item (db\<lparr>workflow_seq := s\<rparr>) i = find_item db i"
  "find_item (db\<lparr>workflow_strategies := g\<rparr>) i = find_item db i"
  "find_item (db\<lparr>roles_of := d\<rparr>) i = find_item db i"
  by (simp_all add: find_item_def)

lemma items_keyed_other [simp]:
  "items_keyed (db\<lparr>clog := c\<rparr>) = items_keyed db"
  "items_keyed (db\<lparr>task_transitions := t\<rparr>) = items_keyed db"
  "items_keyed (db\<lparr>transitions_seq := s\<rparr>) = items_keyed db"
  "items_keyed (db\<lparr>workflow_transitions := w\<rparr>) = items_keyed db"
  "items_keyed (db\<lparr>workflow_seq := s\<rparr>) = items_keyed db"
  "items_keyed (db\<lparr>roles_of := d\<rparr>) = items_keyed db"
  by (simp_all add: items_keyed_def)

end
