(* ===== verification/Task_Claim.thy ===== *)
theory Task_Claim
  imports Core_Store Held_Until
begin

text \<open>
  Claims, \<open>crates/jkb-core/src/claim.rs\<close>: the compare-and-swap that takes a task, the ways a
  claim is cleared, and the questions about who holds what. A claim is the columns
  \<open>claimant_id\<close> and \<open>claimed_at\<close> of the task's row; each change is logged under its own op.
\<close>

section \<open>The operations\<close>

record claim_info =
  ci_id :: int
  ci_uid :: string
  ci_owner :: string
  ci_claimed_at :: "string option"

record claim_before =
  bf_status :: "string option"
  bf_claimant_id :: "string option"
  bf_claimed_at :: "string option"

definition read_before :: "core_db \<Rightarrow> int \<Rightarrow> claim_before option" where
  "read_before db i =
     map_option (\<lambda>r. \<lparr>bf_status = it_status r, bf_claimant_id = it_claimant_id r, bf_claimed_at = it_claimed_at r\<rparr>)
       (find_item db i)"

definition no_task :: "int \<Rightarrow> core_error" where
  "no_task task = Types (NotFound (''task '' @ int_str task))"

text \<open>The rows the \<open>UPDATE\<close> of \<open>claim\<close> changes: a null status is not \<open>NOT IN\<close> any list.\<close>

definition claimable :: "int \<Rightarrow> string \<Rightarrow> item_row \<Rightarrow> bool" where
  "claimable i owner r \<longleftrightarrow>
     it_id r = i \<and>
     (case it_status r of None \<Rightarrow> False | Some s \<Rightarrow> s \<notin> set sql_terminal_list) \<and>
     (it_claimant_id r = None \<or> it_claimant_id r = Some owner)"

definition claim ::
  "string \<Rightarrow> core_db \<Rightarrow> write_meta \<Rightarrow> int \<Rightarrow> string \<Rightarrow> (core_db \<times> bool) core_result" where
  "claim now db meta i owner =
     (case read_before db i of
        None \<Rightarrow> Inl (no_task i)
      | Some before \<Rightarrow>
          if is_terminal_str (bf_status before)
          then Inl (validation (''cannot claim task '' @ int_str i @ '': it is already '' @
            (case bf_status before of Some s \<Rightarrow> s | None \<Rightarrow> ''terminal'')))
          else
            let hit = claimable i owner;
                db' = update_items hit (\<lambda>r. r\<lparr>it_claimant_id := Some owner, it_claimed_at := Some now,
                  it_status := Some ''in_progress'', it_updated_at := now\<rparr>) db
            in if changed_items hit db = 0 then Inr (db, False)
               else result_bind
                 (changelog_append (clog db') meta Op_Claim E_Items (int_str i)
                   (Some (JObj [(''claimant_id'', json_opt (bf_claimant_id before)),
                                (''claimed_at'', json_opt (bf_claimed_at before)),
                                (''status'', json_opt (bf_status before))]))
                   (Some (JObj [(''claimant_id'', JStr owner),
                                (''claimed_at'', json_opt (Option.bind (find_item db' i) it_claimed_at)),
                                (''status'', JStr ''in_progress'')])))
                 (\<lambda>log. Inr (db'\<lparr>clog := log\<rparr>, True)))"

text \<open>The statement and the log entry that \<open>clear_inner\<close> and \<open>release\<close> share.\<close>

definition clear_claim ::
  "string \<Rightarrow> core_db \<Rightarrow> write_meta \<Rightarrow> int \<Rightarrow> cl_op \<Rightarrow> (item_row \<Rightarrow> bool) \<Rightarrow> (core_db \<times> bool) core_result" where
  "clear_claim now db meta i cop hit =
     (let db' = update_items hit (\<lambda>r. r\<lparr>it_claimant_id := None, it_claimed_at := None, it_updated_at := now\<rparr>) db
      in case (changed_items hit db = 1, read_before db i) of
           (True, Some before) \<Rightarrow>
             result_bind
               (changelog_append (clog db') meta cop E_Items (int_str i)
                 (Some (JObj [(''claimant_id'', json_opt (bf_claimant_id before)),
                              (''claimed_at'', json_opt (bf_claimed_at before))]))
                 (Some (JObj [(''claimant_id'', JNull), (''claimed_at'', JNull)])))
               (\<lambda>log. Inr (db'\<lparr>clog := log\<rparr>, True))
         | (one, _) \<Rightarrow> Inr (db', one))"

definition clear_inner ::
  "string \<Rightarrow> core_db \<Rightarrow> write_meta \<Rightarrow> int \<Rightarrow> string option \<Rightarrow> cl_op \<Rightarrow> (core_db \<times> bool) core_result" where
  "clear_inner now db meta i expected_owner cop =
     (case expected_owner of
        Some expected \<Rightarrow>
          if Option.bind (read_before db i) bf_claimant_id \<noteq> Some expected then Inr (db, False)
          else clear_claim now db meta i cop (\<lambda>r. it_id r = i \<and> it_claimant_id r \<noteq> None)
      | None \<Rightarrow> clear_claim now db meta i cop (\<lambda>r. it_id r = i \<and> it_claimant_id r \<noteq> None))"

definition clear :: "string \<Rightarrow> core_db \<Rightarrow> write_meta \<Rightarrow> int \<Rightarrow> (core_db \<times> bool) core_result" where
  "clear now db meta i = clear_inner now db meta i None Op_Release"

definition reclaim ::
  "string \<Rightarrow> core_db \<Rightarrow> write_meta \<Rightarrow> int \<Rightarrow> string \<Rightarrow> (core_db \<times> bool) core_result" where
  "reclaim now db meta i expected_owner = clear_inner now db meta i (Some expected_owner) Op_Reclaim"

definition clear_if ::
  "string \<Rightarrow> core_db \<Rightarrow> write_meta \<Rightarrow> int \<Rightarrow> string \<Rightarrow> (core_db \<times> bool) core_result" where
  "clear_if now db meta i expected_owner =
     (if Option.bind (read_before db i) bf_claimant_id \<noteq> Some expected_owner then Inr (db, False)
      else clear now db meta i)"

definition release ::
  "string \<Rightarrow> core_db \<Rightarrow> write_meta \<Rightarrow> int \<Rightarrow> string \<Rightarrow> (core_db \<times> bool) core_result" where
  "release now db meta i owner =
     clear_claim now db meta i Op_Release (\<lambda>r. it_id r = i \<and> it_claimant_id r = Some owner)"

definition holder :: "core_db \<Rightarrow> int \<Rightarrow> string option" where
  "holder db i = Option.bind (read_before db i) bf_claimant_id"

text \<open>\<open>ORDER BY id\<close> over the rows with a claimant.\<close>

definition claimed :: "core_db \<Rightarrow> claim_info list" where
  "claimed db =
     concat (map (\<lambda>r. case it_claimant_id r of
         None \<Rightarrow> []
       | Some owner \<Rightarrow> [\<lparr>ci_id = it_id r, ci_uid = it_uid r, ci_owner = owner, ci_claimed_at = it_claimed_at r\<rparr>])
       (sort_key it_id (items db)))"

section \<open>Sequences of operations\<close>

datatype claim_cmd =
  C_Claim string write_meta int string
| C_Clear string write_meta int
| C_ClearIf string write_meta int string
| C_Reclaim string write_meta int string
| C_Release string write_meta int string

fun claim_exec :: "core_db \<Rightarrow> claim_cmd \<Rightarrow> (core_db \<times> bool) core_result" where
  "claim_exec db (C_Claim now meta i owner) = claim now db meta i owner"
| "claim_exec db (C_Clear now meta i) = clear now db meta i"
| "claim_exec db (C_ClearIf now meta i owner) = clear_if now db meta i owner"
| "claim_exec db (C_Reclaim now meta i owner) = reclaim now db meta i owner"
| "claim_exec db (C_Release now meta i owner) = release now db meta i owner"

text \<open>A refused operation rolls back.\<close>

definition claim_run :: "core_db \<Rightarrow> claim_cmd \<Rightarrow> core_db" where
  "claim_run db c = (case claim_exec db c of Inl _ \<Rightarrow> db | Inr (db', _) \<Rightarrow> db')"

fun claim_ends :: "core_db \<Rightarrow> claim_cmd \<Rightarrow> int \<Rightarrow> string \<Rightarrow> bool" where
  "claim_ends db (C_Claim now meta i owner) n h \<longleftrightarrow> False"
| "claim_ends db (C_Clear now meta i) n h \<longleftrightarrow> i = n"
| "claim_ends db (C_ClearIf now meta i owner) n h \<longleftrightarrow> i = n \<and> owner = h"
| "claim_ends db (C_Reclaim now meta i owner) n h \<longleftrightarrow> i = n \<and> owner = h"
| "claim_ends db (C_Release now meta i owner) n h \<longleftrightarrow> i = n \<and> owner = h"

section \<open>What a claim does\<close>

lemma holder_find: "holder db i = Option.bind (find_item db i) it_claimant_id"
  by (cases "find_item db i") (simp_all add: holder_def read_before_def)

lemma claim_logs:
  "changelog_append log meta Op_Claim E_Items i
     (Some (JObj [(''claimant_id'', a), (''claimed_at'', b), (''status'', c)])) after =
   Inr (log @ [log_entry meta Op_Claim E_Items i
     (Some (JObj [(''claimant_id'', a), (''claimed_at'', b), (''status'', c)])) after])"
  by (rule changelog_append_columns) (simp_all add: names_columns_def)

lemma clear_logs:
  "x = Op_Release \<or> x = Op_Reclaim \<Longrightarrow>
   changelog_append log meta x E_Items i (Some (JObj [(''claimant_id'', a), (''claimed_at'', b)])) after =
   Inr (log @ [log_entry meta x E_Items i (Some (JObj [(''claimant_id'', a), (''claimed_at'', b)])) after])"
  by (rule changelog_append_columns) (auto simp: names_columns_def)

text \<open>What each operation leaves of an item's row.\<close>

lemma claim_Inr:
  "claim now db meta i owner = Inr (db', ok) \<Longrightarrow>
     (\<not> ok \<longrightarrow> db' = db) \<and>
     find_item db' n = map_option (\<lambda>r. if ok \<and> claimable i owner r
       then r\<lparr>it_claimant_id := Some owner, it_claimed_at := Some now, it_status := Some ''in_progress'',
              it_updated_at := now\<rparr> else r) (find_item db n)"
  by (auto simp: claim_def claim_logs Let_def find_item_update option.map_ident split: option.splits if_splits)

lemma clear_claim_Inr:
  "x = Op_Release \<or> x = Op_Reclaim \<Longrightarrow> clear_claim now db meta i x hit = Inr (db', ok) \<Longrightarrow>
     find_item db' n = map_option (\<lambda>r. if hit r
       then r\<lparr>it_claimant_id := None, it_claimed_at := None, it_updated_at := now\<rparr> else r) (find_item db n)"
  by (auto simp: clear_claim_def clear_logs Let_def find_item_update split: option.splits bool.splits)

lemma clear_claim_total: "x = Op_Release \<or> x = Op_Reclaim \<Longrightarrow> \<exists>db' ok. clear_claim now db meta i x hit = Inr (db', ok)"
  by (auto simp: clear_claim_def clear_logs Let_def split: option.splits bool.splits)

lemma clear_claim_holder:
  assumes "x = Op_Release \<or> x = Op_Reclaim" and "clear_claim now db meta i x hit = Inr (db', ok)"
    and "holder db n = Some h" and "\<And>r. it_id r = n \<Longrightarrow> it_claimant_id r = Some h \<Longrightarrow> \<not> hit r"
  shows "holder db' n = Some h"
proof -
  obtain r where r: "find_item db n = Some r" "it_claimant_id r = Some h"
    using assms(3) by (auto simp: holder_find bind_eq_Some_conv)
  with find_item_Some [OF r(1)] assms(4) have "\<not> hit r" by blast
  with r clear_claim_Inr [OF assms(1,2), of n] show ?thesis by (simp add: holder_find)
qed

interpretation claims: held_until holder claim_run claim_ends
proof
  fix db n h c
  assume held: "holder db n = Some h" and keeps: "\<not> claim_ends db c n h"
  from held obtain r where row: "find_item db n = Some r" "it_claimant_id r = Some h"
    by (auto simp: holder_find bind_eq_Some_conv)
  have cleared: "holder db' n = Some h"
    if "x = Op_Release \<or> x = Op_Reclaim" "clear_claim now db meta i x hit = Inr (db', ok)"
      "\<And>r. it_id r = n \<Longrightarrow> it_claimant_id r = Some h \<Longrightarrow> \<not> hit r"
    for x now meta i hit db' ok
    using clear_claim_holder [OF that(1,2) held that(3)] by simp
  show "holder (claim_run db c) n = Some h"
  proof (cases "claim_exec db c")
    case (Inr res)
    obtain db' ok where r: "res = (db', ok)" by fastforce
    have "holder db' n = Some h"
    proof (cases c)
      case (C_Claim now meta i owner)
      with Inr r have "claim now db meta i owner = Inr (db', ok)" by simp
      from claim_Inr [OF this, of n] row show ?thesis
        by (auto simp: holder_find claimable_def)
    next
      case (C_Clear now meta i)
      with Inr r keeps show ?thesis
        by (auto simp: clear_def clear_inner_def dest!: cleared [rotated])
    next
      case (C_ClearIf now meta i owner)
      with Inr r keeps held show ?thesis
        by (cases "i = n") (auto simp: clear_if_def clear_def clear_inner_def holder_def split: if_splits
            dest!: cleared [rotated])
    next
      case (C_Reclaim now meta i owner)
      with Inr r keeps held show ?thesis
        by (cases "i = n") (auto simp: reclaim_def clear_inner_def holder_def split: if_splits
            dest!: cleared [rotated])
    next
      case (C_Release now meta i owner)
      with Inr r keeps show ?thesis
        by (auto simp: release_def dest!: cleared [rotated])
    qed
    with Inr r show ?thesis by (simp add: claim_run_def)
  qed (simp add: claim_run_def held)
qed

text \<open>A claim on a keyed table: what it answers.\<close>

lemma claim_answer:
  assumes "items_keyed db" and "find_item db i = Some r" and "\<not> is_terminal_str (it_status r)"
  shows "\<exists>db'. claim now db meta i owner = Inr (db', claimable i owner r) \<and>
    length (clog db') = length (clog db) + (if claimable i owner r then 1 else 0)"
proof -
  have "changed_items (claimable i owner) db = (if claimable i owner r then 1 else 0)"
    using assms(1,2) by (subst changed_items_key [where i = i]) (auto simp: claimable_def)
  with assms show ?thesis
    by (auto simp: claim_def read_before_def claim_logs Let_def)
qed

lemma claim_refused:
  "(\<exists>e. claim now db meta i owner = Inl e) \<longleftrightarrow>
     (case find_item db i of None \<Rightarrow> True | Some r \<Rightarrow> is_terminal_str (it_status r))"
  by (auto simp: claim_def read_before_def claim_logs Let_def split: option.splits)


text \<open>A task row, for the concrete examples.\<close>

definition task_item :: "int \<Rightarrow> string option \<Rightarrow> string option \<Rightarrow> item_row" where
  "task_item i st owner =
     \<lparr>it_id = i, it_uid = ''u'', it_kind = ''task'', it_content = None, it_content_hash = None,
      it_mime = None, it_status = st, it_priority = None, it_due = None, it_metadata = ''{}'',
      it_created_at = ''t0'', it_updated_at = ''t0'', it_claimant_id = owner, it_claimed_at = None,
      it_resolution = None, it_content_rev = 0, it_chunked_rev = None\<rparr>"


end
