(* ===== verification/Core_Reviews.thy ===== *)
theory Core_Reviews
  imports Core_Store Core_Text
begin

text \<open>
  A task's review record, \<open>crates/jkb-core/src/reviews.rs\<close>: recording a round and its
  snapshot, waiving the gate, the filings, and what the land gate and the workflow read back. The
  tasks placed under a namespace, which a round that nobody filed snapshots, are what the query
  engine answers (an argument). A \<open>LIMIT 1\<close> without an order answers the first row stored.

  What the record promises is shown in \<open>Reviews_Frozen\<close>.
\<close>

section \<open>State\<close>

record review_state =
  rs_reviewed :: "string option"
  rs_namespaces :: "string list"
  rs_waived :: "string option"
  rs_gate_on_host :: "string option"

definition review_state_default :: review_state where
  "review_state_default = \<lparr>rs_reviewed = None, rs_namespaces = [], rs_waived = None, rs_gate_on_host = None\<rparr>"

definition review_state_is_empty :: "review_state \<Rightarrow> bool" where
  "review_state_is_empty s \<longleftrightarrow>
     rs_reviewed s = None \<and> rs_namespaces s = [] \<and> rs_waived s = None \<and> rs_gate_on_host s = None"

definition reviews_MAX_TEXT :: nat where "reviews_MAX_TEXT = 1024"

definition reviews_check :: "string \<Rightarrow> string \<Rightarrow> unit core_result" where
  "reviews_check what v =
     (if v = [] \<or> length v > reviews_MAX_TEXT
      then Inl (validation (''a '' @ what @ '' of 1 to '' @ nat_str reviews_MAX_TEXT @ '' bytes''))
      else Inr ())"

text \<open>One row of the loop of \<open>state_for\<close>.\<close>

definition state_row :: "review_state \<Rightarrow> review_db_row \<Rightarrow> review_state" where
  "state_row s r =
     (if rv_kind r = ''waived'' then s\<lparr>rs_waived := Some (rv_sha r)\<rparr>
      else if rv_kind r = ''gate_on_host'' then s\<lparr>rs_gate_on_host := Some (rv_sha r)\<rparr>
      else let s' = s\<lparr>rs_reviewed := Some (rv_sha r)\<rparr> in
        case rv_ns r of
          Some ns \<Rightarrow> if ns \<in> set (rs_namespaces s') then s' else s'\<lparr>rs_namespaces := rs_namespaces s' @ [ns]\<rparr>
        | None \<Rightarrow> s')"

definition state_for :: "core_db \<Rightarrow> int list \<Rightarrow> (int \<times> review_state) list" where
  "state_for db tasks =
     map (\<lambda>t. (t, foldl state_row review_state_default (filter (\<lambda>r. rv_item_id r = t) (reviews db))))
       (filter (\<lambda>t. list_ex (\<lambda>r. rv_item_id r = t) (reviews db)) (remdups tasks))"

definition reviews_state :: "core_db \<Rightarrow> int \<Rightarrow> review_state" where
  "reviews_state db task =
     (case map_of (state_for db [task]) task of Some s \<Rightarrow> s | None \<Rightarrow> review_state_default)"

section \<open>Rounds\<close>

record review_round =
  rd_ns :: string
  rd_filed :: int
  rd_must_fix :: nat
  rd_areas :: "string list"

text \<open>The round \<open>ns\<close> names, with the findings its row joins; \<open>ns\<close> is unique.\<close>

definition round_of :: "core_db \<Rightarrow> string \<Rightarrow> review_round option" where
  "round_of db ns =
     (case List.find (\<lambda>r. rr_ns r = ns) (review_rounds db) of
        None \<Rightarrow> None
      | Some r \<Rightarrow>
          let must = filter (\<lambda>f. fd_round_id f = rr_id r \<and> fd_must_fix f) (round_findings db)
          in Some \<lparr>rd_ns = ns, rd_filed = rr_id r, rd_must_fix = length must,
                   rd_areas = btree_strings (List.map_filter fd_area must)\<rparr>)"

definition rounds_in :: "core_db \<Rightarrow> string list \<Rightarrow> review_round list" where
  "rounds_in db namespaces = sort_key rd_filed (List.map_filter (round_of db) namespaces)"

definition must_fix_findings :: "core_db \<Rightarrow> string list \<Rightarrow> int list" where
  "must_fix_findings db namespaces =
     remdups (sort (concat (map (\<lambda>ns.
       concat (map (\<lambda>r. map fd_item_id (filter (\<lambda>f. fd_round_id f = rr_id r \<and> fd_must_fix f) (round_findings db)))
         (filter (\<lambda>r. rr_ns r = ns) (review_rounds db)))) namespaces)))"

definition is_finding_of :: "core_db \<Rightarrow> int \<Rightarrow> int \<Rightarrow> bool" where
  "is_finding_of db task target \<longleftrightarrow>
     list_ex (\<lambda>v. rv_item_id v = task \<and> rv_kind v = ''recorded'' \<and>
       list_ex (\<lambda>r. rv_ns v = Some (rr_ns r) \<and>
         list_ex (\<lambda>f. fd_round_id f = rr_id r \<and> fd_item_id f = target) (round_findings db))
         (review_rounds db)) (reviews db)"

section \<open>Names across the mirror\<close>

text \<open>\<open>tasks_mirror_ns\<close> and \<open>mirror_forms\<close> of \<open>crates/jkb-core/src/task.rs\<close>.\<close>

definition DEFAULT_ROOT :: string where "DEFAULT_ROOT = ''tasks''"

definition tasks_mirror_ns :: "string \<Rightarrow> string option" where
  "tasks_mirror_ns home =
     (if home = DEFAULT_ROOT \<or> prefix (DEFAULT_ROOT @ ''/'') home then None
      else Some (DEFAULT_ROOT @ ''/'' @
        (case strip_prefix_str ''repos/'' home of Some rest \<Rightarrow> rest | None \<Rightarrow> home)))"

definition mirror_forms :: "string \<Rightarrow> string list" where
  "mirror_forms ns =
     (let mirror = (case tasks_mirror_ns ns of Some m \<Rightarrow> m | None \<Rightarrow> ns);
          homes = (case strip_prefix_str (DEFAULT_ROOT @ ''/'') mirror of
            None \<Rightarrow> []
          | Some rest \<Rightarrow> filter (\<lambda>home. tasks_mirror_ns home = Some mirror) [''repos/'' @ rest, rest])
      in remdups (sort ([ns, mirror] @ homes)))"

text \<open>\<open>ns\<close> or a namespace under it.\<close>

definition in_ns :: "string \<Rightarrow> string \<Rightarrow> bool" where
  "in_ns outer inner \<longleftrightarrow> outer = inner \<or> prefix (outer @ ''/'') inner"

fun first_some :: "('a \<Rightarrow> 'b option) \<Rightarrow> 'a list \<Rightarrow> 'b option" where
  "first_some f [] = None"
| "first_some f (x # xs) = (case f x of Some y \<Rightarrow> Some y | None \<Rightarrow> first_some f xs)"

definition round_overlapping :: "core_db \<Rightarrow> string \<Rightarrow> string option" where
  "round_overlapping db ns =
     first_some (\<lambda>candidate.
       List.find (\<lambda>r. in_ns r candidate \<or> prefix (candidate @ ''/'') r) (map rr_ns (review_rounds db)))
       (mirror_forms ns)"

definition review_namespace_containing :: "core_db \<Rightarrow> string \<Rightarrow> string option" where
  "review_namespace_containing db ns =
     (case first_some (\<lambda>candidate. List.find (\<lambda>r. in_ns r candidate)
              (map rr_ns (review_rounds db) @ map fl_ns (review_filings db))) (mirror_forms ns) of
        Some known \<Rightarrow> Some known
      | None \<Rightarrow>
          first_some (\<lambda>form.
            case take 4 (split_on (CHR ''/'') form) of
              [root, repo, kind, folder] \<Rightarrow>
                if (root = ''repos'' \<or> root = ''tasks'') \<and> kind = ''codereviews'' \<and> repo \<noteq> [] \<and> folder \<noteq> []
                then Some (join ''/'' [root, repo, kind, folder]) else None
            | _ \<Rightarrow> None) (mirror_forms ns))"

section \<open>Recording\<close>

definition first_nonblank :: "string \<Rightarrow> string" where
  "first_nonblank content =
     str_trim (case List.find (\<lambda>l. str_trim l \<noteq> []) (str_lines content) of Some l \<Rightarrow> l | None \<Rightarrow> [])"

definition title_from :: "string \<Rightarrow> string option \<Rightarrow> string" where
  "title_from uid content =
     (case map_option first_nonblank content of
        Some line \<Rightarrow> if line \<noteq> [] then line else uid
      | None \<Rightarrow> uid)"

definition FACET_AREA :: string where "FACET_AREA = ''area''"

text \<open>\<open>tag::applications_for\<close>: the item's facets and values, in their order.\<close>

definition applications_of :: "core_db \<Rightarrow> int \<Rightarrow> (string \<times> string) list" where
  "applications_of db i =
     (let mine = map snd (filter (\<lambda>(j, _). j = i) (tag_applications db))
      in concat (map (\<lambda>f. map (\<lambda>v. (f, v)) (sort (map snd (filter (\<lambda>(g, _). g = f) mine))))
           (btree_strings (map fst mine))))"

definition area_of :: "item_row \<Rightarrow> (string \<times> string) list \<Rightarrow> string option" where
  "area_of r tags =
     (case List.find (\<lambda>(f, _). f = FACET_AREA) tags of
        Some (_, v) \<Rightarrow> Some v
      | None \<Rightarrow>
          (case rsplit_once ('' '' @ emdash @ '' '') (title_from (it_uid r) (it_content r)) of
             None \<Rightarrow> None
           | Some (_, rest) \<Rightarrow>
               let file = (case rsplit_once '':'' rest of
                   Some (f, line) \<Rightarrow> if list_all is_digit line \<and> line \<noteq> [] then f else rest
                 | None \<Rightarrow> rest)
               in if file \<noteq> [] \<and> CHR '' '' \<notin> set file then Some file else None))"

datatype round_source = RS_Filed string | RS_AnyNamespace

definition finding_rows :: "core_db \<Rightarrow> int \<Rightarrow> int list \<Rightarrow> finding_row list" where
  "finding_rows db round_id ids =
     List.map_filter (\<lambda>i.
       map_option (\<lambda>m. \<lparr>fd_round_id = round_id, fd_item_id = i,
           fd_must_fix = (case it_priority m of Some p \<Rightarrow> p \<le> 1 | None \<Rightarrow> False),
           fd_area = area_of m (applications_of db i)\<rparr>)
         (find_item db i)) ids"

text \<open>The part of \<open>snapshot_round\<close> after the caller's own filings are checked.\<close>

definition snapshot_new ::
  "(core_db \<Rightarrow> string \<Rightarrow> int list) \<Rightarrow> string \<Rightarrow> core_db \<Rightarrow> string \<Rightarrow> string \<Rightarrow> int option \<Rightarrow> int list
     \<Rightarrow> (core_db \<times> int) core_result" where
  "snapshot_new tasks_under now db ns actor existing filed =
     (case existing of
        Some i \<Rightarrow> Inr (db, i)
      | None \<Rightarrow>
          (case round_overlapping db ns of
             Some round \<Rightarrow> Inl (validation (''`'' @ ns @ ''` is, or lies in or around, the round already recorded as `'' @
               round @ ''` '' @ emdash @ '' record `'' @ round @
               ''` itself; a finding that matters after a round is recorded is another round''))
           | None \<Rightarrow>
               let ids = (if filed = [] then tasks_under db ns else filed);
                   i = rounds_seq db + 1
               in Inr (db\<lparr>review_rounds := review_rounds db @
                             [\<lparr>rr_id = i, rr_ns = ns, rr_actor = actor, rr_recorded_at = now\<rparr>],
                           rounds_seq := i,
                           round_findings := round_findings db @ finding_rows db i ids\<rparr>, i)))"

definition snapshot_round ::
  "(core_db \<Rightarrow> string \<Rightarrow> int list) \<Rightarrow> string \<Rightarrow> core_db \<Rightarrow> string \<Rightarrow> string \<Rightarrow> round_source
     \<Rightarrow> (core_db \<times> int) core_result" where
  "snapshot_round tasks_under now db ns actor source =
     (let existing = map_option rr_id (List.find (\<lambda>r. rr_ns r = ns) (review_rounds db));
          filings = sort_key fl_item_id (filter (\<lambda>f. fl_ns f = ns) (review_filings db))
      in case source of
           RS_Filed by \<Rightarrow>
             if filings = [] \<or> list_ex (\<lambda>f. fl_filed_by f \<noteq> by) filings
             then Inl (validation (''`'' @ ns @ ''` is not a namespace this caller filed with `jkb task review file` '' @
               emdash @ '' only the operator records a review someone else filed, or whose findings reached the KB another way (a mounted `/review-log` folder), because the round a task records decides which tasks its workers may write. Record it on the host: `jkb task review record --branch <branch> --findings '' @ ns @ ''`''))
             else snapshot_new tasks_under now db ns actor existing (map fl_item_id filings)
         | RS_AnyNamespace \<Rightarrow> snapshot_new tasks_under now db ns actor existing (map fl_item_id filings))"

definition reviews_insert ::
  "string \<Rightarrow> core_db \<Rightarrow> write_meta \<Rightarrow> int \<Rightarrow> string \<Rightarrow> string option \<Rightarrow> string \<Rightarrow> string \<Rightarrow> core_db" where
  "reviews_insert now db meta task kind ns sha actor =
     db\<lparr>reviews := reviews db @ [\<lparr>rv_id = reviews_seq db + 1, rv_item_id = task, rv_kind = kind, rv_ns = ns,
          rv_sha = sha, rv_actor = actor, rv_txn_id = wm_txn_id meta, rv_at = now\<rparr>],
        reviews_seq := reviews_seq db + 1\<rparr>"

definition reviews_record ::
  "(core_db \<Rightarrow> string \<Rightarrow> int list) \<Rightarrow> string \<Rightarrow> core_db \<Rightarrow> write_meta \<Rightarrow> int \<Rightarrow> string \<Rightarrow> string \<Rightarrow> string
     \<Rightarrow> round_source \<Rightarrow> core_db core_result" where
  "reviews_record tasks_under now db meta task ns sha actor source =
     result_bind (reviews_check ''findings namespace'' ns) (\<lambda>_.
     result_bind (reviews_check ''sha'' sha) (\<lambda>_.
     result_bind (snapshot_round tasks_under now db ns actor source) (\<lambda>(db', _).
       if list_ex (\<lambda>r. rv_item_id r = task \<and> rv_kind r = ''recorded'' \<and> rv_ns r = Some ns \<and> rv_sha r = sha) (reviews db')
       then Inr db'
       else Inr (reviews_insert now db' meta task ''recorded'' (Some ns) sha actor))))"

definition reviews_waive ::
  "string \<Rightarrow> core_db \<Rightarrow> write_meta \<Rightarrow> int \<Rightarrow> string \<Rightarrow> string \<Rightarrow> core_db core_result" where
  "reviews_waive now db meta task sha actor =
     result_bind (reviews_check ''sha'' sha) (\<lambda>_.
       Inr (reviews_insert now db meta task ''waived'' None sha actor))"

definition reviews_gate_on_host ::
  "string \<Rightarrow> core_db \<Rightarrow> write_meta \<Rightarrow> int \<Rightarrow> string \<Rightarrow> string \<Rightarrow> core_db core_result" where
  "reviews_gate_on_host now db meta task sha actor =
     result_bind (reviews_check ''sha'' sha) (\<lambda>_.
       Inr (reviews_insert now db meta task ''gate_on_host'' None sha actor))"

text \<open>\<open>INSERT OR IGNORE\<close> on the key of namespace and item.\<close>

definition record_filing :: "core_db \<Rightarrow> string \<Rightarrow> int list \<Rightarrow> string \<Rightarrow> core_db core_result" where
  "record_filing db ns ids filed_by =
     result_bind (reviews_check ''findings namespace'' ns) (\<lambda>_.
       Inr (foldl (\<lambda>d i.
         if list_ex (\<lambda>f. fl_ns f = ns \<and> fl_item_id f = i) (review_filings d) then d
         else d\<lparr>review_filings := review_filings d @ [\<lparr>fl_ns = ns, fl_item_id = i, fl_filed_by = filed_by\<rparr>]\<rparr>)
         db ids))"

end
