(* ===== verification/Task_History.thy ===== *)
theory Task_History
  imports Core_Store Task_Lifecycle
begin

text \<open>
  The history of a task, the reading and appending half of \<open>crates/jkb-core/src/transition.rs\<close>:
  the rows of \<open>task_transitions\<close> with their labels and evidence, and the questions asked of
  them about where the work went. The table is append-only. Its \<open>item_id\<close> references \<open>items\<close>,
  so a row for an item that does not exist is refused by the database.

  The lemmas show what the answers mean: a landing is live exactly when nothing put the task
  back to work after it, and a live and a superseded landing are complements.
\<close>

section \<open>Rows\<close>

record transition_row =
  tr_id :: int
  tr_txn_id :: string
  tr_at :: string
  tr_event :: string
  tr_from_status :: "string option"
  tr_to_status :: string
  tr_agent_id :: "agent_id option"
  tr_labels :: labels
  tr_evidence :: "json option"

definition NO_PULL_REQUEST :: string where "NO_PULL_REQUEST = ''no_pull_request''"

definition evidence_fields :: "bool \<Rightarrow> task_facts \<Rightarrow> (string \<times> json) list" where
  "evidence_fields refused f =
     [(''claimant'', json_opt (map_option agent_as_str (claimant f))),
      (''file_backed'', JStr (fact_as_str (file_backed f))),
      (''has_commits'', JStr (fact_as_str (has_commits f))),
      (''landed_elsewhere'', JStr (fact_as_str (landed_elsewhere f))),
      (''open_subtasks'', JStr (fact_as_str (open_subtasks f))),
      (''owner_alive'', JStr (fact_as_str (owner_alive f)))] @
     (if refused then [(''refused'', JBool True)] else []) @
     [(''review_clean'', JStr (fact_as_str (review_clean f))),
      (''review_waived'', JStr (fact_as_str (review_waived f))),
      (''reviewed'', JStr (fact_as_str (reviewed f))),
      (''session_exists'', JStr (fact_as_str (session_exists f))),
      (''target_ready'', JStr (fact_as_str (target_ready f))),
      (''work_dirty'', JStr (fact_as_str (work_dirty f)))]"

definition evidence_value :: "task_facts \<Rightarrow> json" where
  "evidence_value f = JObj (evidence_fields False f)"

definition refused_evidence :: "task_facts \<Rightarrow> json" where
  "refused_evidence f = JObj (evidence_fields True f)"

text \<open>\<open>INSERT INTO task_transitions\<close>, with its foreign key.\<close>

definition insert_transition ::
  "core_db \<Rightarrow> write_meta \<Rightarrow> string \<Rightarrow> int \<Rightarrow> string \<Rightarrow> string option \<Rightarrow> string \<Rightarrow> string option \<Rightarrow> labels
     \<Rightarrow> json option \<Rightarrow> core_db core_result" where
  "insert_transition db meta now task event from to ag lbs evid =
     (if find_item db task = None then Inl (Sqlite ''FOREIGN KEY constraint failed'')
      else Inr (db\<lparr>task_transitions := task_transitions db @
             [\<lparr>tt_id = transitions_seq db + 1, tt_txn_id = int_str (wm_txn_id meta), tt_item_id = task, tt_at = now,
               tt_event = event, tt_from_status = from, tt_to_status = to, tt_agent_id = ag,
               tt_labels = lbs, tt_evidence = evid\<rparr>],
           transitions_seq := transitions_seq db + 1\<rparr>))"

definition record_transition ::
  "string \<Rightarrow> core_db \<Rightarrow> write_meta \<Rightarrow> int \<Rightarrow> task_event \<Rightarrow> task_status option \<Rightarrow> task_status \<Rightarrow> task_facts \<Rightarrow> labels
     \<Rightarrow> core_db core_result" where
  "record_transition now db meta task event from to f lbs =
     insert_transition db meta now task (task_event_name event) (map_option task_status_as_str from)
       (task_status_as_str to) (map_option agent_as_str (actor f)) lbs (Some (evidence_value f))"

definition append_transition ::
  "string \<Rightarrow> core_db \<Rightarrow> write_meta \<Rightarrow> int \<Rightarrow> task_facts \<Rightarrow> string \<Rightarrow> labels \<Rightarrow> bool \<Rightarrow> core_db core_result" where
  "append_transition now db meta task f event lbs refused =
     insert_transition db meta now task event (Some (task_status_as_str (status f)))
       (task_status_as_str (status f)) (map_option agent_as_str (actor f)) lbs
       (Some (if refused then refused_evidence f else evidence_value f))"

definition record_undo ::
  "string \<Rightarrow> core_db \<Rightarrow> write_meta \<Rightarrow> int \<Rightarrow> string \<Rightarrow> string \<Rightarrow> core_db core_result" where
  "record_undo now db meta task from to =
     insert_transition db meta now task ''undo'' (Some from) to None labels_default None"

definition no_pull_request ::
  "string \<Rightarrow> core_db \<Rightarrow> write_meta \<Rightarrow> int \<Rightarrow> task_facts \<Rightarrow> string \<Rightarrow> string option \<Rightarrow> core_db core_result" where
  "no_pull_request now db meta task f branch remote_head =
     append_transition now db meta task f NO_PULL_REQUEST
       (labels_default\<lparr>lb_branch := Some branch, lb_ref_commit := remote_head\<rparr>) False"

definition note_transition ::
  "string \<Rightarrow> core_db \<Rightarrow> write_meta \<Rightarrow> int \<Rightarrow> task_facts \<Rightarrow> labels \<Rightarrow> core_db core_result" where
  "note_transition now db meta task f lbs = append_transition now db meta task f ''note'' lbs False"

type_synonym task_outcome = "(task_status, task_event, task_effect) outcome"

definition observed ::
  "string \<Rightarrow> core_db \<Rightarrow> write_meta \<Rightarrow> int \<Rightarrow> task_facts \<Rightarrow> task_outcome \<Rightarrow> labels \<Rightarrow> (core_db \<times> bool) core_result" where
  "observed now db meta task f out lbs =
     (case out of
        Refused _ event _ \<Rightarrow>
          result_bind (append_transition now db meta task f (task_event_name event) lbs True) (\<lambda>db'. Inr (db', True))
      | _ \<Rightarrow> Inr (db, False))"

section \<open>Questions\<close>

definition read_transition :: "transition_db_row \<Rightarrow> transition_row" where
  "read_transition r =
     \<lparr>tr_id = tt_id r, tr_txn_id = tt_txn_id r, tr_at = tt_at r, tr_event = tt_event r,
      tr_from_status = tt_from_status r, tr_to_status = tt_to_status r,
      tr_agent_id = map_option agent_parse (tt_agent_id r), tr_labels = tt_labels r,
      tr_evidence = tt_evidence r\<rparr>"

definition history :: "core_db \<Rightarrow> int \<Rightarrow> transition_row list" where
  "history db task =
     map read_transition (sort_key tt_id (filter (\<lambda>r. tt_item_id r = task) (task_transitions db)))"

definition latest_with_branch :: "core_db \<Rightarrow> int \<Rightarrow> transition_row option" where
  "latest_with_branch db task =
     List.find (\<lambda>r. lb_branch (tr_labels r) \<noteq> None \<and> tr_event r \<noteq> NO_PULL_REQUEST) (rev (history db task))"

fun land_target_rows :: "transition_row list \<Rightarrow> string option" where
  "land_target_rows [] = None"
| "land_target_rows (r # rows) =
     (if tr_event r = task_event_name Abandon then None
      else case lb_onto (tr_labels r) of Some onto \<Rightarrow> Some onto | None \<Rightarrow> land_target_rows rows)"

definition land_target :: "core_db \<Rightarrow> int \<Rightarrow> string option" where
  "land_target db task = land_target_rows (rev (history db task))"

definition put_back :: "transition_row \<Rightarrow> bool" where
  "put_back r \<longleftrightarrow> moved_backwards (tr_from_status r) (Some (tr_to_status r))"

definition resumption :: "transition_row list \<Rightarrow> transition_row option" where
  "resumption rows = List.find put_back (rev rows)"

definition resumed :: "core_db \<Rightarrow> int \<Rightarrow> transition_row option" where
  "resumed db task = resumption (history db task)"

text \<open>A \<open>land\<close> or \<open>observed_landed\<close> with a destination.\<close>

definition is_graft :: "transition_row \<Rightarrow> bool" where
  "is_graft r \<longleftrightarrow>
     tr_event r \<in> {task_event_name Land, task_event_name ObservedLanded} \<and> lb_onto (tr_labels r) \<noteq> None"

definition is_merged :: "transition_row \<Rightarrow> bool" where
  "is_merged r \<longleftrightarrow>
     tr_event r = task_event_name ObservedLanded \<and> tr_to_status r = task_status_as_str Done \<and>
     lb_pr_number (tr_labels r) \<noteq> None"

text \<open>\<open>max_by_key(|r| r.id)\<close>: of equal keys the last.\<close>

definition newest_row :: "transition_row list \<Rightarrow> transition_row option" where
  "newest_row rows =
     fold (\<lambda>r best. case best of Some b \<Rightarrow> if tr_id b \<le> tr_id r then Some r else Some b | None \<Rightarrow> Some r) rows None"

definition option_list :: "'a option \<Rightarrow> 'a list" where
  "option_list x = (case x of Some y \<Rightarrow> [y] | None \<Rightarrow> [])"

definition current_landing :: "core_db \<Rightarrow> int \<Rightarrow> transition_row option" where
  "current_landing db task =
     (let rows = history db task;
          graft = List.find is_graft (rev rows);
          merged = List.find is_merged (rev rows);
          back = map_option tr_id (resumption rows)
      in newest_row (filter (\<lambda>r. case back of None \<Rightarrow> True | Some b \<Rightarrow> tr_id r > b)
           (option_list graft @ option_list merged)))"

record landing =
  ld_recorded :: "transition_row option"
  ld_resumed :: "transition_row option"
  ld_pr_number :: "int option"
  ld_pr_absent :: "transition_row option"

definition landing_live :: "landing \<Rightarrow> transition_row option" where
  "landing_live l =
     (case (ld_recorded l, ld_resumed l) of
        (Some landed, Some back) \<Rightarrow> if tr_id back > tr_id landed then None else Some landed
      | (landed, _) \<Rightarrow> landed)"

definition landing_superseded :: "landing \<Rightarrow> (transition_row \<times> transition_row) option" where
  "landing_superseded l =
     (case (ld_recorded l, ld_resumed l) of
        (Some landed, Some back) \<Rightarrow> if tr_id back > tr_id landed then Some (landed, back) else None
      | _ \<Rightarrow> None)"

definition landing_resumed_at :: "landing \<Rightarrow> string option" where
  "landing_resumed_at l = map_option tr_at (ld_resumed l)"

fun find_pr_number :: "transition_row list \<Rightarrow> int option" where
  "find_pr_number [] = None"
| "find_pr_number (r # rows) =
     (case lb_pr_number (tr_labels r) of Some n \<Rightarrow> Some n | None \<Rightarrow> find_pr_number rows)"

definition landing_of :: "core_db \<Rightarrow> int \<Rightarrow> landing" where
  "landing_of db task =
     (let rows = history db task
      in \<lparr>ld_recorded = List.find is_graft (rev rows), ld_resumed = resumption rows,
          ld_pr_number = find_pr_number (rev rows),
          ld_pr_absent = List.find (\<lambda>r. tr_event r = NO_PULL_REQUEST) (rev rows)\<rparr>)"

section \<open>The history grows at its end\<close>

definition transitions_ok :: "core_db \<Rightarrow> bool" where
  "transitions_ok db \<longleftrightarrow>
     sorted_wrt (<) (map tt_id (task_transitions db)) \<and> (\<forall>r \<in> set (task_transitions db). tt_id r \<le> transitions_seq db)"

lemma sorted_sort_key: "sorted_wrt (<) (map k xs) \<Longrightarrow> sort_key k xs = xs" for k :: "'a \<Rightarrow> int"
  by (rule sort_key_id_if_sorted) (simp add: sorted_wrt_map sorted_wrt_mono_rel [of xs "\<lambda>x y. k x < k y"])

lemma sorted_wrt_filter: "sorted_wrt P xs \<Longrightarrow> sorted_wrt P (filter Q xs)"
  by (induction xs) auto

lemma history_unsorted:
  assumes "transitions_ok db"
  shows "history db task = map read_transition (filter (\<lambda>r. tt_item_id r = task) (task_transitions db))"
  using assms by (simp add: history_def transitions_ok_def sorted_sort_key sorted_wrt_filter sorted_wrt_map)

lemma history_ascending: "transitions_ok db \<Longrightarrow> sorted_wrt (\<lambda>a b. tr_id a < tr_id b) (history db task)"
  by (simp add: history_unsorted transitions_ok_def sorted_wrt_map sorted_wrt_filter read_transition_def)

lemma insert_transition_history:
  assumes "transitions_ok db" and "insert_transition db meta now task event from to ag lbs evid = Inr db'"
  shows "transitions_ok db'"
    and "history db' task = history db task @
      [\<lparr>tr_id = transitions_seq db + 1, tr_txn_id = int_str (wm_txn_id meta), tr_at = now, tr_event = event,
        tr_from_status = from, tr_to_status = to, tr_agent_id = map_option agent_parse ag,
        tr_labels = lbs, tr_evidence = evid\<rparr>]"
    and "other \<noteq> task \<Longrightarrow> history db' other = history db other"
proof -
  from assms(2) have db': "db' = db\<lparr>task_transitions := task_transitions db @
             [\<lparr>tt_id = transitions_seq db + 1, tt_txn_id = int_str (wm_txn_id meta), tt_item_id = task, tt_at = now,
               tt_event = event, tt_from_status = from, tt_to_status = to, tt_agent_id = ag,
               tt_labels = lbs, tt_evidence = evid\<rparr>],
           transitions_seq := transitions_seq db + 1\<rparr>"
    by (simp add: insert_transition_def split: if_splits)
  show ok: "transitions_ok db'"
    using assms(1) by (fastforce simp: db' transitions_ok_def sorted_wrt_append)
  show "history db' task = history db task @
      [\<lparr>tr_id = transitions_seq db + 1, tr_txn_id = int_str (wm_txn_id meta), tr_at = now, tr_event = event,
        tr_from_status = from, tr_to_status = to, tr_agent_id = map_option agent_parse ag,
        tr_labels = lbs, tr_evidence = evid\<rparr>]"
    and "other \<noteq> task \<Longrightarrow> history db' other = history db other"
    using assms(1) ok by (simp_all add: history_unsorted) (simp_all add: db' read_transition_def)
qed

section \<open>What a landing means\<close>

lemma find_rev: "List.find P (rev xs) = Some x \<longleftrightarrow> (\<exists>pre post. xs = pre @ x # post \<and> P x \<and> (\<forall>y \<in> set post. \<not> P y))"
proof (induction xs rule: rev_induct)
  case (snoc a xs)
  show ?case
  proof (cases "P a")
    case True
    have "pre @ x # post = xs @ [a] \<Longrightarrow> \<forall>y \<in> set post. \<not> P y \<Longrightarrow> x = a" for pre post
      using True by (cases post rule: rev_cases) auto
    moreover have "\<exists>pre post. pre @ a # post = xs @ [a] \<and> (\<forall>y \<in> set post. \<not> P y)"
      by (rule exI [of _ xs], rule exI [of _ "[]"]) simp
    ultimately show ?thesis using True by (auto simp: eq_commute [of "xs @ [a]"])
  next
    case False
    have "(\<exists>pre post. xs @ [a] = pre @ x # post \<and> P x \<and> (\<forall>y \<in> set post. \<not> P y)) \<longleftrightarrow>
        (\<exists>pre post. xs = pre @ x # post \<and> P x \<and> (\<forall>y \<in> set post. \<not> P y))" (is "?L \<longleftrightarrow> ?R")
    proof
      assume ?L
      then obtain pre post where l: "xs @ [a] = pre @ x # post" "P x" "\<forall>y \<in> set post. \<not> P y" by blast
      with False obtain post' where "post = post' @ [a]"
        by (cases post rule: rev_cases) auto
      with l show ?R by auto
    next
      assume ?R
      then obtain pre post where "xs = pre @ x # post" "P x" "\<forall>y \<in> set post. \<not> P y" by blast
      with False have "xs @ [a] = pre @ x # (post @ [a])" "P x" "\<forall>y \<in> set (post @ [a]). \<not> P y" by auto
      then show ?L by blast
    qed
    with False snoc show ?thesis by simp
  qed
qed simp

lemma find_rev_None: "List.find P (rev xs) = None \<longleftrightarrow> (\<forall>y \<in> set xs. \<not> P y)"
  by (simp add: find_None_iff2)

text \<open>In an ascending history the newest row with a property is after a row exactly when one is.\<close>

lemma newest_after:
  assumes asc: "sorted_wrt (\<lambda>a b. tr_id a < tr_id b) (pre @ a # post)"
    and b: "List.find P (rev (pre @ a # post)) = Some b"
  shows "tr_id b > tr_id a \<longleftrightarrow> b \<in> set post" and "b \<in> set post \<longleftrightarrow> (\<exists>y \<in> set post. P y)"
proof -
  obtain pre' post' where s: "pre @ a # post = pre' @ b # post'" "P b" "\<forall>y \<in> set post'. \<not> P y"
    using b unfolding find_rev by blast
  then have "b \<in> set (pre @ a # post)" by simp
  with asc show after: "tr_id b > tr_id a \<longleftrightarrow> b \<in> set post"
    by (auto simp: sorted_wrt_append dest: order.strict_trans)
  have "tr_id b > tr_id a" if "y \<in> set post" "P y" for y
  proof -
    from that s have "y \<in> set (pre' @ [b])" by (metis Un_iff append.assoc append_Cons append_Nil list.set_intros(2) set_append)
    moreover have "sorted_wrt (\<lambda>a b. tr_id a < tr_id b) (pre' @ b # post')" using asc s(1) by simp
    ultimately have "tr_id y \<le> tr_id b" by (auto simp: sorted_wrt_append)
    moreover have "tr_id a < tr_id y" using asc that(1) by (simp add: sorted_wrt_append)
    ultimately show ?thesis by simp
  qed
  with s(2) after show "b \<in> set post \<longleftrightarrow> (\<exists>y \<in> set post. P y)" by blast
qed

lemma split_graft_unique:
  assumes "pre @ a # post = pre' @ a' # post'" and "P a" and "P a'"
    and "\<forall>y \<in> set post. \<not> P y" and "\<forall>y \<in> set post'. \<not> P y"
  shows "a = a' \<and> post = post'"
proof -
  have "List.find P (rev (pre @ a # post)) = Some a" "List.find P (rev (pre @ a # post)) = Some a'"
    unfolding find_rev using assms by (metis, metis)
  then have "a = a'" by simp
  moreover have tail: "takeWhile (\<lambda>y. \<not> P y) (rev (p @ x # q)) = rev q" if "P x" "\<forall>y \<in> set q. \<not> P y" for p x q
    using that by (auto simp: takeWhile_append)
  have "rev post = rev post'"
    using tail [OF assms(2,4), of pre] tail [OF assms(3,5), of pre'] assms(1) by simp
  ultimately show ?thesis by simp
qed

text \<open>
  A landing speaks for the work exactly as long as nothing put the task back to work. The
  live landing of a task is its newest graft (a landing with a destination), provided no later
  row moved the task backwards; the superseded landing is the newest graft together with the
  newest row that did. A recorded landing is always the one or the other, never both.
\<close>

theorem landing_meaning:
  assumes "transitions_ok db"
  shows "(landing_live (landing_of db t) = Some r \<longleftrightarrow>
      (\<exists>pre post. history db t = pre @ r # post \<and> is_graft r \<and> (\<forall>x \<in> set post. \<not> is_graft x \<and> \<not> put_back x))) \<and>
    (landing_superseded (landing_of db t) = Some (a, b) \<longleftrightarrow>
      (\<exists>pre post. history db t = pre @ a # post \<and> is_graft a \<and> (\<forall>x \<in> set post. \<not> is_graft x) \<and>
         b \<in> set post \<and> resumed db t = Some b)) \<and>
    (ld_recorded (landing_of db t) \<noteq> None \<longleftrightarrow>
      (landing_live (landing_of db t) = None) \<noteq> (landing_superseded (landing_of db t) = None))"
proof (cases "List.find is_graft (rev (history db t))")
  case None
  then have "\<not> is_graft x" if "x \<in> set (history db t)" for x
    using that unfolding find_rev_None by blast
  then have "history db t \<noteq> pre @ x # post" if "is_graft x" for pre x post
    using that by (metis in_set_conv_decomp)
  with None show ?thesis
    by (auto simp: landing_of_def landing_live_def landing_superseded_def Let_def)
next
  case (Some g)
  then obtain pre post where h: "history db t = pre @ g # post" "is_graft g" "\<forall>y \<in> set post. \<not> is_graft y"
    unfolding find_rev by blast
  have uniq: "r' = g \<and> post' = post"
    if "history db t = pre' @ r' # post'" "is_graft r'" "\<forall>y \<in> set post'. \<not> is_graft y" for pre' r' post'
    using split_graft_unique [of pre' r' post' pre g post is_graft] that h by simp
  have asc: "sorted_wrt (\<lambda>a b. tr_id a < tr_id b) (pre @ g # post)"
    using history_ascending [OF assms, of t] h(1) by simp
  note cond = newest_after [OF asc, where P = put_back]
  have behind: "case resumption (history db t) of Some b \<Rightarrow>
       (tr_id b > tr_id g \<longleftrightarrow> b \<in> set post) \<and> (b \<in> set post \<longleftrightarrow> (\<exists>y \<in> set post. put_back y))
     | None \<Rightarrow> \<forall>y \<in> set post. \<not> put_back y"
    using cond unfolding resumption_def h(1) by (auto simp: find_None_iff2 split: option.split)
  have live: "landing_live (landing_of db t) = (if \<exists>y \<in> set post. put_back y then None else Some g)"
    using behind Some by (auto simp: landing_of_def landing_live_def Let_def split: option.splits)
  have sup: "landing_superseded (landing_of db t) =
      (if \<exists>y \<in> set post. put_back y then map_option (Pair g) (resumed db t) else None)"
    using behind Some by (auto simp: landing_of_def landing_superseded_def resumed_def Let_def split: option.splits)
  have isb: "\<exists>b. resumed db t = Some b \<and> b \<in> set post" if "\<exists>y \<in> set post. put_back y"
    using behind that by (auto simp: resumed_def split: option.splits)
  have "landing_live (landing_of db t) = Some r \<longleftrightarrow>
      (\<exists>pre post. history db t = pre @ r # post \<and> is_graft r \<and> (\<forall>x \<in> set post. \<not> is_graft x \<and> \<not> put_back x))"
    unfolding live using h uniq by (metis option.inject option.distinct(1))
  moreover have "landing_superseded (landing_of db t) = Some (a, b) \<longleftrightarrow>
      (\<exists>pre post. history db t = pre @ a # post \<and> is_graft a \<and> (\<forall>x \<in> set post. \<not> is_graft x) \<and>
         b \<in> set post \<and> resumed db t = Some b)" (is "?L \<longleftrightarrow> ?R")
  proof
    assume ?L
    with sup isb have "a = g" "b \<in> set post" "resumed db t = Some b" by (auto split: if_splits)
    with h show ?R by blast
  next
    assume ?R
    with uniq have "a = g" "b \<in> set post" "resumed db t = Some b" by blast+
    moreover have "put_back b"
      using \<open>resumed db t = Some b\<close> by (auto simp: resumed_def resumption_def dest: find_SomeD)
    ultimately show ?L unfolding sup by auto
  qed
  moreover have "ld_recorded (landing_of db t) = Some g" using Some by (simp add: landing_of_def Let_def)
  moreover have "(landing_live (landing_of db t) = None) \<noteq> (landing_superseded (landing_of db t) = None)"
    unfolding live sup using isb by auto
  ultimately show ?thesis by simp
qed

text \<open>A row of the history, for the concrete examples.\<close>

definition moved_row :: "int \<Rightarrow> int \<Rightarrow> string \<Rightarrow> string \<Rightarrow> string \<Rightarrow> string option \<Rightarrow> transition_db_row" where
  "moved_row i task event from to onto =
     \<lparr>tt_id = i, tt_txn_id = ''1'', tt_item_id = task, tt_at = ''t'', tt_event = event, tt_from_status = Some from,
      tt_to_status = to, tt_agent_id = None, tt_labels = labels_default\<lparr>lb_onto := onto\<rparr>, tt_evidence = None\<rparr>"

theorem landing_meaning_witness:
  "\<exists>db r b. transitions_ok db \<and> ld_recorded (landing_of db 3) = Some r \<and>
     landing_live (landing_of db 3) = None \<and> landing_superseded (landing_of db 3) = Some (r, b) \<and>
     tr_event b = ''reopen''"
proof -
  let ?db = "empty_core_db\<lparr>task_transitions :=
      [moved_row 1 3 ''land'' ''in_progress'' ''done'' (Some ''main''), moved_row 2 4 ''land'' ''in_progress'' ''done'' None,
       moved_row 3 3 ''reopen'' ''done'' ''open'' None], transitions_seq := 3\<rparr>"
  let ?a = "read_transition (moved_row 1 3 ''land'' ''in_progress'' ''done'' (Some ''main''))"
  let ?b = "read_transition (moved_row 3 3 ''reopen'' ''done'' ''open'' None)"
  have ok: "transitions_ok ?db" by (simp add: transitions_ok_def moved_row_def)
  have h: "history ?db 3 = [?a, ?b]" by (simp add: history_unsorted [OF ok]) (simp add: moved_row_def)
  have pb: "put_back ?b"
    using moved_backwards_as_str [of Done Open] by (simp add: put_back_def read_transition_def moved_row_def)
  have g: "is_graft ?a" "\<not> is_graft ?b"
    by (simp_all add: is_graft_def read_transition_def moved_row_def labels_default_def)
  have again: "resumed ?db 3 = Some ?b" using h pb by (simp add: resumed_def resumption_def)
  have rec: "ld_recorded (landing_of ?db 3) = Some ?a"
    using g by (simp add: landing_of_def h Let_def)
  have "landing_superseded (landing_of ?db 3) = Some (?a, ?b)"
    using landing_meaning [OF ok, of 3 ?a ?a ?b] h g again by (metis append_Nil list.set_intros(1) singletonD empty_set list.simps(15))
  with landing_meaning [OF ok, of 3 ?a ?a ?b] rec ok show ?thesis
    by (intro exI [of _ ?db] exI [of _ ?a] exI [of _ ?b]) (auto simp: read_transition_def moved_row_def)
qed

end
