(* ===== verification/Workflow_Store.thy ===== *)
theory Workflow_Store
  imports Workflow_Strategy Core_Reviews Task_History Held_Until
begin

text \<open>
  A task's workflow in the database, \<open>crates/jkb-core/src/workflow/store.rs\<close>: strategy
  definitions and their versions, the append-only log, where a task's workflow stands, the facts
  its guards read, and the one seam through which it moves (\<open>fire\<close>, \<open>observe\<close>,
  \<open>follow_landing\<close>, \<open>set_strategy\<close>). A stored spec is text; serde's reading and writing of it
  is an argument, of which the lemmas assume only that what was written reads back.
\<close>

section \<open>The stored form of a strategy\<close>

record spec_codec =
  sc_parse :: "string \<Rightarrow> (string, strategy_spec) result"
  sc_print :: "strategy_spec \<Rightarrow> (string, string) result"

definition strategy_from_json :: "spec_codec \<Rightarrow> string \<Rightarrow> strategy_spec core_result" where
  "strategy_from_json codec json =
     (case sc_parse codec json of
        Inl e \<Rightarrow> Inl (validation (''this task'' @ [CHR 0x27] @ ''s workflow strategy cannot be read by this jkb ('' @ e @
          '') '' @ emdash @ '' a newer jkb may have set it''))
      | Inr spec \<Rightarrow> result_bind (strategy_validate spec) (\<lambda>_. Inr spec))"

definition strategy_to_json :: "spec_codec \<Rightarrow> strategy_spec \<Rightarrow> string core_result" where
  "strategy_to_json codec spec = (case sc_print codec spec of Inl e \<Rightarrow> Inl (validation e) | Inr j \<Rightarrow> Inr j)"

section \<open>Repeated areas\<close>

definition area_key :: "area_scope \<Rightarrow> string \<Rightarrow> string" where
  "area_key scope a =
     (case scope of
        AS_File \<Rightarrow> a
      | AS_Directory \<Rightarrow> (case rsplit_once ''/'' a of Some (d, _) \<Rightarrow> d | None \<Rightarrow> []))"

definition repeated :: "review_round list \<Rightarrow> u32 \<Rightarrow> area_scope \<Rightarrow> bool" where
  "repeated rounds n scope =
     (let k = unat n in
      if k < 2 \<or> length rounds < k then False
      else let recent = drop (length rounds - k) rounds in
        if list_ex (\<lambda>r. rd_must_fix r = 0) recent then False
        else foldl (\<lambda>shared r. filter (\<lambda>a. a \<in> set (map (area_key scope) (rd_areas r))) shared)
               (map (area_key scope) (rd_areas (hd recent))) (tl recent) \<noteq> [])"

section \<open>Strategy definitions\<close>

definition DEFAULT_DEFINITION :: string where "DEFAULT_DEFINITION = ''default''"

definition MAX_DESCRIBE_CHARS :: nat where "MAX_DESCRIBE_CHARS = 500"

definition validate_describe :: "string \<Rightarrow> unit core_result" where
  "validate_describe describe =
     (if str_trim describe = [] \<or> char_count describe > MAX_DESCRIBE_CHARS
      then Inl (validation (''a description of 1 to '' @ nat_str MAX_DESCRIBE_CHARS @ '' characters''))
      else Inr ())"

definition is_strategy_char :: "char \<Rightarrow> bool" where
  "is_strategy_char c \<longleftrightarrow>
     is_digit c \<or> (65 \<le> (of_char c :: nat) \<and> (of_char c :: nat) \<le> 90) \<or>
     (97 \<le> (of_char c :: nat) \<and> (of_char c :: nat) \<le> 122) \<or> c = CHR ''-'' \<or> c = CHR ''_''"

text \<open>\<open>ORDER BY version DESC LIMIT 1\<close>.\<close>

fun newest_def :: "strategy_db_row list \<Rightarrow> strategy_db_row option" where
  "newest_def [] = None"
| "newest_def (r # rs) =
     (case newest_def rs of
        None \<Rightarrow> Some r
      | Some s \<Rightarrow> if ws_version r \<le> ws_version s then Some s else Some r)"

definition defs_named :: "core_db \<Rightarrow> string \<Rightarrow> strategy_db_row list" where
  "defs_named db name = filter (\<lambda>r. ws_name r = name) (workflow_strategies db)"

definition define_strategy ::
  "spec_codec \<Rightarrow> string \<Rightarrow> core_db \<Rightarrow> string \<Rightarrow> string \<Rightarrow> strategy_spec \<Rightarrow> (core_db \<times> int) core_result" where
  "define_strategy codec now db name describe spec =
     (if name = [] \<or> length name > 64 \<or> \<not> list_all is_strategy_char name
      then Inl (validation (''a strategy name of 1 to 64 letters, digits, `-` and `_` (got `'' @ name @ ''`)''))
      else if preset name \<noteq> None
      then Inl (validation (''`'' @ name @ ''` is a preset; define a strategy under another name (`--from '' @ name @
        ''` starts from it)''))
      else
        result_bind (validate_describe describe) (\<lambda>_.
        result_bind (strategy_validate spec) (\<lambda>_.
        result_bind (strategy_to_json codec spec) (\<lambda>json.
          let version = (case newest_def (defs_named db name) of None \<Rightarrow> 0 | Some r \<Rightarrow> ws_version r) + 1
          in Inr (db\<lparr>workflow_strategies := workflow_strategies db @
                [\<lparr>ws_name = name, ws_version = version, ws_spec = json, ws_defined_at = now,
                  ws_describe = Some describe\<rparr>]\<rparr>, version)))))"

definition resolve_strategy :: "spec_codec \<Rightarrow> core_db \<Rightarrow> string \<Rightarrow> (string \<times> strategy_spec) core_result" where
  "resolve_strategy codec db name =
     (case newest_def (defs_named db name) of
        Some r \<Rightarrow>
          result_bind (strategy_from_json codec (ws_spec r)) (\<lambda>spec. Inr (name @ ''@'' @ int_str (ws_version r), spec))
      | None \<Rightarrow>
          (case preset name of
             Some spec \<Rightarrow> Inr (name, spec)
           | None \<Rightarrow> Inl (validation (''no strategy `'' @ name @ ''` (presets: '' @ join '', '' (map ps_name PRESETS) @
               ''; `jkb workflow strategies` lists definitions)''))))"

definition definitions :: "core_db \<Rightarrow> strategy_db_row list" where
  "definitions db =
     sort_key ws_name (filter (\<lambda>w.
       case newest_def (defs_named db (ws_name w)) of Some m \<Rightarrow> ws_version w = ws_version m | None \<Rightarrow> False)
       (workflow_strategies db))"

definition default_strategy :: "spec_codec \<Rightarrow> core_db \<Rightarrow> (string \<times> strategy_spec) core_result" where
  "default_strategy codec db =
     resolve_strategy codec db
       (if list_ex (\<lambda>r. ws_name r = DEFAULT_DEFINITION) (workflow_strategies db) then DEFAULT_DEFINITION
        else DEFAULT_PRESET)"

section \<open>The log\<close>

definition workflow_history :: "core_db \<Rightarrow> int \<Rightarrow> workflow_db_row list" where
  "workflow_history db task = sort_key wt_id (filter (\<lambda>r. wt_item_id r = task) (workflow_transitions db))"

definition current_phase_name :: "core_db \<Rightarrow> int \<Rightarrow> string" where
  "current_phase_name db task =
     (case rev (workflow_history db task) of r # _ \<Rightarrow> wt_to_phase r | [] \<Rightarrow> ''design'')"

record workflow_current =
  cu_phase :: phase
  cu_spec :: strategy_spec
  cu_source :: string
  cu_history :: "workflow_db_row list"

definition pinned_spec :: "workflow_db_row list \<Rightarrow> (string \<times> string) option" where
  "pinned_spec rows =
     first_some (\<lambda>r. map_option (\<lambda>s. (s, case wt_reason r of Some why \<Rightarrow> why | None \<Rightarrow> [])) (wt_spec r)) (rev rows)"

definition workflow_current ::
  "spec_codec \<Rightarrow> core_db \<Rightarrow> int \<Rightarrow> workflow_current core_result" where
  "workflow_current codec db task =
     (let rows = workflow_history db task; name = current_phase_name db task in
      case phase_parse name of
        None \<Rightarrow> Inl (validation (''an unknown workflow phase `'' @ name @ ''`''))
      | Some phase \<Rightarrow>
          result_bind
            (case pinned_spec rows of
               Some (json, source) \<Rightarrow>
                 result_bind (strategy_from_json codec json) (\<lambda>spec. Inr (spec, source))
             | None \<Rightarrow>
                 result_bind (default_strategy codec db) (\<lambda>(n, spec). Inr (spec, ''default:'' @ n)))
            (\<lambda>(spec, source). Inr \<lparr>cu_phase = phase, cu_spec = spec, cu_source = source, cu_history = rows\<rparr>))"

definition current_pinned :: "workflow_current \<Rightarrow> bool" where
  "current_pinned c \<longleftrightarrow> list_ex (\<lambda>r. wt_spec r \<noteq> None) (cu_history c)"

record workflow_actor =
  wa_roles :: "role list"
  wa_principal :: string

definition actor_operator :: workflow_actor where
  "actor_operator = \<lparr>wa_roles = [Operator], wa_principal = ''operator''\<rparr>"

definition role_label :: "workflow_actor \<Rightarrow> string" where
  "role_label a = join '','' (map role_as_str (wa_roles a))"

definition task_rounds :: "core_db \<Rightarrow> int \<Rightarrow> review_round list" where
  "task_rounds db task = rounds_in db (rs_namespaces (reviews_state db task))"

section \<open>What the guards read\<close>

definition entered_review :: "workflow_db_row \<Rightarrow> bool" where
  "entered_review r \<longleftrightarrow> wt_to_phase r = phase_name Ph_Review \<and> wt_from_phase r \<noteq> Some (phase_name Ph_Review)"

definition observe_facts :: "core_db \<Rightarrow> int \<Rightarrow> workflow_current \<Rightarrow> workflow_facts core_result" where
  "observe_facts db task cur =
     (case find_item db task of
        None \<Rightarrow> Inl (Types (NotFound (''task '' @ int_str task)))
      | Some m \<Rightarrow>
          let rounds = task_rounds db task;
              newest = (if rounds = [] then None else Some (last rounds));
              entered = map_option (\<lambda>r. case wt_round_mark r of Some k \<Rightarrow> k | None \<Rightarrow> 0)
                (List.find entered_review (rev (cu_history cur)));
              area = at_repeated_area (sp_attributes (cu_spec cur))
          in Inr \<lparr>wf_phase = cu_phase cur, wf_stated = None,
                  wf_task_status = (case Option.bind (it_status m) task_status_from_db_str of
                     Some s \<Rightarrow> s | None \<Rightarrow> task_status_default),
                  wf_landed = fact_from (landing_live (landing_of db task) \<noteq> None),
                  wf_new_round = (case (entered, newest) of
                     (Some mark, Some r) \<Rightarrow> fact_from (rd_filed r > mark)
                   | _ \<Rightarrow> No),
                  wf_last_round_must_fix = fact_from (case newest of Some r \<Rightarrow> rd_must_fix r > 0 | None \<Rightarrow> False),
                  wf_repeated_areas = fact_from (repeated rounds (ra_rounds area) (ra_scope area))\<rparr>)"

definition workflow_evidence :: "workflow_facts \<Rightarrow> json" where
  "workflow_evidence f = JObj
     [(''landed'', JStr (fact_as_str (wf_landed f))),
      (''last_round_must_fix'', JStr (fact_as_str (wf_last_round_must_fix f))),
      (''new_round'', JStr (fact_as_str (wf_new_round f))),
      (''repeated_areas'', JStr (fact_as_str (wf_repeated_areas f))),
      (''task_status'', JStr (task_status_as_str (wf_task_status f)))]"

section \<open>Moving\<close>

definition append_workflow ::
  "string \<Rightarrow> core_db \<Rightarrow> write_meta \<Rightarrow> int \<Rightarrow> string \<Rightarrow> phase option \<Rightarrow> phase \<Rightarrow> workflow_actor \<Rightarrow> string option
     \<Rightarrow> string option \<Rightarrow> json option \<Rightarrow> core_db" where
  "append_workflow now db meta task event from to act reason spec evid =
     (let rounds = task_rounds db task;
          mark = (if rounds = [] then None else Some (rd_filed (last rounds)))
      in db\<lparr>workflow_transitions := workflow_transitions db @
              [\<lparr>wt_id = workflow_seq db + 1, wt_txn_id = wm_txn_id meta, wt_item_id = task, wt_at = now,
                wt_event = event, wt_from_phase = map_option phase_name from, wt_to_phase = phase_name to,
                wt_role = role_label act, wt_actor = wa_principal act, wt_round_mark = mark,
                wt_reason = reason, wt_spec = spec, wt_evidence = evid\<rparr>],
            workflow_seq := workflow_seq db + 1\<rparr>)"

datatype workflow_moved = WM_To phase workflow_event phase nat | WM_AlreadyThere phase | WM_Refused string

definition check_reason :: "workflow_event \<Rightarrow> string option \<Rightarrow> unit core_result" where
  "check_reason event reason =
     (if needs_reason event \<and> (case reason of None \<Rightarrow> True | Some r \<Rightarrow> str_trim r = [])
      then Inl (validation (''`'' @ workflow_event_name event @ ''` needs a written reason (`--reason '' @ ellipsis @
        ''`): it decides who sees the work next''))
      else if (case reason of None \<Rightarrow> False | Some r \<Rightarrow> length r > 4096)
      then Inl (validation ''a reason of at most 4096 bytes'')
      else Inr ())"

text \<open>A task's first move pins the strategy it is running.\<close>

definition pin_first ::
  "spec_codec \<Rightarrow> string \<Rightarrow> core_db \<Rightarrow> write_meta \<Rightarrow> int \<Rightarrow> workflow_current \<Rightarrow> phase \<Rightarrow> workflow_actor \<Rightarrow> core_db core_result" where
  "pin_first codec now db meta task cur from act =
     (if current_pinned cur then Inr db
      else result_bind (strategy_to_json codec (cu_spec cur)) (\<lambda>json.
        Inr (append_workflow now db meta task ''pin_strategy'' (Some from) from act (Some (cu_source cur)) (Some json) None)))"

definition settle_move ::
  "spec_codec \<Rightarrow> string \<Rightarrow> core_db \<Rightarrow> write_meta \<Rightarrow> int \<Rightarrow> workflow_current \<Rightarrow> phase \<Rightarrow> workflow_event \<Rightarrow> phase
     \<Rightarrow> workflow_actor \<Rightarrow> string option \<Rightarrow> workflow_facts \<Rightarrow> (core_db \<times> workflow_moved) core_result" where
  "settle_move codec now db meta task cur from event to act reason f =
     result_bind (pin_first codec now db meta task cur from act) (\<lambda>db1.
          let db2 = append_workflow now db1 meta task (workflow_event_name event) (Some from) to act reason None
                      (Some (workflow_evidence f));
              (roles', revoked) = (if phase_is_settled to then revoke_task now (roles_of db2) task else (roles_of db2, 0))
          in Inr (db2\<lparr>roles_of := roles'\<rparr>, WM_To from event to revoked))"

definition workflow_settle ::
  "spec_codec \<Rightarrow> string \<Rightarrow> core_db \<Rightarrow> write_meta \<Rightarrow> int \<Rightarrow> workflow_current \<Rightarrow> (phase, workflow_event, unit) outcome
     \<Rightarrow> workflow_actor \<Rightarrow> string option \<Rightarrow> workflow_facts \<Rightarrow> (core_db \<times> workflow_moved) core_result" where
  "workflow_settle codec now db meta task cur out act reason f =
     (case out of
        Moved from event to _ \<Rightarrow>
          if from = to then Inr (db, WM_AlreadyThere to)
          else settle_move codec now db meta task cur from event to act reason f
      | Idempotent s _ \<Rightarrow> Inr (db, WM_AlreadyThere s)
      | other \<Rightarrow> Inr (db, WM_Refused (case outcome_refusal workflow_domain other of
            Some why \<Rightarrow> why
          | None \<Rightarrow> ''that does not apply in `'' @ phase_name (wf_phase f) @ ''`'')))"

definition workflow_fire ::
  "spec_codec \<Rightarrow> string \<Rightarrow> core_db \<Rightarrow> write_meta \<Rightarrow> int \<Rightarrow> workflow_event \<Rightarrow> workflow_actor \<Rightarrow> string option \<Rightarrow> phase option
     \<Rightarrow> (core_db \<times> workflow_moved) core_result" where
  "workflow_fire codec now db meta task event act reason stated =
     result_bind (check_reason event reason) (\<lambda>_.
     result_bind (workflow_current codec db task) (\<lambda>cur.
       case strategy_authorize (cu_spec cur) (wa_roles act) event of
         D_Deny no \<Rightarrow> Inr (db, WM_Refused (refusal_display no))
       | D_Allow \<Rightarrow>
           result_bind (observe_facts db task cur) (\<lambda>f0.
             let f = f0\<lparr>wf_stated := stated\<rparr>;
                 out = machine_apply workflow_domain (graph_machine (sp_graph (cu_spec cur))) f event
             in workflow_settle codec now db meta task cur out act reason f)))"

definition workflow_observe ::
  "spec_codec \<Rightarrow> string \<Rightarrow> core_db \<Rightarrow> write_meta \<Rightarrow> int \<Rightarrow> workflow_actor \<Rightarrow> (core_db \<times> workflow_moved) core_result" where
  "workflow_observe codec now db meta task act =
     result_bind (workflow_current codec db task) (\<lambda>cur.
     result_bind (observe_facts db task cur) (\<lambda>f.
       case machine_reconcile workflow_domain (graph_machine (sp_graph (cu_spec cur))) f of
         Rec_Settled \<Rightarrow> Inr (db, WM_AlreadyThere (cu_phase cur))
       | Rec_Ambiguous events \<Rightarrow> Inr (db, WM_Refused (''more than one observation applies at once ('' @
           join '', '' (map workflow_event_name events) @ '') '' @ emdash @ '' this is a defect in the graph''))
       | Rec_Fired out \<Rightarrow> workflow_settle codec now db meta task cur out act None f))"

definition follow_landing ::
  "spec_codec \<Rightarrow> string \<Rightarrow> core_db \<Rightarrow> write_meta \<Rightarrow> int \<Rightarrow> (core_db \<times> workflow_moved) core_result" where
  "follow_landing codec now db meta task =
     result_bind (workflow_current codec db task) (\<lambda>cur.
       if phase_is_settled (cu_phase cur) then Inr (db, WM_AlreadyThere (cu_phase cur))
       else result_bind (observe_facts db task cur) (\<lambda>f0.
         let f = f0\<lparr>wf_landed := Yes\<rparr>;
             out = machine_apply workflow_domain (graph_machine (sp_graph (cu_spec cur))) f W_ObservedLanded
         in workflow_settle codec now db meta task cur out
              \<lparr>wa_roles = [], wa_principal = ''lifecycle''\<rparr> None f))"

definition set_strategy ::
  "spec_codec \<Rightarrow> string \<Rightarrow> core_db \<Rightarrow> write_meta \<Rightarrow> int \<Rightarrow> string \<Rightarrow> workflow_actor
     \<Rightarrow> (core_db \<times> strategy_spec) core_result" where
  "set_strategy codec now db meta task name act =
     (if Operator \<notin> set (wa_roles act)
      then Inl (validation (''only the operator chooses a task'' @ [CHR 0x27] @ ''s workflow strategy '' @ emdash @
        '' an agent choosing a laxer one for itself is what the strategy exists to prevent''))
      else
        result_bind (resolve_strategy codec db name) (\<lambda>(source, spec).
        result_bind (workflow_current codec db task) (\<lambda>cur.
        result_bind (strategy_to_json codec spec) (\<lambda>json.
          Inr (append_workflow now db meta task ''set_strategy'' (Some (cu_phase cur)) (cu_phase cur) act
                 (Some source) (Some json) None, spec)))))"

section \<open>The log grows at its end\<close>

definition workflow_log_ok :: "core_db \<Rightarrow> bool" where
  "workflow_log_ok db \<longleftrightarrow>
     sorted_wrt (<) (map wt_id (workflow_transitions db)) \<and>
     (\<forall>r \<in> set (workflow_transitions db). wt_id r \<le> workflow_seq db \<and> phase_parse (wt_to_phase r) \<noteq> None)"

lemma phase_parse_name [simp]: "phase_parse (phase_name p) = Some p"
  by (simp add: phase_parse_def phase_enum.from_as_str)

lemma workflow_history_unsorted:
  assumes "workflow_log_ok db"
  shows "workflow_history db task = filter (\<lambda>r. wt_item_id r = task) (workflow_transitions db)"
  using assms by (simp add: workflow_history_def workflow_log_ok_def sorted_sort_key sorted_wrt_filter sorted_wrt_map)

lemma append_workflow_ok: "workflow_log_ok db \<Longrightarrow> workflow_log_ok (append_workflow now db meta task event from to act reason spec evid)"
  by (fastforce simp: workflow_log_ok_def append_workflow_def Let_def sorted_wrt_append)

lemma append_workflow_others [simp]:
  "items (append_workflow now db meta task event from to act reason spec evid) = items db"
  "task_transitions (append_workflow now db meta task event from to act reason spec evid) = task_transitions db"
  "transitions_seq (append_workflow now db meta task event from to act reason spec evid) = transitions_seq db"
  "workflow_strategies (append_workflow now db meta task event from to act reason spec evid) = workflow_strategies db"
  "roles_of (append_workflow now db meta task event from to act reason spec evid) = roles_of db"
  "clog (append_workflow now db meta task event from to act reason spec evid) = clog db"
  "reviews (append_workflow now db meta task event from to act reason spec evid) = reviews db"
  "review_rounds (append_workflow now db meta task event from to act reason spec evid) = review_rounds db"
  "round_findings (append_workflow now db meta task event from to act reason spec evid) = round_findings db"
  by (simp_all add: append_workflow_def Let_def)

text \<open>What a row adds to its task's history, and to no other.\<close>

lemma append_workflow_history:
  assumes "workflow_log_ok db"
  shows "\<exists>r. wt_to_phase r = phase_name to \<and> wt_spec r = spec \<and> wt_reason r = reason \<and> wt_event r = event \<and>
      wt_from_phase r = map_option phase_name from \<and> wt_role r = role_label act \<and> wt_actor r = wa_principal act \<and>
      wt_evidence r = evid \<and>
      workflow_history (append_workflow now db meta task event from to act reason spec evid) task =
        workflow_history db task @ [r] \<and>
      (\<forall>other. other \<noteq> task \<longrightarrow>
        workflow_history (append_workflow now db meta task event from to act reason spec evid) other = workflow_history db other)"
  unfolding workflow_history_unsorted [OF assms] workflow_history_unsorted [OF append_workflow_ok [OF assms]]
  by (auto simp: append_workflow_def Let_def)

lemma workflow_history_roles [simp]: "workflow_history (db\<lparr>roles_of := d\<rparr>) t = workflow_history db t"
  "workflow_history (db\<lparr>workflow_strategies := ws\<rparr>) t = workflow_history db t"
  by (simp_all add: workflow_history_def)

lemma workflow_log_ok_roles [simp]: "workflow_log_ok (db\<lparr>roles_of := d\<rparr>) = workflow_log_ok db"
  "workflow_log_ok (db\<lparr>workflow_strategies := ws\<rparr>) = workflow_log_ok db"
  by (simp_all add: workflow_log_ok_def)

lemma first_some_append: "first_some f (xs @ ys) = (case first_some f xs of Some y \<Rightarrow> Some y | None \<Rightarrow> first_some f ys)"
  by (induction xs) (auto split: option.splits)

lemma pinned_spec_snoc:
  "pinned_spec (rows @ [r]) =
     (case wt_spec r of Some s \<Rightarrow> Some (s, case wt_reason r of Some why \<Rightarrow> why | None \<Rightarrow> []) | None \<Rightarrow> pinned_spec rows)"
  by (simp add: pinned_spec_def split: option.split)

lemma pinned_spec_None: "pinned_spec rows = None \<longleftrightarrow> (\<forall>r \<in> set rows. wt_spec r = None)"
proof -
  have "first_some f xs = None \<longleftrightarrow> (\<forall>x \<in> set xs. f x = None)" for f :: "workflow_db_row \<Rightarrow> (string \<times> string) option" and xs
    by (induction xs) (auto split: option.splits)
  then show ?thesis by (simp add: pinned_spec_def)
qed

lemma current_phase_snoc: "workflow_history db t = rows @ [r] \<Longrightarrow> current_phase_name db t = wt_to_phase r"
  by (simp add: current_phase_name_def)

lemma current_phase_known:
  assumes "workflow_log_ok db"
  shows "phase_parse (current_phase_name db t) \<noteq> None"
proof (cases "rev (workflow_history db t)")
  case Nil
  then show ?thesis using phase_parse_name [of Ph_Design] by (simp add: current_phase_name_def)
next
  case (Cons r rest)
  then have "r \<in> set (workflow_history db t)" by (metis list.set_intros(1) set_rev)
  then have "r \<in> set (workflow_transitions db)" by (simp add: workflow_history_unsorted [OF assms])
  with assms have "phase_parse (wt_to_phase r) \<noteq> None" by (simp add: workflow_log_ok_def)
  with Cons show ?thesis by (simp add: current_phase_name_def)
qed

section \<open>What a move does\<close>

text \<open>The part of the store a workflow move may touch: the log and the grants.\<close>

definition same_but_workflow :: "core_db \<Rightarrow> core_db \<Rightarrow> bool" where
  "same_but_workflow db db' \<longleftrightarrow>
     db' = db\<lparr>workflow_transitions := workflow_transitions db', workflow_seq := workflow_seq db', roles_of := roles_of db'\<rparr>"

lemma same_but_workflow_refl [simp]: "same_but_workflow db db"
  by (simp add: same_but_workflow_def)

lemma append_workflow_same: "same_but_workflow db (append_workflow now db meta task event from to act reason spec evid)"
  by (simp add: same_but_workflow_def append_workflow_def Let_def)

lemma same_but_workflow_trans: "same_but_workflow a b \<Longrightarrow> same_but_workflow b c \<Longrightarrow> same_but_workflow a c"
  unfolding same_but_workflow_def by (cases a; cases b; cases c) simp

lemma same_but_workflow_roles: "same_but_workflow a b \<Longrightarrow> same_but_workflow a (b\<lparr>roles_of := d\<rparr>)"
  unfolding same_but_workflow_def by (cases a; cases b) simp

text \<open>The pin of a history, after a pin was offered.\<close>

definition pins :: "spec_codec \<Rightarrow> workflow_current \<Rightarrow> workflow_db_row list \<Rightarrow> workflow_db_row list \<Rightarrow> bool" where
  "pins codec cur rows rows' \<longleftrightarrow>
     (case pinned_spec rows of
        Some p \<Rightarrow> pinned_spec rows' = Some p
      | None \<Rightarrow> \<exists>j. strategy_to_json codec (cu_spec cur) = Inr j \<and> pinned_spec rows' = Some (j, cu_source cur))"

lemma pin_first_effect:
  assumes ok: "workflow_log_ok db" and cur: "cu_history cur = workflow_history db task"
    and p: "pin_first codec now db meta task cur from act = Inr db1"
  shows "workflow_log_ok db1 \<and> same_but_workflow db db1 \<and> roles_of db1 = roles_of db \<and>
      (\<forall>other. other \<noteq> task \<longrightarrow> workflow_history db1 other = workflow_history db other) \<and>
      pins codec cur (workflow_history db task) (workflow_history db1 task)"
proof (cases "current_pinned cur")
  case True
  then have "pinned_spec (workflow_history db task) \<noteq> None"
    by (auto simp: current_pinned_def cur pinned_spec_None list_ex_iff)
  with True p ok show ?thesis by (auto simp: pin_first_def pins_def)
next
  case False
  then have none: "pinned_spec (workflow_history db task) = None"
    by (auto simp: current_pinned_def cur pinned_spec_None list_ex_iff)
  from False p obtain j where j: "strategy_to_json codec (cu_spec cur) = Inr j"
    and db1: "db1 = append_workflow now db meta task ''pin_strategy'' (Some from) from act (Some (cu_source cur)) (Some j) None"
    by (auto simp: pin_first_def result_bind_Inr)
  obtain r where "wt_spec r = Some j" "wt_reason r = Some (cu_source cur)"
      "workflow_history db1 task = workflow_history db task @ [r]"
      "\<forall>other. other \<noteq> task \<longrightarrow> workflow_history db1 other = workflow_history db other"
    unfolding db1 using append_workflow_history [OF ok] by metis
  with none j ok show ?thesis
    unfolding db1 by (simp add: append_workflow_ok append_workflow_same pinned_spec_snoc pins_def)
qed

lemma settle_move_effect:
  assumes ok: "workflow_log_ok db" and cur: "cu_history cur = workflow_history db task"
    and m: "settle_move codec now db meta task cur from event to act reason f = Inr (db', moved)"
  shows "\<exists>k. moved = WM_To from event to k" and "workflow_log_ok db'" and "same_but_workflow db db'"
    and "current_phase_name db' task = phase_name to"
    and "\<exists>r. last (workflow_history db' task) = r \<and> workflow_history db' task \<noteq> [] \<and>
      wt_event r = workflow_event_name event \<and> wt_role r = role_label act \<and> wt_actor r = wa_principal act \<and>
      wt_reason r = reason \<and> wt_from_phase r = Some (phase_name from) \<and> wt_evidence r = Some (workflow_evidence f)"
    and "pins codec cur (workflow_history db task) (workflow_history db' task)"
    and "other \<noteq> task \<Longrightarrow> workflow_history db' other = workflow_history db other"
    and "phase_is_settled to \<Longrightarrow> roles_of db' = fst (revoke_task now (roles_of db) task)"
proof -
  from m obtain db1 where pin1: "pin_first codec now db meta task cur from act = Inr db1"
    by (auto simp: settle_move_def result_bind_Inr)
  note one = pin_first_effect [OF ok cur pin1]
  define db2 where "db2 = append_workflow now db1 meta task (workflow_event_name event) (Some from) to act reason None
                      (Some (workflow_evidence f))"
  from m pin1 have res: "\<exists>k d. moved = WM_To from event to k \<and> db' = db2\<lparr>roles_of := d\<rparr> \<and>
      (phase_is_settled to \<longrightarrow> d = fst (revoke_task now (roles_of db2) task))"
    by (auto simp: settle_move_def db2_def Let_def split: prod.splits if_splits)
  obtain r where r: "wt_to_phase r = phase_name to" "wt_spec r = None" "wt_event r = workflow_event_name event"
      "wt_role r = role_label act" "wt_actor r = wa_principal act" "wt_reason r = reason"
      "wt_from_phase r = Some (phase_name from)" "wt_evidence r = Some (workflow_evidence f)"
      "workflow_history db2 task = workflow_history db1 task @ [r]"
      "\<forall>other. other \<noteq> task \<longrightarrow> workflow_history db2 other = workflow_history db1 other"
    unfolding db2_def using append_workflow_history [of db1] one by (metis option.map(2))
  have two: "workflow_log_ok db2" "same_but_workflow db db2" "roles_of db2 = roles_of db"
    using one append_workflow_ok append_workflow_same same_but_workflow_trans by (auto simp: db2_def)
  from res obtain k d where d: "moved = WM_To from event to k" "db' = db2\<lparr>roles_of := d\<rparr>"
      "phase_is_settled to \<longrightarrow> d = fst (revoke_task now (roles_of db2) task)" by blast
  from d show "\<exists>k. moved = WM_To from event to k" by blast
  show "workflow_log_ok db'" "same_but_workflow db db'" using d two by (auto intro: same_but_workflow_roles)
  show "current_phase_name db' task = phase_name to"
    using d r current_phase_snoc [of db' task "workflow_history db1 task" r] by simp
  show "\<exists>r. last (workflow_history db' task) = r \<and> workflow_history db' task \<noteq> [] \<and>
      wt_event r = workflow_event_name event \<and> wt_role r = role_label act \<and> wt_actor r = wa_principal act \<and>
      wt_reason r = reason \<and> wt_from_phase r = Some (phase_name from) \<and> wt_evidence r = Some (workflow_evidence f)"
    using d r by simp
  show "pins codec cur (workflow_history db task) (workflow_history db' task)"
    using one d r by (simp add: pins_def pinned_spec_snoc split: option.splits)
  show "other \<noteq> task \<Longrightarrow> workflow_history db' other = workflow_history db other" using one d r by simp
  show "phase_is_settled to \<Longrightarrow> roles_of db' = fst (revoke_task now (roles_of db) task)" using d two by simp
qed

section \<open>Where a workflow stands\<close>

lemma from_json_valid: "strategy_from_json codec j = Inr spec \<Longrightarrow> strategy_validate spec = Inr ()"
  by (auto simp: strategy_from_json_def result_bind_Inr split: sum.splits)

lemma preset_valid: "preset name = Some spec \<Longrightarrow> strategy_validate spec = Inr ()"
proof -
  have "list_all (\<lambda>p. strategy_validate (ps_spec p) = Inr ()) PRESETS" by code_simp
  moreover assume "preset name = Some spec"
  ultimately show ?thesis by (auto simp: preset_def list_all_iff dest!: find_SomeD)
qed

lemma resolve_valid: "resolve_strategy codec db name = Inr (source, spec) \<Longrightarrow> strategy_validate spec = Inr ()"
  by (auto simp: resolve_strategy_def result_bind_Inr dest: from_json_valid preset_valid split: option.splits)

lemma current_Inr:
  assumes "workflow_current codec db t = Inr cur"
  shows "cu_history cur = workflow_history db t" and "phase_parse (current_phase_name db t) = Some (cu_phase cur)"
    and "strategy_validate (cu_spec cur) = Inr ()"
    and "pinned_spec (workflow_history db t) = Some (j, source) \<Longrightarrow> strategy_from_json codec j = Inr (cu_spec cur) \<and> cu_source cur = source"
  using assms
  by (auto simp: workflow_current_def Let_def result_bind_Inr default_strategy_def dest: from_json_valid resolve_valid
      split: option.splits)

lemma current_of_pin:
  assumes "workflow_log_ok db" and "pinned_spec (workflow_history db t) = Some (j, source)"
    and "strategy_from_json codec j = Inr spec"
  shows "\<exists>cur. workflow_current codec db t = Inr cur \<and> cu_spec cur = spec"
  using assms current_phase_known [OF assms(1), of t] by (auto simp: workflow_current_def Let_def)

text \<open>A move of any kind is a \<open>settle_move\<close> from where the task stood.\<close>

lemma settle_cases:
  assumes "workflow_settle codec now db meta task cur out act reason f = Inr (db', moved)"
  shows "(case moved of
      WM_To from e to k \<Rightarrow> (\<exists>fx. out = Moved from e to fx) \<and> from \<noteq> to \<and>
        settle_move codec now db meta task cur from e to act reason f = Inr (db', moved)
    | _ \<Rightarrow> db' = db)"
proof (cases out)
  case (Moved p e q fx)
  show ?thesis
  proof (cases "p = q")
    case False
    with Moved assms have m: "settle_move codec now db meta task cur p e q act reason f = Inr (db', moved)"
      by (simp add: workflow_settle_def)
    then obtain k where "moved = WM_To p e q k"
      by (auto simp: settle_move_def result_bind_Inr Let_def case_prod_unfold)
    with m Moved False show ?thesis by simp
  qed (use Moved assms in \<open>auto simp: workflow_settle_def\<close>)
qed (use assms in \<open>auto simp: workflow_settle_def\<close>)

lemma fire_cases:
  assumes "workflow_fire codec now db meta task event act reason stated = Inr (db', moved)"
  shows "(case moved of
      WM_To from e to k \<Rightarrow> \<exists>cur f fx.
        check_reason event reason = Inr () \<and> workflow_current codec db task = Inr cur \<and>
        is_allowed (strategy_authorize (cu_spec cur) (wa_roles act) event) \<and>
        observe_facts db task cur = Inr f \<and>
        machine_apply workflow_domain (graph_machine (sp_graph (cu_spec cur))) (f\<lparr>wf_stated := stated\<rparr>) event = Moved from e to fx \<and>
        from \<noteq> to \<and>
        settle_move codec now db meta task cur from e to act reason (f\<lparr>wf_stated := stated\<rparr>) = Inr (db', moved)
    | _ \<Rightarrow> db' = db)"
proof -
  from assms obtain cur where c: "check_reason event reason = Inr ()" "workflow_current codec db task = Inr cur"
    and r: "(case strategy_authorize (cu_spec cur) (wa_roles act) event of
         D_Deny no \<Rightarrow> Inr (db, WM_Refused (refusal_display no))
       | D_Allow \<Rightarrow>
           result_bind (observe_facts db task cur) (\<lambda>f0.
             let f = f0\<lparr>wf_stated := stated\<rparr>;
                 out = machine_apply workflow_domain (graph_machine (sp_graph (cu_spec cur))) f event
             in workflow_settle codec now db meta task cur out act reason f)) = Inr (db', moved)"
    by (auto simp: workflow_fire_def result_bind_Inr)
  show ?thesis
  proof (cases "strategy_authorize (cu_spec cur) (wa_roles act) event")
    case D_Allow
    with r obtain f where f: "observe_facts db task cur = Inr f"
      and s: "workflow_settle codec now db meta task cur
        (machine_apply workflow_domain (graph_machine (sp_graph (cu_spec cur))) (f\<lparr>wf_stated := stated\<rparr>) event)
        act reason (f\<lparr>wf_stated := stated\<rparr>) = Inr (db', moved)"
      by (auto simp: result_bind_Inr Let_def)
    from settle_cases [OF s] D_Allow c f show ?thesis
      by (auto simp: is_allowed_def split: workflow_moved.splits)
  qed (use r in auto)
qed

lemma observe_cases:
  assumes "workflow_observe codec now db meta task act = Inr (db', moved)"
  shows "(case moved of
      WM_To from e to k \<Rightarrow> \<exists>cur f. workflow_current codec db task = Inr cur \<and> from \<noteq> to \<and>
        settle_move codec now db meta task cur from e to act None f = Inr (db', moved)
    | _ \<Rightarrow> db' = db)"
proof -
  from assms obtain cur f where c: "workflow_current codec db task = Inr cur"
    and r: "(case machine_reconcile workflow_domain (graph_machine (sp_graph (cu_spec cur))) f of
         Rec_Settled \<Rightarrow> Inr (db, WM_AlreadyThere (cu_phase cur))
       | Rec_Ambiguous events \<Rightarrow> Inr (db, WM_Refused (''more than one observation applies at once ('' @
           join '', '' (map workflow_event_name events) @ '') '' @ emdash @ '' this is a defect in the graph''))
       | Rec_Fired out \<Rightarrow> workflow_settle codec now db meta task cur out act None f) = Inr (db', moved)"
    by (auto simp: workflow_observe_def result_bind_Inr)
  show ?thesis
  proof (cases "machine_reconcile workflow_domain (graph_machine (sp_graph (cu_spec cur))) f")
    case (Rec_Fired out)
    with r have "workflow_settle codec now db meta task cur out act None f = Inr (db', moved)" by simp
    from settle_cases [OF this] c show ?thesis by (auto split: workflow_moved.splits)
  qed (use r in auto)
qed

lemma follow_cases:
  assumes "follow_landing codec now db meta task = Inr (db', moved)"
  shows "(case moved of
      WM_To from e to k \<Rightarrow> \<exists>cur f act. workflow_current codec db task = Inr cur \<and> from \<noteq> to \<and>
        settle_move codec now db meta task cur from e to act None f = Inr (db', moved)
    | _ \<Rightarrow> db' = db)"
proof -
  from assms obtain cur where c: "workflow_current codec db task = Inr cur" by (auto simp: follow_landing_def result_bind_Inr)
  show ?thesis
  proof (cases "phase_is_settled (cu_phase cur)")
    case False
    with assms c obtain f out act where "workflow_settle codec now db meta task cur out act None f = Inr (db', moved)"
      by (auto simp: follow_landing_def result_bind_Inr Let_def)
    from settle_cases [OF this] c show ?thesis by (auto split: workflow_moved.splits)
  qed (use assms c in \<open>auto simp: follow_landing_def\<close>)
qed

section \<open>Firing\<close>

lemma revoke_task_none_live:
  assumes "r \<in> set (role_grants (fst (revoke_task now db task)))" and "rg_item r = Some task"
  shows "rg_revoked_at r \<noteq> None"
proof -
  define ids where "ids = map rg_id (filter (\<lambda>r. rg_item r = Some task \<and> rg_revoked_at r = None) (role_grants db))"
  define hit where "hit = (\<lambda>j. \<exists>i \<in> set ids. j \<in> set (tree_of db i))"
  from assms(1) obtain r0 where r0: "r0 \<in> set (role_grants db)" "r = mark_rows now hit r0"
    using revoke_all_rows [of now db ids 0] by (auto simp: revoke_task_def ids_def [symmetric] hit_def)
  have "hit (rg_id r0)" if "rg_revoked_at r0 = None"
    using that assms(2) r0 by (auto simp: hit_def ids_def tree_of_iff)
  with r0 show ?thesis by auto
qed

text \<open>
  C8. A workflow moves only by permission and only where its graph leads. When a fired event
  moves a task, the strategy in force there authorizes it: an applied event is granted to one of
  the actor's roles by that strategy's permission table, and an observation needs no role (anyone may
  report it; its guard decides). In both cases the graph's machine took the event from the
  task's phase on the facts observed, and a reason was given if the event needs one. Afterwards the task stands at the new phase and its newest row
  names the event, the actor and the reason; no other task's history and no other table but
  the grants changed, and a task that settled has no live grant left. Anything else fired, the
  refusals included, changes nothing.
\<close>

theorem workflow_fire_spec:
  assumes "workflow_log_ok db" and "workflow_fire codec now db meta task event act reason stated = Inr (db', moved)"
  shows "(case moved of
      WM_To from e to k \<Rightarrow>
        e = event \<and> from \<noteq> to \<and>
        (\<exists>cur f fx. workflow_current codec db task = Inr cur \<and> cu_phase cur = from \<and>
           is_allowed (strategy_authorize (cu_spec cur) (wa_roles act) event) \<and>
           (workflow_event_kind event = Applied \<longrightarrow>
              (\<exists>r \<in> set (wa_roles act). permits (ot_rows (permissions (cu_spec cur))) r event)) \<and>
           observe_facts db task cur = Inr f \<and>
           machine_apply workflow_domain (graph_machine (sp_graph (cu_spec cur))) (f\<lparr>wf_stated := stated\<rparr>) event =
             Moved from event to fx) \<and>
        (needs_reason event \<longrightarrow> (\<exists>why. reason = Some why \<and> str_trim why \<noteq> [])) \<and>
        workflow_log_ok db' \<and> current_phase_name db' task = phase_name to \<and>
        (\<exists>r. last (workflow_history db' task) = r \<and> workflow_history db' task \<noteq> [] \<and>
           wt_event r = workflow_event_name event \<and> wt_role r = role_label act \<and>
           wt_actor r = wa_principal act \<and> wt_reason r = reason) \<and>
        same_but_workflow db db' \<and>
        (\<forall>other. other \<noteq> task \<longrightarrow> workflow_history db' other = workflow_history db other) \<and>
        (phase_is_settled to \<longrightarrow>
           (\<forall>g \<in> set (role_grants (roles_of db')). rg_item g = Some task \<longrightarrow> rg_revoked_at g \<noteq> None))
    | _ \<Rightarrow> db' = db)"
proof (cases moved)
  case (WM_To p e q k)
  with fire_cases [OF assms(2)] obtain cur f fx where
    c: "check_reason event reason = Inr ()" "workflow_current codec db task = Inr cur"
      "is_allowed (strategy_authorize (cu_spec cur) (wa_roles act) event)" "observe_facts db task cur = Inr f"
    and m: "machine_apply workflow_domain (graph_machine (sp_graph (cu_spec cur))) (f\<lparr>wf_stated := stated\<rparr>) event = Moved p e q fx"
    and pq: "p \<noteq> q"
    and s: "settle_move codec now db meta task cur p e q act reason (f\<lparr>wf_stated := stated\<rparr>) = Inr (db', moved)"
    by auto
  from m c(4) have pe: "cu_phase cur = p" "e = event"
    by (auto simp: apply_Moved_iff observe_facts_def Let_def split: option.splits)
  have why: "\<exists>why. reason = Some why \<and> str_trim why \<noteq> []" if "needs_reason event"
    using that c(1) by (auto simp: check_reason_def split: option.splits if_splits)
  note eff = settle_move_effect [OF assms(1) current_Inr(1) [OF c(2)] s]
  have settled: "rg_revoked_at g \<noteq> None"
    if "phase_is_settled q" "g \<in> set (role_grants (roles_of db'))" "rg_item g = Some task" for g
    using that eff(8) revoke_task_none_live by simp
  have granted: "\<exists>r \<in> set (wa_roles act). permits (ot_rows (permissions (cu_spec cur))) r event"
    if "workflow_event_kind event = Applied"
    using that c(3) by (simp add: authorize_iff)
  have "\<exists>cur f fx. workflow_current codec db task = Inr cur \<and> cu_phase cur = p \<and>
      is_allowed (strategy_authorize (cu_spec cur) (wa_roles act) event) \<and>
      (workflow_event_kind event = Applied \<longrightarrow>
         (\<exists>r \<in> set (wa_roles act). permits (ot_rows (permissions (cu_spec cur))) r event)) \<and>
      observe_facts db task cur = Inr f \<and>
      machine_apply workflow_domain (graph_machine (sp_graph (cu_spec cur))) (f\<lparr>wf_stated := stated\<rparr>) event =
        Moved p event q fx"
    using c m pe granted by blast
  with WM_To pq pe(2) why eff(2-5,7) settled show ?thesis by auto
qed (use fire_cases [OF assms(2)] in auto)

section \<open>Pinned strategies\<close>

datatype workflow_cmd =
  WC_Define string string string strategy_spec
| WC_Fire string write_meta int workflow_event workflow_actor "string option" "phase option"
| WC_Observe string write_meta int workflow_actor
| WC_FollowLanding string write_meta int
| WC_SetStrategy string write_meta int string workflow_actor

fun workflow_exec :: "spec_codec \<Rightarrow> core_db \<Rightarrow> workflow_cmd \<Rightarrow> core_db core_result" where
  "workflow_exec codec db (WC_Define now name describe spec) =
     result_bind (define_strategy codec now db name describe spec) (\<lambda>(d, _). Inr d)"
| "workflow_exec codec db (WC_Fire now meta task event act reason stated) =
     result_bind (workflow_fire codec now db meta task event act reason stated) (\<lambda>(d, _). Inr d)"
| "workflow_exec codec db (WC_Observe now meta task act) =
     result_bind (workflow_observe codec now db meta task act) (\<lambda>(d, _). Inr d)"
| "workflow_exec codec db (WC_FollowLanding now meta task) =
     result_bind (follow_landing codec now db meta task) (\<lambda>(d, _). Inr d)"
| "workflow_exec codec db (WC_SetStrategy now meta task name act) =
     result_bind (set_strategy codec now db meta task name act) (\<lambda>(d, _). Inr d)"

text \<open>A refused operation rolls back.\<close>

definition workflow_run :: "spec_codec \<Rightarrow> core_db \<Rightarrow> workflow_cmd \<Rightarrow> core_db" where
  "workflow_run codec db c = (case workflow_exec codec db c of Inl _ \<Rightarrow> db | Inr db' \<Rightarrow> db')"

definition pin_of :: "core_db \<Rightarrow> int \<Rightarrow> (string \<times> string) option" where
  "pin_of db task = pinned_spec (workflow_history db task)"

fun unpins :: "core_db \<Rightarrow> workflow_cmd \<Rightarrow> int \<Rightarrow> string \<times> string \<Rightarrow> bool" where
  "unpins db (WC_SetStrategy now meta task name act) t p \<longleftrightarrow> task = t \<and> Operator \<in> set (wa_roles act)"
| "unpins db _ t p \<longleftrightarrow> False"

text \<open>What every move keeps: the order of the log, and the pins there are.\<close>

definition keeps_pins :: "core_db \<Rightarrow> core_db \<Rightarrow> bool" where
  "keeps_pins db db' \<longleftrightarrow> workflow_log_ok db' \<and> (\<forall>t p. pin_of db t = Some p \<longrightarrow> pin_of db' t = Some p)"

lemma settle_keeps_pins:
  assumes "workflow_log_ok db" and "workflow_current codec db task = Inr cur"
    and "settle_move codec now db meta task cur p e q act reason f = Inr (db', moved)"
  shows "keeps_pins db db'"
proof -
  note eff = settle_move_effect [OF assms(1) current_Inr(1) [OF assms(2)] assms(3)]
  have "pin_of db' t = Some x" if "pin_of db t = Some x" for t x
    using that eff(6) eff(7) [of t] by (cases "t = task") (auto simp: pin_of_def pins_def)
  with eff(2) show ?thesis by (simp add: keeps_pins_def)
qed

lemma keeps_pins_refl: "workflow_log_ok db \<Longrightarrow> keeps_pins db db"
  by (simp add: keeps_pins_def)

lemma moves_keep_pins:
  assumes "workflow_log_ok db"
  shows "workflow_fire codec now db meta task event act reason stated = Inr (db', moved) \<Longrightarrow> keeps_pins db db'"
    and "workflow_observe codec now db meta task act = Inr (db', moved) \<Longrightarrow> keeps_pins db db'"
    and "follow_landing codec now db meta task = Inr (db', moved) \<Longrightarrow> keeps_pins db db'"
  using settle_keeps_pins [OF assms] keeps_pins_refl [OF assms]
  by (fastforce dest!: fire_cases observe_cases follow_cases split: workflow_moved.splits)+

lemma exec_keeps_pins:
  assumes ok: "workflow_log_ok db" and e: "workflow_exec codec db c = Inr db'"
    and c: "\<forall>now meta task name act. c \<noteq> WC_SetStrategy now meta task name act"
  shows "keeps_pins db db'"
proof (cases c)
  case (WC_Define now name describe spec)
  with e obtain v where "define_strategy codec now db name describe spec = Inr (db', v)" by (auto simp: result_bind_Inr)
  then have "\<exists>ws. db' = db\<lparr>workflow_strategies := ws\<rparr>"
    by (auto simp: define_strategy_def result_bind_Inr Let_def split: if_splits)
  with ok show ?thesis by (auto simp: keeps_pins_def pin_of_def)
next
  case (WC_Fire now meta task event act reason stated)
  with e obtain moved where "workflow_fire codec now db meta task event act reason stated = Inr (db', moved)"
    by (auto simp: result_bind_Inr)
  then show ?thesis by (rule moves_keep_pins(1) [OF ok])
next
  case (WC_Observe now meta task act)
  with e obtain moved where "workflow_observe codec now db meta task act = Inr (db', moved)"
    by (auto simp: result_bind_Inr)
  then show ?thesis by (rule moves_keep_pins(2) [OF ok])
next
  case (WC_FollowLanding now meta task)
  with e obtain moved where "follow_landing codec now db meta task = Inr (db', moved)"
    by (auto simp: result_bind_Inr)
  then show ?thesis by (rule moves_keep_pins(3) [OF ok])
qed (use c in blast)

lemma set_strategy_Inr:
  assumes "workflow_log_ok db" and "set_strategy codec now db meta task name act = Inr (db', spec)"
  shows "Operator \<in> set (wa_roles act) \<and> workflow_log_ok db' \<and> (\<forall>t. t \<noteq> task \<longrightarrow> pin_of db' t = pin_of db t)"
proof -
  from assms(2) have op: "Operator \<in> set (wa_roles act)"
    and "\<exists>ph source json. db' = append_workflow now db meta task ''set_strategy'' (Some ph) ph act (Some source) (Some json) None"
    by (auto simp: set_strategy_def result_bind_Inr split: if_splits)
  then obtain ph source json where
    db': "db' = append_workflow now db meta task ''set_strategy'' (Some ph) ph act (Some source) (Some json) None"
    by blast
  have "pin_of db' t = pin_of db t" if "t \<noteq> task" for t
    using append_workflow_history [OF assms(1)] that unfolding db' pin_of_def by metis
  with op show ?thesis by (simp add: db' append_workflow_ok [OF assms(1)])
qed

interpretation pins: held_while workflow_log_ok pin_of "workflow_run codec" unpins for codec
proof
  fix db n h c
  assume ok: "workflow_log_ok db"
  have "workflow_log_ok (workflow_run codec db c) \<and>
      (pin_of db n = Some h \<and> \<not> unpins db c n h \<longrightarrow> pin_of (workflow_run codec db c) n = Some h)"
  proof (cases "workflow_exec codec db c")
    case (Inr db')
    then have run: "workflow_run codec db c = db'" by (simp add: workflow_run_def)
    show ?thesis
    proof (cases "\<exists>now meta task name act. c = WC_SetStrategy now meta task name act")
      case True
      then obtain now meta task name act where c: "c = WC_SetStrategy now meta task name act" by blast
      with Inr obtain spec where "set_strategy codec now db meta task name act = Inr (db', spec)"
        by (auto simp: result_bind_Inr)
      from set_strategy_Inr [OF ok this] c run show ?thesis by (cases "task = n") auto
    next
      case False
      then have "keeps_pins db db'" using exec_keeps_pins [OF ok Inr] by blast
      then show ?thesis unfolding run keeps_pins_def by blast
    qed
  qed (simp add: workflow_run_def ok)
  then show "workflow_log_ok (workflow_run codec db c)"
    and "pin_of db n = Some h \<Longrightarrow> \<not> unpins db c n h \<Longrightarrow> pin_of (workflow_run codec db c) n = Some h"
    by blast+
qed

text \<open>What is asked of serde: a strategy it wrote reads back.\<close>

definition codec_ok :: "spec_codec \<Rightarrow> bool" where
  "codec_ok codec \<longleftrightarrow> (\<forall>spec j. sc_print codec spec = Inr j \<longrightarrow> sc_parse codec j = Inr spec)"

text \<open>After a move the strategy the task was running is pinned, in a form that reads back.\<close>

lemma move_pins:
  assumes "codec_ok codec" and "workflow_log_ok db" and cur: "workflow_current codec db task = Inr cur"
    and "settle_move codec now db meta task cur p e q act reason f = Inr (db', moved)"
  shows "\<exists>j source. pin_of db' task = Some (j, source) \<and> strategy_from_json codec j = Inr (cu_spec cur)"
proof -
  have "pins codec cur (workflow_history db task) (workflow_history db' task)"
    by (rule settle_move_effect(6) [OF assms(2) current_Inr(1) [OF cur] assms(4)])
  moreover have "strategy_from_json codec j = Inr (cu_spec cur)" if "strategy_to_json codec (cu_spec cur) = Inr j" for j
    using that assms(1) current_Inr(3) [OF cur]
    by (auto simp: strategy_to_json_def strategy_from_json_def codec_ok_def split: sum.splits)
  ultimately show ?thesis
    using current_Inr(4) [OF cur] by (auto simp: pins_def pin_of_def split: option.splits)
qed


section \<open>Landings\<close>

lemma landed_row:
  "\<not> phase_is_settled p \<Longrightarrow>
     machine_row (graph_machine g) p W_ObservedLanded = Some (guarded p W_ObservedLanded Ph_Landed observed_landed)"
  by (cases p) (simp_all add: machine_row_def graph_transitions_shared graph_rows_defs phase_is_settled_def)

lemma landed_moves:
  "\<not> phase_is_settled (wf_phase f) \<Longrightarrow> wf_landed f = Yes \<Longrightarrow>
     machine_apply workflow_domain (graph_machine g) f W_ObservedLanded = Moved (wf_phase f) W_ObservedLanded Ph_Landed []"
  by (simp add: apply_Moved_iff landed_row) (simp add: guarded_def run_guard_def run_plan_def guard_simps)

lemma follow_landing_settles:
  assumes "workflow_log_ok db" and "follow_landing codec now db meta task = Inr (db', moved)"
  shows "\<exists>p. phase_parse (current_phase_name db' task) = Some p \<and> phase_is_settled p"
    and "workflow_log_ok db'" and "same_but_workflow db db'"
proof -
  from assms(2) obtain cur where cur: "workflow_current codec db task = Inr cur"
    by (auto simp: follow_landing_def result_bind_Inr)
  have "(\<exists>p. phase_parse (current_phase_name db' task) = Some p \<and> phase_is_settled p) \<and> workflow_log_ok db' \<and> same_but_workflow db db'"
  proof (cases "phase_is_settled (cu_phase cur)")
    case True
    with assms cur current_Inr(2) [OF cur] show ?thesis by (auto simp: follow_landing_def)
  next
    case False
    with assms cur obtain f where f: "observe_facts db task cur = Inr f"
      and s: "workflow_settle codec now db meta task cur
        (machine_apply workflow_domain (graph_machine (sp_graph (cu_spec cur))) (f\<lparr>wf_landed := Yes\<rparr>) W_ObservedLanded)
        \<lparr>wa_roles = [], wa_principal = ''lifecycle''\<rparr> None (f\<lparr>wf_landed := Yes\<rparr>) = Inr (db', moved)"
      by (auto simp: follow_landing_def result_bind_Inr Let_def)
    from f have ph: "wf_phase f = cu_phase cur" by (auto simp: observe_facts_def Let_def split: option.splits)
    have "cu_phase cur \<noteq> Ph_Landed" using False by (auto simp: phase_is_settled_def)
    with s ph False have
      m: "settle_move codec now db meta task cur (cu_phase cur) W_ObservedLanded Ph_Landed
        \<lparr>wa_roles = [], wa_principal = ''lifecycle''\<rparr> None (f\<lparr>wf_landed := Yes\<rparr>) = Inr (db', moved)"
      by (simp add: landed_moves workflow_settle_def)
    moreover have "phase_is_settled Ph_Landed" by (simp add: phase_is_settled_def)
    ultimately show ?thesis
      using settle_move_effect(2-4) [OF assms(1) current_Inr(1) [OF cur] m] phase_parse_name by metis
  qed
  then show "\<exists>p. phase_parse (current_phase_name db' task) = Some p \<and> phase_is_settled p"
    and "workflow_log_ok db'" and "same_but_workflow db db'" by simp_all
qed

text \<open>It fails only where the strategy cannot be read or written, or there is no such task.\<close>

lemma follow_landing_total:
  assumes "workflow_current codec db task = Inr cur" and "find_item db task \<noteq> None"
    and "\<And>spec. \<exists>j. sc_print codec spec = Inr j"
  shows "\<exists>r. follow_landing codec now db meta task = Inr r"
proof -
  obtain j where j: "sc_print codec (cu_spec cur) = Inr j" using assms(3) by blast
  have "\<exists>r. workflow_settle codec now db meta task cur out act None f = Inr r" for out act f
    using j by (cases out) (auto simp: workflow_settle_def settle_move_def pin_first_def strategy_to_json_def Let_def case_prod_unfold)
  moreover obtain f where "observe_facts db task cur = Inr f"
    using assms(2) by (auto simp: observe_facts_def Let_def)
  ultimately show ?thesis using assms(1) by (auto simp: follow_landing_def Let_def)
qed

section \<open>An example\<close>

text \<open>A codec that knows one spec, and a store with one open task.\<close>

definition one_codec :: "strategy_spec \<Rightarrow> spec_codec" where
  "one_codec spec =
     \<lparr>sc_parse = (\<lambda>j. if j = ''s'' then Inr spec else Inl ''unknown''),
      sc_print = (\<lambda>s. if s = spec then Inr ''s'' else Inl ''unknown'')\<rparr>"

lemma one_codec_ok: "codec_ok (one_codec spec)"
  by (simp add: codec_ok_def one_codec_def)

definition one_task_db :: core_db where
  "one_task_db = empty_core_db\<lparr>items := [
     \<lparr>it_id = 3, it_uid = ''u'', it_kind = ''task'', it_content = None, it_content_hash = None,
      it_mime = None, it_status = Some ''open'', it_priority = None, it_due = None, it_metadata = ''{}'',
      it_created_at = ''t0'', it_updated_at = ''t0'', it_claimant_id = None, it_claimed_at = None,
      it_resolution = None, it_content_rev = 0, it_chunked_rev = None\<rparr>]\<rparr>"

definition one_meta :: write_meta where "one_meta = \<lparr>wm_txn_id = 1, wm_actor = ''cli''\<rparr>"

definition a_designer :: workflow_actor where
  "a_designer = \<lparr>wa_roles = [Designer], wa_principal = ''grant:1''\<rparr>"

lemma one_task_log_ok: "workflow_log_ok one_task_db"
  by (simp add: workflow_log_ok_def one_task_db_def empty_core_db_def)

lemma one_task_fired:
  "case workflow_fire (one_codec (ps_spec (PRESETS ! 0))) ''t1'' one_task_db one_meta 3 W_SubmitDesign a_designer None None of
     Inr (db', moved) \<Rightarrow> moved = WM_To Ph_Design W_SubmitDesign Ph_DesignReview 0
   | Inl _ \<Rightarrow> False"
  by code_simp

definition one_fired :: core_db where
  "one_fired =
     (case workflow_fire (one_codec (ps_spec (PRESETS ! 0))) ''t1'' one_task_db one_meta 3 W_SubmitDesign a_designer None None of
        Inr (db', _) \<Rightarrow> db' | Inl _ \<Rightarrow> empty_core_db)"

lemma one_fired_Inr:
  "workflow_fire (one_codec (ps_spec (PRESETS ! 0))) ''t1'' one_task_db one_meta 3 W_SubmitDesign a_designer None None =
     Inr (one_fired, WM_To Ph_Design W_SubmitDesign Ph_DesignReview 0)"
  using one_task_fired by (auto simp: one_fired_def split: sum.splits)

theorem workflow_fire_spec_witness:
  "is_allowed (strategy_authorize (ps_spec (PRESETS ! 0)) [Designer] W_SubmitDesign) \<and>
   (\<exists>cur. workflow_current (one_codec (ps_spec (PRESETS ! 0))) one_task_db 3 = Inr cur \<and>
      permits (ot_rows (permissions (cu_spec cur))) Designer W_SubmitDesign) \<and>
   current_phase_name one_fired 3 = ''design_review'' \<and> wt_role (last (workflow_history one_fired 3)) = ''designer''"
proof -
  have "is_allowed (strategy_authorize (ps_spec (PRESETS ! 0)) [Designer] W_SubmitDesign)" by code_simp
  moreover have "role_label a_designer = ''designer''" "wa_roles a_designer = [Designer]"
    by (simp_all add: role_label_def a_designer_def)
  ultimately show ?thesis
    using workflow_fire_spec [OF one_task_log_ok one_fired_Inr] by auto
qed


end
