(* ===== verification/Task_Transition.thy ===== *)
theory Task_Transition
  imports Task_Claim Workflow_Store
begin

text \<open>
  Performing a lifecycle transition, the writing half of \<open>crates/jkb-core/src/transition.rs\<close>:
  \<open>perform\<close> asks the machine of \<open>Task_Lifecycle\<close>, applies the whole plan (\<open>Task_Claim\<close>), records
  one row (\<open>Task_History\<close>) and lets the workflow follow a landing (\<open>Workflow_Store\<close>). With it the
  callers in \<open>crates/jkb-core/src/task.rs\<close> that set a status, the facts the database alone can tell
  (\<open>task::observe\<close>), and the crash-recovery scan.

  The lemmas show that every sequence of these operations keeps a finished task unclaimed, and
  that \<open>perform\<close> moves, records and parks together or not at all.
\<close>

section \<open>Facts the database can tell\<close>

definition has_open_subtasks :: "core_db \<Rightarrow> int \<Rightarrow> bool" where
  "has_open_subtasks db task \<longleftrightarrow>
     list_ex (\<lambda>(child, parent). parent = task \<and>
       (case find_item db child of Some c \<Rightarrow> sql_not_terminal (it_status c) | None \<Rightarrow> False)) (containment db)"

definition task_observe :: "core_db \<Rightarrow> int \<Rightarrow> task_facts core_result" where
  "task_observe db task =
     (case find_item db task of
        None \<Rightarrow> Inl (no_task task)
      | Some r \<Rightarrow> Inr (task_facts_default
          \<lparr>status := (case Option.bind (it_status r) task_status_from_db_str of Some s \<Rightarrow> s | None \<Rightarrow> Open),
           claimant := map_option agent_parse (it_claimant_id r),
           file_backed := fact_from (case map_of (bindings db) task of Some u \<Rightarrow> prefix ''file://'' u | None \<Rightarrow> False),
           open_subtasks := fact_from (has_open_subtasks db task)\<rparr>))"

section \<open>Effects\<close>

definition write_status :: "string \<Rightarrow> core_db \<Rightarrow> write_meta \<Rightarrow> int \<Rightarrow> task_status \<Rightarrow> core_db core_result" where
  "write_status now db meta task st =
     (case find_item db task of
        None \<Rightarrow> Inl (no_task task)
      | Some r \<Rightarrow>
          let db' = update_items (\<lambda>r. it_id r = task)
                (\<lambda>r. r\<lparr>it_status := Some (task_status_as_str st), it_updated_at := now\<rparr>) db
          in result_bind (changelog_append (clog db') meta Op_Update E_Items (int_str task)
               (Some (JObj [(''status'', json_opt (it_status r))]))
               (Some (JObj [(''status'', JStr (task_status_as_str st))])))
             (\<lambda>log. Inr (db'\<lparr>clog := log\<rparr>)))"

fun apply_effect :: "string \<Rightarrow> write_meta \<Rightarrow> int \<Rightarrow> task_effect \<Rightarrow> core_db \<Rightarrow> core_db core_result" where
  "apply_effect now meta task (SetStatus st) db = write_status now db meta task st"
| "apply_effect now meta task (Claim owner) db =
     result_bind (claim now db meta task (agent_as_str owner)) (\<lambda>(db', ok).
       if ok then Inr db'
       else Inl (validation (''task '' @ int_str task @ '' was claimed by somebody else between the check and the write'')))"
| "apply_effect now meta task ReleaseClaim db = result_bind (clear now db meta task) (\<lambda>(db', _). Inr db')"
| "apply_effect now meta task (ReclaimFrom owner) db =
     result_bind (reclaim now db meta task (agent_as_str owner)) (\<lambda>(db', _). Inr db')"

fun apply_effects :: "string \<Rightarrow> write_meta \<Rightarrow> int \<Rightarrow> task_effect list \<Rightarrow> core_db \<Rightarrow> core_db core_result" where
  "apply_effects now meta task [] db = Inr db"
| "apply_effects now meta task (e # es) db =
     result_bind (apply_effect now meta task e db) (apply_effects now meta task es)"

section \<open>Performing\<close>

definition perform ::
  "spec_codec \<Rightarrow> string \<Rightarrow> core_db \<Rightarrow> write_meta \<Rightarrow> int \<Rightarrow> task_facts \<Rightarrow> task_event \<Rightarrow> labels
     \<Rightarrow> (core_db \<times> task_outcome) core_result" where
  "perform codec now db meta task f event lbs =
     (let out = task_apply f event in
      case out of
        Moved from _ to effects \<Rightarrow>
          result_bind (apply_effects now meta task effects db) (\<lambda>db1.
          result_bind (record_transition now db1 meta task event (Some from) to f lbs) (\<lambda>db2.
            if to = Done \<and> (event = Land \<or> event = ObservedLanded)
            then result_bind (follow_landing codec now db2 meta task) (\<lambda>(db3, _). Inr (db3, out))
            else Inr (db2, out)))
      | _ \<Rightarrow> Inr (db, out))"

definition state_change ::
  "spec_codec \<Rightarrow> string \<Rightarrow> core_db \<Rightarrow> write_meta \<Rightarrow> int \<Rightarrow> task_status \<Rightarrow> task_event \<Rightarrow> core_db core_result" where
  "state_change codec now db meta task st event =
     result_bind (task_observe db task) (\<lambda>f0.
     result_bind (perform codec now db meta task (f0\<lparr>stated_status := Some st\<rparr>) event labels_default) (\<lambda>(db', out).
       case outcome_refusal task_domain out of
         Some why \<Rightarrow> Inl (validation why)
       | None \<Rightarrow> Inr db'))"

definition set_status ::
  "spec_codec \<Rightarrow> string \<Rightarrow> core_db \<Rightarrow> write_meta \<Rightarrow> int \<Rightarrow> task_status \<Rightarrow> core_db core_result" where
  "set_status codec now db meta task st = state_change codec now db meta task st Override"

definition set_status_from_file ::
  "spec_codec \<Rightarrow> string \<Rightarrow> core_db \<Rightarrow> write_meta \<Rightarrow> int \<Rightarrow> task_status \<Rightarrow> core_db core_result" where
  "set_status_from_file codec now db meta task st = state_change codec now db meta task st SetFromFile"

definition unsettable :: "string \<Rightarrow> core_error" where
  "unsettable st = validation (''cannot set status `'' @ st @
     ''`: settable statuses are open, in_progress, needs_review, done, cancelled (blocked is derived from depends_on edges, not set)'')"

definition set_status_str ::
  "spec_codec \<Rightarrow> string \<Rightarrow> core_db \<Rightarrow> write_meta \<Rightarrow> int \<Rightarrow> string \<Rightarrow> core_db core_result" where
  "set_status_str codec now db meta task st =
     (case from_manual_str st of
        None \<Rightarrow> Inl (unsettable st)
      | Some parsed \<Rightarrow> set_status codec now db meta task parsed)"

definition set_status_str_from_file ::
  "spec_codec \<Rightarrow> string \<Rightarrow> core_db \<Rightarrow> write_meta \<Rightarrow> int \<Rightarrow> string \<Rightarrow> core_db core_result" where
  "set_status_str_from_file codec now db meta task st =
     (case from_manual_str st of
        None \<Rightarrow> Inl (unsettable st)
      | Some parsed \<Rightarrow> set_status_from_file codec now db meta task parsed)"

section \<open>Crash recovery\<close>

record reclaimed =
  rc_cleared :: "claim_info list"
  rc_unverifiable :: "claim_info list"

definition reclaimed_default :: reclaimed where
  "reclaimed_default = \<lparr>rc_cleared = [], rc_unverifiable = []\<rparr>"

text \<open>One claim of the scan, judged and, if its owner is gone, freed.\<close>

definition reclaim_one ::
  "spec_codec \<Rightarrow> string \<Rightarrow> write_meta \<Rightarrow> (claim_info \<Rightarrow> fact) \<Rightarrow> claim_info \<Rightarrow> core_db \<times> reclaimed
     \<Rightarrow> (core_db \<times> reclaimed) core_result" where
  "reclaim_one codec now meta judge c st =
     (case judge c of
        No \<Rightarrow>
          result_bind (task_observe (fst st) (ci_id c)) (\<lambda>f0.
          result_bind (perform codec now (fst st) meta (ci_id c)
              (f0\<lparr>claimant := Some (agent_parse (ci_owner c)), owner_alive := No\<rparr>) ObservedOwnerGone labels_default)
            (\<lambda>(db', out). Inr (db',
               if outcome_moved out then (snd st)\<lparr>rc_cleared := rc_cleared (snd st) @ [c]\<rparr> else snd st)))
      | Unknown \<Rightarrow> Inr (fst st, (snd st)\<lparr>rc_unverifiable := rc_unverifiable (snd st) @ [c]\<rparr>)
      | Yes \<Rightarrow> Inr st)"

fun reclaim_scan ::
  "spec_codec \<Rightarrow> string \<Rightarrow> write_meta \<Rightarrow> (claim_info \<Rightarrow> fact) \<Rightarrow> claim_info list \<Rightarrow> core_db \<times> reclaimed
     \<Rightarrow> (core_db \<times> reclaimed) core_result" where
  "reclaim_scan codec now meta judge [] st = Inr st"
| "reclaim_scan codec now meta judge (c # cs) st =
     result_bind (reclaim_one codec now meta judge c st) (reclaim_scan codec now meta judge cs)"

definition reclaim_judged ::
  "spec_codec \<Rightarrow> string \<Rightarrow> core_db \<Rightarrow> write_meta \<Rightarrow> (claim_info \<Rightarrow> fact) \<Rightarrow> (core_db \<times> reclaimed) core_result" where
  "reclaim_judged codec now db meta judge =
     reclaim_scan codec now meta judge (claimed db) (db, reclaimed_default)"

section \<open>Plans\<close>

text \<open>The four shapes a plan has.\<close>

lemma task_move_plan:
  assumes "task_apply f e = Moved fr e' to fx"
  shows "fr = status f \<and> e' = e \<and> (e = ObservedOwnerGone \<longleftrightarrow> (\<exists>a. fx = [ReclaimFrom a])) \<and>
    ((\<exists>a. fx = [Claim a] \<and> to = InProgress) \<or> (fx = [SetStatus to] \<and> \<not> is_terminal to) \<or>
     fx = [SetStatus to, ReleaseClaim] \<or>
     (\<exists>a. fx = [ReclaimFrom a] \<and> to = status f \<and> e = ObservedOwnerGone \<and> claimant f = Some a))"
proof -
  from assms obtain t where t: "t \<in> set task_ROWS" "t_from t = status f" "t_event t = e" "e' = e" "fr = status f"
      "run_guard (t_guard t) f = Allow" "resolve (t_to t) f = Res_To to" "fx = run_plan (t_plan t) f"
    by (rule task_movedE)
  have rows: "fx = (case e of
          Start \<Rightarrow> take_claim f
        | Abandon \<Rightarrow> [SetStatus Open, ReleaseClaim]
        | ObservedOwnerGone \<Rightarrow> plan_release f
        | _ \<Rightarrow> task_settle to)"
    using task_rows_facts [of f] t by auto
  have "e = ObservedOwnerGone \<longrightarrow> owner_gone f = Allow"
    using task_rows_guards t(1,3,6) by (auto simp: run_guard_def)
  then show ?thesis
    using rows t task_rows_facts [of f]
    by (cases e) (auto simp: take_claim_def task_settle_def plan_release_def owner_gone_Allow is_terminal_def split: option.splits)
qed

section \<open>What the effects do to the rows\<close>

definition same_but_items :: "core_db \<Rightarrow> core_db \<Rightarrow> bool" where
  "same_but_items db db' \<longleftrightarrow> db' = db\<lparr>items := items db', clog := clog db'\<rparr>"

lemma same_but_items_refl [simp]: "same_but_items db db"
  by (simp add: same_but_items_def)

lemma same_but_items_trans: "same_but_items a b \<Longrightarrow> same_but_items b c \<Longrightarrow> same_but_items a c"
  unfolding same_but_items_def by (cases a; cases b; cases c) simp

lemma same_but_items_update [simp]: "same_but_items db ((update_items hit f db)\<lparr>clog := c\<rparr>)" "same_but_items db (update_items hit f db)"
  by (simp_all add: same_but_items_def update_items_def)

abbreviation status_set :: "string \<Rightarrow> task_status \<Rightarrow> item_row \<Rightarrow> item_row" where
  "status_set now st r \<equiv> r\<lparr>it_status := Some (task_status_as_str st), it_updated_at := now\<rparr>"

abbreviation claim_set :: "string \<Rightarrow> string \<Rightarrow> item_row \<Rightarrow> item_row" where
  "claim_set now owner r \<equiv> r\<lparr>it_claimant_id := Some owner, it_claimed_at := Some now,
     it_status := Some ''in_progress'', it_updated_at := now\<rparr>"

abbreviation claim_unset :: "string \<Rightarrow> item_row \<Rightarrow> item_row" where
  "claim_unset now r \<equiv> r\<lparr>it_claimant_id := None, it_claimed_at := None, it_updated_at := now\<rparr>"

text \<open>\<open>db'\<close> is \<open>db\<close> with the hit rows changed, and entries added to the log.\<close>

definition rows_changed :: "(item_row \<Rightarrow> bool) \<Rightarrow> (item_row \<Rightarrow> item_row) \<Rightarrow> core_db \<Rightarrow> core_db \<Rightarrow> bool" where
  "rows_changed hit f db db' \<longleftrightarrow>
     same_but_items db db' \<and> items db' = map (\<lambda>r. if hit r then f r else r) (items db)"

lemma rows_changed_update [simp]:
  "rows_changed hit f db ((update_items hit f db)\<lparr>clog := c\<rparr>)" "rows_changed hit f db (update_items hit f db)"
  by (simp_all add: rows_changed_def) (simp_all add: update_items_def)

lemma rows_changed_none: "(\<And>r. r \<in> set (items db) \<Longrightarrow> \<not> hit r) \<Longrightarrow> rows_changed hit f db db"
  by (simp add: rows_changed_def map_idI)

lemma status_logs:
  "changelog_append log meta Op_Update E_Items i (Some (JObj [(''status'', a)])) after =
   Inr (log @ [log_entry meta Op_Update E_Items i (Some (JObj [(''status'', a)])) after])"
  by (rule changelog_append_columns) (simp_all add: names_columns_def)

lemma write_status_rows:
  "write_status now db meta task st = Inr db' \<Longrightarrow> rows_changed (\<lambda>r. it_id r = task) (status_set now st) db db'"
  by (auto simp: write_status_def status_logs Let_def split: option.splits)

lemma write_status_total: "find_item db task \<noteq> None \<Longrightarrow> \<exists>db'. write_status now db meta task st = Inr db'"
  by (auto simp: write_status_def status_logs Let_def)

lemma claim_rows:
  "claim now db meta i owner = Inr (db', True) \<Longrightarrow> rows_changed (claimable i owner) (claim_set now owner) db db'"
  by (auto simp: claim_def claim_logs Let_def split: option.splits if_splits)

lemma clear_claim_rows:
  "x = Op_Release \<or> x = Op_Reclaim \<Longrightarrow> clear_claim now db meta i x hit = Inr (db', ok) \<Longrightarrow>
     rows_changed hit (claim_unset now) db db'"
  by (auto simp: clear_claim_def clear_logs Let_def split: option.splits bool.splits)

lemma clear_rows:
  "clear now db meta i = Inr (db', ok) \<Longrightarrow>
     rows_changed (\<lambda>r. it_id r = i \<and> it_claimant_id r \<noteq> None) (claim_unset now) db db'"
  by (auto simp: clear_def clear_inner_def intro: clear_claim_rows)

lemma reclaim_rows:
  "reclaim now db meta i owner = Inr (db', ok) \<Longrightarrow>
     rows_changed (\<lambda>r. it_id r = i \<and> it_claimant_id r \<noteq> None \<and> holder db i = Some owner) (claim_unset now) db db'"
  by (auto simp: reclaim_def clear_inner_def holder_def intro: clear_claim_rows rows_changed_none split: if_splits)

lemma find_item_rows:
  assumes "rows_changed hit f db db'" and "\<And>r. it_id (f r) = it_id r"
  shows "find_item db' n = map_option (\<lambda>r. if hit r then f r else r) (find_item db n)"
proof -
  have "find_item db' n = find_item (update_items hit f db) n"
    using assms(1) by (simp add: rows_changed_def find_item_def update_items_def)
  with find_item_update [of f hit db n] assms(2) show ?thesis by simp
qed

lemma items_keyed_rows: "rows_changed hit f db db' \<Longrightarrow> (\<And>r. it_id (f r) = it_id r) \<Longrightarrow> items_keyed db' = items_keyed db"
  by (simp add: rows_changed_def items_keyed_def comp_def if_distrib cong: if_cong)

section \<open>A finished task is unclaimed\<close>

definition terminal_unclaimed :: "core_db \<Rightarrow> bool" where
  "terminal_unclaimed db \<longleftrightarrow> (\<forall>r \<in> set (items db). is_terminal_str (it_status r) \<longrightarrow> it_claimant_id r = None)"

text \<open>What no operation on tasks and workflows breaks.\<close>

definition tasks_ok :: "core_db \<Rightarrow> bool" where
  "tasks_ok db \<longleftrightarrow> items_keyed db \<and> terminal_unclaimed db \<and> transitions_ok db \<and> workflow_log_ok db"

lemma not_terminal_in_progress [simp]: "\<not> is_terminal_str (Some ''in_progress'')"
  by (simp add: sql_terminal_agrees sql_terminal_list_def)

lemma same_but_items_logs:
  "same_but_items db db' \<Longrightarrow> transitions_ok db' = transitions_ok db \<and> workflow_log_ok db' = workflow_log_ok db \<and>
     history db' t = history db t \<and> workflow_history db' t = workflow_history db t"
  unfolding same_but_items_def
  by (cases db; cases db') (simp add: transitions_ok_def workflow_log_ok_def history_def workflow_history_def)

lemma rows_changed_ok:
  assumes "tasks_ok db" and "rows_changed hit f db db'" and "\<And>r. it_id (f r) = it_id r"
    and "\<And>r. r \<in> set (items db) \<Longrightarrow> hit r \<Longrightarrow> is_terminal_str (it_status (f r)) \<Longrightarrow> it_claimant_id (f r) = None"
  shows "tasks_ok db'"
  using assms items_keyed_rows [OF assms(2,3)] same_but_items_logs [of db db']
  by (auto simp: tasks_ok_def terminal_unclaimed_def rows_changed_def)

lemma claim_ok: "tasks_ok db \<Longrightarrow> claim now db meta i owner = Inr (db', ok) \<Longrightarrow> tasks_ok db'"
  using claim_Inr [of now db meta i owner db' ok] claim_rows [of now db meta i owner db']
  by (cases ok) (auto intro: rows_changed_ok)

lemma clear_claim_ok:
  assumes "tasks_ok db" and "x = Op_Release \<or> x = Op_Reclaim" and "clear_claim now db meta i x hit = Inr (db', ok)"
  shows "tasks_ok db'"
  by (rule rows_changed_ok [OF assms(1) clear_claim_rows [OF assms(2,3)]]) auto

lemma claim_exec_ok: "tasks_ok db \<Longrightarrow> claim_exec db c = Inr (db', ok) \<Longrightarrow> tasks_ok db'"
  by (cases c) (auto simp: clear_def clear_if_def reclaim_def release_def clear_inner_def
      dest: claim_ok clear_claim_ok split: if_splits)

section \<open>What performing does\<close>

lemma claim_True:
  assumes "items_keyed db" and "claim now db meta i owner = Inr (db', True)"
  shows "\<exists>r. find_item db i = Some r \<and> claimable i owner r \<and> find_item db' i = Some (claim_set now owner r)"
proof -
  from assms(2) claim_refused [of now db meta i owner] obtain r where
    r: "find_item db i = Some r" "\<not> is_terminal_str (it_status r)" by (auto split: option.splits)
  with claim_answer [OF assms(1) r, of now meta owner] assms(2) have "claimable i owner r" by auto
  with r find_item_rows [OF claim_rows [OF assms(2)], of i] show ?thesis by simp
qed

lemma settled_rows:
  assumes "tasks_ok db" and w: "write_status now db meta task st = Inr db1" and c: "clear now db1 meta task = Inr (db', ok)"
  shows "tasks_ok db'" and "same_but_items db db'"
    and "find_item db' n = map_option (\<lambda>r. if it_id r = task
      then r\<lparr>it_status := Some (task_status_as_str st), it_updated_at := now, it_claimant_id := None,
             it_claimed_at := if it_claimant_id r = None then it_claimed_at r else None\<rparr> else r) (find_item db n)"
proof -
  note w' = write_status_rows [OF w] and c' = clear_rows [OF c]
  show same: "same_but_items db db'" using w' c' by (auto simp: rows_changed_def intro: same_but_items_trans)
  have rows: "items db' = map (\<lambda>r. if it_id r = task
      then r\<lparr>it_status := Some (task_status_as_str st), it_updated_at := now, it_claimant_id := None,
             it_claimed_at := if it_claimant_id r = None then it_claimed_at r else None\<rparr> else r) (items db)"
    using w' c' by (auto simp: rows_changed_def)
  have "rows_changed (\<lambda>r. it_id r = task) (\<lambda>r. r\<lparr>it_status := Some (task_status_as_str st), it_updated_at := now,
      it_claimant_id := None, it_claimed_at := if it_claimant_id r = None then it_claimed_at r else None\<rparr>) db db'"
    using same rows by (simp add: rows_changed_def)
  from rows_changed_ok [OF assms(1) this] find_item_rows [OF this] show "tasks_ok db'"
    and "find_item db' n = map_option (\<lambda>r. if it_id r = task
      then r\<lparr>it_status := Some (task_status_as_str st), it_updated_at := now, it_claimant_id := None,
             it_claimed_at := if it_claimant_id r = None then it_claimed_at r else None\<rparr> else r) (find_item db n)"
    by simp_all
qed

text \<open>A plan, carried out.\<close>

definition plan_done :: "task_status \<Rightarrow> task_effect list \<Rightarrow> int \<Rightarrow> core_db \<Rightarrow> core_db \<Rightarrow> bool" where
  "plan_done to fx task db db' \<longleftrightarrow>
     tasks_ok db' \<and> same_but_items db db' \<and> (\<forall>n. n \<noteq> task \<longrightarrow> find_item db' n = find_item db n) \<and>
     (\<forall>r'. find_item db' task = Some r' \<longrightarrow>
        (\<exists>r. find_item db task = Some r \<and>
           it_status r' = (if \<exists>a. fx = [ReclaimFrom a] then it_status r else Some (task_status_as_str to))))"

lemma plan_effect:
  assumes ok: "tasks_ok db" and e: "apply_effects now meta task fx db = Inr db'"
    and shape: "(\<exists>a. fx = [Claim a] \<and> to = InProgress) \<or> (fx = [SetStatus to] \<and> \<not> is_terminal to) \<or>
     fx = [SetStatus to, ReleaseClaim] \<or> (\<exists>a. fx = [ReclaimFrom a])"
  shows "plan_done to fx task db db'"
proof -
  have id: "find_item db n = Some r \<Longrightarrow> it_id r = n" for n r using find_item_Some by blast
  consider (claim) a where "fx = [Claim a]" "to = InProgress" | (set) "fx = [SetStatus to]" "\<not> is_terminal to"
    | (settle) "fx = [SetStatus to, ReleaseClaim]" | (free) a where "fx = [ReclaimFrom a]"
    using shape by blast
  then show ?thesis
  proof cases
    case claim
    with e have c: "claim now db meta task (agent_as_str a) = Inr (db', True)"
      by (auto simp: result_bind_Inr split: if_splits)
    have "same_but_items db db'" using claim_rows [OF c] by (simp add: rows_changed_def)
    moreover have "find_item db' n = find_item db n" if "n \<noteq> task" for n
      using that id find_item_rows [OF claim_rows [OF c], of n] by (cases "find_item db n") (auto simp: claimable_def)
    ultimately show ?thesis
      using claim claim_ok [OF ok c] claim_True [OF _ c] ok by (auto simp: plan_done_def tasks_ok_def)
  next
    case set
    with e have w: "write_status now db meta task to = Inr db'" by (simp add: result_bind_Inr)
    note rows = write_status_rows [OF w]
    have "tasks_ok db'" by (rule rows_changed_ok [OF ok rows]) (use set in simp_all)
    with set rows find_item_rows [OF rows] id show ?thesis
      by (auto simp: plan_done_def rows_changed_def map_option_case split: option.splits)
  next
    case settle
    with e obtain db1 res where w: "write_status now db meta task to = Inr db1" and c: "clear now db1 meta task = Inr (db', res)"
      by (auto simp: result_bind_Inr)
    from settled_rows [OF ok w c] settle id show ?thesis
      by (auto simp: plan_done_def map_option_case split: option.splits)
  next
    case free
    with e obtain res where c: "reclaim now db meta task (agent_as_str a) = Inr (db', res)"
      by (auto simp: result_bind_Inr)
    note rows = reclaim_rows [OF c]
    have "tasks_ok db'" by (rule rows_changed_ok [OF ok rows]) simp_all
    with free rows find_item_rows [OF rows] id show ?thesis
      by (auto simp: plan_done_def rows_changed_def map_option_case split: option.splits)
  qed
qed

lemma insert_transition_rest:
  assumes "insert_transition db meta now task event from to ag lbs evid = Inr db'"
  shows "find_item db task \<noteq> None" and "items db' = items db" and "clog db' = clog db"
    and "workflow_transitions db' = workflow_transitions db" and "workflow_seq db' = workflow_seq db"
    and "roles_of db' = roles_of db" and "workflow_strategies db' = workflow_strategies db"
  using assms by (auto simp: insert_transition_def split: if_splits)

lemma items_same:
  assumes "items db' = items db"
  shows "find_item db' n = find_item db n" and "items_keyed db' = items_keyed db"
    and "terminal_unclaimed db' = terminal_unclaimed db" and "holder db' n = holder db n"
  using assms by (simp_all add: find_item_def items_keyed_def terminal_unclaimed_def holder_find)

lemma transitions_same:
  assumes "task_transitions db' = task_transitions db" and "transitions_seq db' = transitions_seq db"
  shows "transitions_ok db' = transitions_ok db" and "history db' t = history db t"
  using assms by (simp_all add: transitions_ok_def history_def)

lemma workflow_same:
  assumes "workflow_transitions db' = workflow_transitions db" and "workflow_seq db' = workflow_seq db"
  shows "workflow_log_ok db' = workflow_log_ok db" and "workflow_history db' t = workflow_history db t"
  using assms by (simp_all add: workflow_log_ok_def workflow_history_def)

lemma insert_transition_ok:
  "tasks_ok db \<Longrightarrow> insert_transition db meta now task event from to ag lbs evid = Inr db' \<Longrightarrow> tasks_ok db'"
  using insert_transition_rest [of db meta now task event "from" to ag lbs evid db']
    insert_transition_history(1) [of db meta now task event "from" to ag lbs evid db'] items_same [of db' db]
    workflow_same(1) [of db' db]
  by (simp add: tasks_ok_def)

lemma same_but_workflow_items:
  assumes "same_but_workflow db db'"
  shows "items db' = items db" and "task_transitions db' = task_transitions db" and "transitions_seq db' = transitions_seq db"
  using assms unfolding same_but_workflow_def by (cases db; cases db'; simp)+

lemma same_but_workflow_ok:
  assumes "same_but_workflow db db'" and "tasks_ok db" and "workflow_log_ok db'"
  shows "tasks_ok db'"
  using assms same_but_workflow_items [OF assms(1)] items_same [of db' db] transitions_same [of db' db]
  by (simp add: tasks_ok_def)

lemma same_but_items_rest:
  assumes "same_but_items db db'"
  shows "task_transitions db' = task_transitions db" and "transitions_seq db' = transitions_seq db"
    and "workflow_transitions db' = workflow_transitions db" and "workflow_seq db' = workflow_seq db"
    and "roles_of db' = roles_of db"
  using assms unfolding same_but_items_def by (cases db; cases db'; simp)+

text \<open>A move that was performed: the plan, then one row, then the workflow where it landed.\<close>

lemma perform_moved:
  assumes ok: "tasks_ok db" and p: "perform codec now db meta task f event lbs = Inr (db', Moved fr e to fx)"
  shows "\<exists>db1 db2. task_apply f event = Moved fr e to fx \<and> plan_done to fx task db db1 \<and>
    record_transition now db1 meta task event (Some fr) to f lbs = Inr db2 \<and> tasks_ok db2 \<and>
    same_but_workflow db2 db' \<and> tasks_ok db' \<and>
    (to = Done \<and> event \<in> {Land, ObservedLanded} \<longrightarrow>
       (\<exists>ph. phase_parse (current_phase_name db' task) = Some ph \<and> phase_is_settled ph))"
proof -
  from p have a: "task_apply f event = Moved fr e to fx"
    by (auto simp: perform_def Let_def result_bind_Inr split: outcome.splits if_splits)
  with p obtain db1 db2 where e: "apply_effects now meta task fx db = Inr db1"
    and r: "record_transition now db1 meta task event (Some fr) to f lbs = Inr db2"
    and l: "if to = Done \<and> (event = Land \<or> event = ObservedLanded)
      then \<exists>m. follow_landing codec now db2 meta task = Inr (db', m) else db' = db2"
    by (auto simp: perform_def Let_def result_bind_Inr split: if_splits)
  have d: "plan_done to fx task db db1"
    by (rule plan_effect [OF ok e]) (use task_move_plan [OF a] in blast)
  then have ok2: "tasks_ok db2"
    using r insert_transition_ok by (auto simp: plan_done_def record_transition_def)
  show ?thesis
  proof (cases "to = Done \<and> (event = Land \<or> event = ObservedLanded)")
    case True
    with l obtain m where m: "follow_landing codec now db2 meta task = Inr (db', m)" by auto
    from ok2 have w: "workflow_log_ok db2" by (simp add: tasks_ok_def)
    note fl = follow_landing_settles [OF w m]
    show ?thesis using a d r ok2 fl same_but_workflow_ok [OF fl(3) ok2 fl(2)] by blast
  next
    case False
    with l a d r ok2 show ?thesis by auto
  qed
qed

lemma perform_unmoved:
  "perform codec now db meta task f event lbs = Inr (db', out) \<Longrightarrow>
     out = task_apply f event \<and> (\<not> outcome_moved out \<longrightarrow> db' = db)"
  by (auto simp: perform_def Let_def result_bind_Inr split: outcome.splits if_splits)

lemma perform_ok: "tasks_ok db \<Longrightarrow> perform codec now db meta task f event lbs = Inr (db', out) \<Longrightarrow> tasks_ok db'"
  using perform_moved [of db codec now meta task f event lbs db'] perform_unmoved [of codec now db meta task f event lbs db' out]
  by (cases out) auto

text \<open>
  C4. A transition is performed whole or not at all. When the machine moves the task, its status
  column holds the destination (a reclaim leaves it), the claim is released if the task is
  finished, exactly one row is appended to its history, with the event, both statuses, the
  labels and the facts, no other task's row or history changes, and a landing leaves the
  task's workflow parked. A refusal changes nothing.
\<close>

theorem perform_whole:
  assumes "tasks_ok db" and "perform codec now db meta task f event lbs = Inr (db', out)"
  shows "out = task_apply f event \<and>
    (case out of
       Moved fr e to fx \<Rightarrow>
         tasks_ok db' \<and>
         (\<exists>r r'. find_item db task = Some r \<and> find_item db' task = Some r' \<and>
            it_status r' = (if event = ObservedOwnerGone then it_status r else Some (task_status_as_str to)) \<and>
            (is_terminal_str (it_status r') \<longrightarrow> it_claimant_id r' = None)) \<and>
         (\<exists>h. history db' task = history db task @ [h] \<and> tr_event h = task_event_name event \<and>
            tr_from_status h = Some (task_status_as_str (status f)) \<and> tr_to_status h = task_status_as_str to \<and>
            tr_labels h = lbs \<and> tr_evidence h = Some (evidence_value f)) \<and>
         (\<forall>other. other \<noteq> task \<longrightarrow> history db' other = history db other \<and> find_item db' other = find_item db other) \<and>
         (to = Done \<and> event \<in> {Land, ObservedLanded} \<longrightarrow>
            (\<exists>ph. phase_parse (current_phase_name db' task) = Some ph \<and> phase_is_settled ph))
     | _ \<Rightarrow> db' = db)"
proof (cases out)
  case (Moved fr e to fx)
  with assms(2) have "perform codec now db meta task f event lbs = Inr (db', Moved fr e to fx)" by simp
  from perform_moved [OF assms(1) this] obtain db1 db2 where
    a: "task_apply f event = Moved fr e to fx" and d: "plan_done to fx task db db1"
    and r: "record_transition now db1 meta task event (Some fr) to f lbs = Inr db2"
    and w: "same_but_workflow db2 db'" "tasks_ok db'"
    and park: "to = Done \<and> event \<in> {Land, ObservedLanded} \<longrightarrow>
       (\<exists>ph. phase_parse (current_phase_name db' task) = Some ph \<and> phase_is_settled ph)" by blast
  have d': "tasks_ok db1" "same_but_items db db1" "\<And>n. n \<noteq> task \<Longrightarrow> find_item db1 n = find_item db n"
    using d by (simp_all add: plan_done_def)
  note ins = r [unfolded record_transition_def]
  note rest = insert_transition_rest [OF ins]
  have find: "find_item db' n = find_item db1 n" for n
    using items_same(1) [OF same_but_workflow_items(1) [OF w(1)]] items_same(1) [OF rest(2)] by simp
  from rest(1) obtain r' where r': "find_item db1 task = Some r'" by blast
  with d obtain r0 where r0: "find_item db task = Some r0"
    "it_status r' = (if \<exists>a. fx = [ReclaimFrom a] then it_status r0 else Some (task_status_as_str to))"
    by (auto simp: plan_done_def)
  note shape = task_move_plan [OF a]
  have "is_terminal_str (it_status r') \<longrightarrow> it_claimant_id r' = None"
    using d'(1) find_item_Some [OF r'] by (auto simp: tasks_ok_def terminal_unclaimed_def)
  with r0 r' find shape have row: "\<exists>r r'. find_item db task = Some r \<and> find_item db' task = Some r' \<and>
            it_status r' = (if event = ObservedOwnerGone then it_status r else Some (task_status_as_str to)) \<and>
            (is_terminal_str (it_status r') \<longrightarrow> it_claimant_id r' = None)"
    by auto
  have hist: "history db' t = history db2 t" "history db1 t = history db t" for t
    using transitions_same(2) [OF same_but_workflow_items(2,3) [OF w(1)]]
      transitions_same(2) [OF same_but_items_rest(1,2) [OF d'(2)]] by simp_all
  have t1: "transitions_ok db1" using d'(1) by (simp add: tasks_ok_def)
  note grown = insert_transition_history(2,3) [OF t1 ins]
  have "\<exists>h. history db' task = history db task @ [h] \<and> tr_event h = task_event_name event \<and>
            tr_from_status h = Some (task_status_as_str (status f)) \<and> tr_to_status h = task_status_as_str to \<and>
            tr_labels h = lbs \<and> tr_evidence h = Some (evidence_value f)"
    using grown(1) hist shape by simp
  moreover have "\<forall>other. other \<noteq> task \<longrightarrow> history db' other = history db other \<and> find_item db' other = find_item db other"
    using grown(2) hist find d'(3) by simp
  ultimately show ?thesis using Moved a w(2) row park by simp
qed (use perform_unmoved [OF assms(2)] in simp_all)

text \<open>A store with one claimed task in progress, and a landing of it.\<close>

definition working_db :: core_db where
  "working_db = empty_core_db\<lparr>items := [task_item 3 (Some ''in_progress'') (Some ''host:7'')]\<rparr>"

lemma working_db_ok: "tasks_ok working_db"
  by (simp add: tasks_ok_def working_db_def items_keyed_def terminal_unclaimed_def transitions_ok_def
      workflow_log_ok_def empty_core_db_def task_item_def)

definition landed_facts :: task_facts where
  "landed_facts = task_facts_default\<lparr>status := InProgress, landed_elsewhere := Yes, open_subtasks := No\<rparr>"

lemma working_landed:
  "case perform (one_codec (ps_spec (PRESETS ! 0))) ''t1'' working_db one_meta 3 landed_facts ObservedLanded labels_default of
     Inr (_, out) \<Rightarrow> out = Moved InProgress ObservedLanded Done [SetStatus Done, ReleaseClaim]
   | Inl _ \<Rightarrow> False"
  by code_simp

theorem perform_whole_witness:
  "\<exists>db'. perform (one_codec (ps_spec (PRESETS ! 0))) ''t1'' working_db one_meta 3 landed_facts ObservedLanded labels_default =
     Inr (db', Moved InProgress ObservedLanded Done [SetStatus Done, ReleaseClaim]) \<and>
   Option.bind (find_item db' 3) it_status = Some ''done'' \<and> holder db' 3 = None \<and> length (history db' 3) = 1 \<and>
   (\<exists>ph. phase_parse (current_phase_name db' 3) = Some ph \<and> phase_is_settled ph)"
proof -
  obtain db' where p: "perform (one_codec (ps_spec (PRESETS ! 0))) ''t1'' working_db one_meta 3 landed_facts ObservedLanded labels_default =
     Inr (db', Moved InProgress ObservedLanded Done [SetStatus Done, ReleaseClaim])"
    using working_landed by (auto split: sum.splits)
  have "is_terminal_str (Some ''done'')" by (simp add: sql_terminal_agrees sql_terminal_list_def)
  moreover have "history working_db 3 = []" by (simp add: history_def working_db_def empty_core_db_def)
  ultimately show ?thesis
    using perform_whole [OF working_db_ok p] p by (auto simp: holder_find)
qed

section \<open>Every sequence of operations\<close>

text \<open>
  One committed operation on tasks, claims, histories and workflows, or a write that leaves
  ids, statuses and claims alone (an edit of content, priority, tags). A new task has no claim.
\<close>

inductive core_step :: "spec_codec \<Rightarrow> core_db \<Rightarrow> core_db \<Rightarrow> bool" for codec where
  core_new: "find_item db (it_id r) = None \<Longrightarrow> it_claimant_id r = None \<Longrightarrow> core_step codec db (db\<lparr>items := items db @ [r]\<rparr>)"
| core_edit: "(\<And>r. it_id (g r) = it_id r \<and> it_status (g r) = it_status r \<and> it_claimant_id (g r) = it_claimant_id r) \<Longrightarrow>
    core_step codec db (db\<lparr>items := map g (items db), tag_applications := ts\<rparr>)"
| core_perform: "perform codec now db meta task f event lbs = Inr (db', out) \<Longrightarrow> core_step codec db db'"
| core_status: "state_change codec now db meta task st event = Inr db' \<Longrightarrow> core_step codec db db'"
| core_claims: "claim_exec db c = Inr (db', ok) \<Longrightarrow> core_step codec db db'"
| core_append: "append_transition now db meta task f event lbs refused = Inr db' \<Longrightarrow> core_step codec db db'"
| core_undo: "record_undo now db meta task fr to = Inr db' \<Longrightarrow> core_step codec db db'"
| core_workflow: "workflow_exec codec db w = Inr db' \<Longrightarrow> core_step codec db db'"
| core_reclaim: "reclaim_judged codec now db meta judge = Inr (db', out) \<Longrightarrow> core_step codec db db'"

inductive core_reachable :: "spec_codec \<Rightarrow> core_db \<Rightarrow> bool" for codec where
  core_empty: "core_reachable codec empty_core_db"
| core_next: "core_reachable codec db \<Longrightarrow> core_step codec db db' \<Longrightarrow> core_reachable codec db'"

inductive_cases core_stepE: "core_step codec db db'"

lemma reclaim_one_ok:
  "tasks_ok (fst st) \<Longrightarrow> reclaim_one codec now meta judge c st = Inr st' \<Longrightarrow> tasks_ok (fst st')"
  by (auto simp: reclaim_one_def result_bind_Inr dest: perform_ok split: fact.splits)

lemma reclaim_scan_ok:
  "tasks_ok (fst st) \<Longrightarrow> reclaim_scan codec now meta judge cs st = Inr st' \<Longrightarrow> tasks_ok (fst st')"
  by (induction cs arbitrary: st) (auto simp: result_bind_Inr dest: reclaim_one_ok)

lemma workflow_exec_same:
  assumes ok: "workflow_log_ok db" and e: "workflow_exec codec db w = Inr db'"
  shows "items db' = items db \<and> task_transitions db' = task_transitions db \<and> transitions_seq db' = transitions_seq db \<and>
    workflow_log_ok db'"
proof -
  have moved: "items d = items db \<and> task_transitions d = task_transitions db \<and> transitions_seq d = transitions_seq db"
    if "workflow_current codec db task = Inr cur" "settle_move codec now db meta task cur p ev q act reason f = Inr (d, m)"
    for task cur now meta p ev q act reason f d m
    using same_but_workflow_items [OF settle_move_effect(3) [OF ok current_Inr(1) [OF that(1)] that(2)]] by simp
  have "workflow_log_ok (workflow_run codec db w)" by (rule pins.good_run [OF ok])
  then have log: "workflow_log_ok db'" using e by (simp add: workflow_run_def)
  show ?thesis
  proof (cases w)
    case (WC_Fire now meta task event act reason stated)
    with e obtain m where "workflow_fire codec now db meta task event act reason stated = Inr (db', m)" by (auto simp: result_bind_Inr)
    from fire_cases [OF this] log moved show ?thesis by (cases m) auto
  next
    case (WC_Observe now meta task act)
    with e obtain m where "workflow_observe codec now db meta task act = Inr (db', m)" by (auto simp: result_bind_Inr)
    from observe_cases [OF this] log moved show ?thesis by (cases m) auto
  next
    case (WC_FollowLanding now meta task)
    with e obtain m where "follow_landing codec now db meta task = Inr (db', m)" by (auto simp: result_bind_Inr)
    from same_but_workflow_items [OF follow_landing_settles(3) [OF ok this]] log show ?thesis by simp
  next
    case (WC_Define now name describe spec)
    with e log show ?thesis by (auto simp: define_strategy_def result_bind_Inr Let_def split: if_splits)
  next
    case (WC_SetStrategy now meta task name act)
    with e log show ?thesis by (auto simp: set_strategy_def result_bind_Inr split: if_splits)
  qed
qed

lemma core_step_ok: "core_step codec db db' \<Longrightarrow> tasks_ok db \<Longrightarrow> tasks_ok db'"
proof (induction rule: core_step.induct)
  case (core_new db r)
  then have "it_id r \<notin> it_id ` set (items db)" by (auto simp: find_item_None)
  with core_new show ?case
    using transitions_same [of "db\<lparr>items := items db @ [r]\<rparr>" db] workflow_same [of "db\<lparr>items := items db @ [r]\<rparr>" db]
    by (auto simp: tasks_ok_def items_keyed_def terminal_unclaimed_def)
next
  case (core_edit g db ts)
  let ?db = "db\<lparr>items := map g (items db), tag_applications := ts\<rparr>"
  have "it_id \<circ> g = it_id" using core_edit.hyps by (auto simp: fun_eq_iff)
  with core_edit show ?case
    using transitions_same [of ?db db] workflow_same [of ?db db]
    by (simp add: tasks_ok_def items_keyed_def terminal_unclaimed_def)
next
  case (core_status now db meta task st event db')
  then show ?case by (auto simp: state_change_def result_bind_Inr dest: perform_ok split: option.splits)
next
  case (core_workflow db w db')
  then show ?case
    using workflow_exec_same [of db codec w db'] items_same [of db' db] transitions_same [of db' db]
    by (simp add: tasks_ok_def)
next
  case (core_append now db meta task f event lbs refused db')
  then show ?case using insert_transition_ok by (auto simp: append_transition_def)
next
  case (core_undo now db meta task fr to db')
  then show ?case using insert_transition_ok by (auto simp: record_undo_def)
next
  case (core_reclaim now db meta judge db' out)
  then show ?case using reclaim_scan_ok [of "(db, reclaimed_default)" codec now meta judge "claimed db" "(db', out)"]
    by (simp add: reclaim_judged_def)
qed (auto dest: perform_ok claim_exec_ok)

lemma empty_ok: "tasks_ok empty_core_db"
  by (simp add: tasks_ok_def items_keyed_def terminal_unclaimed_def transitions_ok_def workflow_log_ok_def empty_core_db_def)

lemma reachable_ok: "core_reachable codec db \<Longrightarrow> tasks_ok db"
  by (induction rule: core_reachable.induct) (auto intro: empty_ok core_step_ok)

end
