(* ===== verification/Task_Recovery.thy ===== *)
theory Task_Recovery
  imports Task_Transition
begin

text \<open>
  The crash-recovery scan \<open>reclaim_judged\<close> of \<open>crates/jkb-core/src/transition.rs\<close> in full, and the
  invariant of every store the task operations build. The scan reads the claims once; what it
  does to each depends only on the judgement of that claim, and on whether the stored owner is
  spelled the way \<open>AgentId\<close> prints it.
\<close>

section \<open>Every store\<close>

text \<open>
  C5. In every store that the operations on tasks, claims, histories and workflows build, one
  row stands for each item, a task whose status is done or cancelled is held by nobody, and
  the ids of each history ascend.
\<close>

theorem terminal_unclaimed_always:
  assumes "core_reachable codec db"
  shows "distinct (map it_id (items db)) \<and>
    (\<forall>task. is_terminal_str (Option.bind (find_item db task) it_status) \<longrightarrow> holder db task = None) \<and>
    (\<forall>task. sorted_wrt (<) (map tr_id (history db task)))"
proof -
  have ok: "tasks_ok db" by (rule reachable_ok [OF assms])
  have "holder db task = None" if "is_terminal_str (Option.bind (find_item db task) it_status)" for task
  proof (cases "find_item db task")
    case (Some r)
    with that ok find_item_Some [OF Some] show ?thesis
      by (auto simp: tasks_ok_def terminal_unclaimed_def holder_find)
  qed (simp add: holder_find)
  with ok show ?thesis by (simp add: tasks_ok_def items_keyed_def history_ascending sorted_wrt_map)
qed

text \<open>A claimed task, landed.\<close>

theorem terminal_unclaimed_always_witness:
  "\<exists>db. core_reachable (one_codec (ps_spec (PRESETS ! 0))) db \<and>
     Option.bind (find_item db 3) it_status = Some ''done'' \<and> holder db 3 = None"
proof -
  let ?codec = "one_codec (ps_spec (PRESETS ! 0))"
  let ?new = "empty_core_db\<lparr>items := [task_item 3 (Some ''open'') None]\<rparr>"
  obtain a where a: "state_change ?codec ''t1'' ?new one_meta 3 Done Override = Inr a"
    "Option.bind (find_item a 3) it_status = Some ''done''"
  proof -
    have "case state_change ?codec ''t1'' ?new one_meta 3 Done Override of
        Inr a \<Rightarrow> Option.bind (find_item a 3) it_status = Some ''done'' | Inl _ \<Rightarrow> False"
      by code_simp
    then show thesis using that by (auto split: sum.splits)
  qed
  have "find_item empty_core_db (it_id (task_item 3 (Some ''open'') None)) = None"
    by (simp add: empty_core_db_def find_item_def)
  from core_new [OF this, of ?codec] have "core_reachable ?codec ?new"
    by (auto simp: task_item_def empty_core_db_def intro: core_next [OF core_empty])
  then have r: "core_reachable ?codec a" by (rule core_next [OF _ core_status [OF a(1)]])
  have "is_terminal_str (Some ''done'')" by (simp add: sql_terminal_agrees sql_terminal_list_def)
  with a(2) terminal_unclaimed_always [OF r] r show ?thesis by metis
qed

section \<open>The claims of a store\<close>

lemma claimed_iff:
  assumes "items_keyed db"
  shows "c \<in> set (claimed db) \<longleftrightarrow>
    (\<exists>r. find_item db (ci_id c) = Some r \<and> it_claimant_id r = Some (ci_owner c) \<and>
       ci_uid c = it_uid r \<and> ci_claimed_at c = it_claimed_at r)"
proof -
  have mem: "c \<in> set (claimed db) \<longleftrightarrow>
    (\<exists>r \<in> set (items db). \<exists>owner. it_claimant_id r = Some owner \<and>
       c = \<lparr>ci_id = it_id r, ci_uid = it_uid r, ci_owner = owner, ci_claimed_at = it_claimed_at r\<rparr>)"
    by (auto simp: claimed_def split: option.splits) force
  have eq: "c = \<lparr>ci_id = it_id r, ci_uid = it_uid r, ci_owner = owner, ci_claimed_at = it_claimed_at r\<rparr> \<longleftrightarrow>
      it_id r = ci_id c \<and> ci_uid c = it_uid r \<and> owner = ci_owner c \<and> ci_claimed_at c = it_claimed_at r" for r owner
    by (cases c) auto
  show ?thesis unfolding find_item_iff [OF assms] mem eq by auto
qed

lemma claimed_ids: "map ci_id (claimed db) = map it_id (filter (\<lambda>r. it_claimant_id r \<noteq> None) (sort_key it_id (items db)))"
proof -
  have "map ci_id (concat (map (\<lambda>r. case it_claimant_id r of None \<Rightarrow> []
       | Some owner \<Rightarrow> [\<lparr>ci_id = it_id r, ci_uid = it_uid r, ci_owner = owner, ci_claimed_at = it_claimed_at r\<rparr>]) xs)) =
     map it_id (filter (\<lambda>r. it_claimant_id r \<noteq> None) xs)" for xs
    by (induction xs) (auto split: option.splits)
  then show ?thesis by (simp add: claimed_def)
qed

lemma claimed_distinct: "items_keyed db \<Longrightarrow> distinct (map ci_id (claimed db))"
  by (simp add: claimed_ids items_keyed_def distinct_map_filter distinct_map inj_on_def)

section \<open>One claim\<close>

text \<open>The spelling that \<open>AgentId\<close> prints back.\<close>

definition canonical_owner :: "string \<Rightarrow> bool" where
  "canonical_owner owner \<longleftrightarrow> agent_as_str (agent_parse owner) = owner"

lemma stored_terminal:
  "is_terminal (case Option.bind col task_status_from_db_str of Some s \<Rightarrow> s | None \<Rightarrow> Open) = is_terminal_str col"
proof -
  have "from_manual_str = task_status_from_db_str" by (simp add: fun_eq_iff from_manual_str_def)
  then show ?thesis by (simp add: is_terminal_str_def is_terminal_def split: option.splits)
qed

text \<open>An owner judged gone: the task is observed, and the machine frees its claim.\<close>

lemma reclaim_moves:
  assumes "tasks_ok db" and "holder db t = Some owner"
  shows "\<exists>f st. task_observe db t = Inr f \<and>
    task_apply (f\<lparr>claimant := Some (agent_parse owner), owner_alive := No\<rparr>) ObservedOwnerGone =
      Moved st ObservedOwnerGone st [ReclaimFrom (agent_parse owner)]"
proof -
  obtain r where r: "find_item db t = Some r" "it_claimant_id r = Some owner"
    using assms(2) by (auto simp: holder_find bind_eq_Some_conv)
  have "\<not> is_terminal_str (it_status r)"
    using assms(1) find_item_Some [OF r(1)] r(2) by (auto simp: tasks_ok_def terminal_unclaimed_def)
  moreover obtain f where f: "task_observe db t = Inr f"
    "status f = (case Option.bind (it_status r) task_status_from_db_str of Some s \<Rightarrow> s | None \<Rightarrow> Open)"
    using r by (simp add: task_observe_def)
  ultimately have "\<not> is_terminal (status f)" by (simp add: stored_terminal)
  with task_apply_observed(2) [of "f\<lparr>claimant := Some (agent_parse owner), owner_alive := No\<rparr>"] f(1)
  show ?thesis by (auto simp: task_apply_def owner_gone_Allow)
qed

lemma reclaim_total: "\<exists>db' ok. reclaim now db meta i owner = Inr (db', ok)"
  using clear_claim_total [of Op_Reclaim] by (auto simp: reclaim_def clear_inner_def)

text \<open>What reclaiming one claim leaves.\<close>

definition freed :: "int set \<Rightarrow> int set \<Rightarrow> core_db \<Rightarrow> core_db \<Rightarrow> bool" where
  "freed judged free db db' \<longleftrightarrow>
     tasks_ok db' \<and>
     (\<forall>t. holder db' t = (if t \<in> free then None else holder db t) \<and>
        Option.bind (find_item db' t) it_status = Option.bind (find_item db t) it_status \<and>
        length (history db' t) = length (history db t) + (if t \<in> judged then 1 else 0))"

lemma reclaim_one_frees:
  assumes ok: "tasks_ok db" and held: "holder db (ci_id c) = Some (ci_owner c)" and gone: "judge c = No"
  shows "\<exists>db'. reclaim_one codec now meta judge c (db, out) = Inr (db', out\<lparr>rc_cleared := rc_cleared out @ [c]\<rparr>) \<and>
    freed {ci_id c} (if canonical_owner (ci_owner c) then {ci_id c} else {}) db db'"
proof -
  let ?t = "ci_id c" and ?a = "agent_parse (ci_owner c)"
  obtain f st where f: "task_observe db ?t = Inr f" and
    m: "task_apply (f\<lparr>claimant := Some ?a, owner_alive := No\<rparr>) ObservedOwnerGone = Moved st ObservedOwnerGone st [ReclaimFrom ?a]"
    using reclaim_moves [OF ok held] by blast
  obtain db1 res where c: "reclaim now db meta ?t (agent_as_str ?a) = Inr (db1, res)" using reclaim_total by blast
  note rows = reclaim_rows [OF c]
  have ok1: "tasks_ok db1" by (rule rows_changed_ok [OF ok rows]) simp_all
  have "holder db ?t = Some (agent_as_str ?a) \<longleftrightarrow> canonical_owner (ci_owner c)"
    using held by (auto simp: canonical_owner_def)
  then have find: "find_item db1 n = map_option (\<lambda>r. if it_id r = ?t \<and> it_claimant_id r \<noteq> None \<and> canonical_owner (ci_owner c)
      then claim_unset now r else r) (find_item db n)" for n
    using find_item_rows [OF rows, of n] by simp
  obtain r where r: "find_item db ?t = Some r" "it_claimant_id r = Some (ci_owner c)"
    using held by (auto simp: holder_find bind_eq_Some_conv)
  with find [of ?t] have "find_item db1 ?t \<noteq> None" by simp
  then obtain db2 where i: "insert_transition db1 meta now ?t (task_event_name ObservedOwnerGone)
      (map_option task_status_as_str (Some st)) (task_status_as_str st)
      (map_option agent_as_str (actor (f\<lparr>claimant := Some ?a, owner_alive := No\<rparr>))) labels_default
      (Some (evidence_value (f\<lparr>claimant := Some ?a, owner_alive := No\<rparr>))) = Inr db2"
    by (simp add: insert_transition_def)
  with f m c gone have run: "reclaim_one codec now meta judge c (db, out) = Inr (db2, out\<lparr>rc_cleared := rc_cleared out @ [c]\<rparr>)"
    by (simp add: reclaim_one_def perform_def record_transition_def Let_def result_bind_def)
  have rows2: "find_item db2 n = find_item db1 n" "holder db2 n = holder db1 n" for n
    using items_same(1,4) [OF insert_transition_rest(2) [OF i]] by simp_all
  have t1: "transitions_ok db1" using ok1 by (simp add: tasks_ok_def)
  have hist: "history db1 n = history db n" for n
    using transitions_same(2) [OF same_but_items_rest(1,2)] rows by (simp add: rows_changed_def)
  have "length (history db2 n) = length (history db n) + (if n = ?t then 1 else 0)" for n
    using insert_transition_history(2,3) [OF t1 i] hist by simp
  moreover have "holder db2 n = (if n = ?t \<and> canonical_owner (ci_owner c) then None else holder db n)" for n
    using rows2(2) find [of n] r find_item_Some [of db n]
    by (cases "find_item db n") (auto simp: holder_find)
  moreover have "Option.bind (find_item db2 n) it_status = Option.bind (find_item db n) it_status" for n
    using rows2(1) find [of n] by (cases "find_item db n") auto
  ultimately show ?thesis
    using run insert_transition_ok [OF ok1 i] by (auto simp: freed_def)
qed

section \<open>The scan\<close>

lemma freed_trans:
  assumes "freed J F a b" and "freed J' F' b c" and "J \<inter> J' = {}"
  shows "freed (J \<union> J') (F \<union> F') a c"
  using assms by (auto simp: freed_def)

lemma reclaim_scan_frees:
  assumes "tasks_ok db" and "distinct (map ci_id cs)" and "\<And>c. c \<in> set cs \<Longrightarrow> holder db (ci_id c) = Some (ci_owner c)"
  shows "\<exists>db'. reclaim_scan codec now meta judge cs (db, out) =
      Inr (db', \<lparr>rc_cleared = rc_cleared out @ filter (\<lambda>c. judge c = No) cs,
                 rc_unverifiable = rc_unverifiable out @ filter (\<lambda>c. judge c = Unknown) cs\<rparr>) \<and>
    freed (ci_id ` {c \<in> set cs. judge c = No}) (ci_id ` {c \<in> set cs. judge c = No \<and> canonical_owner (ci_owner c)}) db db'"
  using assms
proof (induction cs arbitrary: db out)
  case Nil
  then show ?case by (simp add: freed_def)
next
  case (Cons c cs)
  show ?case
  proof (cases "judge c")
    case No
    from Cons.prems(3) [of c] have held: "holder db (ci_id c) = Some (ci_owner c)" by simp
    obtain db1 where one: "reclaim_one codec now meta judge c (db, out) = Inr (db1, out\<lparr>rc_cleared := rc_cleared out @ [c]\<rparr>)"
      and d1: "freed {ci_id c} (if canonical_owner (ci_owner c) then {ci_id c} else {}) db db1"
      using reclaim_one_frees [where judge = judge and c = c, OF Cons.prems(1) held No] by blast
    have "holder db1 (ci_id x) = Some (ci_owner x)" if "x \<in> set cs" for x
    proof -
      have "ci_id x \<noteq> ci_id c" using Cons.prems(2) that by (auto simp: image_iff)
      then show ?thesis using d1 Cons.prems(3) [of x] that by (simp add: freed_def)
    qed
    with Cons.IH [of db1 "out\<lparr>rc_cleared := rc_cleared out @ [c]\<rparr>"] d1 Cons.prems(2) obtain db' where
      rest: "reclaim_scan codec now meta judge cs (db1, out\<lparr>rc_cleared := rc_cleared out @ [c]\<rparr>) =
        Inr (db', \<lparr>rc_cleared = (rc_cleared out @ [c]) @ filter (\<lambda>c. judge c = No) cs,
                   rc_unverifiable = rc_unverifiable out @ filter (\<lambda>c. judge c = Unknown) cs\<rparr>)"
      and d2: "freed (ci_id ` {c \<in> set cs. judge c = No}) (ci_id ` {c \<in> set cs. judge c = No \<and> canonical_owner (ci_owner c)}) db1 db'"
      by (auto simp: freed_def)
    have "freed ({ci_id c} \<union> ci_id ` {c \<in> set cs. judge c = No})
       ((if canonical_owner (ci_owner c) then {ci_id c} else {}) \<union> ci_id ` {c \<in> set cs. judge c = No \<and> canonical_owner (ci_owner c)}) db db'"
      by (rule freed_trans [OF d1 d2]) (use Cons.prems(2) in force)
    moreover have "{ci_id c} \<union> ci_id ` {c \<in> set cs. judge c = No} = ci_id ` {x \<in> set (c # cs). judge x = No}"
      using No by auto
    moreover have "(if canonical_owner (ci_owner c) then {ci_id c} else {}) \<union>
        ci_id ` {c \<in> set cs. judge c = No \<and> canonical_owner (ci_owner c)} =
      ci_id ` {x \<in> set (c # cs). judge x = No \<and> canonical_owner (ci_owner x)}"
      using No by auto
    ultimately show ?thesis using one rest No by (simp add: result_bind_def)
  next
    case Unknown
    then have "{x \<in> set (c # cs). judge x = No \<and> P x} = {x \<in> set cs. judge x = No \<and> P x}" for P by auto
    from this [of "\<lambda>_. True"] this [of "\<lambda>x. canonical_owner (ci_owner x)"]
      Cons.IH [of db "out\<lparr>rc_unverifiable := rc_unverifiable out @ [c]\<rparr>"] Cons.prems Unknown
    show ?thesis by (simp add: reclaim_one_def result_bind_def)
  next
    case Yes
    then have "{x \<in> set (c # cs). judge x = No \<and> P x} = {x \<in> set cs. judge x = No \<and> P x}" for P by auto
    from this [of "\<lambda>_. True"] this [of "\<lambda>x. canonical_owner (ci_owner x)"]
      Cons.IH [of db out] Cons.prems Yes
    show ?thesis by (simp add: reclaim_one_def result_bind_def)
  qed
qed

text \<open>
  C7. The recovery scan, in full. It never fails. It reports as cleared exactly the claims judged
  gone and as unverifiable exactly those whose owner could not be judged, in the order of the
  tasks; no status changes; each claim judged gone leaves one row in its task's history, and
  every other claim stays with its holder. A claim judged gone is freed exactly when its stored
  owner is spelled as \<open>AgentId\<close> prints it: one spelled otherwise (a padded process id) is
  reported as cleared and stays held.
\<close>

theorem reclaim_judged_frees:
  assumes "tasks_ok db"
  shows "\<exists>db' out. reclaim_judged codec now db meta judge = Inr (db', out) \<and>
    rc_cleared out = filter (\<lambda>c. judge c = No) (claimed db) \<and>
    rc_unverifiable out = filter (\<lambda>c. judge c = Unknown) (claimed db) \<and>
    (\<forall>t. Option.bind (find_item db' t) it_status = Option.bind (find_item db t) it_status \<and>
       length (history db' t) = length (history db t) + (if t \<in> ci_id ` set (rc_cleared out) then 1 else 0) \<and>
       holder db' t = (if \<exists>c \<in> set (rc_cleared out). ci_id c = t \<and> agent_as_str (agent_parse (ci_owner c)) = ci_owner c
         then None else holder db t))"
proof -
  have keyed: "items_keyed db" using assms by (simp add: tasks_ok_def)
  have "holder db (ci_id c) = Some (ci_owner c)" if "c \<in> set (claimed db)" for c
    using that claimed_iff [OF keyed] by (auto simp: holder_find)
  from reclaim_scan_frees [OF assms claimed_distinct [OF keyed] this, of codec now meta judge reclaimed_default]
  obtain db' where run: "reclaim_judged codec now db meta judge = Inr (db',
      \<lparr>rc_cleared = filter (\<lambda>c. judge c = No) (claimed db), rc_unverifiable = filter (\<lambda>c. judge c = Unknown) (claimed db)\<rparr>)"
    and f: "freed (ci_id ` {c \<in> set (claimed db). judge c = No})
       (ci_id ` {c \<in> set (claimed db). judge c = No \<and> canonical_owner (ci_owner c)}) db db'"
    by (auto simp: reclaim_judged_def reclaimed_default_def)
  have "t \<in> ci_id ` {c \<in> set (claimed db). judge c = No \<and> canonical_owner (ci_owner c)} \<longleftrightarrow>
      (\<exists>c \<in> {c \<in> set (claimed db). judge c = No}. ci_id c = t \<and> agent_as_str (agent_parse (ci_owner c)) = ci_owner c)" for t
    by (auto simp: canonical_owner_def)
  with run f show ?thesis by (simp add: freed_def)
qed

text \<open>Two dead owners: one spelled canonically, one with a padded process id.\<close>

theorem reclaim_judged_frees_witness:
  "\<exists>db' out. reclaim_judged (one_codec (ps_spec (PRESETS ! 0))) ''t1''
       (empty_core_db\<lparr>items := [task_item 3 (Some ''in_progress'') (Some ''box:7''), task_item 4 (Some ''in_progress'') (Some ''box:007'')]\<rparr>)
       one_meta (\<lambda>_. No) = Inr (db', out) \<and>
     map ci_id (rc_cleared out) = [3, 4] \<and> holder db' 3 = None \<and> holder db' 4 = Some ''box:007''"
proof -
  define db where db: "db = empty_core_db\<lparr>items := [task_item 3 (Some ''in_progress'') (Some ''box:7''), task_item 4 (Some ''in_progress'') (Some ''box:007'')]\<rparr>"
  let ?codec = "one_codec (ps_spec (PRESETS ! 0))"
  have ok: "tasks_ok db"
    by (simp add: db tasks_ok_def items_keyed_def terminal_unclaimed_def transitions_ok_def
      workflow_log_ok_def empty_core_db_def task_item_def)
  have "agent_parse ''box:7'' = Process ''box'' 7 None" "agent_parse ''box:007'' = Process ''box'' 7 None"
    by (simp_all add: agent_parse_def parse_process_def u32_parse_def is_digit_def SESSION_def AGENT_def)
  moreover have seven: "nat_str 7 = ''7''" by code_simp
  ultimately have spelled: "agent_as_str (agent_parse ''box:7'') = ''box:7''" "agent_as_str (agent_parse ''box:007'') \<noteq> ''box:007''"
    using seven by simp_all
  have claims: "claimed db =
     [\<lparr>ci_id = 3, ci_uid = ''u'', ci_owner = ''box:7'', ci_claimed_at = None\<rparr>,
      \<lparr>ci_id = 4, ci_uid = ''u'', ci_owner = ''box:007'', ci_claimed_at = None\<rparr>]"
    by (simp add: db claimed_def task_item_def)
  have held: "holder db 4 = Some ''box:007''" by (simp add: db holder_find find_item_def task_item_def)
  from reclaim_judged_frees [OF ok, of ?codec "''t1''" one_meta "\<lambda>_. No"] obtain db' out where
    run: "reclaim_judged ?codec ''t1'' db one_meta (\<lambda>_. No) = Inr (db', out)"
    and out: "rc_cleared out = filter (\<lambda>c. No = No) (claimed db)"
    and h: "\<forall>t. holder db' t = (if \<exists>c \<in> set (rc_cleared out). ci_id c = t \<and> agent_as_str (agent_parse (ci_owner c)) = ci_owner c
         then None else holder db t)"
    by blast
  have "holder db' 3 = None" "holder db' 4 = Some ''box:007''"
    unfolding h [rule_format] out claims using spelled held by simp_all
  with run out claims show ?thesis unfolding db by (intro exI [of _ db'] exI [of _ out]) simp
qed

end
