(* ===== verification/Reviews_Frozen.thy ===== *)
theory Reviews_Frozen
  imports Core_Reviews
begin

text \<open>
  What the review record of \<open>crates/jkb-core/src/reviews.rs\<close> promises: a recorded round never
  changes. Whatever is recorded later, and whatever is done to the findings' rows and tags, the
  rounds read back are the same with new ones after them.
\<close>

section \<open>Steps and their effect\<close>

text \<open>One committed review operation, or any write to the items, their places and their tags.\<close>

inductive reviews_step :: "(core_db \<Rightarrow> string \<Rightarrow> int list) \<Rightarrow> core_db \<Rightarrow> core_db \<Rightarrow> bool" for tasks_under where
  rv_record: "reviews_record tasks_under now db meta task ns sha actor source = Inr db' \<Longrightarrow> reviews_step tasks_under db db'"
| rv_waive: "reviews_waive now db meta task sha actor = Inr db' \<Longrightarrow> reviews_step tasks_under db db'"
| rv_gate: "reviews_gate_on_host now db meta task sha actor = Inr db' \<Longrightarrow> reviews_step tasks_under db db'"
| rv_file: "record_filing db ns ids filed_by = Inr db' \<Longrightarrow> reviews_step tasks_under db db'"
| rv_edit: "reviews_step tasks_under db (db\<lparr>items := is, containment := cs, tag_applications := ts, clog := l\<rparr>)"

text \<open>Rounds in order of their ids, no two of them one inside the other.\<close>

definition rounds_ok :: "core_db \<Rightarrow> bool" where
  "rounds_ok db \<longleftrightarrow>
     sorted_wrt (\<lambda>a b. rr_id a < rr_id b \<and> \<not> in_ns (rr_ns a) (rr_ns b) \<and> \<not> in_ns (rr_ns b) (rr_ns a)) (review_rounds db) \<and>
     (\<forall>r \<in> set (review_rounds db). rr_id r \<le> rounds_seq db) \<and>
     (\<forall>f \<in> set (round_findings db). fd_round_id f \<le> rounds_seq db)"

text \<open>What a step does to the three tables: nothing, or a review row, or a round with its findings.\<close>

definition rounds_grown :: "core_db \<Rightarrow> core_db \<Rightarrow> bool" where
  "rounds_grown db db' \<longleftrightarrow>
     (\<exists>rs fs. review_rounds db' = review_rounds db @ rs \<and> round_findings db' = round_findings db @ fs \<and>
        (\<forall>r \<in> set rs. rounds_seq db < rr_id r \<and> (\<forall>old \<in> set (review_rounds db). rr_ns old \<noteq> rr_ns r)) \<and>
        (\<forall>f \<in> set fs. rounds_seq db < fd_round_id f)) \<and>
     prefix (reviews db) (reviews db') \<and> rounds_seq db \<le> rounds_seq db'"

lemma rounds_grown_refl: "rounds_grown db db"
  by (auto simp: rounds_grown_def)

lemma rounds_grown_trans:
  assumes "rounds_grown a b" and "rounds_grown b c"
  shows "rounds_grown a c"
proof -
  from assms obtain rs fs rs' fs' where
    "review_rounds b = review_rounds a @ rs" "round_findings b = round_findings a @ fs"
    "review_rounds c = review_rounds b @ rs'" "round_findings c = round_findings b @ fs'"
    "\<forall>r \<in> set rs. rounds_seq a < rr_id r \<and> (\<forall>old \<in> set (review_rounds a). rr_ns old \<noteq> rr_ns r)"
    "\<forall>r \<in> set rs'. rounds_seq b < rr_id r \<and> (\<forall>old \<in> set (review_rounds b). rr_ns old \<noteq> rr_ns r)"
    "\<forall>f \<in> set fs. rounds_seq a < fd_round_id f" "\<forall>f \<in> set fs'. rounds_seq b < fd_round_id f"
    "rounds_seq a \<le> rounds_seq b"
    unfolding rounds_grown_def by blast
  moreover from assms have "prefix (reviews a) (reviews c)" "rounds_seq a \<le> rounds_seq c"
    by (auto simp: rounds_grown_def intro: prefix_order.trans)
  ultimately show ?thesis
    unfolding rounds_grown_def by (intro conjI exI [of _ "rs @ rs'"] exI [of _ "fs @ fs'"]) fastforce+
qed

lemma in_ns_refl [simp]: "in_ns ns ns"
  by (simp add: in_ns_def)

lemma first_some_None: "first_some f xs = None \<longleftrightarrow> (\<forall>x \<in> set xs. f x = None)"
  by (induction xs) (auto split: option.splits)

text \<open>A namespace that no round overlaps.\<close>

lemma not_overlapping:
  assumes "round_overlapping db ns = None" and "r \<in> set (review_rounds db)"
  shows "\<not> in_ns (rr_ns r) ns \<and> \<not> in_ns ns (rr_ns r)"
proof -
  have "ns \<in> set (mirror_forms ns)" by (simp add: mirror_forms_def Let_def set_insort_key)
  with assms have "\<not> in_ns (rr_ns r) ns \<and> \<not> prefix (ns @ ''/'') (rr_ns r)"
    by (auto simp: round_overlapping_def first_some_None find_None_iff)
  then show ?thesis by (auto simp: in_ns_def)
qed

lemma finding_rows_round: "f \<in> set (finding_rows db i ids) \<Longrightarrow> fd_round_id f = i"
  by (auto simp: finding_rows_def map_filter_def split: option.splits)

lemma snapshot_new_ok:
  assumes "rounds_ok db" and "snapshot_new tu now db ns actor existing filed = Inr (db', i)"
  shows "rounds_ok db' \<and> rounds_grown db db'"
proof (cases existing)
  case None
  with assms(2) have o: "round_overlapping db ns = None"
    and db': "db' = db\<lparr>review_rounds := review_rounds db @
                 [\<lparr>rr_id = rounds_seq db + 1, rr_ns = ns, rr_actor = actor, rr_recorded_at = now\<rparr>],
               rounds_seq := rounds_seq db + 1,
               round_findings := round_findings db @ finding_rows db (rounds_seq db + 1) (if filed = [] then tu db ns else filed)\<rparr>"
    by (auto simp: snapshot_new_def Let_def split: option.splits)
  have new: "\<not> in_ns (rr_ns r) ns \<and> \<not> in_ns ns (rr_ns r)" if "r \<in> set (review_rounds db)" for r
    using not_overlapping [OF o that] .
  then have "rr_ns r \<noteq> ns" if "r \<in> set (review_rounds db)" for r using that by fastforce
  with new assms(1) show ?thesis
    unfolding db' rounds_ok_def rounds_grown_def
    by (auto simp: sorted_wrt_append finding_rows_round dest!: finding_rows_round)
next
  case (Some j)
  with assms show ?thesis by (simp add: snapshot_new_def rounds_grown_refl)
qed

lemma snapshot_round_ok:
  "rounds_ok db \<Longrightarrow> snapshot_round tu now db ns actor source = Inr (db', i) \<Longrightarrow> rounds_ok db' \<and> rounds_grown db db'"
  by (auto simp: snapshot_round_def Let_def dest: snapshot_new_ok split: round_source.splits if_splits)

lemma insert_ok: "rounds_ok db \<Longrightarrow>
    rounds_ok (reviews_insert now db meta task kind ns sha actor) \<and> rounds_grown db (reviews_insert now db meta task kind ns sha actor)"
  by (simp add: rounds_ok_def rounds_grown_def reviews_insert_def)

lemma record_filing_same:
  assumes "record_filing db ns ids filed_by = Inr db'"
  shows "review_rounds db' = review_rounds db \<and> round_findings db' = round_findings db \<and>
    rounds_seq db' = rounds_seq db \<and> reviews db' = reviews db"
proof -
  let ?step = "\<lambda>d i. if list_ex (\<lambda>f. fl_ns f = ns \<and> fl_item_id f = i) (review_filings d) then d
      else d\<lparr>review_filings := review_filings d @ [\<lparr>fl_ns = ns, fl_item_id = i, fl_filed_by = filed_by\<rparr>]\<rparr>"
  have "review_rounds (foldl ?step d ids) = review_rounds d \<and> round_findings (foldl ?step d ids) = round_findings d \<and>
      rounds_seq (foldl ?step d ids) = rounds_seq d \<and> reviews (foldl ?step d ids) = reviews d" for d
    by (induction ids arbitrary: d) simp_all
  with assms show ?thesis by (auto simp: record_filing_def result_bind_Inr)
qed

lemma reviews_step_ok: "reviews_step tu db db' \<Longrightarrow> rounds_ok db \<Longrightarrow> rounds_ok db' \<and> rounds_grown db db'"
proof (induction rule: reviews_step.induct)
  case (rv_record now db meta task ns sha actor source db')
  then obtain db1 i where s: "snapshot_round tu now db ns actor source = Inr (db1, i)"
    and d: "db' = db1 \<or> db' = reviews_insert now db1 meta task ''recorded'' (Some ns) sha actor"
    by (auto simp: reviews_record_def result_bind_Inr split: if_splits)
  from snapshot_round_ok [OF rv_record.prems s] d insert_ok rounds_grown_trans show ?case by blast
next
  case (rv_file db ns ids filed_by db')
  with record_filing_same [OF rv_file.hyps] show ?case by (simp add: rounds_ok_def rounds_grown_def)
next
  case (rv_edit db "is" cs ts l)
  then show ?case by (simp add: rounds_ok_def rounds_grown_def)
qed (auto simp: reviews_waive_def reviews_gate_on_host_def result_bind_Inr insert_ok)

lemma reviews_steps_ok:
  "(reviews_step tu)\<^sup>*\<^sup>* db db' \<Longrightarrow> rounds_ok db \<Longrightarrow> rounds_ok db' \<and> rounds_grown db db'"
proof (induction rule: rtranclp_induct)
  case (step b c)
  with reviews_step_ok [OF step.hyps(2)] rounds_grown_trans show ?case by blast
qed (simp add: rounds_grown_refl)

lemma rounds_ok_empty: "rounds_ok empty_core_db"
  by (simp add: rounds_ok_def empty_core_db_def)

text \<open>What is read back of tables that have grown.\<close>

lemma find_append: "List.find P (xs @ ys) = (case List.find P xs of Some x \<Rightarrow> Some x | None \<Rightarrow> List.find P ys)"
  by (induction xs) auto

lemma round_of_grown:
  assumes ok: "rounds_ok db" and g: "rounds_grown db db'"
  shows "round_of db ns = Some r \<Longrightarrow> round_of db' ns = Some r"
    and "round_of db ns = None \<Longrightarrow> round_of db' ns = Some r \<Longrightarrow> rounds_seq db < rd_filed r"
proof -
  from g obtain rs fs where t: "review_rounds db' = review_rounds db @ rs" "round_findings db' = round_findings db @ fs"
    "\<forall>r \<in> set rs. rounds_seq db < rr_id r" "\<forall>f \<in> set fs. rounds_seq db < fd_round_id f"
    unfolding rounds_grown_def by blast
  show "round_of db ns = Some r \<Longrightarrow> round_of db' ns = Some r"
  proof -
    assume r: "round_of db ns = Some r"
    then obtain x where x: "List.find (\<lambda>r. rr_ns r = ns) (review_rounds db) = Some x"
      by (auto simp: round_of_def split: option.splits)
    have "rr_id x \<le> rounds_seq db" using find_SomeD [OF x] ok by (auto simp: rounds_ok_def)
    with t(4) have "filter (\<lambda>f. fd_round_id f = rr_id x \<and> fd_must_fix f) fs = []" by (fastforce simp: filter_empty_conv)
    with r x t(1,2) show ?thesis by (simp add: round_of_def find_append Let_def)
  qed
  assume n: "round_of db ns = None" and r: "round_of db' ns = Some r"
  from n have "List.find (\<lambda>r. rr_ns r = ns) (review_rounds db) = None"
    by (auto simp: round_of_def Let_def split: option.splits)
  with r t(1) obtain x where "List.find (\<lambda>r. rr_ns r = ns) rs = Some x" "rd_filed r = rr_id x"
    by (auto simp: round_of_def find_append Let_def split: option.splits)
  with t(3) find_SomeD show "rounds_seq db < rd_filed r" by fastforce
qed

lemma state_row_prefix: "prefix (rs_namespaces s) (rs_namespaces (foldl state_row s rs))"
proof (induction rs arbitrary: s)
  case (Cons r rs)
  have "prefix (rs_namespaces s) (rs_namespaces (state_row s r))"
    by (auto simp: state_row_def Let_def split: option.splits)
  with Cons [of "state_row s r"] show ?case using prefix_order.trans by auto
qed simp

lemma reviews_state_fold: "reviews_state db task = foldl state_row review_state_default (filter (\<lambda>r. rv_item_id r = task) (reviews db))"
proof (cases "list_ex (\<lambda>r. rv_item_id r = task) (reviews db)")
  case False
  then have "filter (\<lambda>r. rv_item_id r = task) (reviews db) = []" by (auto simp: filter_empty_conv list_ex_iff)
  with False show ?thesis by (simp add: reviews_state_def state_for_def)
qed (simp add: reviews_state_def state_for_def)

lemma namespaces_grown:
  assumes "rounds_grown db db'"
  shows "prefix (rs_namespaces (reviews_state db task)) (rs_namespaces (reviews_state db' task))"
proof -
  from assms obtain vs where "reviews db' = reviews db @ vs" by (auto simp: rounds_grown_def prefix_def)
  then show ?thesis by (simp add: reviews_state_fold state_row_prefix)
qed

lemma must_fix_grown: "rounds_grown db db' \<Longrightarrow> set (must_fix_findings db nss) \<subseteq> set (must_fix_findings db' nss)"
  by (fastforce simp: must_fix_findings_def rounds_grown_def)

text \<open>
  C10. A recorded round is frozen. In every store the review operations build, no two rounds
  lie one inside the other. Whatever is recorded, waived or filed later, and whatever is done to
  the items, their places and their tags, a round reads back the same (its id, how many
  findings were must-fix, their areas), a round that was not there is newer than all that
  were, a task's list of recorded rounds only gets longer at its end, and no must-fix finding
  of the recorded rounds is forgotten.
\<close>

theorem round_frozen:
  assumes "(reviews_step tasks_under)\<^sup>*\<^sup>* empty_core_db db" and "(reviews_step tasks_under)\<^sup>*\<^sup>* db db'"
  shows "sorted_wrt (\<lambda>a b. \<not> in_ns (rr_ns a) (rr_ns b) \<and> \<not> in_ns (rr_ns b) (rr_ns a)) (review_rounds db) \<and>
    (\<forall>ns r. round_of db ns = Some r \<longrightarrow> round_of db' ns = Some r) \<and>
    (\<forall>ns r. round_of db ns = None \<and> round_of db' ns = Some r \<longrightarrow>
       list_all (\<lambda>old. rr_id old < rd_filed r) (review_rounds db)) \<and>
    (\<forall>task. prefix (rs_namespaces (reviews_state db task)) (rs_namespaces (reviews_state db' task))) \<and>
    (\<forall>nss. set (must_fix_findings db nss) \<subseteq> set (must_fix_findings db' nss))"
proof -
  have ok: "rounds_ok db" using reviews_steps_ok [OF assms(1) rounds_ok_empty] by blast
  then have g: "rounds_grown db db'" using reviews_steps_ok [OF assms(2)] by blast
  have "sorted_wrt (\<lambda>a b. \<not> in_ns (rr_ns a) (rr_ns b) \<and> \<not> in_ns (rr_ns b) (rr_ns a)) (review_rounds db)"
    using ok by (auto simp: rounds_ok_def intro: sorted_wrt_mono_rel [rotated])
  moreover have "list_all (\<lambda>old. rr_id old < rd_filed r) (review_rounds db)"
    if "round_of db ns = None" "round_of db' ns = Some r" for ns r
  proof -
    have "rr_id old \<le> rounds_seq db" if "old \<in> set (review_rounds db)" for old
      using ok that by (simp add: rounds_ok_def)
    with round_of_grown(2) [OF ok g that] show ?thesis by (fastforce simp: list_all_iff)
  qed
  ultimately show ?thesis
    using round_of_grown(1) [OF ok g] namespaces_grown [OF g] must_fix_grown [OF g] by blast
qed

text \<open>A round of one must-fix finding; then the finding is closed and the round recorded again.\<close>

theorem round_frozen_witness:
  "\<exists>a b. (reviews_step (\<lambda>_ _. [3]))\<^sup>*\<^sup>* empty_core_db a \<and> (reviews_step (\<lambda>_ _. [3]))\<^sup>*\<^sup>* a b \<and>
     items a \<noteq> [] \<and> items b = [] \<and>
     round_of a ''repos/r'' = Some \<lparr>rd_ns = ''repos/r'', rd_filed = 1, rd_must_fix = 1, rd_areas = []\<rparr> \<and>
     round_of b ''repos/r'' = round_of a ''repos/r''"
proof -
  let ?tu = "\<lambda>_ _. [3]" and ?m = "\<lparr>wm_txn_id = 1, wm_actor = ''cli''\<rparr>"
  let ?item = "\<lparr>it_id = 3, it_uid = ''u'', it_kind = ''task'', it_content = None, it_content_hash = None,
      it_mime = None, it_status = Some ''open'', it_priority = Some 0, it_due = None, it_metadata = ''{}'',
      it_created_at = ''t0'', it_updated_at = ''t0'', it_claimant_id = None, it_claimed_at = None,
      it_resolution = None, it_content_rev = 0, it_chunked_rev = None\<rparr>"
  let ?d0 = "empty_core_db\<lparr>items := [?item], containment := [], tag_applications := [], clog := []\<rparr>"
  have e: "reviews_step ?tu empty_core_db ?d0" by (rule rv_edit)
  have "case reviews_record ?tu ''t1'' ?d0 ?m 9 ''repos/r'' ''h1'' ''op'' RS_AnyNamespace of
      Inr a \<Rightarrow> items a \<noteq> [] \<and> round_of a ''repos/r'' = Some \<lparr>rd_ns = ''repos/r'', rd_filed = 1, rd_must_fix = 1, rd_areas = []\<rparr>
    | Inl _ \<Rightarrow> False"
    by code_simp
  from result_caseD [OF this] obtain a where a: "reviews_record ?tu ''t1'' ?d0 ?m 9 ''repos/r'' ''h1'' ''op'' RS_AnyNamespace = Inr a"
    "items a \<noteq> []" "round_of a ''repos/r'' = Some \<lparr>rd_ns = ''repos/r'', rd_filed = 1, rd_must_fix = 1, rd_areas = []\<rparr>"
    by blast
  let ?b = "a\<lparr>items := [], containment := [], tag_applications := [], clog := []\<rparr>"
  have s: "reviews_step ?tu ?d0 a" by (rule rv_record [OF a(1)])
  have r: "(reviews_step ?tu)\<^sup>*\<^sup>* empty_core_db a"
    by (rule converse_rtranclp_into_rtranclp [where r = "reviews_step ?tu" and b = ?d0])
      (rule e, rule r_into_rtranclp [where r = "reviews_step ?tu"], rule s)
  have b: "(reviews_step ?tu)\<^sup>*\<^sup>* a ?b" using rv_edit [of ?tu a "[]" "[]" "[]" "[]"] by blast
  have "\<forall>ns r. round_of a ns = Some r \<longrightarrow> round_of ?b ns = Some r" using round_frozen [OF r b] by simp
  with a(3) have "round_of ?b ''repos/r'' = round_of a ''repos/r''" by simp
  with r b a show ?thesis by (intro exI [of _ a] exI [of _ ?b] conjI) simp_all
qed

end
