(* ===== verification/Core_Graph.thy ===== *)
theory Core_Graph
  imports Core_Store
begin

text \<open>
  The typed graph over items, \<open>crates/jkb-core/src/edge.rs\<close> (linking, unlinking, the direct
  reads), and the containment tree, \<open>crates/jkb-core/src/containment.rs\<close>. Both are tables of one
  store, with the items' uids (a foreign key of every row) and the change log. A weight is a
  floating-point number in the code: its type, the finiteness test and its JSON are arguments.

  SQLite's recursion is the closure \<open>sql_closure\<close>, whose termination and meaning are proved once; the
  queries of the two cycle checks and of \<open>contain\<close> are that closure on the rows they select. The
  invariant: no sequence of these writers closes a cycle of dependencies, parent edges or
  containment. \<open>undo\<close> writes both tables with SQL of its own (\<open>Graph_Undo\<close>).
\<close>

section \<open>Recursion in SQL\<close>

text \<open>\<open>WITH RECURSIVE ... UNION\<close> of SQLite, over the pairs a join yields: the rows found so far, extended until no join adds one.\<close>

definition joined :: "(int \<times> int) list \<Rightarrow> int list \<Rightarrow> int list" where
  "joined pairs seen = remdups (filter (\<lambda>y. y \<notin> set seen) (map snd (filter (\<lambda>(x, _). x \<in> set seen) pairs)))"

lemma joined_smaller:
  assumes "joined pairs seen \<noteq> []"
  shows "card (snd ` set pairs - set (seen @ joined pairs seen)) < card (snd ` set pairs - set seen)"
proof (rule psubset_card_mono)
  from assms obtain y where "y \<in> set (joined pairs seen)" by (cases "joined pairs seen") auto
  moreover from this have "y \<in> snd ` set pairs - set seen" by (force simp: joined_def)
  ultimately show "snd ` set pairs - set (seen @ joined pairs seen) \<subset> snd ` set pairs - set seen" by auto
qed simp

function sql_closure :: "(int \<times> int) list \<Rightarrow> int list \<Rightarrow> int list" where
  "sql_closure pairs seen =
     (if joined pairs seen = [] then seen else sql_closure pairs (seen @ joined pairs seen))"
  by pat_completeness auto
termination sql_closure
  by (relation "measure (\<lambda>(pairs, seen). card (snd ` set pairs - set seen))")
     (simp_all del: set_append add: joined_smaller)

declare sql_closure.simps [simp del]

lemma joined_iff: "y \<in> set (joined pairs seen) \<longleftrightarrow> y \<notin> set seen \<and> (\<exists>x \<in> set seen. (x, y) \<in> set pairs)"
  by (force simp: joined_def)

lemma sql_closure_sound: "set (sql_closure pairs seen) \<subseteq> (set pairs)\<^sup>* `` set seen"
proof (induction pairs seen rule: sql_closure.induct)
  case (1 pairs seen)
  show ?case
  proof (cases "joined pairs seen = []")
    case False
    have "set (joined pairs seen) \<subseteq> (set pairs)\<^sup>* `` set seen" by (auto simp: joined_iff intro: ImageI [OF r_into_rtrancl])
    then have "(set pairs)\<^sup>* `` set (seen @ joined pairs seen) \<subseteq> (set pairs)\<^sup>* `` set seen"
      by (clarsimp simp: subset_eq Image_iff) (meson rtrancl_trans)
    with 1 [OF False] False show ?thesis by (subst sql_closure.simps) auto
  qed (subst sql_closure.simps, auto)
qed

lemma sql_closure_stop: "joined pairs seen = [] \<Longrightarrow> sql_closure pairs seen = seen"
  by (subst sql_closure.simps) (rule if_P)

lemma sql_closure_go: "joined pairs seen \<noteq> [] \<Longrightarrow> sql_closure pairs seen = sql_closure pairs (seen @ joined pairs seen)"
  by (subst sql_closure.simps) (rule if_not_P)

lemma sql_closure_seen: "set seen \<subseteq> set (sql_closure pairs seen)"
proof (induction pairs seen rule: sql_closure.induct)
  case (1 pairs seen)
  then show ?case
    by (cases "joined pairs seen = []") (simp_all add: sql_closure_stop sql_closure_go [of pairs seen])
qed

lemma sql_closure_closed: "set pairs `` set (sql_closure pairs seen) \<subseteq> set (sql_closure pairs seen)"
proof (induction pairs seen rule: sql_closure.induct)
  case (1 pairs seen)
  show ?case
  proof (cases "joined pairs seen = []")
    case True
    then have "set pairs `` set seen \<subseteq> set seen"
      using joined_iff [of _ pairs seen] by auto
    with True show ?thesis by (simp add: sql_closure_stop)
  next
    case False
    with 1 show ?thesis by (simp add: sql_closure_go [of pairs seen])
  qed
qed

lemma sql_closure_eq: "set (sql_closure pairs seen) = (set pairs)\<^sup>* `` set seen"
proof
  have "y \<in> set (sql_closure pairs seen)" if "(x, y) \<in> (set pairs)\<^sup>*" "x \<in> set seen" for x y
    using that by (induction rule: rtrancl_induct) (use sql_closure_seen sql_closure_closed [of pairs seen] in blast)+
  then show "(set pairs)\<^sup>* `` set seen \<subseteq> set (sql_closure pairs seen)" by blast
qed (rule sql_closure_sound)

definition closure_round :: "(int \<times> int) list \<Rightarrow> int list \<Rightarrow> int list" where
  "closure_round pairs seen = seen @ joined pairs seen"

lemma closure_rounds:
  "card (snd ` set pairs - set seen) \<le> n \<Longrightarrow>
     (closure_round pairs ^^ n) seen = sql_closure pairs seen \<and> joined pairs (sql_closure pairs seen) = []"
proof (induction pairs seen arbitrary: n rule: sql_closure.induct)
  case (1 pairs seen)
  show ?case
  proof (cases "joined pairs seen = []")
    case True
    then have "(closure_round pairs ^^ n) seen = seen" by (induction n) (simp_all add: closure_round_def)
    with True show ?thesis by (simp add: sql_closure_stop)
  next
    case False
    from joined_smaller [OF False] 1(2) obtain k where n: "n = Suc k" and
      k: "card (snd ` set pairs - set (seen @ joined pairs seen)) \<le> k" by (cases n) auto
    from 1(1) [OF False k] show ?thesis
      by (simp only: n funpow_Suc_right comp_apply closure_round_def sql_closure_go [OF False])
  qed
qed

lemma sql_closure_distinct: "distinct seen \<Longrightarrow> distinct (sql_closure pairs seen)"
proof (induction pairs seen rule: sql_closure.induct)
  case (1 pairs seen)
  then show ?case
    by (cases "joined pairs seen = []") (auto simp: sql_closure_stop sql_closure_go [of pairs seen] joined_iff, auto simp: joined_def)
qed

section \<open>The tables\<close>

record 'w edge_row =
  ed_id :: int
  ed_src :: int
  ed_dst :: int
  ed_type :: string
  ed_props :: string
  ed_weight :: "'w option"
  ed_created_at :: string

record contain_row =
  ct_child :: int
  ct_parent :: int
  ct_position :: int

record 'w graph_db =
  gr_items :: "(int \<times> string) list"
  gr_edges :: "'w edge_row list"
  gr_edges_seq :: int
  gr_containment :: "contain_row list"
  gr_log :: changelog

record 'w weight_ops =
  w_finite :: "'w \<Rightarrow> bool"
  w_json :: "'w \<Rightarrow> json"
  w_show :: "'w \<Rightarrow> string"

definition empty_graph :: "'w graph_db" where
  "empty_graph = \<lparr>gr_items = [], gr_edges = [], gr_edges_seq = 0, gr_containment = [], gr_log = []\<rparr>"

definition has_item :: "'w graph_db \<Rightarrow> int \<Rightarrow> bool" where
  "has_item db i \<longleftrightarrow> map_of (gr_items db) i \<noteq> None"

definition fk_failed :: core_error where "fk_failed = Sqlite ''FOREIGN KEY constraint failed''"

definition edge_pairs :: "'w graph_db \<Rightarrow> edge_type \<Rightarrow> (int \<times> int) list" where
  "edge_pairs db et = map (\<lambda>r. (ed_src r, ed_dst r)) (filter (\<lambda>r. ed_type r = edge_type_as_str et) (gr_edges db))"

definition contain_pairs :: "'w graph_db \<Rightarrow> (int \<times> int) list" where
  "contain_pairs db = map (\<lambda>r. (ct_child r, ct_parent r)) (gr_containment db)"

section \<open>Cycles\<close>

definition creates_cycle :: "'w graph_db \<Rightarrow> int \<Rightarrow> int \<Rightarrow> bool" where
  "creates_cycle db src dst \<longleftrightarrow>
     src = dst \<or>
     (let pairs = edge_pairs db E_DependsOn
      in src \<in> set (sql_closure pairs (remdups (map snd (filter (\<lambda>(x, _). x = dst) pairs)))))"

definition is_parent_or_above :: "'w graph_db \<Rightarrow> int \<Rightarrow> int \<Rightarrow> bool" where
  "is_parent_or_above db ancestor item \<longleftrightarrow>
     ancestor \<in> set (sql_closure (map (\<lambda>(x, y). (y, x)) (edge_pairs db E_ParentOf)) [item])"

definition closes_cycle :: "'w graph_db \<Rightarrow> int \<Rightarrow> int \<Rightarrow> edge_type \<Rightarrow> bool" where
  "closes_cycle db src dst et =
     (case et of
        E_DependsOn \<Rightarrow> creates_cycle db src dst
      | E_ParentOf \<Rightarrow> is_parent_or_above db dst src
      | _ \<Rightarrow> False)"

section \<open>Edges\<close>

definition edge_at :: "int \<Rightarrow> int \<Rightarrow> edge_type \<Rightarrow> 'w edge_row \<Rightarrow> bool" where
  "edge_at src dst et r \<longleftrightarrow> ed_src r = src \<and> ed_dst r = dst \<and> ed_type r = edge_type_as_str et"

definition json_weight :: "'w weight_ops \<Rightarrow> 'w option \<Rightarrow> json" where
  "json_weight ops w = (case w of None \<Rightarrow> JNull | Some x \<Rightarrow> w_json ops x)"

definition describe_edge :: "'w weight_ops \<Rightarrow> int \<Rightarrow> int \<Rightarrow> edge_type \<Rightarrow> 'w option \<Rightarrow> json" where
  "describe_edge ops src dst et w =
     JObj [(''dst_item_id'', JNum dst), (''src_item_id'', JNum src),
           (''type'', JStr (edge_type_as_str et)), (''weight'', json_weight ops w)]"

definition parent_cycle :: "'w graph_db \<Rightarrow> int \<Rightarrow> int \<Rightarrow> core_error" where
  "parent_cycle db src dst =
     (let uid = (\<lambda>i. case map_of (gr_items db) i of Some u \<Rightarrow> u | None \<Rightarrow> int_str i);
          child = uid dst; parent = uid src
      in validation (if src = dst then ''`'' @ child @ ''` cannot be its own parent''
         else ''`'' @ child @ ''` cannot go under `'' @ parent @ ''`: `'' @ parent @ ''` is inside `'' @ child @
           ''`, so `'' @ child @ ''` would be its own ancestor''))"

definition link_weighted ::
  "'w weight_ops \<Rightarrow> string \<Rightarrow> 'w graph_db \<Rightarrow> write_meta \<Rightarrow> int \<Rightarrow> int \<Rightarrow> edge_type \<Rightarrow> 'w option \<Rightarrow> string option
     \<Rightarrow> ('w graph_db \<times> int) core_result" where
  "link_weighted ops now db meta src dst et weight props =
     (if et = E_DependsOn \<and> closes_cycle db src dst et
      then Inl (validation (''depends_on '' @ int_str src @ '' -> '' @ int_str dst @ '' would create a cycle''))
      else if et = E_ParentOf \<and> closes_cycle db src dst et then Inl (parent_cycle db src dst)
      else if (case weight of Some w \<Rightarrow> \<not> w_finite ops w | None \<Rightarrow> False)
      then Inl (validation (''edge weight must be a finite number, got '' @
             (case weight of Some w \<Rightarrow> w_show ops w | None \<Rightarrow> [])))
      else
          (case List.find (edge_at src dst et) (gr_edges db) of
             Some r \<Rightarrow>
               let weight' = (case weight of Some w \<Rightarrow> Some w | None \<Rightarrow> ed_weight r) in
               result_bind (changelog_append (gr_log db) meta Op_Update E_Edges (int_str (ed_id r))
                   (Some (describe_edge ops src dst et (ed_weight r))) (Some (describe_edge ops src dst et weight')))
                 (\<lambda>log. Inr (db\<lparr>gr_edges := map (\<lambda>x. if edge_at src dst et x then x\<lparr>ed_weight := weight'\<rparr> else x) (gr_edges db),
                     gr_log := log\<rparr>, ed_id r))
           | None \<Rightarrow>
               if \<not> has_item db src \<or> \<not> has_item db dst then Inl fk_failed
               else let i = gr_edges_seq db + 1 in
                 result_bind (changelog_upsert (gr_log db) meta E_Edges (int_str i) None
                     (Some (describe_edge ops src dst et weight)))
                   (\<lambda>log. Inr (db\<lparr>gr_edges := gr_edges db @
                        [\<lparr>ed_id = i, ed_src = src, ed_dst = dst, ed_type = edge_type_as_str et,
                          ed_props = (case props of None \<Rightarrow> ''{}'' | Some p \<Rightarrow> p), ed_weight = weight, ed_created_at = now\<rparr>],
                      gr_edges_seq := i, gr_log := log\<rparr>, i))))"

definition link ::
  "'w weight_ops \<Rightarrow> string \<Rightarrow> 'w graph_db \<Rightarrow> write_meta \<Rightarrow> int \<Rightarrow> int \<Rightarrow> edge_type \<Rightarrow> string option
     \<Rightarrow> ('w graph_db \<times> int) core_result" where
  "link ops now db meta src dst et props = link_weighted ops now db meta src dst et None props"

definition unlink ::
  "'w weight_ops \<Rightarrow> 'w graph_db \<Rightarrow> write_meta \<Rightarrow> int \<Rightarrow> int \<Rightarrow> edge_type \<Rightarrow> 'w graph_db core_result" where
  "unlink ops db meta src dst et =
     (let db' = db\<lparr>gr_edges := filter (\<lambda>r. \<not> edge_at src dst et r) (gr_edges db)\<rparr>
      in case List.find (edge_at src dst et) (gr_edges db) of
           None \<Rightarrow> Inr db'
         | Some r \<Rightarrow>
             result_bind (changelog_append (gr_log db) meta Op_Delete E_Edges (int_str src @ ''->'' @ int_str dst)
                 (Some (JObj [(''created_at'', JStr (ed_created_at r)), (''dst_item_id'', JNum (ed_dst r)),
                    (''id'', JNum (ed_id r)), (''props'', JStr (ed_props r)), (''src_item_id'', JNum (ed_src r)),
                    (''type'', JStr (ed_type r)), (''weight'', json_weight ops (ed_weight r))])) None)
               (\<lambda>log. Inr (db'\<lparr>gr_log := log\<rparr>)))"

definition dependencies :: "'w graph_db \<Rightarrow> int \<Rightarrow> int list" where
  "dependencies db item = sort (map snd (filter (\<lambda>(x, _). x = item) (edge_pairs db E_DependsOn)))"

definition edges_from :: "'w graph_db \<Rightarrow> int \<Rightarrow> edge_type \<Rightarrow> int list" where
  "edges_from db src et = sort (map snd (filter (\<lambda>(x, _). x = src) (edge_pairs db et)))"

definition edges_from_many :: "'w graph_db \<Rightarrow> int list \<Rightarrow> edge_type \<Rightarrow> int \<Rightarrow> int list option" where
  "edges_from_many db srcs et src =
     (if src \<in> set srcs \<and> edges_from db src et \<noteq> [] then Some (edges_from db src et) else None)"

section \<open>Containment\<close>

definition contain_key :: "int \<Rightarrow> contain_row \<Rightarrow> bool" where
  "contain_key child r \<longleftrightarrow> ct_child r = child"

definition json_contain :: "contain_row \<Rightarrow> json" where
  "json_contain r = JObj [(''child_item_id'', JNum (ct_child r)), (''parent_item_id'', JNum (ct_parent r)),
     (''position'', JNum (ct_position r))]"

definition contain ::
  "'w graph_db \<Rightarrow> write_meta \<Rightarrow> int \<Rightarrow> int \<Rightarrow> int \<Rightarrow> 'w graph_db core_result" where
  "contain db meta child parent position =
     (if child = parent then Inl (validation (''item '' @ int_str child @ '' cannot contain itself''))
      else if child \<in> set (sql_closure (contain_pairs db) [parent])
      then Inl (validation (''item '' @ int_str parent @ '' is inside item '' @ int_str child @ '', so '' @ int_str child @
        '' cannot be contained by it''))
      else
        let new = \<lparr>ct_child = child, ct_parent = parent, ct_position = position\<rparr>;
            before = List.find (contain_key child) (gr_containment db)
        in if before = Some new then Inr db
           else if \<not> has_item db child \<or> \<not> has_item db parent then Inl fk_failed
           else result_bind (changelog_upsert (gr_log db) meta E_Containment (int_str child)
                  (map_option json_contain before) (Some (json_contain new)))
                (\<lambda>log. Inr (db\<lparr>gr_containment :=
                    (if before = None then gr_containment db @ [new]
                     else map (\<lambda>r. if contain_key child r then new else r) (gr_containment db)),
                   gr_log := log\<rparr>)))"

definition uncontain :: "'w graph_db \<Rightarrow> write_meta \<Rightarrow> int \<Rightarrow> ('w graph_db \<times> int option) core_result" where
  "uncontain db meta child =
     (case List.find (contain_key child) (gr_containment db) of
        None \<Rightarrow> Inr (db, None)
      | Some r \<Rightarrow>
          result_bind (changelog_append (gr_log db) meta Op_Delete E_Containment (int_str child) (Some (json_contain r)) None)
            (\<lambda>log. Inr (db\<lparr>gr_containment := filter (\<lambda>r. \<not> contain_key child r) (gr_containment db), gr_log := log\<rparr>,
               Some (ct_parent r))))"

definition contain_children :: "'w graph_db \<Rightarrow> int \<Rightarrow> int list" where
  "contain_children db parent =
     map ct_child (sort_key ct_position (sort_key ct_child (filter (\<lambda>r. ct_parent r = parent) (gr_containment db))))"

definition contain_parent :: "'w graph_db \<Rightarrow> int \<Rightarrow> int option" where
  "contain_parent db child = map_option ct_parent (List.find (contain_key child) (gr_containment db))"

section \<open>What the cycle check decides\<close>

lemma closes_cycle_iff:
  "closes_cycle db src dst et \<longleftrightarrow>
     et \<in> {E_DependsOn, E_ParentOf} \<and> (dst, src) \<in> (set (edge_pairs db et))\<^sup>*"
proof (cases "et = E_DependsOn")
  case True
  let ?r = "set (edge_pairs db E_DependsOn)"
  have "set (remdups (map snd (filter (\<lambda>(x, _). x = dst) (edge_pairs db E_DependsOn)))) = ?r `` {dst}" by force
  then have "creates_cycle db src dst \<longleftrightarrow> src = dst \<or> src \<in> ?r\<^sup>* `` (?r `` {dst})"
    by (simp only: creates_cycle_def Let_def sql_closure_eq)
  also have "\<dots> \<longleftrightarrow> (dst, src) \<in> ?r\<^sup>*"
    by (auto intro: converse_rtrancl_into_rtrancl elim: converse_rtranclE)
  finally show ?thesis using True by (simp add: closes_cycle_def)
next
  case False
  have "set (map (\<lambda>(x, y). (y, x)) (edge_pairs db E_ParentOf)) = (set (edge_pairs db E_ParentOf))\<inverse>" by force
  then have "is_parent_or_above db dst src \<longleftrightarrow> (dst, src) \<in> (set (edge_pairs db E_ParentOf))\<^sup>*"
    by (simp add: is_parent_or_above_def sql_closure_eq rtrancl_converse)
  with False show ?thesis by (cases et) (simp_all add: closes_cycle_def)
qed

text \<open>
  The two queries read as rounds of the recursive select: what \<open>creates_cycle\<close> has found from
  \<open>dst\<close> after so many, and what \<open>is_parent_or_above\<close> has found from the item.
\<close>

definition reach_rounds :: "nat \<Rightarrow> 'w graph_db \<Rightarrow> int \<Rightarrow> int list" where
  "reach_rounds k db dst =
     (let pairs = edge_pairs db E_DependsOn
      in (closure_round pairs ^^ k) (remdups (map snd (filter (\<lambda>(x, _). x = dst) pairs))))"

definition up_rounds :: "nat \<Rightarrow> 'w graph_db \<Rightarrow> int \<Rightarrow> int list" where
  "up_rounds k db item = (closure_round (map (\<lambda>(x, y). (y, x)) (edge_pairs db E_ParentOf)) ^^ k) [item]"

lemma closure_rounds_enough:
  assumes "length pairs \<le> n"
  shows "(closure_round pairs ^^ n) seen = sql_closure pairs seen"
proof -
  have "card (snd ` set pairs - set seen) \<le> card (snd ` set pairs)" by (rule card_mono) auto
  also have "\<dots> \<le> card (set pairs)" by (rule card_image_le) simp
  also have "\<dots> \<le> n" using assms card_length [of pairs] by linarith
  finally show ?thesis using closure_rounds by blast
qed

lemma rounds_enough:
  assumes "length (gr_edges db) \<le> n"
  shows "creates_cycle db src dst \<longleftrightarrow> src = dst \<or> src \<in> set (reach_rounds n db dst)"
    and "is_parent_or_above db anc item \<longleftrightarrow> anc \<in> set (up_rounds n db item)"
    and "reach_rounds n db dst = reach_rounds (length (gr_edges db)) db dst"
    and "up_rounds n db item = up_rounds (length (gr_edges db)) db item"
proof -
  have l: "length (edge_pairs db et) \<le> length (gr_edges db)" for et by (simp add: edge_pairs_def)
  note e = closure_rounds_enough [OF order_trans [OF l assms]] closure_rounds_enough [OF l]
  have l': "length (map (\<lambda>(x, y). (y, x)) (edge_pairs db E_ParentOf)) \<le> length (gr_edges db)" using l by simp
  note u = closure_rounds_enough [OF order_trans [OF l' assms]] closure_rounds_enough [OF l']
  show "creates_cycle db src dst \<longleftrightarrow> src = dst \<or> src \<in> set (reach_rounds n db dst)"
    "reach_rounds n db dst = reach_rounds (length (gr_edges db)) db dst"
    by (simp_all only: creates_cycle_def reach_rounds_def Let_def e)
  show "is_parent_or_above db anc item \<longleftrightarrow> anc \<in> set (up_rounds n db item)"
    "up_rounds n db item = up_rounds (length (gr_edges db)) db item"
    by (simp_all only: is_parent_or_above_def up_rounds_def u)
qed

lemma edge_pairs_set:
  "set (edge_pairs db et) = {(ed_src r, ed_dst r) | r. r \<in> set (gr_edges db) \<and> ed_type r = edge_type_as_str et}"
  by (auto simp: edge_pairs_def)

text \<open>
  C15. The two cycle checks end, and decide what they ask, on any edges table, one that already holds
  a cycle included (a hand-edited database, or an \<open>undo\<close> out of order). Their recursive queries
  find nothing new after as many rounds as the table has rows. A dependency is refused exactly when
  the source is the target or the target already reaches it over the \<open>depends_on\<close> rows, source
  to destination; a \<open>parent_of\<close> edge exactly when the child is the parent or already above it over
  the \<open>parent_of\<close> rows; an edge of any other type never.
\<close>

theorem cycle_checks_decide:
  "(let n = length (gr_edges db);
        over = (\<lambda>name. {(ed_src r, ed_dst r) | r. r \<in> set (gr_edges db) \<and> ed_type r = name})
    in (\<forall>k. reach_rounds (n + k) db dst = reach_rounds n db dst \<and> up_rounds (n + k) db src = up_rounds n db src) \<and>
      (closes_cycle db src dst E_DependsOn \<longleftrightarrow> src = dst \<or> src \<in> set (reach_rounds n db dst)) \<and>
      (closes_cycle db src dst E_DependsOn \<longleftrightarrow> (dst, src) \<in> (over ''depends_on'')\<^sup>*) \<and>
      (closes_cycle db src dst E_ParentOf \<longleftrightarrow> dst \<in> set (up_rounds n db src)) \<and>
      (closes_cycle db src dst E_ParentOf \<longleftrightarrow> (dst, src) \<in> (over ''parent_of'')\<^sup>*)) \<and>
   (et \<notin> {E_DependsOn, E_ParentOf} \<longrightarrow> \<not> closes_cycle db src dst et)"
proof -
  note r = rounds_enough [of db "length (gr_edges db) + k" for k, OF le_add1] rounds_enough [OF order_refl, of db]
  have c: "closes_cycle db src dst E_DependsOn = creates_cycle db src dst"
    "closes_cycle db src dst E_ParentOf = is_parent_or_above db dst src" by (simp_all add: closes_cycle_def)
  have d: "closes_cycle db src dst E_DependsOn \<longleftrightarrow>
      (dst, src) \<in> {(ed_src r, ed_dst r) | r. r \<in> set (gr_edges db) \<and> ed_type r = ''depends_on''}\<^sup>*"
    "closes_cycle db src dst E_ParentOf \<longleftrightarrow>
      (dst, src) \<in> {(ed_src r, ed_dst r) | r. r \<in> set (gr_edges db) \<and> ed_type r = ''parent_of''}\<^sup>*"
    using edge_pairs_set [of db E_DependsOn] edge_pairs_set [of db E_ParentOf] by (simp_all add: closes_cycle_iff)
  have "et \<notin> {E_DependsOn, E_ParentOf} \<longrightarrow> \<not> closes_cycle db src dst et" by (simp add: closes_cycle_iff)
  then show ?thesis unfolding Let_def using r(3,4) r(5,6) c d by blast
qed

text \<open>A table that holds a cycle, which no \<open>link\<close> made.\<close>

definition cyclic_edges :: "nat graph_db" where
  "cyclic_edges = empty_graph\<lparr>gr_edges :=
     [\<lparr>ed_id = 1, ed_src = 1, ed_dst = 2, ed_type = ''depends_on'', ed_props = ''{}'', ed_weight = None, ed_created_at = ''t''\<rparr>,
      \<lparr>ed_id = 2, ed_src = 2, ed_dst = 1, ed_type = ''depends_on'', ed_props = ''{}'', ed_weight = None, ed_created_at = ''t''\<rparr>]\<rparr>"

theorem cycle_checks_decide_witness:
  "closes_cycle cyclic_edges 2 1 E_DependsOn \<and> \<not> closes_cycle cyclic_edges 3 1 E_DependsOn \<and>
   \<not> closes_cycle cyclic_edges 2 1 E_Supports"
proof -
  have "length (gr_edges cyclic_edges) = 2" "set (reach_rounds 2 cyclic_edges 1) = {1, 2}" by code_simp+
  then show ?thesis
    using cycle_checks_decide [of cyclic_edges 1 2 E_Supports] cycle_checks_decide [of cyclic_edges 1 3 E_Supports]
    unfolding Let_def by auto
qed

text \<open>A parent may be recorded exactly when it is not inside the child.\<close>

lemma contain_inside_iff:
  "child \<in> set (sql_closure (contain_pairs db) [parent]) \<longleftrightarrow> (parent, child) \<in> (set (contain_pairs db))\<^sup>*"
  by (simp add: sql_closure_eq)

section \<open>Rows and log entries\<close>

definition edge_key :: "'w edge_row \<Rightarrow> int \<times> int \<times> string" where
  "edge_key r = (ed_src r, ed_dst r, ed_type r)"

lemma edge_at_key: "edge_at src dst et r \<longleftrightarrow> edge_key r = (src, dst, edge_type_as_str et)"
  by (simp add: edge_at_def edge_key_def)

lemma edge_logs:
  "changelog_append log meta Op_Update E_Edges i before after = Inr (log @ [log_entry meta Op_Update E_Edges i before after])"
  "changelog_upsert log meta E_Edges i None after = Inr (log @ [log_entry meta Op_Insert E_Edges i None after])"
  by (simp_all add: changelog_append_def changelog_upsert_def changelog_write_Inr log_entry_def check_restorable_iff
      inverse_of_def INVERSES_def del: cl_op_as_str.simps entity_as_str.simps)

lemma delete_logs:
  assumes "e = E_Edges \<or> e = E_Containment" and "names_row before e"
  shows "changelog_append log meta Op_Delete e i before None = Inr (log @ [log_entry meta Op_Delete e i before None])"
  using assms by (auto simp: changelog_append_def changelog_write_Inr log_entry_def check_restorable_iff
      inverse_of_def INVERSES_def simp del: cl_op_as_str.simps entity_as_str.simps)

lemma contain_logs:
  "changelog_upsert log meta E_Containment i before after =
     Inr (log @ [log_entry meta (if before = None then Op_Insert else Op_Update) E_Containment i before after])"
  by (simp add: changelog_upsert_def changelog_write_Inr log_entry_def check_restorable_iff
      inverse_of_def INVERSES_def del: cl_op_as_str.simps entity_as_str.simps)

lemma find_unique:
  assumes "List.find P xs = Some x" shows "x \<in> set xs \<and> P x"
  using assms by (induction xs) (auto split: if_splits)

definition update_weight :: "int \<Rightarrow> int \<Rightarrow> edge_type \<Rightarrow> 'w option \<Rightarrow> 'w edge_row list \<Rightarrow> 'w edge_row list" where
  "update_weight src dst et w rs = map (\<lambda>x. if edge_at src dst et x then x\<lparr>ed_weight := w\<rparr> else x) rs"

lemma update_weight_keys [simp]:
  "map edge_key (update_weight src dst et w rs) = map edge_key rs"
  "map ed_id (update_weight src dst et w rs) = map ed_id rs"
  "map ed_src (update_weight src dst et w rs) = map ed_src rs"
  "map ed_dst (update_weight src dst et w rs) = map ed_dst rs"
  by (simp_all add: update_weight_def edge_key_def)

lemma edge_pairs_keys: "edge_pairs db et = map (\<lambda>(s, d, _). (s, d)) (filter (\<lambda>(_, _, t). t = edge_type_as_str et) (map edge_key (gr_edges db)))"
  by (simp add: edge_pairs_def filter_map comp_def edge_key_def)

text \<open>What a link that succeeds did.\<close>

definition new_edge :: "string \<Rightarrow> int \<Rightarrow> int \<Rightarrow> int \<Rightarrow> edge_type \<Rightarrow> 'w option \<Rightarrow> string option \<Rightarrow> 'w edge_row" where
  "new_edge now i src dst et weight props =
     \<lparr>ed_id = i, ed_src = src, ed_dst = dst, ed_type = edge_type_as_str et,
      ed_props = (case props of None \<Rightarrow> ''{}'' | Some p \<Rightarrow> p), ed_weight = weight, ed_created_at = now\<rparr>"

definition refuses_link :: "'w weight_ops \<Rightarrow> 'w graph_db \<Rightarrow> int \<Rightarrow> int \<Rightarrow> edge_type \<Rightarrow> 'w option \<Rightarrow> bool" where
  "refuses_link ops db src dst et weight \<longleftrightarrow>
     closes_cycle db src dst et \<or> (\<exists>w. weight = Some w \<and> \<not> w_finite ops w) \<or>
     (List.find (edge_at src dst et) (gr_edges db) = None \<and> (\<not> has_item db src \<or> \<not> has_item db dst))"

definition link_writes ::
  "'w weight_ops \<Rightarrow> string \<Rightarrow> 'w graph_db \<Rightarrow> write_meta \<Rightarrow> int \<Rightarrow> int \<Rightarrow> edge_type \<Rightarrow> 'w option \<Rightarrow> string option
     \<Rightarrow> 'w graph_db \<times> int" where
  "link_writes ops now db meta src dst et weight props =
     (case List.find (edge_at src dst et) (gr_edges db) of
        Some r \<Rightarrow>
          let w = (case weight of Some w \<Rightarrow> Some w | None \<Rightarrow> ed_weight r) in
          (db\<lparr>gr_edges := update_weight src dst et w (gr_edges db),
              gr_log := gr_log db @ [log_entry meta Op_Update E_Edges (int_str (ed_id r))
                (Some (describe_edge ops src dst et (ed_weight r))) (Some (describe_edge ops src dst et w))]\<rparr>, ed_id r)
      | None \<Rightarrow>
          let i = gr_edges_seq db + 1 in
          (db\<lparr>gr_edges := gr_edges db @ [new_edge now i src dst et weight props], gr_edges_seq := i,
              gr_log := gr_log db @ [log_entry meta Op_Insert E_Edges (int_str i) None
                (Some (describe_edge ops src dst et weight))]\<rparr>, i))"

lemma link_weighted_cases:
  "link_weighted ops now db meta src dst et weight props = Inr r \<longleftrightarrow>
     \<not> refuses_link ops db src dst et weight \<and> r = link_writes ops now db meta src dst et weight props"
proof -
  have "closes_cycle db src dst et \<longrightarrow> et = E_DependsOn \<or> et = E_ParentOf" by (auto simp: closes_cycle_iff)
  then show ?thesis
    by (auto simp: link_weighted_def refuses_link_def link_writes_def Let_def edge_logs update_weight_def new_edge_def
        split: option.splits)
qed

definition refuses_contain :: "'w graph_db \<Rightarrow> int \<Rightarrow> int \<Rightarrow> int \<Rightarrow> bool" where
  "refuses_contain db child parent position \<longleftrightarrow>
     (parent, child) \<in> (set (contain_pairs db))\<^sup>* \<or>
     (List.find (contain_key child) (gr_containment db) \<noteq> Some \<lparr>ct_child = child, ct_parent = parent, ct_position = position\<rparr> \<and>
      (\<not> has_item db child \<or> \<not> has_item db parent))"

definition put_container :: "contain_row \<Rightarrow> contain_row list \<Rightarrow> contain_row list" where
  "put_container new rs =
     (if List.find (contain_key (ct_child new)) rs = None then rs @ [new]
      else map (\<lambda>r. if contain_key (ct_child new) r then new else r) rs)"

lemma contain_cases:
  "contain db meta child parent position = Inr db' \<longleftrightarrow>
     \<not> refuses_contain db child parent position \<and>
     (let new = \<lparr>ct_child = child, ct_parent = parent, ct_position = position\<rparr>;
          before = List.find (contain_key child) (gr_containment db)
      in db' = (if before = Some new then db
           else db\<lparr>gr_containment := put_container new (gr_containment db),
             gr_log := gr_log db @ [log_entry meta (if before = None then Op_Insert else Op_Update) E_Containment
               (int_str child) (map_option json_contain before) (Some (json_contain new))]\<rparr>))"
proof (cases "child = parent")
  case True
  then show ?thesis by (simp add: contain_def refuses_contain_def)
next
  case False
  then show ?thesis
    by (auto simp: contain_def refuses_contain_def contain_inside_iff Let_def contain_logs put_container_def)
qed

lemma put_container_children:
  "map ct_child (put_container new rs) =
     (if ct_child new \<in> ct_child ` set rs then map ct_child rs else map ct_child rs @ [ct_child new])"
  by (auto simp: put_container_def contain_key_def find_None_iff image_iff map_idI eq_commute [of "ct_child new"])

lemma put_container_rows: "set (put_container new rs) \<subseteq> insert new {r \<in> set rs. ct_child r \<noteq> ct_child new}"
  by (auto simp: put_container_def contain_key_def find_None_iff split: if_splits)

lemma find_put_container:
  "List.find (contain_key c) (put_container new rs) =
     (if c = ct_child new then Some new else List.find (contain_key c) rs)"
proof (cases "List.find (contain_key (ct_child new)) rs = None")
  case True
  then show ?thesis
    by (induction rs) (auto simp: put_container_def contain_key_def split: if_splits)
next
  case False
  have "c \<noteq> ct_child new \<longrightarrow>
      List.find (contain_key c) (map (\<lambda>r. if contain_key (ct_child new) r then new else r) rs) = List.find (contain_key c) rs"
    by (induction rs) (auto simp: contain_key_def)
  moreover have "List.find (contain_key (ct_child new)) (map (\<lambda>r. if contain_key (ct_child new) r then new else r) rs) = Some new"
    using False by (induction rs) (auto simp: contain_key_def)
  ultimately show ?thesis using False by (auto simp: put_container_def)
qed

lemma uncontain_cases:
  "uncontain db meta child =
     Inr (case List.find (contain_key child) (gr_containment db) of
            None \<Rightarrow> (db, None)
          | Some r \<Rightarrow>
              (db\<lparr>gr_containment := filter (\<lambda>r. \<not> contain_key child r) (gr_containment db),
                 gr_log := gr_log db @ [log_entry meta Op_Delete E_Containment (int_str child) (Some (json_contain r)) None]\<rparr>,
               Some (ct_parent r)))"
proof -
  have "names_row (Some (json_contain r)) E_Containment" for r
    by (auto simp: names_row_def json_contain_def)
  then show ?thesis by (auto simp: uncontain_def delete_logs split: option.splits)
qed

lemma unlink_cases:
  "\<exists>log. unlink ops db meta src dst et =
     Inr (db\<lparr>gr_edges := filter (\<lambda>r. \<not> edge_at src dst et r) (gr_edges db), gr_log := log\<rparr>)"
proof (cases "List.find (edge_at src dst et) (gr_edges db)")
  case None
  then show ?thesis by (auto simp: unlink_def Let_def intro: exI [of _ "gr_log db"])
next
  case (Some r)
  have "names_row (Some (JObj [(''created_at'', a), (''dst_item_id'', b), (''id'', c), (''props'', d), (''src_item_id'', e),
      (''type'', f), (''weight'', g)])) E_Edges" for a b c d e f g
    by (auto simp: names_row_def)
  with Some show ?thesis by (simp add: unlink_def Let_def delete_logs) blast
qed

section \<open>The invariant\<close>

definition endpoints :: "'w graph_db \<Rightarrow> int set" where
  "endpoints db = ed_src ` set (gr_edges db) \<union> ed_dst ` set (gr_edges db) \<union>
     ct_child ` set (gr_containment db) \<union> ct_parent ` set (gr_containment db)"

definition graph_ok :: "'w graph_db \<Rightarrow> bool" where
  "graph_ok db \<longleftrightarrow>
     distinct (map edge_key (gr_edges db)) \<and> distinct (map ed_id (gr_edges db)) \<and>
     (\<forall>r \<in> set (gr_edges db). ed_id r \<le> gr_edges_seq db) \<and>
     distinct (map ct_child (gr_containment db)) \<and>
     endpoints db \<subseteq> fst ` set (gr_items db) \<and>
     acyclic (set (edge_pairs db E_DependsOn)) \<and> acyclic (set (edge_pairs db E_ParentOf)) \<and>
     acyclic (set (contain_pairs db))"

lemma has_item_iff: "has_item db i \<longleftrightarrow> i \<in> fst ` set (gr_items db)"
  by (simp add: has_item_def map_of_eq_None_iff)

lemma edge_type_as_str_eq: "edge_type_as_str a = edge_type_as_str b \<longleftrightarrow> a = b"
  by (cases a; cases b) simp_all

lemma edge_pairs_new:
  "edge_pairs (db\<lparr>gr_edges := gr_edges db @ [new_edge now i src dst et weight props], gr_edges_seq := n, gr_log := log\<rparr>) et' =
     edge_pairs db et' @ (if et = et' then [(src, dst)] else [])"
  by (auto simp: edge_pairs_def new_edge_def edge_type_as_str_eq)

lemma edge_pairs_update:
  "edge_pairs (db\<lparr>gr_edges := update_weight src dst et w (gr_edges db), gr_log := log\<rparr>) et' = edge_pairs db et'"
  by (simp add: edge_pairs_keys)

lemma acyclic_insert_edge:
  "acyclic r \<Longrightarrow> acyclic (insert (a, b) r) \<longleftrightarrow> (b, a) \<notin> r\<^sup>*"
  by (simp add: acyclic_insert)

lemma update_weight_ends:
  "ed_src ` set (update_weight src dst et w rs) = ed_src ` set rs"
  "ed_dst ` set (update_weight src dst et w rs) = ed_dst ` set rs"
  "ed_id ` set (update_weight src dst et w rs) = ed_id ` set rs"
  by (metis list.set_map update_weight_keys)+

lemma link_writes_ok:
  assumes ok: "graph_ok db" and no: "\<not> refuses_link ops db src dst et weight"
  shows "graph_ok (fst (link_writes ops now db meta src dst et weight props))"
proof (cases "List.find (edge_at src dst et) (gr_edges db)")
  case (Some r)
  have le: "(\<forall>r \<in> set (update_weight src dst et w (gr_edges db)). ed_id r \<le> n) \<longleftrightarrow> (\<forall>r \<in> set (gr_edges db). ed_id r \<le> n)" for w n
    using update_weight_ends(3) [of src dst et w "gr_edges db"] by (metis (no_types, lifting) imageE imageI)
  from ok Some show ?thesis
    by (simp add: link_writes_def Let_def graph_ok_def edge_pairs_update endpoints_def update_weight_ends le contain_pairs_def)
next
  case None
  with no have items: "has_item db src" "has_item db dst" and free: "(src, dst, edge_type_as_str et) \<notin> edge_key ` set (gr_edges db)"
    by (auto simp: refuses_link_def find_None_iff edge_at_key image_iff)
  have acyc: "acyclic (set (edge_pairs db e @ (if et = e then [(src, dst)] else [])))"
    if "e \<in> {E_DependsOn, E_ParentOf}" for e
  proof (cases "et = e")
    case True
    with that no have "(dst, src) \<notin> (set (edge_pairs db e))\<^sup>*" by (auto simp: refuses_link_def closes_cycle_iff)
    with that ok True show ?thesis by (auto simp: graph_ok_def acyclic_insert)
  qed (use that ok in \<open>auto simp: graph_ok_def\<close>)
  let ?new = "new_edge now (gr_edges_seq db + 1) src dst et weight props"
  define db' where "db' = fst (link_writes ops now db meta src dst et weight props)"
  obtain log where e: "db' = db\<lparr>gr_edges := gr_edges db @ [?new], gr_edges_seq := gr_edges_seq db + 1, gr_log := log\<rparr>"
    using None by (simp add: db'_def link_writes_def Let_def)
  have "acyclic (set (edge_pairs db' E_DependsOn))" "acyclic (set (edge_pairs db' E_ParentOf))"
    unfolding e edge_pairs_new by (rule acyc, simp)+
  moreover have "endpoints db' \<subseteq> fst ` set (gr_items db')"
    using ok items by (auto simp: e graph_ok_def endpoints_def has_item_iff new_edge_def)
  moreover have "distinct (map edge_key (gr_edges db'))" "distinct (map ed_id (gr_edges db'))"
    using ok free by (force simp: e graph_ok_def new_edge_def edge_key_def)+
  moreover have "\<forall>r \<in> set (gr_edges db'). ed_id r \<le> gr_edges_seq db'"
    using ok by (auto simp: e graph_ok_def new_edge_def)
  ultimately show ?thesis
    using ok unfolding db'_def [symmetric] by (simp add: graph_ok_def e contain_pairs_def)
qed

lemma contain_ok:
  assumes ok: "graph_ok db" and c: "contain db meta child parent position = Inr db'"
  shows "graph_ok db'"
proof -
  let ?new = "\<lparr>ct_child = child, ct_parent = parent, ct_position = position\<rparr>"
  from c have no: "\<not> refuses_contain db child parent position"
    and db': "db' = db \<or> (List.find (contain_key child) (gr_containment db) \<noteq> Some ?new \<and>
      (\<exists>log. db' = db\<lparr>gr_containment := put_container ?new (gr_containment db), gr_log := log\<rparr>))"
    by (auto simp: contain_cases Let_def split: if_splits)
  show ?thesis
  proof (cases "db' = db")
    case False
    with db' obtain log where f: "List.find (contain_key child) (gr_containment db) \<noteq> Some ?new"
      and e: "db' = db\<lparr>gr_containment := put_container ?new (gr_containment db), gr_log := log\<rparr>" by auto
    with no have items: "has_item db child" "has_item db parent" and path: "(parent, child) \<notin> (set (contain_pairs db))\<^sup>*"
      by (auto simp: refuses_contain_def)
    have sub: "set (put_container ?new (gr_containment db)) \<subseteq> insert ?new (set (gr_containment db))"
      using put_container_rows [of ?new "gr_containment db"] by auto
    then have "set (contain_pairs db') \<subseteq> insert (child, parent) (set (contain_pairs db))"
      by (auto simp: e contain_pairs_def)
    moreover have "acyclic (insert (child, parent) (set (contain_pairs db)))"
      using ok path by (simp add: graph_ok_def acyclic_insert)
    ultimately have "acyclic (set (contain_pairs db'))" by (rule acyclic_subset [rotated])
    moreover have "endpoints db' \<subseteq> insert child (insert parent (endpoints db))"
      using sub by (auto simp: e endpoints_def)
    moreover have "distinct (map ct_child (gr_containment db'))"
      using ok by (simp add: e put_container_children graph_ok_def)
    ultimately show ?thesis using ok items by (auto simp: graph_ok_def e edge_pairs_def has_item_iff)
  qed (simp add: ok)
qed

text \<open>Deleting rows keeps the invariant, whatever is deleted.\<close>

lemma graph_ok_filter:
  assumes ok: "graph_ok db" and items: "endpoints db' \<subseteq> fst ` set (gr_items db')"
    and e: "gr_edges db' = filter P (gr_edges db)" "gr_edges_seq db' = gr_edges_seq db"
    and c: "gr_containment db' = filter Q (gr_containment db)"
  shows "graph_ok db'"
proof -
  have "set (edge_pairs db' et) \<subseteq> set (edge_pairs db et)" for et by (auto simp: edge_pairs_def e)
  moreover have "set (contain_pairs db') \<subseteq> set (contain_pairs db)" by (auto simp: contain_pairs_def c)
  moreover from ok have "acyclic (set (edge_pairs db E_DependsOn))" "acyclic (set (edge_pairs db E_ParentOf))"
    "acyclic (set (contain_pairs db))" by (simp_all add: graph_ok_def)
  ultimately have "acyclic (set (edge_pairs db' E_DependsOn))" "acyclic (set (edge_pairs db' E_ParentOf))"
    "acyclic (set (contain_pairs db'))" by (blast intro: acyclic_subset)+
  with ok items show ?thesis by (simp add: graph_ok_def e c distinct_map_filter)
qed

text \<open>
  The writes of \<open>edge.rs\<close> and \<open>containment.rs\<close>: items come and go (a row's foreign keys delete it with
  either item, whatever the log then holds), edges are linked and unlinked, nodes contained and
  released. The rows \<open>undo\<close> puts back are not among them.
\<close>

definition cascade_item :: "'w graph_db \<Rightarrow> int \<Rightarrow> 'w graph_db" where
  "cascade_item db i = db\<lparr>gr_items := filter (\<lambda>(j, _). j \<noteq> i) (gr_items db),
     gr_edges := filter (\<lambda>r. ed_src r \<noteq> i \<and> ed_dst r \<noteq> i) (gr_edges db),
     gr_containment := filter (\<lambda>r. ct_child r \<noteq> i \<and> ct_parent r \<noteq> i) (gr_containment db)\<rparr>"

inductive graph_step :: "'w weight_ops \<Rightarrow> 'w graph_db \<Rightarrow> 'w graph_db \<Rightarrow> bool" for ops where
  gs_item: "\<not> has_item db i \<Longrightarrow> graph_step ops db (db\<lparr>gr_items := gr_items db @ [(i, uid)]\<rparr>)"
| gs_remove: "graph_step ops db ((cascade_item db i)\<lparr>gr_log := log\<rparr>)"
| gs_link: "link_weighted ops now db meta src dst et weight props = Inr (db', i) \<Longrightarrow> graph_step ops db db'"
| gs_unlink: "unlink ops db meta src dst et = Inr db' \<Longrightarrow> graph_step ops db db'"
| gs_contain: "contain db meta child parent position = Inr db' \<Longrightarrow> graph_step ops db db'"
| gs_uncontain: "uncontain db meta child = Inr (db', was) \<Longrightarrow> graph_step ops db db'"

lemma graph_step_ok: "graph_step ops db db' \<Longrightarrow> graph_ok db \<Longrightarrow> graph_ok db'"
proof (induction rule: graph_step.induct)
  case (gs_item db i uid)
  then show ?case by (auto simp: graph_ok_def endpoints_def edge_pairs_def contain_pairs_def)
next
  case (gs_remove db log i)
  then show ?case
    by (rule graph_ok_filter [where P = "\<lambda>r. ed_src r \<noteq> i \<and> ed_dst r \<noteq> i" and Q = "\<lambda>r. ct_child r \<noteq> i \<and> ct_parent r \<noteq> i"])
       (use gs_remove in \<open>force simp: cascade_item_def endpoints_def graph_ok_def\<close>)+
next
  case (gs_link now db meta src dst et weight props db' i)
  then have "\<not> refuses_link ops db src dst et weight" and "db' = fst (link_writes ops now db meta src dst et weight props)"
    by (simp_all add: link_weighted_cases) (metis fst_conv)
  with gs_link.prems show ?case by (simp add: link_writes_ok)
next
  case (gs_unlink db meta src dst et db')
  then obtain log where "db' = db\<lparr>gr_edges := filter (\<lambda>r. \<not> edge_at src dst et r) (gr_edges db), gr_log := log\<rparr>"
    using unlink_cases [of ops db meta src dst et] by auto
  then show ?case
    by (intro graph_ok_filter [OF gs_unlink.prems, where P = "\<lambda>r. \<not> edge_at src dst et r" and Q = "\<lambda>_. True"])
       (use gs_unlink.prems in \<open>auto simp: endpoints_def graph_ok_def\<close>)
next
  case (gs_contain db meta child parent position db')
  then show ?case by (blast intro: contain_ok)
next
  case (gs_uncontain db meta child db' was)
  show ?case
  proof (cases "List.find (contain_key child) (gr_containment db)")
    case None
    with gs_uncontain show ?thesis by (simp add: uncontain_cases)
  next
    case (Some r)
    with gs_uncontain.hyps obtain log where
      "db' = db\<lparr>gr_containment := filter (\<lambda>r. \<not> contain_key child r) (gr_containment db), gr_log := log\<rparr>"
      by (auto simp: uncontain_cases)
    then show ?thesis
      by (intro graph_ok_filter [OF gs_uncontain.prems, where P = "\<lambda>_. True" and Q = "\<lambda>r. \<not> contain_key child r"])
         (use gs_uncontain.prems in \<open>auto simp: endpoints_def graph_ok_def\<close>)
  qed
qed

lemma graph_steps_ok: "(graph_step ops)\<^sup>*\<^sup>* empty_graph db \<Longrightarrow> graph_ok db"
proof (induction rule: rtranclp_induct)
  case base
  show ?case by (simp add: graph_ok_def empty_graph_def endpoints_def edge_pairs_def contain_pairs_def acyclic_def)
qed (rule graph_step_ok)

section \<open>Properties\<close>

text \<open>
  C12. The graph's own writers keep it a graph the walks can trust. Whatever sequence of them a
  store has seen since it was empty, in any order and whatever each refused (\<open>link\<close>, \<open>link_weighted\<close> and
  \<open>unlink\<close> of \<open>edge.rs\<close>, \<open>contain\<close> and \<open>uncontain\<close> of \<open>containment.rs\<close>), with items created and
  deleted in between: \<open>depends_on\<close> has no cycle, \<open>parent_of\<close> has no cycle, containment is a forest (no cycle and
  at most one container of a node), an edge is recorded once per pair and type, and no row
  points at an item that is gone. Not claimed of \<open>jkb undo\<close>, which reinserts rows with its own SQL
  and, out of order, can restore a cycle, as \<open>link\<close>'s documentation says, nor of rows written by
  hand or copied by a migration.
\<close>

theorem graph_stays_acyclic:
  assumes "(graph_step ops)\<^sup>*\<^sup>* empty_graph db" and "et \<in> {E_DependsOn, E_ParentOf}"
  shows "acyclic (set (edge_pairs db et)) \<and> acyclic (set (contain_pairs db)) \<and>
    distinct (map ct_child (gr_containment db)) \<and> distinct (map edge_key (gr_edges db)) \<and>
    endpoints db \<subseteq> fst ` set (gr_items db)"
  using graph_steps_ok [OF assms(1)] assms(2) by (auto simp: graph_ok_def)

text \<open>A store with two items, the second depending on the first.\<close>

definition demo_weights :: "nat weight_ops" where
  "demo_weights = \<lparr>w_finite = \<lambda>_. True, w_json = \<lambda>n. JNum (int n), w_show = nat_str\<rparr>"

definition demo_items :: "nat graph_db" where
  "demo_items = empty_graph\<lparr>gr_items := [(1, ''a''), (2, ''b'')]\<rparr>"

definition demo_graph :: "nat graph_db" where
  "demo_graph = fst (link_writes demo_weights ''now'' demo_items \<lparr>wm_txn_id = 1, wm_actor = ''cli''\<rparr> 2 1 E_DependsOn None None)"

lemma demo_graph_reached: "(graph_step demo_weights)\<^sup>*\<^sup>* empty_graph demo_graph"
proof -
  let ?one = "(empty_graph :: nat graph_db)\<lparr>gr_items := [(1, ''a'')]\<rparr>"
  let ?meta = "\<lparr>wm_txn_id = 1, wm_actor = ''cli''\<rparr>"
  have "graph_step demo_weights empty_graph ?one"
    using gs_item [of empty_graph 1 demo_weights "''a''"] by (simp add: has_item_def empty_graph_def)
  moreover have "graph_step demo_weights ?one demo_items"
    using gs_item [of ?one 2 demo_weights "''b''"] by (simp add: has_item_def demo_items_def)
  moreover have "\<not> refuses_link demo_weights demo_items 2 1 E_DependsOn None"
    by (simp add: refuses_link_def closes_cycle_iff edge_pairs_def has_item_def demo_items_def empty_graph_def)
  then have "link_weighted demo_weights ''now'' demo_items ?meta 2 1 E_DependsOn None None =
      Inr (demo_graph, snd (link_writes demo_weights ''now'' demo_items ?meta 2 1 E_DependsOn None None))"
    by (simp add: link_weighted_cases demo_graph_def)
  then have "graph_step demo_weights demo_items demo_graph" by (rule gs_link)
  ultimately show ?thesis by (meson rtranclp.rtrancl_refl converse_rtranclp_into_rtranclp)
qed

lemma demo_graph_edges:
  "edge_pairs demo_graph E_DependsOn = [(2, 1)]" "gr_items demo_graph = [(1, ''a''), (2, ''b'')]" "contain_pairs demo_graph = []"
  by (simp_all add: demo_graph_def link_writes_def demo_items_def empty_graph_def new_edge_def edge_pairs_def Let_def contain_pairs_def)

theorem graph_stays_acyclic_witness:
  "acyclic (set (edge_pairs demo_graph E_DependsOn)) \<and> edge_pairs demo_graph E_DependsOn = [(2, 1)]"
  using graph_stays_acyclic [OF demo_graph_reached, of E_DependsOn] demo_graph_edges(1) by simp

lemma closes_cycle_acyclic:
  assumes "graph_ok db"
  shows "closes_cycle db src dst et \<longleftrightarrow>
    et \<in> {E_DependsOn, E_ParentOf} \<and> \<not> acyclic (insert (src, dst) (set (edge_pairs db et)))"
  using assms by (auto simp: closes_cycle_iff graph_ok_def acyclic_insert)

lemma filter_edge_at:
  assumes "distinct (map edge_key rs)" and "List.find (edge_at src dst et) rs = Some r"
  shows "filter (edge_at src dst et) rs = [r]"
  using assms
proof (induction rs)
  case (Cons x rs)
  show ?case
  proof (cases "edge_at src dst et x")
    case True
    with Cons.prems have "\<forall>y \<in> set rs. \<not> edge_at src dst et y" by (auto simp: edge_at_key image_iff)
    with True Cons.prems show ?thesis by simp
  qed (use Cons in simp)
qed simp

lemma filter_update_weight:
  "filter (edge_at src dst et) (update_weight src dst et w rs) = map (\<lambda>x. x\<lparr>ed_weight := w\<rparr>) (filter (edge_at src dst et) rs)"
  "filter (\<lambda>r. \<not> edge_at src dst et r) (update_weight src dst et w rs) = filter (\<lambda>r. \<not> edge_at src dst et r) rs"
  by (induction rs) (auto simp: update_weight_def edge_at_def)

lemma log_entry_insert: "cl_op (log_entry meta x e i before after) = ''insert'' \<longleftrightarrow> x = Op_Insert"
  by (cases x) (simp_all add: log_entry_def)

lemma link_writes_meaning:
  assumes "distinct (map edge_key (gr_edges db))"
    and "link_writes ops now db meta src dst et weight props = (db', i)"
  shows "map (\<lambda>r. (ed_id r, ed_weight r)) (filter (edge_at src dst et) (gr_edges db')) =
      [(i, if weight \<noteq> None then weight
           else Option.bind (List.find (edge_at src dst et) (gr_edges db)) ed_weight)] \<and>
    filter (\<lambda>r. \<not> edge_at src dst et r) (gr_edges db') = filter (\<lambda>r. \<not> edge_at src dst et r) (gr_edges db) \<and>
    gr_containment db' = gr_containment db \<and>
    (\<exists>entry. gr_log db' = gr_log db @ [entry] \<and>
      (cl_op entry = ''insert'') = (List.find (edge_at src dst et) (gr_edges db) = None))"
proof (cases "List.find (edge_at src dst et) (gr_edges db)")
  case None
  then have "filter (edge_at src dst et) (gr_edges db) = []" by (simp add: find_None_iff2 filter_empty_conv)
  with None assms(2) show ?thesis
    by (auto simp: link_writes_def Let_def log_entry_insert new_edge_def edge_at_def split: option.splits)
next
  case (Some r)
  with assms show ?thesis
    by (auto simp: link_writes_def Let_def filter_edge_at filter_update_weight log_entry_insert split: option.splits)
qed

text \<open>
  C13. When a link is refused, and what it writes otherwise. On a store the writes can reach, an
  edge is refused exactly when it would close a cycle of its type, carries a weight that is not
  a finite number, or names an item that is not there. Otherwise there is afterwards one edge of
  that key, with the id that is returned; its weight is the one given, or else the one it had; every
  other row stays; and the log grows by one entry, an insert exactly when the edge is new, so that
  an undo never deletes an edge that was there before.
\<close>

theorem link_meaning:
  assumes "(graph_step ops)\<^sup>*\<^sup>* empty_graph db"
  shows "(case link_weighted ops now db meta src dst et weight props of
      Inl _ \<Rightarrow>
        (et \<in> {E_DependsOn, E_ParentOf} \<and> \<not> acyclic (insert (src, dst) (set (edge_pairs db et)))) \<or>
        (\<exists>w. weight = Some w \<and> \<not> w_finite ops w) \<or> \<not> has_item db src \<or> \<not> has_item db dst
    | Inr (db', i) \<Rightarrow>
        \<not> (et \<in> {E_DependsOn, E_ParentOf} \<and> \<not> acyclic (insert (src, dst) (set (edge_pairs db et)))) \<and>
        (\<nexists>w. weight = Some w \<and> \<not> w_finite ops w) \<and> has_item db src \<and> has_item db dst \<and>
        map (\<lambda>r. (ed_id r, ed_weight r)) (filter (edge_at src dst et) (gr_edges db')) =
          [(i, if weight \<noteq> None then weight
               else Option.bind (List.find (edge_at src dst et) (gr_edges db)) ed_weight)] \<and>
        filter (\<lambda>r. \<not> edge_at src dst et r) (gr_edges db') = filter (\<lambda>r. \<not> edge_at src dst et r) (gr_edges db) \<and>
        gr_containment db' = gr_containment db \<and>
        (\<exists>entry. gr_log db' = gr_log db @ [entry] \<and>
          (cl_op entry = ''insert'') = (List.find (edge_at src dst et) (gr_edges db) = None)))"
proof -
  have ok: "graph_ok db" using assms by (rule graph_steps_ok)
  have ends: "has_item db src \<and> has_item db dst" if "List.find (edge_at src dst et) (gr_edges db) = Some r" for r
    using ok find_unique [OF that] by (auto simp: graph_ok_def endpoints_def edge_at_def has_item_iff)
  have refuses: "refuses_link ops db src dst et weight \<longleftrightarrow>
      (et \<in> {E_DependsOn, E_ParentOf} \<and> \<not> acyclic (insert (src, dst) (set (edge_pairs db et)))) \<or>
      (\<exists>w. weight = Some w \<and> \<not> w_finite ops w) \<or> \<not> has_item db src \<or> \<not> has_item db dst"
    using ends closes_cycle_acyclic [OF ok] by (cases "List.find (edge_at src dst et) (gr_edges db)") (auto simp: refuses_link_def)
  show ?thesis
  proof (cases "link_weighted ops now db meta src dst et weight props")
    case (Inl e)
    then have "refuses_link ops db src dst et weight"
      using link_weighted_cases [of ops now db meta src dst et weight props "link_writes ops now db meta src dst et weight props"]
      by auto
    with Inl refuses show ?thesis by simp
  next
    case (Inr r)
    obtain db' i where r: "r = (db', i)" by (cases r)
    from Inr r have no: "\<not> refuses_link ops db src dst et weight"
      and w: "link_writes ops now db meta src dst et weight props = (db', i)" by (simp_all add: link_weighted_cases)
    from ok have d: "distinct (map edge_key (gr_edges db))" by (simp add: graph_ok_def)
    from no refuses link_writes_meaning [OF d w] show ?thesis unfolding Inr r sum.case prod.case by blast
  qed
qed

theorem link_meaning_witness:
  "case link_weighted demo_weights ''t'' demo_graph \<lparr>wm_txn_id = 2, wm_actor = ''cli''\<rparr> 2 1 E_DependsOn (Some 5) None of
     Inl _ \<Rightarrow> False
   | Inr (db', i) \<Rightarrow> map (\<lambda>r. (ed_id r, ed_weight r)) (filter (edge_at 2 1 E_DependsOn) (gr_edges db')) = [(i, Some 5)]"
proof -
  have a: "acyclic (insert (2, 1) {(2, 1 :: int)})"
    using graph_stays_acyclic [OF demo_graph_reached, of E_DependsOn] by (simp add: demo_graph_edges)
  show ?thesis
    using link_meaning [OF demo_graph_reached, where now = "''t''" and meta = "\<lparr>wm_txn_id = 2, wm_actor = ''cli''\<rparr>"
      and src = 2 and dst = 1 and et = E_DependsOn and weight = "Some 5" and props = None] a
    by (auto simp: demo_graph_edges has_item_def demo_weights_def split: sum.splits)
qed

text \<open>
  When a container is refused, and what it writes otherwise. On a store the writes can reach, a
  node is put under a parent exactly when that leaves containment without a cycle and both are there.
  Afterwards it is in that container and every other node where it was; the edges stay; and nothing is
  written when it was there already at that position, one entry otherwise, an insert exactly when
  the node was in no container.
\<close>

theorem contain_meaning:
  assumes "(graph_step ops)\<^sup>*\<^sup>* empty_graph db"
  shows "(case contain db meta child parent position of
      Inl _ \<Rightarrow>
        \<not> acyclic (insert (child, parent) (set (contain_pairs db))) \<or> \<not> has_item db child \<or> \<not> has_item db parent
    | Inr db' \<Rightarrow>
        acyclic (insert (child, parent) (set (contain_pairs db))) \<and> has_item db child \<and> has_item db parent \<and>
        (\<forall>c. contain_parent db' c = (if c = child then Some parent else contain_parent db c)) \<and>
        gr_edges db' = gr_edges db \<and>
        (if List.find (contain_key child) (gr_containment db) = Some \<lparr>ct_child = child, ct_parent = parent, ct_position = position\<rparr>
         then db' = db
         else \<exists>entry. gr_log db' = gr_log db @ [entry] \<and>
           (cl_op entry = ''insert'') = (contain_parent db child = None)))"
proof -
  let ?new = "\<lparr>ct_child = child, ct_parent = parent, ct_position = position\<rparr>"
  have ok: "graph_ok db" using assms by (rule graph_steps_ok)
  have "has_item db child \<and> has_item db parent" if "List.find (contain_key child) (gr_containment db) = Some ?new"
  proof -
    from find_unique [OF that] have "?new \<in> set (gr_containment db)" by blast
    then have "ct_child ?new \<in> endpoints db" "ct_parent ?new \<in> endpoints db" by (simp_all only: endpoints_def) blast+
    with ok show ?thesis by (simp add: graph_ok_def has_item_iff subset_eq)
  qed
  then have refuses: "refuses_contain db child parent position \<longleftrightarrow>
      \<not> acyclic (insert (child, parent) (set (contain_pairs db))) \<or> \<not> has_item db child \<or> \<not> has_item db parent"
    using ok by (auto simp: refuses_contain_def acyclic_insert graph_ok_def)
  show ?thesis
  proof (cases "contain db meta child parent position")
    case (Inl e)
    then have "refuses_contain db child parent position"
      using contain_cases [of db meta child parent position] by (auto simp: Let_def)
    with Inl refuses show ?thesis by simp
  next
    case (Inr db')
    then have no: "\<not> refuses_contain db child parent position"
      and w: "db' = db \<and> List.find (contain_key child) (gr_containment db) = Some ?new \<or>
        List.find (contain_key child) (gr_containment db) \<noteq> Some ?new \<and> gr_edges db' = gr_edges db \<and>
        gr_containment db' = put_container ?new (gr_containment db) \<and>
        (\<exists>entry. gr_log db' = gr_log db @ [entry] \<and>
           (cl_op entry = ''insert'') = (List.find (contain_key child) (gr_containment db) = None))"
      by (auto simp: contain_cases Let_def log_entry_insert split: if_splits)
    from w have "\<forall>c. contain_parent db' c = (if c = child then Some parent else contain_parent db c)"
      by (auto simp: contain_parent_def find_put_container)
    moreover have "gr_edges db' = gr_edges db" using w by auto
    moreover have p: "(contain_parent db child = None) = (List.find (contain_key child) (gr_containment db) = None)"
      by (simp add: contain_parent_def)
    moreover have "if List.find (contain_key child) (gr_containment db) = Some ?new then db' = db
        else \<exists>entry. gr_log db' = gr_log db @ [entry] \<and> (cl_op entry = ''insert'') = (contain_parent db child = None)"
      unfolding p using w by auto
    ultimately show ?thesis using no refuses unfolding Inr sum.case by blast
  qed
qed

theorem contain_meaning_witness:
  "case contain demo_graph \<lparr>wm_txn_id = 2, wm_actor = ''cli''\<rparr> 1 2 0 of
     Inl _ \<Rightarrow> False
   | Inr db' \<Rightarrow> contain_parent db' 1 = Some 2"
  using contain_meaning [OF demo_graph_reached, where meta = "\<lparr>wm_txn_id = 2, wm_actor = ''cli''\<rparr>"
    and child = 1 and parent = 2 and position = 0]
  by (auto simp: demo_graph_edges has_item_def acyclic_insert acyclic_def [of "{}"] split: sum.splits)

end
