(* ===== verification/Core_Walk.thy ===== *)
theory Core_Walk
  imports Core_Graph
begin

text \<open>
  The bounded walk over the typed graph, \<open>walk\<close>, \<open>walk_limited\<close> and \<open>neighbours\<close> of
  \<open>crates/jkb-core/src/edge.rs\<close>: breadth first, every node's edges read a page at a time, until the
  depth or the limit is reached.

  The lemmas show that the paging loses nothing (the pages of a node read one after the other are its
  edges in id order), that the loop over pages ends, and that the walk is the breadth-first search:
  each item once, at its distance.
\<close>

section \<open>Reading a node's edges\<close>

datatype edge_direction = Dir_Out | Dir_In | Dir_Both

record related =
  rel_item :: int
  rel_depth :: nat
  rel_via :: edge_type
  rel_direction :: edge_direction

definition leg_ends :: "edge_direction \<Rightarrow> 'w edge_row \<Rightarrow> int \<times> int" where
  "leg_ends leg r = (case leg of Dir_In \<Rightarrow> (ed_dst r, ed_src r) | _ \<Rightarrow> (ed_src r, ed_dst r))"

definition neighbour_rows :: "'w graph_db \<Rightarrow> int \<Rightarrow> edge_type list \<Rightarrow> edge_direction \<Rightarrow> int \<Rightarrow> 'w edge_row list" where
  "neighbour_rows db node types leg after =
     sort_key ed_id (filter (\<lambda>r. fst (leg_ends leg r) = node \<and> after < ed_id r \<and>
       (types = [] \<or> ed_type r \<in> set (map edge_type_as_str types))) (gr_edges db))"

fun read_neighbours :: "edge_direction \<Rightarrow> 'w edge_row list \<Rightarrow> (int \<times> int \<times> edge_type) list core_result" where
  "read_neighbours leg [] = Inr []"
| "read_neighbours leg (r # rs) =
     (case edge_type_from_str_opt (ed_type r) of
        None \<Rightarrow> Inl (validation (''unknown edge type `'' @ ed_type r @ ''` stored on an edge''))
      | Some et \<Rightarrow>
          result_bind (read_neighbours leg rs) (\<lambda>out. Inr ((ed_id r, snd (leg_ends leg r), et) # out)))"

definition i64_max :: nat where "i64_max = 2 ^ 63 - 1"

definition usize_max :: nat where "usize_max = 2 ^ 64 - 1"

definition neighbours ::
  "'w graph_db \<Rightarrow> int \<Rightarrow> edge_type list \<Rightarrow> edge_direction \<Rightarrow> int \<Rightarrow> nat \<Rightarrow> (int \<times> int \<times> edge_type) list core_result" where
  "neighbours db node types leg after page =
     read_neighbours leg (take (min page i64_max) (neighbour_rows db node types leg after))"

lemma read_neighbours_ids: "read_neighbours leg rs = Inr rows \<Longrightarrow> map fst rows = map ed_id rs"
  by (induction rs arbitrary: rows) (auto simp: result_bind_Inr split: option.splits)

lemma neighbours_ids:
  assumes "neighbours db node types leg after page = Inr rows" and "(i, x) \<in> set rows"
  shows "after < i \<and> i \<in> ed_id ` set (gr_edges db)"
proof -
  from assms(1) have "map fst rows = map ed_id (take (min page i64_max) (neighbour_rows db node types leg after))"
    unfolding neighbours_def by (rule read_neighbours_ids)
  then have "fst ` set rows \<subseteq> ed_id ` set (neighbour_rows db node types leg after)"
    by (metis image_mono list.set_map set_take_subset)
  moreover from assms(2) have "i \<in> fst ` set rows" by force
  ultimately show ?thesis by (auto simp: neighbour_rows_def)
qed

section \<open>The walk\<close>

type_synonym walk_state = "int list \<times> related list \<times> int list"

text \<open>One page: the items seen, those reached, and the next frontier; and whether the walk is full.\<close>

fun visit :: "nat \<Rightarrow> nat \<Rightarrow> edge_direction \<Rightarrow> (int \<times> int \<times> edge_type) list \<Rightarrow> walk_state \<Rightarrow> walk_state \<times> bool" where
  "visit limit hop leg [] st = (st, False)"
| "visit limit hop leg ((_, n, et) # rows) (seen, out, next) =
     (if n \<in> set seen then visit limit hop leg rows (seen, out, next)
      else if length out = limit then ((n # seen, out, next), True)
      else visit limit hop leg rows
             (n # seen, out @ [\<lparr>rel_item = n, rel_depth = hop, rel_via = et, rel_direction = leg\<rparr>], next @ [n]))"

definition page_size :: "nat \<Rightarrow> nat" where "page_size limit = min (limit + 2) usize_max"

function read_pages ::
  "'w graph_db \<Rightarrow> edge_type list \<Rightarrow> nat \<Rightarrow> nat \<Rightarrow> int \<Rightarrow> edge_direction \<Rightarrow> int \<Rightarrow> walk_state \<Rightarrow> (walk_state \<times> bool) core_result" where
  "read_pages db types limit hop node leg after st =
     (case neighbours db node types leg after (page_size limit) of
        Inl e \<Rightarrow> Inl e
      | Inr rows \<Rightarrow>
          if rows = [] then Inr (st, False)
          else case visit limit hop leg rows st of
            (st', stop) \<Rightarrow>
              if stop then Inr (st', True)
              else if length rows = page_size limit then read_pages db types limit hop node leg (fst (last rows)) st'
              else Inr (st', False))"
  by pat_completeness auto
termination read_pages
proof (relation "measure (\<lambda>(db, types, limit, hop, node, leg, after, st). length (filter (\<lambda>r. after < ed_id r) (gr_edges db)))")
  fix db :: "'w graph_db" and types limit hop node leg after st rows p st' b
  assume n: "neighbours db node types leg after (page_size limit) = Inr rows" and "rows \<noteq> []"
  then have "last rows \<in> set rows" by simp
  then have i: "after < fst (last rows)" "fst (last rows) \<in> ed_id ` set (gr_edges db)"
    using neighbours_ids [OF n, of "fst (last rows)" "snd (last rows)"] by simp_all
  let ?b = "fst (last rows)"
  have "filter (\<lambda>r. ?b < ed_id r) (gr_edges db) = filter (\<lambda>r. ?b < ed_id r) (filter (\<lambda>r. after < ed_id r) (gr_edges db))"
    using i(1) by (auto intro: filter_cong)
  moreover from i obtain r where "r \<in> set (filter (\<lambda>r. after < ed_id r) (gr_edges db))" "\<not> ?b < ed_id r" by auto
  ultimately have "length (filter (\<lambda>r. ?b < ed_id r) (gr_edges db)) < length (filter (\<lambda>r. after < ed_id r) (gr_edges db))"
    using length_filter_less by metis
  then show "((db, types, limit, hop, node, leg, ?b, st'), db, types, limit, hop, node, leg, after, st) \<in>
      measure (\<lambda>(db, types, limit, hop, node, leg, after, st). length (filter (\<lambda>r. after < ed_id r) (gr_edges db)))"
    by simp
qed simp

declare read_pages.simps [simp del]

fun read_legs ::
  "'w graph_db \<Rightarrow> edge_type list \<Rightarrow> nat \<Rightarrow> nat \<Rightarrow> int \<Rightarrow> edge_direction list \<Rightarrow> walk_state \<Rightarrow> (walk_state \<times> bool) core_result" where
  "read_legs db types limit hop node [] st = Inr (st, False)"
| "read_legs db types limit hop node (leg # legs) st =
     (case read_pages db types limit hop node leg 0 st of
        Inl e \<Rightarrow> Inl e
      | Inr (st', stop) \<Rightarrow> if stop then Inr (st', True) else read_legs db types limit hop node legs st')"

fun read_frontier ::
  "'w graph_db \<Rightarrow> edge_type list \<Rightarrow> nat \<Rightarrow> nat \<Rightarrow> edge_direction list \<Rightarrow> int list \<Rightarrow> walk_state \<Rightarrow> (walk_state \<times> bool) core_result" where
  "read_frontier db types limit hop legs [] st = Inr (st, False)"
| "read_frontier db types limit hop legs (node # nodes) st =
     (case read_legs db types limit hop node legs st of
        Inl e \<Rightarrow> Inl e
      | Inr (st', stop) \<Rightarrow> if stop then Inr (st', True) else read_frontier db types limit hop legs nodes st')"

fun walk_hops ::
  "'w graph_db \<Rightarrow> edge_type list \<Rightarrow> nat \<Rightarrow> edge_direction list \<Rightarrow> nat \<Rightarrow> nat \<Rightarrow> int list \<Rightarrow> int list \<Rightarrow> related list
     \<Rightarrow> (related list \<times> bool) core_result" where
  "walk_hops db types limit legs 0 hop frontier seen out = Inr (out, False)"
| "walk_hops db types limit legs (Suc hops) hop frontier seen out =
     (case read_frontier db types limit hop legs frontier (seen, out, []) of
        Inl e \<Rightarrow> Inl e
      | Inr ((seen', out', next), stop) \<Rightarrow>
          if stop then Inr (out', True)
          else if next = [] then Inr (out', False)
          else walk_hops db types limit legs hops (hop + 1) next seen' out')"

definition legs_of :: "edge_direction \<Rightarrow> edge_direction list" where
  "legs_of dir = (case dir of Dir_Out \<Rightarrow> [Dir_Out] | Dir_In \<Rightarrow> [Dir_In] | Dir_Both \<Rightarrow> [Dir_Out, Dir_In])"

definition walk_limited ::
  "'w graph_db \<Rightarrow> int \<Rightarrow> edge_type list \<Rightarrow> nat \<Rightarrow> edge_direction \<Rightarrow> nat \<Rightarrow> (related list \<times> bool) core_result" where
  "walk_limited db start types depth dir limit =
     walk_hops db types limit (legs_of dir) depth 1 [start] [start] []"

definition walk :: "'w graph_db \<Rightarrow> int \<Rightarrow> edge_type list \<Rightarrow> nat \<Rightarrow> edge_direction \<Rightarrow> related list core_result" where
  "walk db start types depth dir = result_bind (walk_limited db start types depth dir usize_max) (\<lambda>(out, _). Inr out)"

section \<open>The pages of a node are its edges\<close>

definition walkable :: "'w graph_db \<Rightarrow> bool" where
  "walkable db \<longleftrightarrow> distinct (map ed_id (gr_edges db)) \<and>
     (\<forall>r \<in> set (gr_edges db). 0 < ed_id r \<and> edge_type_from_str_opt (ed_type r) \<noteq> None)"

definition row_of :: "edge_direction \<Rightarrow> 'w edge_row \<Rightarrow> int \<times> int \<times> edge_type" where
  "row_of leg r = (ed_id r, snd (leg_ends leg r), the (edge_type_from_str_opt (ed_type r)))"

lemma fst_row_of [simp]: "fst (row_of leg r) = ed_id r"
  by (simp add: row_of_def)

lemma read_neighbours_ok:
  "\<forall>r \<in> set rs. edge_type_from_str_opt (ed_type r) \<noteq> None \<Longrightarrow> read_neighbours leg rs = Inr (map (row_of leg) rs)"
  by (induction rs) (auto simp: row_of_def)

lemma neighbour_rows_subset: "set (neighbour_rows db node types leg after) \<subseteq> set (gr_edges db)"
  by (auto simp: neighbour_rows_def)

lemma neighbours_ok:
  assumes "walkable db"
  shows "neighbours db node types leg after page =
    Inr (map (row_of leg) (take (min page i64_max) (neighbour_rows db node types leg after)))"
  unfolding neighbours_def
  by (rule read_neighbours_ok) (use assms neighbour_rows_subset in_set_takeD in \<open>force simp: walkable_def\<close>)

text \<open>In id order, what follows a page is what has an id above its last.\<close>

lemma sorted_drop_filter:
  fixes f :: "'a \<Rightarrow> int"
  assumes "sorted_wrt (\<lambda>x y. f x < f y) (xs @ ys)" and "xs \<noteq> []"
  shows "filter (\<lambda>x. f (last xs) < f x) (xs @ ys) = ys"
proof -
  from assms have "last xs \<in> set xs" by simp
  with assms(1) have "\<forall>y \<in> set ys. f (last xs) < f y" by (auto simp: sorted_wrt_append)
  moreover have "f x \<le> f (last xs)" if "x \<in> set xs" for x
  proof -
    have "sorted_wrt (\<lambda>x y. f x < f y) (butlast xs @ [last xs])" using assms by (simp add: sorted_wrt_append)
    moreover have "x \<in> set (butlast xs) \<or> x = last xs" using that assms(2) by (metis append_butlast_last_id in_set_conv_decomp rotate1.simps(2) set_ConsD set_rotate1)
    ultimately show ?thesis by (auto simp: sorted_wrt_append)
  qed
  ultimately show ?thesis by (force simp: filter_empty_conv filter_id_conv)
qed

lemma sorted_by_id:
  assumes "distinct (map ed_id rs)"
  shows "sorted_wrt (\<lambda>x y. ed_id x < ed_id y) (sort_key ed_id rs)"
proof -
  have "distinct (map ed_id (sort_key ed_id rs))" using assms by (metis distinct_map distinct_sort set_sort)
  then have "sorted_wrt (<) (map ed_id (sort_key ed_id rs))" by (simp add: strict_sorted_iff)
  then show ?thesis by (simp add: sorted_wrt_map)
qed

lemma neighbour_rows_sorted:
  assumes "walkable db"
  shows "sorted_wrt (\<lambda>x y. ed_id x < ed_id y) (neighbour_rows db node types leg after)"
  unfolding neighbour_rows_def using assms by (intro sorted_by_id) (simp add: walkable_def distinct_map_filter)

lemma neighbour_rows_after:
  "after \<le> b \<Longrightarrow> neighbour_rows db node types leg b = filter (\<lambda>r. b < ed_id r) (neighbour_rows db node types leg after)"
  unfolding neighbour_rows_def filter_sort by (rule arg_cong [where f = "sort_key ed_id"]) (auto intro: filter_cong)

lemma next_page:
  assumes "walkable db" and "take k (neighbour_rows db node types leg after) \<noteq> []"
  shows "neighbour_rows db node types leg (ed_id (last (take k (neighbour_rows db node types leg after)))) =
    drop k (neighbour_rows db node types leg after)"
proof -
  let ?R = "neighbour_rows db node types leg after"
  from assms(2) have "last (take k ?R) \<in> set ?R" by (meson in_set_takeD last_in_set)
  then have "after \<le> ed_id (last (take k ?R))" by (auto simp: neighbour_rows_def)
  moreover have "filter (\<lambda>r. ed_id (last (take k ?R)) < ed_id r) (take k ?R @ drop k ?R) = drop k ?R"
    using assms neighbour_rows_sorted [OF assms(1)] by (intro sorted_drop_filter) simp_all
  ultimately show ?thesis by (simp add: neighbour_rows_after)
qed

lemma visit_append:
  "visit limit hop leg (xs @ ys) st =
     (let (st', stop) = visit limit hop leg xs st in if stop then (st', True) else visit limit hop leg ys st')"
  by (induction limit hop leg xs st rule: visit.induct) (auto simp: Let_def)

lemma read_pages_eq:
  assumes w: "walkable db" and few: "length (gr_edges db) < i64_max"
  shows "read_pages db types limit hop node leg after st =
    Inr (visit limit hop leg (map (row_of leg) (neighbour_rows db node types leg after)) st)"
  using assms
proof (induction db types limit hop node leg after st rule: read_pages.induct)
  case (1 db types limit hop node leg after st)
  let ?R = "neighbour_rows db node types leg after" and ?k = "min (page_size limit) i64_max"
  note n = neighbours_ok [OF 1(2), of node types leg after "page_size limit"]
  have len: "length ?R < i64_max"
    using 1(3) by (simp add: neighbour_rows_def) (meson le_less_trans length_filter_le)
  have pos: "?k > 0" by (simp add: page_size_def usize_max_def i64_max_def)
  obtain st' stop where v: "visit limit hop leg (map (row_of leg) (take ?k ?R)) st = (st', stop)" by fastforce
  have whole: "visit limit hop leg (map (row_of leg) ?R) st =
      (if stop then (st', True) else visit limit hop leg (map (row_of leg) (drop ?k ?R)) st')"
    using v visit_append [of limit hop leg "map (row_of leg) (take ?k ?R)" "map (row_of leg) (drop ?k ?R)" st]
    by (simp flip: map_append)
  show ?case
  proof (cases "take ?k ?R = []")
    case True
    with pos have "?R = []" by (metis less_irrefl take_eq_Nil)
    then show ?thesis by (subst read_pages.simps) (simp add: n)
  next
    case ne: False
    show ?thesis
    proof (cases stop)
      case True
      with ne v whole show ?thesis by (subst read_pages.simps) (simp add: n)
    next
      case go: False
      show ?thesis
      proof (cases "length (take ?k ?R) = page_size limit")
        case full: True
        have np: "neighbour_rows db node types leg (ed_id (last (take (page_size limit) ?R))) = drop (page_size limit) ?R"
          using next_page [OF 1(2) ne] full by (simp add: min_def split: if_splits)
        have "read_pages db types limit hop node leg (ed_id (last (take ?k ?R))) st' =
            Inr (visit limit hop leg (map (row_of leg) (neighbour_rows db node types leg (ed_id (last (take ?k ?R))))) st')"
          using 1(1) [OF n] ne v go full 1(2,3) by (simp add: last_map)
        with ne v whole go full show ?thesis
          by (subst read_pages.simps) (simp add: n last_map np)
      next
        case False
        with len have "drop ?k ?R = []" by (auto simp: min_def split: if_splits)
        with ne v whole go False show ?thesis by (subst read_pages.simps) (simp add: n)
      qed
    qed
  qed
qed

section \<open>What a part of the walk reaches\<close>

text \<open>
  \<open>N\<close> holds the items on offer, each with the type and the direction it is offered by. A part
  of the walk appends those not seen yet, each once; it stops early only when the list is full and
  one more is on offer.
\<close>

definition on_offer :: "(int \<times> edge_type \<times> edge_direction) set \<Rightarrow> int set" where "on_offer N = fst ` N"

definition reads ::
  "nat \<Rightarrow> nat \<Rightarrow> (int \<times> edge_type \<times> edge_direction) set \<Rightarrow> walk_state \<Rightarrow> walk_state \<Rightarrow> bool \<Rightarrow> bool" where
  "reads limit hop N st st' stop \<longleftrightarrow>
     (case (st, st') of ((seen, out, next), (seen', out', next')) \<Rightarrow>
       \<exists>new. out' = out @ new \<and> next' = next @ map rel_item new \<and> distinct (map rel_item new) \<and>
         rel_item ` set new \<inter> set seen = {} \<and>
         (\<forall>r \<in> set new. rel_depth r = hop \<and> (rel_item r, rel_via r, rel_direction r) \<in> N) \<and>
         (length out \<le> limit \<longrightarrow> length out' \<le> limit) \<and>
         (if stop then length out' = limit \<and> \<not> on_offer N \<subseteq> set seen \<union> rel_item ` set new
          else set seen' = set seen \<union> on_offer N \<and> set seen' = set seen \<union> rel_item ` set new))"

lemma on_offer_simps [simp]:
  "on_offer {} = {}" "on_offer (insert (n, x) N) = insert n (on_offer N)" "on_offer (M \<union> N) = on_offer M \<union> on_offer N"
  by (auto simp: on_offer_def)

lemma on_offer_mono: "M \<subseteq> N \<Longrightarrow> on_offer M \<subseteq> on_offer N"
  by (auto simp: on_offer_def)

lemma reads_nothing [simp]: "reads limit hop {} st st False"
  by (cases st) (simp add: reads_def)

lemma reads_mono:
  assumes "reads limit hop M st st' True" and "M \<subseteq> N" shows "reads limit hop N st st' True"
proof -
  obtain seen out nx where st: "st = (seen, out, nx)" by (cases st)
  obtain seen' out' nx' where st': "st' = (seen', out', nx')" by (cases st')
  from assms(1) obtain new where "out' = out @ new" "nx' = nx @ map rel_item new" "distinct (map rel_item new)"
    "rel_item ` set new \<inter> set seen = {}" "\<forall>r \<in> set new. rel_depth r = hop \<and> (rel_item r, rel_via r, rel_direction r) \<in> M"
    "length out \<le> limit \<longrightarrow> length out' \<le> limit" "length out' = limit" "\<not> on_offer M \<subseteq> set seen \<union> rel_item ` set new"
    unfolding reads_def st st' prod.case if_True by blast
  moreover from this assms(2) have "\<forall>r \<in> set new. rel_depth r = hop \<and> (rel_item r, rel_via r, rel_direction r) \<in> N" by blast
  moreover from calculation(8) have "\<not> on_offer N \<subseteq> set seen \<union> rel_item ` set new" using on_offer_mono [OF assms(2)] by blast
  ultimately show ?thesis unfolding reads_def st st' prod.case if_True by blast
qed

lemma reads_trans:
  assumes "reads limit hop M st st1 False" and "reads limit hop N st1 st2 stop"
  shows "reads limit hop (M \<union> N) st st2 stop"
proof -
  obtain seen out nx where st: "st = (seen, out, nx)" by (cases st)
  obtain seen1 out1 nx1 where st1: "st1 = (seen1, out1, nx1)" by (cases st1)
  obtain seen2 out2 nx2 where st2: "st2 = (seen2, out2, nx2)" by (cases st2)
  from assms(1) obtain new where new: "out1 = out @ new" "nx1 = nx @ map rel_item new" "distinct (map rel_item new)"
    "rel_item ` set new \<inter> set seen = {}" "\<forall>r \<in> set new. rel_depth r = hop \<and> (rel_item r, rel_via r, rel_direction r) \<in> M"
    "length out \<le> limit \<longrightarrow> length out1 \<le> limit" "set seen1 = set seen \<union> on_offer M" "set seen1 = set seen \<union> rel_item ` set new"
    unfolding reads_def st st1 prod.case if_False by blast
  from assms(2) obtain new2 where new2: "out2 = out1 @ new2" "nx2 = nx1 @ map rel_item new2" "distinct (map rel_item new2)"
    "rel_item ` set new2 \<inter> set seen1 = {}" "\<forall>r \<in> set new2. rel_depth r = hop \<and> (rel_item r, rel_via r, rel_direction r) \<in> N"
    "length out1 \<le> limit \<longrightarrow> length out2 \<le> limit"
    "if stop then length out2 = limit \<and> \<not> on_offer N \<subseteq> set seen1 \<union> rel_item ` set new2
     else set seen2 = set seen1 \<union> on_offer N \<and> set seen2 = set seen1 \<union> rel_item ` set new2"
    unfolding reads_def st1 st2 prod.case by blast
  have "out2 = out @ (new @ new2)" "nx2 = nx @ map rel_item (new @ new2)" using new new2 by simp_all
  moreover have "distinct (map rel_item (new @ new2))" using new(3,8) new2(3,4) by auto
  moreover have "rel_item ` set (new @ new2) \<inter> set seen = {}" using new(4,8) new2(4) by auto
  moreover have "\<forall>r \<in> set (new @ new2). rel_depth r = hop \<and> (rel_item r, rel_via r, rel_direction r) \<in> M \<union> N"
    using new(5) new2(5) by auto
  moreover have "if stop then length out2 = limit \<and> \<not> on_offer (M \<union> N) \<subseteq> set seen \<union> rel_item ` set (new @ new2)
     else set seen2 = set seen \<union> on_offer (M \<union> N) \<and> set seen2 = set seen \<union> rel_item ` set (new @ new2)"
    using new(7,8) new2(7) by (cases stop) (simp_all only: if_True if_False on_offer_simps set_append image_Un, blast+)
  ultimately show ?thesis using new(6) new2(6) unfolding reads_def st st2 prod.case by blast
qed

definition offers :: "edge_direction \<Rightarrow> (int \<times> int \<times> edge_type) list \<Rightarrow> (int \<times> edge_type \<times> edge_direction) set" where
  "offers leg rows = (\<lambda>(_, n, et). (n, et, leg)) ` set rows"

lemma visit_reads:
  assumes "visit limit hop leg rows st = (st', stop)" shows "reads limit hop (offers leg rows) st st' stop"
  using assms
proof (induction limit hop leg rows st rule: visit.induct)
  case (1 limit hop leg st)
  then show ?case by (simp add: offers_def)
next
  case (2 limit hop leg i n et rows seen out nx)
  let ?new = "\<lparr>rel_item = n, rel_depth = hop, rel_via = et, rel_direction = leg\<rparr>"
  have u: "offers leg ((i, n, et) # rows) = {(n, et, leg)} \<union> offers leg rows" by (simp add: offers_def)
  show ?case
  proof (cases "n \<in> set seen")
    case True
    then have "reads limit hop {(n, et, leg)} (seen, out, nx) (seen, out, nx) False"
      by (auto simp: reads_def insert_absorb)
    then show ?thesis unfolding u by (rule reads_trans) (use 2 True in simp)
  next
    case new: False
    show ?thesis
    proof (cases "length out = limit")
      case True
      with 2(3) new have "st' = (n # seen, out, nx)" "stop" by auto
      with True new show ?thesis by (auto simp: u reads_def intro!: exI [of _ "[]"])
    next
      case False
      with new have "reads limit hop {(n, et, leg)} (seen, out, nx) (n # seen, out @ [?new], nx @ [n]) False"
        by (auto simp: reads_def intro!: exI [of _ "[?new]"])
      then show ?thesis unfolding u by (rule reads_trans) (use 2 new False in simp)
    qed
  qed
qed

section \<open>A hop reads the edges of its frontier\<close>

definition followed :: "edge_type list \<Rightarrow> 'w edge_row \<Rightarrow> bool" where
  "followed types r \<longleftrightarrow> types = [] \<or> ed_type r \<in> set (map edge_type_as_str types)"

definition offers_of ::
  "'w graph_db \<Rightarrow> edge_type list \<Rightarrow> edge_direction list \<Rightarrow> int set \<Rightarrow> (int \<times> edge_type \<times> edge_direction) set" where
  "offers_of db types legs X =
     {(n, et, leg). leg \<in> set legs \<and> (\<exists>r \<in> set (gr_edges db). followed types r \<and>
        fst (leg_ends leg r) \<in> X \<and> snd (leg_ends leg r) = n \<and> edge_type_from_str_opt (ed_type r) = Some et)}"

lemma offers_of_page:
  assumes "walkable db"
  shows "offers leg (map (row_of leg) (neighbour_rows db node types leg 0)) = offers_of db types [leg] {node}"
proof -
  have "set (neighbour_rows db node types leg 0) = {r \<in> set (gr_edges db). followed types r \<and> fst (leg_ends leg r) = node}"
    using assms by (auto simp: neighbour_rows_def followed_def walkable_def)
  with assms show ?thesis by (force simp: offers_def offers_of_def row_of_def walkable_def image_iff)
qed

lemma offers_of_Un:
  "offers_of db types (leg # legs) X = offers_of db types [leg] X \<union> offers_of db types legs X"
  "offers_of db types legs (insert x X) = offers_of db types legs {x} \<union> offers_of db types legs X"
  "offers_of db types [] X = {}" "offers_of db types legs {} = {}"
  by (auto simp: offers_of_def)

definition good_store :: "'w graph_db \<Rightarrow> bool" where
  "good_store db \<longleftrightarrow> walkable db \<and> length (gr_edges db) < i64_max"

lemma read_pages_reads:
  assumes "good_store db"
  shows "\<exists>st' stop. read_pages db types limit hop node leg 0 st = Inr (st', stop) \<and>
    reads limit hop (offers_of db types [leg] {node}) st st' stop"
proof -
  obtain st' stop where v: "visit limit hop leg (map (row_of leg) (neighbour_rows db node types leg 0)) st = (st', stop)"
    by fastforce
  from visit_reads [OF v] assms have "reads limit hop (offers_of db types [leg] {node}) st st' stop"
    by (simp add: offers_of_page good_store_def)
  with v assms show ?thesis by (simp add: read_pages_eq good_store_def)
qed

lemma reads_parts:
  assumes "reads limit hop M st st1 stop1" and "\<not> stop1 \<Longrightarrow> \<exists>st2 stop. f st1 = Inr (st2, stop) \<and> reads limit hop N st1 st2 stop"
  shows "\<exists>st2 stop. (if stop1 then Inr (st1, True) else f st1) = Inr (st2, stop) \<and> reads limit hop (M \<union> N) st st2 stop"
proof (cases stop1)
  case True
  with assms(1) have "reads limit hop M st st1 True" by simp
  then have "reads limit hop (M \<union> N) st st1 True" by (rule reads_mono) simp
  with True show ?thesis by auto
next
  case False
  with assms obtain st2 stop where "f st1 = Inr (st2, stop)" "reads limit hop N st1 st2 stop" by blast
  with False assms(1) show ?thesis by (auto intro: reads_trans)
qed

lemma read_legs_reads:
  assumes "good_store db"
  shows "\<exists>st' stop. read_legs db types limit hop node legs st = Inr (st', stop) \<and>
    reads limit hop (offers_of db types legs {node}) st st' stop"
proof (induction legs arbitrary: st)
  case (Cons leg legs)
  obtain st1 stop1 where p: "read_pages db types limit hop node leg 0 st = Inr (st1, stop1)"
    and r: "reads limit hop (offers_of db types [leg] {node}) st st1 stop1"
    using read_pages_reads [OF assms] by blast
  from reads_parts [OF r, where f = "read_legs db types limit hop node legs", OF Cons.IH] show ?case
    by (simp add: p offers_of_Un(1) [of db types leg legs])
qed (auto simp: offers_of_Un(3,4) intro!: exI [of _ False])

lemma read_frontier_reads:
  assumes "good_store db"
  shows "\<exists>st' stop. read_frontier db types limit hop legs nodes st = Inr (st', stop) \<and>
    reads limit hop (offers_of db types legs (set nodes)) st st' stop"
proof (induction nodes arbitrary: st)
  case (Cons node nodes)
  obtain st1 stop1 where p: "read_legs db types limit hop node legs st = Inr (st1, stop1)"
    and r: "reads limit hop (offers_of db types legs {node}) st st1 stop1"
    using read_legs_reads [OF assms] by blast
  from reads_parts [OF r, where f = "read_frontier db types limit hop legs nodes", OF Cons.IH] show ?case
    by (simp add: p offers_of_Un(2) [of db types legs node "set nodes"])
qed (auto simp: offers_of_Un(3,4) intro!: exI [of _ False])

section \<open>The walk is the breadth-first search\<close>

definition walk_rel :: "'w graph_db \<Rightarrow> edge_type list \<Rightarrow> edge_direction \<Rightarrow> (int \<times> int) set" where
  "walk_rel db types dir =
     {(x, y). \<exists>r \<in> set (gr_edges db). \<exists>leg \<in> set (legs_of dir). followed types r \<and> leg_ends leg r = (x, y)}"

primrec within :: "(int \<times> int) set \<Rightarrow> int \<Rightarrow> nat \<Rightarrow> int set" where
  "within R start 0 = {start}"
| "within R start (Suc n) = within R start n \<union> R `` within R start n"

lemma within_relpow: "y \<in> within R start n \<longleftrightarrow> (\<exists>k \<le> n. (start, y) \<in> R ^^ k)"
proof (induction n arbitrary: y)
  case (Suc n)
  show ?case
  proof
    assume "y \<in> within R start (Suc n)"
    then show "\<exists>k \<le> Suc n. (start, y) \<in> R ^^ k"
    proof (simp, elim disjE)
      assume "y \<in> within R start n"
      with Suc show ?thesis by (meson le_SucI)
    next
      assume "y \<in> R `` within R start n"
      with Suc obtain x k where "k \<le> n" "(start, x) \<in> R ^^ k" "(x, y) \<in> R" by blast
      then show ?thesis by (intro exI [of _ "Suc k"]) auto
    qed
  next
    assume "\<exists>k \<le> Suc n. (start, y) \<in> R ^^ k"
    then obtain k where k: "k \<le> Suc n" "(start, y) \<in> R ^^ k" by blast
    show "y \<in> within R start (Suc n)"
    proof (cases "k \<le> n")
      case True
      with k Suc show ?thesis by auto
    next
      case False
      with k have "(start, y) \<in> R ^^ Suc n" by (simp add: le_Suc_eq)
      then obtain x where "(start, x) \<in> R ^^ n" "(x, y) \<in> R" by auto
      with Suc show ?thesis by auto
    qed
  qed
qed auto

lemma within_mono: "m \<le> n \<Longrightarrow> within R start m \<subseteq> within R start n"
  using within_relpow by (meson le_trans subsetI)

lemma within_stable: "R `` within R start n \<subseteq> within R start n \<Longrightarrow> n \<le> m \<Longrightarrow> within R start m = within R start n"
  by (induction m) (auto simp: le_Suc_eq)

lemma on_offer_of:
  assumes "walkable db"
  shows "on_offer (offers_of db types (legs_of dir) X) = walk_rel db types dir `` X"
proof -
  have "\<exists>et. edge_type_from_str_opt (ed_type r) = Some et" if "r \<in> set (gr_edges db)" for r
    using assms that by (auto simp: walkable_def)
  moreover have "n \<in> on_offer (offers_of db types (legs_of dir) X) \<longleftrightarrow>
      (\<exists>leg \<in> set (legs_of dir). \<exists>r \<in> set (gr_edges db). followed types r \<and> fst (leg_ends leg r) \<in> X \<and>
        snd (leg_ends leg r) = n \<and> (\<exists>et. edge_type_from_str_opt (ed_type r) = Some et))" for n
    by (force simp: on_offer_def offers_of_def image_iff)
  moreover have "n \<in> walk_rel db types dir `` X \<longleftrightarrow>
      (\<exists>leg \<in> set (legs_of dir). \<exists>r \<in> set (gr_edges db). followed types r \<and> fst (leg_ends leg r) \<in> X \<and>
        snd (leg_ends leg r) = n)" for n
    by (force simp: walk_rel_def)
  ultimately show ?thesis by blast
qed

definition found_ok ::
  "'w graph_db \<Rightarrow> edge_type list \<Rightarrow> edge_direction \<Rightarrow> int \<Rightarrow> nat \<Rightarrow> related list \<Rightarrow> bool" where
  "found_ok db types dir start h out \<longleftrightarrow>
     distinct (map rel_item out) \<and>
     (\<forall>r \<in> set out. 1 \<le> rel_depth r \<and> rel_depth r \<le> h \<and>
        rel_item r \<in> within (walk_rel db types dir) start (rel_depth r) \<and>
        rel_item r \<notin> within (walk_rel db types dir) start (rel_depth r - 1) \<and>
        (rel_item r, rel_via r, rel_direction r) \<in>
          offers_of db types (legs_of dir) (within (walk_rel db types dir) start (rel_depth r - 1)))"

lemma found_ok_later: "found_ok db types dir start h out \<Longrightarrow> h \<le> k \<Longrightarrow> found_ok db types dir start k out"
  by (auto simp: found_ok_def)

lemma offers_of_mono: "X \<subseteq> Y \<Longrightarrow> offers_of db types legs X \<subseteq> offers_of db types legs Y"
  by (auto simp: offers_of_def)

lemma found_ok_hop:
  assumes f: "found_ok db types dir start h out" and "distinct (map rel_item new)"
    and "rel_item ` set out \<subseteq> within (walk_rel db types dir) start h"
    and "rel_item ` set new \<inter> within (walk_rel db types dir) start h = {}"
    and new: "\<forall>r \<in> set new. rel_depth r = Suc h \<and> (rel_item r, rel_via r, rel_direction r) \<in> N"
    and N: "N \<subseteq> offers_of db types (legs_of dir) (within (walk_rel db types dir) start h)"
    and "on_offer N \<subseteq> within (walk_rel db types dir) start (Suc h)"
  shows "found_ok db types dir start (Suc h) (out @ new)"
proof -
  let ?W = "within (walk_rel db types dir) start"
  have item: "rel_item r \<in> on_offer N" if "r \<in> set new" for r
    using new that by (force simp: on_offer_def)
  have "1 \<le> rel_depth r \<and> rel_depth r \<le> Suc h \<and> rel_item r \<in> ?W (rel_depth r) \<and> rel_item r \<notin> ?W (rel_depth r - 1) \<and>
      (rel_item r, rel_via r, rel_direction r) \<in> offers_of db types (legs_of dir) (?W (rel_depth r - 1))"
    if r: "r \<in> set (out @ new)" for r
  proof (cases "r \<in> set new")
    case True
    with new have d: "rel_depth r = Suc h" by simp
    moreover have "rel_item r \<in> ?W (Suc h)" using item [OF True] assms(7) by blast
    moreover have "rel_item r \<notin> ?W h" using True assms(4) by auto
    moreover have "(rel_item r, rel_via r, rel_direction r) \<in> offers_of db types (legs_of dir) (?W h)"
      using new N True by blast
    ultimately show ?thesis unfolding d diff_Suc_1 by simp
  next
    case False
    with r found_ok_later [OF f, of "Suc h"] show ?thesis unfolding found_ok_def by simp
  qed
  moreover have "distinct (map rel_item (out @ new))"
    using f assms(2,3,4) by (auto simp: found_ok_def)
  ultimately show ?thesis unfolding found_ok_def by blast
qed

lemma walk_hops_found:
  assumes store: "good_store db"
    and "set seen = within R start h" and "rel_item ` set out = within R start h - {start}"
    and "found_ok db types dir start h out" and "set frontier \<subseteq> within R start h"
    and "R `` within R start h \<subseteq> within R start h \<union> R `` set frontier" and "length out \<le> limit"
    and R: "R = walk_rel db types dir"
  shows "\<exists>out' cut. walk_hops db types limit (legs_of dir) hops (Suc h) frontier seen out = Inr (out', cut) \<and>
    found_ok db types dir start (h + hops) out' \<and> length out' \<le> limit \<and>
    (if cut then length out' = limit \<and> \<not> within R start (h + hops) - {start} \<subseteq> rel_item ` set out'
     else rel_item ` set out' = within R start (h + hops) - {start})"
  using assms(2-7)
proof (induction hops arbitrary: h frontier seen out)
  case 0
  then show ?case by auto
next
  case (Suc hops)
  note seen = Suc.prems(1) and items = Suc.prems(2) and found = Suc.prems(3) and front = Suc.prems(4)
    and closed = Suc.prems(5) and len = Suc.prems(6)
  let ?N = "offers_of db types (legs_of dir) (set frontier)"
  obtain seen' out' nx stop where step:
    "read_frontier db types limit (Suc h) (legs_of dir) frontier (seen, out, []) = Inr ((seen', out', nx), stop)"
    and r: "reads limit (Suc h) ?N (seen, out, []) (seen', out', nx) stop"
    using read_frontier_reads [OF store, of types limit "Suc h" "legs_of dir" frontier "(seen, out, [])"] by auto
  have N: "on_offer ?N = R `` set frontier" using store by (simp add: on_offer_of good_store_def R)
  have start: "start \<in> within R start h" using within_relpow by fastforce
  from r obtain new where new: "out' = out @ new" "nx = map rel_item new" "distinct (map rel_item new)"
    "rel_item ` set new \<inter> set seen = {}"
    "\<forall>r \<in> set new. rel_depth r = Suc h \<and> (rel_item r, rel_via r, rel_direction r) \<in> ?N"
    "length out \<le> limit \<longrightarrow> length out' \<le> limit"
    "if stop then length out' = limit \<and> \<not> on_offer ?N \<subseteq> set seen \<union> rel_item ` set new
     else set seen' = set seen \<union> on_offer ?N \<and> set seen' = set seen \<union> rel_item ` set new"
    unfolding reads_def prod.case append_Nil by blast
  have one: "within R start h \<union> R `` set frontier = within R start (Suc h)" using front closed by auto
  have found': "found_ok db types dir start (Suc h) out'"
    unfolding new(1)
  proof (rule found_ok_hop [OF found new(3) _ _ new(5)])
    show "?N \<subseteq> offers_of db types (legs_of dir) (within (walk_rel db types dir) start h)"
      using front R offers_of_mono by blast
    show "on_offer ?N \<subseteq> within (walk_rel db types dir) start (Suc h)" using one N R by auto
  qed (use items seen new(4) R in auto)
  show ?case
  proof (cases stop)
    case True
    with new(7) obtain n where "n \<in> R `` set frontier" "n \<notin> set seen \<union> rel_item ` set new" unfolding N by auto
    then have "n \<in> within R start (Suc h)" "n \<noteq> start" "n \<notin> rel_item ` set out'"
      using one start seen items by (auto simp: new(1))
    moreover have "within R start (Suc h) \<subseteq> within R start (h + Suc hops)" by (rule within_mono) simp
    ultimately have "\<not> within R start (h + Suc hops) - {start} \<subseteq> rel_item ` set out'" by blast
    with True new(7) found_ok_later [OF found', of "h + Suc hops"] show ?thesis by (auto simp: step)
  next
    case False
    with new(7) have seen': "set seen' = within R start (Suc h)" "set seen' = set seen \<union> rel_item ` set new"
      using one N seen by auto
    show ?thesis
    proof (cases "nx = []")
      case True
      with new(2) have n: "new = []" by simp
      with seen' seen have "within R start (Suc h) = within R start h" by simp
      then have "within R start (h + Suc hops) = within R start h" by (intro within_stable) auto
      with True False n new(1) items len found_ok_later [OF found, of "h + Suc hops"] show ?thesis by (auto simp: step)
    next
      case ne: False
      have "R `` within R start (Suc h) \<subseteq> within R start (Suc h) \<union> R `` set nx"
      proof -
        have "within R start (Suc h) = within R start h \<union> set nx" using seen' seen new(2) by simp
        then have "R `` within R start (Suc h) = R `` within R start h \<union> R `` set nx" by (metis Image_Un)
        moreover have "R `` within R start h \<subseteq> within R start (Suc h)" by simp
        ultimately show ?thesis by blast
      qed
      moreover have "rel_item ` set out' = within R start (Suc h) - {start}"
      proof -
        have "within R start (Suc h) = within R start h \<union> rel_item ` set new" using seen' seen by simp
        moreover have "start \<notin> rel_item ` set new" using new(4) seen start by blast
        ultimately show ?thesis using items by (simp only: new(1) set_append image_Un) blast
      qed
      moreover have "set nx \<subseteq> within R start (Suc h)" using seen' new(2) by auto
      moreover have "walk_hops db types limit (legs_of dir) (Suc hops) (Suc h) frontier seen out =
          walk_hops db types limit (legs_of dir) hops (Suc (Suc h)) nx seen' out'"
        using False ne by (simp add: step)
      ultimately show ?thesis
        using Suc.IH [OF seen'(1) _ found', of nx] new(6) len unfolding add_Suc_shift [symmetric] by presburger
    qed
  qed
qed

section \<open>Every store the writes reach can be walked\<close>

definition edges_typed :: "'w graph_db \<Rightarrow> bool" where
  "edges_typed db \<longleftrightarrow> 0 \<le> gr_edges_seq db \<and>
     (\<forall>r \<in> set (gr_edges db). 0 < ed_id r \<and> edge_type_from_str_opt (ed_type r) \<noteq> None)"

lemma edge_type_reads_back: "edge_type_from_str_opt (edge_type_as_str et) = Some et"
  by (cases et) (simp_all add: edge_type_from_str_opt_def edge_type_from_db_str_def edge_type_enum.from_as_str
      del: edge_type_as_str.simps, simp_all)

lemma edges_typed_subset:
  "edges_typed db \<Longrightarrow> set (gr_edges db') \<subseteq> set (gr_edges db) \<Longrightarrow> gr_edges_seq db' = gr_edges_seq db \<Longrightarrow> edges_typed db'"
  by (auto simp: edges_typed_def)

lemma edges_typed_step: "graph_step ops db db' \<Longrightarrow> edges_typed db \<Longrightarrow> edges_typed db'"
proof (induction rule: graph_step.induct)
  case (gs_link now db meta src dst et weight props db' i)
  then have "db' = fst (link_writes ops now db meta src dst et weight props)"
    by (simp add: link_weighted_cases) (metis fst_conv)
  with gs_link.prems show ?case
    by (auto simp: link_writes_def Let_def edges_typed_def update_weight_def new_edge_def edge_type_reads_back
        split: option.splits)
next
  case (gs_unlink db meta src dst et db')
  then show ?case
    using unlink_cases [of ops db meta src dst et] by (auto elim!: edges_typed_subset)
next
  case (gs_contain db meta child parent position db')
  then show ?case by (auto simp: contain_cases Let_def elim!: edges_typed_subset split: if_splits)
next
  case (gs_uncontain db meta child db' was)
  then show ?case by (auto simp: uncontain_cases elim!: edges_typed_subset split: option.splits)
qed (auto simp: cascade_item_def elim!: edges_typed_subset)

lemma graph_steps_walkable:
  assumes "(graph_step ops)\<^sup>*\<^sup>* empty_graph db" shows "walkable db"
proof -
  have "edges_typed db"
    using assms by (induction rule: rtranclp_induct) (auto simp: edges_typed_def empty_graph_def dest: edges_typed_step)
  with graph_steps_ok [OF assms] show ?thesis by (auto simp: walkable_def edges_typed_def graph_ok_def)
qed

lemma within_exact:
  assumes "y \<in> within R start d" and "y \<notin> within R start (d - 1)" and "1 \<le> d"
  shows "(start, y) \<in> R ^^ d \<and> (\<forall>k < d. (start, y) \<notin> R ^^ k)"
proof -
  from assms(1) obtain k where k: "k \<le> d" "(start, y) \<in> R ^^ k" by (auto simp: within_relpow)
  have "(start, y) \<notin> R ^^ k" if "k < d" for k
    using assms(2,3) that by (auto simp: within_relpow)
  with k show ?thesis by (metis le_neq_implies_less)
qed

text \<open>
  C14. The walk is the breadth-first search, whatever the page size. On a store the writes can reach
  (with fewer edges than ids) it does not fail and ends; it returns at most \<open>limit\<close> items, each
  once and never the start; an item's depth is its distance, and an edge of an allowed type leads
  to it, in the direction and by the type it is reported with, from an item one step nearer.
  Unless it reports a cut, it returned every item within the depth; it reports one exactly when it
  left an item out, and then the list is full.
\<close>

theorem walk_meaning:
  assumes "(graph_step ops)\<^sup>*\<^sup>* empty_graph db" and "length (gr_edges db) < i64_max"
  shows "let R = walk_rel db types dir in
    case walk_limited db start types depth dir limit of
      Inl _ \<Rightarrow> False
    | Inr (out, part) \<Rightarrow>
        distinct (map rel_item out) \<and> start \<notin> rel_item ` set out \<and> length out \<le> limit \<and>
        (\<forall>r \<in> set out. 1 \<le> rel_depth r \<and> rel_depth r \<le> depth \<and>
           (start, rel_item r) \<in> R ^^ rel_depth r \<and> (\<forall>k < rel_depth r. (start, rel_item r) \<notin> R ^^ k) \<and>
           (\<exists>e \<in> set (gr_edges db). followed types e \<and> edge_type_from_str_opt (ed_type e) = Some (rel_via r) \<and>
              rel_direction r \<in> set (legs_of dir) \<and> snd (leg_ends (rel_direction r) e) = rel_item r \<and>
              (\<exists>k < rel_depth r. (start, fst (leg_ends (rel_direction r) e)) \<in> R ^^ k))) \<and>
        part = (rel_item ` set out \<noteq> {y. y \<noteq> start \<and> (\<exists>k \<le> depth. (start, y) \<in> R ^^ k)}) \<and>
        (part \<longrightarrow> length out = limit)"
proof -
  define R where "R = walk_rel db types dir"
  have store: "good_store db" using assms graph_steps_walkable by (auto simp: good_store_def)
  have "\<exists>out part. walk_hops db types limit (legs_of dir) depth (Suc 0) [start] [start] [] = Inr (out, part) \<and>
    found_ok db types dir start (0 + depth) out \<and> length out \<le> limit \<and>
    (if part then length out = limit \<and> \<not> within R start (0 + depth) - {start} \<subseteq> rel_item ` set out
     else rel_item ` set out = within R start (0 + depth) - {start})"
    by (rule walk_hops_found [OF store]) (auto simp: found_ok_def R_def)
  then obtain out part where w: "walk_limited db start types depth dir limit = Inr (out, part)"
    and f: "found_ok db types dir start depth out" and len: "length out \<le> limit"
    and c: "if part then length out = limit \<and> \<not> within R start depth - {start} \<subseteq> rel_item ` set out
      else rel_item ` set out = within R start depth - {start}"
    unfolding add_0 walk_limited_def One_nat_def by blast
  have each: "1 \<le> rel_depth r \<and> rel_depth r \<le> depth \<and> rel_item r \<in> within R start (rel_depth r) \<and>
      rel_item r \<notin> within R start (rel_depth r - 1) \<and>
      (rel_item r, rel_via r, rel_direction r) \<in> offers_of db types (legs_of dir) (within R start (rel_depth r - 1))"
    if "r \<in> set out" for r
    using f that by (simp add: found_ok_def R_def)
  have "start \<in> within R start k" for k using within_relpow by fastforce
  then have no_start: "start \<notin> rel_item ` set out" using each by force
  moreover have "rel_item ` set out \<subseteq> within R start depth"
    using each within_mono by blast
  moreover have "within R start depth - {start} = {y. y \<noteq> start \<and> (\<exists>k \<le> depth. (start, y) \<in> R ^^ k)}"
    by (auto simp: within_relpow)
  ultimately have "part = (rel_item ` set out \<noteq> {y. y \<noteq> start \<and> (\<exists>k \<le> depth. (start, y) \<in> R ^^ k)})" "part \<longrightarrow> length out = limit"
    using c by (auto split: if_splits)
  moreover have edge: "\<exists>e \<in> set (gr_edges db). followed types e \<and> edge_type_from_str_opt (ed_type e) = Some (rel_via r) \<and>
      rel_direction r \<in> set (legs_of dir) \<and> snd (leg_ends (rel_direction r) e) = rel_item r \<and>
      (\<exists>k < rel_depth r. (start, fst (leg_ends (rel_direction r) e)) \<in> R ^^ k)" if "r \<in> set out" for r
  proof -
    from each [OF that] have d: "1 \<le> rel_depth r"
      and o: "(rel_item r, rel_via r, rel_direction r) \<in> offers_of db types (legs_of dir) (within R start (rel_depth r - 1))"
      by blast+
    from o obtain e where e: "e \<in> set (gr_edges db)" "followed types e" "rel_direction r \<in> set (legs_of dir)"
      "fst (leg_ends (rel_direction r) e) \<in> within R start (rel_depth r - 1)" "snd (leg_ends (rel_direction r) e) = rel_item r"
      "edge_type_from_str_opt (ed_type e) = Some (rel_via r)"
      unfolding offers_of_def by blast
    from e(4) obtain k where "k \<le> rel_depth r - 1" "(start, fst (leg_ends (rel_direction r) e)) \<in> R ^^ k"
      by (auto simp: within_relpow)
    moreover from this d have "k < rel_depth r" by linarith
    ultimately show ?thesis using e by blast
  qed
  moreover have "distinct (map rel_item out)" using f by (simp add: found_ok_def)
  ultimately show ?thesis
    unfolding Let_def w sum.case prod.case R_def [symmetric]
  proof (intro conjI ballI)
    fix r assume r: "r \<in> set out"
    then show "1 \<le> rel_depth r" "rel_depth r \<le> depth" using each by blast+
    show "(start, rel_item r) \<in> R ^^ rel_depth r" "\<forall>k < rel_depth r. (start, rel_item r) \<notin> R ^^ k"
      using within_exact each [OF r] by blast+
    show "\<exists>e \<in> set (gr_edges db). followed types e \<and> edge_type_from_str_opt (ed_type e) = Some (rel_via r) \<and>
        rel_direction r \<in> set (legs_of dir) \<and> snd (leg_ends (rel_direction r) e) = rel_item r \<and>
        (\<exists>k < rel_depth r. (start, fst (leg_ends (rel_direction r) e)) \<in> R ^^ k)"
      using r by (rule edge)
  qed (use no_start len in simp_all)
qed

theorem walk_meaning_witness:
  "case walk_limited demo_graph 2 [] 3 Dir_Out 5 of
     Inl _ \<Rightarrow> False
   | Inr (out, part) \<Rightarrow> rel_item ` set out = {1} \<and> \<not> part"
proof -
  have e: "gr_edges demo_graph = [new_edge ''now'' 1 2 1 E_DependsOn None None]"
    by (simp add: demo_graph_def link_writes_def demo_items_def empty_graph_def Let_def)
  have "walk_limited demo_graph 2 [] 3 Dir_Out 5 =
      Inr ([\<lparr>rel_item = 1, rel_depth = 1, rel_via = E_DependsOn, rel_direction = Dir_Out\<rparr>], False)"
    using e graph_steps_walkable [OF demo_graph_reached]
    by (simp add: walk_limited_def legs_of_def numeral_3_eq_3 read_pages_eq i64_max_def neighbour_rows_def leg_ends_def
        row_of_def new_edge_def edge_type_reads_back del: edge_type_as_str.simps)
  with walk_meaning [OF demo_graph_reached, where types = "[]" and dir = Dir_Out and start = 2 and depth = 3 and limit = 5]
  show ?thesis by (simp add: e i64_max_def)
qed

end
