(* ===== verification/Daemon_Idempotency.thy ===== *)
theory Daemon_Idempotency
  imports Held_Until
begin

text \<open>
  What \<open>jkb serve\<close> remembers of requests that carried an idempotency key,
  \<open>crates/jkb-daemon/src/idempotency.rs\<close>. The map of entries is an association list; the order
  in which a \<open>HashMap\<close> iterates decides only between answers recorded at the same instant, and is
  an argument (\<open>tie\<close>) of every step that may evict. An instant is a natural number; the channel
  a waiter listens on is named by the id of the entry that opened it.
\<close>

section \<open>The store\<close>

type_synonym idem_key = "string \<times> string"

datatype 'v idem_state = Idem_InProgress | Idem_Done 'v nat nat

record 'v idem_entry =
  ie_id :: nat
  ie_fingerprint :: nat
  ie_state :: "'v idem_state"

record 'v idem_store =
  is_entries :: "(idem_key \<times> 'v idem_entry) list"
  is_next_id :: nat
  is_done_bytes :: nat
  is_ttl :: nat
  is_max_entries :: nat
  is_max_bytes :: nat

datatype 'v idem_verdict = B_Run nat | B_Replay 'v | B_Wait nat | B_Mismatch

definition idem_new :: "nat \<Rightarrow> nat \<Rightarrow> nat \<Rightarrow> 'v idem_store" where
  "idem_new ttl max_entries max_bytes =
     \<lparr>is_entries = [], is_next_id = 0, is_done_bytes = 0, is_ttl = ttl,
      is_max_entries = max_entries, is_max_bytes = max_bytes\<rparr>"

definition is_in_progress :: "'v idem_entry \<Rightarrow> bool" where
  "is_in_progress e = (case ie_state e of Idem_InProgress \<Rightarrow> True | Idem_Done _ _ _ \<Rightarrow> False)"

fun answer_bytes :: "'v idem_state \<Rightarrow> nat" where
  "answer_bytes Idem_InProgress = 0"
| "answer_bytes (Idem_Done v b t) = b"

definition entry_bytes :: "'v idem_entry \<Rightarrow> nat" where
  "entry_bytes e = answer_bytes (ie_state e)"

text \<open>\<open>saturating_duration_since\<close> is truncated subtraction.\<close>

definition expired :: "nat \<Rightarrow> nat \<Rightarrow> 'v idem_entry \<Rightarrow> bool" where
  "expired ttl now e = (case ie_state e of Idem_Done _ _ t \<Rightarrow> ttl \<le> now - t | Idem_InProgress \<Rightarrow> False)"

definition idem_expire :: "nat \<Rightarrow> 'v idem_store \<Rightarrow> 'v idem_store" where
  "idem_expire now s =
     s\<lparr>is_entries := filter (\<lambda>(_, e). \<not> expired (is_ttl s) now e) (is_entries s),
       is_done_bytes := is_done_bytes s -
         sum_list (map (\<lambda>(_, e). entry_bytes e) (filter (\<lambda>(_, e). expired (is_ttl s) now e) (is_entries s)))\<rparr>"

text \<open>\<open>min_by_key\<close>: the first of the least.\<close>

fun least_first :: "('a \<Rightarrow> nat) \<Rightarrow> 'a list \<Rightarrow> 'a option" where
  "least_first f [] = None"
| "least_first f (x # xs) =
     (case least_first f xs of
        None \<Rightarrow> Some x
      | Some y \<Rightarrow> if f x \<le> f y then Some x else Some y)"

text \<open>The answers, as the map iterates over them: when, how long, and the key.\<close>

definition answers :: "(idem_key \<Rightarrow> nat) \<Rightarrow> (idem_key \<times> 'v idem_entry) list \<Rightarrow> (nat \<times> nat \<times> idem_key) list" where
  "answers tie es =
     List.map_filter (\<lambda>(k, e). case ie_state e of Idem_Done _ b t \<Rightarrow> Some (t, b, k) | Idem_InProgress \<Rightarrow> None)
       (sort_key (\<lambda>(k, _). tie k) es)"

definition oldest_answer :: "(idem_key \<Rightarrow> nat) \<Rightarrow> 'v idem_store \<Rightarrow> (nat \<times> nat \<times> idem_key) option" where
  "oldest_answer tie s = least_first fst (answers tie (is_entries s))"

definition over_caps :: "'v idem_store \<Rightarrow> bool" where
  "over_caps s \<longleftrightarrow> length (is_entries s) > is_max_entries s \<or> is_done_bytes s > is_max_bytes s"

lemma least_first_mem: "least_first f xs = Some x \<Longrightarrow> x \<in> set xs"
  by (induction xs arbitrary: x) (auto split: option.splits if_splits)

lemma least_first_None [simp]: "least_first f xs = None \<longleftrightarrow> xs = []"
  by (cases xs) (auto split: option.splits)

lemma least_first_le: "least_first f xs = Some x \<Longrightarrow> y \<in> set xs \<Longrightarrow> f x \<le> f y"
proof (induction xs arbitrary: x)
  case (Cons a xs)
  then show ?case by (cases "least_first f xs") (auto split: if_splits dest: Cons.IH order_trans)
qed simp

lemma answers_iff:
  "(t, b, k) \<in> set (answers tie es) \<longleftrightarrow> (\<exists>e v. (k, e) \<in> set es \<and> ie_state e = Idem_Done v b t)"
  by (auto simp: answers_def map_filter_def split: idem_state.splits) force

lemma oldest_answer_mem:
  "oldest_answer tie s = Some (t, b, k) \<Longrightarrow> \<exists>e v. (k, e) \<in> set (is_entries s) \<and> ie_state e = Idem_Done v b t"
  using least_first_mem answers_iff unfolding oldest_answer_def by metis

definition drop_key :: "idem_key \<Rightarrow> 'v idem_store \<Rightarrow> 'v idem_store" where
  "drop_key k s = s\<lparr>is_entries := filter (\<lambda>(j, _). j \<noteq> k) (is_entries s)\<rparr>"

lemma drop_key_shorter:
  assumes "(k, e) \<in> set (is_entries s)"
  shows "length (is_entries (drop_key k s)) < length (is_entries s)"
proof -
  have "length (filter (\<lambda>(j, _). j \<noteq> k) (is_entries s)) < length (is_entries s)"
    by (rule length_filter_less [OF assms]) simp
  then show ?thesis by (simp add: drop_key_def)
qed

text \<open>The loop ends: each turn removes an entry.\<close>

function idem_evict :: "(idem_key \<Rightarrow> nat) \<Rightarrow> 'v idem_store \<Rightarrow> 'v idem_store" where
  "idem_evict tie s =
     (if over_caps s then
        (case oldest_answer tie s of
           None \<Rightarrow> s
         | Some (_, bytes, key) \<Rightarrow> idem_evict tie ((drop_key key s)\<lparr>is_done_bytes := is_done_bytes s - bytes\<rparr>))
      else s)"
  by pat_completeness auto
termination
  by (relation "measure (\<lambda>(_, s). length (is_entries s))") (auto dest!: oldest_answer_mem intro: drop_key_shorter)

declare idem_evict.simps [simp del]

section \<open>The operations\<close>

definition idem_begin :: "(idem_key \<Rightarrow> nat) \<Rightarrow> idem_key \<Rightarrow> nat \<Rightarrow> nat \<Rightarrow> 'v idem_store \<Rightarrow> 'v idem_store \<times> 'v idem_verdict" where
  "idem_begin tie key fingerprint now s0 =
     (let s = idem_expire now s0 in
      case map_of (is_entries s) key of
        Some e \<Rightarrow>
          if ie_fingerprint e \<noteq> fingerprint then (s, B_Mismatch)
          else (case ie_state e of Idem_Done v _ _ \<Rightarrow> (s, B_Replay v) | Idem_InProgress \<Rightarrow> (s, B_Wait (ie_id e)))
      | None \<Rightarrow>
          let i = is_next_id s in
          (idem_evict tie (s\<lparr>is_next_id := i + 1,
              is_entries := is_entries s @ [(key, \<lparr>ie_id = i, ie_fingerprint = fingerprint, ie_state = Idem_InProgress\<rparr>)]\<rparr>),
           B_Run i))"

definition idem_finish :: "(idem_key \<Rightarrow> nat) \<Rightarrow> idem_key \<Rightarrow> nat \<Rightarrow> 'v \<Rightarrow> nat \<Rightarrow> nat \<Rightarrow> 'v idem_store \<Rightarrow> 'v idem_store" where
  "idem_finish tie key i v bytes now s =
     (case map_of (is_entries s) key of
        None \<Rightarrow> s
      | Some e \<Rightarrow>
          if ie_id e \<noteq> i \<or> \<not> is_in_progress e then s
          else idem_evict tie (s\<lparr>is_entries :=
                   map (\<lambda>(k, e). (k, if k = key then e\<lparr>ie_state := Idem_Done v bytes now\<rparr> else e)) (is_entries s),
                 is_done_bytes := is_done_bytes s + bytes\<rparr>))"

definition idem_abandon :: "idem_key \<Rightarrow> nat \<Rightarrow> 'v idem_store \<Rightarrow> 'v idem_store" where
  "idem_abandon key i s =
     (case map_of (is_entries s) key of
        Some e \<Rightarrow> if ie_id e = i \<and> is_in_progress e then drop_key key s else s
      | None \<Rightarrow> s)"

definition idem_contains :: "'v idem_store \<Rightarrow> idem_key \<Rightarrow> bool" where
  "idem_contains s key \<longleftrightarrow> map_of (is_entries s) key \<noteq> None"

definition idem_running :: "'v idem_store \<Rightarrow> nat" where
  "idem_running s = length (filter (\<lambda>(_, e). is_in_progress e) (is_entries s))"

section \<open>Sequences of requests\<close>

datatype 'v idem_cmd =
  I_Begin "idem_key \<Rightarrow> nat" idem_key nat nat
| I_Finish "idem_key \<Rightarrow> nat" idem_key nat 'v nat nat
| I_Abandon idem_key nat

fun idem_step :: "'v idem_store \<Rightarrow> 'v idem_cmd \<Rightarrow> 'v idem_store \<times> 'v idem_verdict option" where
  "idem_step s (I_Begin tie key fp now) = (let (s', b) = idem_begin tie key fp now s in (s', Some b))"
| "idem_step s (I_Finish tie key i v bytes now) = (idem_finish tie key i v bytes now s, None)"
| "idem_step s (I_Abandon key i) = (idem_abandon key i s, None)"

definition idem_run :: "'v idem_store \<Rightarrow> 'v idem_cmd \<Rightarrow> 'v idem_store" where
  "idem_run s c = fst (idem_step s c)"

lemma idem_run_simps [simp]:
  "idem_run s (I_Begin tie key fp now) = fst (idem_begin tie key fp now s)"
  "idem_run s (I_Finish tie key i v bytes now) = idem_finish tie key i v bytes now s"
  "idem_run s (I_Abandon key i) = idem_abandon key i s"
  by (simp_all add: idem_run_def split: prod.splits)

text \<open>What a sequence answered, command by command.\<close>

fun idem_trace :: "'v idem_store \<Rightarrow> 'v idem_cmd list \<Rightarrow> ('v idem_cmd \<times> 'v idem_verdict option) list" where
  "idem_trace s [] = []"
| "idem_trace s (c # cs) = (c, snd (idem_step s c)) # idem_trace (idem_run s c) cs"

section \<open>The invariant\<close>

definition idem_ok :: "'v idem_store \<Rightarrow> bool" where
  "idem_ok s \<longleftrightarrow>
     distinct (map fst (is_entries s)) \<and>
     (\<forall>(k, e) \<in> set (is_entries s). ie_id e < is_next_id s) \<and>
     is_done_bytes s = sum_list (map (\<lambda>(_, e). entry_bytes e) (is_entries s))"

text \<open>Both caps hold, but that entries in progress are never dropped.\<close>

definition idem_capped :: "'v idem_store \<Rightarrow> bool" where
  "idem_capped s \<longleftrightarrow>
     is_done_bytes s \<le> is_max_bytes s \<and>
     (length (is_entries s) \<le> is_max_entries s \<or> (\<forall>(k, e) \<in> set (is_entries s). is_in_progress e))"

lemma in_progress_iff: "is_in_progress e \<longleftrightarrow> ie_state e = Idem_InProgress"
  by (simp add: is_in_progress_def split: idem_state.splits)

lemma in_progress_bytes [simp]: "is_in_progress e \<Longrightarrow> entry_bytes e = 0"
  by (simp add: in_progress_iff entry_bytes_def)

lemma sum_filter_split:
  "sum_list (map f (filter P xs)) + sum_list (map f (filter (\<lambda>x. \<not> P x) xs)) = sum_list (map f xs)" for f :: "'a \<Rightarrow> nat"
  by (induction xs) auto

lemma map_of_filter_keys: "map_of (filter (\<lambda>(j, _). j \<noteq> k) es) = (map_of es)(k := None)"
  by (induction es) (auto simp: fun_eq_iff)

lemma keys_filter: "distinct (map fst es) \<Longrightarrow> distinct (map fst (filter P es))"
  by (induction es) auto

lemma map_of_filter:
  assumes "distinct (map fst es)"
  shows "map_of (filter (\<lambda>(_, e). P e) es) k = Option.bind (map_of es k) (\<lambda>e. if P e then Some e else None)"
  using assms by (induction es) (auto simp: map_of_eq_None_iff image_iff)

lemma sum_drop:
  fixes f :: "'e \<Rightarrow> nat"
  assumes "distinct (map fst es)" and "(k, e) \<in> set es"
  shows "sum_list (map (\<lambda>(_, e). f e) (filter (\<lambda>(j, _). j \<noteq> k) es)) + f e = sum_list (map (\<lambda>(_, e). f e) es)"
  using assms
proof (induction es)
  case (Cons x es)
  show ?case
  proof (cases "fst x = k")
    case True
    with Cons.prems have "k \<notin> fst ` set es" by auto
    then have "filter (\<lambda>(j, _). j \<noteq> k) es = es" by (force simp: filter_id_conv)
    moreover have "x = (k, e)" using Cons.prems True \<open>k \<notin> fst ` set es\<close> by (cases x) (auto simp: image_iff)
    ultimately show ?thesis by simp
  next
    case False
    with Cons show ?thesis by (cases x) auto
  qed
qed simp

text \<open>Eviction keeps what is in progress and every key's entry, or drops an answer.\<close>

definition idem_sub :: "'v idem_store \<Rightarrow> 'v idem_store \<Rightarrow> bool" where
  "idem_sub s s' \<longleftrightarrow>
     is_next_id s' = is_next_id s \<and> is_ttl s' = is_ttl s \<and> is_max_entries s' = is_max_entries s \<and> is_max_bytes s' = is_max_bytes s \<and>
     (\<forall>k e. map_of (is_entries s') k = Some e \<longrightarrow> map_of (is_entries s) k = Some e) \<and>
     (\<forall>k e. map_of (is_entries s) k = Some e \<longrightarrow> is_in_progress e \<longrightarrow> map_of (is_entries s') k = Some e)"

lemma idem_sub_refl [simp]: "idem_sub s s"
  by (simp add: idem_sub_def)

lemma idem_sub_trans: "idem_sub a b \<Longrightarrow> idem_sub b c \<Longrightarrow> idem_sub a c"
  unfolding idem_sub_def by metis

lemma evict_turn:
  assumes "idem_ok s" and o: "oldest_answer tie s = Some (t, b, k)"
  shows "idem_ok ((drop_key k s)\<lparr>is_done_bytes := is_done_bytes s - b\<rparr>)"
    and "idem_sub s ((drop_key k s)\<lparr>is_done_bytes := is_done_bytes s - b\<rparr>)"
proof -
  from oldest_answer_mem [OF o] obtain e v where e: "(k, e) \<in> set (is_entries s)" "ie_state e = Idem_Done v b t" by blast
  from assms(1) have d: "distinct (map fst (is_entries s))" by (simp add: idem_ok_def)
  from e d have m: "map_of (is_entries s) k = Some e" by simp
  have "entry_bytes e = b" using e(2) by (simp add: entry_bytes_def)
  with sum_drop [OF d e(1), of entry_bytes] assms(1) show "idem_ok ((drop_key k s)\<lparr>is_done_bytes := is_done_bytes s - b\<rparr>)"
    by (auto simp: idem_ok_def drop_key_def keys_filter)
  show "idem_sub s ((drop_key k s)\<lparr>is_done_bytes := is_done_bytes s - b\<rparr>)"
    using m e(2) by (auto simp: idem_sub_def drop_key_def map_of_filter_keys in_progress_iff)
qed

lemma all_in_progress:
  assumes "idem_ok s" and "oldest_answer tie s = None"
  shows "(\<forall>(k, e) \<in> set (is_entries s). is_in_progress e) \<and> is_done_bytes s = 0"
proof -
  have "answers tie (is_entries s) = []" using assms(2) by (simp add: oldest_answer_def)
  then have "is_in_progress e" if "(k, e) \<in> set (is_entries s)" for k e
    using that answers_iff [of _ _ k tie "is_entries s"] by (cases "ie_state e") (auto simp: in_progress_iff)
  then show ?thesis using assms(1) by (auto simp: idem_ok_def)
qed

lemma evict_ok:
  "idem_ok s \<Longrightarrow> idem_ok (idem_evict tie s) \<and> idem_sub s (idem_evict tie s) \<and> idem_capped (idem_evict tie s)"
proof (induction tie s rule: idem_evict.induct)
  case (1 tie s)
  show ?case
  proof (cases "over_caps s")
    case over: True
    show ?thesis
    proof (cases "oldest_answer tie s")
      case None
      with over 1(2) all_in_progress [OF 1(2) None] show ?thesis
        by (simp add: idem_evict.simps [of tie s] idem_capped_def)
    next
      case (Some a)
      obtain t b k where a: "a = (t, b, k)" by (cases a)
      note turn = evict_turn [OF 1(2) Some [unfolded a]]
      have e: "idem_evict tie s = idem_evict tie ((drop_key k s)\<lparr>is_done_bytes := is_done_bytes s - b\<rparr>)"
        using over Some a by (simp add: idem_evict.simps [of tie s])
      have "idem_ok (idem_evict tie s) \<and> idem_sub ((drop_key k s)\<lparr>is_done_bytes := is_done_bytes s - b\<rparr>) (idem_evict tie s) \<and>
          idem_capped (idem_evict tie s)"
        unfolding e by (rule 1(1) [OF over Some, of t "(b, k)" b k]) (simp_all add: a turn(1))
      with idem_sub_trans [OF turn(2)] show ?thesis by blast
    qed
  next
    case False
    with 1(2) show ?thesis by (auto simp: idem_evict.simps [of tie s] idem_capped_def over_caps_def)
  qed
qed

lemma expire_entries:
  "is_entries (idem_expire now s) = filter (\<lambda>(_, e). \<not> expired (is_ttl s) now e) (is_entries s)"
  by (simp add: idem_expire_def)

lemma expire_ok:
  assumes "idem_ok s"
  shows "idem_ok (idem_expire now s)" and "idem_capped s \<Longrightarrow> idem_capped (idem_expire now s)"
    and "idem_sub s (idem_expire now s)"
proof -
  let ?P = "\<lambda>x. expired (is_ttl s) now (snd x)" and ?f = "\<lambda>x. entry_bytes (snd x)"
  have d: "distinct (map fst (is_entries s))" using assms by (simp add: idem_ok_def)
  have "is_done_bytes s = sum_list (map ?f (filter ?P (is_entries s))) + sum_list (map ?f (filter (\<lambda>x. \<not> ?P x) (is_entries s)))"
    using assms by (simp add: idem_ok_def sum_filter_split case_prod_unfold)
  then have b: "is_done_bytes (idem_expire now s) = sum_list (map ?f (filter (\<lambda>x. \<not> ?P x) (is_entries s)))"
    by (simp add: idem_expire_def case_prod_unfold)
  with assms show "idem_ok (idem_expire now s)"
    by (auto simp: idem_ok_def keys_filter idem_expire_def case_prod_unfold)
  show "idem_capped (idem_expire now s)" if c: "idem_capped s"
  proof -
    have "is_done_bytes (idem_expire now s) \<le> is_done_bytes s" by (simp add: idem_expire_def)
    moreover have "length (is_entries (idem_expire now s)) \<le> length (is_entries s)" by (simp add: expire_entries)
    moreover have "set (is_entries (idem_expire now s)) \<subseteq> set (is_entries s)" by (auto simp: expire_entries)
    moreover have "is_max_bytes (idem_expire now s) = is_max_bytes s" "is_max_entries (idem_expire now s) = is_max_entries s"
      by (simp_all add: idem_expire_def)
    ultimately show ?thesis using c unfolding idem_capped_def by (auto dest: order_trans)
  qed
  show "idem_sub s (idem_expire now s)"
    using map_of_filter [OF d, of "\<lambda>e. \<not> expired (is_ttl s) now e"]
    by (auto simp: idem_sub_def idem_expire_def expired_def in_progress_iff bind_eq_Some_conv split: if_splits)
qed


text \<open>What a step may do: keep the invariant and the caps, and every entry in progress.\<close>

definition idem_kept :: "'v idem_store \<Rightarrow> 'v idem_store \<Rightarrow> bool" where
  "idem_kept s s' \<longleftrightarrow>
     idem_ok s' \<and> (idem_capped s \<longrightarrow> idem_capped s') \<and> is_next_id s \<le> is_next_id s' \<and> is_ttl s' = is_ttl s \<and>
     is_max_entries s' = is_max_entries s \<and> is_max_bytes s' = is_max_bytes s"

definition begun :: "idem_key \<Rightarrow> nat \<Rightarrow> nat \<Rightarrow> 'v idem_store \<Rightarrow> 'v idem_store \<Rightarrow> 'v idem_verdict \<Rightarrow> bool" where
  "begun key fp now s s' r \<longleftrightarrow>
     (case r of
        B_Run i \<Rightarrow>
          map_of (is_entries (idem_expire now s)) key = None \<and> i = is_next_id s \<and> is_next_id s' = i + 1 \<and>
          map_of (is_entries s') key = Some \<lparr>ie_id = i, ie_fingerprint = fp, ie_state = Idem_InProgress\<rparr> \<and>
          (\<forall>k e. k \<noteq> key \<longrightarrow> map_of (is_entries s') k = Some e \<longrightarrow> map_of (is_entries s) k = Some e) \<and>
          (\<forall>k e. map_of (is_entries s) k = Some e \<longrightarrow> is_in_progress e \<longrightarrow> map_of (is_entries s') k = Some e)
      | _ \<Rightarrow> s' = idem_expire now s)"

lemma expire_kept: "idem_ok s \<Longrightarrow> idem_kept s (idem_expire now s)"
  using expire_ok by (auto simp: idem_kept_def idem_expire_def)

lemma begin_fresh:
  assumes ok: "idem_ok s" and none: "map_of (is_entries s) key = None"
    and s': "s' = idem_evict tie (s\<lparr>is_next_id := is_next_id s + 1,
      is_entries := is_entries s @ [(key, \<lparr>ie_id = is_next_id s, ie_fingerprint = fp, ie_state = Idem_InProgress\<rparr>)]\<rparr>)"
  shows "idem_kept s s' \<and> is_next_id s' = is_next_id s + 1 \<and>
    map_of (is_entries s') key = Some \<lparr>ie_id = is_next_id s, ie_fingerprint = fp, ie_state = Idem_InProgress\<rparr> \<and>
    (\<forall>k e. k \<noteq> key \<longrightarrow> map_of (is_entries s') k = Some e \<longrightarrow> map_of (is_entries s) k = Some e) \<and>
    (\<forall>k e. map_of (is_entries s) k = Some e \<longrightarrow> is_in_progress e \<longrightarrow> map_of (is_entries s') k = Some e)"
proof -
  let ?e = "\<lparr>ie_id = is_next_id s, ie_fingerprint = fp, ie_state = Idem_InProgress\<rparr>"
  let ?t = "s\<lparr>is_next_id := is_next_id s + 1, is_entries := is_entries s @ [(key, ?e)]\<rparr>"
  have "key \<notin> fst ` set (is_entries s)" using none by (simp add: map_of_eq_None_iff)
  with ok have t: "idem_ok ?t" by (fastforce simp: idem_ok_def entry_bytes_def)
  have m: "map_of (is_entries ?t) k = (if k = key then Some ?e else map_of (is_entries s) k)" for k
    using none by (simp add: map_add_def split: option.splits)
  note ev = evict_ok [OF t, of tie, folded s']
  have "is_in_progress ?e" by (simp add: in_progress_iff)
  then have new: "map_of (is_entries s') key = Some ?e"
    using ev m unfolding idem_sub_def by metis
  have keep: "map_of (is_entries s') k = Some e" if "map_of (is_entries s) k = Some e" "is_in_progress e" for k e
    using ev m none that unfolding idem_sub_def by (metis option.distinct(1))
  have old: "map_of (is_entries s) k = Some e" if "k \<noteq> key" "map_of (is_entries s') k = Some e" for k e
    using ev m that unfolding idem_sub_def by metis
  have "idem_kept s s'" "is_next_id s' = is_next_id s + 1"
    using ev by (simp_all add: idem_kept_def idem_sub_def)
  with new keep old show ?thesis by blast
qed

lemma begin_ok:
  assumes ok: "idem_ok s" and b: "idem_begin tie key fp now s = (s', r)"
  shows "idem_kept s s' \<and> begun key fp now s s' r"
proof (cases "map_of (is_entries (idem_expire now s)) key")
  case None
  let ?s = "idem_expire now s"
  have same: "is_next_id ?s = is_next_id s" by (simp add: idem_expire_def)
  note exp = expire_ok [OF ok, of now] expire_kept [OF ok, of now]
  from b None have r: "r = B_Run (is_next_id s)" and s': "s' = idem_evict tie (?s\<lparr>is_next_id := is_next_id ?s + 1,
      is_entries := is_entries ?s @ [(key, \<lparr>ie_id = is_next_id ?s, ie_fingerprint = fp, ie_state = Idem_InProgress\<rparr>)]\<rparr>)"
    by (auto simp: idem_begin_def Let_def same)
  note fresh = begin_fresh [OF exp(1) None s']
  have "idem_kept s s'" using fresh exp(4) unfolding idem_kept_def by (metis order_trans)
  moreover have "begun key fp now s s' r"
    using fresh exp(3) None same unfolding begun_def r idem_verdict.case idem_sub_def by metis
  ultimately show ?thesis by blast
next
  case (Some e)
  with b have "s' = idem_expire now s" "\<not> (\<exists>i. r = B_Run i)"
    by (auto simp: idem_begin_def Let_def split: if_splits idem_state.splits)
  with expire_kept [OF ok] show ?thesis by (auto simp: begun_def split: idem_verdict.splits)
qed


text \<open>An answer goes only while every answer left is as new.\<close>

lemma evict_oldest_first:
  assumes "idem_ok s" and "map_of (is_entries s) k = Some e" and "ie_state e = Idem_Done v b t"
    and "map_of (is_entries (idem_evict tie s)) k = None"
    and "map_of (is_entries (idem_evict tie s)) k' = Some e'" and "ie_state e' = Idem_Done v' b' t'"
  shows "t \<le> t'"
  using assms
proof (induction tie s rule: idem_evict.induct)
  case (1 tie s)
  have over: "over_caps s" using 1(3,5) by (auto simp: idem_evict.simps [of tie s] split: if_splits)
  then obtain t0 b0 k0 where o: "oldest_answer tie s = Some (t0, b0, k0)"
    using 1(3,5) by (cases "oldest_answer tie s") (auto simp: idem_evict.simps [of tie s])
  let ?s = "(drop_key k0 s)\<lparr>is_done_bytes := is_done_bytes s - b0\<rparr>"
  have e: "idem_evict tie s = idem_evict tie ?s" using over o by (simp add: idem_evict.simps [of tie s])
  have ok: "idem_ok ?s" by (rule evict_turn(1) [OF 1(2) o])
  show ?case
  proof (cases "k = k0")
    case True
    have "map_of (is_entries s) k' = Some e'"
      using 1(6) evict_ok [OF ok, of tie] evict_turn(2) [OF 1(2) o] unfolding e idem_sub_def by metis
    then have "(t', b', k') \<in> set (answers tie (is_entries s))" using 1(7) by (auto simp: answers_iff dest: map_of_SomeD)
    with o have "t0 \<le> t'" unfolding oldest_answer_def using least_first_le by fastforce
    moreover have "t0 = t"
    proof -
      obtain e0 v0 where e0: "(k0, e0) \<in> set (is_entries s)" "ie_state e0 = Idem_Done v0 b0 t0"
        using oldest_answer_mem [OF o] by blast
      have "map_of (is_entries s) k0 = Some e0" using e0(1) 1(2) by (simp add: idem_ok_def)
      with 1(3,4) True e0(2) show ?thesis by simp
    qed
    ultimately show ?thesis by simp
  next
    case False
    then have "map_of (is_entries ?s) k = Some e" using 1(3) by (simp add: drop_key_def map_of_filter_keys)
    with 1(1) [OF over o refl refl ok] 1(4-7) e show ?thesis by simp
  qed
qed

text \<open>What finishing and abandoning leave.\<close>

lemma map_of_update_key:
  "map_of (map (\<lambda>(k, e). (k, if k = key then f e else e)) es) k =
     (if k = key then map_option f (map_of es k) else map_of es k)"
  by (induction es) auto

lemma sum_update_key:
  fixes f :: "'e \<Rightarrow> nat"
  assumes "distinct (map fst es)" and "map_of es key = Some e" and "f e = 0"
  shows "sum_list (map (\<lambda>(_, e). f e) (map (\<lambda>(k, e). (k, if k = key then g e else e)) es)) =
    sum_list (map (\<lambda>(_, e). f e) es) + f (g e)"
  using assms
proof (induction es)
  case (Cons x es)
  show ?case
  proof (cases "fst x = key")
    case True
    with Cons.prems have "key \<notin> fst ` set es" by auto
    then have "map (\<lambda>(k, e). (k, if k = key then g e else e)) es = es" by (intro map_idI) force
    with True Cons.prems show ?thesis by (cases x) auto
  next
    case False
    with Cons show ?thesis by (cases x) auto
  qed
qed simp

lemma finish_ok:
  assumes ok: "idem_ok s" and s': "s' = idem_finish tie key i v bytes now s"
  shows "idem_kept s s'"
    and "map_of (is_entries s') k = Some e' \<Longrightarrow> map_of (is_entries s) k = Some e' \<or>
      (\<exists>e. k = key \<and> map_of (is_entries s) k = Some e \<and> ie_id e = i \<and> is_in_progress e \<and> e' = e\<lparr>ie_state := Idem_Done v bytes now\<rparr>)"
    and "map_of (is_entries s) k = Some e \<Longrightarrow> is_in_progress e \<Longrightarrow> \<not> (k = key \<and> ie_id e = i) \<Longrightarrow> map_of (is_entries s') k = Some e"
proof -
  let ?hit = "\<exists>e0. map_of (is_entries s) key = Some e0 \<and> ie_id e0 = i \<and> is_in_progress e0"
  have "\<not> ?hit \<Longrightarrow> s' = s" by (auto simp: s' idem_finish_def split: option.splits)
  then consider (same) "s' = s"
    | (answered) e0 where "map_of (is_entries s) key = Some e0" "ie_id e0 = i" "is_in_progress e0"
      "s' = idem_evict tie (s\<lparr>is_entries :=
                   map (\<lambda>(k, e). (k, if k = key then e\<lparr>ie_state := Idem_Done v bytes now\<rparr> else e)) (is_entries s),
                 is_done_bytes := is_done_bytes s + bytes\<rparr>)"
    by (cases ?hit) (auto simp: s' idem_finish_def)
  then have "idem_kept s s' \<and>
    (\<forall>k e'. map_of (is_entries s') k = Some e' \<longrightarrow> map_of (is_entries s) k = Some e' \<or>
      (\<exists>e. k = key \<and> map_of (is_entries s) k = Some e \<and> ie_id e = i \<and> is_in_progress e \<and> e' = e\<lparr>ie_state := Idem_Done v bytes now\<rparr>)) \<and>
    (\<forall>k e. map_of (is_entries s) k = Some e \<longrightarrow> is_in_progress e \<longrightarrow> \<not> (k = key \<and> ie_id e = i) \<longrightarrow> map_of (is_entries s') k = Some e)"
  proof cases
    case same
    with ok show ?thesis by (simp add: idem_kept_def)
  next
    case (answered e0)
    define t where t: "t = s\<lparr>is_entries := map (\<lambda>(k, e). (k, if k = key then e\<lparr>ie_state := Idem_Done v bytes now\<rparr> else e)) (is_entries s),
                 is_done_bytes := is_done_bytes s + bytes\<rparr>"
    have d: "distinct (map fst (is_entries s))" using ok by (simp add: idem_ok_def)
    have keys: "map fst (is_entries t) = map fst (is_entries s)" by (simp add: t comp_def case_prod_unfold)
    have "\<forall>(k, e) \<in> set (is_entries t). ie_id e < is_next_id s" using ok by (fastforce simp: t idem_ok_def)
    moreover have "is_done_bytes t = sum_list (map (\<lambda>(_, e). entry_bytes e) (is_entries t))"
      using sum_update_key [OF d answered(1), of entry_bytes "\<lambda>e. e\<lparr>ie_state := Idem_Done v bytes now\<rparr>"] answered(3) ok
      by (simp add: t idem_ok_def) (simp add: entry_bytes_def)
    moreover have "distinct (map fst (is_entries t))" unfolding keys by (rule d)
    ultimately have tok: "idem_ok t" unfolding idem_ok_def by (simp add: t)
    have m: "map_of (is_entries t) k = (if k = key then Some (e0\<lparr>ie_state := Idem_Done v bytes now\<rparr>) else map_of (is_entries s) k)" for k
      using answered(1) by (simp add: t map_of_update_key)
    have s't: "s' = idem_evict tie t" using answered(4) by (simp add: t)
    note ev = evict_ok [OF tok, of tie, folded s't]
    have "idem_kept s s'" using ev by (simp add: idem_kept_def idem_sub_def t)
    moreover have "map_of (is_entries s) k = Some e' \<or>
      (\<exists>e. k = key \<and> map_of (is_entries s) k = Some e \<and> ie_id e = i \<and> is_in_progress e \<and> e' = e\<lparr>ie_state := Idem_Done v bytes now\<rparr>)"
      if h: "map_of (is_entries s') k = Some e'" for k e'
    proof -
      have "map_of (is_entries t) k = Some e'" using ev h unfolding idem_sub_def by blast
      with m [of k] answered(1-3) show ?thesis by (cases "k = key") auto
    qed
    moreover have "map_of (is_entries s') k = Some e"
      if h: "map_of (is_entries s) k = Some e" "is_in_progress e" "\<not> (k = key \<and> ie_id e = i)" for k e
    proof -
      have "map_of (is_entries t) k = Some e" using m [of k] h answered(1,2) by auto
      then show ?thesis using ev h(2) unfolding idem_sub_def by blast
    qed
    ultimately show ?thesis by blast
  qed
  then show "idem_kept s s'"
    and "map_of (is_entries s') k = Some e' \<Longrightarrow> map_of (is_entries s) k = Some e' \<or>
      (\<exists>e. k = key \<and> map_of (is_entries s) k = Some e \<and> ie_id e = i \<and> is_in_progress e \<and> e' = e\<lparr>ie_state := Idem_Done v bytes now\<rparr>)"
    and "map_of (is_entries s) k = Some e \<Longrightarrow> is_in_progress e \<Longrightarrow> \<not> (k = key \<and> ie_id e = i) \<Longrightarrow> map_of (is_entries s') k = Some e"
    by blast+
qed

lemma abandon_ok:
  assumes ok: "idem_ok s"
  shows "idem_kept s (idem_abandon key i s)"
    and "map_of (is_entries (idem_abandon key i s)) k = Some e \<Longrightarrow> map_of (is_entries s) k = Some e"
    and "map_of (is_entries s) k = Some e \<Longrightarrow> \<not> (k = key \<and> ie_id e = i) \<Longrightarrow> map_of (is_entries (idem_abandon key i s)) k = Some e"
proof -
  let ?hit = "\<exists>e0. map_of (is_entries s) key = Some e0 \<and> ie_id e0 = i \<and> is_in_progress e0"
  have "\<not> ?hit \<Longrightarrow> idem_abandon key i s = s" by (auto simp: idem_abandon_def split: option.splits)
  then consider (same) "idem_abandon key i s = s"
    | (drop) e0 where "map_of (is_entries s) key = Some e0" "ie_id e0 = i" "is_in_progress e0" "idem_abandon key i s = drop_key key s"
    by (cases ?hit) (auto simp: idem_abandon_def)
  then have "idem_kept s (idem_abandon key i s) \<and>
    (\<forall>k e. map_of (is_entries (idem_abandon key i s)) k = Some e \<longrightarrow> map_of (is_entries s) k = Some e) \<and>
    (\<forall>k e. map_of (is_entries s) k = Some e \<longrightarrow> \<not> (k = key \<and> ie_id e = i) \<longrightarrow> map_of (is_entries (idem_abandon key i s)) k = Some e)"
  proof cases
    case same
    with ok show ?thesis by (simp add: idem_kept_def)
  next
    case (drop e0)
    have d: "distinct (map fst (is_entries s))" using ok by (simp add: idem_ok_def)
    have "idem_ok (drop_key key s)"
      using ok sum_drop [OF d map_of_SomeD [OF drop(1)], of entry_bytes] drop(3)
      by (auto simp: idem_ok_def drop_key_def keys_filter)
    moreover have "length (is_entries (drop_key key s)) \<le> length (is_entries s)" by (simp add: drop_key_def)
    moreover have "set (is_entries (drop_key key s)) \<subseteq> set (is_entries s)" by (auto simp: drop_key_def)
    moreover have "is_done_bytes (drop_key key s) = is_done_bytes s" "is_max_bytes (drop_key key s) = is_max_bytes s"
      "is_max_entries (drop_key key s) = is_max_entries s" "is_next_id (drop_key key s) = is_next_id s"
      "is_ttl (drop_key key s) = is_ttl s" by (simp_all add: drop_key_def)
    ultimately have "idem_kept s (drop_key key s)"
      unfolding idem_kept_def idem_capped_def by (auto dest: order_trans)
    with drop show ?thesis by (auto simp: drop_key_def map_of_filter_keys)
  qed
  then show "idem_kept s (idem_abandon key i s)"
    and "map_of (is_entries (idem_abandon key i s)) k = Some e \<Longrightarrow> map_of (is_entries s) k = Some e"
    and "map_of (is_entries s) k = Some e \<Longrightarrow> \<not> (k = key \<and> ie_id e = i) \<Longrightarrow> map_of (is_entries (idem_abandon key i s)) k = Some e"
    by blast+
qed


section \<open>What the store promises\<close>

definition idem_holder :: "'v idem_store \<Rightarrow> idem_key \<Rightarrow> (nat \<times> nat) option" where
  "idem_holder s k =
     (case map_of (is_entries s) k of
        Some e \<Rightarrow> if is_in_progress e then Some (ie_id e, ie_fingerprint e) else None
      | None \<Rightarrow> None)"

fun idem_ends :: "'v idem_store \<Rightarrow> 'v idem_cmd \<Rightarrow> idem_key \<Rightarrow> nat \<times> nat \<Rightarrow> bool" where
  "idem_ends s (I_Begin tie key fp now) k h \<longleftrightarrow> False"
| "idem_ends s (I_Finish tie key i v bytes now) k h \<longleftrightarrow> key = k \<and> i = fst h"
| "idem_ends s (I_Abandon key i) k h \<longleftrightarrow> key = k \<and> i = fst h"

lemma idem_holder_iff:
  "idem_holder s k = Some (i, fp) \<longleftrightarrow>
     (\<exists>e. map_of (is_entries s) k = Some e \<and> is_in_progress e \<and> ie_id e = i \<and> ie_fingerprint e = fp)"
  by (auto simp: idem_holder_def split: option.splits)

lemma idem_run_kept: "idem_ok s \<Longrightarrow> idem_kept s (idem_run s c)"
  by (cases c) (auto simp: idem_run_def Let_def finish_ok(1) abandon_ok(1) dest: begin_ok split: prod.splits)

lemma begin_keeps:
  assumes "idem_ok s" and "idem_begin tie key fp now s = (s', r)"
    and "map_of (is_entries s) k = Some e" and "is_in_progress e"
  shows "map_of (is_entries s') k = Some e"
proof -
  have "begun key fp now s s' r" using begin_ok [OF assms(1,2)] by blast
  moreover have "map_of (is_entries (idem_expire now s)) k = Some e"
    using expire_ok(3) [OF assms(1)] assms(3,4) unfolding idem_sub_def by blast
  ultimately show ?thesis using assms(3,4) unfolding begun_def by (cases r) (simp_all del: split_paired_All)
qed

interpretation requests: held_while idem_ok idem_holder idem_run idem_ends
proof
  fix s :: "'v idem_store" and c
  assume ok: "idem_ok s"
  show "idem_ok (idem_run s c)" using idem_run_kept [OF ok] by (simp add: idem_kept_def)
  fix k h assume held: "idem_holder s k = Some h" and on: "\<not> idem_ends s c k h"
  obtain i fp where h: "h = (i, fp)" by (cases h)
  obtain e where e: "map_of (is_entries s) k = Some e" "is_in_progress e" "ie_id e = i" "ie_fingerprint e = fp"
    using held h by (auto simp: idem_holder_iff)
  have "map_of (is_entries (idem_run s c)) k = Some e"
  proof (cases c)
    case (I_Begin tie key fp now)
    then show ?thesis using begin_keeps [OF ok _ e(1,2)] by (auto simp: idem_run_def Let_def split: prod.splits)
  next
    case (I_Finish tie key j v bytes now)
    with finish_ok(3) [OF ok refl e(1,2), of key j] on h e(3) show ?thesis by (auto simp: idem_run_def)
  next
    case (I_Abandon key j)
    with abandon_ok(3) [OF ok e(1), of key j] on h e(3) show ?thesis by (auto simp: idem_run_def)
  qed
  with e h show "idem_holder (idem_run s c) k = Some h" by (simp add: idem_holder_def)
qed

lemma idem_new_ok: "idem_ok (idem_new ttl me mb)" "idem_capped (idem_new ttl me mb)"
  by (simp_all add: idem_new_def idem_ok_def idem_capped_def)

lemma idem_runs_kept: "idem_ok s \<Longrightarrow> idem_kept s (foldl idem_run s cs)"
proof (induction cs arbitrary: s)
  case (Cons c cs)
  have "idem_kept s (idem_run s c)" by (rule idem_run_kept [OF Cons.prems])
  moreover from this have "idem_kept (idem_run s c) (foldl idem_run (idem_run s c) cs)"
    by (intro Cons.IH) (simp add: idem_kept_def)
  ultimately show ?case unfolding idem_kept_def by (simp add: order_trans [of "is_next_id s"])
qed (simp add: idem_kept_def)

lemma idem_reach: "idem_ok (foldl idem_run (idem_new ttl me mb) cs)" "idem_capped (foldl idem_run (idem_new ttl me mb) cs)"
  "is_ttl (foldl idem_run (idem_new ttl me mb) cs) = ttl" "is_max_entries (foldl idem_run (idem_new ttl me mb) cs) = me"
  "is_max_bytes (foldl idem_run (idem_new ttl me mb) cs) = mb"
  using idem_runs_kept [OF idem_new_ok(1), of ttl me mb cs] idem_new_ok(2) [of ttl me mb]
  by (auto simp: idem_kept_def idem_new_def)


text \<open>
  The store stays within its caps, whatever requests begin, finish and are abandoned, in any
  order. There is one entry per key; the byte count is the sum of the recorded answers, so
  subtracting an expired answer never underflows; the answers fit the byte cap, and
  the entries fit the entry cap unless all of them are requests still running. Eviction drops
  no running request, and no answer while an older one stays.
\<close>

theorem idem_store_bounded:
  "let s = foldl idem_run (idem_new ttl max_entries max_bytes) (cmds :: 'v idem_cmd list) in
    distinct (map fst (is_entries s)) \<and>
    is_done_bytes s = sum_list (map (\<lambda>(_, e). entry_bytes e) (is_entries s)) \<and>
    sum_list (map (\<lambda>(_, e). entry_bytes e) (filter (\<lambda>(_, e). expired (is_ttl s) now e) (is_entries s))) \<le> is_done_bytes s \<and>
    is_done_bytes s \<le> max_bytes \<and>
    (length (is_entries s) \<le> max_entries \<or> list_all (\<lambda>(_, e). is_in_progress e) (is_entries s)) \<and>
    (\<forall>k e. map_of (is_entries s) k = Some e \<and> map_of (is_entries (idem_evict tie s)) k \<noteq> Some e \<longrightarrow>
       (\<exists>v b t. ie_state e = Idem_Done v b t \<and>
          (\<forall>k' e' v' b' t'. map_of (is_entries (idem_evict tie s)) k' = Some e' \<and> ie_state e' = Idem_Done v' b' t' \<longrightarrow> t \<le> t')))"
proof -
  define s where s: "s = foldl idem_run (idem_new ttl max_entries max_bytes) cmds"
  note r = idem_reach [of ttl max_entries max_bytes cmds, folded s]
  let ?P = "\<lambda>x. expired (is_ttl s) now (snd x)" and ?f = "\<lambda>x. entry_bytes (snd x)"
  have "sum_list (map ?f (filter ?P (is_entries s))) \<le> sum_list (map ?f (is_entries s))"
    using sum_filter_split [of ?f ?P "is_entries s"] by simp
  moreover have "\<exists>v b t. ie_state e = Idem_Done v b t \<and>
      (\<forall>k' e' v' b' t'. map_of (is_entries (idem_evict tie s)) k' = Some e' \<and> ie_state e' = Idem_Done v' b' t' \<longrightarrow> t \<le> t')"
    if k: "map_of (is_entries s) k = Some e" "map_of (is_entries (idem_evict tie s)) k \<noteq> Some e" for k e
  proof -
    have sub: "idem_sub s (idem_evict tie s)" using evict_ok [OF r(1)] by blast
    with k have "\<not> is_in_progress e" unfolding idem_sub_def by blast
    then obtain v b t where d: "ie_state e = Idem_Done v b t" by (cases "ie_state e") (auto simp: in_progress_iff)
    have "map_of (is_entries (idem_evict tie s)) k = None"
      using sub k unfolding idem_sub_def by (metis option.exhaust)
    with evict_oldest_first [OF r(1) k(1) d] d show ?thesis by blast
  qed
  ultimately show ?thesis
    using r unfolding Let_def s [symmetric] by (auto simp: idem_ok_def idem_capped_def list_all_iff case_prod_unfold)
qed

text \<open>
  C16. A request runs once while it runs. When a request with a key was told to run, then
  whatever other requests do, a repeat of it is told to wait for that very run, and another body
  under the same key is refused, until that run is finished or abandoned; a second run of the
  key starts only after one of these.
\<close>

theorem idem_at_most_once:
  assumes "idem_step (foldl idem_run (idem_new ttl me mb) before) (I_Begin tie key fp now) = (s1, Some (B_Run i))"
    and "idem_step (foldl idem_run s1 cmds) (I_Begin tie' key fp' now') = (s2, Some r)"
  shows "r = (if fp' = fp then B_Wait i else B_Mismatch) \<or>
    (\<exists>c \<in> set cmds. c = I_Abandon key i \<or> (\<exists>t v b n. c = I_Finish t key i v b n))"
proof -
  let ?s0 = "foldl idem_run (idem_new ttl me mb) before"
  have ok0: "idem_ok ?s0" by (rule idem_reach)
  have b1: "idem_begin tie key fp now ?s0 = (s1, B_Run i)" using assms(1) by (auto simp: Let_def split: prod.splits)
  note one = begin_ok [OF ok0 b1]
  have ok1: "idem_ok s1" using one by (simp add: idem_kept_def)
  have held: "idem_holder s1 key = Some (i, fp)" using one by (simp add: begun_def idem_holder_def in_progress_iff)
  show ?thesis
  proof (cases "idem_holder (foldl idem_run s1 cmds) key = Some (i, fp)")
    case True
    let ?s = "foldl idem_run s1 cmds"
    obtain e where e: "map_of (is_entries ?s) key = Some e" "is_in_progress e" "ie_id e = i" "ie_fingerprint e = fp"
      using True by (auto simp: idem_holder_iff)
    have "idem_ok ?s" using idem_runs_kept [OF ok1] by (simp add: idem_kept_def)
    then have "map_of (is_entries (idem_expire now' ?s)) key = Some e"
      using expire_ok(3) e(1,2) unfolding idem_sub_def by blast
    with assms(2) e show ?thesis by (auto simp: idem_begin_def Let_def in_progress_iff split: if_splits)
  next
    case False
    have "\<exists>c \<in> set cmds. c = I_Abandon key i \<or> (\<exists>t v b n. c = I_Finish t key i v b n)"
    proof (rule requests.ended_some [OF requests.lost_was_ended [OF ok1 held False]])
      fix db c assume "idem_ends db c key (i, fp)"
      then show "c = I_Abandon key i \<or> (\<exists>t v b n. c = I_Finish t key i v b n)" by (cases c) auto
    qed
    then show ?thesis by blast
  qed
qed

section \<open>A replayed answer\<close>

lemma idem_trace_snoc:
  "idem_trace s (cs @ [c]) = idem_trace s cs @ [(c, snd (idem_step (foldl idem_run s cs) c))]"
  by (induction cs arbitrary: s) simp_all

text \<open>Where an entry came from: the request that was told to run, and its recorded answer.\<close>

definition came_from :: "('v idem_cmd \<times> 'v idem_verdict option) list \<Rightarrow> idem_key \<Rightarrow> 'v idem_entry \<Rightarrow> bool" where
  "came_from tr k e \<longleftrightarrow>
     (\<exists>a tie now b. tr = a @ (I_Begin tie k (ie_fingerprint e) now, Some (B_Run (ie_id e))) # b \<and>
        (\<forall>v bytes t. ie_state e = Idem_Done v bytes t \<longrightarrow> (\<exists>tie'. (I_Finish tie' k (ie_id e) v bytes t, None) \<in> set b)))"

lemma came_from_snoc: "came_from tr k e \<Longrightarrow> came_from (tr @ [x]) k e"
  unfolding came_from_def by (elim exE conjE, rule exI, rule exI, rule exI, rule_tac x = "b @ [x]" in exI) auto

lemma entries_came_from:
  "map_of (is_entries (foldl idem_run (idem_new ttl me mb) cs)) k = Some e \<Longrightarrow> came_from (idem_trace (idem_new ttl me mb) cs) k e"
proof (induction cs arbitrary: k e rule: rev_induct)
  case Nil
  then show ?case by (simp add: idem_new_def)
next
  case (snoc c cs)
  let ?s = "foldl idem_run (idem_new ttl me mb) cs" and ?tr = "idem_trace (idem_new ttl me mb) cs"
  have ok: "idem_ok ?s" by (rule idem_reach)
  have old: "came_from (idem_trace (idem_new ttl me mb) (cs @ [c])) k e" if "map_of (is_entries ?s) k = Some e" for e
    unfolding idem_trace_snoc by (rule came_from_snoc [OF snoc.IH [OF that]])
  show ?case
  proof (cases c)
    case (I_Begin tie key fp now)
    obtain s' r where b: "idem_begin tie key fp now ?s = (s', r)" by (cases "idem_begin tie key fp now ?s")
    have s': "map_of (is_entries s') k = Some e" using snoc.prems I_Begin b by simp
    have bg: "begun key fp now ?s s' r" using begin_ok [OF ok b] by blast
    show ?thesis
    proof (cases "\<exists>i. r = B_Run i \<and> k = key")
      case True
      with bg s' have e: "e = \<lparr>ie_id = is_next_id ?s, ie_fingerprint = fp, ie_state = Idem_InProgress\<rparr>"
        and r: "r = B_Run (is_next_id ?s)" by (auto simp: begun_def)
      have "idem_trace (idem_new ttl me mb) (cs @ [c]) = ?tr @ [(I_Begin tie key fp now, Some (B_Run (is_next_id ?s)))]"
        using I_Begin b r by (simp add: idem_trace_snoc)
      then show ?thesis unfolding came_from_def e using True by auto
    next
      case False
      have idle: "s' = idem_expire now ?s \<Longrightarrow> map_of (is_entries ?s) k = Some e"
        using expire_ok(3) [OF ok, of now] s' unfolding idem_sub_def by blast
      have "map_of (is_entries ?s) k = Some e"
      proof (cases r)
        case (B_Run i)
        with False have "k \<noteq> key" by blast
        moreover have "\<forall>k e. k \<noteq> key \<longrightarrow> map_of (is_entries s') k = Some e \<longrightarrow> map_of (is_entries ?s) k = Some e"
          using bg unfolding begun_def B_Run idem_verdict.case by (elim conjE)
        ultimately show ?thesis using s' by blast
      qed (use bg idle in \<open>auto simp: begun_def\<close>)
      then show ?thesis by (rule old)
    qed
  next
    case (I_Finish tie key i v bytes now)
    have "map_of (is_entries (idem_finish tie key i v bytes now ?s)) k = Some e"
      using snoc.prems I_Finish by simp
    from finish_ok(2) [OF ok refl this] consider "map_of (is_entries ?s) k = Some e"
      | (answered) e0 where "k = key" "map_of (is_entries ?s) k = Some e0" "ie_id e0 = i" "is_in_progress e0"
          "e = e0\<lparr>ie_state := Idem_Done v bytes now\<rparr>" by blast
    then show ?thesis
    proof cases
      case answered
      from snoc.IH [OF answered(2)] obtain a tie0 t0 b where
        tr: "?tr = a @ (I_Begin tie0 k (ie_fingerprint e0) t0, Some (B_Run (ie_id e0))) # b"
        unfolding came_from_def by blast
      have "idem_trace (idem_new ttl me mb) (cs @ [c]) =
          a @ (I_Begin tie0 k (ie_fingerprint e) t0, Some (B_Run (ie_id e))) # (b @ [(I_Finish tie k i v bytes now, None)])"
        using tr answered I_Finish by (simp add: idem_trace_snoc)
      then show ?thesis unfolding came_from_def using answered by fastforce
    qed (rule old)
  next
    case (I_Abandon key i)
    have "map_of (is_entries (idem_abandon key i ?s)) k = Some e"
      using snoc.prems I_Abandon by simp
    then show ?thesis by (rule old [OF abandon_ok(2) [OF ok]])
  qed
qed

text \<open>
  C17. A replayed answer is that request's own. A request answered from the store gets the value
  that was recorded, less than the time to live ago, by the run that was started for the same key
  (the caller's token hash and its request id) and the same body's fingerprint; no request gets the
  answer of another caller's key or of a body with another fingerprint.
\<close>

theorem idem_replay_own_answer:
  assumes "idem_step (foldl idem_run (idem_new ttl me mb) cmds) (I_Begin tie key fp now) = (s', Some (B_Replay v))"
  shows "\<exists>a tie0 t0 i b tie1 bytes t1.
    idem_trace (idem_new ttl me mb) cmds = a @ (I_Begin tie0 key fp t0, Some (B_Run i)) # b \<and>
    (I_Finish tie1 key i v bytes t1, None) \<in> set b \<and> now - t1 < ttl"
proof -
  let ?s = "foldl idem_run (idem_new ttl me mb) cmds"
  have ok: "idem_ok ?s" by (rule idem_reach)
  from assms obtain e bytes t1 where e: "map_of (is_entries (idem_expire now ?s)) key = Some e" "ie_fingerprint e = fp"
    "ie_state e = Idem_Done v bytes t1"
    by (auto simp: idem_begin_def Let_def split: option.splits if_splits idem_state.splits)
  have "map_of (is_entries ?s) key = Some e" using expire_ok(3) [OF ok] e(1) unfolding idem_sub_def by blast
  from entries_came_from [OF this] e(2,3) obtain a tie0 t0 b tie1 where
    "idem_trace (idem_new ttl me mb) cmds = a @ (I_Begin tie0 key fp t0, Some (B_Run (ie_id e))) # b"
    "(I_Finish tie1 key (ie_id e) v bytes t1, None) \<in> set b"
    unfolding came_from_def by blast
  moreover have "\<not> expired (is_ttl ?s) now e"
    using e(1) by (auto simp: expire_entries dest!: map_of_SomeD)
  then have "now - t1 < ttl" using e(3) idem_reach(3) [of ttl me mb cmds] by (simp add: expired_def)
  ultimately show ?thesis by blast
qed

text \<open>One request, asked three times: run, wait, replay.\<close>

definition idem_example :: "nat idem_cmd list" where
  "idem_example = [I_Begin (\<lambda>_. 0) (''caller'', ''k'') 5 0, I_Begin (\<lambda>_. 0) (''caller'', ''k'') 5 1,
     I_Finish (\<lambda>_. 0) (''caller'', ''k'') 0 42 3 2]"

theorem idem_replay_own_answer_witness:
  "snd (idem_step (foldl idem_run (idem_new 10 4 100) idem_example) (I_Begin (\<lambda>_. 0) (''caller'', ''k'') 5 9)) =
     Some (B_Replay (42 :: nat)) \<and>
   (\<exists>a tie0 t0 i b tie1 bytes t1.
      idem_trace (idem_new 10 4 100) idem_example = a @ (I_Begin tie0 (''caller'', ''k'') 5 t0, Some (B_Run i)) # b \<and>
      (I_Finish tie1 (''caller'', ''k'') i (42 :: nat) bytes t1, None) \<in> set b \<and> 9 - t1 < 10)"
proof -
  have "snd (idem_step (foldl idem_run (idem_new 10 4 100) idem_example) (I_Begin (\<lambda>_. 0) (''caller'', ''k'') 5 9)) =
     Some (B_Replay (42 :: nat))" by code_simp
  then obtain s' where s: "idem_step (foldl idem_run (idem_new 10 4 100) idem_example) (I_Begin (\<lambda>_. 0) (''caller'', ''k'') 5 9) =
     (s', Some (B_Replay (42 :: nat)))" by (metis prod.collapse)
  from idem_replay_own_answer [OF s] s show ?thesis by simp
qed

theorem idem_at_most_once_witness:
  "\<exists>s1 s2. idem_step (idem_new 10 4 100) (I_Begin (\<lambda>_. 0) (''caller'', ''k'') 5 0) = (s1, Some (B_Run 0)) \<and>
     idem_step s1 (I_Begin (\<lambda>_. 0) (''caller'', ''k'') 5 1) = (s2, Some (B_Wait 0 :: nat idem_verdict))"
proof -
  let ?b = "I_Begin (\<lambda>_. 0) (''caller'', ''k'') 5" and ?s = "idem_new 10 4 100 :: nat idem_store"
  have "snd (idem_step ?s (?b 0)) = Some (B_Run 0)" by code_simp
  then obtain s1 where s1: "idem_step ?s (?b 0) = (s1, Some (B_Run 0))" by (metis prod.collapse)
  obtain s2 r where s2: "idem_step s1 (?b 1) = (s2, Some r)" by (cases "idem_begin (\<lambda>_. 0) (''caller'', ''k'') 5 1 s1") simp
  from idem_at_most_once [of 10 4 100 "[]" _ _ _ _ s1 0 "[]"] s1 s2 have "r = B_Wait 0" by fastforce
  with s1 s2 show ?thesis by blast
qed

end
