(* ===== verification/Core_Notify.thy ===== *)
theory Core_Notify
  imports Fsm_Check Mq_Model Types_Agent Core_Changelog Core_Text
begin

text \<open>
  The permission notification of a session, \<open>crates/jkb-core/src/notify.rs\<close>: the machine, the
  record of each session, and the operations that run the machine against the record and put what
  the screen should show on the queue's topic \<open>claude/notify\<close>, in one transaction.

  The state is the queue's tables (\<open>Mq_Model\<close>) and the rows of \<open>notify_sessions\<close>, one a session.
  A payload is a JSON value; the JSON library is the pair of functions the queue takes.
\<close>

section \<open>States, events, effects\<close>

datatype notif_state = N_Absent | N_AwaitingTool | N_AwaitingUser

definition notif_state_ALL :: "notif_state list" where
  "notif_state_ALL = [N_Absent, N_AwaitingTool, N_AwaitingUser]"

fun notif_state_as_str :: "notif_state \<Rightarrow> string" where
  "notif_state_as_str N_Absent = ''absent''"
| "notif_state_as_str N_AwaitingTool = ''awaiting_tool''"
| "notif_state_as_str N_AwaitingUser = ''awaiting_user''"

definition notif_is_settled :: "notif_state \<Rightarrow> bool" where
  "notif_is_settled s \<longleftrightarrow> s = N_Absent"

definition notif_state_trait :: "notif_state state_trait" where
  "notif_state_trait =
     \<lparr>st_all = notif_state_ALL, st_name = notif_state_as_str, st_noun = ''a notification'',
      st_settled = notif_is_settled, st_awaits = (\<lambda>_. False)\<rparr>"

datatype notif_event = N_Needed | N_ToolFinished | N_UserActed | N_TurnEnded | N_SessionEnded | N_SessionGone

definition notif_event_ALL :: "notif_event list" where
  "notif_event_ALL = [N_Needed, N_ToolFinished, N_UserActed, N_TurnEnded, N_SessionEnded, N_SessionGone]"

fun notif_event_name :: "notif_event \<Rightarrow> string" where
  "notif_event_name N_Needed = ''needed''"
| "notif_event_name N_ToolFinished = ''tool_finished''"
| "notif_event_name N_UserActed = ''user_acted''"
| "notif_event_name N_TurnEnded = ''turn_ended''"
| "notif_event_name N_SessionEnded = ''session_ended''"
| "notif_event_name N_SessionGone = ''session_gone''"

definition notif_event_kind :: "notif_event \<Rightarrow> event_kind" where
  "notif_event_kind e = (case e of N_SessionGone \<Rightarrow> Reconciled | _ \<Rightarrow> Applied)"

definition notif_event_trait :: "notif_event event_trait" where
  "notif_event_trait = \<lparr>ev_all = notif_event_ALL, ev_name = notif_event_name, ev_kind = notif_event_kind\<rparr>"

datatype notif_effect = N_Post | N_Withdraw | N_Remember | N_Forget

fun notif_effect_as_str :: "notif_effect \<Rightarrow> string" where
  "notif_effect_as_str N_Post = ''post''"
| "notif_effect_as_str N_Withdraw = ''withdraw''"
| "notif_effect_as_str N_Remember = ''remember''"
| "notif_effect_as_str N_Forget = ''forget''"

definition touches_screen :: "notif_effect \<Rightarrow> bool" where
  "touches_screen e = (case e of N_Post \<Rightarrow> True | N_Withdraw \<Rightarrow> True | _ \<Rightarrow> False)"

section \<open>The machine\<close>

record notif_ctx =
  nc_at :: notif_state
  nc_tool_named :: bool
  nc_tool_matches :: fact
  nc_session_alive :: fact

definition notif_domain :: "(notif_state, notif_event, notif_ctx) fsm_domain" where
  "notif_domain = \<lparr>dom_states = notif_state_trait, dom_events = notif_event_trait, dom_state_of = nc_at\<rparr>"

definition POSTED :: "notif_state list" where "POSTED = [N_AwaitingTool, N_AwaitingUser]"

definition needed_dest :: "notif_ctx \<Rightarrow> notif_state option" where
  "needed_dest c = Some (if nc_tool_named c then N_AwaitingTool else N_AwaitingUser)"

definition needed_plan :: "notif_ctx \<Rightarrow> notif_effect list" where "needed_plan c = [N_Post, N_Remember]"

definition clear_plan :: "notif_ctx \<Rightarrow> notif_effect list" where "clear_plan c = [N_Withdraw, N_Forget]"

definition sweep_plan :: "notif_ctx \<Rightarrow> notif_effect list" where "sweep_plan c = [N_Withdraw]"

definition tool_matches_guard :: "notif_ctx \<Rightarrow> notif_event verdict" where
  "tool_matches_guard c =
     require_yes (nc_tool_matches c) (denial_new ''a different tool finished; this prompt is still waiting.'')"

definition session_gone_guard :: "notif_ctx \<Rightarrow> notif_event verdict" where
  "session_gone_guard c =
     require_no (nc_session_alive c) (denial_new ''the session that posted this may still be alive.'')"

type_synonym notif_row = "(notif_state, notif_event, notif_ctx, notif_effect) transition"

definition notif_ROWS :: "notif_row list" where
  "notif_ROWS =
     [row N_Absent N_Needed (Stated needed_dest POSTED) None (Some needed_plan),
      row N_AwaitingTool N_Needed (Stated needed_dest POSTED) None (Some needed_plan),
      row N_AwaitingUser N_Needed (Stated needed_dest POSTED) None (Some needed_plan),
      row N_AwaitingTool N_ToolFinished (To N_Absent) (Some tool_matches_guard) (Some clear_plan),
      row N_AwaitingTool N_UserActed (To N_Absent) None (Some clear_plan),
      row N_AwaitingUser N_UserActed (To N_Absent) None (Some clear_plan),
      row N_AwaitingTool N_TurnEnded (To N_Absent) None (Some clear_plan),
      row N_AwaitingUser N_TurnEnded (To N_Absent) None (Some clear_plan),
      row N_AwaitingTool N_SessionEnded (To N_Absent) None (Some clear_plan),
      row N_AwaitingUser N_SessionEnded (To N_Absent) None (Some clear_plan),
      row N_Absent N_TurnEnded (To N_Absent) None (Some sweep_plan),
      row N_Absent N_SessionEnded (To N_Absent) None (Some sweep_plan),
      row N_Absent N_ToolFinished (To N_Absent) None None,
      row N_Absent N_UserActed (To N_Absent) None None,
      row N_AwaitingTool N_SessionGone (To N_Absent) (Some session_gone_guard) (Some clear_plan),
      row N_AwaitingUser N_SessionGone (To N_Absent) (Some session_gone_guard) (Some clear_plan)]"

definition notif_machine :: "(notif_state, notif_event, notif_ctx, notif_effect) machine" where
  "notif_machine = \<lparr>transitions = notif_ROWS, initial = N_Absent\<rparr>"

section \<open>Text\<close>

definition notify_TOPIC :: string where "notify_TOPIC = ''claude/notify''"

definition POST_TTL_MS :: int where "POST_TTL_MS = 12 * 60 * 60 * 1000"

definition KIND_POST :: string where "KIND_POST = ''notify.post''"

definition KIND_WITHDRAW :: string where "KIND_WITHDRAW = ''notify.withdraw''"

definition MAX_BODY_CHARS :: nat where "MAX_BODY_CHARS = 1000"

definition TITLE :: string where "TITLE = ''Claude Code''"

definition MAX_INSTANCE_BYTES :: nat where "MAX_INSTANCE_BYTES = 150"

definition MAX_OWNER_BYTES :: nat where "MAX_OWNER_BYTES = 20"

definition first_chars :: "nat \<Rightarrow> string \<Rightarrow> string" where
  "first_chars n s = concat (take n (utf8_units s))"

definition has_control :: "string \<Rightarrow> bool" where
  "has_control s \<longleftrightarrow> list_ex (\<lambda>u. is_control (code_point u)) (utf8_units s)"

definition sanitize :: "string \<Rightarrow> string" where
  "sanitize sess =
     concat (map (\<lambda>u. case u of [b] \<Rightarrow> if is_session_id_byte b then u else ''_'' | _ \<Rightarrow> ''_'') (utf8_units sess))"

definition session_notification_id :: "string \<Rightarrow> string" where
  "session_notification_id sess = ''jkb-claude-'' @ sess"

text \<open>\<open>str::split_once\<close>: what is before and after the first occurrence.\<close>

fun split_once_str :: "string \<Rightarrow> string \<Rightarrow> (string \<times> string) option" where
  "split_once_str sep [] = (if sep = [] then Some ([], []) else None)"
| "split_once_str sep (c # cs) =
     (if take (length sep) (c # cs) = sep then Some ([], drop (length sep) (c # cs))
      else map_option (\<lambda>(a, b). (c # a, b)) (split_once_str sep cs))"

definition is_tool_char :: "char \<Rightarrow> bool" where
  "is_tool_char c \<longleftrightarrow>
     (let n = of_char c :: nat in
        (48 \<le> n \<and> n \<le> 57) \<or> (65 \<le> n \<and> n \<le> 90) \<or> (97 \<le> n \<and> n \<le> 122)) \<or> c \<in> set ''_-''"

definition tool_in :: "string \<Rightarrow> string option" where
  "tool_in message =
     (case split_once_str ''permission to use '' message of
        None \<Rightarrow> None
      | Some (_, after) \<Rightarrow>
          let rest = (case split_once_str ''permission to use '' after of None \<Rightarrow> after | Some (x, _) \<Rightarrow> x);
              name = takeWhile is_tool_char rest
          in if name \<noteq> [] then Some name else None)"

definition notify_invalid :: "string \<Rightarrow> string \<Rightarrow> core_error" where
  "notify_invalid what why = Queue (Invalid what why)"

definition check_session :: "string \<Rightarrow> unit core_result" where
  "check_session sess =
     (if \<not> is_session_id sess
      then Inl (notify_invalid ''session'' (debug_str sess @ '' is not 1..='' @ nat_str MAX_SESSION_ID_BYTES @
             '' bytes of [A-Za-z0-9_-]''))
      else Inr ())"

definition check_owner_and_instance :: "string \<Rightarrow> string \<Rightarrow> unit core_result" where
  "check_owner_and_instance owner instnc =
     (if length owner > MAX_OWNER_BYTES \<or> \<not> list_all is_digit owner
      then Inl (notify_invalid ''owner'' (debug_str owner @ '' is not a pid''))
      else if owner \<noteq> [] \<and> instnc = []
      then Inl (notify_invalid ''instance'' ''a pid needs the instance it belongs to'')
      else if length instnc > MAX_INSTANCE_BYTES \<or> has_control instnc
      then Inl (notify_invalid ''instance'' (''must be at most '' @ nat_str MAX_INSTANCE_BYTES @
             '' bytes with no control characters''))
      else Inr ())"

section \<open>The record\<close>

record observation =
  ob_session :: string
  ob_event :: notif_event
  ob_finished_tool :: string
  ob_message :: string
  ob_cwd :: string
  ob_owner :: string
  ob_instance :: string

record applied =
  ap_state :: notif_state
  ap_moved :: bool
  ap_effects :: "notif_effect list"
  ap_refusal :: "string option"
  ap_sent :: nat

record session_record =
  sr_session :: string
  sr_tool :: string
  sr_owner :: string
  sr_instance :: string
  sr_updated_at :: int

record notify_db =
  nt_mq :: mq_db
  nt_sessions :: "session_record list"

definition session_row :: "notify_db \<Rightarrow> string \<Rightarrow> session_record option" where
  "session_row db sess = List.find (\<lambda>r. sr_session r = sess) (nt_sessions db)"

definition state_of :: "session_record option \<Rightarrow> notif_state" where
  "state_of rec =
     (case rec of None \<Rightarrow> N_Absent | Some r \<Rightarrow> if sr_tool r = [] then N_AwaitingUser else N_AwaitingTool)"

record target =
  tg_session :: string
  tg_tool :: string
  tg_subtitle :: string
  tg_body :: string
  tg_owner :: string
  tg_instance :: string

definition put_session :: "session_record \<Rightarrow> session_record list \<Rightarrow> session_record list" where
  "put_session r rs =
     (if \<exists>x \<in> set rs. sr_session x = sr_session r
      then map (\<lambda>x. if sr_session x = sr_session r then r else x) rs else rs @ [r])"

section \<open>Carrying out a plan\<close>

definition notify_send ::
  "(json \<Rightarrow> (string, string) result) \<Rightarrow> (string \<Rightarrow> (string, json) result) \<Rightarrow> notify_db \<Rightarrow> target \<Rightarrow> string
     \<Rightarrow> json \<Rightarrow> int option \<Rightarrow> int \<Rightarrow> notify_db core_result" where
  "notify_send to_json from_json db target kind payload ttl_ms now =
     result_bind (send to_json from_json (nt_mq db) notify_TOPIC
         \<lparr>dr_key = ''session/'' @ tg_session target, dr_kind = kind, dr_payload = payload, dr_ttl_ms = ttl_ms,
          dr_producer = ''notify@'' @ tg_instance target\<rparr> now)
       (\<lambda>(mq, _). Inr (db\<lparr>nt_mq := mq\<rparr>))"

definition notify_effect ::
  "(json \<Rightarrow> (string, string) result) \<Rightarrow> (string \<Rightarrow> (string, json) result) \<Rightarrow> target \<Rightarrow> bool \<Rightarrow> int
     \<Rightarrow> notif_effect \<Rightarrow> notify_db \<times> nat \<Rightarrow> (notify_db \<times> nat) core_result" where
  "notify_effect to_json from_json target heard now effect = (\<lambda>(db, sent).
     (let nid = session_notification_id (tg_session target) in
      case effect of
        N_Post \<Rightarrow>
          if \<not> heard then Inr (db, sent)
          else result_bind (notify_send to_json from_json db target KIND_POST
              (JObj [(''body'', JStr (tg_body target)), (''id'', JStr nid), (''session'', JStr (tg_session target)),
                     (''subtitle'', JStr (tg_subtitle target)), (''title'', JStr TITLE)]) (Some POST_TTL_MS) now)
            (\<lambda>db'. Inr (db', sent + 1))
      | N_Withdraw \<Rightarrow>
          if \<not> heard then Inr (db, sent)
          else result_bind (notify_send to_json from_json db target KIND_WITHDRAW
              (JObj [(''id'', JStr nid), (''session'', JStr (tg_session target))]) None now)
            (\<lambda>db'. Inr (db', sent + 1))
      | N_Remember \<Rightarrow>
          Inr (db\<lparr>nt_sessions := put_session
            \<lparr>sr_session = tg_session target, sr_tool = tg_tool target, sr_owner = tg_owner target,
             sr_instance = tg_instance target, sr_updated_at = now\<rparr> (nt_sessions db)\<rparr>, sent)
      | N_Forget \<Rightarrow>
          Inr (db\<lparr>nt_sessions := filter (\<lambda>r. sr_session r \<noteq> tg_session target) (nt_sessions db)\<rparr>, sent)))"

fun notify_effects ::
  "(json \<Rightarrow> (string, string) result) \<Rightarrow> (string \<Rightarrow> (string, json) result) \<Rightarrow> target \<Rightarrow> bool \<Rightarrow> int
     \<Rightarrow> notif_effect list \<Rightarrow> notify_db \<times> nat \<Rightarrow> (notify_db \<times> nat) core_result" where
  "notify_effects to_json from_json target heard now [] st = Inr st"
| "notify_effects to_json from_json target heard now (e # es) st =
     result_bind (notify_effect to_json from_json target heard now e st)
       (notify_effects to_json from_json target heard now es)"

definition notify_perform ::
  "(json \<Rightarrow> (string, string) result) \<Rightarrow> (string \<Rightarrow> (string, json) result) \<Rightarrow> notify_db \<Rightarrow> target
     \<Rightarrow> notif_effect list \<Rightarrow> int \<Rightarrow> (notify_db \<times> nat) core_result" where
  "notify_perform to_json from_json db target effects now =
     result_bind (if list_ex touches_screen effects
         then result_bind (group_count (nt_mq db) notify_TOPIC) (\<lambda>n. Inr (n > 0)) else Inr False)
       (\<lambda>heard. notify_effects to_json from_json target heard now effects (db, 0))"

section \<open>The operations\<close>

definition outcome_to_applied :: "(notif_state, notif_event, notif_effect) outcome \<Rightarrow> nat \<Rightarrow> applied" where
  "outcome_to_applied out sent =
     \<lparr>ap_state = outcome_state out, ap_moved = outcome_moved out, ap_effects = outcome_effects out,
      ap_refusal = outcome_refusal notif_domain out, ap_sent = sent\<rparr>"

definition observe_ctx :: "session_record option \<Rightarrow> observation \<Rightarrow> notif_ctx" where
  "observe_ctx rec obs =
     \<lparr>nc_at = state_of rec, nc_tool_named = (tool_in (ob_message obs) \<noteq> None),
      nc_tool_matches = (case rec of
        Some r \<Rightarrow> if sr_tool r \<noteq> [] \<and> ob_finished_tool obs \<noteq> []
                   then fact_from (sr_tool r = ob_finished_tool obs) else Unknown
      | None \<Rightarrow> Unknown),
      nc_session_alive = Unknown\<rparr>"

definition observe_target :: "observation \<Rightarrow> target" where
  "observe_target obs =
     \<lparr>tg_session = ob_session obs, tg_tool = (case tool_in (ob_message obs) of Some t \<Rightarrow> t | None \<Rightarrow> []),
      tg_subtitle = last (split_on (CHR ''/'') (ob_cwd obs)), tg_body = first_chars MAX_BODY_CHARS (ob_message obs),
      tg_owner = ob_owner obs, tg_instance = ob_instance obs\<rparr>"

definition notify_observe ::
  "(json \<Rightarrow> (string, string) result) \<Rightarrow> (string \<Rightarrow> (string, json) result) \<Rightarrow> notify_db \<Rightarrow> observation \<Rightarrow> int
     \<Rightarrow> (notify_db \<times> applied) core_result" where
  "notify_observe to_json from_json db obs now =
     result_bind (check_session (ob_session obs)) (\<lambda>_.
     result_bind (check_owner_and_instance (ob_owner obs) (ob_instance obs)) (\<lambda>_.
       if ob_event obs = N_SessionGone
       then Inl (notify_invalid ''event'' ''session_gone is asserted by notify.gone, with the owner it probed'')
       else
         let ctx = observe_ctx (session_row db (ob_session obs)) obs;
             out = machine_apply notif_domain notif_machine ctx (ob_event obs)
         in result_bind (notify_perform to_json from_json db (observe_target obs) (outcome_effects out) now)
              (\<lambda>(db', sent). Inr (db', outcome_to_applied out sent))))"

definition open_sessions :: "notify_db \<Rightarrow> session_record list" where
  "open_sessions db = sort_key (\<lambda>r. map (of_char :: char \<Rightarrow> nat) (sr_session r)) (nt_sessions db)"

definition gone_ctx :: "session_record \<Rightarrow> string \<Rightarrow> notif_ctx" where
  "gone_ctx r owner =
     \<lparr>nc_at = state_of (Some r), nc_tool_named = (sr_tool r \<noteq> []), nc_tool_matches = Unknown,
      nc_session_alive = (if owner \<noteq> [] then No else Unknown)\<rparr>"

definition notify_gone ::
  "(json \<Rightarrow> (string, string) result) \<Rightarrow> (string \<Rightarrow> (string, json) result) \<Rightarrow> notify_db \<Rightarrow> string \<Rightarrow> string
     \<Rightarrow> string \<Rightarrow> int \<Rightarrow> (notify_db \<times> applied) core_result" where
  "notify_gone to_json from_json db sess owner instnc now =
     result_bind (check_session sess) (\<lambda>_.
     result_bind (check_owner_and_instance owner instnc) (\<lambda>_.
       let rec = session_row db sess;
           still = (case rec of Some r \<Rightarrow> if sr_owner r = owner \<and> sr_instance r = instnc then Some r else None | None \<Rightarrow> None)
       in case still of
            None \<Rightarrow> Inr (db, \<lparr>ap_state = state_of rec, ap_moved = False, ap_effects = [],
              ap_refusal = Some ''the record changed since it was probed, or is gone.'', ap_sent = 0\<rparr>)
          | Some r \<Rightarrow>
              let out = machine_apply notif_domain notif_machine (gone_ctx r owner) N_SessionGone;
                  target = \<lparr>tg_session = sess, tg_tool = sr_tool r, tg_subtitle = [], tg_body = [],
                    tg_owner = owner, tg_instance = sr_instance r\<rparr>
              in result_bind (notify_perform to_json from_json db target (outcome_effects out) now)
                   (\<lambda>(db', sent). Inr (db', outcome_to_applied out sent))))"

section \<open>Producers outside the machine\<close>

definition heard :: "mq_db \<Rightarrow> bool core_result" where
  "heard mq =
     (case group_count mq notify_TOPIC of
        Inr n \<Rightarrow> Inr (n > 0)
      | Inl (Queue (NoSuchTopic _)) \<Rightarrow> Inr False
      | Inl e \<Rightarrow> Inl e)"

definition sent_softly :: "mq_db \<Rightarrow> (mq_db \<times> int) core_result \<Rightarrow> (mq_db \<times> bool) core_result" where
  "sent_softly mq sent =
     (case sent of
        Inr (mq', _) \<Rightarrow> Inr (mq', True)
      | Inl (Queue (QueueFull _ _ _)) \<Rightarrow> Inr (mq, False)
      | Inl (Queue (TooLarge _ _ _)) \<Rightarrow> Inr (mq, False)
      | Inl e \<Rightarrow> Inl e)"

definition post_direct ::
  "(json \<Rightarrow> (string, string) result) \<Rightarrow> (string \<Rightarrow> (string, json) result) \<Rightarrow> mq_db \<Rightarrow> string \<Rightarrow> string \<Rightarrow> string
     \<Rightarrow> string \<Rightarrow> int \<Rightarrow> (mq_db \<times> bool) core_result" where
  "post_direct to_json from_json mq nid sess subtitle body now =
     result_bind (heard mq) (\<lambda>h.
       if \<not> h then Inr (mq, False)
       else sent_softly mq (send to_json from_json mq notify_TOPIC
         \<lparr>dr_key = ''notification/'' @ nid, dr_kind = KIND_POST,
          dr_payload = JObj [(''body'', JStr (first_chars MAX_BODY_CHARS body)), (''id'', JStr nid), (''session'', JStr sess),
            (''subtitle'', JStr subtitle), (''title'', JStr TITLE)],
          dr_ttl_ms = Some POST_TTL_MS, dr_producer = ''jkb''\<rparr> now))"

definition withdraw_direct ::
  "(json \<Rightarrow> (string, string) result) \<Rightarrow> (string \<Rightarrow> (string, json) result) \<Rightarrow> mq_db \<Rightarrow> string \<Rightarrow> string
     \<Rightarrow> int \<Rightarrow> (mq_db \<times> bool) core_result" where
  "withdraw_direct to_json from_json mq nid sess now =
     result_bind (heard mq) (\<lambda>h.
       if \<not> h then Inr (mq, False)
       else sent_softly mq (send to_json from_json mq notify_TOPIC
         \<lparr>dr_key = ''notification/'' @ nid, dr_kind = KIND_WITHDRAW,
          dr_payload = JObj [(''id'', JStr nid), (''session'', JStr sess)], dr_ttl_ms = None,
          dr_producer = ''jkb''\<rparr> now))"

section \<open>The machine is sound\<close>

lemma notif_domain_simps [simp]:
  "dom_states notif_domain = notif_state_trait" "dom_events notif_domain = notif_event_trait"
  "dom_state_of notif_domain = nc_at"
  by (simp_all add: notif_domain_def)

lemma notif_trait_simps [simp]:
  "st_all notif_state_trait = notif_state_ALL" "st_name notif_state_trait = notif_state_as_str"
  "st_settled notif_state_trait = notif_is_settled" "ev_all notif_event_trait = notif_event_ALL"
  "ev_name notif_event_trait = notif_event_name" "ev_kind notif_event_trait = notif_event_kind"
  by (simp_all add: notif_state_trait_def notif_event_trait_def)

interpretation notif_state_enum: stored_enum notif_state_ALL notif_state_as_str
proof
  show "set notif_state_ALL = UNIV"
    by (rule UNIV_eq_I [symmetric]) (rename_tac x, case_tac x, simp_all add: notif_state_ALL_def)
qed (simp add: notif_state_ALL_def)

interpretation notif_event_enum: stored_enum notif_event_ALL notif_event_name
proof
  show "set notif_event_ALL = UNIV"
    by (rule UNIV_eq_I [symmetric]) (rename_tac x, case_tac x, simp_all add: notif_event_ALL_def)
qed (simp add: notif_event_ALL_def)

lemma notif_check_clean: "machine_check notif_domain notif_machine = []"
  by code_simp

interpretation notifications: checked_machine notif_domain notif_machine
proof
  show "inj (state_name notif_domain)" "inj (event_name notif_domain)"
    by (simp_all add: notif_state_enum.as_str_inj notif_event_enum.as_str_inj)
qed (simp_all add: notif_state_enum.complete notif_event_enum.complete notif_check_clean)

text \<open>What applying an event to a notification does, by state and event.\<close>

definition notif_result :: "notif_ctx \<Rightarrow> notif_event \<Rightarrow> (notif_state \<times> notif_effect list) option" where
  "notif_result c e =
     (case (nc_at c, e) of
        (_, N_Needed) \<Rightarrow> Some (if nc_tool_named c then N_AwaitingTool else N_AwaitingUser, [N_Post, N_Remember])
      | (N_Absent, N_TurnEnded) \<Rightarrow> Some (N_Absent, [N_Withdraw])
      | (N_Absent, N_SessionEnded) \<Rightarrow> Some (N_Absent, [N_Withdraw])
      | (N_Absent, N_SessionGone) \<Rightarrow> None
      | (N_Absent, _) \<Rightarrow> Some (N_Absent, [])
      | (N_AwaitingUser, N_ToolFinished) \<Rightarrow> None
      | (_, N_ToolFinished) \<Rightarrow> if nc_tool_matches c = Yes then Some (N_Absent, [N_Withdraw, N_Forget]) else None
      | (_, N_SessionGone) \<Rightarrow> if nc_session_alive c = No then Some (N_Absent, [N_Withdraw, N_Forget]) else None
      | _ \<Rightarrow> Some (N_Absent, [N_Withdraw, N_Forget]))"

lemma notif_apply:
  "case notif_result c e of
     Some (to, fx) \<Rightarrow> machine_apply notif_domain notif_machine c e = Moved (nc_at c) e to fx
   | None \<Rightarrow> outcome_moved (machine_apply notif_domain notif_machine c e) = False \<and>
       outcome_state (machine_apply notif_domain notif_machine c e) = nc_at c \<and>
       outcome_effects (machine_apply notif_domain notif_machine c e) = []"
  by (cases "nc_at c"; cases e;
      simp add: machine_apply_def machine_row_def notif_machine_def notif_ROWS_def notif_result_def needed_dest_def
        POSTED_def run_guard_def run_plan_def needed_plan_def clear_plan_def sweep_plan_def tool_matches_guard_def
        session_gone_guard_def require_yes_def require_no_def is_yes_def is_no_def split: acceptance.splits fact.splits)

text \<open>
  The notification's machine is sound, and its plans keep screen and record together. The table
  passes every check of the crate: each state is reachable, a posted notification can always come
  down, no two rows compete, the one reconciled event is guarded. A move that puts the notification up
  posts it and remembers it; one that takes it down withdraws and forgets it; and every plan changes
  the screen before the record.
\<close>

theorem notif_machine_sound:
  "machine_check notif_domain notif_machine = [] \<and>
   (case machine_apply notif_domain notif_machine c e of
      Moved fr _ to fx \<Rightarrow>
        (N_Post \<in> set fx) = (to \<in> set POSTED) \<and> (N_Remember \<in> set fx) = (to \<in> set POSTED) \<and>
        (N_Forget \<in> set fx) = (fr \<in> set POSTED \<and> to = N_Absent) \<and>
        (N_Forget \<in> set fx \<longrightarrow> N_Withdraw \<in> set fx) \<and>
        fx = filter touches_screen fx @ filter (\<lambda>x. \<not> touches_screen x) fx
    | _ \<Rightarrow> True)"
proof -
  have "case notif_result c e of None \<Rightarrow> True | Some (to, fx) \<Rightarrow>
      (N_Post \<in> set fx) = (to \<in> set POSTED) \<and> (N_Remember \<in> set fx) = (to \<in> set POSTED) \<and>
      (N_Forget \<in> set fx) = (nc_at c \<in> set POSTED \<and> to = N_Absent) \<and>
      (N_Forget \<in> set fx \<longrightarrow> N_Withdraw \<in> set fx) \<and>
      fx = filter touches_screen fx @ filter (\<lambda>x. \<not> touches_screen x) fx"
    by (cases "nc_at c"; cases e; simp add: notif_result_def POSTED_def touches_screen_def)
  with notif_apply [of c e] notif_check_clean show ?thesis
    by (cases "notif_result c e") (auto split: outcome.splits)
qed

theorem notif_machine_sound_witness:
  "machine_apply notif_domain notif_machine
     \<lparr>nc_at = N_AwaitingTool, nc_tool_named = False, nc_tool_matches = Yes, nc_session_alive = Unknown\<rparr> N_ToolFinished =
     Moved N_AwaitingTool N_ToolFinished N_Absent [N_Withdraw, N_Forget] \<and>
   [N_Withdraw, N_Forget] = filter touches_screen [N_Withdraw, N_Forget] @ [N_Forget]"
  using notif_machine_sound [of "\<lparr>nc_at = N_AwaitingTool, nc_tool_named = False, nc_tool_matches = Yes, nc_session_alive = Unknown\<rparr>"
      N_ToolFinished]
    notif_apply [of "\<lparr>nc_at = N_AwaitingTool, nc_tool_named = False, nc_tool_matches = Yes, nc_session_alive = Unknown\<rparr>"
      N_ToolFinished]
  by (simp add: notif_result_def touches_screen_def)

section \<open>Screen and record agree\<close>

lemma send_writes:
  assumes "send to_json from_json mq topic d now = Inr (mq', seq)"
  shows "mq_seq mq' = mq_seq mq + 1 \<and> mq_messages mq' \<noteq> [] \<and> mm_kind (last (mq_messages mq')) = dr_kind d \<and>
    mm_key (last (mq_messages mq')) = dr_key d \<and> mq_groups mq' = mq_groups mq \<and> mq_topics mq' = mq_topics mq"
proof -
  have "mq_seq m = mq_seq mq \<and> mq_groups m = mq_groups mq \<and> mq_topics m = mq_topics mq"
    if "make_room mq topic i spec sz = Inr m" for i spec sz m
    using that by (auto simp: make_room_def Let_def split: if_splits option.splits prod.splits)
  with assms show ?thesis
    by (auto simp: send_def send_reserved_def result_bind_Inr Let_def split: prod.splits)
qed

lemma notify_send_writes:
  assumes "notify_send to_json from_json db tg kind payload ttl now = Inr db'"
  shows "mq_seq (nt_mq db') = mq_seq (nt_mq db) + 1 \<and> nt_sessions db' = nt_sessions db \<and>
    mq_messages (nt_mq db') \<noteq> [] \<and> mm_kind (last (mq_messages (nt_mq db'))) = kind \<and>
    mm_key (last (mq_messages (nt_mq db'))) = ''session/'' @ tg_session tg"
  using assms by (auto simp: notify_send_def result_bind_Inr dest!: send_writes)

lemma find_put_session:
  "List.find (\<lambda>x. sr_session x = k) (put_session r rs) =
     (if k = sr_session r then Some r else List.find (\<lambda>x. sr_session x = k) rs)"
proof -
  let ?m = "map (\<lambda>x. if sr_session x = sr_session r then r else x) rs"
  have other: "k \<noteq> sr_session r \<Longrightarrow> List.find (\<lambda>x. sr_session x = k) ?m = List.find (\<lambda>x. sr_session x = k) rs"
    by (induction rs) auto
  have own: "\<exists>x \<in> set rs. sr_session x = sr_session r \<Longrightarrow> List.find (\<lambda>x. sr_session x = sr_session r) ?m = Some r"
    by (induction rs) auto
  have end1: "k \<noteq> sr_session r \<Longrightarrow> List.find (\<lambda>x. sr_session x = k) (rs @ [r]) = List.find (\<lambda>x. sr_session x = k) rs"
    by (induction rs) auto
  have end2: "\<not> (\<exists>x \<in> set rs. sr_session x = sr_session r) \<Longrightarrow> List.find (\<lambda>x. sr_session x = sr_session r) (rs @ [r]) = Some r"
    by (induction rs) auto
  show ?thesis
    by (cases "k = sr_session r"; cases "\<exists>x \<in> set rs. sr_session x = sr_session r")
       (simp_all only: put_session_def if_True if_False other own end1 end2 not_False_eq_True simp_thms if_True)
qed

lemma find_forget:
  "List.find (\<lambda>r. sr_session r = sess) (filter (\<lambda>r. sr_session r \<noteq> k) rs) =
     (if sess = k then None else List.find (\<lambda>r. sr_session r = sess) rs)"
  by (induction rs) auto

definition notify_heard :: "notify_db \<Rightarrow> bool" where
  "notify_heard db \<longleftrightarrow> (case group_count (nt_mq db) notify_TOPIC of Inr n \<Rightarrow> n > 0 | Inl _ \<Rightarrow> False)"

lemma screen_effect:
  assumes "notify_effect to_json from_json tg h now e (db, n) = Inr (db', n')" and "touches_screen e"
  shows "n' = (if h then n + 1 else n) \<and> nt_sessions db' = nt_sessions db \<and>
    mq_seq (nt_mq db') = mq_seq (nt_mq db) + (if h then 1 else 0) \<and>
    (h \<longrightarrow> mq_messages (nt_mq db') \<noteq> [] \<and> mm_key (last (mq_messages (nt_mq db'))) = ''session/'' @ tg_session tg \<and>
      mm_kind (last (mq_messages (nt_mq db'))) = (if e = N_Post then KIND_POST else KIND_WITHDRAW))"
  using assms
  by (cases e) (auto simp: notify_effect_def touches_screen_def Let_def result_bind_Inr split: if_splits
      dest!: notify_send_writes)

text \<open>The plans the table has, and what carrying one out leaves.\<close>

definition plan_done :: "notify_db \<Rightarrow> target \<Rightarrow> notif_effect list \<Rightarrow> int \<Rightarrow> notify_db \<Rightarrow> nat \<Rightarrow> bool" where
  "plan_done db tg fx now db' sent \<longleftrightarrow>
     sent = (if notify_heard db then length (filter touches_screen fx) else 0) \<and>
     mq_seq (nt_mq db') = mq_seq (nt_mq db) + int sent \<and>
     (sent > 0 \<longrightarrow> mq_messages (nt_mq db') \<noteq> [] \<and>
        mm_key (last (mq_messages (nt_mq db'))) = ''session/'' @ tg_session tg \<and>
        mm_kind (last (mq_messages (nt_mq db'))) = (if N_Post \<in> set fx then KIND_POST else KIND_WITHDRAW)) \<and>
     (\<forall>sess. session_row db' sess =
        (if sess \<noteq> tg_session tg then session_row db sess
         else if N_Remember \<in> set fx then Some \<lparr>sr_session = tg_session tg, sr_tool = tg_tool tg, sr_owner = tg_owner tg,
           sr_instance = tg_instance tg, sr_updated_at = now\<rparr>
         else if N_Forget \<in> set fx then None else session_row db sess))"

lemma perform_done:
  assumes p: "notify_perform to_json from_json db tg fx now = Inr (db', sent)"
    and fx: "fx \<in> {[], [N_Withdraw], [N_Post, N_Remember], [N_Withdraw, N_Forget]}"
  shows "plan_done db tg fx now db' sent"
proof (cases "fx = []")
  case True
  with p show ?thesis by (auto simp: notify_perform_def plan_done_def)
next
  case False
  with fx obtain e es where e: "fx = e # es" "touches_screen e" "(e, es) \<in> {(N_Withdraw, []), (N_Post, [N_Remember]), (N_Withdraw, [N_Forget])}"
    by (auto simp: touches_screen_def)
  with p obtain n where n: "group_count (nt_mq db) notify_TOPIC = Inr n"
    and r: "notify_effects to_json from_json tg (n > 0) now fx (db, 0) = Inr (db', sent)"
    by (auto simp: notify_perform_def result_bind_Inr)
  have h: "notify_heard db = (n > 0)" by (simp add: notify_heard_def n)
  from r e(1) obtain db1 n1 where one: "notify_effect to_json from_json tg (n > 0) now e (db, 0) = Inr (db1, n1)"
    and rest: "notify_effects to_json from_json tg (n > 0) now es (db1, n1) = Inr (db', sent)"
    by (auto simp: result_bind_Inr)
  note s = screen_effect [OF one e(2)]
  from e(3) consider "e = N_Withdraw" "es = []" | "e = N_Post" "es = [N_Remember]" | "e = N_Withdraw" "es = [N_Forget]" by auto
  then show ?thesis
  proof cases
    case 1
    with rest s h e(1) show ?thesis by (auto simp: plan_done_def touches_screen_def session_row_def)
  next
    case 2
    with rest s h e(1) show ?thesis
      by (auto simp: plan_done_def touches_screen_def session_row_def notify_effect_def find_put_session)
  next
    case 3
    with rest s h e(1) show ?thesis
      by (auto simp: plan_done_def touches_screen_def session_row_def notify_effect_def find_forget)
  qed
qed

lemma notif_plans:
  "outcome_effects (machine_apply notif_domain notif_machine c e) \<in>
     {[], [N_Withdraw], [N_Post, N_Remember], [N_Withdraw, N_Forget]}"
proof -
  have "case notif_result c e of None \<Rightarrow> True | Some (to, fx) \<Rightarrow>
      fx \<in> {[], [N_Withdraw], [N_Post, N_Remember], [N_Withdraw, N_Forget]}"
    by (cases "nc_at c"; cases e; simp add: notif_result_def)
  with notif_apply [of c e] show ?thesis by (cases "notif_result c e") auto
qed

lemma tool_in_nonempty: "tool_in m = Some t \<Longrightarrow> t \<noteq> []"
  by (auto simp: tool_in_def Let_def split: option.splits if_splits)

text \<open>
  C29. The record and the screen say the same thing. An observed event that is accepted leaves the
  session's record in the state the answer names, and every other session's as it was. As many
  messages were sent as the answer counts: one for a plan that changes the screen when somebody
  reads the topic, none otherwise; and the newest message is then about this session, a post exactly
  when the session now has a notification up.
\<close>

theorem notify_observe_agrees:
  assumes "notify_observe to_json from_json db obs now = Inr (db', a)"
  shows "state_of (session_row db' (ob_session obs)) = ap_state a \<and>
    (\<forall>sess. sess \<noteq> ob_session obs \<longrightarrow> session_row db' sess = session_row db sess) \<and>
    ap_sent a = (if notify_heard db then length (filter touches_screen (ap_effects a)) else 0) \<and>
    mq_seq (nt_mq db') = mq_seq (nt_mq db) + int (ap_sent a) \<and>
    (ap_sent a > 0 \<longrightarrow> mm_key (last (mq_messages (nt_mq db'))) = ''session/'' @ ob_session obs \<and>
       (mm_kind (last (mq_messages (nt_mq db'))) = KIND_POST) = (ap_state a \<in> set POSTED))"
proof -
  let ?rec = "session_row db (ob_session obs)"
  define ctx where "ctx = observe_ctx ?rec obs"
  define tg where "tg = observe_target obs"
  from assms obtain sent where
    p: "notify_perform to_json from_json db tg
      (outcome_effects (machine_apply notif_domain notif_machine ctx (ob_event obs))) now = Inr (db', sent)"
    and a: "a = outcome_to_applied (machine_apply notif_domain notif_machine ctx (ob_event obs)) sent"
    by (auto simp: notify_observe_def result_bind_Inr Let_def ctx_def tg_def split: if_splits)
  have at: "nc_at ctx = state_of ?rec" and named: "nc_tool_named ctx \<longleftrightarrow> tool_in (ob_message obs) \<noteq> None"
    and tg: "tg_session tg = ob_session obs" "tg_tool tg = (case tool_in (ob_message obs) of Some t \<Rightarrow> t | None \<Rightarrow> [])"
    by (simp_all add: ctx_def tg_def observe_ctx_def observe_target_def)
  let ?out = "machine_apply notif_domain notif_machine ctx (ob_event obs)"
  have pd: "plan_done db tg (outcome_effects ?out) now db' sent" by (rule perform_done [OF p notif_plans])
  have ap: "ap_state a = outcome_state ?out" "ap_effects a = outcome_effects ?out" "ap_sent a = sent"
    by (simp_all add: a outcome_to_applied_def)
  have tool: "tg_tool tg = [] \<longleftrightarrow> \<not> nc_tool_named ctx"
    using tool_in_nonempty by (auto simp: tg named split: option.splits)
  have out: "case notif_result ctx (ob_event obs) of
      Some (to, fx) \<Rightarrow> outcome_state ?out = to \<and> outcome_effects ?out = fx
    | None \<Rightarrow> outcome_state ?out = nc_at ctx \<and> outcome_effects ?out = []"
    using notif_apply [of ctx "ob_event obs"] by (auto split: option.splits)
  have row: "session_row db' (ob_session obs) =
      (if N_Remember \<in> set (outcome_effects ?out) then Some \<lparr>sr_session = tg_session tg, sr_tool = tg_tool tg, sr_owner = tg_owner tg,
           sr_instance = tg_instance tg, sr_updated_at = now\<rparr>
       else if N_Forget \<in> set (outcome_effects ?out) then None else ?rec)"
    using pd by (simp add: plan_done_def tg)
  have state: "state_of (session_row db' (ob_session obs)) = outcome_state ?out"
    using out at tool unfolding row
    by (cases "nc_at ctx"; cases "ob_event obs"; simp add: notif_result_def state_of_def split: if_splits option.splits)
  have kind: "(N_Post \<in> set (outcome_effects ?out)) = (outcome_state ?out \<in> set POSTED)" if "outcome_effects ?out \<noteq> []"
    using out that by (cases "nc_at ctx"; cases "ob_event obs"; simp add: notif_result_def POSTED_def split: if_splits)
  from pd have "sent > 0 \<Longrightarrow> outcome_effects ?out \<noteq> []" by (auto simp: plan_done_def split: if_splits)
  with pd kind have "sent > 0 \<longrightarrow> mm_key (last (mq_messages (nt_mq db'))) = ''session/'' @ ob_session obs \<and>
      (mm_kind (last (mq_messages (nt_mq db'))) = KIND_POST) = (outcome_state ?out \<in> set POSTED)"
    by (auto simp: plan_done_def tg KIND_POST_def KIND_WITHDRAW_def)
  with pd state show ?thesis by (simp add: ap plan_done_def tg)
qed

text \<open>A queue with the topic and one reader, and a session that asks for a permission.\<close>

definition notify_demo :: notify_db where
  "notify_demo =
     \<lparr>nt_mq = \<lparr>mq_topics = [\<lparr>mt_id = 1, mt_name = ''claude/notify'', mt_type = ''log'', mt_max_bytes = 1000,
          mt_max_messages = 10, mt_default_ttl_ms = None, mt_group_idle_ms = 1, mt_compact_every_ms = 1,
          mt_created_at = 0, mt_compacted_at = None\<rparr>],
        mq_messages = [],
        mq_groups = [\<lparr>mg_topic = 1, mg_name = ''app'', mg_position = 0, mg_created_at = 0, mg_last_poll_at = None,
          mg_last_ack_at = None\<rparr>], mq_seq = 0\<rparr>,
      nt_sessions = [\<lparr>sr_session = ''s2'', sr_tool = ''Bash'', sr_owner = ''12'', sr_instance = ''h'', sr_updated_at = 1\<rparr>]\<rparr>"

definition notify_demo_needed :: observation where
  "notify_demo_needed =
     \<lparr>ob_session = ''s1'', ob_event = N_Needed, ob_finished_tool = [],
      ob_message = ''permission to use Bash'', ob_cwd = ''/r'', ob_owner = ''7'', ob_instance = ''h''\<rparr>"

lemma notify_demo_valid:
  "check_session ''s1'' = Inr ()" "check_session ''s2'' = Inr ()" "check_owner_and_instance ''7'' ''h'' = Inr ()"
  "check_owner_and_instance ''12'' ''h'' = Inr ()" "tool_in ''permission to use Bash'' = Some ''Bash''"
  "check_name ''kind'' KIND_POST = Inr ()" "check_name ''kind'' KIND_WITHDRAW = Inr ()"
  "check_unreserved notify_TOPIC = Inr ()"
  by code_simp+

lemma notify_demo_send:
  assumes "kind = KIND_POST \<and> ttl = Some POST_TTL_MS \<or> kind = KIND_WITHDRAW \<and> ttl = None"
    and "tg_session tg = ''s1'' \<or> tg_session tg = ''s2''" and "tg_instance tg = ''h''"
  shows "\<exists>db'. notify_send (\<lambda>_. Inr ''{}'') (\<lambda>_. Inr JNull) notify_demo tg kind payload ttl 5 = Inr db'"
  using assms notify_demo_valid(6,7,8)
  by (auto simp: notify_send_def send_def send_reserved_def notify_demo_def topic_row_any_def notify_TOPIC_def queue_type_parse_def
      validate_draft_def MAX_KEY_BYTES_def mq_MAX_NAME_BYTES_def check_positive_def POST_TTL_MS_def lift_queue_def
      MAX_PAYLOAD_BYTES_def i64_MAX_def Let_def make_room_def holdings_def topic_messages_def room_fits_def saturating_add_def
      i64_MIN_def KIND_POST_def KIND_WITHDRAW_def)

theorem notify_observe_agrees_witness:
  "\<exists>db' a. notify_observe (\<lambda>_. Inr ''{}'') (\<lambda>_. Inr JNull) notify_demo notify_demo_needed 5 = Inr (db', a) \<and>
     ap_sent a = 1 \<and> state_of (session_row db' ''s1'') = N_AwaitingTool"
proof -
  let ?ctx = "observe_ctx (session_row notify_demo ''s1'') notify_demo_needed"
  have out: "machine_apply notif_domain notif_machine ?ctx N_Needed = Moved N_Absent N_Needed N_AwaitingTool [N_Post, N_Remember]"
    using notif_apply [of ?ctx N_Needed] notify_demo_valid(5)
    by (simp add: notif_result_def observe_ctx_def notify_demo_needed_def session_row_def notify_demo_def state_of_def)
  obtain db1 where "notify_send (\<lambda>_. Inr ''{}'') (\<lambda>_. Inr JNull) notify_demo (observe_target notify_demo_needed) KIND_POST
      (JObj [(''body'', JStr (tg_body (observe_target notify_demo_needed))), (''id'', JStr (session_notification_id ''s1'')),
        (''session'', JStr ''s1''), (''subtitle'', JStr (tg_subtitle (observe_target notify_demo_needed))), (''title'', JStr TITLE)])
      (Some POST_TTL_MS) 5 = Inr db1"
    using notify_demo_send [of KIND_POST "Some POST_TTL_MS" "observe_target notify_demo_needed"]
    by (auto simp: observe_target_def notify_demo_needed_def)
  moreover have h: "group_count (nt_mq notify_demo) notify_TOPIC = Inr 1"
    using notify_demo_valid(8)
    by (simp add: group_count_def group_count_reserved_def topic_row_any_def notify_demo_def notify_TOPIC_def
        queue_type_parse_def topic_groups_def)
  ultimately obtain db' a where o: "notify_observe (\<lambda>_. Inr ''{}'') (\<lambda>_. Inr JNull) notify_demo notify_demo_needed 5 = Inr (db', a)"
    and a: "ap_effects a = [N_Post, N_Remember]" "ap_state a = N_AwaitingTool"
    using notify_demo_valid out
    by (simp add: notify_observe_def notify_perform_def touches_screen_def notify_effect_def Let_def outcome_to_applied_def
        notify_demo_needed_def [THEN arg_cong, of ob_session] notify_demo_needed_def [THEN arg_cong, of ob_event]
        notify_demo_needed_def [THEN arg_cong, of ob_owner] notify_demo_needed_def [THEN arg_cong, of ob_instance]
        observe_target_def)
  have "notify_heard notify_demo" by (simp add: notify_heard_def h)
  with notify_observe_agrees [OF o] a have "ap_sent a = 1" "state_of (session_row db' ''s1'') = N_AwaitingTool"
    by (simp_all add: touches_screen_def notify_demo_needed_def)
  with o show ?thesis by blast
qed

text \<open>
  C30. A session judged gone loses its notification only while the record is the one that was judged. When
  anything moved, the record had named this owner and this instance, and a process at all; it is
  then gone, and every other session's record is as it was. Otherwise nothing was written.
\<close>

theorem notify_gone_only_judged:
  assumes "notify_gone to_json from_json db sess owner instnc now = Inr (db', a)"
  shows "(if ap_moved a
     then (\<exists>r. session_row db sess = Some r \<and> sr_owner r = owner \<and> sr_instance r = instnc) \<and> owner \<noteq> [] \<and>
       session_row db' sess = None
     else db' = db) \<and>
    (\<forall>other. other \<noteq> sess \<longrightarrow> session_row db' other = session_row db other)"
proof (cases "\<exists>r. session_row db sess = Some r \<and> sr_owner r = owner \<and> sr_instance r = instnc")
  case False
  with assms have "db' = db \<and> \<not> ap_moved a"
    by (auto simp: notify_gone_def result_bind_Inr Let_def split: option.splits if_splits)
  then show ?thesis by simp
next
  case True
  then obtain r where r: "session_row db sess = Some r" "sr_owner r = owner" "sr_instance r = instnc" by blast
  define ctx where "ctx = gone_ctx r owner"
  define tg where "tg = \<lparr>tg_session = sess, tg_tool = sr_tool r, tg_subtitle = [], tg_body = [], tg_owner = owner, tg_instance = sr_instance r\<rparr>"
  from r assms obtain sent where
    p: "notify_perform to_json from_json db tg
      (outcome_effects (machine_apply notif_domain notif_machine ctx N_SessionGone)) now = Inr (db', sent)"
    and a: "a = outcome_to_applied (machine_apply notif_domain notif_machine ctx N_SessionGone) sent"
    by (auto simp: notify_gone_def result_bind_Inr Let_def ctx_def tg_def)
  have at: "nc_at ctx = state_of (Some r)" and alive: "nc_session_alive ctx = (if owner \<noteq> [] then No else Unknown)"
    and tg: "tg_session tg = sess"
    by (simp_all add: ctx_def tg_def gone_ctx_def)
  let ?out = "machine_apply notif_domain notif_machine ctx N_SessionGone"
  have pd: "plan_done db tg (outcome_effects ?out) now db' sent" by (rule perform_done [OF p notif_plans])
  have moved: "if owner \<noteq> [] then outcome_moved ?out \<and> outcome_effects ?out = [N_Withdraw, N_Forget]
      else \<not> outcome_moved ?out \<and> outcome_effects ?out = []"
    using notif_apply [of ctx N_SessionGone] at alive by (auto simp: notif_result_def state_of_def split: if_splits)
  show ?thesis
  proof (cases "owner = []")
    case True
    with moved p have "db' = db" by (simp add: notify_perform_def)
    with True moved show ?thesis by (simp add: a outcome_to_applied_def)
  next
    case False
    with moved pd r show ?thesis by (simp add: a outcome_to_applied_def plan_done_def tg)
  qed
qed

theorem notify_gone_only_judged_witness:
  "\<exists>db' a. notify_gone (\<lambda>_. Inr ''{}'') (\<lambda>_. Inr JNull) notify_demo ''s2'' ''12'' ''h'' 5 = Inr (db', a) \<and>
     ap_moved a \<and> session_row db' ''s2'' = None"
proof -
  let ?r = "\<lparr>sr_session = ''s2'', sr_tool = ''Bash'', sr_owner = ''12'', sr_instance = ''h'', sr_updated_at = 1\<rparr>"
  let ?ctx = "gone_ctx ?r ''12''"
  let ?tg = "\<lparr>tg_session = ''s2'', tg_tool = ''Bash'', tg_subtitle = [], tg_body = [], tg_owner = ''12'', tg_instance = ''h''\<rparr>"
  have out: "machine_apply notif_domain notif_machine ?ctx N_SessionGone = Moved N_AwaitingTool N_SessionGone N_Absent [N_Withdraw, N_Forget]"
    using notif_apply [of ?ctx N_SessionGone] by (simp add: notif_result_def gone_ctx_def state_of_def)
  have row: "session_row notify_demo ''s2'' = Some ?r" by (simp add: session_row_def notify_demo_def)
  obtain db1 where "notify_send (\<lambda>_. Inr ''{}'') (\<lambda>_. Inr JNull) notify_demo ?tg KIND_WITHDRAW
      (JObj [(''id'', JStr (session_notification_id ''s2'')), (''session'', JStr ''s2'')]) None 5 = Inr db1"
    using notify_demo_send [of KIND_WITHDRAW None ?tg] by auto
  moreover have "group_count (nt_mq notify_demo) notify_TOPIC = Inr 1"
    using notify_demo_valid(8)
    by (simp add: group_count_def group_count_reserved_def topic_row_any_def notify_demo_def notify_TOPIC_def
        queue_type_parse_def topic_groups_def)
  ultimately obtain db' a where g: "notify_gone (\<lambda>_. Inr ''{}'') (\<lambda>_. Inr JNull) notify_demo ''s2'' ''12'' ''h'' 5 = Inr (db', a)"
    and "ap_moved a"
    using notify_demo_valid out row
    by (simp add: notify_gone_def notify_perform_def touches_screen_def notify_effect_def Let_def outcome_to_applied_def)
  with notify_gone_only_judged [OF g] show ?thesis by auto
qed

end
