(* ===== verification/Core_Exec.thy ===== *)
theory Core_Exec
  imports Core_Notify
begin

text \<open>
  Run requests, \<open>crates/jkb-core/src/exec.rs\<close>: a session asks the operator to run one command. Each
  state move is a compare-and-set update of the row, logged, published on the request's topic,
  announced on the index topic, and the notification taken down, in one transaction.

  The state is the rows of \<open>exec_requests\<close> (in the order of their AUTOINCREMENT id), the rows of
  \<open>exec_output\<close>, the queue and the log. The CHECK constraints admit only the words of the enums in
  the word columns, so a row holds the enum values; \<open>argv\<close> holds its JSON text, as the column
  does. The JSON library and base64 are arguments (\<open>exec_env\<close>).
\<close>

section \<open>Limits\<close>

definition MAX_ARGV_BYTES :: nat where "MAX_ARGV_BYTES = 64 * 1024"
definition MAX_REASON_CHARS :: nat where "MAX_REASON_CHARS = 500"
definition MAX_NOTE_CHARS :: nat where "MAX_NOTE_CHARS = 2000"
definition MAX_PATH_BYTES :: nat where "MAX_PATH_BYTES = 4096"
definition exec_MAX_NAME_BYTES :: nat where "exec_MAX_NAME_BYTES = 256"
definition MAX_TAIL_BYTES :: nat where "MAX_TAIL_BYTES = 256 * 1024"
definition MAX_CHUNK_BYTES :: nat where "MAX_CHUNK_BYTES = 47 * 1024"
definition EXPIRES_AFTER_MS :: int where "EXPIRES_AFTER_MS = 2 * 60 * 60 * 1000"
definition DEFAULT_TIMEOUT_MS :: int where "DEFAULT_TIMEOUT_MS = 15 * 60 * 1000"
definition MAX_TIMEOUT_MS :: int where "MAX_TIMEOUT_MS = 2 * 60 * 60 * 1000"
definition RUN_GRACE_MS :: int where "RUN_GRACE_MS = 5 * 60 * 1000"
definition LATEST_END_MS :: int where "LATEST_END_MS = EXPIRES_AFTER_MS + MAX_TIMEOUT_MS + RUN_GRACE_MS"
definition MIN_TIMEOUT_MS :: int where "MIN_TIMEOUT_MS = 1000"
definition exec_PAGE :: nat where "exec_PAGE = 100"
definition PAGE_BYTES :: nat where "PAGE_BYTES = 512 * 1024"
definition TOPIC_MAX_BYTES :: int where "TOPIC_MAX_BYTES = 8 * 1024 * 1024"
definition TOPIC_TTL_MS :: int where "TOPIC_TTL_MS = 24 * 60 * 60 * 1000"
definition INDEX_MAX_BYTES :: int where "INDEX_MAX_BYTES = 4 * 1024 * 1024"
definition INDEX_TOPIC :: string where "INDEX_TOPIC = ''exec/requests''"
definition INDEX_KIND :: string where "INDEX_KIND = ''exec.changed''"

definition SETTLED_INTERRUPT :: string where
  "SETTLED_INTERRUPT = ''interrupted: the runner never reported an end, past the timeout and its grace''"

section \<open>Words\<close>

datatype exec_target = X_Host | X_Container

fun exec_target_as_str :: "exec_target \<Rightarrow> string" where
  "exec_target_as_str X_Host = ''host''"
| "exec_target_as_str X_Container = ''container''"

definition exec_target_ALL :: "exec_target list" where "exec_target_ALL = [X_Host, X_Container]"

definition exec_target_parse :: "string \<Rightarrow> exec_target option" where
  "exec_target_parse s = parse_by_name exec_target_ALL exec_target_as_str s"

datatype exec_state = X_Pending | X_Running | X_Finished | X_Declined | X_Refused | X_Expired

fun exec_state_as_str :: "exec_state \<Rightarrow> string" where
  "exec_state_as_str X_Pending = ''pending''"
| "exec_state_as_str X_Running = ''running''"
| "exec_state_as_str X_Finished = ''finished''"
| "exec_state_as_str X_Declined = ''declined''"
| "exec_state_as_str X_Refused = ''refused''"
| "exec_state_as_str X_Expired = ''expired''"

definition exec_state_ALL :: "exec_state list" where
  "exec_state_ALL = [X_Pending, X_Running, X_Finished, X_Declined, X_Refused, X_Expired]"

definition exec_state_parse :: "string \<Rightarrow> exec_state option" where
  "exec_state_parse s = parse_by_name exec_state_ALL exec_state_as_str s"

definition exec_is_terminal :: "exec_state \<Rightarrow> bool" where
  "exec_is_terminal s \<longleftrightarrow> s \<noteq> X_Pending \<and> s \<noteq> X_Running"

datatype refuse_reason = X_TreeChanged | X_AuditRefused | X_DirGone

fun refuse_reason_as_str :: "refuse_reason \<Rightarrow> string" where
  "refuse_reason_as_str X_TreeChanged = ''tree_changed''"
| "refuse_reason_as_str X_AuditRefused = ''audit_refused''"
| "refuse_reason_as_str X_DirGone = ''dir_gone''"

definition refuse_reason_ALL :: "refuse_reason list" where
  "refuse_reason_ALL = [X_TreeChanged, X_AuditRefused, X_DirGone]"

definition refuse_reason_parse :: "string \<Rightarrow> refuse_reason option" where
  "refuse_reason_parse s = parse_by_name refuse_reason_ALL refuse_reason_as_str s"

datatype exec_outcome = X_Exited | X_Signalled | X_TimedOut | X_Interrupted

fun exec_outcome_as_str :: "exec_outcome \<Rightarrow> string" where
  "exec_outcome_as_str X_Exited = ''exited''"
| "exec_outcome_as_str X_Signalled = ''signalled''"
| "exec_outcome_as_str X_TimedOut = ''timed_out''"
| "exec_outcome_as_str X_Interrupted = ''interrupted''"

definition exec_outcome_ALL :: "exec_outcome list" where
  "exec_outcome_ALL = [X_Exited, X_Signalled, X_TimedOut, X_Interrupted]"

definition exec_outcome_parse :: "string \<Rightarrow> exec_outcome option" where
  "exec_outcome_parse s = parse_by_name exec_outcome_ALL exec_outcome_as_str s"

section \<open>Rows\<close>

record tree_pin =
  pn_head :: string
  pn_changes :: string

record requester =
  rq_session :: string
  rq_agent_type :: "string option"
  rq_role :: string
  rq_task :: "int option"

record exec_ask =
  ak_target :: exec_target
  ak_dir :: string
  ak_dir_side :: exec_target
  ak_argv :: "string list"
  ak_reason :: string
  ak_pin :: "tree_pin option"
  ak_timeout_ms :: "int option"

record exec_row =
  ex_id :: int
  ex_created_at :: int
  ex_expires_at :: int
  ex_requester :: requester
  ex_target :: exec_target
  ex_dir :: string
  ex_dir_side :: exec_target
  ex_argv :: string
  ex_reason :: string
  ex_pin :: "tree_pin option"
  ex_timeout_ms :: int
  ex_state :: exec_state
  ex_refuse_reason :: "refuse_reason option"
  ex_note :: "string option"
  ex_runner :: "string option"
  ex_started_at :: "int option"
  ex_ended_at :: "int option"
  ex_exit_status :: "int option"
  ex_outcome :: "exec_outcome option"

record exec_out =
  eo_tail :: string
  eo_total_bytes :: int
  eo_truncated :: bool
  eo_chunks :: int
  eo_log_path :: "string option"

record exec_db =
  xr_rows :: "exec_row list"
  xr_seq :: int
  xr_outputs :: "(int \<times> exec_out) list"
  xr_mq :: mq_db
  xr_log :: changelog

record exec_env =
  en_to_json :: "json \<Rightarrow> (string, string) result"
  en_from_json :: "string \<Rightarrow> (string, json) result"
  en_argv_text :: "string list \<Rightarrow> string"
  en_argv_parse :: "string \<Rightarrow> string list option"
  en_base64 :: "string \<Rightarrow> string"

datatype begun = Bg_Running exec_row | Bg_Refused exec_row | Bg_Expired exec_row

record finished =
  fi_runner :: string
  fi_outcome :: exec_outcome
  fi_exit_status :: "int option"
  fi_tail :: string
  fi_total_bytes :: int
  fi_log_path :: "string option"

record exec_filter =
  xf_state :: "exec_state option"
  xf_session :: "string option"
  xf_newest_first :: bool

definition wire_id :: "int \<Rightarrow> string" where "wire_id i = ''exec-'' @ int_str i"

definition parse_id :: "string \<Rightarrow> int core_result" where
  "parse_id s =
     (let digits = (case strip_prefix_str ''exec-'' s of Some d \<Rightarrow> d | None \<Rightarrow> s);
          n = int (digits_val 0 digits)
      in if digits \<noteq> [] \<and> list_all is_digit digits \<and> n > 0 \<and> n < 2 ^ 63 then Inr n
         else Inl (validation (debug_str s @ '' is not a run request id (`exec-<n>`)'')))"

definition exec_topic :: "int \<Rightarrow> string" where "exec_topic i = ''exec/'' @ int_str i"

section \<open>Checks\<close>

definition exec_check_text :: "string \<Rightarrow> string \<Rightarrow> nat \<Rightarrow> bool \<Rightarrow> unit core_result" where
  "exec_check_text what val max_bytes empty_ok =
     (if \<not> empty_ok \<and> val = [] then Inl (validation (what @ '' is empty''))
      else if length val > max_bytes
      then Inl (validation (what @ '' is '' @ nat_str (length val) @ '' bytes; the limit is '' @ nat_str max_bytes))
      else if has_control val then Inl (validation (what @ '' contains a control character''))
      else Inr ())"

definition is_lower_hex :: "char \<Rightarrow> bool" where
  "is_lower_hex c \<longleftrightarrow> is_digit c \<or> (97 \<le> (of_char c :: nat) \<and> (of_char c :: nat) \<le> 102)"

definition check_hex :: "string \<Rightarrow> string \<Rightarrow> nat list \<Rightarrow> unit core_result" where
  "check_hex what val lens =
     (if length val \<notin> set lens \<or> \<not> list_all is_lower_hex val
      then Inl (validation (what @ '' must be lower-case hex of length ['' @ join '', '' (map nat_str lens) @ '']''))
      else Inr ())"

definition check_pin :: "tree_pin option \<Rightarrow> unit core_result" where
  "check_pin pin =
     (case pin of None \<Rightarrow> Inr ()
      | Some p \<Rightarrow> result_bind (check_hex ''pin head'' (pn_head p) [40, 64]) (\<lambda>_. check_hex ''pin changes'' (pn_changes p) [64]))"

definition requester_check :: "requester \<Rightarrow> unit core_result" where
  "requester_check rq =
     result_bind (exec_check_text ''session'' (rq_session rq) exec_MAX_NAME_BYTES False) (\<lambda>_.
     result_bind (case rq_agent_type rq of None \<Rightarrow> Inr () | Some t \<Rightarrow> exec_check_text ''agent type'' t exec_MAX_NAME_BYTES False) (\<lambda>_.
       exec_check_text ''role'' (rq_role rq) exec_MAX_NAME_BYTES False))"

definition argv_json :: "exec_env \<Rightarrow> exec_ask \<Rightarrow> string core_result" where
  "argv_json env ask =
     (case ak_argv ask of
        [] \<Rightarrow> Inl (validation ''argv is empty: name the program to run'')
      | program # _ \<Rightarrow>
          if program = [] then Inl (validation ''argv[0] is empty'')
          else if starts_with program ''-''
          then Inl (validation (''argv[0] '' @ debug_str program @ '' is an option, not a program''))
          else if \<exists>a \<in> set (ak_argv ask). CHR 0x00 \<in> set a then Inl (validation ''an argument contains a NUL byte'')
          else let text = en_argv_text env (ak_argv ask) in
            if length text > MAX_ARGV_BYTES
            then Inl (validation (''argv is '' @ nat_str (length text) @ '' bytes of JSON; the limit is '' @ nat_str MAX_ARGV_BYTES))
            else Inr text)"

definition usize_MAX :: nat where "usize_MAX = 2 ^ 64 - 1"

definition ask_check :: "exec_env \<Rightarrow> exec_ask \<Rightarrow> string core_result" where
  "ask_check env ask =
     result_bind (argv_json env ask) (\<lambda>argv.
     result_bind (exec_check_text ''dir'' (ak_dir ask) MAX_PATH_BYTES False) (\<lambda>_.
       if \<not> starts_with (ak_dir ask) ''/'' then Inl (validation (''dir '' @ debug_str (ak_dir ask) @ '' is not absolute''))
       else if char_count (ak_reason ask) > MAX_REASON_CHARS
       then Inl (validation (''the reason is longer than '' @ nat_str MAX_REASON_CHARS @ '' characters''))
       else result_bind (exec_check_text ''reason'' (ak_reason ask) usize_MAX True) (\<lambda>_.
         result_bind (check_pin (ak_pin ask)) (\<lambda>_.
           case ak_timeout_ms ask of
             Some t \<Rightarrow>
               if t < MIN_TIMEOUT_MS \<or> MAX_TIMEOUT_MS < t
               then Inl (validation (''a timeout of '' @ int_str t @ '' ms is outside '' @ int_str MIN_TIMEOUT_MS @ ''..='' @
                      int_str MAX_TIMEOUT_MS @ '' ms (two hours at most)''))
               else Inr argv
           | None \<Rightarrow> Inr argv))))"

section \<open>Reading rows\<close>

definition exec_find :: "exec_db \<Rightarrow> int \<Rightarrow> exec_row option" where
  "exec_find db i = List.find (\<lambda>r. ex_id r = i) (xr_rows db)"

definition corrupt :: "int \<Rightarrow> string \<Rightarrow> string \<Rightarrow> core_error" where
  "corrupt i what val =
     Queue (Corrupt (''exec request '' @ int_str i @ '' has '' @ what @ '' '' @ debug_str val @ '', which this jkb does not know''))"

text \<open>The words of a stored row are the enums' already; only the argv text is left to parse.\<close>

definition parse_row :: "exec_env \<Rightarrow> exec_row \<Rightarrow> exec_row core_result" where
  "parse_row env r =
     (case en_argv_parse env (ex_argv r) of
        None \<Rightarrow> Inl (corrupt (ex_id r) ''argv'' (ex_argv r))
      | Some _ \<Rightarrow> Inr r)"

definition exec_get :: "exec_env \<Rightarrow> exec_db \<Rightarrow> int \<Rightarrow> exec_row option core_result" where
  "exec_get env db i =
     (case exec_find db i of
        None \<Rightarrow> Inr None
      | Some r \<Rightarrow> result_bind (parse_row env r) (\<lambda>x. Inr (Some x)))"

definition exec_must_get :: "exec_env \<Rightarrow> exec_db \<Rightarrow> int \<Rightarrow> exec_row core_result" where
  "exec_must_get env db i =
     result_bind (exec_get env db i) (\<lambda>found. case found of
        Some r \<Rightarrow> Inr r
      | None \<Rightarrow> Inl (Types (NotFound (''no run request '' @ wire_id i))))"

definition json_num_opt :: "int option \<Rightarrow> json" where
  "json_num_opt n = (case n of None \<Rightarrow> JNull | Some x \<Rightarrow> JNum x)"

definition exec_json :: "exec_row \<Rightarrow> json" where
  "exec_json r =
     JObj [(''agent_type'', json_opt (rq_agent_type (ex_requester r))), (''argv'', JStr (ex_argv r)),
       (''created_at'', JNum (ex_created_at r)), (''dir'', JStr (ex_dir r)),
       (''dir_side'', JStr (exec_target_as_str (ex_dir_side r))), (''ended_at'', json_num_opt (ex_ended_at r)),
       (''exit_status'', json_num_opt (ex_exit_status r)), (''expires_at'', JNum (ex_expires_at r)),
       (''id'', JNum (ex_id r)), (''note'', json_opt (ex_note r)),
       (''outcome'', json_opt (map_option exec_outcome_as_str (ex_outcome r))),
       (''pin_changes'', json_opt (map_option pn_changes (ex_pin r))),
       (''pin_head'', json_opt (map_option pn_head (ex_pin r))), (''reason'', JStr (ex_reason r)),
       (''refuse_reason'', json_opt (map_option refuse_reason_as_str (ex_refuse_reason r))),
       (''role'', JStr (rq_role (ex_requester r))), (''runner'', json_opt (ex_runner r)),
       (''session'', JStr (rq_session (ex_requester r))), (''started_at'', json_num_opt (ex_started_at r)),
       (''state'', JStr (exec_state_as_str (ex_state r))), (''target'', JStr (exec_target_as_str (ex_target r))),
       (''task_id'', json_num_opt (rq_task (ex_requester r))), (''timeout_ms'', JNum (ex_timeout_ms r))]"

definition row_json :: "exec_db \<Rightarrow> int \<Rightarrow> json core_result" where
  "row_json db i =
     (case exec_find db i of
        None \<Rightarrow> Inl (Sqlite ''Query returned no rows'')
      | Some r \<Rightarrow> Inr (exec_json r))"

section \<open>Telling\<close>

definition publish ::
  "exec_env \<Rightarrow> int \<Rightarrow> string \<Rightarrow> json \<Rightarrow> int \<Rightarrow> bool \<Rightarrow> mq_db \<Rightarrow> (mq_db \<times> int option) core_result" where
  "publish env i kind payload now must mq =
     (case send_reserved (en_to_json env) (en_from_json env) mq (exec_topic i)
         \<lparr>dr_key = exec_topic i, dr_kind = kind, dr_payload = payload, dr_ttl_ms = None, dr_producer = ''jkb''\<rparr> now of
        Inr (mq', seq) \<Rightarrow> Inr (mq', Some seq)
      | Inl (Queue (QueueFull t m b)) \<Rightarrow> if must then Inl (Queue (QueueFull t m b)) else Inr (mq, None)
      | Inl (Queue (NoSuchTopic t)) \<Rightarrow> if must then Inl (Queue (NoSuchTopic t)) else Inr (mq, None)
      | Inl e \<Rightarrow> Inl e)"

definition index_spec :: topic_spec where
  "index_spec = topic_spec_default\<lparr>ts_max_bytes := INDEX_MAX_BYTES, ts_default_ttl_ms := Some TOPIC_TTL_MS\<rparr>"

definition ensure_index :: "mq_db \<Rightarrow> int \<Rightarrow> mq_db core_result" where
  "ensure_index mq now =
     result_bind (topic_create_reserved mq INDEX_TOPIC index_spec now) (\<lambda>(mq', _). Inr mq')"

definition announce :: "exec_env \<Rightarrow> exec_row \<Rightarrow> int \<Rightarrow> mq_db \<Rightarrow> mq_db core_result" where
  "announce env r now mq =
     result_bind (case group_count_reserved mq INDEX_TOPIC of
         Inr n \<Rightarrow> Inr n
       | Inl (Queue (NoSuchTopic _)) \<Rightarrow> Inr 0
       | Inl e \<Rightarrow> Inl e) (\<lambda>groups.
       if groups = 0 then Inr mq
       else case send_reserved (en_to_json env) (en_from_json env) mq INDEX_TOPIC
           \<lparr>dr_key = INDEX_TOPIC, dr_kind = INDEX_KIND,
            dr_payload = JObj [(''id'', JStr (wire_id (ex_id r))), (''state'', JStr (exec_state_as_str (ex_state r)))],
            dr_ttl_ms = None, dr_producer = ''jkb''\<rparr> now of
         Inr (mq', _) \<Rightarrow> Inr mq'
       | Inl (Queue (QueueFull _ _ _)) \<Rightarrow> Inr mq
       | Inl e \<Rightarrow> Inl e)"

definition notification_body :: "exec_row \<Rightarrow> string" where
  "notification_body r =
     (let who = ex_requester r;
          kind = (case rq_agent_type who of None \<Rightarrow> [] | Some t \<Rightarrow> '', '' @ t);
          why = (if ex_reason r = [] then ''.'' else '': '' @ ex_reason r)
      in rq_session who @ '' ('' @ rq_role who @ kind @ '') asks to run a command'' @ why)"

definition decision_payload :: "exec_row \<Rightarrow> json" where
  "decision_payload r =
     JObj ([(''id'', JStr (wire_id (ex_id r)))] @
       (case ex_note r of None \<Rightarrow> [] | Some n \<Rightarrow> [(''note'', JStr n)]) @
       (case ex_refuse_reason r of None \<Rightarrow> [] | Some x \<Rightarrow> [(''refuse_reason'', JStr (refuse_reason_as_str x))]) @
       [(''state'', JStr (exec_state_as_str (ex_state r)))])"

definition end_payload :: "exec_row \<Rightarrow> json" where
  "end_payload r =
     JObj [(''exit_status'', json_num_opt (ex_exit_status r)), (''id'', JStr (wire_id (ex_id r))),
       (''outcome'', json_opt (map_option exec_outcome_as_str (ex_outcome r))),
       (''state'', JStr (exec_state_as_str (ex_state r)))]"

section \<open>Moving\<close>

text \<open>
  The compare-and-set: \<open>ok\<close> is what the \<open>UPDATE\<close>'s \<open>WHERE\<close> asks beside the id, \<open>upd\<close> its
  \<open>SET\<close>.
\<close>

definition set_rows :: "int \<Rightarrow> (exec_row \<Rightarrow> bool) \<Rightarrow> (exec_row \<Rightarrow> exec_row) \<Rightarrow> exec_row list \<Rightarrow> exec_row list" where
  "set_rows i ok upd rows = map (\<lambda>r. if ex_id r = i \<and> ok r then upd r else r) rows"

definition moved ::
  "exec_env \<Rightarrow> write_meta \<Rightarrow> int \<Rightarrow> (exec_row \<Rightarrow> bool) \<Rightarrow> (exec_row \<Rightarrow> exec_row) \<Rightarrow> int \<Rightarrow> exec_db
     \<Rightarrow> (exec_db \<times> exec_row option) core_result" where
  "moved env meta i ok upd now db =
     result_bind (row_json db i) (\<lambda>before.
       if \<not> (\<exists>r \<in> set (xr_rows db). ex_id r = i \<and> ok r) then Inr (db, None)
       else let db1 = db\<lparr>xr_rows := set_rows i ok upd (xr_rows db)\<rparr> in
         result_bind (row_json db1 i) (\<lambda>after.
         result_bind (changelog_upsert (xr_log db1) meta E_ExecRequests (int_str i) (Some before) (Some after)) (\<lambda>log.
         result_bind (exec_must_get env db1 i) (\<lambda>r.
         result_bind (if ex_state r \<noteq> X_Finished
             then result_bind (publish env i ''exec.decision'' (decision_payload r) now False (xr_mq db1)) (\<lambda>(mq, _). Inr mq)
             else Inr (xr_mq db1)) (\<lambda>mq1.
         result_bind (if json_get ''state'' before = Some (JStr (exec_state_as_str X_Pending))
             then result_bind (withdraw_direct (en_to_json env) (en_from_json env) mq1 (wire_id i)
               (rq_session (ex_requester r)) now) (\<lambda>(mq, _). Inr mq)
             else Inr mq1) (\<lambda>mq2.
         result_bind (announce env r now mq2) (\<lambda>mq3.
           Inr (db1\<lparr>xr_log := log, xr_mq := mq3\<rparr>, Some r))))))))"

text \<open>Publishing outside a move, the row store untouched.\<close>

definition publish_db ::
  "exec_env \<Rightarrow> int \<Rightarrow> string \<Rightarrow> json \<Rightarrow> int \<Rightarrow> exec_db \<Rightarrow> (exec_db \<times> int option) core_result" where
  "publish_db env i kind payload now db =
     result_bind (publish env i kind payload now False (xr_mq db)) (\<lambda>(mq, seq). Inr (db\<lparr>xr_mq := mq\<rparr>, seq))"

definition is_pending :: "exec_row \<Rightarrow> bool" where "is_pending r \<longleftrightarrow> ex_state r = X_Pending"

definition is_running :: "exec_row \<Rightarrow> bool" where "is_running r \<longleftrightarrow> ex_state r = X_Running"

definition expired_row :: "int \<Rightarrow> string \<Rightarrow> exec_row \<Rightarrow> exec_row" where
  "expired_row now note r = r\<lparr>ex_state := X_Expired, ex_ended_at := Some now, ex_note := Some note\<rparr>"

definition interrupted_row :: "int \<Rightarrow> exec_row \<Rightarrow> exec_row" where
  "interrupted_row now r =
     r\<lparr>ex_state := X_Finished, ex_outcome := Some X_Interrupted, ex_ended_at := Some now, ex_note := Some SETTLED_INTERRUPT\<rparr>"

text \<open>The loop of \<open>settle\<close> over the due ids, which is also \<open>expire_session\<close>'s.\<close>

fun expire_each ::
  "exec_env \<Rightarrow> write_meta \<Rightarrow> string \<Rightarrow> int \<Rightarrow> int list \<Rightarrow> exec_db \<Rightarrow> (exec_db \<times> int list) core_result" where
  "expire_each env meta note now [] db = Inr (db, [])"
| "expire_each env meta note now (i # is) db =
     result_bind (moved env meta i is_pending (expired_row now note) now db) (\<lambda>(db1, moved_row).
     result_bind (expire_each env meta note now is db1) (\<lambda>(db2, gone).
       Inr (db2, (if moved_row = None then gone else i # gone))))"

fun interrupt_each :: "exec_env \<Rightarrow> write_meta \<Rightarrow> int \<Rightarrow> int list \<Rightarrow> exec_db \<Rightarrow> exec_db core_result" where
  "interrupt_each env meta now [] db = Inr db"
| "interrupt_each env meta now (i # is) db =
     result_bind (moved env meta i is_running (interrupted_row now) now db) (\<lambda>(db1, moved_row).
     result_bind (case moved_row of None \<Rightarrow> Inr db1
         | Some r \<Rightarrow> result_bind (publish_db env i ''exec.end'' (end_payload r) now db1) (\<lambda>(db2, _). Inr db2)) (\<lambda>db2.
       interrupt_each env meta now is db2))"

definition due_ids :: "exec_db \<Rightarrow> int \<Rightarrow> int list" where
  "due_ids db now = map ex_id (filter (\<lambda>r. is_pending r \<and> ex_expires_at r \<le> now) (xr_rows db))"

definition is_overdue :: "int \<Rightarrow> exec_row \<Rightarrow> bool" where
  "is_overdue now r \<longleftrightarrow> is_running r \<and>
     (case ex_started_at r of None \<Rightarrow> False | Some t \<Rightarrow> t + ex_timeout_ms r + RUN_GRACE_MS \<le> now)"

definition overdue_ids :: "exec_db \<Rightarrow> int \<Rightarrow> int list" where
  "overdue_ids db now = map ex_id (filter (is_overdue now) (xr_rows db))"

definition settle :: "exec_env \<Rightarrow> write_meta \<Rightarrow> int \<Rightarrow> exec_db \<Rightarrow> (exec_db \<times> int list) core_result" where
  "settle env meta now db =
     result_bind (expire_each env meta ''expired: nobody answered it in two hours'' now (due_ids db now) db) (\<lambda>(db1, gone).
     result_bind (interrupt_each env meta now (overdue_ids db1 now) db1) (\<lambda>db2. Inr (db2, gone)))"

section \<open>The operations\<close>

record requested =
  rd_row :: exec_row
  rd_folded :: bool

definition ifnull :: "string option \<Rightarrow> string" where
  "ifnull x = (case x of None \<Rightarrow> [] | Some s \<Rightarrow> s)"

text \<open>The columns of the partial unique index over the pending rows.\<close>

definition fold_key :: "exec_row \<Rightarrow> string \<times> string \<times> string \<times> exec_target \<times> exec_target \<times> string \<times> string \<times> int" where
  "fold_key r =
     (rq_session (ex_requester r), ex_argv r, ex_dir r, ex_dir_side r, ex_target r,
      ifnull (map_option pn_head (ex_pin r)), ifnull (map_option pn_changes (ex_pin r)), ex_timeout_ms r)"

definition asked_row :: "requester \<Rightarrow> exec_ask \<Rightarrow> string \<Rightarrow> int \<Rightarrow> int \<Rightarrow> exec_row" where
  "asked_row rq ask argv now i =
     \<lparr>ex_id = i, ex_created_at = now, ex_expires_at = saturating_add now EXPIRES_AFTER_MS, ex_requester = rq,
      ex_target = ak_target ask, ex_dir = ak_dir ask, ex_dir_side = ak_dir_side ask, ex_argv = argv,
      ex_reason = ak_reason ask, ex_pin = ak_pin ask,
      ex_timeout_ms = (case ak_timeout_ms ask of None \<Rightarrow> DEFAULT_TIMEOUT_MS | Some t \<Rightarrow> t),
      ex_state = X_Pending, ex_refuse_reason = None, ex_note = None, ex_runner = None, ex_started_at = None,
      ex_ended_at = None, ex_exit_status = None, ex_outcome = None\<rparr>"

definition request_spec :: topic_spec where
  "request_spec = topic_spec_default\<lparr>ts_max_bytes := TOPIC_MAX_BYTES, ts_default_ttl_ms := Some TOPIC_TTL_MS\<rparr>"

definition exec_request ::
  "exec_env \<Rightarrow> write_meta \<Rightarrow> requester \<Rightarrow> exec_ask \<Rightarrow> int \<Rightarrow> exec_db \<Rightarrow> (exec_db \<times> requested) core_result" where
  "exec_request env meta rq ask now db =
     result_bind (requester_check rq) (\<lambda>_.
     result_bind (ask_check env ask) (\<lambda>argv.
     result_bind (settle env meta now db) (\<lambda>(db0, _).
       let i = xr_seq db0 + 1; r = asked_row rq ask argv now i in
       case List.find (\<lambda>x. is_pending x \<and> fold_key x = fold_key r) (xr_rows db0) of
         None \<Rightarrow>
           let db1 = db0\<lparr>xr_rows := xr_rows db0 @ [r], xr_seq := i\<rparr> in
           result_bind (row_json db1 i) (\<lambda>after.
           result_bind (changelog_upsert (xr_log db1) meta E_ExecRequests (int_str i) None (Some after)) (\<lambda>log.
           result_bind (topic_create_reserved (xr_mq db1) (exec_topic i) request_spec now) (\<lambda>(mq1, _).
           result_bind (exec_must_get env db1 i) (\<lambda>stored.
           result_bind (post_direct (en_to_json env) (en_from_json env) mq1 (wire_id i) (rq_session (ex_requester stored))
               (''Run request '' @ wire_id (ex_id stored)) (notification_body stored) now) (\<lambda>(mq2, _).
           result_bind (announce env stored now mq2) (\<lambda>mq3.
             Inr (db1\<lparr>xr_log := log, xr_mq := mq3\<rparr>, \<lparr>rd_row = stored, rd_folded = False\<rparr>)))))))
       | Some x \<Rightarrow>
           result_bind (exec_must_get env db0 (ex_id x)) (\<lambda>stored. Inr (db0, \<lparr>rd_row = stored, rd_folded = True\<rparr>)))))"

definition not_pending :: "exec_row \<Rightarrow> string \<Rightarrow> core_error" where
  "not_pending r verb =
     Stale (''cannot '' @ verb @ '' '' @ wire_id (ex_id r) @ '': it is '' @ exec_state_as_str (ex_state r) @ '', not pending'')"

text \<open>A compare-and-set that must take, with the error for when it does not.\<close>

definition moved_or ::
  "core_error \<Rightarrow> (exec_db \<times> exec_row option) core_result \<Rightarrow> (exec_db \<times> exec_row) core_result" where
  "moved_or e res =
     result_bind res (\<lambda>(db, r). case r of None \<Rightarrow> Inl e | Some x \<Rightarrow> Inr (db, x))"

definition refused_row :: "int \<Rightarrow> refuse_reason \<Rightarrow> exec_row \<Rightarrow> exec_row" where
  "refused_row now why r = r\<lparr>ex_state := X_Refused, ex_refuse_reason := Some why, ex_ended_at := Some now\<rparr>"

definition running_row :: "int \<Rightarrow> string \<Rightarrow> exec_row \<Rightarrow> exec_row" where
  "running_row now runner r = r\<lparr>ex_state := X_Running, ex_runner := Some runner, ex_started_at := Some now\<rparr>"

definition declined_row :: "int \<Rightarrow> string \<Rightarrow> exec_row \<Rightarrow> exec_row" where
  "declined_row now note r = r\<lparr>ex_state := X_Declined, ex_note := Some note, ex_ended_at := Some now\<rparr>"

definition exec_out_default :: exec_out where
  "exec_out_default = \<lparr>eo_tail = [], eo_total_bytes = 0, eo_truncated = False, eo_chunks = 0, eo_log_path = None\<rparr>"

definition begin_output :: "int \<Rightarrow> (int \<times> exec_out) list \<Rightarrow> (int \<times> exec_out) list" where
  "begin_output i outs = (case map_of outs i of None \<Rightarrow> outs @ [(i, exec_out_default)] | Some _ \<Rightarrow> outs)"

definition exec_begin ::
  "exec_env \<Rightarrow> write_meta \<Rightarrow> int \<Rightarrow> tree_pin option \<Rightarrow> string \<Rightarrow> int \<Rightarrow> exec_db \<Rightarrow> (exec_db \<times> begun) core_result" where
  "exec_begin env meta i pin runner now db =
     result_bind (exec_check_text ''runner'' runner exec_MAX_NAME_BYTES False) (\<lambda>_.
     result_bind (check_pin pin) (\<lambda>_.
     result_bind (settle env meta now db) (\<lambda>(db0, expired).
     result_bind (exec_must_get env db0 i) (\<lambda>r.
       if i \<in> set expired then Inr (db0, Bg_Expired r)
       else if ex_state r \<noteq> X_Pending then Inl (not_pending r ''begin'')
       else if ex_pin r \<noteq> pin
       then result_bind (moved_or (not_pending r ''refuse'') (moved env meta i is_pending (refused_row now X_TreeChanged) now db0))
         (\<lambda>(db1, x). Inr (db1, Bg_Refused x))
       else result_bind (moved_or (not_pending r ''begin'') (moved env meta i is_pending (running_row now runner) now db0))
         (\<lambda>(db1, x). Inr (db1\<lparr>xr_outputs := begin_output i (xr_outputs db1)\<rparr>, Bg_Running x))))))"

definition exec_decline ::
  "exec_env \<Rightarrow> write_meta \<Rightarrow> int \<Rightarrow> string \<Rightarrow> int \<Rightarrow> exec_db \<Rightarrow> (exec_db \<times> exec_row) core_result" where
  "exec_decline env meta i note now db =
     (if char_count note > MAX_NOTE_CHARS
      then Inl (validation (''the note is longer than '' @ nat_str MAX_NOTE_CHARS @ '' characters''))
      else if CHR 0x00 \<in> set note then Inl (validation ''the note contains a NUL byte'')
      else result_bind (settle env meta now db) (\<lambda>(db0, _).
        result_bind (exec_must_get env db0 i) (\<lambda>r.
          moved_or (not_pending r ''decline'') (moved env meta i is_pending (declined_row now note) now db0))))"

definition exec_refuse ::
  "exec_env \<Rightarrow> write_meta \<Rightarrow> int \<Rightarrow> refuse_reason \<Rightarrow> int \<Rightarrow> exec_db \<Rightarrow> (exec_db \<times> exec_row) core_result" where
  "exec_refuse env meta i why now db =
     result_bind (settle env meta now db) (\<lambda>(db0, _).
     result_bind (exec_must_get env db0 i) (\<lambda>r.
       moved_or (not_pending r ''refuse'') (moved env meta i is_pending (refused_row now why) now db0)))"

definition settled_by_age :: "string \<Rightarrow> exec_row \<Rightarrow> bool" where
  "settled_by_age runner r \<longleftrightarrow>
     ex_state r = X_Finished \<and> ex_outcome r = Some X_Interrupted \<and> ex_note r = Some SETTLED_INTERRUPT \<and>
     ex_runner r = Some runner"

definition held_by :: "exec_row \<Rightarrow> string \<Rightarrow> string \<Rightarrow> unit core_result" where
  "held_by r runner verb =
     (if ex_state r \<noteq> X_Running
      then Inl (Stale (''cannot '' @ verb @ '' '' @ wire_id (ex_id r) @ '': it is '' @ exec_state_as_str (ex_state r) @
             '', not running''))
      else if ex_runner r \<noteq> Some runner
      then Inl (Stale (''cannot '' @ verb @ '' '' @ wire_id (ex_id r) @ '': it is running under another runner''))
      else Inr ())"

text \<open>Replace the value of a key, or add it.\<close>

definition put_out :: "int \<Rightarrow> exec_out \<Rightarrow> (int \<times> exec_out) list \<Rightarrow> (int \<times> exec_out) list" where
  "put_out i x outs =
     (case map_of outs i of None \<Rightarrow> outs @ [(i, x)] | Some _ \<Rightarrow> map (\<lambda>(k, v). if k = i then (k, x) else (k, v)) outs)"

definition out_of :: "exec_db \<Rightarrow> int \<Rightarrow> exec_out" where
  "out_of db i = (case map_of (xr_outputs db) i of None \<Rightarrow> exec_out_default | Some x \<Rightarrow> x)"

definition exec_output_chunk ::
  "exec_env \<Rightarrow> write_meta \<Rightarrow> int \<Rightarrow> string \<Rightarrow> string \<Rightarrow> int \<Rightarrow> exec_db
     \<Rightarrow> (exec_db \<times> int option \<times> int) core_result" where
  "exec_output_chunk env meta i runner chunk now db =
     (if chunk = [] \<or> length chunk > MAX_CHUNK_BYTES
      then Inl (validation (''an output chunk is 1..='' @ nat_str MAX_CHUNK_BYTES @ '' bytes; this one is '' @
             nat_str (length chunk)))
      else result_bind (settle env meta now db) (\<lambda>(db0, _).
        result_bind (exec_must_get env db0 i) (\<lambda>r.
        result_bind (if settled_by_age runner r then Inr () else held_by r runner ''publish output for'') (\<lambda>_.
          let out = out_of db0 i;
              db1 = db0\<lparr>xr_outputs := put_out i (out\<lparr>eo_chunks := eo_chunks out + 1\<rparr>) (xr_outputs db0)\<rparr>;
              n = eo_chunks out
          in result_bind (publish_db env i ''exec.output'' (JObj [(''b64'', JStr (en_base64 env chunk)), (''n'', JNum n)]) now db1)
            (\<lambda>(db2, seq). Inr (db2, seq, n))))))"

definition store_output :: "int \<Rightarrow> finished \<Rightarrow> int \<Rightarrow> exec_db \<Rightarrow> exec_db" where
  "store_output i fin tail_len db =
     db\<lparr>xr_outputs := put_out i ((out_of db i)\<lparr>eo_tail := fi_tail fin, eo_total_bytes := fi_total_bytes fin,
       eo_truncated := (fi_total_bytes fin > tail_len), eo_log_path := fi_log_path fin\<rparr>) (xr_outputs db)\<rparr>"

definition finish_checks :: "finished \<Rightarrow> unit core_result" where
  "finish_checks fin =
     (if length (fi_tail fin) > MAX_TAIL_BYTES
      then Inl (validation (''the tail is '' @ nat_str (length (fi_tail fin)) @ '' bytes; a row keeps at most '' @
             nat_str MAX_TAIL_BYTES))
      else if fi_total_bytes fin < int (length (fi_tail fin))
      then Inl (validation ''total_bytes is less than the tail it ends with'')
      else if (fi_outcome fin = X_Exited \<or> fi_outcome fin = X_Signalled) \<and> fi_exit_status fin = None
      then Inl (validation (''an outcome of '' @ exec_outcome_as_str (fi_outcome fin) @ '' needs its exit status''))
      else case fi_log_path fin of None \<Rightarrow> Inr () | Some p \<Rightarrow> exec_check_text ''log path'' p MAX_PATH_BYTES False)"

definition corrected_row :: "int \<Rightarrow> finished \<Rightarrow> exec_row \<Rightarrow> exec_row" where
  "corrected_row now fin r =
     r\<lparr>ex_outcome := Some (fi_outcome fin), ex_exit_status := fi_exit_status fin, ex_ended_at := Some now, ex_note := None\<rparr>"

definition finished_row :: "int \<Rightarrow> finished \<Rightarrow> exec_row \<Rightarrow> exec_row" where
  "finished_row now fin r =
     r\<lparr>ex_state := X_Finished, ex_outcome := Some (fi_outcome fin), ex_exit_status := fi_exit_status fin,
       ex_ended_at := Some now\<rparr>"

definition stored_end ::
  "exec_env \<Rightarrow> int \<Rightarrow> finished \<Rightarrow> int \<Rightarrow> exec_db \<times> exec_row \<Rightarrow> (exec_db \<times> exec_row) core_result" where
  "stored_end env i fin now = (\<lambda>(db, r).
     result_bind (publish_db env i ''exec.end'' (end_payload r) now (store_output i fin (int (length (fi_tail fin))) db))
       (\<lambda>(db', _). Inr (db', r)))"

definition exec_finish ::
  "exec_env \<Rightarrow> write_meta \<Rightarrow> int \<Rightarrow> finished \<Rightarrow> int \<Rightarrow> exec_db \<Rightarrow> (exec_db \<times> exec_row) core_result" where
  "exec_finish env meta i fin now db =
     result_bind (finish_checks fin) (\<lambda>_.
     result_bind (settle env meta now db) (\<lambda>(db0, _).
     result_bind (exec_must_get env db0 i) (\<lambda>r.
       if settled_by_age (fi_runner fin) r
       then result_bind (moved_or (Stale (wire_id (ex_id r) @ '' changed under its finish''))
           (moved env meta i (settled_by_age (fi_runner fin)) (corrected_row now fin) now db0)) (stored_end env i fin now)
       else if ex_state r = X_Finished
       then (if ex_runner r = Some (fi_runner fin) \<and> ex_outcome r = Some (fi_outcome fin) \<and>
                ex_exit_status r = fi_exit_status fin
             then Inr (db0, r)
             else Inl (Stale (wire_id (ex_id r) @ '' already finished with other values, or under another runner'')))
       else result_bind (held_by r (fi_runner fin) ''finish'') (\<lambda>_.
         result_bind (moved_or (not_pending r ''finish'')
           (moved env meta i (\<lambda>x. is_running x \<and> ex_runner x = Some (fi_runner fin)) (finished_row now fin) now db0))
           (stored_end env i fin now)))))"

definition output_of :: "exec_db \<Rightarrow> int \<Rightarrow> exec_out option" where
  "output_of db i = map_of (xr_outputs db) i"

definition exec_status ::
  "exec_env \<Rightarrow> write_meta \<Rightarrow> int \<Rightarrow> int \<Rightarrow> exec_db \<Rightarrow> (exec_db \<times> (exec_row \<times> exec_out option) option) core_result" where
  "exec_status env meta i now db =
     result_bind (settle env meta now db) (\<lambda>(db0, _).
     result_bind (exec_get env db0 i) (\<lambda>found.
       case found of None \<Rightarrow> Inr (db0, None) | Some r \<Rightarrow> Inr (db0, Some (r, output_of db0 i))))"

section \<open>Listing\<close>

definition row_bytes :: "exec_row \<Rightarrow> nat" where
  "row_bytes r = length (ex_argv r) + length (ex_dir r) + length (ex_reason r) + length (ifnull (ex_note r))"

text \<open>The loop over the fetched rows: the rows kept, and whether the page was cut by its bytes.\<close>

fun page_rows :: "exec_env \<Rightarrow> exec_row list \<Rightarrow> nat \<Rightarrow> exec_row list \<Rightarrow> (exec_row list \<times> bool) core_result" where
  "page_rows env [] bytes acc = Inr (acc, False)"
| "page_rows env (r # rs) bytes acc =
     (if acc \<noteq> [] \<and> bytes \<ge> PAGE_BYTES then Inr (acc, True)
      else result_bind (parse_row env r) (\<lambda>x. page_rows env rs (bytes + row_bytes r) (acc @ [x])))"

definition listed_rows :: "exec_filter \<Rightarrow> int option \<Rightarrow> exec_row list \<Rightarrow> exec_row list" where
  "listed_rows flt after rows =
     (let from = (case after of Some a \<Rightarrow> a | None \<Rightarrow> if xf_newest_first flt then i64_MAX else 0);
          sel = (\<lambda>r. (if xf_newest_first flt then ex_id r < from else ex_id r > from) \<and>
            (case xf_state flt of None \<Rightarrow> True | Some s \<Rightarrow> ex_state r = s) \<and>
            (case xf_session flt of None \<Rightarrow> True | Some s \<Rightarrow> rq_session (ex_requester r) = s))
      in (if xf_newest_first flt then rev (filter sel rows) else filter sel rows))"

definition exec_list ::
  "exec_env \<Rightarrow> write_meta \<Rightarrow> exec_filter \<Rightarrow> int option \<Rightarrow> int \<Rightarrow> exec_db
     \<Rightarrow> (exec_db \<times> exec_row list \<times> int option) core_result" where
  "exec_list env meta flt after now db =
     result_bind (settle env meta now db) (\<lambda>(db0, _).
       let raw = take (exec_PAGE + 1) (listed_rows flt after (xr_rows db0));
           more = length raw > exec_PAGE
       in result_bind (page_rows env (take exec_PAGE raw) 0 []) (\<lambda>(rows, short).
         Inr (db0, rows, if (more \<or> short) \<and> rows \<noteq> [] then Some (ex_id (last rows)) else None)))"

section \<open>Following, and the end of a session\<close>

definition exec_follow :: "exec_env \<Rightarrow> int \<Rightarrow> int \<Rightarrow> nat \<Rightarrow> int \<Rightarrow> exec_db \<Rightarrow> json delivered list core_result" where
  "exec_follow env i after mx now db =
     result_bind (exec_must_get env db i) (\<lambda>_.
       case read_reserved (en_from_json env) (xr_mq db) (exec_topic i) after mx now of
         Inl (Queue (NoSuchTopic _)) \<Rightarrow> Inr []
       | other \<Rightarrow> other)"

definition expire_session ::
  "exec_env \<Rightarrow> write_meta \<Rightarrow> string \<Rightarrow> int \<Rightarrow> exec_db \<Rightarrow> (exec_db \<times> nat) core_result" where
  "expire_session env meta sess now db =
     result_bind (settle env meta now db) (\<lambda>(db0, _).
     result_bind (expire_each env meta ''expired: the requesting session ended'' now
         (map ex_id (filter (\<lambda>r. is_pending r \<and> rq_session (ex_requester r) = sess) (xr_rows db0))) db0) (\<lambda>(db1, gone).
       Inr (db1, length gone)))"

text \<open>What the session registry says of the session is an argument: whether it has ended.\<close>

definition expire_if_ended ::
  "exec_env \<Rightarrow> write_meta \<Rightarrow> bool core_result \<Rightarrow> string \<Rightarrow> int \<Rightarrow> exec_db \<Rightarrow> (exec_db \<times> nat) core_result" where
  "expire_if_ended env meta session_ended sess now db =
     result_bind session_ended (\<lambda>ended. if ended then expire_session env meta sess now db else Inr (db, 0))"

section \<open>The index topic\<close>

definition index_group_create :: "string \<Rightarrow> start \<Rightarrow> int \<Rightarrow> exec_db \<Rightarrow> (exec_db \<times> created) core_result" where
  "index_group_create grp start now db =
     result_bind (ensure_index (xr_mq db) now) (\<lambda>mq1.
     result_bind (group_create_reserved mq1 INDEX_TOPIC grp start now) (\<lambda>(mq2, c). Inr (db\<lparr>xr_mq := mq2\<rparr>, c)))"

definition index_group_delete :: "string \<Rightarrow> exec_db \<Rightarrow> (exec_db \<times> bool) core_result" where
  "index_group_delete grp db =
     result_bind (group_delete_reserved (xr_mq db) INDEX_TOPIC grp) (\<lambda>(mq, gone). Inr (db\<lparr>xr_mq := mq\<rparr>, gone))"

definition index_poll ::
  "exec_env \<Rightarrow> string \<Rightarrow> nat \<Rightarrow> int option \<Rightarrow> int \<Rightarrow> exec_db \<Rightarrow> (exec_db \<times> json delivered list) core_result" where
  "index_poll env grp mx after now db =
     result_bind (poll_reserved (en_from_json env) (xr_mq db) INDEX_TOPIC grp mx after now)
       (\<lambda>(mq, ms). Inr (db\<lparr>xr_mq := mq\<rparr>, ms))"

definition index_poll_needed :: "string \<Rightarrow> nat \<Rightarrow> int option \<Rightarrow> int \<Rightarrow> exec_db \<Rightarrow> bool core_result" where
  "index_poll_needed grp mx after now db = poll_needed_reserved (xr_mq db) INDEX_TOPIC grp mx after now"

definition index_ack :: "string \<Rightarrow> int \<Rightarrow> int \<Rightarrow> exec_db \<Rightarrow> (exec_db \<times> int) core_result" where
  "index_ack grp seq now db =
     result_bind (ack_reserved (xr_mq db) INDEX_TOPIC grp seq now) (\<lambda>(mq, p). Inr (db\<lparr>xr_mq := mq\<rparr>, p))"

end
