(* ===== verification/Exec_Lifecycle.thy ===== *)
theory Exec_Lifecycle
  imports Core_Exec
begin

text \<open>
  What the run-request operations promise, as a step relation: the table of state moves at the head
  of \<open>exec.rs\<close>, each move a rule over one row (\<open>exec_move\<close>), and a step of the table of rows
  (\<open>exec_step\<close>), which moves rows or adds a pending one. Every operation of \<open>Core_Exec\<close> is shown
  to be a sequence of these steps; the properties of rows over any run then follow by induction over
  the steps, whatever the queue's clients do in between.
\<close>

section \<open>The moves\<close>

inductive exec_move :: "int \<Rightarrow> exec_row \<Rightarrow> exec_row \<Rightarrow> bool" for now :: int where
  mv_run: "\<lbrakk>is_pending r; now < ex_expires_at r\<rbrakk> \<Longrightarrow> exec_move now r (running_row now runner r)"
| mv_decline: "is_pending r \<Longrightarrow> exec_move now r (declined_row now note r)"
| mv_refuse: "is_pending r \<Longrightarrow> exec_move now r (refused_row now why r)"
| mv_expire: "is_pending r \<Longrightarrow> exec_move now r (expired_row now note r)"
| mv_interrupt: "is_running r \<Longrightarrow> exec_move now r (interrupted_row now r)"
| mv_finish: "\<lbrakk>is_running r; ex_runner r = Some (fi_runner fin); finish_checks fin = Inr ()\<rbrakk>
    \<Longrightarrow> exec_move now r (finished_row now fin r)"
| mv_correct: "\<lbrakk>settled_by_age (fi_runner fin) r; finish_checks fin = Inr ()\<rbrakk>
    \<Longrightarrow> exec_move now r (corrected_row now fin r)"

inductive_cases exec_moveE: "exec_move now r r'"

definition exec_moves :: "int \<Rightarrow> exec_row list \<Rightarrow> exec_row list \<Rightarrow> bool" where
  "exec_moves now = list_all2 (\<lambda>r r'. r' = r \<or> exec_move now r r')"

type_synonym exec_rows = "exec_row list \<times> int"

inductive exec_step :: "exec_env \<Rightarrow> int \<Rightarrow> exec_rows \<Rightarrow> exec_rows \<Rightarrow> bool" for env :: exec_env and now :: int where
  es_moves: "exec_moves now rows rows' \<Longrightarrow> exec_step env now (rows, n) (rows', n)"
| es_ask: "\<lbrakk>requester_check rq = Inr (); ask_check env ask = Inr argv;
     \<not> (\<exists>x \<in> set rows. is_pending x \<and> fold_key x = fold_key (asked_row rq ask argv now (n + 1)))\<rbrakk>
    \<Longrightarrow> exec_step env now (rows, n) (rows @ [asked_row rq ask argv now (n + 1)], n + 1)"

inductive_cases exec_stepE: "exec_step env now s s'"

abbreviation exec_steps :: "exec_env \<Rightarrow> int \<Rightarrow> exec_rows \<Rightarrow> exec_rows \<Rightarrow> bool" where
  "exec_steps env now \<equiv> (exec_step env now)\<^sup>*\<^sup>*"

abbreviation exec_table :: "exec_db \<Rightarrow> exec_rows" where
  "exec_table db \<equiv> (xr_rows db, xr_seq db)"

lemma exec_moves_refl [simp, intro]: "exec_moves now rows rows"
  by (simp add: exec_moves_def list_all2_refl)

section \<open>Each operation is steps\<close>

lemma set_rows_moves:
  assumes "\<And>r. r \<in> set rows \<Longrightarrow> ex_id r = i \<Longrightarrow> ok r \<Longrightarrow> exec_move now r (upd r)"
  shows "exec_moves now rows (set_rows i ok upd rows)"
  using assms by (auto simp: exec_moves_def set_rows_def list_all2_conv_all_nth)

text \<open>A compare-and-set touches the row store by its update only, and says which row it moved.\<close>

lemma moved_Inr:
  assumes "moved env meta i ok upd now db = Inr (db', res)"
  shows "(case res of
      None \<Rightarrow> db' = db
    | Some r \<Rightarrow> xr_rows db' = set_rows i ok upd (xr_rows db) \<and> exec_find db' i = Some r \<and>
        (\<exists>x \<in> set (xr_rows db). ex_id x = i \<and> ok x)) \<and>
    (res = None \<longrightarrow> \<not> (\<exists>x \<in> set (xr_rows db). ex_id x = i \<and> ok x)) \<and>
    xr_seq db' = xr_seq db \<and> xr_outputs db' = xr_outputs db"
  using assms
  by (auto simp: moved_def result_bind_Inr Let_def exec_must_get_def exec_get_def parse_row_def exec_find_def
      split: if_splits option.splits)

lemma moved_steps:
  assumes "moved env meta i ok upd now db = Inr (db', res)"
    and "\<And>r. r \<in> set (xr_rows db) \<Longrightarrow> ex_id r = i \<Longrightarrow> ok r \<Longrightarrow> exec_move now r (upd r)"
  shows "exec_moves now (xr_rows db) (xr_rows db')"
  using moved_Inr [OF assms(1)] set_rows_moves [of "xr_rows db" i ok now upd] assms(2)
  by (auto split: option.splits)

text \<open>A sequence of whole-table moves, with no row added.\<close>

abbreviation moves_star :: "int \<Rightarrow> exec_row list \<Rightarrow> exec_row list \<Rightarrow> bool" where
  "moves_star now \<equiv> (exec_moves now)\<^sup>*\<^sup>*"

lemma moves_star_steps: "moves_star now rows rows' \<Longrightarrow> exec_steps env now (rows, n) (rows', n)"
  by (induction rule: rtranclp_induct) (auto intro: rtranclp.rtrancl_into_rtrancl es_moves)

lemma expire_each_moves:
  assumes "expire_each env meta note now is db = Inr (db', gone)"
  shows "moves_star now (xr_rows db) (xr_rows db') \<and> xr_seq db' = xr_seq db \<and> xr_outputs db' = xr_outputs db"
  using assms
proof (induction "is" arbitrary: db gone)
  case (Cons i "is")
  then obtain db1 m rest where
    m: "moved env meta i is_pending (expired_row now note) now db = Inr (db1, m)"
    and e: "expire_each env meta note now is db1 = Inr (db', rest)" by (auto simp: result_bind_Inr)
  have "exec_moves now (xr_rows db) (xr_rows db1)" by (rule moved_steps [OF m]) (rule mv_expire)
  with Cons.IH [OF e] moved_Inr [OF m] show ?case by (auto intro: converse_rtranclp_into_rtranclp)
qed simp

lemma publish_db_rows:
  "publish_db env i kind payload now db = Inr (db', seq) \<Longrightarrow>
     xr_rows db' = xr_rows db \<and> xr_seq db' = xr_seq db \<and> xr_outputs db' = xr_outputs db"
  by (auto simp: publish_db_def result_bind_Inr)

lemma interrupt_each_moves:
  assumes "interrupt_each env meta now is db = Inr db'"
  shows "moves_star now (xr_rows db) (xr_rows db') \<and> xr_seq db' = xr_seq db \<and> xr_outputs db' = xr_outputs db"
  using assms
proof (induction "is" arbitrary: db)
  case (Cons i "is")
  then obtain db1 m db2 where
    m: "moved env meta i is_running (interrupted_row now) now db = Inr (db1, m)"
    and p: "xr_rows db2 = xr_rows db1" "xr_seq db2 = xr_seq db1" "xr_outputs db2 = xr_outputs db1"
    and e: "interrupt_each env meta now is db2 = Inr db'"
    by (auto simp: result_bind_Inr split: option.splits dest!: publish_db_rows)
  have "exec_moves now (xr_rows db) (xr_rows db1)" by (rule moved_steps [OF m]) (rule mv_interrupt)
  with Cons.IH [OF e] moved_Inr [OF m] p show ?case by (auto intro: converse_rtranclp_into_rtranclp)
qed simp

lemma settle_moves:
  assumes "settle env meta now db = Inr (db', gone)"
  shows "moves_star now (xr_rows db) (xr_rows db')" "xr_seq db' = xr_seq db" "xr_outputs db' = xr_outputs db"
proof -
  from assms obtain db1 where "expire_each env meta ''expired: nobody answered it in two hours'' now (due_ids db now) db = Inr (db1, gone)"
    "interrupt_each env meta now (overdue_ids db1 now) db1 = Inr db'"
    by (auto simp: settle_def result_bind_Inr)
  from expire_each_moves [OF this(1)] interrupt_each_moves [OF this(2)]
  show "moves_star now (xr_rows db) (xr_rows db')" "xr_seq db' = xr_seq db" "xr_outputs db' = xr_outputs db" by auto
qed

section \<open>A row over the steps\<close>

lemma exec_move_id: "exec_move now r r' \<Longrightarrow> ex_id r' = ex_id r"
  by (erule exec_moveE)
    (simp_all add: running_row_def declined_row_def refused_row_def expired_row_def interrupted_row_def
      finished_row_def corrected_row_def)

lemmas row_defs =
  running_row_def declined_row_def refused_row_def expired_row_def interrupted_row_def finished_row_def
  corrected_row_def is_pending_def is_running_def settled_by_age_def

lemma find_all2:
  assumes "list_all2 P rows rows'" and "\<And>r r'. P r r' \<Longrightarrow> ex_id r' = ex_id r"
  shows "rel_option P (List.find (\<lambda>r. ex_id r = i) rows) (List.find (\<lambda>r. ex_id r = i) rows')"
  using assms by (induction rule: list_all2_induct) auto

lemma exec_find_moves:
  "exec_moves now rows rows' \<Longrightarrow>
     rel_option (\<lambda>r r'. r' = r \<or> exec_move now r r')
       (List.find (\<lambda>r. ex_id r = i) rows) (List.find (\<lambda>r. ex_id r = i) rows')"
  unfolding exec_moves_def by (rule find_all2) (auto dest: exec_move_id)

lemma find_append_keeps: "List.find P xs = Some x \<Longrightarrow> List.find P (xs @ ys) = Some x"
  by (induction xs) (auto split: if_splits)

text \<open>
  What of a request cannot change, which states follow which, and that an answer is final. A run
  ended by its age alone may still be corrected by its own runner.
\<close>

definition asks_same :: "exec_row \<Rightarrow> exec_row \<Rightarrow> bool" where
  "asks_same r r' \<longleftrightarrow>
     ex_id r' = ex_id r \<and> ex_created_at r' = ex_created_at r \<and> ex_expires_at r' = ex_expires_at r \<and>
     ex_requester r' = ex_requester r \<and> ex_target r' = ex_target r \<and> ex_dir r' = ex_dir r \<and>
     ex_dir_side r' = ex_dir_side r \<and> ex_argv r' = ex_argv r \<and> ex_reason r' = ex_reason r \<and>
     ex_pin r' = ex_pin r \<and> ex_timeout_ms r' = ex_timeout_ms r"

fun leads_to :: "exec_state \<Rightarrow> exec_state \<Rightarrow> bool" where
  "leads_to X_Pending s = True"
| "leads_to X_Running s = (s = X_Running \<or> s = X_Finished)"
| "leads_to s s' = (s' = s)"

definition answer_final :: "exec_row \<Rightarrow> bool" where
  "answer_final r \<longleftrightarrow>
     exec_is_terminal (ex_state r) \<and>
     \<not> (ex_state r = X_Finished \<and> ex_outcome r = Some X_Interrupted \<and> ex_note r = Some SETTLED_INTERRUPT)"

definition exec_later :: "exec_row \<Rightarrow> exec_row \<Rightarrow> bool" where
  "exec_later r r' \<longleftrightarrow>
     asks_same r r' \<and> leads_to (ex_state r) (ex_state r') \<and> (ex_state r' = X_Pending \<longrightarrow> r' = r) \<and>
     (ex_state r \<noteq> X_Pending \<longrightarrow> ex_runner r' = ex_runner r \<and> ex_started_at r' = ex_started_at r) \<and>
     (answer_final r \<longrightarrow> r' = r)"

lemma exec_later_refl [simp]: "exec_later r r"
  by (cases "ex_state r") (simp_all add: exec_later_def asks_same_def)

lemma leads_to_trans: "leads_to a b \<Longrightarrow> leads_to b c \<Longrightarrow> leads_to a c"
  by (cases a; cases b) auto

lemma leads_to_pending: "leads_to s X_Pending \<Longrightarrow> s = X_Pending"
  by (cases s) auto

lemma exec_later_trans:
  assumes "exec_later a b" "exec_later b c"
  shows "exec_later a c"
proof -
  from assms have ab: "asks_same a b" "leads_to (ex_state a) (ex_state b)" "ex_state b = X_Pending \<longrightarrow> b = a"
    "ex_state a \<noteq> X_Pending \<longrightarrow> ex_runner b = ex_runner a \<and> ex_started_at b = ex_started_at a"
    "answer_final a \<longrightarrow> b = a"
    and bc: "asks_same b c" "leads_to (ex_state b) (ex_state c)" "ex_state c = X_Pending \<longrightarrow> c = b"
    "ex_state b \<noteq> X_Pending \<longrightarrow> ex_runner c = ex_runner b \<and> ex_started_at c = ex_started_at b"
    "answer_final b \<longrightarrow> c = b"
    unfolding exec_later_def by blast+
  have "asks_same a c" using ab(1) bc(1) unfolding asks_same_def by simp
  moreover have "leads_to (ex_state a) (ex_state c)" using ab(2) bc(2) by (rule leads_to_trans)
  moreover have "ex_state c = X_Pending \<longrightarrow> c = a" using ab(3) bc(2,3) leads_to_pending by metis
  moreover have "ex_state a \<noteq> X_Pending \<longrightarrow> ex_runner c = ex_runner a \<and> ex_started_at c = ex_started_at a"
    using ab(3,4) bc(4) by metis
  moreover have "answer_final a \<longrightarrow> c = a" using ab(5) bc(5) by metis
  ultimately show ?thesis unfolding exec_later_def by blast
qed

lemma exec_move_later: "exec_move now r r' \<Longrightarrow> exec_later r r'"
  by (erule exec_moveE)
    (simp_all add: exec_later_def asks_same_def row_defs answer_final_def exec_is_terminal_def)

lemma exec_step_find:
  assumes "exec_step env now s s'" and "List.find (\<lambda>r. ex_id r = i) (fst s) = Some r"
  shows "\<exists>r'. List.find (\<lambda>r. ex_id r = i) (fst s') = Some r' \<and> exec_later r r'"
  using assms(1)
proof (cases rule: exec_step.cases)
  case (es_moves rows rows' n)
  from exec_find_moves [OF es_moves(3), of i] assms(2) es_moves(1) obtain r' where
    "List.find (\<lambda>r. ex_id r = i) rows' = Some r'" "r' = r \<or> exec_move now r r'"
    by (auto simp: option_rel_Some1)
  with es_moves(2) show ?thesis by (auto dest: exec_move_later)
next
  case es_ask
  with assms(2) show ?thesis by (auto dest: find_append_keeps)
qed

lemma moves_star_find:
  assumes "moves_star now rows rows'"
  shows "rel_option exec_later (List.find (\<lambda>r. ex_id r = i) rows) (List.find (\<lambda>r. ex_id r = i) rows')"
  using assms
proof (induction rule: rtranclp_induct)
  case base
  show ?case by (cases "List.find (\<lambda>r. ex_id r = i) rows") simp_all
next
  case (step b c)
  from step.IH exec_find_moves [OF step.hyps(2), of i] show ?case
    by (cases "List.find (\<lambda>r. ex_id r = i) rows"; cases "List.find (\<lambda>r. ex_id r = i) b"; cases "List.find (\<lambda>r. ex_id r = i) c")
      (auto dest: exec_move_later intro: exec_later_trans)
qed

text \<open>After \<open>settle\<close>: a row is there as before or later, and one still pending is as it was and not due.\<close>

lemma settle_find:
  assumes "settle env meta now db = Inr (db', gone)"
  shows "rel_option exec_later (exec_find db i) (exec_find db' i)"
  using moves_star_find [OF settle_moves(1) [OF assms]] by (simp add: exec_find_def)

lemma settle_find_pending:
  assumes "settle env meta now db = Inr (db', gone)" and "exec_find db' i = Some r" and "is_pending r"
  shows "exec_find db i = Some r"
  using settle_find [OF assms(1), of i] assms(2,3) by (auto simp: option_rel_Some2 exec_later_def is_pending_def)

section \<open>What \<open>settle\<close> leaves\<close>

text \<open>A row of the table after a compare-and-set: one the update did not ask for, or an updated one.\<close>

lemma moved_row_cases:
  assumes "moved env meta i ok upd now db = Inr (db', res)" and "r \<in> set (xr_rows db')"
  shows "(r \<in> set (xr_rows db) \<and> \<not> (ex_id r = i \<and> ok r)) \<or> (\<exists>x \<in> set (xr_rows db). ex_id x = i \<and> ok x \<and> r = upd x)"
  using moved_Inr [OF assms(1)] assms(2) by (auto simp: set_rows_def split: option.splits if_splits)

lemma expire_each_leaves:
  assumes "expire_each env meta note now is db = Inr (db', gone)" and "r \<in> set (xr_rows db')" and "is_pending r \<or> is_running r"
  shows "r \<in> set (xr_rows db) \<and> (is_pending r \<longrightarrow> ex_id r \<notin> set is)"
  using assms
proof (induction "is" arbitrary: db gone)
  case (Cons i "is")
  then obtain db1 m rest where
    m: "moved env meta i is_pending (expired_row now note) now db = Inr (db1, m)"
    and e: "expire_each env meta note now is db1 = Inr (db', rest)" by (auto simp: result_bind_Inr)
  from Cons.IH [OF e Cons.prems(2,3)] moved_row_cases [OF m, of r] Cons.prems(3) show ?case
    by (auto simp: row_defs)
qed simp

lemma interrupt_each_leaves:
  assumes "interrupt_each env meta now is db = Inr db'" and "r \<in> set (xr_rows db')" and "is_pending r \<or> is_running r"
  shows "r \<in> set (xr_rows db) \<and> (is_running r \<longrightarrow> ex_id r \<notin> set is)"
  using assms
proof (induction "is" arbitrary: db)
  case (Cons i "is")
  then obtain db1 m db2 where
    m: "moved env meta i is_running (interrupted_row now) now db = Inr (db1, m)"
    and p: "xr_rows db2 = xr_rows db1"
    and e: "interrupt_each env meta now is db2 = Inr db'"
    by (auto simp: result_bind_Inr split: option.splits dest!: publish_db_rows)
  from Cons.IH [OF e Cons.prems(2,3)] moved_row_cases [OF m, of r] p Cons.prems(3) show ?case
    by (auto simp: row_defs)
qed simp

definition nothing_due :: "int \<Rightarrow> exec_row list \<Rightarrow> bool" where
  "nothing_due now rows \<longleftrightarrow> (\<forall>r \<in> set rows. (is_pending r \<longrightarrow> now < ex_expires_at r) \<and> \<not> is_overdue now r)"

lemma settle_leaves:
  assumes "settle env meta now db = Inr (db', gone)"
  shows "nothing_due now (xr_rows db')"
    and "\<And>r. r \<in> set (xr_rows db') \<Longrightarrow> is_pending r \<or> is_running r \<Longrightarrow> r \<in> set (xr_rows db)"
proof -
  from assms obtain db1 where
    e: "expire_each env meta ''expired: nobody answered it in two hours'' now (due_ids db now) db = Inr (db1, gone)"
    and x: "interrupt_each env meta now (overdue_ids db1 now) db1 = Inr db'"
    by (auto simp: settle_def result_bind_Inr)
  show mem: "r \<in> set (xr_rows db)" if "r \<in> set (xr_rows db')" "is_pending r \<or> is_running r" for r
    using interrupt_each_leaves [OF x that] expire_each_leaves [OF e _ that(2)] by blast
  show "nothing_due now (xr_rows db')"
    unfolding nothing_due_def
  proof (intro ballI conjI impI)
    fix r assume r: "r \<in> set (xr_rows db')" "is_pending r"
    then have "r \<in> set (xr_rows db1)" using interrupt_each_leaves [OF x] by blast
    with expire_each_leaves [OF e this] r(2) have "r \<in> set (xr_rows db)" "ex_id r \<notin> set (due_ids db now)" by auto
    with r(2) show "now < ex_expires_at r" by (auto simp: due_ids_def)
  next
    fix r assume r: "r \<in> set (xr_rows db')"
    show "\<not> is_overdue now r"
    proof
      assume o: "is_overdue now r"
      then have "is_running r" by (simp add: is_overdue_def)
      with interrupt_each_leaves [OF x r] have "r \<in> set (xr_rows db1)" "ex_id r \<notin> set (overdue_ids db1 now)" by auto
      with o show False by (auto simp: overdue_ids_def)
    qed
  qed
qed

section \<open>The calls\<close>

datatype exec_call =
  EC_Request requester exec_ask
| EC_Begin int "tree_pin option" string
| EC_Decline int string
| EC_Refuse int refuse_reason
| EC_Output int string string
| EC_Finish int finished
| EC_Status int
| EC_List exec_filter "int option"
| EC_ExpireSession string

abbreviation state_only :: "(exec_db \<times> 'a) core_result \<Rightarrow> exec_db core_result" where
  "state_only res \<equiv> result_bind res (\<lambda>(db, _). Inr db)"

fun exec_apply :: "exec_env \<Rightarrow> write_meta \<Rightarrow> exec_call \<Rightarrow> int \<Rightarrow> exec_db \<Rightarrow> exec_db core_result" where
  "exec_apply env meta (EC_Request rq ask) now db = state_only (exec_request env meta rq ask now db)"
| "exec_apply env meta (EC_Begin i pin runner) now db = state_only (exec_begin env meta i pin runner now db)"
| "exec_apply env meta (EC_Decline i note) now db = state_only (exec_decline env meta i note now db)"
| "exec_apply env meta (EC_Refuse i why) now db = state_only (exec_refuse env meta i why now db)"
| "exec_apply env meta (EC_Output i runner chunk) now db = state_only (exec_output_chunk env meta i runner chunk now db)"
| "exec_apply env meta (EC_Finish i fin) now db = state_only (exec_finish env meta i fin now db)"
| "exec_apply env meta (EC_Status i) now db = state_only (exec_status env meta i now db)"
| "exec_apply env meta (EC_List flt after) now db = state_only (exec_list env meta flt after now db)"
| "exec_apply env meta (EC_ExpireSession sess) now db = state_only (expire_session env meta sess now db)"

text \<open>
  What each call does with the table: settle it, then one of the moves on the settled rows, or the
  new row. The rows of the call's own move are pending and not due when it leaves \<open>pending\<close>.
\<close>

definition settled_to :: "int \<Rightarrow> exec_row list \<Rightarrow> exec_row list \<Rightarrow> bool" where
  "settled_to now rows rows' \<longleftrightarrow> moves_star now rows rows' \<and> nothing_due now rows'"

lemma settle_settled_to:
  "settle env meta now db = Inr (db', gone) \<Longrightarrow> settled_to now (xr_rows db) (xr_rows db') \<and> xr_seq db' = xr_seq db"
  by (simp add: settled_to_def settle_moves settle_leaves)

lemma moved_or_Inr: "moved_or e res = Inr (db', r) \<longleftrightarrow> res = Inr (db', Some r)"
  by (auto simp: moved_or_def result_bind_Inr split: option.splits)

lemma stored_end_Inr:
  "stored_end env i fin now (db, r) = Inr (db', r') \<Longrightarrow> r' = r \<and> xr_rows db' = xr_rows db \<and> xr_seq db' = xr_seq db"
  by (auto simp: stored_end_def result_bind_Inr store_output_def dest!: publish_db_rows)

inductive call_effect :: "exec_env \<Rightarrow> int \<Rightarrow> exec_rows \<Rightarrow> exec_rows \<Rightarrow> bool" for env :: exec_env and now :: int where
  ce_settle: "settled_to now rows rows0 \<Longrightarrow> call_effect env now (rows, n) (rows0, n)"
| ce_move: "\<lbrakk>settled_to now rows rows0; exec_moves now rows0 rows'\<rbrakk> \<Longrightarrow> call_effect env now (rows, n) (rows', n)"
| ce_expire: "\<lbrakk>settled_to now rows rows0; moves_star now rows0 rows'; \<forall>r \<in> set rows'. is_pending r \<or> is_running r \<longrightarrow> r \<in> set rows0\<rbrakk>
    \<Longrightarrow> call_effect env now (rows, n) (rows', n)"
| ce_ask: "\<lbrakk>settled_to now rows rows0; exec_step env now (rows0, n) (rows0 @ [asked_row rq ask argv now (n + 1)], n + 1)\<rbrakk>
    \<Longrightarrow> call_effect env now (rows, n) (rows0 @ [asked_row rq ask argv now (n + 1)], n + 1)"

lemma find_None_iff': "List.find P xs = None \<longleftrightarrow> \<not> (\<exists>x \<in> set xs. P x)"
  by (auto simp: find_None_iff)

lemma exec_request_effect:
  assumes "exec_request env meta rq ask now db = Inr (db', ans)"
  shows "call_effect env now (exec_table db) (exec_table db')"
proof -
  from assms obtain argv db0 gone where c: "requester_check rq = Inr ()" "ask_check env ask = Inr argv"
    and s: "settle env meta now db = Inr (db0, gone)"
    and rest: "case List.find (\<lambda>x. is_pending x \<and> fold_key x = fold_key (asked_row rq ask argv now (xr_seq db0 + 1))) (xr_rows db0) of
        None \<Rightarrow> xr_rows db' = xr_rows db0 @ [asked_row rq ask argv now (xr_seq db0 + 1)] \<and> xr_seq db' = xr_seq db0 + 1
      | Some x \<Rightarrow> db' = db0"
    by (auto simp: exec_request_def result_bind_Inr Let_def split: option.splits)
  note st = settle_settled_to [OF s]
  show ?thesis
  proof (cases "List.find (\<lambda>x. is_pending x \<and> fold_key x = fold_key (asked_row rq ask argv now (xr_seq db0 + 1))) (xr_rows db0)")
    case None
    then have "exec_step env now (xr_rows db0, xr_seq db) (xr_rows db0 @ [asked_row rq ask argv now (xr_seq db + 1)], xr_seq db + 1)"
      using es_ask [OF c, of "xr_rows db0" now "xr_seq db"] st by (simp add: find_None_iff')
    with st rest None show ?thesis by (auto intro: ce_ask)
  next
    case (Some x)
    with rest st show ?thesis by (auto intro: ce_settle)
  qed
qed

lemma exec_begin_effect:
  assumes "exec_begin env meta i pin runner now db = Inr (db', ans)"
  shows "call_effect env now (exec_table db) (exec_table db')"
proof -
  from assms obtain db0 gone where s: "settle env meta now db = Inr (db0, gone)"
    and rest: "db' = db0 \<or>
      (\<exists>x. moved env meta i is_pending (refused_row now X_TreeChanged) now db0 = Inr (db', Some x)) \<or>
      (\<exists>x db1. moved env meta i is_pending (running_row now runner) now db0 = Inr (db1, Some x) \<and>
         xr_rows db' = xr_rows db1 \<and> xr_seq db' = xr_seq db1)"
    by (auto simp: exec_begin_def result_bind_Inr moved_or_Inr split: if_splits)
  note st = settle_settled_to [OF s]
  from rest show ?thesis
  proof (elim disjE exE conjE)
    assume "db' = db0"
    with st show ?thesis by (auto intro: ce_settle)
  next
    fix x assume m: "moved env meta i is_pending (refused_row now X_TreeChanged) now db0 = Inr (db', Some x)"
    have "exec_moves now (xr_rows db0) (xr_rows db')" by (rule moved_steps [OF m]) (rule mv_refuse)
    with st moved_Inr [OF m] show ?thesis by (auto intro: ce_move)
  next
    fix x db1 assume m: "moved env meta i is_pending (running_row now runner) now db0 = Inr (db1, Some x)"
      and e: "xr_rows db' = xr_rows db1" "xr_seq db' = xr_seq db1"
    have "exec_moves now (xr_rows db0) (xr_rows db1)"
      by (rule moved_steps [OF m], rule mv_run) (use st in \<open>auto simp: settled_to_def nothing_due_def\<close>)
    with st moved_Inr [OF m] e show ?thesis by (auto intro: ce_move)
  qed
qed

lemma one_move_effect:
  assumes "settle env meta now db = Inr (db0, gone)" and "moved env meta i ok upd now db0 = Inr (db1, Some x)"
    and "\<And>r. ok r \<Longrightarrow> exec_move now r (upd r)" and "xr_rows db' = xr_rows db1" "xr_seq db' = xr_seq db1"
  shows "call_effect env now (exec_table db) (exec_table db')"
proof -
  have "exec_moves now (xr_rows db0) (xr_rows db1)" by (rule moved_steps [OF assms(2)]) (rule assms(3))
  with settle_settled_to [OF assms(1)] moved_Inr [OF assms(2)] assms(4,5) show ?thesis by (auto intro: ce_move)
qed

lemma exec_decline_effect:
  "exec_decline env meta i note now db = Inr (db', ans) \<Longrightarrow> call_effect env now (exec_table db) (exec_table db')"
  by (auto simp: exec_decline_def result_bind_Inr moved_or_Inr split: if_splits intro!: one_move_effect mv_decline)

lemma exec_refuse_effect:
  "exec_refuse env meta i why now db = Inr (db', ans) \<Longrightarrow> call_effect env now (exec_table db) (exec_table db')"
  by (auto simp: exec_refuse_def result_bind_Inr moved_or_Inr intro!: one_move_effect mv_refuse)

lemma exec_output_effect:
  assumes "exec_output_chunk env meta i runner chunk now db = Inr (db', ans)"
  shows "call_effect env now (exec_table db) (exec_table db')"
proof -
  from assms obtain db0 gone where s: "settle env meta now db = Inr (db0, gone)"
    and "xr_rows db' = xr_rows db0" "xr_seq db' = xr_seq db0"
    by (auto simp: exec_output_chunk_def result_bind_Inr Let_def split: if_splits dest!: publish_db_rows)
  with settle_settled_to [OF s] show ?thesis by (auto intro: ce_settle)
qed

text \<open>The three ways a finish succeeds.\<close>

lemma exec_finish_cases:
  assumes "exec_finish env meta i fin now db = Inr (db', r')"
  obtains db0 gone r where "finish_checks fin = Inr ()" "settle env meta now db = Inr (db0, gone)"
    "exec_find db0 i = Some r" "en_argv_parse env (ex_argv r) \<noteq> None"
    "(\<exists>db1. settled_by_age (fi_runner fin) r \<and> xr_rows db' = xr_rows db1 \<and> xr_seq db' = xr_seq db1 \<and>
        moved env meta i (settled_by_age (fi_runner fin)) (corrected_row now fin) now db0 = Inr (db1, Some r')) \<or>
     (db' = db0 \<and> r' = r \<and> \<not> settled_by_age (fi_runner fin) r \<and> ex_state r = X_Finished \<and>
        ex_runner r = Some (fi_runner fin) \<and> ex_outcome r = Some (fi_outcome fin) \<and> ex_exit_status r = fi_exit_status fin) \<or>
     (\<exists>db1. is_running r \<and> ex_runner r = Some (fi_runner fin) \<and> xr_rows db' = xr_rows db1 \<and> xr_seq db' = xr_seq db1 \<and>
        moved env meta i (\<lambda>x. is_running x \<and> ex_runner x = Some (fi_runner fin)) (finished_row now fin) now db0 = Inr (db1, Some r'))"
  using assms
  by (auto simp: exec_finish_def result_bind_Inr moved_or_Inr exec_must_get_def exec_get_def parse_row_def held_by_def
      is_running_def split: if_splits option.splits dest!: stored_end_Inr)

lemma exec_finish_effect:
  assumes "exec_finish env meta i fin now db = Inr (db', ans)"
  shows "call_effect env now (exec_table db) (exec_table db')"
  using assms
proof (rule exec_finish_cases, elim disjE exE conjE)
  fix db0 gone r db1
  assume "finish_checks fin = Inr ()" and s: "settle env meta now db = Inr (db0, gone)"
    and "moved env meta i (settled_by_age (fi_runner fin)) (corrected_row now fin) now db0 = Inr (db1, Some ans)"
    and "xr_rows db' = xr_rows db1" "xr_seq db' = xr_seq db1"
  then show ?thesis by (auto intro!: one_move_effect mv_correct)
next
  fix db0 gone r
  assume s: "settle env meta now db = Inr (db0, gone)" and "db' = db0"
  with settle_settled_to [OF s] show ?thesis by (auto intro: ce_settle)
next
  fix db0 gone r db1
  assume "finish_checks fin = Inr ()" and s: "settle env meta now db = Inr (db0, gone)"
    and "moved env meta i (\<lambda>x. is_running x \<and> ex_runner x = Some (fi_runner fin)) (finished_row now fin) now db0 = Inr (db1, Some ans)"
    and "xr_rows db' = xr_rows db1" "xr_seq db' = xr_seq db1"
  then show ?thesis by (auto intro!: one_move_effect mv_finish)
qed

lemma exec_status_effect:
  assumes "exec_status env meta i now db = Inr (db', ans)"
  shows "call_effect env now (exec_table db) (exec_table db')"
proof -
  from assms obtain gone where s: "settle env meta now db = Inr (db', gone)"
    by (auto simp: exec_status_def result_bind_Inr split: option.splits)
  with settle_settled_to [OF s] show ?thesis by (auto intro: ce_settle)
qed

lemma exec_list_effect:
  assumes "exec_list env meta flt after now db = Inr (db', ans)"
  shows "call_effect env now (exec_table db) (exec_table db')"
proof -
  from assms obtain gone where s: "settle env meta now db = Inr (db', gone)"
    by (auto simp: exec_list_def result_bind_Inr Let_def)
  with settle_settled_to [OF s] show ?thesis by (auto intro: ce_settle)
qed

lemma expire_session_effect:
  assumes "expire_session env meta sess now db = Inr (db', ans)"
  shows "call_effect env now (exec_table db) (exec_table db')"
proof -
  from assms obtain db0 gone "is" gone' where s: "settle env meta now db = Inr (db0, gone)"
    and e: "expire_each env meta ''expired: the requesting session ended'' now is db0 = Inr (db', gone')"
    by (auto simp: expire_session_def result_bind_Inr)
  have "\<forall>r \<in> set (xr_rows db'). is_pending r \<or> is_running r \<longrightarrow> r \<in> set (xr_rows db0)"
    using expire_each_leaves [OF e] by blast
  with settle_settled_to [OF s] expire_each_moves [OF e] show ?thesis by (auto intro: ce_expire)
qed

lemma exec_apply_effect:
  assumes "exec_apply env meta c now db = Inr db'"
  shows "call_effect env now (exec_table db) (exec_table db')"
  using assms
  by (cases c)
    (auto simp: result_bind_Inr intro: exec_request_effect exec_begin_effect exec_decline_effect exec_refuse_effect
      exec_output_effect exec_finish_effect exec_status_effect exec_list_effect expire_session_effect)

end
