(* ===== verification/Exec_Properties.thy ===== *)
theory Exec_Properties
  imports Exec_Lifecycle
begin

text \<open>
  The properties of run requests over any run: any calls in any order at any times, with the queue
  and the log in any state between them. Each is a consequence of the steps of \<open>Exec_Lifecycle\<close>.
\<close>

section \<open>Runs\<close>

definition is_i64 :: "int \<Rightarrow> bool" where "is_i64 n \<longleftrightarrow> i64_MIN \<le> n \<and> n \<le> i64_MAX"

inductive exec_reach :: "exec_env \<Rightarrow> exec_db \<Rightarrow> exec_db \<Rightarrow> bool" for env :: exec_env and db :: exec_db where
  er_refl: "exec_reach env db db"
| er_call: "\<lbrakk>exec_reach env db db1; is_i64 now; exec_apply env meta c now db1 = Inr db2\<rbrakk> \<Longrightarrow> exec_reach env db db2"
| er_queue: "exec_reach env db db1 \<Longrightarrow> exec_reach env db (db1\<lparr>xr_mq := mq, xr_log := log\<rparr>)"

definition timed_step :: "exec_env \<Rightarrow> exec_rows \<Rightarrow> exec_rows \<Rightarrow> bool" where
  "timed_step env s s' \<longleftrightarrow> (\<exists>now. is_i64 now \<and> exec_step env now s s')"

lemma call_effect_steps: "call_effect env now s s' \<Longrightarrow> exec_steps env now s s'"
proof (induction rule: call_effect.induct)
  case (ce_settle rows rows0 n)
  then show ?case by (auto simp: settled_to_def intro: moves_star_steps)
next
  case (ce_move rows rows0 rows' n)
  then have "moves_star now rows rows'" by (auto simp: settled_to_def intro: rtranclp.rtrancl_into_rtrancl)
  then show ?case by (rule moves_star_steps)
next
  case (ce_expire rows rows0 rows' n)
  then have "moves_star now rows rows'" by (auto simp: settled_to_def)
  then show ?case by (rule moves_star_steps)
next
  case (ce_ask rows rows0 n rq ask argv)
  from ce_ask(1) have "exec_steps env now (rows, n) (rows0, n)" by (auto simp: settled_to_def intro: moves_star_steps)
  with ce_ask(2) show ?case by (rule rtranclp.rtrancl_into_rtrancl [rotated])
qed

lemma reach_steps: "exec_reach env db db' \<Longrightarrow> (timed_step env)\<^sup>*\<^sup>* (exec_table db) (exec_table db')"
proof (induction rule: exec_reach.induct)
  case (er_call db1 now meta c db2)
  have "exec_steps env now (exec_table db1) (exec_table db2)"
    using exec_apply_effect [OF er_call.hyps(3)] by (rule call_effect_steps)
  then have "(timed_step env)\<^sup>*\<^sup>* (exec_table db1) (exec_table db2)"
    by (rule rtranclp_mono [THEN predicate2D, rotated]) (use er_call.hyps(2) in \<open>auto simp: timed_step_def\<close>)
  with er_call.IH show ?case by simp
qed simp_all

lemma reach_find:
  assumes "exec_reach env db db'" and "exec_find db i = Some r"
  shows "\<exists>r'. exec_find db' i = Some r' \<and> exec_later r r'"
proof -
  have "(timed_step env)\<^sup>*\<^sup>* s s' \<Longrightarrow> List.find (\<lambda>r. ex_id r = i) (fst s) = Some r \<Longrightarrow>
      \<exists>r'. List.find (\<lambda>r. ex_id r = i) (fst s') = Some r' \<and> exec_later r r'" for s s'
  proof (induction rule: rtranclp_induct)
    case (step t u)
    then obtain r1 where "List.find (\<lambda>r. ex_id r = i) (fst t) = Some r1" "exec_later r r1" by blast
    moreover from step.hyps(2) obtain now where "exec_step env now t u" by (auto simp: timed_step_def)
    ultimately show ?case using exec_step_find by (blast intro: exec_later_trans)
  qed simp
  from this [OF reach_steps [OF assms(1)]] assms(2) show ?thesis by (simp add: exec_find_def)
qed

section \<open>The table's constraints\<close>

text \<open>The \<open>CHECK\<close>s of \<open>exec_requests\<close>, in the order of the migration.\<close>

definition exec_checks :: "exec_env \<Rightarrow> exec_row \<Rightarrow> bool" where
  "exec_checks env r \<longleftrightarrow>
     rq_session (ex_requester r) \<noteq> [] \<and> rq_role (ex_requester r) \<noteq> [] \<and> take 1 (ex_dir r) = ''/'' \<and>
     (\<exists>p ps. en_argv_parse env (ex_argv r) = Some (p # ps)) \<and> ex_timeout_ms r > 0 \<and>
     (ex_state r \<in> {X_Running, X_Finished} \<longrightarrow> ex_started_at r \<noteq> None \<and> ex_runner r \<noteq> None) \<and>
     (ex_state r = X_Finished \<longrightarrow> ex_outcome r \<noteq> None \<and> ex_ended_at r \<noteq> None) \<and>
     (ex_outcome r \<noteq> None \<longrightarrow> ex_state r = X_Finished) \<and>
     (ex_outcome r \<in> {Some X_Exited, Some X_Signalled} \<longrightarrow> ex_exit_status r \<noteq> None) \<and>
     (ex_state r = X_Refused \<longleftrightarrow> ex_refuse_reason r \<noteq> None) \<and>
     (ex_state r = X_Pending \<longrightarrow> ex_started_at r = None \<and> ex_ended_at r = None)"

text \<open>What the operations keep beside them.\<close>

definition exec_timed :: "exec_row \<Rightarrow> bool" where
  "exec_timed r \<longleftrightarrow>
     ex_timeout_ms r \<le> MAX_TIMEOUT_MS \<and> ex_expires_at r \<le> ex_created_at r + EXPIRES_AFTER_MS \<and>
     (\<forall>t. ex_started_at r = Some t \<longrightarrow> t < ex_expires_at r) \<and>
     (is_pending r \<or> is_running r \<longrightarrow> ex_note r = None)"

text \<open>
  The whole table: every row within its checks, ids increasing under the counter (the key, and
  \<open>AUTOINCREMENT\<close>), and no two pending rows with one fold key (the partial unique index).
\<close>

definition exec_sound :: "exec_env \<Rightarrow> exec_rows \<Rightarrow> bool" where
  "exec_sound env = (\<lambda>(rows, n).
     (\<forall>r \<in> set rows. exec_checks env r \<and> exec_timed r \<and> ex_id r \<le> n) \<and> sorted_wrt (<) (map ex_id rows) \<and>
     distinct (map fold_key (filter is_pending rows)))"

text \<open>The JSON library reads back the argv it wrote.\<close>

definition argv_codec :: "exec_env \<Rightarrow> bool" where
  "argv_codec env \<longleftrightarrow> (\<forall>argv. en_argv_parse env (en_argv_text env argv) = Some argv)"

lemma asked_row_checks:
  assumes "requester_check rq = Inr ()" "ask_check env ask = Inr argv" "argv_codec env" "is_i64 now"
  shows "exec_checks env (asked_row rq ask argv now i) \<and> exec_timed (asked_row rq ask argv now i)"
proof -
  from assms(1) have "rq_session rq \<noteq> []" "rq_role rq \<noteq> []"
    by (auto simp: requester_check_def result_bind_Inr exec_check_text_def split: if_splits)
  moreover from assms(2) obtain p ps where argv: "ak_argv ask = p # ps" "argv = en_argv_text env (p # ps)"
    by (auto simp: ask_check_def result_bind_Inr argv_json_def Let_def split: if_splits list.splits option.splits)
  moreover from assms(2) have "take 1 (ak_dir ask) = ''/''"
    by (auto simp: ask_check_def result_bind_Inr starts_with_def split: if_splits)
  moreover from assms(2) have "case ak_timeout_ms ask of None \<Rightarrow> True | Some t \<Rightarrow> MIN_TIMEOUT_MS \<le> t \<and> t \<le> MAX_TIMEOUT_MS"
    by (auto simp: ask_check_def result_bind_Inr split: if_splits option.splits)
  moreover have "saturating_add now EXPIRES_AFTER_MS \<le> now + EXPIRES_AFTER_MS"
    using assms(4) by (auto simp: saturating_add_def EXPIRES_AFTER_MS_def is_i64_def)
  moreover have "0 < MIN_TIMEOUT_MS" "0 < DEFAULT_TIMEOUT_MS" "DEFAULT_TIMEOUT_MS \<le> MAX_TIMEOUT_MS"
    by (simp_all add: MIN_TIMEOUT_MS_def DEFAULT_TIMEOUT_MS_def MAX_TIMEOUT_MS_def)
  ultimately show ?thesis
    using assms(3)
    by (auto simp: exec_checks_def exec_timed_def asked_row_def argv_codec_def is_pending_def is_running_def
        split: option.splits)
qed

lemma exec_move_checks:
  assumes "exec_move now r r'" and "exec_checks env r" and "exec_timed r"
  shows "exec_checks env r'" "exec_timed r'"
proof -
  from assms(1) show "exec_checks env r'"
  proof (cases rule: exec_move.cases)
    case (mv_finish fin)
    then have "fi_outcome fin = X_Exited \<or> fi_outcome fin = X_Signalled \<Longrightarrow> fi_exit_status fin \<noteq> None"
      by (auto simp: finish_checks_def split: if_splits)
    with assms(2) mv_finish show ?thesis by (auto simp: exec_checks_def row_defs)
  next
    case (mv_correct fin)
    then have "fi_outcome fin = X_Exited \<or> fi_outcome fin = X_Signalled \<Longrightarrow> fi_exit_status fin \<noteq> None"
      by (auto simp: finish_checks_def split: if_splits)
    with assms(2) mv_correct show ?thesis by (auto simp: exec_checks_def row_defs)
  qed (use assms(2) in \<open>auto simp: exec_checks_def row_defs\<close>)
  from assms(1) show "exec_timed r'"
    by (cases rule: exec_move.cases) (use assms(3) in \<open>auto simp: exec_timed_def row_defs\<close>)
qed

lemma exec_move_not_pending: "exec_move now r r' \<Longrightarrow> \<not> is_pending r'"
  by (erule exec_moveE) (simp_all add: row_defs)

lemma moves_from:
  assumes "exec_moves now rows rows'" and "r' \<in> set rows'"
  shows "\<exists>r \<in> set rows. r' = r \<or> exec_move now r r'"
  using assms unfolding exec_moves_def by (induction rule: list_all2_induct) auto

lemma moves_pending_keys:
  assumes "exec_moves now rows rows'" and "distinct (map fold_key (filter is_pending rows))"
  shows "distinct (map fold_key (filter is_pending rows'))"
  using assms unfolding exec_moves_def
proof (induction rule: list_all2_induct)
  case (Cons r rs r' rs')
  have "\<forall>x \<in> set rs'. is_pending x \<longrightarrow> x \<in> set rs"
    using moves_from [of now rs rs'] Cons.hyps(2) exec_move_not_pending unfolding exec_moves_def by blast
  with Cons show ?case by (auto dest: exec_move_not_pending split: if_splits)
qed simp

lemma moves_ids: "exec_moves now rows rows' \<Longrightarrow> map ex_id rows' = map ex_id rows"
  unfolding exec_moves_def by (induction rule: list_all2_induct) (auto dest: exec_move_id)

lemma exec_step_sound:
  assumes "exec_step env now s s'" and "exec_sound env s" and "argv_codec env" and "is_i64 now"
  shows "exec_sound env s'"
  using assms(1)
proof (cases rule: exec_step.cases)
  case (es_moves rows rows' n)
  from assms(2) es_moves(1) have s: "\<forall>r \<in> set rows. exec_checks env r \<and> exec_timed r \<and> ex_id r \<le> n"
    "sorted_wrt (<) (map ex_id rows)" "distinct (map fold_key (filter is_pending rows))" by (simp_all add: exec_sound_def)
  have "\<forall>r' \<in> set rows'. exec_checks env r' \<and> exec_timed r' \<and> ex_id r' \<le> n"
  proof
    fix r' assume "r' \<in> set rows'"
    then obtain r where r: "r \<in> set rows" "r' = r \<or> exec_move now r r'"
      using moves_from [OF es_moves(3)] by blast
    with s(1) show "exec_checks env r' \<and> exec_timed r' \<and> ex_id r' \<le> n"
      by (auto dest: exec_move_checks exec_move_id)
  qed
  with s(2) moves_ids [OF es_moves(3)] moves_pending_keys [OF es_moves(3) s(3)] es_moves(2) show ?thesis
    by (simp add: exec_sound_def)
next
  case (es_ask rq ask argv rows n)
  let ?r = "asked_row rq ask argv now (n + 1)"
  have i: "ex_id ?r = n + 1" "is_pending ?r" by (simp_all add: asked_row_def is_pending_def)
  from assms(2) es_ask(1) have s: "\<forall>r \<in> set rows. exec_checks env r \<and> exec_timed r \<and> ex_id r \<le> n"
    "sorted_wrt (<) (map ex_id rows)" "distinct (map fold_key (filter is_pending rows))" by (simp_all add: exec_sound_def)
  moreover have "exec_checks env ?r \<and> exec_timed ?r" using asked_row_checks es_ask(3,4) assms(3,4) by blast
  ultimately show ?thesis
    using es_ask(2,5) i by (auto simp: exec_sound_def sorted_wrt_append)
qed

lemma reach_sound:
  assumes "exec_reach env db db'" and "exec_sound env (exec_table db)" and "argv_codec env"
  shows "exec_sound env (exec_table db')"
  using reach_steps [OF assms(1)] assms(2)
  by (induction rule: rtranclp_induct) (auto simp: timed_step_def intro: exec_step_sound [OF _ _ assms(3)])

section \<open>A call in a quiet database\<close>

text \<open>With no topic in the queue a compare-and-set that finds its row succeeds, and tells nobody.\<close>

lemma find_set_rows:
  assumes "List.find (\<lambda>r. ex_id r = i) rows = Some r" and "ok r" and "ex_id (upd r) = i"
  shows "List.find (\<lambda>r. ex_id r = i) (set_rows i ok upd rows) = Some (upd r)"
  using assms by (induction rows) (auto simp: set_rows_def split: if_splits)

lemma notify_unreserved: "check_unreserved notify_TOPIC = Inr ()"
  by code_simp

lemma quiet_queue:
  assumes "mq_topics mq = []"
  shows "publish env i kind payload now False mq = Inr (mq, None)"
    and "withdraw_direct to_json from_json mq nid sess now = Inr (mq, False)"
    and "announce env r now mq = Inr mq"
proof -
  have t: "topic_row_any mq name = Inl (Queue (NoSuchTopic name))" for name
    using assms by (simp add: topic_row_any_def)
  show "publish env i kind payload now False mq = Inr (mq, None)"
    by (simp add: publish_def send_reserved_def t)
  show "withdraw_direct to_json from_json mq nid sess now = Inr (mq, False)"
    by (simp add: withdraw_direct_def heard_def group_count_def group_count_reserved_def notify_unreserved t)
  show "announce env r now mq = Inr mq"
    by (simp add: announce_def group_count_reserved_def t)
qed

lemma exec_update_logged:
  "changelog_upsert log meta E_ExecRequests j (Some b) a = Inr (log @ [log_entry meta Op_Update E_ExecRequests j (Some b) a])"
proof -
  have "inverse_of Op_Update E_ExecRequests = None" by code_simp
  then have "check_restorable (cl_op_as_str Op_Update) (entity_as_str E_ExecRequests) (Some b) = Inr ()"
    by (simp add: check_restorable_iff del: cl_op_as_str.simps entity_as_str.simps)
  then show ?thesis
    by (simp add: changelog_upsert_def changelog_write_Inr log_entry_def del: cl_op_as_str.simps entity_as_str.simps)
qed

lemma moved_quiet:
  assumes "mq_topics (xr_mq db) = []" and "exec_find db i = Some r" and "ok r" and "ex_id (upd r) = i"
    and "en_argv_parse env (ex_argv (upd r)) \<noteq> None"
  shows "\<exists>log. moved env meta i ok upd now db =
    Inr (db\<lparr>xr_rows := set_rows i ok upd (xr_rows db), xr_log := log\<rparr>, Some (upd r))"
proof -
  have r: "\<exists>x \<in> set (xr_rows db). ex_id x = i \<and> ok x"
    using assms(2,3) by (auto simp: exec_find_def find_Some_iff intro: nth_mem)
  define db1 where "db1 = db\<lparr>xr_rows := set_rows i ok upd (xr_rows db)\<rparr>"
  have f: "exec_find db1 i = Some (upd r)"
    using find_set_rows assms(2-4) by (simp add: exec_find_def db1_def)
  then have g: "exec_must_get env db1 i = Inr (upd r)"
    using assms(5) by (auto simp: exec_must_get_def exec_get_def parse_row_def)
  have q: "mq_topics (xr_mq db1) = []" "xr_log db1 = xr_log db" using assms(1) by (simp_all add: db1_def)
  have j: "row_json db i = Inr (exec_json r)" "row_json db1 i = Inr (exec_json (upd r))"
    using assms(2) f by (simp_all add: row_json_def)
  have "moved env meta i ok upd now db =
      Inr (db1\<lparr>xr_log := xr_log db @ [log_entry meta Op_Update E_ExecRequests (int_str i) (Some (exec_json r)) (Some (exec_json (upd r)))],
        xr_mq := xr_mq db1\<rparr>, Some (upd r))"
    unfolding moved_def j(1) result_bind_simps Let_def db1_def [symmetric]
    by (simp add: r j exec_update_logged g quiet_queue q)
  then show ?thesis by (simp add: db1_def) (rule exI, rule refl)
qed

text \<open>A database with one request waiting, and a JSON library for lists of strings.\<close>

fun demo_enc :: "string list \<Rightarrow> string" where
  "demo_enc [] = []"
| "demo_enc (s # ss) = concat (map (\<lambda>c. [CHR ''c'', c]) s) @ CHR ''.'' # demo_enc ss"

fun demo_dec :: "string \<Rightarrow> string \<Rightarrow> string list option" where
  "demo_dec acc [] = (if acc = [] then Some [] else None)"
| "demo_dec acc [c] = (if c = CHR ''.'' then Some [acc] else None)"
| "demo_dec acc (c # d # cs) =
     (if c = CHR ''.'' then map_option (\<lambda>ss. acc # ss) (demo_dec [] (d # cs)) else demo_dec (acc @ [d]) cs)"

lemma demo_dec_enc: "demo_dec acc (concat (map (\<lambda>c. [CHR ''c'', c]) s) @ CHR ''.'' # demo_enc ss) =
  map_option (\<lambda>ts. (acc @ s) # ts) (demo_dec [] (demo_enc ss))"
proof (induction s arbitrary: acc)
  case Nil
  show ?case by (cases "demo_enc ss") simp_all
qed simp

definition exec_demo_env :: exec_env where
  "exec_demo_env =
     \<lparr>en_to_json = (\<lambda>_. Inr ''{}''), en_from_json = (\<lambda>_. Inr JNull), en_argv_text = demo_enc,
      en_argv_parse = demo_dec [], en_base64 = (\<lambda>s. s)\<rparr>"

lemma exec_demo_codec: "argv_codec exec_demo_env"
proof -
  have "demo_dec [] (demo_enc ss) = Some ss" for ss
    by (induction ss) (simp_all add: demo_dec_enc)
  then show ?thesis by (simp add: argv_codec_def exec_demo_env_def)
qed

definition exec_demo_row :: exec_row where
  "exec_demo_row =
     \<lparr>ex_id = 1, ex_created_at = 0, ex_expires_at = 7200000,
      ex_requester = \<lparr>rq_session = ''s'', rq_agent_type = None, rq_role = ''worker'', rq_task = None\<rparr>,
      ex_target = X_Host, ex_dir = ''/r'', ex_dir_side = X_Host, ex_argv = demo_enc [''ls''], ex_reason = [],
      ex_pin = None, ex_timeout_ms = 1000, ex_state = X_Pending, ex_refuse_reason = None, ex_note = None,
      ex_runner = None, ex_started_at = None, ex_ended_at = None, ex_exit_status = None, ex_outcome = None\<rparr>"

definition exec_demo :: exec_db where
  "exec_demo = \<lparr>xr_rows = [exec_demo_row], xr_seq = 1, xr_outputs = [], xr_mq = empty_mq, xr_log = []\<rparr>"

definition exec_demo_meta :: write_meta where "exec_demo_meta = \<lparr>wm_txn_id = 1, wm_actor = ''app''\<rparr>"

lemma exec_demo_parse: "demo_dec [] (demo_enc [''ls'']) = Some [''ls'']"
  by code_simp

lemma exec_demo_sound: "exec_sound exec_demo_env (exec_table exec_demo)"
  by (simp add: exec_sound_def exec_checks_def exec_timed_def exec_demo_def exec_demo_row_def exec_demo_env_def
      exec_demo_parse MAX_TIMEOUT_MS_def EXPIRES_AFTER_MS_def del: demo_enc.simps demo_dec.simps)

lemma exec_demo_find: "exec_find exec_demo 1 = Some exec_demo_row"
  by (simp add: exec_find_def exec_demo_def exec_demo_row_def)

lemma exec_demo_settle: "settle env meta 5 exec_demo = Inr (exec_demo, [])"
  by (simp add: settle_def due_ids_def overdue_ids_def is_overdue_def is_running_def exec_demo_def exec_demo_row_def)

lemma exec_demo_runner: "exec_check_text ''runner'' ''app'' exec_MAX_NAME_BYTES False = Inr ()"
  by code_simp

lemma exec_demo_begin:
  obtains db where "exec_begin exec_demo_env exec_demo_meta 1 None ''app'' 5 exec_demo = Inr (db, Bg_Running (running_row 5 ''app'' exec_demo_row))"
    and "xr_rows db = [running_row 5 ''app'' exec_demo_row]" "xr_seq db = 1" "xr_mq db = empty_mq"
proof -
  have p: "en_argv_parse exec_demo_env (ex_argv exec_demo_row) = Some [''ls'']"
    by (simp add: exec_demo_env_def exec_demo_row_def exec_demo_parse del: demo_enc.simps demo_dec.simps)
  have x: "ex_state exec_demo_row = X_Pending" "ex_pin exec_demo_row = None" "ex_id exec_demo_row = 1"
    by (simp_all add: exec_demo_row_def)
  obtain log where m: "moved exec_demo_env exec_demo_meta 1 is_pending (running_row 5 ''app'') 5 exec_demo =
      Inr (exec_demo\<lparr>xr_rows := set_rows 1 is_pending (running_row 5 ''app'') (xr_rows exec_demo), xr_log := log\<rparr>,
        Some (running_row 5 ''app'' exec_demo_row))"
    using moved_quiet [where env = exec_demo_env and db = exec_demo and i = 1 and r = exec_demo_row and ok = is_pending
        and upd = "running_row 5 ''app''" and meta = exec_demo_meta and now = 5] exec_demo_find x p
    by (auto simp: exec_demo_def empty_mq_def is_pending_def running_row_def)
  have g: "exec_must_get exec_demo_env exec_demo 1 = Inr exec_demo_row"
    by (simp add: exec_must_get_def exec_get_def exec_demo_find parse_row_def p)
  let ?rows = "set_rows 1 is_pending (running_row 5 ''app'') (xr_rows exec_demo)"
  let ?db = "exec_demo\<lparr>xr_rows := ?rows, xr_log := log, xr_outputs := begin_output 1 (xr_outputs exec_demo)\<rparr>"
  have "exec_begin exec_demo_env exec_demo_meta 1 None ''app'' 5 exec_demo = Inr (?db, Bg_Running (running_row 5 ''app'' exec_demo_row))"
    by (simp add: exec_begin_def exec_demo_runner check_pin_def exec_demo_settle g x m moved_or_def)
  then show ?thesis
    by (rule that) (use x in \<open>simp_all add: set_rows_def is_pending_def exec_demo_def\<close>)
qed

lemma exec_demo_reach:
  obtains db where "exec_reach exec_demo_env exec_demo db" "xr_rows db = [running_row 5 ''app'' exec_demo_row]"
proof -
  obtain db where b: "exec_begin exec_demo_env exec_demo_meta 1 None ''app'' 5 exec_demo = Inr (db, Bg_Running (running_row 5 ''app'' exec_demo_row))"
    and r: "xr_rows db = [running_row 5 ''app'' exec_demo_row]" by (rule exec_demo_begin)
  have "exec_reach exec_demo_env exec_demo db"
    by (rule er_call [OF er_refl, where now = 5 and c = "EC_Begin 1 None ''app''" and meta = exec_demo_meta])
      (simp_all add: b is_i64_def i64_MIN_def i64_MAX_def)
  with r show ?thesis using that by blast
qed

section \<open>The properties\<close>

text \<open>
  C20. A request's life. Whatever is called afterwards and whatever the queue does, the request is still
  there; what was asked (who, where, argv, reason, pin, timeout, expiry) never changes; its state
  only moves as the table says, out of pending once; the runner and the start of a run stay; and an
  answer is final, but for a run ended by its age alone.
\<close>

theorem exec_lifecycle:
  assumes "exec_reach env db db'" and "exec_find db i = Some r"
  shows "\<exists>r'. exec_find db' i = Some r' \<and> asks_same r r' \<and> leads_to (ex_state r) (ex_state r') \<and>
    (ex_state r \<noteq> X_Pending \<longrightarrow> ex_runner r' = ex_runner r \<and> ex_started_at r' = ex_started_at r) \<and>
    (answer_final r \<longrightarrow> r' = r)"
  using reach_find [OF assms] unfolding exec_later_def by blast

theorem exec_lifecycle_witness:
  "\<exists>db' r'. exec_find db' 1 = Some r' \<and> ex_state r' = X_Running \<and> asks_same exec_demo_row r'"
proof -
  obtain db where d: "exec_reach exec_demo_env exec_demo db" "xr_rows db = [running_row 5 ''app'' exec_demo_row]"
    by (rule exec_demo_reach)
  from d(2) have "\<And>r'. exec_find db 1 = Some r' \<Longrightarrow> ex_state r' = X_Running"
    by (auto simp: exec_find_def running_row_def exec_demo_row_def split: if_splits)
  with exec_lifecycle [OF d(1) exec_demo_find] show ?thesis by blast
qed

text \<open>
  C22. The constraints of the table of run requests are never violated. From a table whose rows
  satisfy the CHECKs the migration puts on \<open>exec_requests\<close>, with increasing ids and no two pending
  rows of one fold key, every run leads to such a table (so no statement on it can fail on one of
  these), provided the JSON library reads back the argv it wrote. The CHECKs of \<open>exec_output\<close> are
  not part of the claim.
\<close>

theorem exec_schema_kept:
  assumes "exec_sound env (exec_table db)" and "argv_codec env" and "exec_reach env db db'"
  shows "exec_sound env (exec_table db')"
  using reach_sound assms by blast

theorem exec_schema_kept_witness:
  "\<exists>db'. exec_sound exec_demo_env (exec_table db') \<and> xr_rows db' = [running_row 5 ''app'' exec_demo_row]"
proof -
  obtain db where d: "exec_reach exec_demo_env exec_demo db" "xr_rows db = [running_row 5 ''app'' exec_demo_row]"
    by (rule exec_demo_reach)
  with exec_schema_kept [OF exec_demo_sound exec_demo_codec d(1)] show ?thesis by blast
qed

text \<open>The parts of a successful begin.\<close>

lemma exec_must_get_Inr:
  "exec_must_get env db i = Inr r \<longleftrightarrow> exec_find db i = Some r \<and> en_argv_parse env (ex_argv r) \<noteq> None"
  by (auto simp: exec_must_get_def exec_get_def parse_row_def result_bind_Inr split: option.splits)

lemma exec_begin_running:
  assumes "exec_begin env meta i pin runner now db = Inr (db', Bg_Running r)"
  obtains db0 gone r0 db1 where "settle env meta now db = Inr (db0, gone)" "exec_find db0 i = Some r0"
    "is_pending r0" "ex_pin r0 = pin" "moved env meta i is_pending (running_row now runner) now db0 = Inr (db1, Some r)"
    "xr_rows db' = xr_rows db1"
  using assms
  by (auto simp: exec_begin_def result_bind_Inr moved_or_Inr exec_must_get_Inr is_pending_def split: if_splits)

lemma moved_find:
  assumes "moved env meta i ok upd now db = Inr (db', Some r')" and "exec_find db i = Some r" and "ok r" and "ex_id (upd r) = i"
  shows "r' = upd r \<and> exec_find db' i = Some (upd r)"
  using moved_Inr [OF assms(1)] find_set_rows [of i "xr_rows db" r ok upd] assms(2-4) by (auto simp: exec_find_def)

lemma exec_find_id: "exec_find db i = Some r \<Longrightarrow> ex_id r = i \<and> r \<in> set (xr_rows db)"
  by (auto simp: exec_find_def find_Some_iff)

text \<open>
  C19. What the operator approved is what runs. A begin that answers running found the request pending,
  not due, and made with exactly the pin the runner computed; the row it starts is that row with the
  state, the runner and the start written, nothing of the ask changed.
\<close>

theorem exec_begin_approved:
  assumes "exec_begin env meta i pin runner now db = Inr (db', Bg_Running r)"
  shows "\<exists>r0. exec_find db i = Some r0 \<and> ex_state r0 = X_Pending \<and> now < ex_expires_at r0 \<and> ex_pin r0 = pin \<and>
    r = r0\<lparr>ex_state := X_Running, ex_runner := Some runner, ex_started_at := Some now\<rparr> \<and> exec_find db' i = Some r"
proof -
  from assms obtain db0 gone r0 db1 where s: "settle env meta now db = Inr (db0, gone)"
    and f: "exec_find db0 i = Some r0" "is_pending r0" "ex_pin r0 = pin"
    and m: "moved env meta i is_pending (running_row now runner) now db0 = Inr (db1, Some r)"
    and e: "xr_rows db' = xr_rows db1" by (rule exec_begin_running)
  have "exec_find db i = Some r0" using settle_find_pending [OF s f(1,2)] .
  moreover have "now < ex_expires_at r0"
    using settle_leaves(1) [OF s] f(2) exec_find_id [OF f(1)] by (auto simp: nothing_due_def)
  moreover have "r = running_row now runner r0 \<and> exec_find db1 i = Some (running_row now runner r0)"
    using moved_find [OF m f(1,2)] exec_find_id [OF f(1)] by (simp add: running_row_def)
  ultimately show ?thesis using f e by (auto simp: running_row_def is_pending_def exec_find_def)
qed

theorem exec_begin_approved_witness:
  "\<exists>db' r. exec_begin exec_demo_env exec_demo_meta 1 None ''app'' 5 exec_demo = Inr (db', Bg_Running r) \<and>
     ex_pin r = None \<and> ex_argv r = demo_enc [''ls''] \<and> exec_find db' 1 = Some r"
proof -
  obtain db where b: "exec_begin exec_demo_env exec_demo_meta 1 None ''app'' 5 exec_demo = Inr (db, Bg_Running (running_row 5 ''app'' exec_demo_row))"
    by (rule exec_demo_begin)
  from exec_begin_approved [OF b] have "exec_find db 1 = Some (running_row 5 ''app'' exec_demo_row)" by blast
  with b show ?thesis by (auto simp: running_row_def exec_demo_row_def)
qed

lemma expire_each_gone:
  "expire_each env meta note now is db = Inr (db', gone) \<Longrightarrow> set gone \<subseteq> set is"
proof (induction "is" arbitrary: db gone)
  case (Cons i "is")
  then obtain db1 rest where "set rest \<subseteq> set is" "set gone \<subseteq> insert i (set rest)"
    by (force simp: result_bind_Inr split: if_splits)
  then show ?case by auto
qed simp

lemma settle_gone:
  assumes "settle env meta now db = Inr (db', gone)" and "i \<in> set gone"
  shows "\<exists>r \<in> set (xr_rows db). ex_id r = i \<and> is_pending r"
proof -
  from assms(1) obtain db1 where
    "expire_each env meta ''expired: nobody answered it in two hours'' now (due_ids db now) db = Inr (db1, gone)"
    by (auto simp: settle_def result_bind_Inr)
  from expire_each_gone [OF this] assms(2) have "i \<in> set (due_ids db now)" by blast
  then show ?thesis by (auto simp: due_ids_def)
qed

lemma sound_unique:
  assumes "exec_sound env (exec_table db)" and "exec_find db i = Some r" and "x \<in> set (xr_rows db)" and "ex_id x = i"
  shows "x = r"
proof -
  from assms(1) have "distinct (map ex_id (xr_rows db))"
    by (auto simp: exec_sound_def strict_sorted_iff)
  with exec_find_id [OF assms(2)] assms(3,4) show ?thesis by (auto simp: distinct_map dest: inj_onD)
qed

text \<open>
  C18. A request runs at most once. After a begin that answered running, no begin of that request by
  anybody, at any time, after any calls, answers anything but an error.
\<close>

theorem exec_runs_once:
  assumes "exec_sound env (exec_table db)" and "argv_codec env" and "is_i64 now"
    and "exec_begin env meta i pin runner now db = Inr (db1, Bg_Running r)" and "exec_reach env db1 db2"
  shows "\<exists>e. exec_begin env meta' i pin' runner' now' db2 = Inl e"
proof (rule ccontr)
  assume "\<nexists>e. exec_begin env meta' i pin' runner' now' db2 = Inl e"
  then obtain out where out: "exec_begin env meta' i pin' runner' now' db2 = Inr out"
    by (cases "exec_begin env meta' i pin' runner' now' db2") auto
  from exec_begin_approved [OF assms(4)] have r: "exec_find db1 i = Some r" "ex_state r = X_Running" by auto
  from reach_find [OF assms(5) r(1)] obtain r' where r': "exec_find db2 i = Some r'" "exec_later r r'" by blast
  have np: "exec_later x y \<Longrightarrow> \<not> is_pending x \<Longrightarrow> \<not> is_pending y" for x y
    by (auto simp: exec_later_def is_pending_def)
  have r'p: "\<not> is_pending r'" using np [OF r'(2)] r(2) by (simp add: is_pending_def)
  from out obtain db0 gone r0 where s: "settle env meta' now' db2 = Inr (db0, gone)" and f: "exec_find db0 i = Some r0"
    and "i \<in> set gone \<or> is_pending r0"
    by (auto simp: exec_begin_def result_bind_Inr exec_must_get_Inr is_pending_def split: if_splits)
  moreover have "\<not> is_pending r0"
    using settle_find [OF s, of i] r' f np r'p by (auto simp: option_rel_Some2)
  ultimately obtain x where x: "x \<in> set (xr_rows db2)" "ex_id x = i" "is_pending x" using settle_gone [OF s] by blast
  have "exec_reach env db db1"
    by (rule er_call [OF er_refl assms(3), where c = "EC_Begin i pin runner" and meta = meta]) (simp add: assms(4))
  from reach_sound [OF assms(5) reach_sound [OF this assms(1,2)] assms(2)] have "exec_sound env (exec_table db2)" .
  from sound_unique [OF this r'(1) x(1,2)] x(3) r'p show False by simp
qed

theorem exec_runs_once_witness:
  "\<exists>db e. exec_begin exec_demo_env exec_demo_meta 1 None ''app'' 5 exec_demo = Inr (db, Bg_Running (running_row 5 ''app'' exec_demo_row)) \<and>
     exec_begin exec_demo_env exec_demo_meta 1 None ''b'' 6 db = Inl e"
proof -
  obtain db where b: "exec_begin exec_demo_env exec_demo_meta 1 None ''app'' 5 exec_demo = Inr (db, Bg_Running (running_row 5 ''app'' exec_demo_row))"
    by (rule exec_demo_begin)
  have "is_i64 5" by (simp add: is_i64_def i64_MIN_def i64_MAX_def)
  from exec_runs_once [OF exec_demo_sound exec_demo_codec this b er_refl] b show ?thesis by blast
qed

text \<open>After a call's own move nothing is due either: what it starts or adds is due later.\<close>

lemma call_effect_nothing_due:
  assumes "call_effect env now s s'" and "exec_sound env s'" and "now < i64_MAX"
  shows "nothing_due now (fst s')"
  using assms(1)
proof (cases rule: call_effect.cases)
  case (ce_move rows rows0 rows' n)
  show ?thesis
    unfolding nothing_due_def
  proof
    fix r' assume r': "r' \<in> set (fst s')"
    with ce_move obtain r where r: "r \<in> set rows0" "r' = r \<or> exec_move now r r'" using moves_from by force
    have t: "0 < ex_timeout_ms r'" using assms(2) r' by (cases s') (auto simp: exec_sound_def exec_checks_def)
    from ce_move(3) r(1) have d: "(is_pending r \<longrightarrow> now < ex_expires_at r) \<and> \<not> is_overdue now r"
      by (auto simp: settled_to_def nothing_due_def)
    from r(2) show "(is_pending r' \<longrightarrow> now < ex_expires_at r') \<and> \<not> is_overdue now r'"
    proof
      assume "exec_move now r r'"
      then show ?thesis using t
        by (cases rule: exec_move.cases) (auto simp: row_defs is_overdue_def RUN_GRACE_MS_def)
    qed (use d in simp)
  qed
next
  case (ce_ask rows rows0 n rq ask argv)
  have "now < saturating_add now EXPIRES_AFTER_MS"
    using assms(3) by (auto simp: saturating_add_def EXPIRES_AFTER_MS_def)
  with ce_ask show ?thesis
    by (auto simp: settled_to_def nothing_due_def asked_row_def is_overdue_def is_running_def)
next
  case (ce_expire rows rows0 rows' n)
  then show ?thesis by (auto simp: settled_to_def nothing_due_def is_overdue_def)
qed (auto simp: settled_to_def)



text \<open>The row a successful finish answers, and that it is final.\<close>

lemma exec_finish_final:
  assumes "exec_sound env (exec_table db)" and "exec_finish env meta i fin now db = Inr (db', r)"
  shows "exec_find db' i = Some r \<and> en_argv_parse env (ex_argv r) \<noteq> None \<and> ex_state r = X_Finished \<and>
    ex_runner r = Some (fi_runner fin) \<and> ex_outcome r = Some (fi_outcome fin) \<and> ex_exit_status r = fi_exit_status fin \<and>
    answer_final r"
  using assms(2)
proof (rule exec_finish_cases, elim disjE exE conjE)
  fix db0 gone x db1
  assume f: "exec_find db0 i = Some x" and p: "en_argv_parse env (ex_argv x) \<noteq> None" and a: "settled_by_age (fi_runner fin) x"
    and m: "moved env meta i (settled_by_age (fi_runner fin)) (corrected_row now fin) now db0 = Inr (db1, Some r)"
    and e: "xr_rows db' = xr_rows db1"
  have "r = corrected_row now fin x \<and> exec_find db1 i = Some r"
    using moved_find [OF m f a] exec_find_id [OF f] by (auto simp: corrected_row_def)
  with p a e show ?thesis
    by (auto simp: corrected_row_def settled_by_age_def answer_final_def exec_is_terminal_def exec_find_def)
next
  fix db0 gone x
  assume "exec_find db0 i = Some x" "en_argv_parse env (ex_argv x) \<noteq> None" "db' = db0" "r = x"
    "\<not> settled_by_age (fi_runner fin) x" "ex_state x = X_Finished" "ex_runner x = Some (fi_runner fin)"
    "ex_outcome x = Some (fi_outcome fin)" "ex_exit_status x = fi_exit_status fin"
  then show ?thesis by (auto simp: settled_by_age_def answer_final_def exec_is_terminal_def)
next
  fix db0 gone x db1
  assume s: "settle env meta now db = Inr (db0, gone)" and f: "exec_find db0 i = Some x"
    and p: "en_argv_parse env (ex_argv x) \<noteq> None" and a: "is_running x" "ex_runner x = Some (fi_runner fin)"
    and m: "moved env meta i (\<lambda>x. is_running x \<and> ex_runner x = Some (fi_runner fin)) (finished_row now fin) now db0 = Inr (db1, Some r)"
    and e: "xr_rows db' = xr_rows db1"
  have r: "r = finished_row now fin x \<and> exec_find db1 i = Some r"
    using moved_find [OF m f] a exec_find_id [OF f] by (auto simp: finished_row_def)
  have "x \<in> set (xr_rows db)" using settle_leaves(2) [OF s] exec_find_id [OF f] a(1) by blast
  with assms(1) a(1) have "ex_note x = None" by (auto simp: exec_sound_def exec_timed_def)
  with r p a e show ?thesis
    by (auto simp: finished_row_def answer_final_def exec_is_terminal_def exec_find_def SETTLED_INTERRUPT_def)
qed

text \<open>
  A finish may be repeated. A runner that retries the finish it made, after any calls and any time,
  is answered the row as it stands, and nothing but the settling of other requests is written.
\<close>

theorem exec_finish_idempotent:
  assumes "exec_sound env (exec_table db)" and "exec_finish env meta i fin now db = Inr (db1, r)" and "exec_reach env db1 db2"
  shows "exec_finish env meta' i fin now' db2 =
    (case settle env meta' now' db2 of Inl e \<Rightarrow> Inl e | Inr (db3, _) \<Rightarrow> Inr (db3, r))"
proof (cases "settle env meta' now' db2")
  case (Inr out)
  then obtain db3 gone where s: "settle env meta' now' db2 = Inr (db3, gone)" by (cases out) auto
  have fin: "exec_find db1 i = Some r" "en_argv_parse env (ex_argv r) \<noteq> None" "ex_state r = X_Finished"
    "ex_runner r = Some (fi_runner fin)" "ex_outcome r = Some (fi_outcome fin)" "ex_exit_status r = fi_exit_status fin"
    "answer_final r"
    using exec_finish_final [OF assms(1,2)] by blast+
  have keep: "exec_later r x \<Longrightarrow> x = r" for x using fin(7) by (simp add: exec_later_def)
  from reach_find [OF assms(3) fin(1)] keep have "exec_find db2 i = Some r" by blast
  with settle_find [OF s, of i] keep have "exec_find db3 i = Some r" by (auto simp: option_rel_Some1)
  then have g: "exec_must_get env db3 i = Inr r" using fin(2) by (simp add: exec_must_get_Inr)
  have "\<not> settled_by_age (fi_runner fin) r" using fin(7) by (auto simp: answer_final_def settled_by_age_def)
  moreover have "finish_checks fin = Inr ()" using assms(2) by (auto simp: exec_finish_def result_bind_Inr)
  ultimately show ?thesis using fin(3-6) by (simp add: exec_finish_def s g)
next
  case (Inl e)
  moreover have "finish_checks fin = Inr ()" using assms(2) by (auto simp: exec_finish_def result_bind_Inr)
  ultimately show ?thesis by (simp add: exec_finish_def)
qed

definition exec_demo_done :: exec_row where
  "exec_demo_done =
     (running_row 5 ''app'' exec_demo_row)\<lparr>ex_state := X_Finished, ex_outcome := Some X_Exited, ex_exit_status := Some 0,
       ex_ended_at := Some 9\<rparr>"

definition exec_demo_fin :: finished where
  "exec_demo_fin = \<lparr>fi_runner = ''app'', fi_outcome = X_Exited, fi_exit_status = Some 0, fi_tail = [], fi_total_bytes = 0, fi_log_path = None\<rparr>"

theorem exec_finish_idempotent_witness:
  "exec_finish exec_demo_env exec_demo_meta 1 exec_demo_fin 20 (exec_demo\<lparr>xr_rows := [exec_demo_done]\<rparr>) =
     Inr (exec_demo\<lparr>xr_rows := [exec_demo_done]\<rparr>, exec_demo_done)"
proof -
  let ?db = "exec_demo\<lparr>xr_rows := [exec_demo_done]\<rparr>"
  have d: "ex_id exec_demo_done = 1" "ex_state exec_demo_done = X_Finished" "ex_runner exec_demo_done = Some ''app''"
    "ex_outcome exec_demo_done = Some X_Exited" "ex_exit_status exec_demo_done = Some 0" "ex_note exec_demo_done = None"
    "ex_argv exec_demo_done = demo_enc [''ls'']"
    by (simp_all add: exec_demo_done_def running_row_def exec_demo_row_def)
  have s: "settle exec_demo_env exec_demo_meta t ?db = Inr (?db, [])" for t
    by (simp add: settle_def due_ids_def overdue_ids_def is_overdue_def is_running_def is_pending_def d exec_demo_def)
  have g: "exec_must_get exec_demo_env ?db 1 = Inr exec_demo_done"
    by (simp add: exec_must_get_Inr exec_find_def d exec_demo_env_def exec_demo_parse del: demo_enc.simps demo_dec.simps)
  have f: "exec_finish exec_demo_env exec_demo_meta 1 exec_demo_fin 9 ?db = Inr (?db, exec_demo_done)"
    by (simp add: exec_finish_def finish_checks_def exec_demo_fin_def MAX_TAIL_BYTES_def s g settled_by_age_def d)
  have "exec_sound exec_demo_env (exec_table ?db)"
    using exec_demo_sound
    by (simp add: exec_sound_def exec_demo_def exec_checks_def exec_timed_def exec_demo_done_def running_row_def
        exec_demo_row_def is_pending_def)
  from exec_finish_idempotent [OF this f er_refl, of exec_demo_meta 20] s show ?thesis by simp
qed

section \<open>Listing\<close>

text \<open>The page loop takes a first part of the rows it is given, all of them unless it says it was cut.\<close>

lemma page_rows_prefix:
  assumes "page_rows env rs bytes acc = Inr (out, short)"
  shows "\<exists>k \<le> length rs. out = acc @ take k rs \<and> (short \<longleftrightarrow> k < length rs) \<and> (acc = [] \<and> rs \<noteq> [] \<longrightarrow> 0 < k)"
  using assms
proof (induction rs arbitrary: bytes acc)
  case (Cons r rs)
  show ?case
  proof (cases "acc \<noteq> [] \<and> bytes \<ge> PAGE_BYTES")
    case True
    with Cons.prems show ?thesis by (intro exI [of _ 0]) auto
  next
    case False
    with Cons.prems have n: "page_rows env rs (bytes + row_bytes r) (acc @ [r]) = Inr (out, short)"
      by (auto simp: result_bind_Inr parse_row_def split: if_splits option.splits)
    from Cons.IH [OF n] obtain k where "k \<le> length rs" "out = (acc @ [r]) @ take k rs" "short \<longleftrightarrow> k < length rs" by blast
    then show ?thesis by (intro exI [of _ "Suc k"]) auto
  qed
qed auto

lemma listed_sorted:
  assumes "sorted_wrt (<) (map ex_id rows)"
  shows "sorted_wrt (\<lambda>a b. if xf_newest_first flt then ex_id b < ex_id a else ex_id a < ex_id b) (listed_rows flt after rows)"
proof -
  have "sorted_wrt (\<lambda>a b. ex_id a < ex_id b) rows" using assms by (simp add: sorted_wrt_map)
  then have "sorted_wrt (\<lambda>a b. ex_id a < ex_id b) (filter P rows)" for P by (rule sorted_wrt_filter)
  then show ?thesis by (simp add: listed_rows_def Let_def sorted_wrt_rev)
qed

text \<open>Listing after a row of a listing is the rest of that listing.\<close>

lemma listed_rest:
  assumes s: "sorted_wrt (<) (map ex_id rows)" and l: "listed_rows flt after rows = xs @ x # ys"
  shows "listed_rows flt (Some (ex_id x)) rows = ys"
proof -
  let ?from = "case after of Some a \<Rightarrow> a | None \<Rightarrow> if xf_newest_first flt then i64_MAX else 0"
  let ?q = "\<lambda>r. (case xf_state flt of None \<Rightarrow> True | Some s \<Rightarrow> ex_state r = s) \<and>
    (case xf_session flt of None \<Rightarrow> True | Some s \<Rightarrow> rq_session (ex_requester r) = s)"
  let ?side = "\<lambda>a r. if xf_newest_first flt then ex_id r < a else ex_id r > a"
  let ?dir = "\<lambda>zs. if xf_newest_first flt then rev zs else zs"
  have ls: "listed_rows flt a rows = ?dir (filter (\<lambda>r. ?side (case a of Some b \<Rightarrow> b | None \<Rightarrow> if xf_newest_first flt then i64_MAX else 0) r \<and> ?q r) rows)" for a
    by (simp add: listed_rows_def Let_def)
  have "x \<in> set (listed_rows flt after rows)" using l by simp
  then have x: "?side ?from x" unfolding ls by (auto split: if_splits)
  have srt: "sorted_wrt (\<lambda>a b. ?side (ex_id a) b) (xs @ x # ys)"
    using listed_sorted [OF s, of flt after] unfolding l by simp
  have "listed_rows flt (Some (ex_id x)) rows = filter (\<lambda>r. ?side (ex_id x) r) (listed_rows flt after rows)"
  proof (cases "xf_newest_first flt")
    case True
    with x show ?thesis by (auto simp: listed_rows_def rev_filter split: option.splits intro!: filter_cong)
  next
    case False
    with x show ?thesis by (auto simp: listed_rows_def split: option.splits intro!: filter_cong)
  qed
  also have "\<dots> = ys"
    unfolding l using srt by (auto simp: sorted_wrt_append filter_empty_conv split: if_splits intro!: filter_True)
  finally show ?thesis .
qed

text \<open>
  Paging neither skips nor repeats. A page of a listing is a first part of the requests the filter
  and the cursor select, in order; it is everything exactly when no cursor comes back, is never
  empty while anything is left, and the cursor that comes back selects exactly the rest.
\<close>

theorem exec_list_pages:
  assumes "exec_list env meta flt after now db = Inr (db', page, cursor)" and "exec_sound env (exec_table db)"
    and "argv_codec env" and "is_i64 now"
  shows "\<exists>rest. listed_rows flt after (xr_rows db') = page @ rest \<and> (cursor = None \<longleftrightarrow> rest = []) \<and>
    (rest \<noteq> [] \<longrightarrow> page \<noteq> [] \<and> listed_rows flt cursor (xr_rows db') = rest) \<and> length page \<le> exec_PAGE"
proof -
  let ?all = "listed_rows flt after (xr_rows db')"
  from assms(1) obtain gone short where s: "settle env meta now db = Inr (db', gone)"
    and p: "page_rows env (take exec_PAGE ?all) 0 [] = Inr (page, short)"
    and c: "cursor = (if (exec_PAGE < length ?all \<or> short) \<and> page \<noteq> [] then Some (ex_id (last page)) else None)"
    by (auto simp: exec_list_def result_bind_Inr Let_def min_def split: if_splits)
  have pos: "0 < exec_PAGE" by (simp add: exec_PAGE_def)
  obtain k where k: "k \<le> length (take exec_PAGE ?all)" "page = take k (take exec_PAGE ?all)"
    "short \<longleftrightarrow> k < length (take exec_PAGE ?all)" "?all \<noteq> [] \<longrightarrow> 0 < k"
    using page_rows_prefix [OF p] pos by fastforce
  then have page: "page = take k ?all" "k \<le> length ?all" "k \<le> exec_PAGE" by auto
  have all: "?all = page @ drop k ?all" using page by simp
  have more: "(exec_PAGE < length ?all \<or> short) \<longleftrightarrow> drop k ?all \<noteq> []" using k(3) page by auto
  have ne: "drop k ?all \<noteq> [] \<longrightarrow> page \<noteq> []" using k(4) page by auto
  have "exec_apply env meta (EC_List flt after) now db = Inr db'" by (simp add: assms(1))
  from reach_sound [OF er_call [OF er_refl assms(4) this] assms(2,3)]
  have srt: "sorted_wrt (<) (map ex_id (xr_rows db'))" by (simp add: exec_sound_def)
  have "listed_rows flt cursor (xr_rows db') = drop k ?all" if r: "drop k ?all \<noteq> []"
  proof -
    from r ne have pg: "page = butlast page @ [last page]" by simp
    with all have "?all = butlast page @ last page # drop k ?all" by (metis append.assoc append_Cons append_Nil)
    from listed_rest [OF srt this] show ?thesis using c more r ne by simp
  qed
  with all more ne c page show ?thesis by (intro exI [of _ "drop k ?all"]) auto
qed

theorem exec_list_pages_witness:
  "exec_list exec_demo_env exec_demo_meta \<lparr>xf_state = None, xf_session = None, xf_newest_first = True\<rparr> None 5 exec_demo =
     Inr (exec_demo, [exec_demo_row], None) \<and> length [exec_demo_row] \<le> exec_PAGE"
proof -
  let ?flt = "\<lparr>xf_state = None, xf_session = None, xf_newest_first = True\<rparr>"
  have "listed_rows ?flt None [exec_demo_row] = [exec_demo_row]"
    by (simp add: listed_rows_def exec_demo_row_def i64_MAX_def)
  moreover have "parse_row exec_demo_env exec_demo_row = Inr exec_demo_row"
    by (simp add: parse_row_def exec_demo_env_def exec_demo_row_def exec_demo_parse del: demo_enc.simps demo_dec.simps)
  ultimately have l: "exec_list exec_demo_env exec_demo_meta ?flt None 5 exec_demo = Inr (exec_demo, [exec_demo_row], None)"
    by (simp add: exec_list_def exec_demo_settle) (simp add: exec_demo_def exec_PAGE_def)
  have "is_i64 5" by (simp add: is_i64_def i64_MIN_def i64_MAX_def)
  from exec_list_pages [OF l exec_demo_sound exec_demo_codec this] l show ?thesis by blast
qed

section \<open>Ids\<close>

text \<open>The id a request is printed with reads back as its row id, and a bare number reads as the same.\<close>

theorem exec_id_roundtrip:
  assumes "0 < i" and "i \<le> i64_MAX"
  shows "parse_id (wire_id i) = Inr i \<and> parse_id (int_str i) = Inr i"
proof -
  have s: "int_str i = nat_str (nat i)" using assms(1) by (simp add: int_str_def)
  have n: "\<not> prefix ''exec-'' (nat_str (nat i))"
  proof
    assume "prefix ''exec-'' (nat_str (nat i))"
    then have "CHR ''e'' \<in> set (nat_str (nat i))" by (auto simp: prefix_def)
    then show False using nat_str_no [of "CHR ''e''" "nat i"] by (simp add: is_digit_def)
  qed
  have "i < 2 ^ 63" using assms(2) by (simp add: i64_MAX_def)
  with assms(1) show ?thesis
    by (simp add: parse_id_def wire_id_def s strip_prefix_str_def n nat_str_digits Let_def)
qed

theorem exec_id_roundtrip_witness: "parse_id (wire_id 7) = Inr 7"
  using exec_id_roundtrip [of 7] by (simp add: i64_MAX_def)

section \<open>Asking twice\<close>

definition ask_key :: "requester \<Rightarrow> exec_ask \<Rightarrow> string \<Rightarrow> string \<times> string \<times> string \<times> exec_target \<times> exec_target \<times> string \<times> string \<times> int" where
  "ask_key rq ask argv = fold_key (asked_row rq ask argv 0 0)"

lemma asked_key: "fold_key (asked_row rq ask argv now i) = ask_key rq ask argv"
  by (simp add: ask_key_def fold_key_def asked_row_def)

text \<open>
  A session that asks twice is answered once. A request answered folded is a row that was already
  waiting for exactly what is asked and is not changed by it; otherwise the row is new, pending,
  with the ask as given and the expiry two hours on. Either way it is afterwards the one pending
  request with its session, argv, directory and side, target, pin and timeout.
\<close>

theorem exec_request_folds:
  assumes "exec_request env meta rq ask now db = Inr (db', ans)" and "exec_sound env (exec_table db)"
    and "argv_codec env" and "is_i64 now"
  shows "\<exists>argv. ask_check env ask = Inr argv \<and> fold_key (rd_row ans) = ask_key rq ask argv \<and>
    exec_find db' (ex_id (rd_row ans)) = Some (rd_row ans) \<and> ex_state (rd_row ans) = X_Pending \<and>
    (if rd_folded ans then exec_find db (ex_id (rd_row ans)) = Some (rd_row ans)
     else rd_row ans = asked_row rq ask argv now (xr_seq db + 1)) \<and>
    (\<forall>x \<in> set (xr_rows db'). ex_state x = X_Pending \<and> fold_key x = fold_key (rd_row ans) \<longrightarrow> x = rd_row ans)"
proof -
  from assms(1) obtain argv db0 gone where c: "ask_check env ask = Inr argv"
    and s: "settle env meta now db = Inr (db0, gone)"
    and rest: "case List.find (\<lambda>x. is_pending x \<and> fold_key x = ask_key rq ask argv) (xr_rows db0) of
        None \<Rightarrow> xr_rows db' = xr_rows db0 @ [asked_row rq ask argv now (xr_seq db0 + 1)] \<and> \<not> rd_folded ans \<and>
          exec_find db' (xr_seq db0 + 1) = Some (rd_row ans)
      | Some x \<Rightarrow> db' = db0 \<and> rd_folded ans \<and> exec_find db0 (ex_id x) = Some (rd_row ans)"
    by (auto simp: exec_request_def result_bind_Inr Let_def asked_key exec_must_get_Inr exec_find_def split: option.splits)
  have "exec_apply env meta (EC_Request rq ask) now db = Inr db'" by (simp add: assms(1))
  from reach_sound [OF er_call [OF er_refl assms(4) this] assms(2,3)] have snd: "exec_sound env (exec_table db')" .
  have r: "exec_find db' (ex_id (rd_row ans)) = Some (rd_row ans) \<and> is_pending (rd_row ans) \<and>
      fold_key (rd_row ans) = ask_key rq ask argv \<and>
      (if rd_folded ans then exec_find db (ex_id (rd_row ans)) = Some (rd_row ans)
       else rd_row ans = asked_row rq ask argv now (xr_seq db + 1))"
  proof (cases "List.find (\<lambda>x. is_pending x \<and> fold_key x = ask_key rq ask argv) (xr_rows db0)")
    case None
    let ?r = "asked_row rq ask argv now (xr_seq db + 1)"
    have n: "xr_seq db0 = xr_seq db" using settle_moves(2) [OF s] .
    with None rest have f: "exec_find db' (xr_seq db + 1) = Some (rd_row ans)" "?r \<in> set (xr_rows db')" "\<not> rd_folded ans" by auto
    have i: "ex_id ?r = xr_seq db + 1" "is_pending ?r" by (simp_all add: asked_row_def is_pending_def)
    have "rd_row ans = ?r" using sound_unique [OF snd f(1,2) i(1)] by simp
    then show ?thesis using f i asked_key by metis
  next
    case (Some x)
    then have x: "x \<in> set (xr_rows db0)" "is_pending x" "fold_key x = ask_key rq ask argv"
      by (auto simp: find_Some_iff)
    from Some rest have f: "db' = db0" "rd_folded ans" "exec_find db0 (ex_id x) = Some (rd_row ans)" by auto
    have "x = rd_row ans" using sound_unique [OF snd [unfolded f(1)] f(3) x(1)] by simp
    with f x settle_find_pending [OF s] show ?thesis by auto
  qed
  have "x = rd_row ans" if "x \<in> set (xr_rows db')" "is_pending x" "fold_key x = fold_key (rd_row ans)" for x
  proof -
    have "distinct (map fold_key (filter is_pending (xr_rows db')))" using snd by (simp add: exec_sound_def)
    moreover have "rd_row ans \<in> set (filter is_pending (xr_rows db'))" using r exec_find_id by auto
    ultimately show ?thesis using that by (auto simp: distinct_map dest: inj_onD)
  qed
  with c r show ?thesis by (auto simp: is_pending_def)
qed

definition exec_demo_ask :: exec_ask where
  "exec_demo_ask =
     \<lparr>ak_target = X_Host, ak_dir = ''/r'', ak_dir_side = X_Host, ak_argv = [''ls''], ak_reason = ''why'', ak_pin = None,
      ak_timeout_ms = Some 1000\<rparr>"

theorem exec_request_folds_witness:
  "exec_request exec_demo_env exec_demo_meta (ex_requester exec_demo_row) exec_demo_ask 5 exec_demo =
     Inr (exec_demo, \<lparr>rd_row = exec_demo_row, rd_folded = True\<rparr>) \<and>
   fold_key exec_demo_row = ask_key (ex_requester exec_demo_row) exec_demo_ask (demo_enc [''ls''])"
proof -
  have t: "exec_check_text ''dir'' ''/r'' MAX_PATH_BYTES False = Inr ()"
    "exec_check_text ''session'' ''s'' exec_MAX_NAME_BYTES False = Inr ()"
    "exec_check_text ''role'' ''worker'' exec_MAX_NAME_BYTES False = Inr ()" "\<not> has_control ''why''"
    "char_count ''why'' = 3" by code_simp+
  have a: "ask_check exec_demo_env exec_demo_ask = Inr (demo_enc [''ls''])"
    by (simp add: ask_check_def argv_json_def exec_demo_ask_def exec_demo_env_def t MAX_ARGV_BYTES_def starts_with_def
        MAX_REASON_CHARS_def check_pin_def MIN_TIMEOUT_MS_def MAX_TIMEOUT_MS_def exec_check_text_def [of "''reason''"]
        usize_MAX_def)
  have q: "requester_check (ex_requester exec_demo_row) = Inr ()" by (simp add: requester_check_def exec_demo_row_def t)
  have k: "fold_key exec_demo_row = fold_key (asked_row (ex_requester exec_demo_row) exec_demo_ask (demo_enc [''ls'']) 5 i)"
    "is_pending exec_demo_row" for i
    by (simp_all add: fold_key_def asked_row_def exec_demo_row_def exec_demo_ask_def is_pending_def)
  have g: "exec_must_get exec_demo_env exec_demo 1 = Inr exec_demo_row" "ex_id exec_demo_row = 1" "xr_rows exec_demo = [exec_demo_row]"
    by (simp add: exec_must_get_Inr exec_demo_find, simp add: exec_demo_env_def exec_demo_row_def exec_demo_parse
        del: demo_enc.simps demo_dec.simps, simp_all add: exec_demo_row_def exec_demo_def)
  have r: "exec_request exec_demo_env exec_demo_meta (ex_requester exec_demo_row) exec_demo_ask 5 exec_demo =
      Inr (exec_demo, \<lparr>rd_row = exec_demo_row, rd_folded = True\<rparr>)"
    using k by (simp add: exec_request_def q a exec_demo_settle g Let_def del: demo_enc.simps)
  have "is_i64 5" by (simp add: is_i64_def i64_MIN_def i64_MAX_def)
  from exec_request_folds [OF r exec_demo_sound exec_demo_codec this] r a show ?thesis by auto
qed

section \<open>The end of a session\<close>

lemma expire_session_leaves:
  assumes "expire_session env meta sess now db = Inr (db', n)"
  shows "\<forall>r \<in> set (xr_rows db'). rq_session (ex_requester r) = sess \<longrightarrow> ex_state r \<noteq> X_Pending"
proof (intro ballI impI notI)
  fix r assume r: "r \<in> set (xr_rows db')" "rq_session (ex_requester r) = sess" "ex_state r = X_Pending"
  from assms obtain db0 gone where
    e: "expire_each env meta ''expired: the requesting session ended'' now
      (map ex_id (filter (\<lambda>r. is_pending r \<and> rq_session (ex_requester r) = sess) (xr_rows db0))) db0 = Inr (db', gone)"
    by (auto simp: expire_session_def result_bind_Inr)
  have p: "is_pending r" using r(3) by (simp add: is_pending_def)
  with expire_each_leaves [OF e r(1)] r(2) show False by auto
qed

lemma exec_demo_expire:
  obtains db' where "expire_session exec_demo_env exec_demo_meta ''s'' 5 exec_demo = Inr (db', 1)"
proof -
  let ?upd = "expired_row 5 ''expired: the requesting session ended''"
  have p: "en_argv_parse exec_demo_env (ex_argv exec_demo_row) = Some [''ls'']"
    by (simp add: exec_demo_env_def exec_demo_row_def exec_demo_parse del: demo_enc.simps demo_dec.simps)
  have x: "is_pending exec_demo_row" "ex_id exec_demo_row = 1" "rq_session (ex_requester exec_demo_row) = ''s''"
    "xr_rows exec_demo = [exec_demo_row]" "mq_topics (xr_mq exec_demo) = []"
    by (simp_all add: exec_demo_row_def is_pending_def exec_demo_def empty_mq_def)
  have "ex_id (?upd exec_demo_row) = 1" "ex_argv (?upd exec_demo_row) = ex_argv exec_demo_row"
    using x(2) by (simp_all add: expired_row_def)
  then obtain log where "moved exec_demo_env exec_demo_meta 1 is_pending ?upd 5 exec_demo =
      Inr (exec_demo\<lparr>xr_rows := set_rows 1 is_pending ?upd (xr_rows exec_demo), xr_log := log\<rparr>, Some (?upd exec_demo_row))"
    using moved_quiet [where ok = is_pending and upd = ?upd, OF x(5) exec_demo_find x(1)] p by fastforce
  then show ?thesis
    using that by (simp add: expire_session_def exec_demo_settle x)
qed

end
