(* ===== verification/Core_Session.thy ===== *)
theory Core_Session
  imports Core_Notify "HOL-Library.Product_Lexorder"
begin

text \<open>
  The registry of Claude Code sessions, \<open>crates/jkb-core/src/claude_session.rs\<close>: a row per process
  holding a session, fed by the hook's events, and the one question asked of it, whether every
  process that held a session has ended.

  The state is the rows of \<open>claude_sessions\<close>, whose key is (session, pid, instance).
\<close>

section \<open>Rows\<close>

definition PRUNE_AFTER_MS :: int where "PRUNE_AFTER_MS = 90 * 24 * 60 * 60 * 1000"
definition SEEN_REFRESH_MS :: int where "SEEN_REFRESH_MS = 60 * 60 * 1000"
definition LIST_CAP :: nat where "LIST_CAP = 1000"
definition MAX_CWD_BYTES :: nat where "MAX_CWD_BYTES = 4096"
definition MAX_WORD_BYTES :: nat where "MAX_WORD_BYTES = 32"
definition UNKNOWN_WORD :: string where "UNKNOWN_WORD = ''unknown''"
definition GONE_WORD :: string where "GONE_WORD = ''gone''"

record holder_row =
  hr_session :: string
  hr_pid :: string
  hr_instance :: string
  hr_cwd :: string
  hr_started_at :: "int option"
  hr_start_source :: "string option"
  hr_seen_at :: int
  hr_ended_at :: "int option"
  hr_end_reason :: "string option"

definition holder_ended :: "holder_row \<Rightarrow> bool" where
  "holder_ended r \<longleftrightarrow> hr_ended_at r \<noteq> None"

type_synonym sess_db = "holder_row list"

datatype session_state = S_Unknown | S_Live | S_Ended

fun session_state_as_str :: "session_state \<Rightarrow> string" where
  "session_state_as_str S_Unknown = ''unknown''"
| "session_state_as_str S_Live = ''live''"
| "session_state_as_str S_Ended = ''ended''"

record process =
  pc_session :: string
  pc_pid :: string
  pc_instance :: string

definition process_check :: "process \<Rightarrow> unit core_result" where
  "process_check p =
     result_bind (check_session (pc_session p)) (\<lambda>_. check_owner_and_instance (pc_pid p) (pc_instance p))"

datatype end_answer = End_Recorded | End_Already

fun end_answer_as_str :: "end_answer \<Rightarrow> string" where
  "end_answer_as_str End_Recorded = ''recorded''"
| "end_answer_as_str End_Already = ''already_ended''"

definition is_word_byte :: "char \<Rightarrow> bool" where
  "is_word_byte c \<longleftrightarrow> (97 \<le> (of_char c :: nat) \<and> (of_char c :: nat) \<le> 122) \<or> is_digit c \<or> c = CHR ''_''"

definition sess_word :: "string \<Rightarrow> string" where
  "sess_word w = (if w \<noteq> [] \<and> length w \<le> MAX_WORD_BYTES \<and> list_all is_word_byte w then w else UNKNOWN_WORD)"

text \<open>The greatest character boundary at or below an offset into the text.\<close>

fun boundary_below :: "string \<Rightarrow> nat \<Rightarrow> nat" where
  "boundary_below c 0 = 0"
| "boundary_below c (Suc n) =
     (if Suc n = length c \<or> \<not> is_cont_byte (c ! Suc n) then Suc n else boundary_below c n)"

definition sess_cwd :: "string \<Rightarrow> string" where
  "sess_cwd c =
     concat (map (\<lambda>u. if is_control (code_point u) then ''?'' else u)
       (utf8_units (take (boundary_below c (min (length c) MAX_CWD_BYTES)) c)))"

section \<open>Reading\<close>

text \<open>The three counts over a session's rows decide its state.\<close>

definition session_state_of :: "sess_db \<Rightarrow> string \<Rightarrow> session_state" where
  "session_state_of db sess =
     (let rows = filter (\<lambda>r. hr_session r = sess) db;
          live = length (filter (\<lambda>r. hr_ended_at r = None) rows);
          blind = length (filter (\<lambda>r. hr_pid r = []) rows)
      in if length rows = 0 then S_Unknown
         else if live = 0 \<and> blind = 0 then S_Ended
         else if live = 0 then S_Unknown
         else S_Live)"

definition sess_holders :: "sess_db \<Rightarrow> string \<Rightarrow> holder_row list" where
  "sess_holders db sess =
     sort_key (\<lambda>r. (- hr_seen_at r, hr_pid r, hr_instance r)) (filter (\<lambda>r. hr_session r = sess) db)"

definition holds :: "process \<Rightarrow> holder_row \<Rightarrow> bool" where
  "holds p r \<longleftrightarrow> hr_session r = pc_session p \<and> hr_pid r = pc_pid p \<and> hr_instance r = pc_instance p"

definition sess_holder :: "sess_db \<Rightarrow> process \<Rightarrow> holder_row option" where
  "sess_holder db p = List.find (holds p) db"

section \<open>Events\<close>

text \<open>\<open>INSERT \<dots> ON CONFLICT \<dots> DO UPDATE\<close> on the key of the process.\<close>

definition upsert_holder :: "process \<Rightarrow> holder_row \<Rightarrow> (holder_row \<Rightarrow> holder_row) \<Rightarrow> sess_db \<Rightarrow> sess_db" where
  "upsert_holder p new upd db =
     (if \<exists>r \<in> set db. holds p r then map (\<lambda>r. if holds p r then upd r else r) db else db @ [new])"

definition prune_sessions :: "string \<Rightarrow> int \<Rightarrow> sess_db \<Rightarrow> sess_db" where
  "prune_sessions sess cutoff db =
     filter (\<lambda>r. hr_session r = sess \<or> (\<exists>x \<in> set db. hr_session x = hr_session r \<and> \<not> hr_seen_at x < cutoff)) db"

definition sess_started :: "process \<Rightarrow> string \<Rightarrow> string \<Rightarrow> int \<Rightarrow> sess_db \<Rightarrow> (sess_db \<times> session_state) core_result" where
  "sess_started p dir source now db =
     result_bind (process_check p) (\<lambda>_.
       let db1 = prune_sessions (pc_session p) (saturating_sub now PRUNE_AFTER_MS) db;
           before = session_state_of db1 (pc_session p)
       in Inr (upsert_holder p
            \<lparr>hr_session = pc_session p, hr_pid = pc_pid p, hr_instance = pc_instance p, hr_cwd = sess_cwd dir,
             hr_started_at = Some now, hr_start_source = Some (sess_word source), hr_seen_at = now,
             hr_ended_at = None, hr_end_reason = None\<rparr>
            (\<lambda>r. r\<lparr>hr_cwd := sess_cwd dir, hr_started_at := Some now, hr_start_source := Some (sess_word source),
                  hr_seen_at := now, hr_ended_at := None, hr_end_reason := None\<rparr>) db1, before))"

definition sess_seen :: "process \<Rightarrow> string \<Rightarrow> int \<Rightarrow> sess_db \<Rightarrow> sess_db core_result" where
  "sess_seen p dir now db =
     result_bind (process_check p) (\<lambda>_.
       Inr (upsert_holder p
         \<lparr>hr_session = pc_session p, hr_pid = pc_pid p, hr_instance = pc_instance p, hr_cwd = sess_cwd dir,
          hr_started_at = None, hr_start_source = None, hr_seen_at = now, hr_ended_at = None, hr_end_reason = None\<rparr>
         (\<lambda>r. if hr_ended_at r \<noteq> None \<or> hr_seen_at r < saturating_sub now SEEN_REFRESH_MS
              then r\<lparr>hr_seen_at := now, hr_ended_at := None, hr_end_reason := None\<rparr> else r) db))"

definition sess_ended :: "process \<Rightarrow> string \<Rightarrow> int \<Rightarrow> sess_db \<Rightarrow> (sess_db \<times> end_answer) core_result" where
  "sess_ended p reason now db =
     result_bind (process_check p) (\<lambda>_.
       if (case sess_holder db p of None \<Rightarrow> False | Some h \<Rightarrow> holder_ended h) then Inr (db, End_Already)
       else Inr (upsert_holder p
         \<lparr>hr_session = pc_session p, hr_pid = pc_pid p, hr_instance = pc_instance p, hr_cwd = [],
          hr_started_at = None, hr_start_source = None, hr_seen_at = now, hr_ended_at = Some now,
          hr_end_reason = Some (sess_word reason)\<rparr>
         (\<lambda>r. r\<lparr>hr_seen_at := now, hr_ended_at := Some now, hr_end_reason := Some (sess_word reason)\<rparr>) db, End_Recorded))"

definition sess_gone :: "process \<Rightarrow> int \<Rightarrow> sess_db \<Rightarrow> (sess_db \<times> bool) core_result" where
  "sess_gone p now db =
     result_bind (process_check p) (\<lambda>_.
       if pc_pid p = [] then Inr (db, False)
       else
         let hit = (\<lambda>r. holds p r \<and> hr_ended_at r = None) in
         Inr (map (\<lambda>r. if hit r then r\<lparr>hr_ended_at := Some now, hr_end_reason := Some GONE_WORD, hr_seen_at := now\<rparr> else r) db,
              list_ex hit db))"

section \<open>Listing\<close>

record sess_cursor =
  sc_seen_at :: int
  sc_session :: string
  sc_pid :: string
  sc_instance :: string

definition holder_key :: "holder_row \<Rightarrow> int \<times> string \<times> string \<times> string" where
  "holder_key r = (hr_seen_at r, hr_session r, hr_pid r, hr_instance r)"

definition cursor_key :: "sess_cursor \<Rightarrow> int \<times> string \<times> string \<times> string" where
  "cursor_key c = (sc_seen_at c, sc_session c, sc_pid c, sc_instance c)"

definition cursor_at :: "holder_row \<Rightarrow> sess_cursor" where
  "cursor_at r = \<lparr>sc_seen_at = hr_seen_at r, sc_session = hr_session r, sc_pid = hr_pid r, sc_instance = hr_instance r\<rparr>"

definition sess_select :: "sess_db \<Rightarrow> bool \<Rightarrow> sess_cursor option \<Rightarrow> holder_row list" where
  "sess_select db everything after =
     (let pick = (\<lambda>r. (everything \<or> hr_ended_at r = None) \<and>
            (case after of None \<Rightarrow> True
             | Some c \<Rightarrow> if everything then holder_key r < cursor_key c else holder_key r > cursor_key c));
          rows = sort_key holder_key (filter pick db)
      in if everything then rev rows else rows)"

definition sess_list :: "sess_db \<Rightarrow> bool \<Rightarrow> sess_cursor option \<Rightarrow> holder_row list \<times> sess_cursor option" where
  "sess_list db everything after =
     (let rows = take (LIST_CAP + 1) (sess_select db everything after)
      in if length rows > LIST_CAP
         then (take LIST_CAP rows, Some (cursor_at (last (take LIST_CAP rows)))) else (rows, None))"

section \<open>What an end is evidence of\<close>

datatype sess_call =
  SC_Started process string string
| SC_Seen process string
| SC_Ended process string
| SC_Gone process

fun sess_apply :: "sess_call \<Rightarrow> int \<Rightarrow> sess_db \<Rightarrow> sess_db core_result" where
  "sess_apply (SC_Started p dir source) now db = result_bind (sess_started p dir source now db) (\<lambda>(db', _). Inr db')"
| "sess_apply (SC_Seen p dir) now db = sess_seen p dir now db"
| "sess_apply (SC_Ended p reason) now db = result_bind (sess_ended p reason now db) (\<lambda>(db', _). Inr db')"
| "sess_apply (SC_Gone p) now db = result_bind (sess_gone p now db) (\<lambda>(db', _). Inr db')"

fun call_process :: "sess_call \<Rightarrow> process" where
  "call_process (SC_Started p _ _) = p"
| "call_process (SC_Seen p _) = p"
| "call_process (SC_Ended p _) = p"
| "call_process (SC_Gone p) = p"

text \<open>An event that shows the process running, one that shows it ended, and one that shows it was there.\<close>

fun shows_running :: "sess_call \<Rightarrow> bool" where
  "shows_running (SC_Started _ _ _) = True"
| "shows_running (SC_Seen _ _) = True"
| "shows_running _ = False"

fun shows_there :: "sess_call \<Rightarrow> bool" where
  "shows_there (SC_Gone _) = False"
| "shows_there _ = True"

text \<open>The events of a run in which every call succeeded, in order, with their times.\<close>

inductive sess_run :: "(int \<times> sess_call) list \<Rightarrow> sess_db \<Rightarrow> bool" where
  sr_start: "sess_run [] []"
| sr_call: "\<lbrakk>sess_run tr db; sess_apply c now db = Inr db'\<rbrakk> \<Longrightarrow> sess_run (tr @ [(now, c)]) db'"

definition heard_of :: "(int \<times> sess_call) list \<Rightarrow> process \<Rightarrow> bool" where
  "heard_of tr p \<longleftrightarrow> (\<exists>(now, c) \<in> set tr. call_process c = p \<and> shows_there c)"

text \<open>What the last event about a process showed.\<close>

fun last_shows_running :: "(int \<times> sess_call) list \<Rightarrow> process \<Rightarrow> bool" where
  "last_shows_running tr p =
     (case filter (\<lambda>(_, c). call_process c = p) (rev tr) of [] \<Rightarrow> False | (_, c) # _ \<Rightarrow> shows_running c)"

text \<open>No two events further apart than a prune looks back.\<close>

definition within_prune :: "(int \<times> sess_call) list \<Rightarrow> bool" where
  "within_prune tr \<longleftrightarrow> (\<forall>(t, _) \<in> set tr. i64_MIN + PRUNE_AFTER_MS \<le> t \<and> t \<le> i64_MAX \<and> (\<forall>(t', _) \<in> set tr. t' - PRUNE_AFTER_MS \<le> t))"

lemma session_state_iff:
  "session_state_of db sess = S_Ended \<longleftrightarrow>
     (\<exists>r \<in> set db. hr_session r = sess) \<and>
     (\<forall>r \<in> set db. hr_session r = sess \<longrightarrow> hr_ended_at r \<noteq> None \<and> hr_pid r \<noteq> [])"
  "session_state_of db sess = S_Live \<longleftrightarrow> (\<exists>r \<in> set db. hr_session r = sess \<and> hr_ended_at r = None)"
  by (auto simp: session_state_of_def Let_def filter_empty_conv)

text \<open>
  The run's record: each process heard of has a row, seen at one of the run's times, and a row that is
  live unless the process's last event ended it (for a process with a pid).
\<close>

definition run_recorded :: "(int \<times> sess_call) list \<Rightarrow> sess_db \<Rightarrow> bool" where
  "run_recorded tr db \<longleftrightarrow>
     (\<forall>r \<in> set db. hr_seen_at r \<in> fst ` set tr) \<and>
     (\<forall>p. heard_of tr p \<longrightarrow> (\<exists>r \<in> set db. holds p r)) \<and>
     (\<forall>p. \<forall>r \<in> set db. holds p r \<and> hr_ended_at r \<noteq> None \<longrightarrow> \<not> last_shows_running tr p)"

lemma last_shows_snoc:
  "last_shows_running (tr @ [(now, c)]) p = (if call_process c = p then shows_running c else last_shows_running tr p)"
  by simp

lemma heard_snoc: "heard_of (tr @ [(now, c)]) p \<longleftrightarrow> heard_of tr p \<or> call_process c = p \<and> shows_there c"
  by (auto simp: heard_of_def)

lemma holds_same: "holds p r \<Longrightarrow> holds q r \<Longrightarrow> p = q"
  by (cases p; cases q) (simp add: holds_def)

declare last_shows_running.simps [simp del]

text \<open>How a call that succeeds changes the rows.\<close>

lemma upsert_rows:
  assumes "r' \<in> set (upsert_holder p new upd db)"
  shows "(r' = new \<and> \<not> (\<exists>r \<in> set db. holds p r)) \<or> (\<exists>r \<in> set db. r' = (if holds p r then upd r else r))"
  using assms by (auto simp: upsert_holder_def split: if_splits)

lemma upsert_holds:
  assumes "holds p new" and "\<And>r. holds q (upd r) = holds q r"
  shows "(\<exists>r \<in> set (upsert_holder p new upd db). holds q r) \<longleftrightarrow> (\<exists>r \<in> set db. holds q r) \<or> q = p"
  using assms holds_same [of p new q] by (auto simp: upsert_holder_def)

lemma prune_keeps:
  assumes "within_prune (tr @ [(now, c)])" and "\<forall>r \<in> set db. hr_seen_at r \<in> fst ` set tr"
  shows "prune_sessions sess (saturating_sub now PRUNE_AFTER_MS) db = db"
proof -
  have "\<not> hr_seen_at r < saturating_sub now PRUNE_AFTER_MS" if "r \<in> set db" for r
  proof -
    from that assms(2) obtain c' where "(hr_seen_at r, c') \<in> set tr" by force
    with assms(1) have "now - PRUNE_AFTER_MS \<le> hr_seen_at r" "i64_MIN + PRUNE_AFTER_MS \<le> now" "now \<le> i64_MAX"
      by (force simp: within_prune_def)+
    then show ?thesis by (auto simp: saturating_sub_def PRUNE_AFTER_MS_def i64_MAX_def i64_MIN_def)
  qed
  then show ?thesis by (auto simp: prune_sessions_def filter_id_conv)
qed

lemma run_recorded_upsert:
  assumes rec: "run_recorded tr db" and c: "call_process c = p" and new: "holds p new" "hr_seen_at new = now"
    and upd: "\<And>r q. holds q (upd r) = holds q r" "\<And>r. hr_seen_at (upd r) = now \<or> hr_seen_at (upd r) = hr_seen_at r"
    and live: "shows_running c \<Longrightarrow> hr_ended_at new = None \<and> (\<forall>r. hr_ended_at (upd r) = None)"
  shows "run_recorded (tr @ [(now, c)]) (upsert_holder p new upd db)"
  unfolding run_recorded_def
proof (intro conjI allI ballI impI)
  fix r' assume "r' \<in> set (upsert_holder p new upd db)"
  from upsert_rows [OF this] rec new(2) upd(2) show "hr_seen_at r' \<in> fst ` set (tr @ [(now, c)])"
    by (auto simp: run_recorded_def) metis+
next
  fix q assume "heard_of (tr @ [(now, c)]) q"
  with rec c have "(\<exists>r \<in> set db. holds q r) \<or> q = p" by (auto simp: run_recorded_def heard_snoc)
  then show "\<exists>r \<in> set (upsert_holder p new upd db). holds q r" using upsert_holds [OF new(1) upd(1)] by simp
next
  fix q r' assume r': "r' \<in> set (upsert_holder p new upd db)" and h: "holds q r' \<and> hr_ended_at r' \<noteq> None"
  from upsert_rows [OF r'] show "\<not> last_shows_running (tr @ [(now, c)]) q"
  proof (elim disjE conjE bexE)
    assume "r' = new"
    with h new(1) holds_same have "q = p" by blast
    with h live c \<open>r' = new\<close> show ?thesis by (auto simp: last_shows_snoc)
  next
    fix r assume r: "r \<in> set db" "r' = (if holds p r then upd r else r)"
    show ?thesis
    proof (cases "holds p r")
      case True
      with r h upd(1) holds_same have "q = p" by (metis (full_types))
      with True r h live c show ?thesis by (auto simp: last_shows_snoc)
    next
      case False
      with r h have "q \<noteq> p" "hr_ended_at r \<noteq> None" "holds q r" by auto
      then have "\<not> last_shows_running tr q" using rec r(1) unfolding run_recorded_def by blast
      with \<open>q \<noteq> p\<close> c show ?thesis by (simp add: last_shows_snoc)
    qed
  qed
qed

lemma run_recorded_same:
  assumes "run_recorded tr db" and "\<not> shows_running c" and "shows_there c \<Longrightarrow> \<exists>r \<in> set db. holds (call_process c) r"
  shows "run_recorded (tr @ [(now, c)]) db"
  using assms by (auto simp: run_recorded_def heard_snoc last_shows_snoc)

lemma sess_call_recorded:
  assumes "sess_apply c now db = Inr db'" and "run_recorded tr db" and "within_prune (tr @ [(now, c)])"
  shows "run_recorded (tr @ [(now, c)]) db'"
proof (cases c)
  case (SC_Started p dir source)
  have "prune_sessions (pc_session p) (saturating_sub now PRUNE_AFTER_MS) db = db"
    using prune_keeps [OF assms(3)] assms(2) by (simp add: run_recorded_def)
  with SC_Started assms(1,2) show ?thesis
    by (auto simp: sess_started_def result_bind_Inr Let_def holds_def intro!: run_recorded_upsert)
next
  case (SC_Seen p dir)
  with assms(1,2) show ?thesis
    by (auto simp: sess_seen_def result_bind_Inr holds_def split: if_splits intro!: run_recorded_upsert)
next
  case (SC_Ended p reason)
  show ?thesis
  proof (cases "case sess_holder db p of None \<Rightarrow> False | Some h \<Rightarrow> holder_ended h")
    case True
    then obtain h where "h \<in> set db" "holds p h" by (auto simp: sess_holder_def split: option.splits dest!: find_SomeD)
    with True SC_Ended assms(1,2) show ?thesis
      by (auto simp: sess_ended_def result_bind_Inr intro!: run_recorded_same)
  next
    case False
    with SC_Ended assms(1,2) show ?thesis
      by (auto simp: sess_ended_def result_bind_Inr holds_def split: if_splits intro!: run_recorded_upsert)
  qed
next
  case (SC_Gone p)
  show ?thesis
  proof (cases "pc_pid p = []")
    case True
    with SC_Gone assms(1,2) show ?thesis by (auto simp: sess_gone_def result_bind_Inr intro!: run_recorded_same)
  next
    case False
    let ?upd = "\<lambda>r. if holds p r \<and> hr_ended_at r = None then r\<lparr>hr_ended_at := Some now, hr_end_reason := Some GONE_WORD, hr_seen_at := now\<rparr> else r"
    have "db' = map ?upd db" using SC_Gone assms(1) False by (auto simp: sess_gone_def result_bind_Inr Let_def)
    moreover have h: "holds q (?upd r) = holds q r" for q r by (simp add: holds_def)
    moreover have "\<not> last_shows_running (tr @ [(now, c)]) q"
      if "r \<in> set db" "holds q (?upd r)" "hr_ended_at (?upd r) \<noteq> None" for q r
    proof (cases "q = p")
      case False
      then have "\<not> holds p r" using that(2) h holds_same by blast
      with that have "r \<in> set db" "holds q r" "hr_ended_at r \<noteq> None" by simp_all
      then have "\<not> last_shows_running tr q" using assms(2) unfolding run_recorded_def by blast
      with False SC_Gone show ?thesis by (simp add: last_shows_snoc)
    qed (use SC_Gone in \<open>simp add: last_shows_snoc\<close>)
    moreover have "hr_seen_at (?upd r) \<in> fst ` set (tr @ [(now, c)])" if "r \<in> set db" for r
      using assms(2) that by (simp add: run_recorded_def)
    moreover have "\<exists>r \<in> set db. holds q r" if "heard_of (tr @ [(now, c)]) q" for q
      using assms(2) that SC_Gone by (simp add: run_recorded_def heard_snoc)
    ultimately show ?thesis unfolding run_recorded_def by (simp only: set_map ball_simps bex_simps) blast
  qed
qed

lemma within_prune_prefix: "within_prune (tr @ [x]) \<Longrightarrow> within_prune tr"
  by (auto simp: within_prune_def)

lemma sess_run_recorded: "sess_run tr db \<Longrightarrow> within_prune tr \<Longrightarrow> run_recorded tr db"
proof (induction rule: sess_run.induct)
  case sr_start
  show ?case by (simp add: run_recorded_def heard_of_def)
next
  case (sr_call tr db c now db')
  then show ?case using sess_call_recorded within_prune_prefix by blast
qed

text \<open>Every row is that of a process heard of.\<close>

definition hrow_key :: "holder_row \<Rightarrow> string \<times> string \<times> string" where
  "hrow_key r = (hr_session r, hr_pid r, hr_instance r)"

lemma holds_key: "holds p r \<longleftrightarrow> hrow_key r = (pc_session p, pc_pid p, pc_instance p)"
  by (auto simp: holds_def hrow_key_def)

lemma upsert_keys:
  assumes "r' \<in> set (upsert_holder p new upd db1)" and "\<And>r. hrow_key (upd r) = hrow_key r" and "holds p new" and "set db1 \<subseteq> set db"
  shows "hrow_key r' \<in> hrow_key ` set db \<or> holds p r'"
  using upsert_rows [OF assms(1)] assms(2-4) by (auto split: if_splits)

lemma call_rows:
  assumes "sess_apply c now db = Inr db'" and "r' \<in> set db'"
  shows "hrow_key r' \<in> hrow_key ` set db \<or> (shows_there c \<and> holds (call_process c) r')"
proof (cases c)
  case (SC_Started p dir source)
  with assms upsert_keys [of r' p _ _ "prune_sessions (pc_session p) (saturating_sub now PRUNE_AFTER_MS) db" db]
  show ?thesis by (auto simp: sess_started_def result_bind_Inr Let_def prune_sessions_def hrow_key_def holds_def)
next
  case (SC_Seen p dir)
  with assms upsert_keys [of r' p _ _ db db] show ?thesis
    by (auto simp: sess_seen_def result_bind_Inr hrow_key_def holds_def)
next
  case (SC_Ended p reason)
  with assms upsert_keys [of r' p _ _ db db] show ?thesis
    by (auto simp: sess_ended_def result_bind_Inr hrow_key_def holds_def split: if_splits)
next
  case (SC_Gone p)
  with assms show ?thesis by (auto simp: sess_gone_def result_bind_Inr Let_def hrow_key_def split: if_splits)
qed

lemma rows_heard:
  assumes "sess_run tr db"
  shows "\<forall>r \<in> set db. \<exists>p. heard_of tr p \<and> holds p r"
  using assms
proof (induction rule: sess_run.induct)
  case (sr_call tr db c now db')
  show ?case
  proof
    fix r' assume "r' \<in> set db'"
    from call_rows [OF sr_call.hyps(2) this] show "\<exists>p. heard_of (tr @ [(now, c)]) p \<and> holds p r'"
    proof
      assume "hrow_key r' \<in> hrow_key ` set db"
      then obtain r where r: "r \<in> set db" "hrow_key r = hrow_key r'" by auto
      with sr_call.IH obtain p where "heard_of tr p" "holds p r" by blast
      with r(2) have "heard_of (tr @ [(now, c)]) p \<and> holds p r'" by (simp add: heard_snoc holds_key)
      then show ?thesis by blast
    qed (auto simp: heard_snoc)
  qed
qed simp

lemma ended_evidence:
  assumes "sess_run tr db" and "within_prune tr" and "session_state_of db sess = S_Ended"
  shows "(\<exists>p. heard_of tr p \<and> pc_session p = sess) \<and>
    (\<forall>p. heard_of tr p \<and> pc_session p = sess \<longrightarrow> pc_pid p \<noteq> [] \<and> \<not> last_shows_running tr p)"
proof
  have rec: "run_recorded tr db" using sess_run_recorded assms(1,2) by blast
  from assms(3) have r: "\<exists>r \<in> set db. hr_session r = sess"
    "\<forall>r \<in> set db. hr_session r = sess \<longrightarrow> hr_ended_at r \<noteq> None \<and> hr_pid r \<noteq> []" by (simp_all add: session_state_iff)
  show "\<exists>p. heard_of tr p \<and> pc_session p = sess"
  proof -
    from r(1) obtain x where x: "x \<in> set db" "hr_session x = sess" by blast
    with rows_heard [OF assms(1)] obtain p where "heard_of tr p" "holds p x" by blast
    with x show ?thesis by (auto simp: holds_def)
  qed
  show "\<forall>p. heard_of tr p \<and> pc_session p = sess \<longrightarrow> pc_pid p \<noteq> [] \<and> \<not> last_shows_running tr p"
  proof (intro allI impI)
    fix p assume p: "heard_of tr p \<and> pc_session p = sess"
    then obtain x where x: "x \<in> set db" "holds p x" using rec by (auto simp: run_recorded_def)
    with r(2) p have "hr_ended_at x \<noteq> None" "hr_pid x \<noteq> []" by (auto simp: holds_def)
    moreover have "\<not> last_shows_running tr p" using rec x calculation(1) unfolding run_recorded_def by blast
    ultimately show "pc_pid p \<noteq> [] \<and> \<not> last_shows_running tr p" using x(2) by (simp add: holds_def)
  qed
qed

text \<open>
  C28. Only an ended session is evidence. After any run of hook events within the registry's memory, a
  session is recorded as ended only when every process heard of in it was one the hook could name
  and the last event about each was its end or its proven death; one process still running, or one
  that could not be named, keeps it from that answer.
\<close>

theorem session_ended_is_evidence:
  assumes "sess_run tr db" and "within_prune tr" and "session_state_of db sess = S_Ended"
  shows "(\<exists>p. heard_of tr p \<and> pc_session p = sess) \<and>
    (\<forall>p. heard_of tr p \<and> pc_session p = sess \<longrightarrow> pc_pid p \<noteq> [] \<and> \<not> last_shows_running tr p)"
  using ended_evidence assms by blast

definition demo_process :: process where
  "demo_process = \<lparr>pc_session = ''s'', pc_pid = ''7'', pc_instance = ''h''\<rparr>"

definition demo_trace :: "(int \<times> sess_call) list" where
  "demo_trace = [(10, SC_Started demo_process ''/r'' ''startup''), (20, SC_Ended demo_process ''clear'')]"

lemma demo_process_ok: "process_check demo_process = Inr ()"
  by code_simp

lemma demo_trace_run: "\<exists>db. sess_run demo_trace db \<and> session_state_of db ''s'' = S_Ended"
proof -
  obtain db1 where one: "sess_apply (SC_Started demo_process ''/r'' ''startup'') 10 [] = Inr db1"
    and d1: "\<exists>r. db1 = [r] \<and> holds demo_process r \<and> hr_ended_at r = None"
    by (auto simp: sess_started_def demo_process_ok prune_sessions_def upsert_holder_def holds_def)
  obtain db2 where two: "sess_apply (SC_Ended demo_process ''clear'') 20 db1 = Inr db2"
    and d2: "\<exists>r. db2 = [r] \<and> holds demo_process r \<and> hr_ended_at r \<noteq> None"
    using d1 by (auto simp: sess_ended_def demo_process_ok upsert_holder_def sess_holder_def holder_ended_def holds_def)
  have "sess_run (([] @ [(10, SC_Started demo_process ''/r'' ''startup'')]) @ [(20, SC_Ended demo_process ''clear'')]) db2"
    using sess_run.sr_call [OF sess_run.sr_call [OF sess_run.sr_start one] two] .
  moreover have "session_state_of db2 ''s'' = S_Ended"
    using d2 by (auto simp: session_state_iff holds_def demo_process_def)
  ultimately show ?thesis by (auto simp: demo_trace_def)
qed

lemma demo_within: "within_prune demo_trace"
  by (simp add: within_prune_def demo_trace_def PRUNE_AFTER_MS_def i64_MIN_def i64_MAX_def)

theorem session_ended_is_evidence_witness:
  "\<exists>db. sess_run demo_trace db \<and> session_state_of db ''s'' = S_Ended \<and> \<not> last_shows_running demo_trace demo_process"
proof -
  obtain db where d: "sess_run demo_trace db" "session_state_of db ''s'' = S_Ended" using demo_trace_run by blast
  have "heard_of demo_trace demo_process \<and> pc_session demo_process = ''s''"
    by (simp add: heard_of_def demo_trace_def demo_process_def)
  with session_ended_is_evidence [OF d(1) demo_within d(2)] d show ?thesis by blast
qed

text \<open>
  A running process is never lost. A start, or any other event of a process, leaves its session live
  and changes no other process's row, but that a start may forget whole sessions none of whose
  processes was seen for ninety days; it never turns a session into an ended one.
\<close>

theorem session_running_is_live:
  assumes "sess_apply c now db = Inr db'" and "shows_running c"
  shows "session_state_of db' (pc_session (call_process c)) = S_Live \<and>
    (\<forall>r \<in> set db. \<not> holds (call_process c) r \<longrightarrow> r \<in> set db' \<or>
       (\<forall>x \<in> set db. hr_session x = hr_session r \<longrightarrow> hr_seen_at x < saturating_sub now PRUNE_AFTER_MS)) \<and>
    (\<forall>sess. session_state_of db' sess = S_Ended \<longrightarrow> session_state_of db sess = S_Ended)"
proof -
  define p where "p = call_process c"
  define db1 where "db1 = (case c of SC_Started _ _ _ \<Rightarrow> prune_sessions (pc_session p) (saturating_sub now PRUNE_AFTER_MS) db | _ \<Rightarrow> db)"
  obtain new upd where u: "db' = upsert_holder p new upd db1" "holds p new" "hr_ended_at new = None"
    "\<And>r q. holds q (upd r) = holds q r" "\<And>r. hr_ended_at (upd r) = None"
    using assms that
    by (cases c) (force simp: sess_started_def sess_seen_def result_bind_Inr Let_def holds_def db1_def p_def)+
  have live: "\<exists>r \<in> set db'. hr_session r = pc_session p \<and> hr_ended_at r = None"
  proof (cases "\<exists>r \<in> set db1. holds p r")
    case True
    then obtain r where "r \<in> set db1" "holds p r" by blast
    then have "upd r \<in> set db'" "holds p (upd r)" using u(1,4) by (auto simp: upsert_holder_def)
    with u(5) show ?thesis by (auto simp: holds_def)
  next
    case False
    with u show ?thesis by (auto simp: upsert_holder_def holds_def)
  qed
  have keep: "r \<in> set db'" if "r \<in> set db1" "\<not> holds p r" for r
    using that u(1) by (auto simp: upsert_holder_def image_iff intro: bexI [of _ r])
  have gone: "r \<in> set db1 \<or> (\<forall>x \<in> set db. hr_session x = hr_session r \<longrightarrow> hr_seen_at x < saturating_sub now PRUNE_AFTER_MS)"
    if "r \<in> set db" for r
    using that assms(2) by (cases c) (auto simp: db1_def prune_sessions_def)
  have whole: "r \<in> set db1" if "r \<in> set db" "x \<in> set db1" "hr_session x = hr_session r" for r x
    using that by (cases c) (auto simp: db1_def prune_sessions_def)
  have sub: "set db1 \<subseteq> set db" by (cases c) (auto simp: db1_def prune_sessions_def)
  have "session_state_of db sess = S_Ended" if e: "session_state_of db' sess = S_Ended" for sess
  proof -
    have ne: "sess \<noteq> pc_session p" using e live by (auto simp: session_state_iff)
    have same: "{r \<in> set db'. hr_session r = sess} = {r \<in> set db1. hr_session r = sess}"
    proof (intro equalityI subsetI)
      fix r assume "r \<in> {r \<in> set db'. hr_session r = sess}"
      then have r: "r \<in> set db'" "hr_session r = sess" by auto
      from upsert_rows [OF r(1) [unfolded u(1)]] u(2,4) r(2) ne show "r \<in> {r \<in> set db1. hr_session r = sess}"
        by (auto simp: holds_def split: if_splits)
    next
      fix r assume "r \<in> {r \<in> set db1. hr_session r = sess}"
      with keep ne show "r \<in> {r \<in> set db'. hr_session r = sess}" by (auto simp: holds_def)
    qed
    from e obtain x where x: "x \<in> set db1" "hr_session x = sess" using same by (auto simp: session_state_iff)
    have "{r \<in> set db. hr_session r = sess} = {r \<in> set db1. hr_session r = sess}" using whole x sub by auto
    with same have "{r \<in> set db. hr_session r = sess} = {r \<in> set db'. hr_session r = sess}" by simp
    with e show ?thesis unfolding session_state_iff by blast
  qed
  with live keep gone show ?thesis unfolding p_def [symmetric] session_state_iff(2) by blast
qed

theorem session_running_is_live_witness:
  "\<exists>db. sess_apply (SC_Seen demo_process ''/r'') 10 [] = Inr db \<and> session_state_of db ''s'' = S_Live"
proof -
  obtain db where a: "sess_apply (SC_Seen demo_process ''/r'') 10 [] = Inr db" by (simp add: sess_seen_def demo_process_ok)
  from session_running_is_live [OF a] a show ?thesis by (auto simp: demo_process_def)
qed

end
