(* ===== verification/Ns_Types.thy ===== *)
theory Ns_Types
  imports Core_Error
begin

text \<open>
  What a typed namespace promises, \<open>crates/jkb-core/src/nstype\<close>: the five registered types, the
  item kinds each accepts, and how a recorded name is resolved to its type. A \<open>&'static dyn
  NamespaceType\<close> is one of five statics, so it is a datatype here; the methods a type overrides
  are the equations of that type.
\<close>

section \<open>Kinds\<close>

definition KIND_GOAL :: string where "KIND_GOAL = ''goal''"
definition KIND_NODE :: string where "KIND_NODE = ''node''"
definition KIND_ARTIFACT :: string where "KIND_ARTIFACT = ''artifact''"
definition KIND_REFLECTION :: string where "KIND_REFLECTION = ''reflection''"
definition KIND_TASK :: string where "KIND_TASK = ''task''"

definition BASE_KINDS :: "string list" where
  "BASE_KINDS = [KIND_GOAL, KIND_NODE, KIND_ARTIFACT, KIND_REFLECTION]"

definition INVESTIGATION_KINDS :: "string list" where
  "INVESTIGATION_KINDS = [KIND_GOAL, KIND_NODE, KIND_ARTIFACT, KIND_REFLECTION, KIND_TASK]"

definition NON_WORK_KINDS :: "string list" where
  "NON_WORK_KINDS = [KIND_REFLECTION]"

datatype base_kind = Base_Goal | Base_Node | Base_Artifact | Base_Reflection

record node_kind_spec =
  nk_kind :: string
  nk_base :: base_kind
  nk_about :: string

abbreviation node_kind :: "string \<Rightarrow> base_kind \<Rightarrow> string \<Rightarrow> node_kind_spec" where
  "node_kind k b a \<equiv> \<lparr>nk_kind = k, nk_base = b, nk_about = a\<rparr>"

definition conjecture_KINDS :: "node_kind_spec list" where
  "conjecture_KINDS =
    [node_kind ''conjecture'' Base_Goal (''the statement to resolve, carrying the acceptance predicate''),
     node_kind ''approach-family'' Base_Node (''a mathematical IDEA '' @ emdash @ '' group routes by idea, not by wording''),
     node_kind ''approach'' Base_Node (''a concrete route within a family''),
     node_kind ''reduction'' Base_Node ([CHR 0x27] @ ''it suffices to show X'' @ [CHR 0x27] @ '' '' @ emdash @ '' check it is not equivalent in strength''),
     node_kind ''lemma'' Base_Node (''a statement a route needs proved''),
     node_kind ''construction'' Base_Artifact (''an explicit object built along the way''),
     node_kind ''invariant'' Base_Node (''a preserved quantity or property (also reopens blocked routes)''),
     node_kind ''candidate-proof'' Base_Artifact (''a claimed affirmative resolution '' @ emdash @ '' must survive audit''),
     node_kind ''candidate-construction'' Base_Artifact (''a claimed counterexample '' @ emdash @ '' needs an exact certificate''),
     node_kind ''parameter-regime'' Base_Node (''a region of the problem space; can be ruled out wholesale''),
     node_kind ''obstruction'' Base_Node (''a reason a regime or mechanism cannot work '' @ emdash @ '' the pruning unit''),
     node_kind ''gap'' Base_Node (''a first-class residual: exactly what is still missing (the resume token)''),
     node_kind ''partial-result'' Base_Artifact (''the strongest proved statement so far '' @ emdash @ '' the progress metric''),
     node_kind ''audit'' Base_Node (''an adversarial check against the enumerated checklist''),
     node_kind ''tool'' Base_Artifact (''a harness built once and reused across rounds''),
     node_kind ''mechanism'' Base_Node (''a materially new idea '' @ emdash @ '' the currency that reopens a blocked route'')]"

definition debugging_KINDS :: "node_kind_spec list" where
  "debugging_KINDS =
    [node_kind ''symptom'' Base_Goal (''the reported misbehaviour to explain (the investigation'' @ [CHR 0x27] @ ''s goal)''),
     node_kind ''repro'' Base_Artifact (''a procedure that reproduces the symptom; tag reliability=flaky|deterministic|minimized''),
     node_kind ''hypothesis'' Base_Node (''a candidate explanation '' @ emdash @ '' the pivot noun everything hangs off''),
     node_kind ''experiment'' Base_Node (''a fabricated test of a hypothesis (instrument / differential / bisection)''),
     node_kind ''observation'' Base_Node (''what an experiment showed; tag commit-range= and staleness= (it expires)''),
     node_kind ''suspect-area'' Base_Node (''the WHERE axis: a component that may hold the cause''),
     node_kind ''regression-window'' Base_Node (''the WHEN axis: the commit range that introduced the bug''),
     node_kind ''root-cause'' Base_Node (''the confirmed causal location '' @ emdash @ '' a diagnosis, not yet a resolution''),
     node_kind ''fix'' Base_Artifact (''the change that removes the cause; must be verified against the repro''),
     node_kind ''invariant'' Base_Node (''a property that must hold, learned along the way'')]"

definition tasks_KINDS :: "node_kind_spec list" where
  "tasks_KINDS =
    [node_kind ''task'' Base_Node (''a unit of work with a status lifecycle and a `depends_on` DAG'')]"

definition views_KINDS :: "node_kind_spec list" where
  "views_KINDS =
    [node_kind ''view'' Base_Node (''a saved query: `uid = view:<name>`, `content` = the DSL string'')]"

section \<open>The types\<close>

datatype type_role = Investigation_Type | Contract_Type

datatype ns_type = NT_Debugging | NT_Conjecture | NT_Tasks | NT_Views | NT_Journal

fun ns_type_name :: "ns_type \<Rightarrow> string" where
  "ns_type_name NT_Debugging = ''debugging''"
| "ns_type_name NT_Conjecture = ''conjecture-attack''"
| "ns_type_name NT_Tasks = ''tasks''"
| "ns_type_name NT_Views = ''views''"
| "ns_type_name NT_Journal = ''journal''"

fun ns_type_about :: "ns_type \<Rightarrow> string" where
  "ns_type_about NT_Debugging = ''localize and fix a hard bug: hypothesis -> experiment -> observation -> root cause -> fix -> verify, over a mutable codebase''"
| "ns_type_about NT_Conjecture = ''resolve a hard conjecture by proof OR disproof under one structure: diverse approach families, blocked-with-reason routes, adversarial audit, retained graveyard''"
| "ns_type_about NT_Tasks = ''holds tasks only''"
| "ns_type_about NT_Views = ''holds saved views only (`kind=view`, content = a query DSL string)''"
| "ns_type_about NT_Journal = ''surfaces a system table in the VFS; holds no items''"

fun ns_type_role :: "ns_type \<Rightarrow> type_role" where
  "ns_type_role NT_Tasks = Contract_Type"
| "ns_type_role NT_Views = Contract_Type"
| "ns_type_role NT_Journal = Contract_Type"
| "ns_type_role _ = Investigation_Type"

fun ns_node_kinds :: "ns_type \<Rightarrow> node_kind_spec list" where
  "ns_node_kinds NT_Debugging = debugging_KINDS"
| "ns_node_kinds NT_Conjecture = conjecture_KINDS"
| "ns_node_kinds NT_Tasks = tasks_KINDS"
| "ns_node_kinds NT_Views = views_KINDS"
| "ns_node_kinds NT_Journal = []"

fun ns_base_kinds :: "ns_type \<Rightarrow> string list" where
  "ns_base_kinds NT_Tasks = []"
| "ns_base_kinds NT_Views = []"
| "ns_base_kinds NT_Journal = []"
| "ns_base_kinds _ = INVESTIGATION_KINDS"

definition accepts_kind :: "ns_type \<Rightarrow> string \<Rightarrow> bool" where
  "accepts_kind ty kind \<longleftrightarrow> kind \<in> set (ns_base_kinds ty) \<or> (\<exists>k \<in> set (ns_node_kinds ty). nk_kind k = kind)"

definition ns_accepted_kinds :: "ns_type \<Rightarrow> string list" where
  "ns_accepted_kinds ty = ns_base_kinds ty @ map nk_kind (ns_node_kinds ty)"

section \<open>Resolving a recorded name\<close>

definition STRATEGIES :: "string list" where
  "STRATEGIES = [''debugging'', ''conjecture-attack'']"

definition AVAILABLE_TYPES :: "string list" where
  "AVAILABLE_TYPES = [''debugging'', ''conjecture-attack'', ''tasks'', ''views'', ''journal'']"

definition RESERVED_TYPES :: "(string \<times> string) list" where
  "RESERVED_TYPES =
     [(''tasks'', ''tasks''), (''_sys/views'', ''views''), (''_sys/sync'', ''journal''),
      (''_sys/transactions'', ''journal''), (''_sys/ingestions'', ''journal'')]"

definition ns_resolve :: "string \<Rightarrow> ns_type core_result" where
  "ns_resolve name =
     (if name = ''debugging'' then Inr NT_Debugging
      else if name = ''conjecture-attack'' then Inr NT_Conjecture
      else if name = ''tasks'' then Inr NT_Tasks
      else if name = ''views'' then Inr NT_Views
      else if name = ''journal'' then Inr NT_Journal
      else Inl (validation (''unknown namespace type `'' @ name @ ''`; available: '' @ join '', '' AVAILABLE_TYPES)))"

definition ns_resolve_strategy :: "string \<Rightarrow> ns_type core_result" where
  "ns_resolve_strategy name =
     (case ns_resolve name of
        Inl _ \<Rightarrow> Inl (validation (''unknown investigation type `'' @ name @ ''`; available: '' @ join '', '' STRATEGIES))
      | Inr ty \<Rightarrow>
          if ns_type_role ty \<noteq> Investigation_Type
          then Inl (validation (''`'' @ name @ ''` is a contract type ('' @ ns_type_about ty @
            ''), not an investigation strategy; strategies: '' @ join '', '' STRATEGIES))
          else Inr ty)"

definition reject_kind :: "string \<Rightarrow> ns_type \<Rightarrow> string \<Rightarrow> core_error" where
  "reject_kind ns_path ty kind =
     (let accepted = ns_accepted_kinds ty;
          accepted' = (if accepted = [] then ''nothing (it surfaces a system table and holds no items)''
                       else join '', '' accepted)
      in validation (''namespace `'' @ ns_path @ ''` is typed `'' @ ns_type_name ty @
           ''`, which does not accept items of kind `'' @ kind @ ''`; it accepts: '' @ accepted'))"

section \<open>What they promise\<close>

lemma accepts_kind_iff: "accepts_kind ty kind \<longleftrightarrow> kind \<in> set (ns_accepted_kinds ty)"
  by (auto simp: accepts_kind_def ns_accepted_kinds_def)

lemma ns_type_name_inject [simp]: "ns_type_name a = ns_type_name b \<longleftrightarrow> a = b"
  by (cases a; cases b) simp_all

lemma ns_resolve_name [simp]: "ns_resolve (ns_type_name ty) = Inr ty"
  by (cases ty) (simp_all add: ns_resolve_def)

lemma ns_resolve_Inr: "ns_resolve name = Inr ty \<longleftrightarrow> name = ns_type_name ty"
  by (cases ty) (auto simp: ns_resolve_def)

lemma ns_resolve_available: "(\<exists>ty. ns_resolve name = Inr ty) \<longleftrightarrow> name \<in> set AVAILABLE_TYPES"
proof
  assume "\<exists>ty. ns_resolve name = Inr ty"
  then obtain ty where "name = ns_type_name ty" by (auto simp: ns_resolve_Inr)
  then show "name \<in> set AVAILABLE_TYPES" by (cases ty) (simp_all add: AVAILABLE_TYPES_def)
next
  assume "name \<in> set AVAILABLE_TYPES"
  then show "\<exists>ty. ns_resolve name = Inr ty" by (auto simp: AVAILABLE_TYPES_def ns_resolve_def)
qed

lemma resolve_strategy_strategies: "(\<exists>ty. ns_resolve_strategy name = Inr ty) \<longleftrightarrow> name \<in> set STRATEGIES"
proof -
  have "ns_resolve_strategy name = Inr ty \<longleftrightarrow> name = ns_type_name ty \<and> ns_type_role ty = Investigation_Type" for ty
    by (auto simp: ns_resolve_strategy_def ns_resolve_Inr split: sum.splits)
  moreover have "(\<exists>ty. name = ns_type_name ty \<and> ns_type_role ty = Investigation_Type) \<longleftrightarrow> name \<in> set STRATEGIES"
  proof
    assume "\<exists>ty. name = ns_type_name ty \<and> ns_type_role ty = Investigation_Type"
    then obtain ty where "name = ns_type_name ty" "ns_type_role ty = Investigation_Type" by blast
    then show "name \<in> set STRATEGIES" by (cases ty) (simp_all add: STRATEGIES_def)
  next
    assume "name \<in> set STRATEGIES"
    then have "name = ns_type_name NT_Debugging \<or> name = ns_type_name NT_Conjecture" by (simp add: STRATEGIES_def)
    then show "\<exists>ty. name = ns_type_name ty \<and> ns_type_role ty = Investigation_Type"
      using ns_type_role.simps by metis
  qed
  ultimately show ?thesis by simp
qed

text \<open>Every reserved root's type is registered.\<close>

lemma reserved_types_resolve: "(p, t) \<in> set RESERVED_TYPES \<Longrightarrow> \<exists>ty. ns_resolve t = Inr ty \<and> ns_type_role ty = Contract_Type"
  by (auto simp: RESERVED_TYPES_def ns_resolve_def)

text \<open>The \<open>tasks\<close> contract is exact.\<close>

lemma tasks_accept: "accepts_kind NT_Tasks kind \<longleftrightarrow> kind = KIND_TASK"
  by (auto simp: accepts_kind_def tasks_KINDS_def KIND_TASK_def)

lemma journal_accepts: "\<not> accepts_kind NT_Journal kind"
  by (simp add: accepts_kind_def)

end
