(* ===== verification/Core_Namespace.thy ===== *)
theory Core_Namespace
  imports Ns_Types Core_Changelog Core_Text "HOL-Library.Product_Lexorder"
begin

text \<open>
  The namespace tree and what is placed in it: \<open>crates/jkb-core/src/ns.rs\<close>,
  \<open>crates/jkb-core/src/placement.rs\<close> and the contract check of
  \<open>crates/jkb-core/src/nstype/mod.rs\<close> that runs at every placement.

  The state is the rows of \<open>namespaces\<close> and \<open>placements\<close> with their AUTOINCREMENT marks, the
  columns of \<open>items\<close> and \<open>containment\<close> these modules read, and the change log. Unicode NFC, the
  JSON library and SQLite's JSON functions are arguments (\<open>ns_env\<close>); the clock is an argument.

  A recursive query may never end and a slice of a string may panic, so the operations that do
  either return an option: \<open>None\<close> is the call that does not return.
\<close>

section \<open>State\<close>

record ns_row =
  nr_id :: int
  nr_path :: string
  nr_parent :: "int option"
  nr_kind :: string
  nr_metadata :: string
  nr_created_at :: string

record placement_row =
  pl_id :: int
  pl_item :: int
  pl_ns :: int
  pl_role :: string
  pl_position :: int
  pl_metadata :: string

record ns_item =
  ni_id :: int
  ni_kind :: string
  ni_status :: "string option"

record ns_db =
  nd_rows :: "ns_row list"
  nd_seq :: int
  nd_placements :: "placement_row list"
  nd_placement_seq :: int
  nd_items :: "ns_item list"
  nd_containment :: "(int \<times> int) list"
  nd_log :: changelog

text \<open>What \<open>json_extract\<close> answers: NULL, a text, or another type of value.\<close>

datatype sql_value = SV_Null | SV_Text string | SV_Other string

record ns_env =
  ne_nfc :: "string \<Rightarrow> string"
  ne_parse :: "string \<Rightarrow> json option"
  ne_print :: "json \<Rightarrow> string"
  ne_json_valid :: "string \<Rightarrow> bool"
  ne_json_extract :: "string \<Rightarrow> string \<Rightarrow> sql_value"
  ne_json_set :: "string \<Rightarrow> string \<Rightarrow> string \<Rightarrow> string"

section \<open>Paths\<close>

definition NS_MAX_PATH_BYTES :: nat where "NS_MAX_PATH_BYTES = 4096"
definition NS_MAX_DEPTH :: nat where "NS_MAX_DEPTH = 128"

definition apos :: string where "apos = [CHR 0x27]"

definition segment_check :: "string \<Rightarrow> string \<Rightarrow> unit core_result" where
  "segment_check path segment =
     (if segment = [] then Inl (validation (''empty segment in '' @ apos @ path @ apos))
      else if segment = ''.'' \<or> segment = ''..'' then Inl (validation (''path traversal in '' @ apos @ path @ apos))
      else if \<exists>u \<in> set (utf8_units segment). is_control (code_point u)
      then Inl (validation (''control character in '' @ apos @ path @ apos))
      else Inr ())"

fun normal_segments :: "ns_env \<Rightarrow> string \<Rightarrow> string list \<Rightarrow> string list core_result" where
  "normal_segments env path [] = Inr []"
| "normal_segments env path (segment # rest) =
     result_bind (segment_check path segment) (\<lambda>_.
     result_bind (normal_segments env path rest) (\<lambda>segments. Inr (ne_nfc env segment # segments)))"

definition ns_normalize :: "ns_env \<Rightarrow> string \<Rightarrow> string core_result" where
  "ns_normalize env path =
     (if path = [] then Inl (validation ''namespace path is empty'')
      else if length path > NS_MAX_PATH_BYTES
      then Inl (validation (''namespace path of '' @ nat_str (length path) @ '' bytes; at most '' @ nat_str NS_MAX_PATH_BYTES))
      else let segs = split_on (CHR ''/'') path; depth = length segs in
        if depth > NS_MAX_DEPTH
        then Inl (validation (''namespace path '' @ nat_str depth @ '' segments deep; at most '' @ nat_str NS_MAX_DEPTH))
        else result_bind (normal_segments env path segs) (\<lambda>segments.
          let normalized = join ''/'' segments in
          if length normalized > NS_MAX_PATH_BYTES
          then Inl (validation (''namespace path of '' @ nat_str (length normalized) @
            '' bytes once normalized; at most '' @ nat_str NS_MAX_PATH_BYTES))
          else Inr normalized))"

definition RESERVED_ROOTS :: "string list" where
  "RESERVED_ROOTS = [''repos'', ''tasks'', ''media'', ''references'', ''memory'', ''_sys'']"

definition is_fixed :: "string \<Rightarrow> bool" where
  "is_fixed path \<longleftrightarrow> path \<in> set RESERVED_ROOTS \<or> prefix ''_sys/'' path"

definition kind_for :: "string \<Rightarrow> string" where
  "kind_for path = (if path = ''_sys'' \<or> prefix ''_sys/'' path then ''system'' else ''logical'')"

section \<open>The type key\<close>

definition TYPE_KEY :: string where "TYPE_KEY = ''type''"

definition metadata_obj :: "ns_env \<Rightarrow> string \<Rightarrow> string" where
  "metadata_obj env m = (if ne_json_valid env m then m else ''{}'')"

definition type_expr :: "ns_env \<Rightarrow> string \<Rightarrow> sql_value" where
  "type_expr env m = ne_json_extract env (metadata_obj env m) (''$.'' @ TYPE_KEY)"

definition row_at :: "ns_db \<Rightarrow> string \<Rightarrow> ns_row option" where
  "row_at db path = List.find (\<lambda>r. nr_path r = path) (nd_rows db)"

definition row_id :: "ns_db \<Rightarrow> int \<Rightarrow> ns_row option" where
  "row_id db i = List.find (\<lambda>r. nr_id r = i) (nd_rows db)"

text \<open>An UPDATE of the row with one id.\<close>

definition update_row :: "int \<Rightarrow> (ns_row \<Rightarrow> ns_row) \<Rightarrow> ns_db \<Rightarrow> ns_db" where
  "update_row i f db = db\<lparr>nd_rows := map (\<lambda>r. if nr_id r = i then f r else r) (nd_rows db)\<rparr>"

definition seed_reserved_type :: "ns_env \<Rightarrow> string \<Rightarrow> ns_db \<Rightarrow> ns_db \<times> bool" where
  "seed_reserved_type env path db =
     (case List.find (\<lambda>(reserved, _). reserved = path) RESERVED_TYPES of
        None \<Rightarrow> (db, False)
      | Some (_, type_name) \<Rightarrow>
          let hit = (\<lambda>r. nr_path r = path \<and> type_expr env (nr_metadata r) = SV_Null) in
          (db\<lparr>nd_rows := map (\<lambda>r. if hit r
               then r\<lparr>nr_metadata := ne_json_set env (metadata_obj env (nr_metadata r)) (''$.'' @ TYPE_KEY) type_name\<rparr>
               else r) (nd_rows db)\<rparr>,
           \<exists>r \<in> set (nd_rows db). hit r))"

section \<open>Creating\<close>

definition ns_log ::
  "write_meta \<Rightarrow> cl_op \<Rightarrow> entity \<Rightarrow> int \<Rightarrow> json option \<Rightarrow> json option \<Rightarrow> ns_db \<Rightarrow> ns_db core_result" where
  "ns_log meta cop e i before after db =
     result_bind (changelog_append (nd_log db) meta cop e (int_str i) before after) (\<lambda>log. Inr (db\<lparr>nd_log := log\<rparr>))"

definition ns_log_upsert ::
  "write_meta \<Rightarrow> entity \<Rightarrow> int \<Rightarrow> json option \<Rightarrow> json option \<Rightarrow> ns_db \<Rightarrow> ns_db core_result" where
  "ns_log_upsert meta e i before after db =
     result_bind (changelog_upsert (nd_log db) meta e (int_str i) before after) (\<lambda>log. Inr (db\<lparr>nd_log := log\<rparr>))"

definition json_int_opt :: "int option \<Rightarrow> json" where
  "json_int_opt x = (case x of None \<Rightarrow> JNull | Some n \<Rightarrow> JNum n)"

definition metadata_json :: "string \<Rightarrow> json" where
  "metadata_json m = JObj [(''metadata'', JStr m)]"

text \<open>The logged form of a row just created.\<close>

definition ns_row_json :: "ns_row \<Rightarrow> json" where
  "ns_row_json r = JObj [(''kind'', JStr (nr_kind r)), (''metadata'', JStr (nr_metadata r)),
     (''parent_id'', json_int_opt (nr_parent r)), (''path'', JStr (nr_path r))]"

text \<open>One segment of \<open>ensure\<close>: the row at \<open>current\<close>, found or created, and its id.\<close>

definition ensure_one ::
  "ns_env \<Rightarrow> write_meta \<Rightarrow> string \<Rightarrow> string \<Rightarrow> int option \<Rightarrow> ns_db \<Rightarrow> (ns_db \<times> int) core_result" where
  "ensure_one env meta now current parent db =
     (case row_at db current of
        Some r \<Rightarrow>
          let (db1, stamped) = seed_reserved_type env current db in
          if stamped
          then (case row_id db1 (nr_id r) of
                  None \<Rightarrow> Inl (Sqlite ''Query returned no rows'')
                | Some r1 \<Rightarrow>
                    result_bind (ns_log meta Op_Update E_Namespaces (nr_id r) (Some (metadata_json (nr_metadata r)))
                        (Some (metadata_json (nr_metadata r1))) db1)
                      (\<lambda>db2. Inr (db2, nr_id r)))
          else Inr (db1, nr_id r)
      | None \<Rightarrow>
          let i = nd_seq db + 1;
              db1 = db\<lparr>nd_rows := nd_rows db @ [\<lparr>nr_id = i, nr_path = current, nr_parent = parent,
                        nr_kind = kind_for current, nr_metadata = ''{}'', nr_created_at = now\<rparr>], nd_seq := i\<rparr>;
              db2 = fst (seed_reserved_type env current db1)
          in case row_id db2 i of
               None \<Rightarrow> Inl (Sqlite ''Query returned no rows'')
             | Some r \<Rightarrow>
                 result_bind (ns_log_upsert meta E_Namespaces i None (Some (ns_row_json r)) db2) (\<lambda>db3. Inr (db3, i)))"

fun ensure_loop ::
  "ns_env \<Rightarrow> write_meta \<Rightarrow> string \<Rightarrow> string list \<Rightarrow> int option \<Rightarrow> string \<Rightarrow> int \<Rightarrow> ns_db \<Rightarrow> (ns_db \<times> int) core_result" where
  "ensure_loop env meta now [] parent current i db = Inr (db, i)"
| "ensure_loop env meta now (segment # rest) parent current i db =
     (let current = (if current = [] then segment else current @ ''/'' @ segment) in
      result_bind (ensure_one env meta now current parent db) (\<lambda>(db1, i1).
      ensure_loop env meta now rest (Some i1) current i1 db1))"

definition ns_ensure :: "ns_env \<Rightarrow> write_meta \<Rightarrow> string \<Rightarrow> string \<Rightarrow> ns_db \<Rightarrow> (ns_db \<times> int) core_result" where
  "ns_ensure env meta now path db =
     result_bind (ns_normalize env path) (\<lambda>normalized.
     ensure_loop env meta now (split_on (CHR ''/'') normalized) None [] 0 db)"

section \<open>Reading the tree\<close>

definition ns_get :: "ns_env \<Rightarrow> ns_db \<Rightarrow> string \<Rightarrow> int option core_result" where
  "ns_get env db path =
     result_bind (ns_normalize env path) (\<lambda>normalized. Inr (map_option nr_id (row_at db normalized)))"

text \<open>The rows one step below a level of a recursive query.\<close>

definition ns_join :: "ns_row list \<Rightarrow> ns_row list \<Rightarrow> ns_row list" where
  "ns_join rows level = filter (\<lambda>n. \<exists>s \<in> set level. nr_parent n = Some (nr_id s)) rows"

text \<open>
  \<open>UNION ALL\<close>, level by level. Parents are ids of one table, so a chain of as many levels as the
  table has rows repeats a row and the query never ends: the fuel is the table's length, and running
  out of it is the query that does not return.
\<close>

fun descend :: "ns_row list \<Rightarrow> nat \<Rightarrow> ns_row list \<Rightarrow> ns_row list option" where
  "descend rows fuel [] = Some []"
| "descend rows 0 (r # rs) = None"
| "descend rows (Suc fuel) (r # rs) =
     map_option ((@) (r # rs)) (descend rows fuel (ns_join rows (r # rs)))"

definition ns_subtree :: "ns_env \<Rightarrow> ns_db \<Rightarrow> string \<Rightarrow> (int \<times> string) list core_result option" where
  "ns_subtree env db path =
     (case ns_normalize env path of
        Inl e \<Rightarrow> Some (Inl e)
      | Inr normalized \<Rightarrow>
          map_option (\<lambda>found. Inr (map (\<lambda>r. (nr_id r, nr_path r)) (sort_key nr_path found)))
            (descend (nd_rows db) (length (nd_rows db)) (filter (\<lambda>r. nr_path r = normalized) (nd_rows db))))"

text \<open>The same query with a bound on the depth.\<close>

fun descend_to :: "ns_row list \<Rightarrow> nat \<Rightarrow> ns_row list \<Rightarrow> ns_row list" where
  "descend_to rows 0 level = level"
| "descend_to rows (Suc depth) level = level @ descend_to rows depth (ns_join rows level)"

text \<open>The distinct items of the given kind and visibility placed in some of these namespaces.\<close>

definition leaves ::
  "ns_db \<Rightarrow> bool \<Rightarrow> (string \<Rightarrow> bool) \<Rightarrow> ns_row list \<Rightarrow> int list" where
  "leaves db include_terminal is_kind sub =
     remdups (map pl_item (filter (\<lambda>p.
       (\<exists>n \<in> set sub. nr_id n = pl_ns p) \<and>
       (\<exists>i \<in> set (nd_items db). ni_id i = pl_item p \<and> is_kind (ni_kind i) \<and>
          (include_terminal \<or> ni_status i = None \<or> the (ni_status i) \<notin> set sql_terminal_list))) (nd_placements db)))"

definition subtree_leaf_count :: "ns_env \<Rightarrow> ns_db \<Rightarrow> string \<Rightarrow> bool \<Rightarrow> nat core_result" where
  "subtree_leaf_count env db path include_terminal =
     result_bind (ns_normalize env path) (\<lambda>normalized.
       Inr (length (leaves db include_terminal (\<lambda>_. True)
         (descend_to (nd_rows db) 256 (filter (\<lambda>r. nr_path r = normalized) (nd_rows db))))))"

text \<open>The kinds of one anchored child with their counts, as the grouped query answers them.\<close>

definition child_counts :: "ns_db \<Rightarrow> bool \<Rightarrow> ns_row \<Rightarrow> (string \<times> nat) list" where
  "child_counts db include_terminal c =
     (let sub = descend_to (nd_rows db) 256 [c] in
      filter (\<lambda>(_, n). n > 0)
        (map (\<lambda>k. (k, length (leaves db include_terminal (\<lambda>x. x = k) sub)))
           (remdups (sort (map ni_kind (nd_items db))))))"

definition subtree_leaf_counts ::
  "ns_env \<Rightarrow> ns_db \<Rightarrow> string option \<Rightarrow> bool \<Rightarrow> (int \<Rightarrow> (string \<times> nat) list option) core_result" where
  "subtree_leaf_counts env db parent include_terminal =
     result_bind
       (case parent of
          None \<Rightarrow> Inr (filter (\<lambda>r. nr_parent r = None) (nd_rows db))
        | Some p \<Rightarrow> result_bind (ns_normalize env p) (\<lambda>normalized.
            Inr (ns_join (nd_rows db) (filter (\<lambda>r. nr_path r = normalized) (nd_rows db)))))
       (\<lambda>anchors. Inr (map_of (filter (\<lambda>(_, ks). ks \<noteq> [])
          (map (\<lambda>c. (nr_id c, child_counts db include_terminal c)) anchors))))"

definition ns_roots :: "ns_db \<Rightarrow> (int \<times> string) list" where
  "ns_roots db = map (\<lambda>r. (nr_id r, nr_path r)) (sort_key nr_path (filter (\<lambda>r. nr_parent r = None) (nd_rows db)))"

definition ns_children :: "ns_env \<Rightarrow> ns_db \<Rightarrow> string \<Rightarrow> (int \<times> string) list core_result" where
  "ns_children env db path =
     result_bind (ns_normalize env path) (\<lambda>normalized.
       Inr (map (\<lambda>r. (nr_id r, nr_path r))
         (sort_key nr_path (ns_join (nd_rows db) (filter (\<lambda>r. nr_path r = normalized) (nd_rows db))))))"

section \<open>Metadata and types\<close>

text \<open>\<open>serde_json\<close>'s map keeps its keys in order.\<close>

fun obj_insert :: "string \<Rightarrow> json \<Rightarrow> (string \<times> json) list \<Rightarrow> (string \<times> json) list" where
  "obj_insert k v [] = [(k, v)]"
| "obj_insert k v ((k', v') # kvs) =
     (if k = k' then (k, v) # kvs
      else if k < k' then (k, v) # (k', v') # kvs
      else (k', v') # obj_insert k v kvs)"

definition obj_remove :: "string \<Rightarrow> (string \<times> json) list \<Rightarrow> (string \<times> json) list" where
  "obj_remove k kvs = filter (\<lambda>(k', _). k' \<noteq> k) kvs"

definition ns_set_metadata :: "ns_env \<Rightarrow> write_meta \<Rightarrow> int \<Rightarrow> json \<Rightarrow> ns_db \<Rightarrow> ns_db core_result" where
  "ns_set_metadata env meta i metadata db =
     (let before = map_option nr_metadata (row_id db i);
          db1 = update_row i (\<lambda>r. r\<lparr>nr_metadata := ne_print env metadata\<rparr>) db
      in case before of
           None \<Rightarrow> Inr db1
         | Some before \<Rightarrow> ns_log meta Op_Update E_Namespaces i (Some (metadata_json before))
             (Some (metadata_json (ne_print env metadata))) db1)"

definition ns_get_metadata :: "ns_env \<Rightarrow> ns_db \<Rightarrow> int \<Rightarrow> json option" where
  "ns_get_metadata env db i = Option.bind (map_option nr_metadata (row_id db i)) (ne_parse env)"

definition metadata_or_empty :: "json option \<Rightarrow> json" where
  "metadata_or_empty m = (case m of None \<Rightarrow> JObj [] | Some j \<Rightarrow> j)"

definition ns_set_type :: "ns_env \<Rightarrow> write_meta \<Rightarrow> int \<Rightarrow> string \<Rightarrow> ns_db \<Rightarrow> ns_db core_result" where
  "ns_set_type env meta i type_name db =
     ns_set_metadata env meta i
       (case metadata_or_empty (ns_get_metadata env db i) of
          JObj kvs \<Rightarrow> JObj (obj_insert TYPE_KEY (JStr type_name) kvs)
        | _ \<Rightarrow> JObj [(TYPE_KEY, JStr type_name)]) db"

definition ns_clear_type :: "ns_env \<Rightarrow> write_meta \<Rightarrow> int \<Rightarrow> ns_db \<Rightarrow> ns_db core_result" where
  "ns_clear_type env meta i db =
     ns_set_metadata env meta i
       (case metadata_or_empty (ns_get_metadata env db i) of
          JObj kvs \<Rightarrow> JObj (obj_remove TYPE_KEY kvs)
        | j \<Rightarrow> j) db"

definition get_type_by_id :: "ns_env \<Rightarrow> ns_db \<Rightarrow> int \<Rightarrow> string option" where
  "get_type_by_id env db i =
     Option.bind (ns_get_metadata env db i) (\<lambda>m.
     Option.bind (json_get TYPE_KEY m) (\<lambda>v. case v of JStr s \<Rightarrow> Some s | _ \<Rightarrow> None))"

definition ns_get_type :: "ns_env \<Rightarrow> ns_db \<Rightarrow> string \<Rightarrow> string option core_result" where
  "ns_get_type env db path =
     result_bind (ns_get env db path) (\<lambda>found.
     case found of None \<Rightarrow> Inr None | Some i \<Rightarrow> Inr (get_type_by_id env db i))"

text \<open>\<open>path\<close> and its ancestors, deepest first: the loop cuts at the last slash while there is one.\<close>

lemma rsplit_once_shorter: "rsplit_once ''/'' p = Some (a, b) \<Longrightarrow> length a < length p"
  by (drule rsplit_once_Some) simp

function ancestor_paths :: "string \<Rightarrow> string list" where
  "ancestor_paths path =
     (case rsplit_once ''/'' path of None \<Rightarrow> [path] | Some (up, _) \<Rightarrow> path # ancestor_paths up)"
  by pat_completeness auto
termination ancestor_paths
  by (relation "measure length") (auto simp: rsplit_once_shorter)

declare ancestor_paths.simps [simp del]

definition effective_type :: "ns_env \<Rightarrow> ns_db \<Rightarrow> string \<Rightarrow> (string \<times> string) option core_result" where
  "effective_type env db path =
     result_bind (ns_normalize env path) (\<lambda>normalized.
       case sort_key (\<lambda>r. - int (char_count (nr_path r)))
           (filter (\<lambda>r. nr_path r \<in> set (ancestor_paths normalized) \<and> type_expr env (nr_metadata r) \<noteq> SV_Null) (nd_rows db)) of
         [] \<Rightarrow> Inr None
       | r # _ \<Rightarrow> (case type_expr env (nr_metadata r) of
             SV_Text t \<Rightarrow> Inr (Some (nr_path r, t))
           | _ \<Rightarrow> Inl (Sqlite ''Invalid column type'')))"

section \<open>Moving and removing\<close>

text \<open>\<open>&s[n..]\<close>, which panics unless \<open>n\<close> is a boundary of a character.\<close>

definition slice_from :: "nat \<Rightarrow> string \<Rightarrow> string option" where
  "slice_from n s =
     (if n = length s \<or> (n < length s \<and> \<not> is_cont_byte (s ! n)) then Some (drop n s) else None)"

text \<open>The paths a move would write, each of which \<open>normalize\<close> has to accept.\<close>

fun move_check :: "ns_env \<Rightarrow> string \<Rightarrow> string \<Rightarrow> (int \<times> string) list \<Rightarrow> unit core_result option" where
  "move_check env from_path to_path [] = Some (Inr ())"
| "move_check env from_path to_path ((i, path) # rows) =
     (case slice_from (length from_path) path of
        None \<Rightarrow> None
      | Some below \<Rightarrow>
          (case ns_normalize env (to_path @ below) of
             Inl e \<Rightarrow> Some (Inl (validation (''moving '' @ apos @ from_path @ apos @ '' to '' @ apos @ to_path @ apos @
               '' would make '' @ apos @ to_path @ below @ apos @ '': '' @ core_error_display e)))
           | Inr _ \<Rightarrow> move_check env from_path to_path rows))"

text \<open>The UPDATE of one path, which fails on a path another row has.\<close>

definition update_path :: "int \<Rightarrow> string \<Rightarrow> ns_db \<Rightarrow> ns_db core_result" where
  "update_path i path db =
     (if \<exists>r \<in> set (nd_rows db). nr_path r = path \<and> nr_id r \<noteq> i
      then Inl (Sqlite ''UNIQUE constraint failed: namespaces.path'')
      else Inr (update_row i (\<lambda>r. r\<lparr>nr_path := path\<rparr>) db))"

fun move_rows ::
  "write_meta \<Rightarrow> string \<Rightarrow> string \<Rightarrow> int \<Rightarrow> int option \<Rightarrow> int option \<Rightarrow> (int \<times> string) list \<Rightarrow> ns_db
     \<Rightarrow> ns_db core_result option" where
  "move_rows meta from_path to_path root old_parent new_parent [] db = Some (Inr db)"
| "move_rows meta from_path to_path root old_parent new_parent ((i, path) # rows) db =
     (case (if path = from_path then Some to_path else map_option ((@) to_path) (slice_from (length from_path) path)) of
        None \<Rightarrow> None
      | Some new_path \<Rightarrow>
          (case result_bind (update_path i new_path db)
              (ns_log meta Op_Update E_Namespaces i
                (Some (if i = root then JObj [(''parent_id'', json_int_opt old_parent), (''path'', JStr path)]
                       else JObj [(''path'', JStr path)]))
                (Some (if i = root then JObj [(''parent_id'', json_int_opt new_parent), (''path'', JStr new_path)]
                       else JObj [(''path'', JStr new_path)]))) of
             Inl e \<Rightarrow> Some (Inl e)
           | Inr db1 \<Rightarrow> move_rows meta from_path to_path root old_parent new_parent rows db1))"

definition move_parent ::
  "ns_env \<Rightarrow> write_meta \<Rightarrow> string \<Rightarrow> string \<Rightarrow> ns_db \<Rightarrow> (ns_db \<times> int option) core_result" where
  "move_parent env meta now to_path db =
     (case rsplit_once ''/'' to_path of
        None \<Rightarrow> Inr (db, None)
      | Some (parent, _) \<Rightarrow> result_bind (ns_ensure env meta now parent db) (\<lambda>(db1, i). Inr (db1, Some i)))"

text \<open>The part of a move after its checks: the target's parent, the paths, the root's parent.\<close>

definition move_write ::
  "ns_env \<Rightarrow> write_meta \<Rightarrow> string \<Rightarrow> string \<Rightarrow> string \<Rightarrow> int \<Rightarrow> (int \<times> string) list \<Rightarrow> ns_db
     \<Rightarrow> (ns_db \<times> nat) core_result option" where
  "move_write env meta now from_path to_path root rows db =
     (case move_parent env meta now to_path db of
        Inl e \<Rightarrow> Some (Inl e)
      | Inr (db1, new_parent) \<Rightarrow>
          let old_parent = Option.bind (row_id db1 root) nr_parent in
          (case move_rows meta from_path to_path root old_parent new_parent rows db1 of
             None \<Rightarrow> None
           | Some (Inl e) \<Rightarrow> Some (Inl e)
           | Some (Inr db2) \<Rightarrow>
               Some (Inr (update_row root (\<lambda>r. r\<lparr>nr_parent := new_parent\<rparr>) db2, length rows))))"

definition move_subtree ::
  "ns_env \<Rightarrow> write_meta \<Rightarrow> string \<Rightarrow> string \<Rightarrow> string \<Rightarrow> ns_db \<Rightarrow> (ns_db \<times> nat) core_result option" where
  "move_subtree env meta now from to db =
     (case result_bind (ns_normalize env from) (\<lambda>from_path.
           result_bind (ns_normalize env to) (\<lambda>to_path.
           if to_path = from_path \<or> prefix (from_path @ ''/'') to_path
           then Inl (validation (''cannot move '' @ apos @ from_path @ apos @ '' into itself''))
           else result_bind (ns_get env db from_path) (\<lambda>found.
             case found of
               None \<Rightarrow> Inl (validation (''namespace '' @ apos @ from_path @ apos @ '' does not exist''))
             | Some root \<Rightarrow> result_bind (ns_get env db to_path) (\<lambda>taken.
                 if taken \<noteq> None then Inl (validation (''target '' @ apos @ to_path @ apos @ '' already exists''))
                 else Inr (from_path, to_path, root))))) of
        Inl e \<Rightarrow> Some (Inl e)
      | Inr (from_path, to_path, root) \<Rightarrow>
          (case ns_subtree env db from_path of
             None \<Rightarrow> None
           | Some (Inl e) \<Rightarrow> Some (Inl e)
           | Some (Inr rows) \<Rightarrow>
               (case move_check env from_path to_path rows of
                  None \<Rightarrow> None
                | Some (Inl e) \<Rightarrow> Some (Inl e)
                | Some (Inr _) \<Rightarrow> move_write env meta now from_path to_path root rows db)))"

definition ns_whole_row :: "ns_row \<Rightarrow> json" where
  "ns_whole_row r = JObj [(''created_at'', JStr (nr_created_at r)), (''id'', JNum (nr_id r)), (''kind'', JStr (nr_kind r)),
     (''metadata'', JStr (nr_metadata r)), (''parent_id'', json_int_opt (nr_parent r)), (''path'', JStr (nr_path r))]"

definition ns_remove :: "ns_env \<Rightarrow> write_meta \<Rightarrow> string \<Rightarrow> ns_db \<Rightarrow> ns_db core_result" where
  "ns_remove env meta path db =
     result_bind (ns_normalize env path) (\<lambda>normalized.
     result_bind (ns_get env db normalized) (\<lambda>found.
       case found of
         None \<Rightarrow> Inl (validation (''namespace '' @ apos @ normalized @ apos @ '' does not exist''))
       | Some i \<Rightarrow>
           let children = length (filter (\<lambda>r. nr_parent r = Some i) (nd_rows db));
               placed = length (filter (\<lambda>p. pl_ns p = i) (nd_placements db)) in
           if children > 0
           then Inl (validation (''namespace '' @ apos @ normalized @ apos @ '' has '' @ nat_str children @
             '' child namespace(s); remove or move them first''))
           else if placed > 0
           then Inl (validation (''namespace '' @ apos @ normalized @ apos @ '' holds '' @ nat_str placed @
             '' item placement(s); move or unplace them first''))
           else (case row_id db i of
               None \<Rightarrow> Inl (Sqlite ''Query returned no rows'')
             | Some r \<Rightarrow> ns_log meta Op_Delete E_Namespaces i (Some (ns_whole_row r)) None
                 (db\<lparr>nd_rows := filter (\<lambda>x. nr_id x \<noteq> i) (nd_rows db)\<rparr>))))"

end
