(* ===== verification/Core_Placement.thy ===== *)
theory Core_Placement
  imports Core_Namespace Types_Enums
begin

text \<open>
  Placing items: \<open>crates/jkb-core/src/placement.rs\<close>, with the contract check of
  \<open>crates/jkb-core/src/nstype/mod.rs\<close> that runs at every placement. An item is placed under any
  number of namespaces, once for each role; a typed namespace refuses the kinds its type does not
  accept.
\<close>

section \<open>The contract\<close>

definition for_namespace :: "ns_env \<Rightarrow> ns_db \<Rightarrow> string \<Rightarrow> (string \<times> ns_type) option core_result" where
  "for_namespace env db path =
     result_bind (effective_type env db path) (\<lambda>found.
     case found of
       None \<Rightarrow> Inr None
     | Some (source, name) \<Rightarrow> result_bind (ns_resolve name) (\<lambda>ty. Inr (Some (source, ty))))"

definition check_placement :: "ns_env \<Rightarrow> ns_db \<Rightarrow> int \<Rightarrow> int \<Rightarrow> unit core_result" where
  "check_placement env db item namespace =
     (case row_id db namespace of
        None \<Rightarrow> Inr ()
      | Some r \<Rightarrow> result_bind (for_namespace env db (nr_path r)) (\<lambda>found.
          case found of
            None \<Rightarrow> Inr ()
          | Some (_, ty) \<Rightarrow>
              (case List.find (\<lambda>i. ni_id i = item) (nd_items db) of
                 None \<Rightarrow> Inr ()
               | Some i \<Rightarrow> if accepts_kind ty (ni_kind i) then Inr () else Inl (reject_kind (nr_path r) ty (ni_kind i)))))"

section \<open>Placing\<close>

definition placement_json :: "int \<Rightarrow> int \<Rightarrow> string \<Rightarrow> int \<Rightarrow> json" where
  "placement_json item namespace role position =
     JObj [(''item_id'', JNum item), (''namespace_id'', JNum namespace), (''position'', JNum position), (''role'', JStr role)]"

definition placement_row_json :: "placement_row \<Rightarrow> int \<Rightarrow> int \<Rightarrow> string \<Rightarrow> json" where
  "placement_row_json p item namespace role =
     JObj [(''id'', JNum (pl_id p)), (''item_id'', JNum item), (''metadata'', JStr (pl_metadata p)),
       (''namespace_id'', JNum namespace), (''position'', JNum (pl_position p)), (''role'', JStr role)]"

definition is_placement :: "int \<Rightarrow> int \<Rightarrow> string \<Rightarrow> placement_row \<Rightarrow> bool" where
  "is_placement item namespace role p \<longleftrightarrow> pl_item p = item \<and> pl_ns p = namespace \<and> pl_role p = role"

text \<open>
  The INSERT with its ON CONFLICT clause. A new row has to name an item and a namespace that exist.
\<close>

definition upsert_placement :: "int \<Rightarrow> int \<Rightarrow> string \<Rightarrow> int \<Rightarrow> ns_db \<Rightarrow> (ns_db \<times> int) core_result" where
  "upsert_placement item namespace role position db =
     (case List.find (is_placement item namespace role) (nd_placements db) of
        Some p \<Rightarrow> Inr (db\<lparr>nd_placements :=
          map (\<lambda>x. if is_placement item namespace role x then x\<lparr>pl_position := position\<rparr> else x) (nd_placements db)\<rparr>, pl_id p)
      | None \<Rightarrow>
          if row_id db namespace = None \<or> List.find (\<lambda>i. ni_id i = item) (nd_items db) = None
          then Inl (Sqlite ''FOREIGN KEY constraint failed'')
          else let i = nd_placement_seq db + 1 in
            Inr (db\<lparr>nd_placements := nd_placements db @ [\<lparr>pl_id = i, pl_item = item, pl_ns = namespace, pl_role = role,
                  pl_position = position, pl_metadata = ''{}''\<rparr>], nd_placement_seq := i\<rparr>, i))"

definition ns_place ::
  "ns_env \<Rightarrow> write_meta \<Rightarrow> int \<Rightarrow> int \<Rightarrow> placement_role \<Rightarrow> int \<Rightarrow> ns_db \<Rightarrow> ns_db core_result" where
  "ns_place env meta item namespace role position db =
     result_bind (check_placement env db item namespace) (\<lambda>_.
       let word = placement_role_as_str role;
           existing = map_option pl_position (List.find (is_placement item namespace word) (nd_placements db)) in
       result_bind (upsert_placement item namespace word position db) (\<lambda>(db1, i).
         ns_log_upsert meta E_Placements i
           (map_option (placement_json item namespace word) existing)
           (Some (placement_json item namespace word position)) db1))"

text \<open>The loop that deletes rows by id, each logged whole.\<close>

fun delete_placements ::
  "write_meta \<Rightarrow> (placement_row \<Rightarrow> json) \<Rightarrow> placement_row list \<Rightarrow> ns_db \<Rightarrow> ns_db core_result" where
  "delete_placements meta row_json [] db = Inr db"
| "delete_placements meta row_json (p # ps) db =
     result_bind (ns_log meta Op_Delete E_Placements (pl_id p) (Some (row_json p)) None
         (db\<lparr>nd_placements := filter (\<lambda>x. pl_id x \<noteq> pl_id p) (nd_placements db)\<rparr>))
       (delete_placements meta row_json ps)"

definition ns_set_primary ::
  "ns_env \<Rightarrow> write_meta \<Rightarrow> int \<Rightarrow> int \<Rightarrow> int \<Rightarrow> ns_db \<Rightarrow> ns_db core_result" where
  "ns_set_primary env meta item namespace position db =
     (let stale = filter (\<lambda>p. pl_item p = item \<and> pl_role p = ''primary'' \<and> pl_ns p \<noteq> namespace) (nd_placements db) in
      result_bind (delete_placements meta (\<lambda>p. placement_row_json p item (pl_ns p) ''primary'') stale db)
        (ns_place env meta item namespace PR_Primary position))"

definition ns_unplace :: "write_meta \<Rightarrow> int \<Rightarrow> int \<Rightarrow> ns_db \<Rightarrow> (ns_db \<times> nat) core_result" where
  "ns_unplace meta item namespace db =
     (let rows = filter (is_placement item namespace ''reference'') (nd_placements db) in
      result_bind (delete_placements meta (\<lambda>p. placement_row_json p item namespace ''reference'') rows db)
        (\<lambda>db1. Inr (db1, length rows)))"

section \<open>Reading\<close>

definition items_directly_in :: "ns_db \<Rightarrow> int \<Rightarrow> int list" where
  "items_directly_in db namespace =
     map pl_item (sort_key (\<lambda>p. (pl_position p, pl_item p))
       (filter (\<lambda>p. pl_ns p = namespace \<and> (\<forall>(_, child) \<in> set (nd_containment db). child \<noteq> pl_item p)) (nd_placements db)))"

definition items_in :: "ns_db \<Rightarrow> int \<Rightarrow> placement_role option \<Rightarrow> int list" where
  "items_in db namespace role =
     map pl_item (sort_key (\<lambda>p. (pl_position p, pl_item p))
       (filter (\<lambda>p. pl_ns p = namespace \<and>
          (case role of None \<Rightarrow> True | Some r \<Rightarrow> pl_role p = placement_role_as_str r)) (nd_placements db)))"

end
