(* ===== verification/Namespace_Tree.thy ===== *)
theory Namespace_Tree
  imports Core_Placement "HOL-Library.Multiset"
begin

text \<open>
  What the namespace modules keep: every row's path is one \<open>normalize\<close> leaves alone, and its parent is
  the row at the path above it. On such a tree the recursive queries end and answer the rows by
  their paths, and a move rewrites exactly the paths it says.
\<close>

section \<open>Paths\<close>

text \<open>
  Normalization form C, as the Unicode standard has it, on a path's segment: composing twice is
  composing once, and no segment that is allowed becomes one that is not.
\<close>

definition segment_ok :: "string \<Rightarrow> bool" where
  "segment_ok s \<longleftrightarrow> s \<noteq> [] \<and> s \<noteq> ''.'' \<and> s \<noteq> ''..'' \<and> (\<forall>u \<in> set (utf8_units s). \<not> is_control (code_point u))"

definition nfc_ok :: "ns_env \<Rightarrow> bool" where
  "nfc_ok env \<longleftrightarrow> (\<forall>s. ne_nfc env (ne_nfc env s) = ne_nfc env s \<and>
     (segment_ok s \<and> CHR ''/'' \<notin> set s \<longrightarrow> segment_ok (ne_nfc env s) \<and> CHR ''/'' \<notin> set (ne_nfc env s)))"

definition normal :: "ns_env \<Rightarrow> string \<Rightarrow> bool" where
  "normal env p \<longleftrightarrow> ns_normalize env p = Inr p"

definition path_depth :: "string \<Rightarrow> nat" where
  "path_depth p = length (split_on (CHR ''/'') p)"

definition under :: "string \<Rightarrow> string \<Rightarrow> bool" where
  "under base p \<longleftrightarrow> p = base \<or> prefix (base @ ''/'') p"

lemma rsplit_slash: "CHR ''/'' \<notin> set b \<Longrightarrow> rsplit_once ''/'' b = None"
  by (induction b) (auto simp: prefix_def)

lemma rsplit_slash_append:
  "rsplit_once ''/'' (a @ CHR ''/'' # b) =
     Some (case rsplit_once ''/'' b of None \<Rightarrow> (a, b) | Some (u, v) \<Rightarrow> (a @ CHR ''/'' # u, v))"
  by (induction a) (auto split: option.splits)

lemma rsplit_slash_last: "rsplit_once ''/'' p = Some (a, b) \<Longrightarrow> p = a @ CHR ''/'' # b \<and> CHR ''/'' \<notin> set b"
proof (induction p arbitrary: a)
  case (Cons c cs)
  show ?case
  proof (cases "rsplit_once ''/'' cs")
    case None
    have "CHR ''/'' \<notin> set cs"
    proof
      assume "CHR ''/'' \<in> set cs"
      then obtain x y where "cs = x @ CHR ''/'' # y" by (auto dest: split_list)
      with None show False by (simp add: rsplit_slash_append)
    qed
    with None Cons.prems show ?thesis by (auto split: if_splits)
  qed (use Cons in \<open>auto split: option.splits\<close>)
qed simp

lemma split_slash_append:
  "split_on (CHR ''/'') (a @ CHR ''/'' # b) = split_on (CHR ''/'') a @ split_on (CHR ''/'') b"
proof (induction a)
  case (Cons c a)
  then show ?case by (cases "split_on (CHR ''/'') a") (auto simp: split_on_not_Nil)
qed simp

lemma path_depth_append: "path_depth (a @ CHR ''/'' # b) = path_depth a + path_depth b"
  by (simp add: path_depth_def split_slash_append)

lemma path_depth_pos [simp]: "path_depth p \<noteq> 0"
  by (simp add: path_depth_def)

lemma path_depth_one: "CHR ''/'' \<notin> set p \<Longrightarrow> path_depth p = 1"
  by (simp add: path_depth_def split_on_no_sep)

lemma under_iff: "under base p \<longleftrightarrow> p = base \<or> (\<exists>y. p = base @ CHR ''/'' # y)"
  by (auto simp: under_def prefix_def)

lemma under_depth: "under base p \<Longrightarrow> path_depth base \<le> path_depth p \<and> (path_depth p = path_depth base \<longrightarrow> p = base)"
  by (auto simp: under_iff path_depth_append)

lemma under_trans: "under a b \<Longrightarrow> under b c \<Longrightarrow> under a c"
  by (auto simp: under_iff)

section \<open>Normal paths\<close>

lemma map_eq_self: "map f xs = xs \<longleftrightarrow> (\<forall>x \<in> set xs. f x = x)"
  by (induction xs) auto

lemma segment_check_iff: "segment_check path s = Inr () \<longleftrightarrow> segment_ok s"
  by (auto simp: segment_check_def segment_ok_def)

lemma normal_segments_iff:
  "normal_segments env path segs = Inr out \<longleftrightarrow> (\<forall>s \<in> set segs. segment_ok s) \<and> out = map (ne_nfc env) segs"
  by (induction segs arbitrary: out) (auto simp: result_bind_Inr segment_check_iff)

lemma ns_normalize_Inr:
  "ns_normalize env p = Inr q \<longleftrightarrow> p \<noteq> [] \<and> length p \<le> NS_MAX_PATH_BYTES \<and> path_depth p \<le> NS_MAX_DEPTH \<and>
     (\<forall>s \<in> set (split_on (CHR ''/'') p). segment_ok s) \<and>
     q = join ''/'' (map (ne_nfc env) (split_on (CHR ''/'') p)) \<and> length q \<le> NS_MAX_PATH_BYTES"
  by (auto simp: ns_normalize_def result_bind_Inr normal_segments_iff path_depth_def Let_def)

lemma split_map_nfc:
  assumes "nfc_ok env" and "\<forall>s \<in> set (split_on (CHR ''/'') p). segment_ok s"
  shows "split_on (CHR ''/'') (join ''/'' (map (ne_nfc env) (split_on (CHR ''/'') p))) = map (ne_nfc env) (split_on (CHR ''/'') p)"
  using assms split_on_pieces [of _ "CHR ''/''" p] by (intro split_on_join) (auto simp: nfc_ok_def)

lemma normal_iff:
  assumes "nfc_ok env"
  shows "normal env p \<longleftrightarrow> p \<noteq> [] \<and> length p \<le> NS_MAX_PATH_BYTES \<and> path_depth p \<le> NS_MAX_DEPTH \<and>
     (\<forall>s \<in> set (split_on (CHR ''/'') p). segment_ok s \<and> ne_nfc env s = s)"
proof
  assume n: "normal env p"
  then have ok: "\<forall>s \<in> set (split_on (CHR ''/'') p). segment_ok s"
    and p: "join ''/'' (map (ne_nfc env) (split_on (CHR ''/'') p)) = p"
    by (auto simp: normal_def ns_normalize_Inr)
  have "map (ne_nfc env) (split_on (CHR ''/'') p) = split_on (CHR ''/'') p"
    using split_map_nfc [OF assms ok] p by simp
  then have "\<forall>s \<in> set (split_on (CHR ''/'') p). ne_nfc env s = s" by (simp add: map_eq_self)
  with n show "p \<noteq> [] \<and> length p \<le> NS_MAX_PATH_BYTES \<and> path_depth p \<le> NS_MAX_DEPTH \<and>
     (\<forall>s \<in> set (split_on (CHR ''/'') p). segment_ok s \<and> ne_nfc env s = s)"
    by (auto simp: normal_def ns_normalize_Inr)
next
  assume r: "p \<noteq> [] \<and> length p \<le> NS_MAX_PATH_BYTES \<and> path_depth p \<le> NS_MAX_DEPTH \<and>
     (\<forall>s \<in> set (split_on (CHR ''/'') p). segment_ok s \<and> ne_nfc env s = s)"
  then have "map (ne_nfc env) (split_on (CHR ''/'') p) = split_on (CHR ''/'') p" by (simp add: map_idI)
  with r show "normal env p" by (simp add: normal_def ns_normalize_Inr join_split_on)
qed

text \<open>What \<open>normalize\<close> answers, it leaves alone.\<close>

lemma normalize_normal:
  assumes "nfc_ok env" and "ns_normalize env p = Inr q"
  shows "normal env q"
proof -
  have ok: "\<forall>s \<in> set (split_on (CHR ''/'') p). segment_ok s" using assms(2) by (simp add: ns_normalize_Inr)
  have s: "split_on (CHR ''/'') q = map (ne_nfc env) (split_on (CHR ''/'') p)"
    using split_map_nfc [OF assms(1) ok] assms(2) by (simp add: ns_normalize_Inr)
  have pieces: "segment_ok (ne_nfc env s) \<and> ne_nfc env (ne_nfc env s) = ne_nfc env s"
    if "s \<in> set (split_on (CHR ''/'') p)" for s
    using assms(1) ok that split_on_pieces [OF that] by (simp add: nfc_ok_def)
  have "q \<noteq> []"
  proof
    assume "q = []"
    then have "map (ne_nfc env) (split_on (CHR ''/'') p) = [[]]" using s by simp
    with pieces show False by (cases "split_on (CHR ''/'') p") (auto simp: segment_ok_def)
  qed
  with pieces s assms(2) show ?thesis
    by (auto simp: normal_iff [OF assms(1)] path_depth_def ns_normalize_Inr)
qed

lemma normal_up:
  assumes "nfc_ok env" and "normal env (a @ CHR ''/'' # b)"
  shows "normal env a"
proof -
  have "segment_ok s" if "s \<in> set (split_on (CHR ''/'') a)" for s
    using assms that by (simp add: normal_iff split_slash_append)
  then have "a \<noteq> []" by (cases a) (auto simp: segment_ok_def)
  with assms show ?thesis by (auto simp: normal_iff split_slash_append path_depth_append)
qed

section \<open>The tree\<close>

definition up_of :: "string \<Rightarrow> string option" where
  "up_of p = map_option fst (rsplit_once ''/'' p)"

definition parent_ok :: "ns_row list \<Rightarrow> ns_row \<Rightarrow> bool" where
  "parent_ok rows r \<longleftrightarrow>
     (case up_of (nr_path r) of
        None \<Rightarrow> nr_parent r = None
      | Some u \<Rightarrow> \<exists>q \<in> set rows. nr_path q = u \<and> nr_parent r = Some (nr_id q))"

definition tree_rows :: "ns_env \<Rightarrow> ns_row list \<Rightarrow> bool" where
  "tree_rows env rows \<longleftrightarrow> distinct (map nr_id rows) \<and> distinct (map nr_path rows) \<and>
     (\<forall>r \<in> set rows. normal env (nr_path r) \<and> parent_ok rows r)"

definition ns_tree :: "ns_env \<Rightarrow> ns_db \<Rightarrow> bool" where
  "ns_tree env db \<longleftrightarrow> tree_rows env (nd_rows db) \<and> (\<forall>r \<in> set (nd_rows db). nr_id r \<le> nd_seq db)"

lemma up_of_append:
  "up_of (a @ CHR ''/'' # b) = Some (case up_of b of None \<Rightarrow> a | Some u \<Rightarrow> a @ CHR ''/'' # u)"
  by (auto simp: up_of_def rsplit_slash_append split: option.splits)

lemma up_of_None: "up_of p = None \<longleftrightarrow> CHR ''/'' \<notin> set p"
proof
  assume "up_of p = None"
  then show "CHR ''/'' \<notin> set p" by (auto simp: up_of_append dest: split_list)
qed (simp add: up_of_def rsplit_slash)

lemma up_of_Some: "up_of p = Some a \<Longrightarrow> \<exists>b. p = a @ CHR ''/'' # b \<and> CHR ''/'' \<notin> set b"
  using rsplit_slash_last by (auto simp: up_of_def)

lemma up_of_depth: "up_of p = Some a \<Longrightarrow> path_depth p = Suc (path_depth a)"
  by (drule up_of_Some) (auto simp: path_depth_append path_depth_one)

lemma same_path: "tree_rows env rows \<Longrightarrow> r \<in> set rows \<Longrightarrow> q \<in> set rows \<Longrightarrow> nr_path r = nr_path q \<Longrightarrow> r = q"
  by (auto simp: tree_rows_def distinct_map dest: inj_onD)

lemma same_id: "tree_rows env rows \<Longrightarrow> r \<in> set rows \<Longrightarrow> q \<in> set rows \<Longrightarrow> nr_id r = nr_id q \<Longrightarrow> r = q"
  by (auto simp: tree_rows_def distinct_map dest: inj_onD)

lemma tree_distinct: "tree_rows env rows \<Longrightarrow> distinct rows"
  by (simp add: tree_rows_def distinct_map)

text \<open>Every path above a row has its row.\<close>

lemma tree_up:
  assumes "tree_rows env rows" and "r \<in> set rows" and "nr_path r = a @ CHR ''/'' # b"
  shows "\<exists>q \<in> set rows. nr_path q = a"
  using assms(2,3)
proof (induction "length b" arbitrary: r b rule: less_induct)
  case less
  have ok: "parent_ok rows r" using assms(1) less.prems(1) by (simp add: tree_rows_def)
  show ?case
  proof (cases "up_of b")
    case None
    with ok less.prems(2) show ?thesis by (auto simp: parent_ok_def up_of_append)
  next
    case (Some u)
    then obtain q where q: "q \<in> set rows" "nr_path q = a @ CHR ''/'' # u"
      using ok less.prems(2) by (auto simp: parent_ok_def up_of_append)
    have "length u < length b" using up_of_Some [OF Some] by auto
    from less.hyps [OF this q] show ?thesis .
  qed
qed

lemma under_up:
  assumes "under base p" and "p \<noteq> base"
  obtains u where "up_of p = Some u" "under base u"
proof -
  obtain y where p: "p = base @ CHR ''/'' # y" using assms by (auto simp: under_iff)
  show ?thesis
    by (cases "up_of y") (use p that in \<open>auto simp: up_of_append under_iff\<close>)
qed

text \<open>The rows below \<open>base\<close>, one level of the query at a time.\<close>

definition level :: "ns_row list \<Rightarrow> string \<Rightarrow> nat \<Rightarrow> ns_row list" where
  "level rows base k = filter (\<lambda>r. under base (nr_path r) \<and> path_depth (nr_path r) = path_depth base + k) rows"

definition below :: "ns_row list \<Rightarrow> string \<Rightarrow> ns_row list" where
  "below rows base = filter (\<lambda>r. under base (nr_path r)) rows"

lemma level_zero: "level rows base 0 = filter (\<lambda>r. nr_path r = base) rows"
  using under_depth by (fastforce simp: level_def under_def intro: filter_cong)

lemma level_join:
  assumes t: "tree_rows env rows"
  shows "ns_join rows (level rows base k) = level rows base (Suc k)"
proof -
  have "(\<exists>s \<in> set (level rows base k). nr_parent n = Some (nr_id s)) \<longleftrightarrow>
      under base (nr_path n) \<and> path_depth (nr_path n) = path_depth base + Suc k" if n: "n \<in> set rows" for n
  proof
    assume "\<exists>s \<in> set (level rows base k). nr_parent n = Some (nr_id s)"
    then obtain s where s: "s \<in> set rows" "under base (nr_path s)" "path_depth (nr_path s) = path_depth base + k"
      "nr_parent n = Some (nr_id s)"
      by (auto simp: level_def)
    have "parent_ok rows n" using t n by (simp add: tree_rows_def)
    with s(4) obtain u q where u: "up_of (nr_path n) = Some u" "q \<in> set rows" "nr_path q = u" "nr_id q = nr_id s"
      by (auto simp: parent_ok_def split: option.splits)
    have "nr_path s = u" using same_id [OF t u(2) s(1) u(4)] u(3) by simp
    moreover have "under u (nr_path n)" using up_of_Some [OF u(1)] by (auto simp: under_iff)
    ultimately show "under base (nr_path n) \<and> path_depth (nr_path n) = path_depth base + Suc k"
      using s under_trans up_of_depth [OF u(1)] by auto
  next
    assume a: "under base (nr_path n) \<and> path_depth (nr_path n) = path_depth base + Suc k"
    then have "nr_path n \<noteq> base" by auto
    with a obtain u where u: "up_of (nr_path n) = Some u" "under base u" by (metis under_up)
    have "parent_ok rows n" using t n by (simp add: tree_rows_def)
    with u(1) obtain q where "q \<in> set rows" "nr_path q = u" "nr_parent n = Some (nr_id q)"
      by (auto simp: parent_ok_def)
    with a u up_of_depth [OF u(1)] show "\<exists>s \<in> set (level rows base k). nr_parent n = Some (nr_id s)"
      by (auto simp: level_def)
  qed
  then show ?thesis unfolding ns_join_def level_def [of rows base "Suc k"] by (rule filter_cong [OF refl])
qed

lemma ns_join_Nil [simp]: "ns_join rows [] = []"
  by (simp add: ns_join_def)

lemma level_later: "tree_rows env rows \<Longrightarrow> level rows base k = [] \<Longrightarrow> level rows base (k + j) = []"
  by (induction j) (simp_all flip: level_join)

text \<open>As many levels as rows are enough: each level has a row of its own.\<close>

lemma level_rows:
  assumes "tree_rows env rows"
  shows "level rows base k \<noteq> [] \<Longrightarrow> Suc k \<le> length (filter (\<lambda>r. under base (nr_path r) \<and> path_depth (nr_path r) < path_depth base + Suc k) rows)"
proof (induction k)
  case 0
  then obtain r where "r \<in> set rows" "under base (nr_path r)" "path_depth (nr_path r) = path_depth base"
    by (auto simp: level_def filter_empty_conv)
  then show ?case by (auto simp: Suc_le_eq filter_empty_conv)
next
  case (Suc k)
  have "level rows base k \<noteq> []" using Suc.prems level_later [OF assms, of base k 1] by auto
  from Suc.IH [OF this] have i: "Suc k \<le> length (filter (\<lambda>r. under base (nr_path r) \<and> path_depth (nr_path r) < path_depth base + Suc k) rows)" .
  have "length (filter (\<lambda>r. under base (nr_path r) \<and> path_depth (nr_path r) < path_depth base + Suc (Suc k)) rows) =
      length (filter (\<lambda>r. under base (nr_path r) \<and> path_depth (nr_path r) < path_depth base + Suc k) rows) +
      length (level rows base (Suc k))"
    unfolding level_def by (induction rows) auto
  moreover have "0 < length (level rows base (Suc k))" using Suc.prems by simp
  ultimately show ?case using i by linarith
qed

lemma level_end: "tree_rows env rows \<Longrightarrow> level rows base (length rows) = []"
  using level_rows [of env rows base "length rows"] length_filter_le le_trans not_less_eq_eq by blast

lemma level_beyond:
  assumes "tree_rows env rows" and "level rows base k = []"
  shows "r \<in> set rows \<Longrightarrow> under base (nr_path r) \<Longrightarrow> path_depth (nr_path r) < path_depth base + k"
proof (rule ccontr)
  assume r: "r \<in> set rows" "under base (nr_path r)" "\<not> path_depth (nr_path r) < path_depth base + k"
  then obtain j where "path_depth (nr_path r) = path_depth base + (k + j)"
    by (metis add.assoc le_Suc_ex not_less)
  then have "r \<in> set (level rows base (k + j))" using r by (simp add: level_def)
  with level_later [OF assms, of j] show False by simp
qed

lemma level_none:
  assumes "tree_rows env rows" and "level rows base k = []"
  shows "{r \<in> set rows. under base (nr_path r) \<and> path_depth base + k \<le> path_depth (nr_path r)} = {}"
  using level_beyond [OF assms] by (auto simp: not_le)

lemma descend_level:
  assumes t: "tree_rows env rows"
  shows "level rows base (k + fuel) = [] \<Longrightarrow>
    \<exists>xs. descend rows fuel (level rows base k) = Some xs \<and> distinct xs \<and>
      set xs = {r \<in> set rows. under base (nr_path r) \<and> path_depth base + k \<le> path_depth (nr_path r)}"
proof (induction fuel arbitrary: k)
  case 0
  then show ?case using level_none [OF t] by simp
next
  case (Suc fuel)
  show ?case
  proof (cases "level rows base k")
    case Nil
    then show ?thesis using level_none [OF t] by simp
  next
    case (Cons r rs)
    from Suc.IH [of "Suc k"] Suc.prems obtain xs where
      xs: "descend rows fuel (level rows base (Suc k)) = Some xs" "distinct xs"
        "set xs = {r \<in> set rows. under base (nr_path r) \<and> path_depth base + Suc k \<le> path_depth (nr_path r)}"
      by auto
    have "descend rows (Suc fuel) (level rows base k) = Some (level rows base k @ xs)"
      using xs(1) level_join [OF t, of base k] by (simp add: Cons)
    moreover have "set (level rows base k @ xs) =
        {r \<in> set rows. under base (nr_path r) \<and> path_depth base + k \<le> path_depth (nr_path r)}"
      by (auto simp: level_def xs(3))
    moreover have "distinct (level rows base k @ xs)"
      using tree_distinct [OF t] xs(2) by (auto simp: level_def xs(3))
    ultimately show ?thesis by blast
  qed
qed

lemma descend_below:
  assumes "tree_rows env rows"
  obtains xs where "descend rows (length rows) (filter (\<lambda>r. nr_path r = base) rows) = Some xs"
    and "mset xs = mset (below rows base)"
proof -
  obtain xs where xs: "descend rows (length rows) (level rows base 0) = Some xs" "distinct xs"
    "set xs = {r \<in> set rows. under base (nr_path r) \<and> path_depth base \<le> path_depth (nr_path r)}"
    using descend_level [OF assms, of base 0 "length rows"] level_end [OF assms] by auto
  have "set xs = set (below rows base)" using xs(3) under_depth by (auto simp: below_def)
  moreover have "distinct (below rows base)"
    using tree_distinct [OF assms] by (simp add: below_def)
  ultimately show ?thesis using that xs by (simp add: level_zero set_eq_iff_mset_eq_distinct)
qed

text \<open>The bounded query answers the same rows: no path is as deep as its bound.\<close>

lemma descend_to_level:
  assumes t: "tree_rows env rows"
  shows "level rows base (Suc (k + n)) = [] \<Longrightarrow>
    set (descend_to rows n (level rows base k)) =
      {r \<in> set rows. under base (nr_path r) \<and> path_depth base + k \<le> path_depth (nr_path r)}"
proof (induction n arbitrary: k)
  case 0
  then show ?case using level_none [OF t, of base "Suc k"] by (auto simp: level_def not_less_eq_eq)
next
  case (Suc n)
  have d: "set (descend_to rows n (level rows base (Suc k))) =
      {r \<in> set rows. under base (nr_path r) \<and> path_depth base + Suc k \<le> path_depth (nr_path r)}"
    using Suc.IH [of "Suc k"] Suc.prems by simp
  have l: "set (level rows base k) = {r \<in> set rows. under base (nr_path r) \<and> path_depth (nr_path r) = path_depth base + k}"
    by (simp add: level_def)
  show ?case unfolding descend_to.simps(2) level_join [OF t] set_append d l
    by (rule set_eqI) (simp, linarith)
qed

lemma descend_to_below:
  assumes n: "nfc_ok env" and t: "tree_rows env rows"
  shows "set (descend_to rows 256 (filter (\<lambda>r. nr_path r = base) rows)) = set (below rows base)"
proof -
  have "level rows base 257 = []"
    using n t by (auto simp: level_def filter_empty_conv tree_rows_def normal_iff NS_MAX_DEPTH_def)
  then have "set (descend_to rows 256 (level rows base 0)) =
      {r \<in> set rows. under base (nr_path r) \<and> path_depth base \<le> path_depth (nr_path r)}"
    using descend_to_level [OF t, of base 0 256] by simp
  then show ?thesis using under_depth by (auto simp: level_zero below_def)
qed

lemma subtree_answer:
  assumes "ns_tree env db" and "ns_normalize env path = Inr p"
  shows "ns_subtree env db path = Some (Inr (map (\<lambda>r. (nr_id r, nr_path r)) (sort_key nr_path (below (nd_rows db) p))))"
proof -
  have t: "tree_rows env (nd_rows db)" using assms(1) by (simp add: ns_tree_def)
  obtain xs where xs: "descend (nd_rows db) (length (nd_rows db)) (filter (\<lambda>r. nr_path r = p) (nd_rows db)) = Some xs"
    "mset xs = mset (below (nd_rows db) p)" by (rule descend_below [OF t])
  have "inj_on nr_path (set xs)"
    using t mset_eq_setD [OF xs(2)] by (auto simp: tree_rows_def below_def distinct_map intro: inj_on_subset)
  then have "sort_key nr_path xs = sort_key nr_path (below (nd_rows db) p)"
    using xs(2) by (intro sort_key_inj_key_eq) simp_all
  with xs(1) assms(2) show ?thesis by (simp add: ns_subtree_def)
qed

end
