(* ===== verification/Namespace_Ops.thy ===== *)
theory Namespace_Ops
  imports Namespace_Tree
begin

text \<open>
  The operations that write the tree keep it: \<open>ensure\<close> adds exactly the missing paths above its own,
  \<open>move_subtree\<close> always returns and rewrites exactly the subtree, \<open>remove\<close> takes a childless row.
  A row without its metadata is its \<open>skel\<close>; the tree is about skeletons.
\<close>

section \<open>Skeletons\<close>

definition skel :: "ns_row \<Rightarrow> ns_row" where
  "skel r = r\<lparr>nr_metadata := []\<rparr>"

lemma skel_simps [simp]:
  "nr_id (skel r) = nr_id r" "nr_path (skel r) = nr_path r" "nr_parent (skel r) = nr_parent r"
  "nr_kind (skel r) = nr_kind r" "nr_metadata (skel r) = []" "nr_created_at (skel r) = nr_created_at r"
  "skel (skel r) = skel r"
  by (simp_all add: skel_def)

text \<open>Two states that differ in the rows of \<open>namespaces\<close>, their mark and the log only.\<close>

definition rest_kept :: "ns_db \<Rightarrow> ns_db \<Rightarrow> bool" where
  "rest_kept db db' \<longleftrightarrow> nd_placements db' = nd_placements db \<and> nd_placement_seq db' = nd_placement_seq db \<and>
     nd_items db' = nd_items db \<and> nd_containment db' = nd_containment db"

lemma rest_kept_refl [simp]: "rest_kept db db"
  by (simp add: rest_kept_def)

lemma rest_kept_trans: "rest_kept a b \<Longrightarrow> rest_kept b c \<Longrightarrow> rest_kept a c"
  by (simp add: rest_kept_def)

lemma tree_rows_skel: "tree_rows env (map skel rows) = tree_rows env rows"
  by (simp add: tree_rows_def parent_ok_def comp_def cong: option.case_cong)

lemma tree_rows_cong: "map skel rows = map skel rows' \<Longrightarrow> tree_rows env rows = tree_rows env rows'"
  by (metis tree_rows_skel)

lemma ids_skel: "map skel rows' = map skel rows @ new \<Longrightarrow> nr_id ` set rows' = nr_id ` set rows \<union> nr_id ` set new"
  by (drule arg_cong [where f = "\<lambda>xs. nr_id ` set xs"]) (simp add: image_Un image_image)

lemma paths_skel: "map skel rows' = map skel rows @ new \<Longrightarrow> nr_path ` set rows' = nr_path ` set rows \<union> nr_path ` set new"
  by (drule arg_cong [where f = "\<lambda>xs. nr_path ` set xs"]) (simp add: image_Un image_image)

lemma ns_tree_cong:
  assumes "map skel (nd_rows db') = map skel (nd_rows db)" and "nd_seq db' = nd_seq db"
  shows "ns_tree env db' = ns_tree env db"
proof -
  have b: "(\<forall>r \<in> set rows. nr_id r \<le> n) \<longleftrightarrow> (\<forall>i \<in> nr_id ` set rows. i \<le> n)" for rows n by simp
  show ?thesis
    using assms tree_rows_cong [OF assms(1)] ids_skel [of "nd_rows db'" "nd_rows db" "[]"] by (simp add: ns_tree_def b del: ball_simps)
qed

section \<open>The log takes every entry\<close>

lemma ns_log_update:
  assumes "before = JObj kvs" and "kvs \<noteq> []" and "fst ` set kvs \<subseteq> set (schema_columns E_Namespaces)"
  shows "\<exists>log. ns_log meta Op_Update E_Namespaces i (Some before) after db = Inr (db\<lparr>nd_log := log\<rparr>)"
proof -
  have "inverse_of Op_Update E_Namespaces = Some Inv_Columns" by (simp add: inverse_of_def INVERSES_def)
  from changelog_append_columns [OF this, of "Some before" "nd_log db" meta "int_str i" after] assms show ?thesis
    by (simp add: ns_log_def names_columns_def) (rule exI, rule refl)
qed

lemma ns_log_metadata:
  "\<exists>log. ns_log meta Op_Update E_Namespaces i (Some (metadata_json m)) after db = Inr (db\<lparr>nd_log := log\<rparr>)"
  by (rule ns_log_update [of _ "[(''metadata'', JStr m)]"]) (simp_all add: metadata_json_def)

lemma ns_log_moved:
  "\<exists>log. ns_log meta Op_Update E_Namespaces i
     (Some (if c then JObj [(''parent_id'', a), (''path'', b)] else JObj [(''path'', b)])) after db = Inr (db\<lparr>nd_log := log\<rparr>)"
  by (rule ns_log_update [of _ "if c then [(''parent_id'', a), (''path'', b)] else [(''path'', b)]"]) auto

lemma ns_log_insert: "\<exists>log. ns_log_upsert meta E_Namespaces i None after db = Inr (db\<lparr>nd_log := log\<rparr>)"
proof -
  have "check_restorable (cl_op_as_str Op_Insert) (entity_as_str E_Namespaces) None = Inr ()"
    unfolding check_restorable_iff by (simp add: inverse_of_def INVERSES_def)
  then show ?thesis by (simp add: ns_log_upsert_def changelog_upsert_def changelog_write_def undoable_def) (rule exI, rule refl)
qed

lemma ns_log_delete: "\<exists>log. ns_log meta Op_Delete E_Namespaces i (Some (ns_whole_row r)) after db = Inr (db\<lparr>nd_log := log\<rparr>)"
proof -
  have "check_restorable (cl_op_as_str Op_Delete) (entity_as_str E_Namespaces) (Some (ns_whole_row r)) = Inr ()"
    unfolding check_restorable_iff
    by (auto simp: inverse_of_def INVERSES_def names_row_def ns_whole_row_def)
  then show ?thesis by (simp add: ns_log_def changelog_append_def changelog_write_def undoable_def) (rule exI, rule refl)
qed

section \<open>Creating\<close>

lemma row_at_Some: "row_at db p = Some r \<Longrightarrow> r \<in> set (nd_rows db) \<and> nr_path r = p"
  by (auto simp: row_at_def dest: find_SomeD)

lemma row_at_None: "row_at db p = None \<longleftrightarrow> p \<notin> nr_path ` set (nd_rows db)"
  by (auto simp: row_at_def find_None_iff2)

lemma row_at_tree: "tree_rows env (nd_rows db) \<Longrightarrow> r \<in> set (nd_rows db) \<Longrightarrow> row_at db (nr_path r) = Some r"
  unfolding row_at_def by (rule find_key_unique) (simp_all add: tree_rows_def)

lemma row_id_tree: "tree_rows env (nd_rows db) \<Longrightarrow> r \<in> set (nd_rows db) \<Longrightarrow> row_id db (nr_id r) = Some r"
  unfolding row_id_def by (rule find_key_unique) (simp_all add: tree_rows_def)

lemma row_id_Some: "row_id db i = Some r \<Longrightarrow> r \<in> set (nd_rows db) \<and> nr_id r = i"
  by (auto simp: row_id_def dest: find_SomeD)

lemma row_id_None: "row_id db i = None \<longleftrightarrow> i \<notin> nr_id ` set (nd_rows db)"
  by (auto simp: row_id_def find_None_iff2)

lemma seed_kept:
  assumes "seed_reserved_type env p db = (db', stamped)"
  shows "map skel (nd_rows db') = map skel (nd_rows db)" and "nd_seq db' = nd_seq db"
    and "rest_kept db db'" and "nd_log db' = nd_log db"
  using assms by (auto simp: seed_reserved_type_def rest_kept_def comp_def skel_def split: option.splits)

lemma tree_add:
  assumes "tree_rows env rows" and "nr_id r \<notin> nr_id ` set rows" and "nr_path r \<notin> nr_path ` set rows"
    and "normal env (nr_path r)" and "parent_ok rows r"
  shows "tree_rows env (rows @ [r])"
  using assms by (auto simp: tree_rows_def parent_ok_def split: option.splits)

text \<open>The parent a row at a path is to have.\<close>

definition parent_given :: "ns_db \<Rightarrow> string \<Rightarrow> int option \<Rightarrow> bool" where
  "parent_given db p parent \<longleftrightarrow>
     (case up_of p of None \<Rightarrow> parent = None
      | Some u \<Rightarrow> \<exists>q \<in> set (nd_rows db). nr_path q = u \<and> parent = Some (nr_id q))"

lemma ensure_one_ok:
  assumes t: "ns_tree env db" and "normal env p" and "parent_given db p parent"
  obtains db' i new where "ensure_one env meta now p parent db = Inr (db', i)" and "ns_tree env db'"
    and "map skel (nd_rows db') = map skel (nd_rows db) @ new" and "\<forall>r \<in> set new. nr_path r = p"
    and "rest_kept db db'" and "\<exists>r \<in> set (nd_rows db'). nr_path r = p \<and> nr_id r = i"
proof -
  have tr: "tree_rows env (nd_rows db)" using t by (simp add: ns_tree_def)
  show ?thesis
  proof (cases "row_at db p")
    case (Some r)
    have r: "r \<in> set (nd_rows db)" "nr_path r = p" using row_at_Some [OF Some] by auto
    obtain db1 stamped where s: "seed_reserved_type env p db = (db1, stamped)" by (cases "seed_reserved_type env p db")
    note k = seed_kept [OF s]
    have tr1: "tree_rows env (nd_rows db1)" using tree_rows_cong [OF k(1)] tr by simp
    have t1: "ns_tree env db1" using t ns_tree_cong [OF k(1,2)] by simp
    have "skel r \<in> set (map skel (nd_rows db1))" using r(1) k(1) by simp
    then obtain r1 where r1: "r1 \<in> set (nd_rows db1)" "nr_id r1 = nr_id r" "nr_path r1 = p"
      using r(2) by (auto dest: arg_cong [where f = nr_id] arg_cong [where f = nr_path])
         (metis skel_simps(1) skel_simps(2))
    obtain log where l: "ns_log meta Op_Update E_Namespaces (nr_id r) (Some (metadata_json (nr_metadata r)))
        (Some (metadata_json (nr_metadata r1))) db1 = Inr (db1\<lparr>nd_log := log\<rparr>)"
      using ns_log_metadata by blast
    have e: "ensure_one env meta now p parent db = Inr (if stamped then db1\<lparr>nd_log := log\<rparr> else db1, nr_id r)"
      using Some s row_id_tree [OF tr1 r1(1)] l r1(2) by (simp add: ensure_one_def)
    show ?thesis
    proof (rule that [OF e, of "[]"])
      show "ns_tree env (if stamped then db1\<lparr>nd_log := log\<rparr> else db1)" using t1 by (simp add: ns_tree_def)
    qed (use k r1 in \<open>auto simp: rest_kept_def\<close>)
  next
    case None
    let ?i = "nd_seq db + 1"
    let ?r = "\<lparr>nr_id = ?i, nr_path = p, nr_parent = parent, nr_kind = kind_for p, nr_metadata = ''{}'', nr_created_at = now\<rparr>"
    let ?db1 = "db\<lparr>nd_rows := nd_rows db @ [?r], nd_seq := ?i\<rparr>"
    have "parent_ok (nd_rows db) ?r" using assms(3) by (auto simp: parent_given_def parent_ok_def split: option.splits)
    moreover have "?i \<notin> nr_id ` set (nd_rows db)" using t by (force simp: ns_tree_def)
    ultimately have tr1: "tree_rows env (nd_rows ?db1)"
      using tree_add [OF tr, of ?r] None assms(2) by (simp add: row_at_None)
    obtain db2 stamped where s: "seed_reserved_type env p ?db1 = (db2, stamped)" by (cases "seed_reserved_type env p ?db1")
    note k = seed_kept [OF s]
    have tr2: "tree_rows env (nd_rows db2)" using tree_rows_cong [OF k(1)] tr1 by simp
    have "ns_tree env ?db1" using t tr1 by (auto simp: ns_tree_def)
    then have t2: "ns_tree env db2" using ns_tree_cong [OF k(1,2)] by simp
    have "skel ?r \<in> set (map skel (nd_rows db2))" using k(1) by simp
    then obtain r2 where r2: "r2 \<in> set (nd_rows db2)" "nr_id r2 = ?i" "nr_path r2 = p"
      by (auto dest: arg_cong [where f = nr_id] arg_cong [where f = nr_path])
         (metis ns_row.select_convs(1) ns_row.select_convs(2) skel_simps(1) skel_simps(2))
    obtain log where l: "ns_log_upsert meta E_Namespaces ?i None (Some (ns_row_json r2)) db2 = Inr (db2\<lparr>nd_log := log\<rparr>)"
      using ns_log_insert by blast
    have e: "ensure_one env meta now p parent db = Inr (db2\<lparr>nd_log := log\<rparr>, ?i)"
      using None s row_id_tree [OF tr2 r2(1)] r2(2) l by (simp add: ensure_one_def Let_def)
    show ?thesis
    proof (rule that [OF e, of "[skel ?r]"])
      show "ns_tree env (db2\<lparr>nd_log := log\<rparr>)" using t2 by (simp add: ns_tree_def)
    qed (use k r2 in \<open>auto simp: rest_kept_def\<close>)
  qed
qed

lemma join_step:
  assumes "cur \<noteq> []"
  shows "join ''/'' (cur # rest) = cur \<or> (\<exists>y. join ''/'' (cur # rest) = cur @ CHR ''/'' # y)"
  by (cases rest) auto

lemma join_snoc: "cur \<noteq> [] \<Longrightarrow> join ''/'' (cur # s # rest) = join ''/'' ((cur @ ''/'' @ s) # rest)"
  by (cases rest) auto

lemma ensure_loop_ok:
  assumes n: "nfc_ok env" and p: "normal env p"
  shows "ns_tree env db \<Longrightarrow> p = join ''/'' (if cur = [] then rest else cur # rest) \<Longrightarrow>
    \<forall>s \<in> set rest. s \<noteq> [] \<and> CHR ''/'' \<notin> set s \<Longrightarrow>
    (if cur = [] then parent = None else \<exists>q \<in> set (nd_rows db). nr_path q = cur \<and> parent = Some (nr_id q) \<and> i = nr_id q) \<Longrightarrow>
    \<exists>db' j new. ensure_loop env meta now rest parent cur i db = Inr (db', j) \<and> ns_tree env db' \<and>
      map skel (nd_rows db') = map skel (nd_rows db) @ new \<and> (\<forall>r \<in> set new. under (nr_path r) p) \<and> rest_kept db db' \<and>
      (\<exists>r \<in> set (nd_rows db'). nr_path r = p \<and> nr_id r = j)"
proof (induction rest arbitrary: cur parent i db)
  case Nil
  have "p \<noteq> []" using p normal_iff [OF n] by blast
  then have "cur \<noteq> []" "p = cur" using Nil.prems(2) by (auto split: if_splits)
  then show ?case using Nil.prems(1,4) by force
next
  case (Cons s rest)
  define cur' where "cur' = (if cur = [] then s else cur @ ''/'' @ s)"
  have s: "s \<noteq> []" "CHR ''/'' \<notin> set s" using Cons.prems(3) by simp_all
  then have c: "cur' \<noteq> []" by (simp add: cur'_def)
  have p': "p = join ''/'' (cur' # rest)"
    using Cons.prems(2) join_snoc [of cur s rest] by (simp add: cur'_def)
  then have u: "p = cur' \<or> (\<exists>y. p = cur' @ CHR ''/'' # y)" using join_step [OF c] by metis
  then have nc: "normal env cur'" using p normal_up [OF n] by metis
  have g: "parent_given db cur' parent"
    using Cons.prems(4) s(2) by (auto simp: parent_given_def cur'_def up_of_append iffD2 [OF up_of_None])
  obtain db1 i1 new1 where one: "ensure_one env meta now cur' parent db = Inr (db1, i1)" "ns_tree env db1"
    "map skel (nd_rows db1) = map skel (nd_rows db) @ new1" "\<forall>r \<in> set new1. nr_path r = cur'"
    "rest_kept db db1" "\<exists>r \<in> set (nd_rows db1). nr_path r = cur' \<and> nr_id r = i1"
    by (rule ensure_one_ok [OF Cons.prems(1) nc g])
  have "\<exists>db' j new. ensure_loop env meta now rest (Some i1) cur' i1 db1 = Inr (db', j) \<and> ns_tree env db' \<and>
      map skel (nd_rows db') = map skel (nd_rows db1) @ new \<and> (\<forall>r \<in> set new. under (nr_path r) p) \<and> rest_kept db1 db' \<and>
      (\<exists>r \<in> set (nd_rows db'). nr_path r = p \<and> nr_id r = j)"
    using Cons.prems(3) one(6) c p' by (intro Cons.IH [OF one(2)]) auto
  then obtain db' j new where more: "ensure_loop env meta now rest (Some i1) cur' i1 db1 = Inr (db', j)" "ns_tree env db'"
      "map skel (nd_rows db') = map skel (nd_rows db1) @ new" "\<forall>r \<in> set new. under (nr_path r) p" "rest_kept db1 db'"
      "\<exists>r \<in> set (nd_rows db'). nr_path r = p \<and> nr_id r = j"
    by blast
  have "under cur' p" using u by (auto simp: under_iff)
  then have un: "\<forall>r \<in> set (new1 @ new). under (nr_path r) p" using one(4) more(4) by auto
  have "ensure_loop env meta now (s # rest) parent cur i db = Inr (db', j)"
    using one(1) more(1) by (simp add: cur'_def)
  then have "ensure_loop env meta now (s # rest) parent cur i db = Inr (db', j) \<and> ns_tree env db' \<and>
      map skel (nd_rows db') = map skel (nd_rows db) @ (new1 @ new) \<and> (\<forall>r \<in> set (new1 @ new). under (nr_path r) p) \<and>
      rest_kept db db' \<and> (\<exists>r \<in> set (nd_rows db'). nr_path r = p \<and> nr_id r = j)"
    using one(3,5) more un rest_kept_trans [OF one(5) more(5)] by (simp only: append_assoc simp_thms)
  then show ?case by blast
qed

lemma ensure_ok:
  assumes n: "nfc_ok env" and t: "ns_tree env db" and p: "ns_normalize env path = Inr p"
  obtains db' i new where "ns_ensure env meta now path db = Inr (db', i)" and "ns_tree env db'"
    and "map skel (nd_rows db') = map skel (nd_rows db) @ new" and "\<forall>r \<in> set new. under (nr_path r) p"
    and "rest_kept db db'" and "\<exists>r \<in> set (nd_rows db'). nr_path r = p \<and> nr_id r = i"
proof -
  have np: "normal env p" by (rule normalize_normal [OF n p])
  have "\<forall>s \<in> set (split_on (CHR ''/'') p). s \<noteq> [] \<and> CHR ''/'' \<notin> set s"
    using np n split_on_pieces by (fastforce simp: normal_iff segment_ok_def)
  with ensure_loop_ok [OF n np t, of "[]" "split_on (CHR ''/'') p" None 0 meta now] p that show ?thesis
    by (fastforce simp: ns_ensure_def join_split_on)
qed

text \<open>The tree has a row for every path above one it has.\<close>

lemma tree_above:
  assumes "tree_rows env rows" and "r \<in> set rows" and "under q (nr_path r)"
  shows "q \<in> nr_path ` set rows"
  using assms tree_up by (fastforce simp: under_iff)

end
