(* ===== verification/Namespace_Move.thy ===== *)
theory Namespace_Move
  imports Namespace_Ops
begin

text \<open>
  \<open>move_subtree\<close> on a tree: it always returns, it is refused exactly when the code says so, and
  otherwise it rewrites the paths of the subtree and the parent of its root.
\<close>

section \<open>The moved rows\<close>

definition moved_path :: "string \<Rightarrow> string \<Rightarrow> string \<Rightarrow> string" where
  "moved_path f t p = (if under f p then t @ drop (length f) p else p)"

definition ns_moved_row :: "string \<Rightarrow> string \<Rightarrow> int option \<Rightarrow> ns_row \<Rightarrow> ns_row" where
  "ns_moved_row f t np r =
     r\<lparr>nr_path := moved_path f t (nr_path r), nr_parent := (if nr_path r = f then np else nr_parent r)\<rparr>"

lemma ns_moved_row_simps [simp]:
  "nr_id (ns_moved_row f t np r) = nr_id r" "nr_path (ns_moved_row f t np r) = moved_path f t (nr_path r)"
  "nr_parent (ns_moved_row f t np r) = (if nr_path r = f then np else nr_parent r)"
  "nr_kind (ns_moved_row f t np r) = nr_kind r" "nr_metadata (ns_moved_row f t np r) = nr_metadata r"
  "nr_created_at (ns_moved_row f t np r) = nr_created_at r"
  by (simp_all add: ns_moved_row_def)

lemma moved_path_root: "moved_path f t f = t"
  by (simp add: moved_path_def under_iff)

lemma moved_path_append: "moved_path f t (f @ CHR ''/'' # y) = t @ CHR ''/'' # y"
  by (simp add: moved_path_def under_iff)

lemma moved_under: "under f p \<Longrightarrow> under t (moved_path f t p)"
  by (auto simp: moved_path_root moved_path_append under_iff)

lemma moved_inj: "under f p \<Longrightarrow> under f q \<Longrightarrow> moved_path f t p = moved_path f t q \<Longrightarrow> p = q"
  by (auto simp: moved_path_root moved_path_append under_iff)

lemma slice_under: "under f p \<Longrightarrow> slice_from (length f) p = Some (drop (length f) p)"
  by (auto simp: slice_from_def under_iff nth_append is_cont_byte_def)

section \<open>The checks\<close>

lemma move_check_returns:
  assumes "\<forall>x \<in> set rows. under f (snd x)"
  shows "(\<exists>e. move_check env f t rows = Some (Inl e)) \<or>
    move_check env f t rows = Some (Inr ()) \<and> (\<forall>x \<in> set rows. \<exists>q. ns_normalize env (moved_path f t (snd x)) = Inr q)"
  using assms
proof (induction rows)
  case (Cons x rows)
  obtain i p where x: "x = (i, p)" by (cases x)
  then have u: "under f p" using Cons.prems by simp
  then have m: "moved_path f t p = t @ drop (length f) p" by (simp add: moved_path_def)
  show ?case
    by (cases "ns_normalize env (t @ drop (length f) p)") (use Cons x slice_under [OF u] m in auto)
qed simp

lemma move_check_refused:
  assumes "\<forall>x \<in> set rows. under f (snd x)" and "move_check env f t rows = Some (Inl e)"
  shows "\<exists>x \<in> set rows. \<forall>q. ns_normalize env (moved_path f t (snd x)) \<noteq> Inr q"
  using assms
proof (induction rows)
  case (Cons x rows)
  obtain i p where x: "x = (i, p)" by (cases x)
  then have u: "under f p" using Cons.prems by simp
  then have m: "moved_path f t p = t @ drop (length f) p" by (simp add: moved_path_def)
  show ?case
    by (cases "ns_normalize env (t @ drop (length f) p)") (use Cons x slice_under [OF u] m in auto)
qed simp

text \<open>A moved path that \<open>normalize\<close> accepts is one it leaves alone.\<close>

lemma moved_normal:
  assumes n: "nfc_ok env" and p: "normal env p" and t: "normal env t" and u: "under f p"
    and q: "ns_normalize env (moved_path f t p) = Inr q"
  shows "normal env (moved_path f t p)"
proof -
  have "\<forall>s \<in> set (split_on (CHR ''/'') (moved_path f t p)). ne_nfc env s = s"
    using u p t by (auto simp: under_iff moved_path_root moved_path_append split_slash_append normal_iff [OF n])
  moreover have "split_on (CHR ''/'') (moved_path f t p) \<noteq> []" by simp
  ultimately show ?thesis
    using q by (auto simp: normal_iff [OF n] ns_normalize_Inr)
qed

section \<open>The writes\<close>

definition at_ids :: "string \<Rightarrow> string \<Rightarrow> int set \<Rightarrow> ns_row \<Rightarrow> ns_row" where
  "at_ids f t ids r = (if nr_id r \<in> ids then r\<lparr>nr_path := moved_path f t (nr_path r)\<rparr> else r)"

lemma move_rows_ok:
  assumes "distinct (map nr_id (nd_rows db))" and "distinct (map fst rows)" and "distinct (map snd rows)"
    and "\<forall>x \<in> set rows. under f (snd x) \<and> (\<forall>r \<in> set (nd_rows db). nr_id r = fst x \<longrightarrow> nr_path r = snd x)"
    and "\<forall>r \<in> set (nd_rows db). \<forall>x \<in> set rows. nr_path r \<noteq> moved_path f t (snd x)"
  shows "\<exists>log. move_rows meta f t root op np rows db =
    Some (Inr (db\<lparr>nd_rows := map (at_ids f t (fst ` set rows)) (nd_rows db), nd_log := log\<rparr>))"
  using assms
proof (induction rows arbitrary: db)
  case Nil
  have "map (at_ids f t {}) (nd_rows db) = nd_rows db" by (simp add: map_eq_self at_ids_def)
  then show ?case by (auto intro!: exI [of _ "nd_log db"])
next
  case (Cons x rows)
  obtain i p where x: "x = (i, p)" by (cases x)
  have u: "under f p" using Cons.prems(4) x by simp
  have np_path: "(if p = f then Some t else map_option ((@) t) (slice_from (length f) p)) = Some (moved_path f t p)"
    using u slice_under [OF u] by (simp add: moved_path_root) (simp add: moved_path_def)
  define db1 where "db1 = update_row i (\<lambda>r. r\<lparr>nr_path := moved_path f t p\<rparr>) db"
  have up: "update_path i (moved_path f t p) db = Inr db1"
    using Cons.prems(5) x by (auto simp: update_path_def db1_def)
  obtain log1 where l: "ns_log meta Op_Update E_Namespaces i
      (Some (if i = root then JObj [(''parent_id'', json_int_opt op), (''path'', JStr p)] else JObj [(''path'', JStr p)]))
      (Some (if i = root then JObj [(''parent_id'', json_int_opt np), (''path'', JStr (moved_path f t p))]
             else JObj [(''path'', JStr (moved_path f t p))])) db1 = Inr (db1\<lparr>nd_log := log1\<rparr>)"
    using ns_log_moved by blast
  have rows1: "nd_rows (db1\<lparr>nd_log := log1\<rparr>) = map (\<lambda>r. if nr_id r = i then r\<lparr>nr_path := moved_path f t p\<rparr> else r) (nd_rows db)"
    by (simp add: db1_def update_row_def)
  have ids: "map nr_id (nd_rows (db1\<lparr>nd_log := log1\<rparr>)) = map nr_id (nd_rows db)"
    unfolding rows1 by simp
  have i: "i \<notin> fst ` set rows" "p \<notin> snd ` set rows" using Cons.prems(2,3) x by auto
  have ih: "\<exists>log. move_rows meta f t root op np rows (db1\<lparr>nd_log := log1\<rparr>) =
    Some (Inr (db1\<lparr>nd_log := log1, nd_rows := map (at_ids f t (fst ` set rows)) (nd_rows (db1\<lparr>nd_log := log1\<rparr>)), nd_log := log\<rparr>))"
  proof (rule Cons.IH)
    show "distinct (map nr_id (nd_rows (db1\<lparr>nd_log := log1\<rparr>)))" using Cons.prems(1) ids by simp
    show "\<forall>x \<in> set rows. under f (snd x) \<and>
        (\<forall>r \<in> set (nd_rows (db1\<lparr>nd_log := log1\<rparr>)). nr_id r = fst x \<longrightarrow> nr_path r = snd x)"
      unfolding rows1 using Cons.prems(4) i(1) by force
    show "\<forall>r \<in> set (nd_rows (db1\<lparr>nd_log := log1\<rparr>)). \<forall>x \<in> set rows. nr_path r \<noteq> moved_path f t (snd x)"
    proof (intro ballI)
      fix r x assume r: "r \<in> set (nd_rows (db1\<lparr>nd_log := log1\<rparr>))" "x \<in> set rows"
      have "moved_path f t p \<noteq> moved_path f t (snd x)"
        using moved_inj [OF u, of "snd x" t] Cons.prems(4) r(2) i(2) by auto
      with r Cons.prems(5) show "nr_path r \<noteq> moved_path f t (snd x)"
        unfolding rows1 by (auto split: if_splits)
    qed
  qed (use Cons.prems(2,3) in simp_all)
  have mm: "map (at_ids f t (fst ` set rows)) (nd_rows (db1\<lparr>nd_log := log1\<rparr>)) = map (at_ids f t (fst ` set (x # rows))) (nd_rows db)"
    unfolding rows1 using Cons.prems(4) i(1) x by (auto simp: at_ids_def)
  from ih obtain log where "move_rows meta f t root op np rows (db1\<lparr>nd_log := log1\<rparr>) =
      Some (Inr (db1\<lparr>nd_log := log1, nd_rows := map (at_ids f t (fst ` set (x # rows))) (nd_rows db), nd_log := log\<rparr>))"
    unfolding mm by blast
  moreover have "move_rows meta f t root op np (x # rows) db = move_rows meta f t root op np rows (db1\<lparr>nd_log := log1\<rparr>)"
    unfolding x move_rows.simps np_path by (simp add: up l)
  ultimately show ?case
    by (intro exI [of _ log]) (simp add: db1_def update_row_def)
qed

lemma move_parent_ok:
  assumes n: "nfc_ok env" and tr: "ns_tree env db" and t: "normal env t"
  obtains db1 np new where "move_parent env meta now t db = Inr (db1, np)" and "ns_tree env db1"
    and "map skel (nd_rows db1) = map skel (nd_rows db) @ new"
    and "\<forall>r \<in> set new. \<exists>u. up_of t = Some u \<and> under (nr_path r) u" and "rest_kept db db1"
    and "parent_given db1 t np"
proof (cases "rsplit_once ''/'' t")
  case None
  then have "move_parent env meta now t db = Inr (db, None)" by (simp add: move_parent_def)
  then show ?thesis using that [of db None "[]"] tr None by (simp add: parent_given_def up_of_def)
next
  case (Some ub)
  obtain u b where ub: "ub = (u, b)" by (cases ub)
  then have u: "up_of t = Some u" using Some by (simp add: up_of_def)
  then have "normal env u" using up_of_Some [OF u] t normal_up [OF n] by auto
  then have nu: "ns_normalize env u = Inr u" by (simp add: normal_def)
  obtain db1 i new where e: "ns_ensure env meta now u db = Inr (db1, i)" "ns_tree env db1"
    "map skel (nd_rows db1) = map skel (nd_rows db) @ new" "\<forall>r \<in> set new. under (nr_path r) u"
    "rest_kept db db1" "\<exists>r \<in> set (nd_rows db1). nr_path r = u \<and> nr_id r = i"
    by (rule ensure_ok [OF n tr nu])
  have "move_parent env meta now t db = Inr (db1, Some i)" using Some ub e(1) by (simp add: move_parent_def)
  then show ?thesis
    using that [of db1 "Some i" new] e u by (auto simp: parent_given_def)
qed

text \<open>Rewriting the subtree keeps the tree, when nothing lies at or below the target.\<close>

lemma moved_tree:
  assumes t: "tree_rows env rows" and free: "\<forall>r \<in> set rows. \<not> under t (nr_path r)" and ft: "\<not> under f t"
    and np: "case up_of t of None \<Rightarrow> np = None | Some u \<Rightarrow> \<exists>q \<in> set rows. nr_path q = u \<and> np = Some (nr_id q)"
    and normal: "\<forall>r \<in> set rows. normal env (moved_path f t (nr_path r))"
  shows "tree_rows env (map (ns_moved_row f t np) rows)"
proof -
  have inj: "moved_path f t (nr_path r) = moved_path f t (nr_path q) \<Longrightarrow> nr_path r = nr_path q"
    if "r \<in> set rows" "q \<in> set rows" for r q
    using that free moved_inj [of f "nr_path r" "nr_path q" t] moved_under [of f _ t] by (metis moved_path_def)
  have "distinct (map nr_path (map (ns_moved_row f t np) rows))"
    using t inj same_path [OF t] by (auto simp: tree_rows_def distinct_map ns_moved_row_def intro!: inj_onI)
  moreover have "map nr_id (map (ns_moved_row f t np) rows) = map nr_id rows"
    by (simp add: ns_moved_row_def)
  moreover have "parent_ok (map (ns_moved_row f t np) rows) (ns_moved_row f t np r)" if r: "r \<in> set rows" for r
  proof -
    have ok: "parent_ok rows r" using t r by (simp add: tree_rows_def)
    have outside: "moved_path f t u = u" if "\<not> under f u" for u using that by (simp add: moved_path_def)
    consider (root) "nr_path r = f" | (below) y where "nr_path r = f @ CHR ''/'' # y" | (other) "\<not> under f (nr_path r)"
      by (auto simp: under_iff)
    then show ?thesis
    proof cases
      case root
      have "\<not> under f u" if "up_of t = Some u" for u
        using ft up_of_Some [OF that] under_trans [of f u t] by (auto simp: under_iff)
      with root np show ?thesis
        by (auto simp: parent_ok_def ns_moved_row_def moved_path_root split: option.splits) (metis outside)
    next
      case below
      then show ?thesis
        using ok by (cases "up_of y")
          (auto simp: parent_ok_def ns_moved_row_def moved_path_append up_of_append, (metis moved_path_root moved_path_append)+)
    next
      case other
      have "\<not> under f u" if "up_of (nr_path r) = Some u" for u
        using other up_of_Some [OF that] under_trans [of f u "nr_path r"] by (auto simp: under_iff)
      moreover have "nr_path r \<noteq> f" using other by (auto simp: under_iff)
      ultimately show ?thesis
        using ok other by (auto simp: parent_ok_def ns_moved_row_def outside split: option.splits) (metis outside)
    qed
  qed
  ultimately show ?thesis
    using t normal by (simp add: tree_rows_def comp_def)
qed

section \<open>The whole move\<close>

text \<open>What a move is refused for.\<close>

definition move_allowed :: "ns_env \<Rightarrow> ns_db \<Rightarrow> string \<Rightarrow> string \<Rightarrow> bool" where
  "move_allowed env db f t \<longleftrightarrow> \<not> under f t \<and> f \<in> nr_path ` set (nd_rows db) \<and> t \<notin> nr_path ` set (nd_rows db) \<and>
     (\<forall>r \<in> set (nd_rows db). under f (nr_path r) \<longrightarrow> normal env (moved_path f t (nr_path r)))"

definition below_list :: "ns_db \<Rightarrow> string \<Rightarrow> (int \<times> string) list" where
  "below_list db f = map (\<lambda>r. (nr_id r, nr_path r)) (sort_key nr_path (below (nd_rows db) f))"

lemma below_list_facts:
  assumes "tree_rows env (nd_rows db)"
  shows "distinct (map fst (below_list db f))" and "distinct (map snd (below_list db f))"
    and "set (below_list db f) = (\<lambda>r. (nr_id r, nr_path r)) ` {r \<in> set (nd_rows db). under f (nr_path r)}"
    and "length (below_list db f) = length (below (nd_rows db) f)"
proof -
  let ?xs = "sort_key nr_path (below (nd_rows db) f)"
  have d: "distinct ?xs" using tree_distinct [OF assms] by (simp add: below_def)
  have s: "set ?xs = {r \<in> set (nd_rows db). under f (nr_path r)}" by (auto simp: below_def)
  show "distinct (map fst (below_list db f))"
    using d s same_id [OF assms] by (auto simp: below_list_def comp_def distinct_map intro!: inj_onI)
  show "distinct (map snd (below_list db f))"
    using d s same_path [OF assms] by (auto simp: below_list_def comp_def distinct_map intro!: inj_onI)
qed (auto simp: below_list_def below_def)

lemma no_under_target:
  assumes "tree_rows env rows" and "t \<notin> nr_path ` set rows" and "r \<in> set rows"
  shows "\<not> under t (nr_path r)"
  using tree_above [OF assms(1,3)] assms(2) by blast

lemma move_write_ok:
  assumes n: "nfc_ok env" and tr: "ns_tree env db" and t: "normal env t" and a: "move_allowed env db f t"
    and root: "row_at db f = Some r0"
  obtains db' np db1 new where "move_write env meta now f t (nr_id r0) (below_list db f) db = Some (Inr (db', length (below (nd_rows db) f)))"
    and "nd_rows db' = map (ns_moved_row f t np) (nd_rows db1)" and "map skel (nd_rows db1) = map skel (nd_rows db) @ new"
    and "\<forall>r \<in> set new. \<exists>u. up_of t = Some u \<and> under (nr_path r) u" and "rest_kept db db'" and "ns_tree env db'"
    and "parent_given db1 t np"
proof -
  obtain db1 np new where m: "move_parent env meta now t db = Inr (db1, np)" "ns_tree env db1"
    "map skel (nd_rows db1) = map skel (nd_rows db) @ new"
    "\<forall>r \<in> set new. \<exists>u. up_of t = Some u \<and> under (nr_path r) u" "rest_kept db db1" "parent_given db1 t np"
    by (rule move_parent_ok [OF n tr t])
  have trr: "tree_rows env (nd_rows db)" and tr1: "tree_rows env (nd_rows db1)" using tr m(2) by (simp_all add: ns_tree_def)
  note bl = below_list_facts [OF trr, of f]
  have paths: "nr_path ` set (nd_rows db1) = nr_path ` set (nd_rows db) \<union> nr_path ` set new" by (rule paths_skel [OF m(3)])
  have ftu: "\<not> under f t" using a by (simp add: move_allowed_def)
  have new: "\<not> under f (nr_path r)" "\<not> under t (nr_path r)" if r: "r \<in> set new" for r
  proof -
    obtain u where u: "up_of t = Some u" "under (nr_path r) u" using m(4) r by blast
    have ut: "under u t" using up_of_Some [OF u(1)] by (auto simp: under_iff)
    show "\<not> under f (nr_path r)" using ftu under_trans [OF _ under_trans [OF u(2) ut]] by blast
    have "path_depth (nr_path r) < path_depth t" using under_depth [OF u(2)] up_of_depth [OF u(1)] by simp
    then show "\<not> under t (nr_path r)" using under_depth by fastforce
  qed
  have kept: "\<exists>r \<in> set (nd_rows db). nr_id r = nr_id r1 \<and> nr_path r = nr_path r1"
    if r1: "r1 \<in> set (nd_rows db1)" "under f (nr_path r1)" for r1
  proof -
    have "skel r1 \<in> set (map skel (nd_rows db) @ new)" using r1(1) unfolding m(3) [symmetric] by simp
    then consider r where "r \<in> set (nd_rows db)" "skel r1 = skel r" | "skel r1 \<in> set new" by auto
    then show ?thesis
    proof cases
      case 1
      then show ?thesis by (metis skel_simps(1,2))
    next
      case 2
      with new(1) [OF 2] r1(2) show ?thesis by simp
    qed
  qed
  have there: "\<exists>r1 \<in> set (nd_rows db1). nr_id r1 = nr_id r \<and> nr_path r1 = nr_path r" if r: "r \<in> set (nd_rows db)" for r
  proof -
    have "skel r \<in> set (map skel (nd_rows db1))" using r unfolding m(3) by simp
    then obtain r1 where "r1 \<in> set (nd_rows db1)" "skel r = skel r1" by auto
    then show ?thesis by (metis skel_simps(1,2))
  qed
  have free: "\<not> under t (nr_path r)" if r: "r \<in> set (nd_rows db1)" for r
  proof (rule no_under_target [OF tr1 _ r])
    have "t \<notin> nr_path ` set new" using new(2) by (auto simp: under_iff)
    then show "t \<notin> nr_path ` set (nd_rows db1)" using a unfolding paths by (simp add: move_allowed_def)
  qed
  have same: "nr_path r = p" if "(i, p) \<in> set (below_list db f)" "r \<in> set (nd_rows db1)" "nr_id r = i" for i p r
  proof -
    from that(1) bl(3) obtain q where "q \<in> set (nd_rows db)" "nr_id q = i" "nr_path q = p" by auto
    with there obtain q1 where "q1 \<in> set (nd_rows db1)" "nr_id q1 = i" "nr_path q1 = p" by blast
    with that(2,3) same_id [OF tr1] show ?thesis by metis
  qed
  have "\<exists>log. move_rows meta f t (nr_id r0) op np (below_list db f) db1 =
      Some (Inr (db1\<lparr>nd_rows := map (at_ids f t (fst ` set (below_list db f))) (nd_rows db1), nd_log := log\<rparr>))" for op
  proof (rule move_rows_ok [OF _ bl(1,2)])
    show "distinct (map nr_id (nd_rows db1))" using tr1 by (simp add: tree_rows_def)
    show "\<forall>x \<in> set (below_list db f). under f (snd x) \<and> (\<forall>r \<in> set (nd_rows db1). nr_id r = fst x \<longrightarrow> nr_path r = snd x)"
    proof (intro ballI conjI impI)
      fix x assume x: "x \<in> set (below_list db f)"
      with bl(3) show "under f (snd x)" by auto
      show "nr_path r = snd x" if "r \<in> set (nd_rows db1)" "nr_id r = fst x" for r
        using same [of "fst x" "snd x" r] x that by simp
    qed
    show "\<forall>r \<in> set (nd_rows db1). \<forall>x \<in> set (below_list db f). nr_path r \<noteq> moved_path f t (snd x)"
    proof (intro ballI notI)
      fix r x assume r: "r \<in> set (nd_rows db1)" "x \<in> set (below_list db f)" "nr_path r = moved_path f t (snd x)"
      then have "under f (snd x)" using bl(3) by auto
      with moved_under [OF this, of t] free [OF r(1)] r(3) show False by simp
    qed
  qed
  then obtain log where rows: "move_rows meta f t (nr_id r0) (Option.bind (row_id db1 (nr_id r0)) nr_parent) np (below_list db f) db1 =
      Some (Inr (db1\<lparr>nd_rows := map (at_ids f t (fst ` set (below_list db f))) (nd_rows db1), nd_log := log\<rparr>))" by blast
  define db' where "db' = update_row (nr_id r0) (\<lambda>r. r\<lparr>nr_parent := np\<rparr>)
      (db1\<lparr>nd_rows := map (at_ids f t (fst ` set (below_list db f))) (nd_rows db1), nd_log := log\<rparr>)"
  have w: "move_write env meta now f t (nr_id r0) (below_list db f) db = Some (Inr (db', length (below (nd_rows db) f)))"
    unfolding move_write_def m(1) by (simp add: Let_def rows db'_def bl(4))
  have ids: "nr_id r \<in> fst ` set (below_list db f) \<longleftrightarrow> under f (nr_path r)" if r: "r \<in> set (nd_rows db1)" for r
  proof
    assume "nr_id r \<in> fst ` set (below_list db f)"
    then obtain p where p: "(nr_id r, p) \<in> set (below_list db f)" by force
    with same [OF p r] bl(3) show "under f (nr_path r)" by auto
  next
    assume "under f (nr_path r)"
    with kept [OF r] obtain q where "q \<in> set (nd_rows db)" "nr_id q = nr_id r" "under f (nr_path q)" by auto
    then show "nr_id r \<in> fst ` set (below_list db f)" unfolding bl(3) by (force simp: image_iff)
  qed
  obtain q1 where q1: "q1 \<in> set (nd_rows db1)" "nr_id q1 = nr_id r0" "nr_path q1 = f"
    using there row_at_Some [OF root] by auto
  have rid: "nr_id r = nr_id r0 \<longleftrightarrow> nr_path r = f" if r: "r \<in> set (nd_rows db1)" for r
    using q1 same_id [OF tr1 r q1(1)] same_path [OF tr1 r q1(1)] by auto
  have rows': "nd_rows db' = map (ns_moved_row f t np) (nd_rows db1)"
    using ids rid by (auto simp: db'_def update_row_def at_ids_def ns_moved_row_def moved_path_def)
  have nm: "\<forall>r \<in> set (nd_rows db1). normal env (moved_path f t (nr_path r))"
  proof
    fix r assume r: "r \<in> set (nd_rows db1)"
    show "normal env (moved_path f t (nr_path r))"
    proof (cases "under f (nr_path r)")
      case True
      with kept [OF r] a show ?thesis by (auto simp: move_allowed_def)
    next
      case False
      with r tr1 show ?thesis by (simp add: moved_path_def tree_rows_def)
    qed
  qed
  have "tree_rows env (nd_rows db')"
    unfolding rows' by (rule moved_tree [OF tr1 _ ftu _ nm]) (use free m(6) in \<open>simp_all add: parent_given_def\<close>)
  then have "ns_tree env db'"
    using m(2) rows' by (auto simp: ns_tree_def ns_moved_row_def db'_def update_row_def)
  moreover have "rest_kept db db'" using m(5) by (simp add: db'_def update_row_def rest_kept_def)
  ultimately show ?thesis using that [OF w rows' m(3,4) _ _ m(6)] by blast
qed

end
