(* ===== verification/Namespace_Properties.thy ===== *)
theory Namespace_Properties
  imports Namespace_Move
begin

text \<open>
  The properties of the namespace tree and of placements: the tree is kept by every operation, the
  recursive queries answer the paths, a move is exact, a typed namespace's contract holds where an
  item is placed, and an item has one primary home.
\<close>

section \<open>Moving\<close>

lemma ns_get_normal: "normal env p \<Longrightarrow> ns_get env db p = Inr (map_option nr_id (row_at db p))"
  by (simp add: ns_get_def normal_def)

lemma move_subtree_normal:
  assumes f: "ns_normalize env from = Inr f" and t: "ns_normalize env to = Inr t" and n: "nfc_ok env" and tr: "ns_tree env db"
  shows "move_subtree env meta now from to db =
    (if under f t then Some (Inl (validation (''cannot move '' @ apos @ f @ apos @ '' into itself'')))
     else case row_at db f of
       None \<Rightarrow> Some (Inl (validation (''namespace '' @ apos @ f @ apos @ '' does not exist'')))
     | Some r0 \<Rightarrow>
         if row_at db t \<noteq> None then Some (Inl (validation (''target '' @ apos @ t @ apos @ '' already exists'')))
         else (case move_check env f t (below_list db f) of
             None \<Rightarrow> None
           | Some (Inl e) \<Rightarrow> Some (Inl e)
           | Some (Inr _) \<Rightarrow> move_write env meta now f t (nr_id r0) (below_list db f) db))"
proof -
  have nf: "normal env f" and nt: "normal env t" using normalize_normal [OF n] f t by auto
  have s: "ns_subtree env db f = Some (Inr (below_list db f))"
    using subtree_answer [OF tr, of f f] nf by (simp add: normal_def below_list_def)
  show ?thesis
    by (simp add: move_subtree_def f t ns_get_normal [OF nf] ns_get_normal [OF nt] s under_def split: option.split)
qed

lemma below_under: "tree_rows env (nd_rows db) \<Longrightarrow> \<forall>x \<in> set (below_list db f). under f (snd x)"
  using below_list_facts(3) by fastforce

lemma move_refused:
  assumes n: "nfc_ok env" and tr: "ns_tree env db" and f: "ns_normalize env from = Inr f" and t: "ns_normalize env to = Inr t"
    and a: "\<not> move_allowed env db f t"
  shows "\<exists>e. move_subtree env meta now from to db = Some (Inl e)"
proof -
  have trr: "tree_rows env (nd_rows db)" using tr by (simp add: ns_tree_def)
  have nt: "normal env t" by (rule normalize_normal [OF n t])
  show ?thesis
  proof (cases "under f t \<or> row_at db f = None \<or> row_at db t \<noteq> None")
    case True
    then show ?thesis by (auto simp: move_subtree_normal [OF f t n tr] split: option.split)
  next
    case False
    then obtain r where r: "r \<in> set (nd_rows db)" "under f (nr_path r)" "\<not> normal env (moved_path f t (nr_path r))"
      using a by (auto simp: move_allowed_def row_at_None)
    have np: "normal env (nr_path r)" using trr r(1) by (simp add: tree_rows_def)
    have "(nr_id r, nr_path r) \<in> set (below_list db f)" using r below_list_facts(3) [OF trr] by auto
    then have "\<not> (\<forall>x \<in> set (below_list db f). \<exists>q. ns_normalize env (moved_path f t (snd x)) = Inr q)"
      using moved_normal [OF n np nt r(2)] r(3) by fastforce
    then obtain e where "move_check env f t (below_list db f) = Some (Inl e)"
      using move_check_returns [OF below_under [OF trr]] by blast
    with False show ?thesis by (auto simp: move_subtree_normal [OF f t n tr])
  qed
qed

lemma move_done:
  assumes n: "nfc_ok env" and tr: "ns_tree env db" and f: "ns_normalize env from = Inr f" and t: "ns_normalize env to = Inr t"
    and a: "move_allowed env db f t"
  obtains db' np and db1 :: ns_db and new where "move_subtree env meta now from to db = Some (Inr (db', length (below (nd_rows db) f)))"
    and "nd_rows db' = map (ns_moved_row f t np) (nd_rows db1)" and "map skel (nd_rows db1) = map skel (nd_rows db) @ new"
    and "\<forall>r \<in> set new. \<exists>u. up_of t = Some u \<and> under (nr_path r) u" and "rest_kept db db'" and "ns_tree env db'"
proof -
  have trr: "tree_rows env (nd_rows db)" using tr by (simp add: ns_tree_def)
  have nt: "normal env t" by (rule normalize_normal [OF n t])
  obtain r0 where r0: "row_at db f = Some r0" "row_at db t = None" "\<not> under f t"
    using a by (cases "row_at db f") (auto simp: move_allowed_def row_at_None)
  have "\<forall>x \<in> set (below_list db f). \<exists>q. ns_normalize env (moved_path f t (snd x)) = Inr q"
    using a below_list_facts(3) [OF trr] by (auto simp: move_allowed_def normal_def)
  then have "move_check env f t (below_list db f) = Some (Inr ())"
    using move_check_returns [OF below_under [OF trr]] move_check_refused [OF below_under [OF trr]] by metis
  with r0 have e: "move_subtree env meta now from to db = move_write env meta now f t (nr_id r0) (below_list db f) db"
    by (simp add: move_subtree_normal [OF f t n tr])
  obtain db' np db1 new where "move_write env meta now f t (nr_id r0) (below_list db f) db = Some (Inr (db', length (below (nd_rows db) f)))"
    "nd_rows db' = map (ns_moved_row f t np) (nd_rows db1)" "map skel (nd_rows db1) = map skel (nd_rows db) @ new"
    "\<forall>r \<in> set new. \<exists>u. up_of t = Some u \<and> under (nr_path r) u" "rest_kept db db'" "ns_tree env db'" "parent_given db1 t np"
    by (rule move_write_ok [where meta = meta and now = now, OF n tr nt a r0(1)])
  then show ?thesis using that [of db' np db1 new] e by simp
qed

lemma skel_mem: "map skel rows' = map skel rows @ new \<Longrightarrow> r \<in> set rows \<Longrightarrow> \<exists>r' \<in> set rows'. skel r' = skel r"
  by (metis (no_types, lifting) UnCI image_eqI image_iff list.set_map set_append)

lemma skel_mem_back: "map skel rows' = map skel rows @ new \<Longrightarrow> r' \<in> set rows' \<Longrightarrow> skel r' \<in> set new \<or> (\<exists>r \<in> set rows. skel r' = skel r)"
  by (metis (no_types, lifting) UnE image_eqI image_iff list.set_map set_append)

lemma move_subtree_kept:
  assumes n: "nfc_ok env" and tr: "ns_tree env db" and m: "move_subtree env meta now from to db = Some (Inr (db', k))"
  shows "ns_tree env db' \<and> rest_kept db db' \<and> nr_id ` set (nd_rows db) \<subseteq> nr_id ` set (nd_rows db')"
proof -
  obtain f t where ft: "ns_normalize env from = Inr f" "ns_normalize env to = Inr t"
    using m by (cases "ns_normalize env from"; cases "ns_normalize env to") (simp_all add: move_subtree_def)
  have a: "move_allowed env db f t"
  proof (rule ccontr)
    assume "\<not> move_allowed env db f t"
    from move_refused [OF n tr ft this, of meta now] m show False by simp
  qed
  obtain d np and db1 :: ns_db and new where w: "move_subtree env meta now from to db = Some (Inr (d, length (below (nd_rows db) f)))"
    "nd_rows d = map (ns_moved_row f t np) (nd_rows db1)" "map skel (nd_rows db1) = map skel (nd_rows db) @ new"
    "\<forall>r \<in> set new. \<exists>u. up_of t = Some u \<and> under (nr_path r) u" "rest_kept db d" "ns_tree env d"
    by (rule move_done [where meta = meta and now = now, OF n tr ft a])
  have "nr_id ` set (nd_rows d) = nr_id ` set (nd_rows db1)" by (simp add: w(2) image_image)
  with ids_skel [OF w(3)] w(1,5,6) m show ?thesis by auto
qed

text \<open>A small tree the witnesses use: a typed root, an untyped one with a child, an item of each kind.\<close>

definition ns_demo_env :: ns_env where
  "ns_demo_env = \<lparr>ne_nfc = (\<lambda>s. s), ne_parse = (\<lambda>_. None), ne_print = (\<lambda>_. ''{}''), ne_json_valid = (\<lambda>_. True),
     ne_json_extract = (\<lambda>m _. if m = ''T'' then SV_Text ''tasks'' else SV_Null), ne_json_set = (\<lambda>_ _ _. ''T'')\<rparr>"

definition ns_demo_meta :: write_meta where
  "ns_demo_meta = \<lparr>wm_txn_id = 1, wm_actor = ''cli''\<rparr>"

definition ns_demo_tasks :: ns_row where
  "ns_demo_tasks = \<lparr>nr_id = 1, nr_path = ''tasks'', nr_parent = None, nr_kind = ''logical'', nr_metadata = ''T'', nr_created_at = ''t''\<rparr>"

definition ns_demo :: ns_db where
  "ns_demo = \<lparr>nd_rows = [ns_demo_tasks,
        \<lparr>nr_id = 2, nr_path = ''n'', nr_parent = None, nr_kind = ''logical'', nr_metadata = ''{}'', nr_created_at = ''t''\<rparr>,
        \<lparr>nr_id = 3, nr_path = ''n/a'', nr_parent = Some 2, nr_kind = ''logical'', nr_metadata = ''{}'', nr_created_at = ''t''\<rparr>],
     nd_seq = 3,
     nd_placements = [\<lparr>pl_id = 1, pl_item = 7, pl_ns = 3, pl_role = ''primary'', pl_position = 0, pl_metadata = ''{}''\<rparr>],
     nd_placement_seq = 1,
     nd_items = [\<lparr>ni_id = 7, ni_kind = ''doc'', ni_status = None\<rparr>, \<lparr>ni_id = 8, ni_kind = ''task'', ni_status = Some ''open''\<rparr>],
     nd_containment = [], nd_log = []\<rparr>"

lemma ns_demo_nfc: "nfc_ok ns_demo_env"
  by (simp add: nfc_ok_def ns_demo_env_def)

lemma ns_demo_tree: "ns_tree ns_demo_env ns_demo"
  by code_simp

lemma ns_demo_move:
  obtains db' where "move_subtree ns_demo_env ns_demo_meta ''t2'' ''n'' ''tasks/n'' ns_demo = Some (Inr (db', 2))"
    and "map nr_path (nd_rows db') = [''tasks'', ''tasks/n'', ''tasks/n/a'']"
    and "check_placement ns_demo_env db' 7 3 = Inl (reject_kind ''tasks/n/a'' NT_Tasks ''doc'')"
proof -
  have "case move_subtree ns_demo_env ns_demo_meta ''t2'' ''n'' ''tasks/n'' ns_demo of
      Some (Inr (db', n)) \<Rightarrow> map nr_path (nd_rows db') = [''tasks'', ''tasks/n'', ''tasks/n/a''] \<and> n = 2 \<and>
        check_placement ns_demo_env db' 7 3 = Inl (reject_kind ''tasks/n/a'' NT_Tasks ''doc'')
    | _ \<Rightarrow> False"
    by code_simp
  then show ?thesis using that by (auto split: option.splits sum.splits)
qed

text \<open>
  C24. A move is exact. On a tree \<open>move_subtree\<close> returns: it answers the number of namespaces moved
  when the source exists, the target does not and is not inside the source, and every path it would
  write is one \<open>normalize\<close> accepts, and is refused otherwise. When it answers, the result is a tree
  again, placements and items are untouched, every row keeps its id and kind and has its path
  rewritten when it was in the subtree and left alone otherwise, and any other row is an ancestor
  of the target.
\<close>

theorem move_subtree_meaning:
  assumes "nfc_ok env" and "ns_tree env db"
  shows "\<exists>res. move_subtree env meta now from to db = Some res \<and>
    ((\<exists>x. res = Inr x) \<longleftrightarrow>
      (\<exists>f t. ns_normalize env from = Inr f \<and> ns_normalize env to = Inr t \<and> move_allowed env db f t)) \<and>
    (\<forall>db' n f t. res = Inr (db', n) \<longrightarrow> ns_normalize env from = Inr f \<longrightarrow> ns_normalize env to = Inr t \<longrightarrow>
      ns_tree env db' \<and> rest_kept db db' \<and> n = length (filter (\<lambda>r. under f (nr_path r)) (nd_rows db)) \<and>
      (\<forall>r \<in> set (nd_rows db). \<exists>r' \<in> set (nd_rows db').
         nr_id r' = nr_id r \<and> nr_kind r' = nr_kind r \<and> nr_path r' = moved_path f t (nr_path r)) \<and>
      (\<forall>r' \<in> set (nd_rows db'). under (nr_path r') t \<or>
         (\<exists>r \<in> set (nd_rows db). nr_id r' = nr_id r \<and> nr_path r' = moved_path f t (nr_path r))))"
proof (cases "\<exists>f t. ns_normalize env from = Inr f \<and> ns_normalize env to = Inr t")
  case False
  then have "\<exists>e. move_subtree env meta now from to db = Some (Inl e)"
    by (cases "ns_normalize env from"; cases "ns_normalize env to") (simp_all add: move_subtree_def)
  with False show ?thesis by auto
next
  case True
  then obtain f t where ft: "ns_normalize env from = Inr f" "ns_normalize env to = Inr t" by blast
  show ?thesis
  proof (cases "move_allowed env db f t")
    case False
    with move_refused [OF assms ft False] ft show ?thesis by auto
  next
    case True
    obtain db' np and db1 :: ns_db and new where m: "move_subtree env meta now from to db = Some (Inr (db', length (below (nd_rows db) f)))"
      "nd_rows db' = map (ns_moved_row f t np) (nd_rows db1)" "map skel (nd_rows db1) = map skel (nd_rows db) @ new"
      "\<forall>r \<in> set new. \<exists>u. up_of t = Some u \<and> under (nr_path r) u" "rest_kept db db'" "ns_tree env db'"
      by (rule move_done [where meta = meta and now = now, OF assms ft True])
    have fwd: "\<exists>r' \<in> set (nd_rows db'). nr_id r' = nr_id r \<and> nr_kind r' = nr_kind r \<and> nr_path r' = moved_path f t (nr_path r)"
      if r: "r \<in> set (nd_rows db)" for r
    proof -
      obtain r1 where "r1 \<in> set (nd_rows db1)" "skel r1 = skel r" using skel_mem [OF m(3) r] by blast
      then show ?thesis unfolding m(2) by (metis (no_types) imageI list.set_map ns_moved_row_simps(1,2,4) skel_simps(1,2,4))
    qed
    have bwd: "under (nr_path r') t \<or> (\<exists>r \<in> set (nd_rows db). nr_id r' = nr_id r \<and> nr_path r' = moved_path f t (nr_path r))"
      if r': "r' \<in> set (nd_rows db')" for r'
    proof -
      obtain r1 where r1: "r1 \<in> set (nd_rows db1)" "r' = ns_moved_row f t np r1" using r' unfolding m(2) by auto
      from skel_mem_back [OF m(3) r1(1)] show ?thesis
      proof
        assume "skel r1 \<in> set new"
        with m(4) obtain u where u: "up_of t = Some u" "under (nr_path r1) u" by auto
        have ut: "under u t" using up_of_Some [OF u(1)] by (auto simp: under_iff)
        have "\<not> under f (nr_path r1)" using True under_trans [OF _ under_trans [OF u(2) ut]] by (auto simp: move_allowed_def)
        then have "nr_path r' = nr_path r1" by (simp add: r1(2) moved_path_def)
        with under_trans [OF u(2) ut] show ?thesis by simp
      next
        assume "\<exists>r \<in> set (nd_rows db). skel r1 = skel r"
        then show ?thesis by (metis ns_moved_row_simps(1,2) r1(2) skel_simps(1,2))
      qed
    qed
    show ?thesis
      using m(1,5,6) fwd bwd ft True by (auto simp: below_def)
  qed
qed

theorem move_subtree_meaning_witness:
  "\<exists>db'. move_subtree ns_demo_env ns_demo_meta ''t2'' ''n'' ''tasks/n'' ns_demo = Some (Inr (db', 2)) \<and> ns_tree ns_demo_env db' \<and>
     (\<forall>r \<in> set (nd_rows ns_demo). \<exists>r' \<in> set (nd_rows db').
        nr_id r' = nr_id r \<and> nr_path r' = moved_path ''n'' ''tasks/n'' (nr_path r))"
proof -
  obtain db' where m: "move_subtree ns_demo_env ns_demo_meta ''t2'' ''n'' ''tasks/n'' ns_demo = Some (Inr (db', 2))"
    by (rule ns_demo_move)
  have "ns_normalize ns_demo_env ''n'' = Inr ''n'' \<and> ns_normalize ns_demo_env ''tasks/n'' = Inr ''tasks/n''" by code_simp
  with move_subtree_meaning [OF ns_demo_nfc ns_demo_tree, of ns_demo_meta "''t2''" "''n''" "''tasks/n''"] m
  show ?thesis by fastforce
qed

section \<open>The tree is kept\<close>

definition placements_ok :: "ns_db \<Rightarrow> bool" where
  "placements_ok db \<longleftrightarrow>
     distinct (map pl_id (nd_placements db)) \<and>
     distinct (map (\<lambda>p. (pl_item p, pl_ns p, pl_role p)) (nd_placements db)) \<and>
     (\<forall>p \<in> set (nd_placements db). pl_id p \<le> nd_placement_seq db \<and> pl_ns p \<in> nr_id ` set (nd_rows db))"

lemma placements_ok_grown:
  assumes "placements_ok db" and "rest_kept db db'" and "nr_id ` set (nd_rows db) \<subseteq> nr_id ` set (nd_rows db')"
  shows "placements_ok db'"
  using assms by (auto simp: placements_ok_def rest_kept_def)

text \<open>The writes of the two modules, with anything done to items, containment and the log between them.\<close>

inductive ns_run :: "ns_env \<Rightarrow> ns_db \<Rightarrow> ns_db \<Rightarrow> bool" for env :: ns_env where
  nr_refl: "ns_run env db db"
| nr_other: "ns_run env db0 db \<Longrightarrow> ns_run env db0 (db\<lparr>nd_items := i, nd_containment := c, nd_log := l\<rparr>)"
| nr_ensure: "ns_run env db0 db \<Longrightarrow> ns_ensure env meta now path db = Inr (db', i) \<Longrightarrow> ns_run env db0 db'"
| nr_metadata: "ns_run env db0 db \<Longrightarrow> ns_set_metadata env meta i j db = Inr db' \<Longrightarrow> ns_run env db0 db'"
| nr_type: "ns_run env db0 db \<Longrightarrow> ns_set_type env meta i t db = Inr db' \<Longrightarrow> ns_run env db0 db'"
| nr_clear: "ns_run env db0 db \<Longrightarrow> ns_clear_type env meta i db = Inr db' \<Longrightarrow> ns_run env db0 db'"
| nr_move: "ns_run env db0 db \<Longrightarrow> move_subtree env meta now src dst db = Some (Inr (db', n)) \<Longrightarrow> ns_run env db0 db'"
| nr_remove: "ns_run env db0 db \<Longrightarrow> ns_remove env meta path db = Inr db' \<Longrightarrow> ns_run env db0 db'"
| nr_place: "ns_run env db0 db \<Longrightarrow> ns_place env meta item ns role pos db = Inr db' \<Longrightarrow> ns_run env db0 db'"
| nr_primary: "ns_run env db0 db \<Longrightarrow> ns_set_primary env meta item ns pos db = Inr db' \<Longrightarrow> ns_run env db0 db'"
| nr_unplace: "ns_run env db0 db \<Longrightarrow> ns_unplace meta item ns db = Inr (db', n) \<Longrightarrow> ns_run env db0 db'"

lemma set_metadata_kept:
  assumes "ns_set_metadata env meta i j db = Inr db'"
  shows "map skel (nd_rows db') = map skel (nd_rows db)" and "nd_seq db' = nd_seq db" and "rest_kept db db'"
  using assms
  by (auto simp: ns_set_metadata_def update_row_def ns_log_def result_bind_Inr rest_kept_def skel_def Let_def split: option.splits)

lemma remove_kept:
  assumes "ns_tree env db" and "placements_ok db" and "ns_remove env meta path db = Inr db'"
  shows "ns_tree env db'" and "placements_ok db'"
proof -
  from assms(3) obtain k found where g: "ns_get env db k = Inr found" and
    d: "(case found of None \<Rightarrow> Inl (validation (''namespace '' @ apos @ k @ apos @ '' does not exist''))
       | Some i \<Rightarrow>
           let children = length (filter (\<lambda>r. nr_parent r = Some i) (nd_rows db));
               placed = length (filter (\<lambda>p. pl_ns p = i) (nd_placements db)) in
           if children > 0
           then Inl (validation (''namespace '' @ apos @ k @ apos @ '' has '' @ nat_str children @
             '' child namespace(s); remove or move them first''))
           else if placed > 0
           then Inl (validation (''namespace '' @ apos @ k @ apos @ '' holds '' @ nat_str placed @
             '' item placement(s); move or unplace them first''))
           else (case row_id db i of
               None \<Rightarrow> Inl (Sqlite ''Query returned no rows'')
             | Some r \<Rightarrow> ns_log meta Op_Delete E_Namespaces i (Some (ns_whole_row r)) None
                 (db\<lparr>nd_rows := filter (\<lambda>x. nr_id x \<noteq> i) (nd_rows db)\<rparr>))) = Inr db'"
    unfolding ns_remove_def result_bind_Inr by blast
  from d obtain i log where i: "db' = db\<lparr>nd_rows := filter (\<lambda>x. nr_id x \<noteq> i) (nd_rows db), nd_log := log\<rparr>"
    "filter (\<lambda>r. nr_parent r = Some i) (nd_rows db) = []" "filter (\<lambda>p. pl_ns p = i) (nd_placements db) = []"
    by (cases found) (auto simp: Let_def ns_log_def result_bind_Inr split: if_splits option.splits)
  have child: "nr_parent r \<noteq> Some i" if "r \<in> set (nd_rows db)" for r using i(2) that by (auto simp: filter_empty_conv)
  show "placements_ok db'" using assms(2) i(3) by (force simp: placements_ok_def i(1) filter_empty_conv)
  have "parent_ok (filter (\<lambda>x. nr_id x \<noteq> i) (nd_rows db)) r" if "r \<in> set (nd_rows db)" "parent_ok (nd_rows db) r" for r
    using that(2) child [OF that(1)] by (auto simp: parent_ok_def split: option.splits)
  then show "ns_tree env db'"
    using assms(1) by (auto simp: ns_tree_def tree_rows_def i(1) distinct_map_filter)
qed

lemma delete_placements_kept:
  assumes "delete_placements meta f ps db = Inr db'"
  shows "nd_rows db' = nd_rows db \<and> nd_seq db' = nd_seq db \<and> nd_placement_seq db' = nd_placement_seq db \<and> nd_items db' = nd_items db \<and>
    nd_placements db' = filter (\<lambda>x. pl_id x \<notin> pl_id ` set ps) (nd_placements db)"
  using assms
proof (induction ps arbitrary: db)
  case (Cons p ps)
  then obtain log where "delete_placements meta f ps (db\<lparr>nd_placements := filter (\<lambda>x. pl_id x \<noteq> pl_id p) (nd_placements db), nd_log := log\<rparr>) = Inr db'"
    by (auto simp: result_bind_Inr ns_log_def)
  from Cons.IH [OF this] show ?case by (auto simp: conj_commute intro: filter_cong)
qed simp

lemma place_kept:
  assumes "placements_ok db" and "ns_place env meta item ns role pos db = Inr db'"
  shows "nd_rows db' = nd_rows db" and "nd_seq db' = nd_seq db" and "placements_ok db'"
proof -
  let ?w = "placement_role_as_str role"
  from assms(2) obtain db1 i log where u: "upsert_placement item ns ?w pos db = Inr (db1, i)" "db' = db1\<lparr>nd_log := log\<rparr>"
    by (auto simp: ns_place_def result_bind_Inr ns_log_upsert_def Let_def)
  show "nd_rows db' = nd_rows db" "nd_seq db' = nd_seq db"
    using u by (auto simp: upsert_placement_def Let_def split: option.splits if_splits)
  show "placements_ok db'"
  proof (cases "List.find (is_placement item ns ?w) (nd_placements db)")
    case None
    then have new: "\<not> is_placement item ns ?w p" if "p \<in> set (nd_placements db)" for p using that by (simp add: find_None_iff2)
    from None u have d: "db' = db\<lparr>nd_placements := nd_placements db @ [\<lparr>pl_id = nd_placement_seq db + 1, pl_item = item, pl_ns = ns,
        pl_role = ?w, pl_position = pos, pl_metadata = ''{}''\<rparr>], nd_placement_seq := nd_placement_seq db + 1, nd_log := log\<rparr>"
      and r: "row_id db ns \<noteq> None"
      by (auto simp: upsert_placement_def Let_def split: if_splits)
    from r have "ns \<in> nr_id ` set (nd_rows db)" by (auto simp: row_id_def dest: find_SomeD)
    with assms(1) new show ?thesis by (force simp: placements_ok_def d is_placement_def)
  next
    case (Some p)
    with u have d: "db' = db\<lparr>nd_placements := map (\<lambda>x. if is_placement item ns ?w x then x\<lparr>pl_position := pos\<rparr> else x) (nd_placements db), nd_log := log\<rparr>"
      by (simp add: upsert_placement_def)
    have "map pl_id (nd_placements db') = map pl_id (nd_placements db)"
      "map (\<lambda>p. (pl_item p, pl_ns p, pl_role p)) (nd_placements db') = map (\<lambda>p. (pl_item p, pl_ns p, pl_role p)) (nd_placements db)"
      by (auto simp: d)
    moreover have "\<forall>p \<in> set (nd_placements db'). pl_id p \<le> nd_placement_seq db' \<and> pl_ns p \<in> nr_id ` set (nd_rows db')"
      using assms(1) by (auto simp: placements_ok_def d)
    ultimately show ?thesis using assms(1) by (simp only: placements_ok_def simp_thms)
  qed
qed

lemma placements_ok_filter:
  "placements_ok db \<Longrightarrow> nd_rows db' = nd_rows db \<Longrightarrow> nd_placement_seq db' = nd_placement_seq db \<Longrightarrow>
    nd_placements db' = filter P (nd_placements db) \<Longrightarrow> placements_ok db'"
  by (auto simp: placements_ok_def distinct_map_filter)

lemma ns_tree_rows: "nd_rows db' = nd_rows db \<Longrightarrow> nd_seq db' = nd_seq db \<Longrightarrow> ns_tree env db' = ns_tree env db"
  by (simp add: ns_tree_def)

lemma run_kept:
  assumes "ns_run env db0 db" and n: "nfc_ok env"
  shows "ns_tree env db0 \<Longrightarrow> placements_ok db0 \<Longrightarrow> ns_tree env db \<and> placements_ok db"
  using assms(1)
proof (induction rule: ns_run.induct)
  case (nr_other db0 db i c l)
  then show ?case by (simp add: ns_tree_def placements_ok_def)
next
  case (nr_ensure db0 db meta now path db' i)
  then have t: "ns_tree env db" "placements_ok db" by simp_all
  from nr_ensure.hyps(2) obtain p where p: "ns_normalize env path = Inr p" by (auto simp: ns_ensure_def result_bind_Inr)
  show ?case
    by (rule ensure_ok [OF n t(1) p, of meta now])
      (use nr_ensure.hyps(2) t(2) placements_ok_grown ids_skel in \<open>fastforce\<close>)
next
  case (nr_metadata db0 db meta i j db')
  note k = set_metadata_kept [OF nr_metadata.hyps(2)]
  show ?case
    using nr_metadata ns_tree_cong [OF k(1,2)] placements_ok_grown [OF _ k(3)] ids_skel [of "nd_rows db'" "nd_rows db" "[]"] k(1) by simp
next
  case (nr_type db0 db meta i t db')
  note k = set_metadata_kept [OF nr_type.hyps(2) [unfolded ns_set_type_def]]
  show ?case
    using nr_type ns_tree_cong [OF k(1,2)] placements_ok_grown [OF _ k(3)] ids_skel [of "nd_rows db'" "nd_rows db" "[]"] k(1) by simp
next
  case (nr_clear db0 db meta i db')
  note k = set_metadata_kept [OF nr_clear.hyps(2) [unfolded ns_clear_type_def]]
  show ?case
    using nr_clear ns_tree_cong [OF k(1,2)] placements_ok_grown [OF _ k(3)] ids_skel [of "nd_rows db'" "nd_rows db" "[]"] k(1) by simp
next
  case (nr_move db0 db meta now src dst db' k)
  then have t: "ns_tree env db" "placements_ok db" by simp_all
  from move_subtree_kept [OF n t(1) nr_move.hyps(2)] show ?case
    using t(2) placements_ok_grown by blast
next
  case (nr_remove db0 db meta path db')
  then show ?case using remove_kept by blast
next
  case (nr_place db0 db meta item ns role pos db')
  then show ?case using place_kept ns_tree_rows by metis
next
  case (nr_primary db0 db meta item ns pos db')
  then obtain db1 where d: "delete_placements meta (\<lambda>p. placement_row_json p item (pl_ns p) ''primary'')
      (filter (\<lambda>p. pl_item p = item \<and> pl_role p = ''primary'' \<and> pl_ns p \<noteq> ns) (nd_placements db)) db = Inr db1"
    "ns_place env meta item ns PR_Primary pos db1 = Inr db'"
    by (auto simp: ns_set_primary_def result_bind_Inr Let_def)
  note k = delete_placements_kept [OF d(1)]
  have "placements_ok db1" using k nr_primary placements_ok_filter by blast
  with place_kept [OF this d(2)] k nr_primary ns_tree_rows show ?case by metis
next
  case (nr_unplace db0 db meta item ns db' k)
  then have "delete_placements meta (\<lambda>p. placement_row_json p item ns ''reference'') (filter (is_placement item ns ''reference'') (nd_placements db)) db = Inr db'"
    by (auto simp: ns_unplace_def result_bind_Inr Let_def)
  from delete_placements_kept [OF this] nr_unplace placements_ok_filter ns_tree_rows show ?case by metis
qed simp

text \<open>
  C23. The tree is kept. Whatever namespaces are created, typed, moved and removed and whatever items
  are placed, starting from a tree: ids and paths stay unique and below their marks, every path is
  one \<open>normalize\<close> leaves alone, a row's parent is the row at the path above its own, every
  placement names a namespace that exists, and an item is placed once for each namespace and role.
\<close>

theorem namespace_tree_kept:
  assumes "ns_run env db0 db" and "nfc_ok env" and "ns_tree env db0" and "placements_ok db0"
  shows "distinct (map nr_id (nd_rows db)) \<and> distinct (map nr_path (nd_rows db)) \<and>
    (\<forall>r \<in> set (nd_rows db). nr_id r \<le> nd_seq db \<and> ns_normalize env (nr_path r) = Inr (nr_path r) \<and>
       (case rsplit_once ''/'' (nr_path r) of
          None \<Rightarrow> nr_parent r = None
        | Some (up, _) \<Rightarrow> \<exists>q \<in> set (nd_rows db). nr_path q = up \<and> nr_parent r = Some (nr_id q))) \<and>
    (\<forall>p \<in> set (nd_placements db). pl_ns p \<in> nr_id ` set (nd_rows db)) \<and>
    distinct (map (\<lambda>p. (pl_item p, pl_ns p, pl_role p)) (nd_placements db))"
proof -
  have k: "ns_tree env db" "placements_ok db" using run_kept [OF assms(1,2)] assms(3,4) by simp_all
  then have "\<forall>r \<in> set (nd_rows db). parent_ok (nd_rows db) r" by (simp add: ns_tree_def tree_rows_def)
  then have "\<forall>r \<in> set (nd_rows db). case rsplit_once ''/'' (nr_path r) of
          None \<Rightarrow> nr_parent r = None
        | Some (up, _) \<Rightarrow> \<exists>q \<in> set (nd_rows db). nr_path q = up \<and> nr_parent r = Some (nr_id q)"
    by (auto simp: parent_ok_def up_of_def split: option.splits)
  with k show ?thesis by (simp add: ns_tree_def tree_rows_def normal_def placements_ok_def)
qed

theorem namespace_tree_kept_witness:
  "\<exists>db. ns_run ns_demo_env ns_demo db \<and> map nr_path (nd_rows db) = [''tasks'', ''tasks/n'', ''tasks/n/a''] \<and>
     (\<forall>p \<in> set (nd_placements db). pl_ns p \<in> nr_id ` set (nd_rows db))"
proof -
  obtain db where m: "move_subtree ns_demo_env ns_demo_meta ''t2'' ''n'' ''tasks/n'' ns_demo = Some (Inr (db, 2))"
    "map nr_path (nd_rows db) = [''tasks'', ''tasks/n'', ''tasks/n/a'']"
    by (rule ns_demo_move)
  have r: "ns_run ns_demo_env ns_demo db" by (rule nr_move [OF nr_refl m(1)])
  have "placements_ok ns_demo" by code_simp
  from namespace_tree_kept [OF r ns_demo_nfc ns_demo_tree this]
  have "\<forall>p \<in> set (nd_placements db). pl_ns p \<in> nr_id ` set (nd_rows db)" by (elim conjE)
  with r m(2) show ?thesis by (intro exI [of _ db] conjI)
qed

section \<open>Reading\<close>

lemma leaves_cong:
  "set sub = set sub' \<Longrightarrow> leaves db t k sub = leaves db t k sub'"
  by (simp add: leaves_def)

lemma below_leaf_count:
  assumes n: "nfc_ok env" and tr: "ns_tree env db" and p: "ns_normalize env path = Inr p"
  shows "subtree_leaf_count env db path t = Inr (length (leaves db t (\<lambda>_. True) (below (nd_rows db) p)))"
proof -
  have "set (descend_to (nd_rows db) 256 (filter (\<lambda>r. nr_path r = p) (nd_rows db))) = set (below (nd_rows db) p)"
    using descend_to_below [OF n] tr by (simp add: ns_tree_def)
  from leaves_cong [OF this] p show ?thesis by (simp add: subtree_leaf_count_def)
qed

text \<open>
  C25. The recursive queries answer the paths. On a tree \<open>subtree\<close> always returns, with exactly the
  namespaces whose path is the one asked for or continues it after a slash, in the order of their paths;
  and \<open>subtree_leaf_count\<close> counts each visible item placed in one of those once, its bound on the
  depth never being reached.
\<close>

theorem subtree_by_path:
  assumes "nfc_ok env" and "ns_tree env db" and "ns_normalize env path = Inr p"
  shows "\<exists>xs. ns_subtree env db path = Some (Inr xs) \<and> sorted (map snd xs) \<and> distinct (map snd xs) \<and>
    set xs = {(nr_id r, nr_path r) | r. r \<in> set (nd_rows db) \<and> (nr_path r = p \<or> prefix (p @ ''/'') (nr_path r))} \<and>
    subtree_leaf_count env db path t = Inr (card {pl_item q | q. q \<in> set (nd_placements db) \<and>
      pl_ns q \<in> fst ` set xs \<and>
      (\<exists>i \<in> set (nd_items db). ni_id i = pl_item q \<and>
         (t \<or> ni_status i = None \<or> the (ni_status i) \<notin> set sql_terminal_list))})"
proof -
  have tr: "tree_rows env (nd_rows db)" using assms(2) by (simp add: ns_tree_def)
  have s: "ns_subtree env db path = Some (Inr (below_list db p))"
    using subtree_answer [OF assms(2,3)] by (simp add: below_list_def)
  note bl = below_list_facts [OF tr, of p]
  have ids: "fst ` set (below_list db p) = nr_id ` set (below (nd_rows db) p)"
    by (auto simp: bl(3) below_def image_iff)
  have mem: "(\<exists>n \<in> B. nr_id n = k) \<longleftrightarrow> k \<in> nr_id ` B" for B :: "ns_row set" and k by auto
  have sorted: "sorted (map snd (below_list db p))" by (simp add: below_list_def comp_def)
  have mems: "set (below_list db p) =
      {(nr_id r, nr_path r) | r. r \<in> set (nd_rows db) \<and> (nr_path r = p \<or> prefix (p @ ''/'') (nr_path r))}"
    by (auto simp: bl(3) under_def)
  have items: "set (leaves db t (\<lambda>_. True) (below (nd_rows db) p)) = {pl_item q | q. q \<in> set (nd_placements db) \<and>
      pl_ns q \<in> fst ` set (below_list db p) \<and>
      (\<exists>i \<in> set (nd_items db). ni_id i = pl_item q \<and>
         (t \<or> ni_status i = None \<or> the (ni_status i) \<notin> set sql_terminal_list))}"
    unfolding ids leaves_def set_remdups set_map set_filter setcompr_eq_image mem by simp
  have "length (leaves db t (\<lambda>_. True) (below (nd_rows db) p)) = card (set (leaves db t (\<lambda>_. True) (below (nd_rows db) p)))"
    unfolding leaves_def by (rule distinct_card [symmetric, OF distinct_remdups])
  with below_leaf_count [OF assms, of t] have count: "subtree_leaf_count env db path t =
      Inr (card (set (leaves db t (\<lambda>_. True) (below (nd_rows db) p))))" by simp
  from s sorted bl(2) mems count [unfolded items] show ?thesis by blast
qed

theorem subtree_by_path_witness:
  "\<exists>xs. ns_subtree ns_demo_env ns_demo ''n'' = Some (Inr xs) \<and> fst ` set xs = {2, 3} \<and>
     subtree_leaf_count ns_demo_env ns_demo ''n'' False = Inr 1"
proof -
  have "ns_normalize ns_demo_env ''n'' = Inr ''n''" by code_simp
  from subtree_by_path [OF ns_demo_nfc ns_demo_tree this, of False]
  obtain xs where x: "ns_subtree ns_demo_env ns_demo ''n'' = Some (Inr xs)"
    "subtree_leaf_count ns_demo_env ns_demo ''n'' False = Inr (card {pl_item q | q. q \<in> set (nd_placements ns_demo) \<and>
      pl_ns q \<in> fst ` set xs \<and> (\<exists>i \<in> set (nd_items ns_demo). ni_id i = pl_item q \<and>
         (False \<or> ni_status i = None \<or> the (ni_status i) \<notin> set sql_terminal_list))})"
    by blast
  have "case ns_subtree ns_demo_env ns_demo ''n'' of Some (Inr xs) \<Rightarrow> map fst xs = [2, 3] | _ \<Rightarrow> False" by code_simp
  with x(1) have "map fst xs = [2, 3]" by simp
  then have ids: "fst ` set xs = {2, 3}" by (metis list.set_map set_simps(1,2) empty_set list.simps(15))
  have "{pl_item q | q. q \<in> set (nd_placements ns_demo) \<and> pl_ns q \<in> fst ` set xs \<and>
      (\<exists>i \<in> set (nd_items ns_demo). ni_id i = pl_item q \<and>
         (False \<or> ni_status i = None \<or> the (ni_status i) \<notin> set sql_terminal_list))} = {7}"
    unfolding ids by (auto simp: ns_demo_def)
  with x ids show ?thesis by simp
qed

section \<open>The contract\<close>

lemma utf8_units_Nil [simp]: "utf8_units s = [] \<longleftrightarrow> s = []"
  by (cases s) (auto split: list.splits)

lemma utf8_units_append:
  assumes "utf8_units w = u # us" and "u \<noteq> []" and "\<not> is_cont_byte (hd u)"
  shows "utf8_units (a @ w) = utf8_units a @ utf8_units w"
proof (induction a)
  case (Cons c a)
  then show ?case using assms by (cases "utf8_units a") auto
qed simp

lemma char_count_longer: "char_count (a @ CHR ''/'' # y) > char_count a"
proof -
  obtain u us where w: "utf8_units (CHR ''/'' # y) = u # us"
    by (cases "utf8_units (CHR ''/'' # y)") (auto split: list.splits if_splits)
  then have "u \<noteq> [] \<and> hd u = CHR ''/''" by (auto split: list.splits if_splits)
  then have "utf8_units (a @ CHR ''/'' # y) = utf8_units a @ (u # us)"
    using utf8_units_append [OF w] w by (simp add: is_cont_byte_def)
  then show ?thesis by (simp add: char_count_def)
qed

lemma ancestor_paths_under: "q \<in> set (ancestor_paths p) \<longleftrightarrow> under q p"
proof (induction p rule: ancestor_paths.induct)
  case (1 p)
  show ?case
  proof (cases "rsplit_once ''/'' p")
    case None
    then have "up_of p = None" by (simp add: up_of_def)
    then have "under q p \<longleftrightarrow> q = p" using under_up [of q p] by (auto simp: under_iff)
    with None show ?thesis by (subst ancestor_paths.simps) simp
  next
    case (Some ub)
    obtain u b where ub: "ub = (u, b)" by (cases ub)
    with Some have u: "up_of p = Some u" by (simp add: up_of_def)
    have "under u p" using up_of_Some [OF u] by (auto simp: under_iff)
    then have "under q p \<longleftrightarrow> q = p \<or> under q u"
      using under_up [of q p] u under_trans [of q u p] by (auto simp: under_iff [of p p])
    with 1 [OF Some ub [symmetric]] Some ub show ?thesis by (subst ancestor_paths.simps) simp
  qed
qed

lemma under_chain:
  assumes "under a p" and "under b p"
  shows "under a b \<or> under b a"
proof -
  have up: "prefix (x @ ''/'') (p @ ''/'')" if "under x p" for x using that by (auto simp: under_iff)
  from prefix_same_cases [OF up [OF assms(1)] up [OF assms(2)]]
  show ?thesis
  proof
    assume "prefix (a @ ''/'') (b @ ''/'')"
    then show ?thesis by (auto simp: under_def)
  next
    assume "prefix (b @ ''/'') (a @ ''/'')"
    then show ?thesis by (auto simp: under_def)
  qed
qed

lemma sort_key_least:
  "sort_key f xs = y # ys \<Longrightarrow> y \<in> set xs \<and> (\<forall>x \<in> set xs. f y \<le> f x)"
  by (metis list.set_intros(1) set_sort sorted_simps(2) list.simps(9) sorted_sort_key set_ConsD order_refl imageI list.set_map)

lemma effective_type_cases:
  assumes "tree_rows env (nd_rows db)" and "ns_normalize env path = Inr p"
  shows "(\<forall>r \<in> set (nd_rows db). under (nr_path r) p \<longrightarrow> type_expr env (nr_metadata r) = SV_Null) \<and> effective_type env db path = Inr None \<or>
    (\<exists>r \<in> set (nd_rows db). under (nr_path r) p \<and> type_expr env (nr_metadata r) \<noteq> SV_Null \<and>
       (\<forall>q \<in> set (nd_rows db). under (nr_path q) p \<and> type_expr env (nr_metadata q) \<noteq> SV_Null \<longrightarrow> under (nr_path q) (nr_path r)) \<and>
       effective_type env db path = (case type_expr env (nr_metadata r) of
         SV_Text t \<Rightarrow> Inr (Some (nr_path r, t)) | _ \<Rightarrow> Inl (Sqlite ''Invalid column type'')))"
proof -
  define typed where "typed = filter (\<lambda>r. nr_path r \<in> set (ancestor_paths p) \<and> type_expr env (nr_metadata r) \<noteq> SV_Null) (nd_rows db)"
  have e: "effective_type env db path = (case sort_key (\<lambda>r. - int (char_count (nr_path r))) typed of
      [] \<Rightarrow> Inr None | r # _ \<Rightarrow> (case type_expr env (nr_metadata r) of
         SV_Text t \<Rightarrow> Inr (Some (nr_path r, t)) | _ \<Rightarrow> Inl (Sqlite ''Invalid column type'')))"
    using assms(2) by (simp add: effective_type_def typed_def)
  have mem: "r \<in> set typed \<longleftrightarrow> r \<in> set (nd_rows db) \<and> under (nr_path r) p \<and> type_expr env (nr_metadata r) \<noteq> SV_Null" for r
    by (auto simp: typed_def ancestor_paths_under)
  show ?thesis
  proof (cases "sort_key (\<lambda>r. - int (char_count (nr_path r))) typed")
    case Nil
    then have "typed = []" by (metis set_empty set_sort)
    with Nil e mem show ?thesis by auto
  next
    case (Cons r rs)
    from sort_key_least [OF this] have r: "r \<in> set typed" "\<forall>q \<in> set typed. char_count (nr_path q) \<le> char_count (nr_path r)" by auto
    have "under (nr_path q) (nr_path r)" if q: "q \<in> set typed" for q
    proof -
      have "under (nr_path q) (nr_path r) \<or> under (nr_path r) (nr_path q)" using under_chain q r(1) mem by blast
      then show ?thesis
        using r(2) q char_count_longer [of "nr_path r"] by (auto simp: under_iff not_less [symmetric])
    qed
    with Cons e r(1) mem show ?thesis by (intro disjI2 bexI [of _ r]) auto
  qed
qed

lemma filter_one:
  assumes "distinct xs" and "p \<in> set xs" and "\<And>q. q \<in> set xs \<Longrightarrow> P q \<longleftrightarrow> q = p"
  shows "filter P xs = [p]"
proof -
  have "filter P xs = filter (\<lambda>q. q = p) xs" using assms(3) by (rule filter_cong [OF refl])
  also have "\<dots> = [p]" using assms(1,2) by (induction xs) (auto simp: filter_empty_conv)
  finally show ?thesis .
qed

lemma filter_through:
  "filter P xs = filter P ys \<Longrightarrow> filter (\<lambda>x. P x \<and> Q x) xs = filter (\<lambda>x. P x \<and> Q x) ys"
  by (drule arg_cong [where f = "filter Q"]) (simp add: conj_commute)

lemma placed_there:
  assumes "upsert_placement item ns w pos db = Inr (db', i)"
  shows "(\<exists>p \<in> set (nd_placements db'). is_placement item ns w p \<and> pl_position p = pos) \<and>
    filter (\<lambda>p. \<not> is_placement item ns w p) (nd_placements db') = filter (\<lambda>p. \<not> is_placement item ns w p) (nd_placements db)"
proof (cases "List.find (is_placement item ns w) (nd_placements db)")
  case None
  with assms show ?thesis by (auto simp: upsert_placement_def Let_def is_placement_def split: if_splits)
next
  case (Some p)
  then have p: "p \<in> set (nd_placements db)" "is_placement item ns w p" by (auto dest: find_SomeD)
  from Some assms have d: "nd_placements db' =
      map (\<lambda>x. if is_placement item ns w x then x\<lparr>pl_position := pos\<rparr> else x) (nd_placements db)"
    by (auto simp: upsert_placement_def)
  have "filter (\<lambda>p. \<not> is_placement item ns w p) (map (\<lambda>x. if is_placement item ns w x then x\<lparr>pl_position := pos\<rparr> else x) xs) =
      filter (\<lambda>p. \<not> is_placement item ns w p) xs" for xs
    by (induction xs) (auto simp: is_placement_def)
  note f = this
  have m: "p\<lparr>pl_position := pos\<rparr> \<in> set (nd_placements db')" unfolding d using p by force
  have i: "is_placement item ns w (p\<lparr>pl_position := pos\<rparr>)" using p(2) by (simp add: is_placement_def)
  show ?thesis by (intro conjI bexI [OF _ m]) (simp_all add: i d f)
qed

text \<open>
  C26. A typed namespace's contract holds where an item is placed. When placing an item answers, and
  the nearest typed namespace at or above the one it is placed under is \<open>q\<close>, then the type recorded on
  \<open>q\<close> is a registered one and accepts the item's kind; the placement is there, at its position, and no
  other placement was touched.
\<close>

theorem placement_contract:
  assumes "nfc_ok env" and "ns_tree env db" and "ns_place env meta item ns role pos db = Inr db'"
    and "r \<in> set (nd_rows db)" and "nr_id r = ns" and "List.find (\<lambda>i. ni_id i = item) (nd_items db) = Some i"
    and "q \<in> set (nd_rows db)" and "nr_path q = nr_path r \<or> prefix (nr_path q @ ''/'') (nr_path r)"
    and "type_expr env (nr_metadata q) \<noteq> SV_Null"
    and "\<forall>x \<in> set (nd_rows db). nr_path x \<noteq> nr_path q \<and> prefix (nr_path q @ ''/'') (nr_path x) \<and>
      (nr_path x = nr_path r \<or> prefix (nr_path x @ ''/'') (nr_path r)) \<longrightarrow> type_expr env (nr_metadata x) = SV_Null"
  shows "(\<exists>ty. type_expr env (nr_metadata q) = SV_Text (ns_type_name ty) \<and> accepts_kind ty (ni_kind i)) \<and>
    (\<exists>p \<in> set (nd_placements db'). is_placement item ns (placement_role_as_str role) p \<and> pl_position p = pos) \<and>
    filter (\<lambda>p. \<not> is_placement item ns (placement_role_as_str role) p) (nd_placements db') =
      filter (\<lambda>p. \<not> is_placement item ns (placement_role_as_str role) p) (nd_placements db)"
proof -
  have tr: "tree_rows env (nd_rows db)" using assms(2) by (simp add: ns_tree_def)
  have nr: "ns_normalize env (nr_path r) = Inr (nr_path r)" using tr assms(4) by (simp add: tree_rows_def normal_def)
  let ?w = "placement_role_as_str role"
  from assms(3) obtain db1 k log where c: "check_placement env db item ns = Inr ()"
    and u: "upsert_placement item ns ?w pos db = Inr (db1, k)" "db' = db1\<lparr>nd_log := log\<rparr>"
    by (auto simp: ns_place_def result_bind_Inr ns_log_upsert_def Let_def)
  have "row_id db ns = Some r" using row_id_tree [OF tr assms(4)] assms(5) by simp
  with c assms(6) have ok: "\<exists>found. for_namespace env db (nr_path r) = Inr found \<and>
      (\<forall>s ty. found = Some (s, ty) \<longrightarrow> accepts_kind ty (ni_kind i))"
    by (cases "for_namespace env db (nr_path r)") (auto simp: check_placement_def split: option.splits if_splits prod.splits)
  have uq: "under (nr_path q) (nr_path r)" using assms(8) by (auto simp: under_def)
  from effective_type_cases [OF tr nr] obtain q' where q': "q' \<in> set (nd_rows db)" "under (nr_path q') (nr_path r)"
    "type_expr env (nr_metadata q') \<noteq> SV_Null" "under (nr_path q) (nr_path q')"
    "effective_type env db (nr_path r) = (case type_expr env (nr_metadata q') of
       SV_Text t \<Rightarrow> Inr (Some (nr_path q', t)) | _ \<Rightarrow> Inl (Sqlite ''Invalid column type''))"
    using assms(7,9) uq by blast
  have "nr_path q' = nr_path q"
  proof (rule ccontr)
    assume "nr_path q' \<noteq> nr_path q"
    with q' assms(10) show False by (auto simp: under_def)
  qed
  with same_path [OF tr q'(1) assms(7)] have "q' = q" by simp
  with q'(5) ok have "\<exists>ty. type_expr env (nr_metadata q) = SV_Text (ns_type_name ty) \<and> accepts_kind ty (ni_kind i)"
    by (auto simp: for_namespace_def result_bind_Inr ns_resolve_Inr split: sql_value.splits)
  moreover have "(\<exists>p \<in> set (nd_placements db'). is_placement item ns ?w p \<and> pl_position p = pos) \<and>
    filter (\<lambda>p. \<not> is_placement item ns ?w p) (nd_placements db') = filter (\<lambda>p. \<not> is_placement item ns ?w p) (nd_placements db)"
    using placed_there [OF u(1)] u(2) by simp
  ultimately show ?thesis by simp
qed

theorem placement_contract_witness:
  "\<exists>db'. ns_place ns_demo_env ns_demo_meta 8 1 PR_Primary 4 ns_demo = Inr db' \<and>
     (\<exists>p \<in> set (nd_placements db'). is_placement 8 1 ''primary'' p \<and> pl_position p = 4) \<and>
     (\<exists>ty. type_expr ns_demo_env (nr_metadata ns_demo_tasks) = SV_Text (ns_type_name ty) \<and> accepts_kind ty ''task'')"
proof -
  have "case ns_place ns_demo_env ns_demo_meta 8 1 PR_Primary 4 ns_demo of Inl _ \<Rightarrow> False | Inr _ \<Rightarrow> True" by code_simp
  then obtain db' where p: "ns_place ns_demo_env ns_demo_meta 8 1 PR_Primary 4 ns_demo = Inr db'"
    by (auto split: sum.splits)
  have i: "List.find (\<lambda>i. ni_id i = 8) (nd_items ns_demo) = Some \<lparr>ni_id = 8, ni_kind = ''task'', ni_status = Some ''open''\<rparr>"
    by code_simp
  have r: "ns_demo_tasks \<in> set (nd_rows ns_demo)" "nr_id ns_demo_tasks = 1" by (simp_all add: ns_demo_def ns_demo_tasks_def)
  have t: "type_expr ns_demo_env (nr_metadata ns_demo_tasks) \<noteq> SV_Null" by code_simp
  have d: "\<forall>x \<in> set (nd_rows ns_demo). nr_path x \<noteq> nr_path ns_demo_tasks \<and> prefix (nr_path ns_demo_tasks @ ''/'') (nr_path x) \<and>
      (nr_path x = nr_path ns_demo_tasks \<or> prefix (nr_path x @ ''/'') (nr_path ns_demo_tasks)) \<longrightarrow> type_expr ns_demo_env (nr_metadata x) = SV_Null"
    by code_simp
  from placement_contract [OF ns_demo_nfc ns_demo_tree p r i r(1) _ t d] p show ?thesis by simp
qed

text \<open>
  The contract is one of placing alone: moving a namespace of documents under the \<open>tasks\<close> root is
  not refused, and leaves a placement there that \<open>check_placement\<close> would refuse.
\<close>

lemma move_escapes_contract:
  "check_placement ns_demo_env ns_demo 7 3 = Inr () \<and>
   (\<exists>db'. move_subtree ns_demo_env ns_demo_meta ''t2'' ''n'' ''tasks/n'' ns_demo = Some (Inr (db', 2)) \<and>
      check_placement ns_demo_env db' 7 3 = Inl (reject_kind ''tasks/n/a'' NT_Tasks ''doc''))"
proof
  show "check_placement ns_demo_env ns_demo 7 3 = Inr ()" by code_simp
qed (rule ns_demo_move, blast)

text \<open>
  One primary home. When \<open>set_primary\<close> answers, the item has exactly one primary placement,
  under the namespace and at the position given; its mirrors and every other item's placements are
  as they were.
\<close>

theorem set_primary_sole:
  assumes "placements_ok db" and "ns_set_primary env meta item ns pos db = Inr db'"
  shows "(\<exists>p. filter (\<lambda>p. pl_item p = item \<and> pl_role p = ''primary'') (nd_placements db') = [p] \<and> pl_ns p = ns \<and> pl_position p = pos) \<and>
    filter (\<lambda>p. pl_item p \<noteq> item \<or> pl_role p \<noteq> ''primary'') (nd_placements db') =
      filter (\<lambda>p. pl_item p \<noteq> item \<or> pl_role p \<noteq> ''primary'') (nd_placements db)"
proof -
  let ?stale = "filter (\<lambda>p. pl_item p = item \<and> pl_role p = ''primary'' \<and> pl_ns p \<noteq> ns) (nd_placements db)"
  obtain db1 where d: "delete_placements meta (\<lambda>p. placement_row_json p item (pl_ns p) ''primary'') ?stale db = Inr db1"
    "ns_place env meta item ns PR_Primary pos db1 = Inr db'"
    using assms(2) by (auto simp: ns_set_primary_def result_bind_Inr Let_def)
  note k = delete_placements_kept [OF d(1)]
  have inj: "p = q" if "p \<in> set (nd_placements db)" "q \<in> set (nd_placements db)" "pl_id p = pl_id q" for p q
    using assms(1) that by (auto simp: placements_ok_def distinct_map dest: inj_onD)
  have f1: "nd_placements db1 = filter (\<lambda>p. \<not> (pl_item p = item \<and> pl_role p = ''primary'' \<and> pl_ns p \<noteq> ns)) (nd_placements db)"
    using k inj by (auto intro!: filter_cong)
  have ok1: "placements_ok db1" using k assms(1) placements_ok_filter by blast
  obtain log i db2 where u: "upsert_placement item ns ''primary'' pos db1 = Inr (db2, i)" "nd_placements db' = nd_placements db2"
    using d(2) by (auto simp: ns_place_def result_bind_Inr ns_log_upsert_def Let_def)
  from placed_there [OF u(1)] u(2) have pl: "\<exists>p \<in> set (nd_placements db'). is_placement item ns ''primary'' p \<and> pl_position p = pos"
    and other: "filter (\<lambda>p. \<not> is_placement item ns ''primary'' p) (nd_placements db') = filter (\<lambda>p. \<not> is_placement item ns ''primary'' p) (nd_placements db1)"
    by simp_all
  have ok': "placements_ok db'" by (rule place_kept(3) [OF ok1 d(2)])
  obtain p where p: "p \<in> set (nd_placements db')" "is_placement item ns ''primary'' p" "pl_position p = pos" using pl by blast
  have prim: "pl_item q = item \<and> pl_role q = ''primary'' \<longleftrightarrow> q = p" if q: "q \<in> set (nd_placements db')" for q
  proof
    assume h: "pl_item q = item \<and> pl_role q = ''primary''"
    have "pl_ns q = ns"
    proof (rule ccontr)
      assume "pl_ns q \<noteq> ns"
      then have "q \<in> set (filter (\<lambda>p. \<not> is_placement item ns ''primary'' p) (nd_placements db'))" using q by (simp add: is_placement_def)
      then have "q \<in> set (nd_placements db1)" unfolding other by simp
      with h \<open>pl_ns q \<noteq> ns\<close> show False by (simp add: f1)
    qed
    with h p q ok' show "q = p"
      by (auto simp: placements_ok_def is_placement_def distinct_map dest: inj_onD [where x = q and y = p])
  qed (use p in \<open>simp add: is_placement_def\<close>)
  have "distinct (nd_placements db')" using ok' by (auto simp: placements_ok_def distinct_map)
  from filter_one [of _ _ "\<lambda>p. pl_item p = item \<and> pl_role p = ''primary''", OF this p(1) prim]
  have "filter (\<lambda>p. pl_item p = item \<and> pl_role p = ''primary'') (nd_placements db') = [p]" .
  moreover have "filter (\<lambda>p. pl_item p \<noteq> item \<or> pl_role p \<noteq> ''primary'') (nd_placements db') =
      filter (\<lambda>p. pl_item p \<noteq> item \<or> pl_role p \<noteq> ''primary'') (nd_placements db1)"
  proof -
    have "(\<lambda>p. \<not> is_placement item ns ''primary'' p \<and> (pl_item p \<noteq> item \<or> pl_role p \<noteq> ''primary'')) =
        (\<lambda>p. pl_item p \<noteq> item \<or> pl_role p \<noteq> ''primary'')"
      by (rule ext) (auto simp: is_placement_def)
    with filter_through [OF other, of "\<lambda>p. pl_item p \<noteq> item \<or> pl_role p \<noteq> ''primary''"] show ?thesis by simp
  qed
  moreover have "filter (\<lambda>p. pl_item p \<noteq> item \<or> pl_role p \<noteq> ''primary'') (nd_placements db1) =
      filter (\<lambda>p. pl_item p \<noteq> item \<or> pl_role p \<noteq> ''primary'') (nd_placements db)"
    unfolding f1 filter_filter by (rule filter_cong [OF refl]) blast
  ultimately show ?thesis using p by (auto simp: is_placement_def)
qed

theorem set_primary_sole_witness:
  "\<exists>db' p. ns_set_primary ns_demo_env ns_demo_meta 7 2 5 ns_demo = Inr db' \<and>
     filter (\<lambda>p. pl_item p = 7 \<and> pl_role p = ''primary'') (nd_placements db') = [p] \<and> pl_ns p = 2 \<and> pl_position p = 5"
proof -
  have "case ns_set_primary ns_demo_env ns_demo_meta 7 2 5 ns_demo of Inl _ \<Rightarrow> False | Inr _ \<Rightarrow> True" by code_simp
  then obtain db' where p: "ns_set_primary ns_demo_env ns_demo_meta 7 2 5 ns_demo = Inr db'"
    by (auto split: sum.splits)
  have "placements_ok ns_demo" by code_simp
  from set_primary_sole [OF this p] p show ?thesis by blast
qed

end
