(* ===== verification/Graph_Undo.thy ===== *)
theory Graph_Undo
  imports Core_Graph
begin

text \<open>
  The rows \<open>undo\<close> puts back in the graph's tables when it restores a removed item, from
  \<open>crates/jkb-core/src/undo.rs\<close> (\<open>restore_edge\<close>, the containment of \<open>restore_children\<close>). They are
  inserts of its own, which no cycle check guards: the lemmas say exactly when one closes a
  cycle, and that a sequence of writes undone out of order can. A number that is not an
  integer and the text of a JSON value are arguments.
\<close>

section \<open>Reading a snapshot\<close>

fun json_as_i64 :: "json \<Rightarrow> int option" where
  "json_as_i64 (JNum n) = (if - (2 ^ 63) \<le> n \<and> n < 2 ^ 63 then Some n else None)"
| "json_as_i64 _ = None"

fun json_as_str :: "json \<Rightarrow> string option" where
  "json_as_str (JStr s) = Some s"
| "json_as_str _ = None"

definition get_i64 :: "string \<Rightarrow> json \<Rightarrow> int option" where
  "get_i64 k j = Option.bind (json_get k j) json_as_i64"

definition get_str :: "string \<Rightarrow> json \<Rightarrow> string option" where
  "get_str k j = Option.bind (json_get k j) json_as_str"

definition snapshot_row_id :: "(json \<Rightarrow> string) \<Rightarrow> string \<Rightarrow> json \<Rightarrow> int option core_result" where
  "snapshot_row_id render what snap =
     (case json_get ''id'' snap of
        None \<Rightarrow> Inr None
      | Some v \<Rightarrow>
          if v = JNull then Inr None
          else case json_as_i64 v of
            Some i \<Rightarrow> Inr (Some i)
          | None \<Rightarrow> Inl (validation (what @ '' in this item snapshot logs `id` as '' @ render v @ '', which is not a row id'')))"

section \<open>Edges\<close>

definition constraint_failed :: "string \<Rightarrow> string \<Rightarrow> core_error" where
  "constraint_failed kind what = Sqlite (kind @ '' constraint failed: '' @ what)"

text \<open>The id a restored edge takes: the logged one unless a row holds it, a fresh one otherwise.\<close>

definition restored_edge_id :: "'w graph_db \<Rightarrow> int option \<Rightarrow> int" where
  "restored_edge_id db logged =
     (case logged of
        Some i \<Rightarrow> if i \<in> ed_id ` set (gr_edges db) then gr_edges_seq db + 1 else i
      | None \<Rightarrow> gr_edges_seq db + 1)"

text \<open>The insert itself, both endpoints being there: the row's NOT NULL and UNIQUE constraints, and its id.\<close>

definition insert_edge ::
  "(json \<Rightarrow> 'w option) \<Rightarrow> 'w graph_db \<Rightarrow> int option \<Rightarrow> int \<Rightarrow> int \<Rightarrow> json \<Rightarrow> ('w graph_db \<times> nat) core_result" where
  "insert_edge as_f64 db logged src dst edge =
     (case (get_str ''type'' edge, get_str ''created_at'' edge) of
        (None, _) \<Rightarrow> Inl (constraint_failed ''NOT NULL'' ''edges.type'')
      | (_, None) \<Rightarrow> Inl (constraint_failed ''NOT NULL'' ''edges.created_at'')
      | (Some ty, Some created) \<Rightarrow>
          if (src, dst, ty) \<in> edge_key ` set (gr_edges db)
          then Inl (constraint_failed ''UNIQUE'' ''edges.src_item_id, edges.dst_item_id, edges.type'')
          else
            let i = restored_edge_id db logged in
            Inr (db\<lparr>gr_edges := gr_edges db @
                  [\<lparr>ed_id = i, ed_src = src, ed_dst = dst, ed_type = ty,
                    ed_props = (case get_str ''props'' edge of None \<Rightarrow> ''{}'' | Some p \<Rightarrow> p),
                    ed_weight = Option.bind (json_get ''weight'' edge) as_f64, ed_created_at = created\<rparr>],
                gr_edges_seq := max (gr_edges_seq db) i\<rparr>, 1))"

definition restore_edge ::
  "(json \<Rightarrow> string) \<Rightarrow> (json \<Rightarrow> 'w option) \<Rightarrow> 'w graph_db \<Rightarrow> json \<Rightarrow> ('w graph_db \<times> nat) core_result" where
  "restore_edge render as_f64 db edge =
     result_bind (snapshot_row_id render ''an edge'' edge) (\<lambda>logged.
       case (get_i64 ''src'' edge, get_i64 ''dst'' edge) of
         (Some src, Some dst) \<Rightarrow>
           if has_item db src \<and> has_item db dst then insert_edge as_f64 db logged src dst edge else Inr (db, 0)
       | _ \<Rightarrow> Inr (db, 0))"

section \<open>Containment\<close>

definition insert_contain :: "'w graph_db \<Rightarrow> int \<Rightarrow> int \<Rightarrow> json \<Rightarrow> ('w graph_db \<times> nat) core_result" where
  "insert_contain db child parent c =
     (if child = parent then Inl (constraint_failed ''CHECK'' ''child_item_id != parent_item_id'')
      else if child \<in> ct_child ` set (gr_containment db)
      then Inl (constraint_failed ''UNIQUE'' ''containment.child_item_id'')
      else if \<not> has_item db child \<or> \<not> has_item db parent then Inl fk_failed
      else Inr (db\<lparr>gr_containment := gr_containment db @
             [\<lparr>ct_child = child, ct_parent = parent,
               ct_position = (case get_i64 ''position'' c of Some p \<Rightarrow> p | None \<Rightarrow> 0)\<rparr>]\<rparr>, 1))"

definition restore_contained_by :: "'w graph_db \<Rightarrow> int \<Rightarrow> json \<Rightarrow> ('w graph_db \<times> nat) core_result" where
  "restore_contained_by db i c =
     (case get_i64 ''parent_item_id'' c of
        Some parent \<Rightarrow> if has_item db parent then insert_contain db i parent c else Inr (db, 0)
      | None \<Rightarrow> Inr (db, 0))"

definition restore_contains :: "'w graph_db \<Rightarrow> int \<Rightarrow> json \<Rightarrow> ('w graph_db \<times> nat) core_result" where
  "restore_contains db i c =
     (case get_i64 ''child_item_id'' c of
        Some child \<Rightarrow> if has_item db child then insert_contain db child i c else Inr (db, 0)
      | None \<Rightarrow> Inr (db, 0))"

section \<open>When a restored row closes a cycle\<close>

lemma insert_edge_cases:
  assumes "insert_edge as_f64 db logged src dst edge = Inr (db', n)"
  shows "n = 1 \<and> (\<exists>r s. db' = db\<lparr>gr_edges := gr_edges db @ [r], gr_edges_seq := s\<rparr> \<and>
       edge_key r \<notin> edge_key ` set (gr_edges db) \<and> ed_src r = src \<and> ed_dst r = dst)"
proof -
  from assms obtain ty created where "get_str ''type'' edge = Some ty" "get_str ''created_at'' edge = Some created"
    by (auto simp: insert_edge_def split: option.splits)
  with assms have n: "n = 1" "(src, dst, ty) \<notin> edge_key ` set (gr_edges db)"
    and d: "\<exists>i ps w. db' = db\<lparr>gr_edges := gr_edges db @
        [\<lparr>ed_id = i, ed_src = src, ed_dst = dst, ed_type = ty, ed_props = ps, ed_weight = w, ed_created_at = created\<rparr>],
      gr_edges_seq := max (gr_edges_seq db) i\<rparr>"
    by (auto simp: insert_edge_def Let_def split: if_splits)
  from d obtain i ps w where "db' = db\<lparr>gr_edges := gr_edges db @
        [\<lparr>ed_id = i, ed_src = src, ed_dst = dst, ed_type = ty, ed_props = ps, ed_weight = w, ed_created_at = created\<rparr>],
      gr_edges_seq := max (gr_edges_seq db) i\<rparr>" by blast
  moreover have "edge_key \<lparr>ed_id = i, ed_src = src, ed_dst = dst, ed_type = ty, ed_props = ps, ed_weight = w,
      ed_created_at = created\<rparr> = (src, dst, ty)" by (simp add: edge_key_def)
  ultimately show ?thesis using n by (metis edge_row.select_convs(2,3))
qed

lemma restore_edge_cases:
  assumes "restore_edge render as_f64 db edge = Inr (db', n)"
  shows "(n = 0 \<and> db' = db) \<or>
    (n = 1 \<and> (\<exists>r s. db' = db\<lparr>gr_edges := gr_edges db @ [r], gr_edges_seq := s\<rparr> \<and>
       edge_key r \<notin> edge_key ` set (gr_edges db) \<and> has_item db (ed_src r) \<and> has_item db (ed_dst r)))"
proof -
  from assms consider "n = 0" "db' = db"
    | logged src dst where "has_item db src" "has_item db dst" "insert_edge as_f64 db logged src dst edge = Inr (db', n)"
    by (cases "get_i64 ''src'' edge"; cases "get_i64 ''dst'' edge")
       (auto simp: restore_edge_def result_bind_Inr split: if_splits)
  then show ?thesis by cases (blast dest: insert_edge_cases)+
qed

lemma edge_pairs_append:
  "set (edge_pairs (db\<lparr>gr_edges := gr_edges db @ [r], gr_edges_seq := s\<rparr>) et) =
     (if ed_type r = edge_type_as_str et then insert (ed_src r, ed_dst r) (set (edge_pairs db et)) else set (edge_pairs db et))"
  by (simp add: edge_pairs_def)

text \<open>
  A restored edge leaves its type acyclic exactly when \<open>link\<close> would not have refused it there.
\<close>

theorem restored_edge_acyclic:
  assumes "graph_ok db" and "restore_edge render as_f64 db edge = Inr (db', 1)" and "et \<in> {E_DependsOn, E_ParentOf}"
  shows "\<exists>r. gr_edges db' = gr_edges db @ [r] \<and>
    (acyclic (set (edge_pairs db' et)) \<longleftrightarrow>
       \<not> (ed_type r = edge_type_as_str et \<and> closes_cycle db (ed_src r) (ed_dst r) et))"
proof -
  from restore_edge_cases [OF assms(2)] obtain r s where
    db': "db' = db\<lparr>gr_edges := gr_edges db @ [r], gr_edges_seq := s\<rparr>" by auto
  have "acyclic (set (edge_pairs db et))" using assms(1,3) by (auto simp: graph_ok_def)
  then have "acyclic (set (edge_pairs db' et)) \<longleftrightarrow>
      \<not> (ed_type r = edge_type_as_str et \<and> closes_cycle db (ed_src r) (ed_dst r) et)"
    using closes_cycle_acyclic [OF assms(1)] assms(3) by (auto simp: db' edge_pairs_append)
  then show ?thesis using db' by auto
qed

text \<open>
  Out of order it does close one. Items 1, 2 and 3 with edges from 1 to 2 and from 3 to 1; item 1 is
  removed, 2 is linked to 3, and the removal is undone.
\<close>

definition tri_items :: "nat graph_db" where
  "tri_items = empty_graph\<lparr>gr_items := [(1, ''a''), (2, ''b''), (3, ''c'')]\<rparr>"

definition tri_link :: "nat graph_db \<Rightarrow> int \<Rightarrow> int \<Rightarrow> nat graph_db" where
  "tri_link db src dst =
     (case link_weighted demo_weights ''t'' db \<lparr>wm_txn_id = 1, wm_actor = ''cli''\<rparr> src dst E_DependsOn None None of
        Inr (db', _) \<Rightarrow> db' | Inl _ \<Rightarrow> db)"

definition tri_removed :: "nat graph_db" where
  "tri_removed = tri_link ((cascade_item (tri_link (tri_link tri_items 1 2) 3 1) 1)\<lparr>gr_log := []\<rparr>) 2 3"

definition tri_back :: "nat graph_db" where
  "tri_back = tri_removed\<lparr>gr_items := gr_items tri_removed @ [(1, ''a'')]\<rparr>"

definition tri_edge :: "int \<Rightarrow> int \<Rightarrow> int \<Rightarrow> json" where
  "tri_edge i src dst = JObj [(''created_at'', JStr ''t''), (''dst'', JNum dst), (''id'', JNum i), (''props'', JStr ''{}''),
     (''src'', JNum src), (''type'', JStr ''depends_on''), (''weight'', JNull)]"

lemma tri_link_step: "(graph_step demo_weights)\<^sup>*\<^sup>* db (tri_link db src dst)"
  by (auto simp: tri_link_def split: sum.split intro: gs_link)

lemma tri_back_reached: "(graph_step demo_weights)\<^sup>*\<^sup>* empty_graph tri_back"
proof -
  let ?add = "\<lambda>db i uid. (db :: nat graph_db)\<lparr>gr_items := gr_items db @ [(i, uid)]\<rparr>"
  have add: "(graph_step demo_weights)\<^sup>*\<^sup>* db (?add db i uid)" if "\<not> has_item db i" for db i uid
    using gs_item [OF that] by blast
  have "tri_items = ?add (?add (?add empty_graph 1 ''a'') 2 ''b'') 3 ''c''"
    by (simp add: tri_items_def empty_graph_def)
  then have "(graph_step demo_weights)\<^sup>*\<^sup>* empty_graph tri_items"
    using add [of empty_graph 1 "''a''"] add [of "?add empty_graph 1 ''a''" 2 "''b''"]
      add [of "?add (?add empty_graph 1 ''a'') 2 ''b''" 3 "''c''"]
    by (simp add: has_item_def empty_graph_def)
  also have "(graph_step demo_weights)\<^sup>*\<^sup>* tri_items (tri_link (tri_link tri_items 1 2) 3 1)"
    using tri_link_step rtranclp_trans by metis
  also have "(graph_step demo_weights)\<^sup>*\<^sup>* (tri_link (tri_link tri_items 1 2) 3 1) tri_removed"
    using gs_remove [where ops = demo_weights and db = "tri_link (tri_link tri_items 1 2) 3 1" and i = 1 and log = "[]"] tri_link_step
    unfolding tri_removed_def by (meson converse_rtranclp_into_rtranclp)
  also have "(graph_step demo_weights)\<^sup>*\<^sup>* tri_removed tri_back"
  proof -
    have "\<not> has_item tri_removed 1" by code_simp
    then show ?thesis unfolding tri_back_def by (rule add)
  qed
  finally show ?thesis .
qed

theorem undo_restores_cycle:
  "\<exists>db db1 db2. (graph_step demo_weights)\<^sup>*\<^sup>* empty_graph db \<and>
     restore_edge (\<lambda>_. []) (\<lambda>_. None) db (tri_edge 1 1 2) = Inr (db1, 1) \<and>
     restore_edge (\<lambda>_. []) (\<lambda>_. None) db1 (tri_edge 2 3 1) = Inr (db2, 1) \<and>
     \<not> acyclic (set (edge_pairs db2 E_DependsOn))"
proof -
  have "case restore_edge (\<lambda>_. []) (\<lambda>_. None) tri_back (tri_edge 1 1 2) of
      Inr (db1, n) \<Rightarrow> n = 1 \<and> (case restore_edge (\<lambda>_. []) (\<lambda>_. None) db1 (tri_edge 2 3 1) of
          Inr (db2, m) \<Rightarrow> m = 1 \<and> edge_pairs db2 E_DependsOn = [(2, 3), (1, 2), (3, 1)]
        | Inl _ \<Rightarrow> False)
    | Inl _ \<Rightarrow> False" by code_simp
  then obtain db1 db2 where r: "restore_edge (\<lambda>_. []) (\<lambda>_. None) tri_back (tri_edge 1 1 2) = Inr (db1, 1)"
      "restore_edge (\<lambda>_. []) (\<lambda>_. None) db1 (tri_edge 2 3 1) = Inr (db2, 1)"
    and p: "edge_pairs db2 E_DependsOn = [(2, 3), (1, 2), (3, 1)]"
    by (auto split: sum.splits)
  have "(2, 3) \<in> set (edge_pairs db2 E_DependsOn)" "(3, 1) \<in> set (edge_pairs db2 E_DependsOn)"
    "(1, 2) \<in> set (edge_pairs db2 E_DependsOn)" by (simp_all add: p)
  then have "(2, 2) \<in> (set (edge_pairs db2 E_DependsOn))\<^sup>+" by (meson trancl.r_into_trancl trancl_trans)
  then have "\<not> acyclic (set (edge_pairs db2 E_DependsOn))" by (auto simp: acyclic_def)
  with tri_back_reached r show ?thesis by blast
qed

end
