(* ===== verification/Spec2Isabelle.thy ===== *)
theory Spec2Isabelle
  imports Fsm_Properties Sync_Lifecycle Unit_Lifecycle Types_Agent Workflow_Strategy Mq_Properties Core_Lease
    Task_Recovery Reviews_Frozen Core_Walk Daemon_Idempotency Exec_Properties Core_Session
    Namespace_Properties Graph_Undo
begin

text \<open>
  A verification library for jkb, a local knowledge base that drives agents over a DAG of tasks
  (Rust, under \<open>src/crates\<close>). It follows the crates that carry the system's own rules: the
  state-machine library and the machines written on it, access control and the credentials built
  on it, the tasks with their claims, reviews and history, the typed graph, the message queue and
  what is built on it, and the stores that make retries safe. Every definition is an executable
  function translated from the file named in its theory's opening text.

  \<^bold>\<open>Parts and how they interact.\<close> A transition table (\<open>jkb-fsm\<close>) is data; \<open>apply\<close> runs one event,
  \<open>reconcile\<close> fires the one observation that applies, \<open>check\<close> and \<open>audit\<close> look for defects. Tasks,
  sync journal entries, investigation units, notifications and workflows are five tables on it.
  A workflow's applied events are permissions of the access-control crate (\<open>jkb-rbac\<close>); a strategy
  chooses the graph and adds grants to a base table. Who is asking is a role, read from a stored
  grant. A task's transition writes its row, its claim, its history, its workflow and the change
  log as one; review rounds and landings are evidence the transition reads. Notifications and run
  requests tell their readers through the message queue, in the transaction of the fact they
  announce; a run request expires with the session that asked for it, which the session registry
  records. The daemon replays an answer it already gave.

  \<^bold>\<open>Theories\<close> (all paths under \<open>src/crates\<close>).
  \<^item> \<open>Jkb_Prelude\<close>: results, text, parsing by name, list lemmas, rule collections. \<open>Core_Text\<close>: UTF-8
    characters, trimming, lines. \<open>Core_Error\<close>: the error types.
  \<^item> \<open>Fsm_Fact\<close>, \<open>Fsm_Machine\<close>, \<open>Fsm_Check\<close>: \<open>jkb-fsm/src/fact.rs\<close>, \<open>machine.rs\<close>, \<open>check.rs\<close>. The
    locales \<open>det_machine\<close> and \<open>checked_machine\<close> are the contract a table keeps; each concrete
    table is an interpretation. \<open>Fsm_Properties\<close> states what a clean check means.
  \<^item> \<open>Types_Enums\<close>, \<open>Types_Agent\<close>: \<open>jkb-types/src/enums.rs\<close> (the locale \<open>stored_enum\<close>), \<open>agent.rs\<close>.
    \<open>Utf8_Lossy\<close>: UTF-8 as \<open>to_string_lossy\<close> reads the bytes of a path.
  \<^item> \<open>Task_Lifecycle\<close>, \<open>Sync_Lifecycle\<close>, \<open>Unit_Lifecycle\<close>: \<open>jkb-core/src/lifecycle.rs\<close>,
    \<open>jkb-sync/src/lifecycle.rs\<close>, \<open>jkb-core/src/nstype/lifecycle.rs\<close> with the facts of
    \<open>debugging.rs\<close> and \<open>roll_up\<close> of \<open>investigation.rs\<close>.
  \<^item> \<open>Rbac_Core\<close>: \<open>jkb-rbac/src/lib.rs\<close> (the locale \<open>permission_table\<close>). \<open>Core_Roles\<close>,
    \<open>Roles_Invariant\<close>: \<open>jkb-core/src/roles.rs\<close>.
  \<^item> \<open>Workflow_Graph\<close>, \<open>Workflow_Strategy\<close>, \<open>Workflow_Store\<close>: \<open>jkb-core/src/workflow/mod.rs\<close>,
    \<open>strategy.rs\<close>, \<open>store.rs\<close> (settling, firing, pinning a strategy).
  \<^item> \<open>Core_Changelog\<close>: \<open>jkb-core/src/changelog.rs\<close> and the inverse tables of \<open>undo.rs\<close>. \<open>Core_Store\<close>: the
    rows the task operations share (\<open>item.rs\<close>, \<open>binding.rs\<close> and others, as its map says).
  \<^item> \<open>Held_Until\<close>: the locale of something held by one owner until it is released, taken over by
    name or broken; \<open>Core_Lease\<close> (\<open>jkb-core/src/lease.rs\<close>) and \<open>Task_Claim\<close> (\<open>claim.rs\<close>) interpret it.
  \<^item> \<open>Core_Reviews\<close>, \<open>Reviews_Frozen\<close>: \<open>jkb-core/src/reviews.rs\<close>. \<open>Task_History\<close>: the history and
    landing half of \<open>transition.rs\<close>. \<open>Task_Transition\<close>: \<open>observe\<close>, \<open>perform\<close> and the effects.
    \<open>Task_Recovery\<close>: \<open>reclaim_judged\<close> and the reachable databases.
  \<^item> \<open>Core_Graph\<close>, \<open>Core_Walk\<close>: \<open>jkb-core/src/edge.rs\<close> and \<open>containment.rs\<close>, the cycle checks' recursive
    queries and the paged walk. \<open>Graph_Undo\<close>: the rows of both that \<open>undo.rs\<close> puts back.
  \<^item> \<open>Ns_Types\<close>: \<open>jkb-core/src/nstype\<close> (the registered types and the kinds they accept). \<open>Core_Namespace\<close>:
    \<open>ns.rs\<close>. \<open>Core_Placement\<close>: \<open>placement.rs\<close> and the contract check of \<open>nstype/mod.rs\<close>.
    \<open>Namespace_Tree\<close> (paths, the tree, the recursive queries), \<open>Namespace_Ops\<close> (\<open>ensure\<close>, the log),
    \<open>Namespace_Move\<close>, \<open>Namespace_Properties\<close>: what they keep.
  \<^item> \<open>Mq_Model\<close>, \<open>Mq_Properties\<close>: \<open>jkb-core/src/mq.rs\<close>.
  \<^item> \<open>Core_Notify\<close>: \<open>jkb-core/src/notify.rs\<close>. \<open>Core_Session\<close>: \<open>claude_session.rs\<close>. \<open>Core_Exec\<close>,
    \<open>Exec_Lifecycle\<close>, \<open>Exec_Properties\<close>: \<open>exec.rs\<close>, its step relation, and its properties.
  \<^item> \<open>Daemon_Idempotency\<close>: \<open>jkb-daemon/src/idempotency.rs\<close>.

  \<^bold>\<open>State and operations.\<close> A table of the database is a list of records in key order inside a record
  of tables; each SQL statement is the function of the rows it denotes, and an operation returns
  the tables it leaves, or an error that leaves them as they were, as the transaction does.
  Integers are unbounded where the code only compares and adds small ones, 32-bit words or
  written-out saturation where the width matters. Clocks, hashes, random bytes, base64 and the
  JSON library are arguments; where a property needs the JSON library to read back what it wrote,
  that is a named hypothesis (\<open>argv_codec\<close>, or the queue's reading back of a payload), as is what
  Unicode says of normalization form C (\<open>nfc_ok\<close>).

  \<^bold>\<open>What is shown.\<close> The tables are clean for every observation, not only the audited ones, and never
  ambiguous; a task is done only by a proven landing or an explicit ruling, and is never both
  terminal and claimed in any database the operations build. A transition is whole: row, claim,
  history and workflow move together or not at all. A claim or a lease changes hands only by its
  holder's release, a takeover naming it, or a break. A review round never changes once recorded.
  What the log accepts, undo can use. The edges and the containment of items stay acyclic under
  their own writers (an undo out of order can restore a cycle, \<open>Graph_Undo\<close> shows when); the
  walk returns exactly what is within its distance, up to its limit. No strategy that validates
  lets anyone but the operator override; a token that resolves has only live ancestors and a scope
  no wider than theirs, and revoking cuts exactly the subtree. The queue's caps hold, only what
  every group has consumed is reaped (reserved topics excepted), and acknowledging makes progress.
  A key is run at most once by the daemon and replayed with its own answer. The notification
  record and the screen agree. A run request runs at most once, exactly as approved, ends in
  time, and folds; the operations of \<open>exec.rs\<close> refine the table of moves at its head. A session is
  recorded as ended only on evidence about every process in it, and only then do its requests
  expire with it (this theory's property). Namespaces stay a tree of normalized paths, on which the
  recursive queries end and answer the paths, a move is exact, and a typed namespace refuses the
  kinds its type does not accept. Invariants are proved by induction over inductively defined
  runs. Every loop has a termination proof, and the graph's cycle checks end
  within as many rounds as there are edges, on any rows. The only fuel is that of the \<open>UNION ALL\<close> query of
  \<open>subtree\<close>, as many levels as there are rows: a query that needs more never ends, and on a tree
  none does. The walk assumes fewer edges than 64-bit ids.

  \<^bold>\<open>Not modelled.\<close> The HTTP, command-line, MCP and editor front ends, git and file-system I/O, the
  embedding, index and search crates (calls to SQLite extensions and floating-point ranking),
  migrations, the design documents (a CRDT of a third-party crate), undo's replay (but for the graph's rows), the
  query engine, \<open>child_counts\<close> and the other SQL reports, and the floating-point evidence of an
  investigation. Ids that AUTOINCREMENT may skip after a statement that inserted nothing are
  taken as not skipped.
\<close>

section \<open>Run requests and the session registry\<close>

text \<open>
  C27. Requests expire with their session, and only on evidence. Asked to expire the requests of a session
  after any run of hook events within the registry's memory: if any process heard of in it may still run
  (it could not be named, or its last event showed it running), nothing is changed; and if the
  registry says it ended, none of its requests is left pending.
\<close>

theorem session_end_expires_requests:
  assumes "sess_run tr sdb" and "within_prune tr"
    and "expire_if_ended env meta (Inr (session_state_of sdb sess = S_Ended)) sess now db = Inr (db', n)"
  shows "((\<exists>p. heard_of tr p \<and> pc_session p = sess \<and> (pc_pid p = [] \<or> last_shows_running tr p)) \<longrightarrow> db' = db \<and> n = 0) \<and>
    (session_state_of sdb sess = S_Ended \<longrightarrow>
      (\<forall>r \<in> set (xr_rows db'). rq_session (ex_requester r) = sess \<longrightarrow> ex_state r \<noteq> X_Pending))"
proof (cases "session_state_of sdb sess = S_Ended")
  case True
  then have "expire_session env meta sess now db = Inr (db', n)" using assms(3) by (simp add: expire_if_ended_def)
  from expire_session_leaves [OF this] ended_evidence [OF assms(1,2) True] show ?thesis by blast
next
  case False
  then show ?thesis using assms(3) by (simp add: expire_if_ended_def)
qed

theorem session_end_expires_requests_witness:
  "\<exists>sdb db'. sess_run demo_trace sdb \<and>
     expire_if_ended exec_demo_env exec_demo_meta (Inr (session_state_of sdb ''s'' = S_Ended)) ''s'' 5 exec_demo = Inr (db', 1) \<and>
     (\<forall>r \<in> set (xr_rows db'). rq_session (ex_requester r) = ''s'' \<longrightarrow> ex_state r \<noteq> X_Pending)"
proof -
  obtain sdb where d: "sess_run demo_trace sdb" "session_state_of sdb ''s'' = S_Ended" using demo_trace_run by blast
  obtain db' where e: "expire_session exec_demo_env exec_demo_meta ''s'' 5 exec_demo = Inr (db', 1)" by (rule exec_demo_expire)
  then have x: "expire_if_ended exec_demo_env exec_demo_meta (Inr (session_state_of sdb ''s'' = S_Ended)) ''s'' 5 exec_demo = Inr (db', 1)"
    using d(2) by (simp add: expire_if_ended_def)
  from session_end_expires_requests [OF d(1) demo_within x] d x show ?thesis by blast
qed

end
